(* ===== verification/Nova_Prelude.thy ===== *)
theory Nova_Prelude
  imports Main "HOL-Library.Word" "HOL-Library.Multiset" "HOL-Library.Monad_Syntax"
begin

unbundle bit_operations_syntax

section \<open>Shared vocabulary of the C data layer\<close>

text \<open>
  What every component of the C layer (the files under src/cbits) is modelled with: machine
  words, pointer values, the answers of the C allocator, results that may abort or be
  undefined, and the lemmas on words and lists the components share.
\<close>

named_theorems c_simps \<open>unfolding rules of the small C primitives\<close>
named_theorems wf_intros \<open>introduction rules of the components' well-formedness predicates\<close>

subsection \<open>Machine integers\<close>

text \<open>The fixed-width types of stdint.h; \<open>size_t\<close> is 64 bits wide (the layer refuses to
  compile on anything narrower, nn_thunk.h line 78).\<close>

type_synonym u8 = "8 word"
type_synonym u16 = "16 word"
type_synonym u32 = "32 word"
type_synonym u64 = "64 word"

abbreviation UINT32_MAX :: u32 where
  "UINT32_MAX \<equiv> 4294967295"

abbreviation UINT32_MAX64 :: u64 where
  "UINT32_MAX64 \<equiv> 4294967295"

abbreviation SIZE_MAX :: u64 where
  "SIZE_MAX \<equiv> 18446744073709551615"

lemma unat_u32_less: "unat (w :: u32) < 4294967296"
  using unsigned_less [of w] by simp

lemma unat_u64_less: "unat (w :: u64) < 18446744073709551616"
  using unsigned_less [of w] by simp

lemma unat_ucast_64 [simp]: "unat (ucast (w :: u32) :: u64) = unat w"
  using unat_u32_less [of w] by (simp add: unsigned_ucast_eq take_bit_nat_eq_self)

lemma ucast_64_eq_iff: "ucast (w :: u32) = (x :: u64) \<longleftrightarrow> unat w = unat x"
  by (metis unat_ucast_64 word_unat_eq_iff)

lemma unat_ucast_32: "unat (x :: u64) < 4294967296 \<Longrightarrow> unat (ucast x :: u32) = unat x"
  by (simp add: unsigned_ucast_eq take_bit_nat_eq_self)

lemma ucast_up_down [simp]:
  "ucast (ucast (x :: u32) :: u64) = x"
  "ucast (ucast (y :: u8) :: u64) = y"
  by (transfer, simp)+

lemma of_nat_unat_64: "of_nat (unat (w :: u32)) = (ucast w :: u64)"
  using unat_u32_less [of w]
  by (simp add: word_unat_eq_iff unsigned_of_nat take_bit_nat_eq_self)

lemma unat_Suc_u32: "unat (w :: u32) < 4294967295 \<Longrightarrow> unat (w + 1) = Suc (unat w)"
  by (simp add: unat_word_ariths)

lemma unat_add_u64:
  "unat (a :: u64) + unat b < 18446744073709551616 \<Longrightarrow> unat (a + b) = unat a + unat b"
  by (simp add: unat_word_ariths)

lemma unat_times_8: "unat ((ucast (n :: u32) :: u64) * 8) = 8 * unat n"
proof -
  have "8 * unat n < 18446744073709551616" using unat_u32_less [of n] by simp
  then show ?thesis by (simp add: unat_word_ariths mult.commute)
qed

lemma unat_double:
  fixes c :: u32
  assumes "\<not> c > UINT32_MAX div 2"
  shows "unat (c * 2) = 2 * unat c"
proof -
  from assms have "unat c \<le> 2147483647" by (simp add: word_less_nat_alt unat_div)
  then show ?thesis by (simp add: unat_word_ariths)
qed

subsection \<open>Pointer values\<close>

text \<open>
  A \<open>void *\<close> is a 64-bit value. \<open>Raw w\<close> is one this layer never dereferences: a scalar
  cast to a pointer, a Haskell StablePtr, or NULL, which is \<open>Raw 0\<close>. \<open>Ptr b n\<close> points to
  byte \<open>n\<close> of the block \<open>b\<close> that one allocator request returned.
\<close>

datatype val = Raw u64 | Ptr nat nat

abbreviation NULL :: val where
  "NULL \<equiv> Raw 0"

text \<open>\<open>intptr_t\<close> bits of a pointer value; \<open>base b\<close> is the address the allocator placed block
  \<open>b\<close> at.\<close>

fun val_bits :: "(nat \<Rightarrow> u64) \<Rightarrow> val \<Rightarrow> u64" where
  "val_bits base (Raw w) = w"
| "val_bits base (Ptr b n) = base b + of_nat n"

subsection \<open>The C allocator\<close>

text \<open>
  The allocator is the standard library's: each request is numbered, \<open>al_ok\<close> says whether the
  request of that number for that many bytes succeeds, and a successful one returns a block no
  earlier request returned, named by the request's number. A successful \<open>realloc\<close> ends the
  life of the old block and returns a new one, as the C standard has it. \<open>al_fill b i\<close> is the
  unspecified content of the \<open>i\<close>-th cell of block \<open>b\<close> when it is handed out by \<open>malloc\<close>.
\<close>

record allocator =
  al_ok :: "nat \<Rightarrow> u64 \<Rightarrow> bool"
  al_fill :: "nat \<Rightarrow> nat \<Rightarrow> u64"
  al_next :: nat

definition c_malloc :: "u64 \<Rightarrow> allocator \<Rightarrow> nat option \<times> allocator" where
  "c_malloc n al =
     (if al_ok al (al_next al) n then Some (al_next al) else None,
      al\<lparr>al_next := Suc (al_next al)\<rparr>)"

definition fill_u32 :: "allocator \<Rightarrow> nat \<Rightarrow> nat \<Rightarrow> nat \<Rightarrow> u32 list" where
  "fill_u32 al b lo hi = map (\<lambda>i. ucast (al_fill al b i)) [lo..<hi]"

definition fill_u8 :: "allocator \<Rightarrow> nat \<Rightarrow> nat \<Rightarrow> nat \<Rightarrow> u8 list" where
  "fill_u8 al b lo hi = map (\<lambda>i. ucast (al_fill al b i)) [lo..<hi]"

definition fill_val :: "allocator \<Rightarrow> nat \<Rightarrow> nat \<Rightarrow> nat \<Rightarrow> val list" where
  "fill_val al b lo hi = map (\<lambda>i. Raw (al_fill al b i)) [lo..<hi]"

text \<open>An allocator that serves every request, and one that refuses every request.\<close>

definition al_all :: allocator where
  "al_all = \<lparr>al_ok = (\<lambda>_ _. True), al_fill = (\<lambda>_ _. 0), al_next = 4\<rparr>"

definition al_none :: allocator where
  "al_none = \<lparr>al_ok = (\<lambda>_ _. False), al_fill = (\<lambda>_ _. 0), al_next = 4\<rparr>"

lemma c_malloc_next: "c_malloc n al = (r, al') \<Longrightarrow> al_next al' = Suc (al_next al)"
  by (auto simp: c_malloc_def)

lemma c_malloc_Some: "c_malloc n al = (Some b, al') \<Longrightarrow>
    b = al_next al \<and> al' = al\<lparr>al_next := Suc (al_next al)\<rparr>"
  by (auto simp: c_malloc_def split: if_splits)

lemma c_malloc_snd: "snd (c_malloc n al) = al\<lparr>al_next := Suc (al_next al)\<rparr>"
  by (simp add: c_malloc_def)

text \<open>What every step of the allocator leaves alone.\<close>

definition al_steps :: "allocator \<Rightarrow> allocator \<Rightarrow> bool" where
  "al_steps al al' \<longleftrightarrow> al_ok al' = al_ok al \<and> al_fill al' = al_fill al \<and> al_next al \<le> al_next al'"

lemma al_steps_refl [simp]: "al_steps al al"
  by (simp add: al_steps_def)

lemma al_steps_trans: "al_steps a b \<Longrightarrow> al_steps b c \<Longrightarrow> al_steps a c"
  by (simp add: al_steps_def)

lemma al_steps_malloc: "al_steps al (snd (c_malloc n al))"
  by (simp add: al_steps_def c_malloc_def)

lemma length_fill [simp]:
  "length (fill_u32 al b lo hi) = hi - lo"
  "length (fill_u8 al b lo hi) = hi - lo"
  "length (fill_val al b lo hi) = hi - lo"
  by (simp_all add: fill_u32_def fill_u8_def fill_val_def)

subsection \<open>Results\<close>

text \<open>
  What can end a call other than a return: \<open>Abort\<close> is the C \<open>abort()\<close> (a failed NN_ASSERT in a
  debug build, or a failed allocation inside an init function); \<open>Undefined\<close> is undefined
  behaviour of C (a NULL or dangling pointer dereferenced, an access outside its array, a
  block freed twice); \<open>Diverge\<close> is a loop that never ends.
\<close>

datatype c_error = Abort | Undefined | Diverge

type_synonym 'a c_res = "c_error + 'a"

text \<open>
  nn_assert.h: under NDEBUG the check compiles to nothing, otherwise a false condition prints
  its message and aborts. \<open>dbg\<close> is the build: True for a build without NDEBUG.
\<close>

definition NN_ASSERT :: "bool \<Rightarrow> bool \<Rightarrow> 'a c_res \<Rightarrow> 'a c_res" where
  "NN_ASSERT dbg cond rest = (if dbg \<and> \<not> cond then Inl Abort else rest)"

lemma NN_ASSERT_True [simp]: "NN_ASSERT dbg True k = k"
  by (simp add: NN_ASSERT_def)

lemma NN_ASSERT_release [simp]: "NN_ASSERT False c k = k"
  by (simp add: NN_ASSERT_def)

lemma NN_ASSERT_debug [simp]: "NN_ASSERT True False k = Inl Abort"
  by (simp add: NN_ASSERT_def)

definition res_bind :: "'a c_res \<Rightarrow> ('a \<Rightarrow> 'b c_res) \<Rightarrow> 'b c_res" where
  "res_bind m f = (case m of Inl e \<Rightarrow> Inl e | Inr x \<Rightarrow> f x)"

lemma res_bind_simps [simp]:
  "res_bind (Inl e) f = Inl e"
  "res_bind (Inr x) f = f x"
  by (simp_all add: res_bind_def)

lemma res_bind_Inr_iff: "res_bind m f = Inr y \<longleftrightarrow> (\<exists>x. m = Inr x \<and> f x = Inr y)"
  by (cases m) auto

text \<open>\<open>free\<close> of a block of a heap of typed objects: freeing one that is not there is
  undefined behaviour.\<close>

definition c_free :: "nat \<Rightarrow> (nat \<rightharpoonup> 'a) \<Rightarrow> (nat \<rightharpoonup> 'a) c_res" where
  "c_free b h = (case h b of None \<Rightarrow> Inl Undefined | Some _ \<Rightarrow> Inr (h(b := None)))"

fun c_free_each :: "nat list \<Rightarrow> (nat \<rightharpoonup> 'a) \<Rightarrow> (nat \<rightharpoonup> 'a) c_res" where
  "c_free_each [] h = Inr h"
| "c_free_each (b # bs) h = res_bind (c_free b h) (c_free_each bs)"

lemma c_free_each_ok:
  assumes "distinct bs" and "set bs \<subseteq> dom h"
  shows "c_free_each bs h = Inr (h |` (- set bs))"
  using assms
proof (induction bs arbitrary: h)
  case Nil
  then show ?case by simp
next
  case (Cons b bs)
  then obtain x where x: "h b = Some x" by auto
  from Cons.prems have "set bs \<subseteq> dom (h(b := None))" by auto
  with Cons have "c_free_each bs (h(b := None)) = Inr ((h(b := None)) |` (- set bs))"
    by simp
  moreover have "(h(b := None)) |` (- set bs) = h |` (- set (b # bs))"
    by (auto simp: restrict_map_def)
  ultimately show ?case using x by (simp add: c_free_def)
qed

lemma c_free_each_double:
  assumes "\<not> (distinct bs \<and> set bs \<subseteq> dom h)"
  shows "c_free_each bs h = Inl Undefined"
  using assms
proof (induction bs arbitrary: h)
  case (Cons b bs)
  show ?case
  proof (cases "h b")
    case (Some x)
    with Cons.prems have "\<not> (distinct bs \<and> set bs \<subseteq> dom (h(b := None)))" by auto
    with Cons.IH Some show ?thesis by (simp add: c_free_def)
  qed (simp add: c_free_def)
qed simp

subsection \<open>Blocks of memory as lists\<close>

text \<open>\<open>memmove\<close> inside one block: \<open>n\<close> cells from \<open>src\<close> to \<open>dst\<close>, all read before any is
  written.\<close>

definition memmove_in :: "nat \<Rightarrow> nat \<Rightarrow> nat \<Rightarrow> 'a list \<Rightarrow> 'a list" where
  "memmove_in dst src n xs =
     map (\<lambda>i. if dst \<le> i \<and> i < dst + n then xs ! (src + (i - dst)) else xs ! i) [0..<length xs]"

text \<open>\<open>memcpy\<close> of the cells \<open>ys\<close> into a block at \<open>dst\<close>.\<close>

definition memcpy_at :: "nat \<Rightarrow> 'a list \<Rightarrow> 'a list \<Rightarrow> 'a list" where
  "memcpy_at dst ys xs = take dst xs @ ys @ drop (dst + length ys) xs"

lemma length_memmove_in [simp]: "length (memmove_in d s n xs) = length xs"
  by (simp add: memmove_in_def)

lemma nth_memmove_in:
  "i < length xs \<Longrightarrow> memmove_in d s n xs ! i =
     (if d \<le> i \<and> i < d + n then xs ! (s + (i - d)) else xs ! i)"
  by (simp add: memmove_in_def)

lemma length_memcpy_at [simp]:
  "d + length ys \<le> length xs \<Longrightarrow> length (memcpy_at d ys xs) = length xs"
  by (simp add: memcpy_at_def)

lemma take_memcpy_at_before:
  "d + length ys \<le> length xs \<Longrightarrow> n \<le> d \<Longrightarrow> take n (memcpy_at d ys xs) = take n xs"
  by (simp add: memcpy_at_def min_def)

lemma nth_memcpy_at_before:
  "d + length ys \<le> length xs \<Longrightarrow> i < d \<Longrightarrow> memcpy_at d ys xs ! i = xs ! i"
  by (simp add: memcpy_at_def nth_append)

lemma nth_memcpy_at_in:
  "d + length ys \<le> length xs \<Longrightarrow> i < length ys \<Longrightarrow> memcpy_at d ys xs ! (d + i) = ys ! i"
  by (simp add: memcpy_at_def nth_append)

lemma slice_memcpy_at:
  "d + length ys \<le> length xs \<Longrightarrow> take (length ys) (drop d (memcpy_at d ys xs)) = ys"
  by (simp add: memcpy_at_def)

lemma slice_memcpy_at_before:
  assumes "d + length ys \<le> length xs" and "i + n \<le> d"
  shows "take n (drop i (memcpy_at d ys xs)) = take n (drop i xs)"
  using assms by (simp add: memcpy_at_def drop_take)

end
