(* ===== verification/Nova_Slots.thy ===== *)
theory Nova_Slots
  imports Nova_Prelude
begin

section \<open>The slot table of the symbol table: open addressing with linear probing\<close>

text \<open>
  nn_symbol.c keeps its hash index in an array of slots whose length is a power of two. A probe
  starts at the slot the hash selects and walks forward, wrapping at the end, until it meets an
  empty slot. This theory holds the slots, the two loops that work on slots alone (the search
  for an empty slot, and the rebuild of the table at a larger capacity), and the theory of
  linear probing both rest on: every stored slot can be reached from its home position over
  occupied slots only, and filling an empty slot keeps that for all others.
\<close>

text \<open>\<open>nn_slot_t\<close>: an empty slot has id 0.\<close>

record sym_slot =
  sl_hash :: u32
  sl_id :: u32

definition empty_slot :: sym_slot where
  "empty_slot = \<lparr>sl_hash = 0, sl_id = 0\<rparr>"

text \<open>\<open>while (slots[idx].id != 0) idx = (idx + 1) & mask;\<close> It never ends on a full table.\<close>

partial_function (option) find_empty :: "sym_slot list \<Rightarrow> u32 \<Rightarrow> u32 \<Rightarrow> u32 option" where
  "find_empty slots msk idx =
     (if sl_id (slots ! unat idx) \<noteq> 0 then find_empty slots msk ((idx + 1) AND msk)
      else Some idx)"

text \<open>The loop of \<open>slots_grow\<close> over the old slots: each occupied one is put into the first
  empty slot of the new table from its home position on.\<close>

fun rehash :: "u32 \<Rightarrow> sym_slot list \<Rightarrow> sym_slot list \<Rightarrow> sym_slot list option" where
  "rehash new_mask [] new_slots = Some new_slots"
| "rehash new_mask (s # ss) new_slots =
     (if sl_id s = 0 then rehash new_mask ss new_slots
      else case find_empty new_slots new_mask (sl_hash s AND new_mask) of
             None \<Rightarrow> None
           | Some idx \<Rightarrow> rehash new_mask ss (new_slots[unat idx := s]))"

subsection \<open>Power-of-two masks\<close>

definition mask_for :: "nat \<Rightarrow> u32 \<Rightarrow> bool" where
  "mask_for n msk \<longleftrightarrow> (\<exists>k\<le>31. n = 2 ^ k \<and> msk = 2 ^ k - 1)"

lemma mask_for_and:
  assumes "mask_for n msk"
  shows "unat (w AND msk) = unat w mod n"
proof -
  from assms obtain k where k: "n = 2 ^ k" "msk = 2 ^ k - 1" "k \<le> 31"
    by (auto simp: mask_for_def)
  have "w AND msk = take_bit k w" by (simp add: k take_bit_eq_mask mask_eq_exp_minus_1)
  then have "unat (w AND msk) = take_bit k (unat w)" by (simp only: unsigned_take_bit_eq)
  then show ?thesis by (simp only: k take_bit_eq_mod)
qed

lemma mask_for_pos: "mask_for n msk \<Longrightarrow> 0 < n"
  by (auto simp: mask_for_def)

lemma mask_for_bound:
  assumes "mask_for n msk"
  shows "n \<le> 2 ^ 31"
proof -
  from assms obtain k where "n = 2 ^ k" "k \<le> 31" by (auto simp: mask_for_def)
  then show ?thesis using power_increasing [of k 31 "2::nat"] by simp
qed

lemma mask_for_step:
  assumes m: "mask_for n msk" and i: "unat idx < n"
  shows "unat ((idx + 1) AND msk) = (unat idx + 1) mod n"
proof -
  have "unat idx + 1 < 2 ^ 32" using i mask_for_bound [OF m] by simp
  then have "unat (idx + 1) = unat idx + 1" by (simp add: unat_word_ariths)
  then show ?thesis by (simp add: mask_for_and [OF m])
qed

lemma mask_for_of_cap:
  fixes cap :: u32
  assumes "unat cap = 2 ^ k" and "k \<le> 31"
  shows "mask_for (unat cap) (cap - 1)"
proof -
  have "cap = of_nat (unat cap)" by simp
  also have "\<dots> = 2 ^ k" by (simp add: assms)
  finally show ?thesis using assms by (auto simp: mask_for_def)
qed

lemma unat_of_nat_slot: "n \<le> 2 ^ 31 \<Longrightarrow> i < n \<Longrightarrow> unat (of_nat i :: u32) = i"
  by (simp add: unat_of_nat)

subsection \<open>Walking the table\<close>

definition occupied :: "sym_slot list \<Rightarrow> sym_slot list" where
  "occupied slots = filter (\<lambda>s. sl_id s \<noteq> 0) slots"

lemma occupied_replicate [simp]: "occupied (replicate n empty_slot) = []"
  by (simp add: occupied_def empty_slot_def)

lemma length_occupied_le: "length (occupied slots) \<le> length slots"
  by (simp add: occupied_def)

lemma exists_empty:
  assumes "length (occupied slots) < length slots"
  shows "\<exists>i < length slots. sl_id (slots ! i) = 0"
proof (rule ccontr)
  assume "\<not> ?thesis"
  then have "\<forall>s \<in> set slots. sl_id s \<noteq> 0" by (auto simp: in_set_conv_nth)
  then have "occupied slots = slots" by (simp add: occupied_def filter_id_conv)
  with assms show False by simp
qed

lemma first_empty:
  assumes "i < n" and "i0 < n" and "sl_id (slots ! i) = 0"
  obtains d where "d < n" and "sl_id (slots ! ((i0 + d) mod n)) = 0"
    and "\<forall>e < d. sl_id (slots ! ((i0 + e) mod n)) \<noteq> 0"
proof -
  define d0 where "d0 = (n + i - i0) mod n"
  have "(i0 + d0) mod n = (i0 + (n + i - i0)) mod n" by (simp add: d0_def mod_simps)
  also have "\<dots> = i" using assms by simp
  finally have d0: "(i0 + d0) mod n = i" .
  let ?P = "\<lambda>d. sl_id (slots ! ((i0 + d) mod n)) = 0"
  have P0: "?P d0" using d0 assms by simp
  have "Least ?P \<le> d0" using P0 by (rule Least_le)
  also have "d0 < n" using assms by (simp add: d0_def)
  finally have "Least ?P < n" .
  moreover have "?P (Least ?P)" using P0 by (rule LeastI)
  moreover have "\<forall>e < Least ?P. \<not> ?P e" using not_less_Least by blast
  ultimately show ?thesis using that by blast
qed

lemma find_empty_walk:
  assumes m: "mask_for n msk" and "unat idx < n" and "d < n"
    and "sl_id (slots ! ((unat idx + d) mod n)) = 0"
    and "\<forall>e < d. sl_id (slots ! ((unat idx + e) mod n)) \<noteq> 0"
  shows "find_empty slots msk idx = Some (of_nat ((unat idx + d) mod n))"
  using assms(2-)
proof (induction d arbitrary: idx)
  case 0
  then show ?case by (simp add: find_empty.simps)
next
  case (Suc d)
  let ?j = "(idx + 1) AND msk"
  have j: "unat ?j = (unat idx + 1) mod n" using m Suc.prems(1) by (rule mask_for_step)
  have shift: "(unat ?j + e) mod n = (unat idx + Suc e) mod n" for e
    by (simp add: j mod_simps)
  have "sl_id (slots ! unat idx) \<noteq> 0" using Suc.prems(1,4) by (auto dest: spec [of _ 0])
  then have "find_empty slots msk idx = find_empty slots msk ?j"
    by (subst find_empty.simps) simp
  also have "\<dots> = Some (of_nat ((unat ?j + d) mod n))"
  proof (rule Suc.IH)
    show "unat ?j < n" using j mask_for_pos [OF m] by simp
    show "d < n" using Suc.prems by simp
    show "sl_id (slots ! ((unat ?j + d) mod n)) = 0" using Suc.prems(3) by (simp add: shift)
    show "\<forall>e < d. sl_id (slots ! ((unat ?j + e) mod n)) \<noteq> 0"
      using Suc.prems(4) unfolding shift by (metis Suc_mono)
  qed
  finally show ?case by (simp add: shift)
qed

subsection \<open>Reachability\<close>

text \<open>A stored slot is reached by a probe for its hash: it stands at some distance from its
  home position, over occupied slots only.\<close>

definition reaches :: "sym_slot list \<Rightarrow> sym_slot \<Rightarrow> bool" where
  "reaches slots s \<longleftrightarrow> (\<exists>d < length slots.
     slots ! ((unat (sl_hash s) + d) mod length slots) = s \<and>
     (\<forall>e < d. sl_id (slots ! ((unat (sl_hash s) + e) mod length slots)) \<noteq> 0))"

text \<open>The table holds exactly the given slots, each reachable.\<close>

definition table_holds :: "sym_slot list \<Rightarrow> sym_slot multiset \<Rightarrow> bool" where
  "table_holds slots M \<longleftrightarrow> mset (occupied slots) = M \<and> (\<forall>s \<in># M. reaches slots s)"

lemma mset_occupied_update:
  assumes "i < length slots" and "sl_id (slots ! i) = 0" and "sl_id s \<noteq> 0"
  shows "mset (occupied (slots[i := s])) = add_mset s (mset (occupied slots))"
proof -
  have "occupied slots = occupied (take i slots @ slots ! i # drop (Suc i) slots)"
    using id_take_nth_drop [OF assms(1)] by (rule arg_cong)
  also have "\<dots> = occupied (take i slots) @ occupied (drop (Suc i) slots)"
    using assms(2) by (simp add: occupied_def)
  finally have "occupied slots = occupied (take i slots) @ occupied (drop (Suc i) slots)" .
  moreover have "slots[i := s] = take i slots @ s # drop (Suc i) slots"
    using assms(1) by (rule upd_conv_take_nth_drop)
  ultimately show ?thesis using assms(3) by (simp add: occupied_def)
qed

lemma reaches_update:
  assumes r: "reaches slots s" and "i < length slots" and "sl_id (slots ! i) = 0"
    and "sl_id t \<noteq> 0" and "sl_id s \<noteq> 0"
  shows "reaches (slots[i := t]) s"
proof -
  let ?n = "length slots" and ?h = "unat (sl_hash s)"
  from r obtain d where d: "d < ?n" "slots ! ((?h + d) mod ?n) = s"
    "\<forall>e < d. sl_id (slots ! ((?h + e) mod ?n)) \<noteq> 0"
    by (auto simp: reaches_def)
  have "(?h + d) mod ?n \<noteq> i" using d(2) assms(3,5) by auto
  with d assms(2,4) show ?thesis
    by (auto simp: reaches_def nth_list_update intro!: exI [of _ d])
qed

lemma table_insert:
  assumes t: "table_holds slots M" and i: "i < length slots" and e: "sl_id (slots ! i) = 0"
    and s: "sl_id s \<noteq> 0" and d: "d < length slots"
    and id: "i = (unat (sl_hash s) + d) mod length slots"
    and path: "\<forall>e < d. sl_id (slots ! ((unat (sl_hash s) + e) mod length slots)) \<noteq> 0"
  shows "table_holds (slots[i := s]) (add_mset s M)"
proof -
  have m: "mset (occupied (slots[i := s])) = add_mset s M"
    using mset_occupied_update [OF i e s] t by (simp add: table_holds_def)
  have "reaches (slots[i := s]) s"
    unfolding reaches_def using d id path i s by (auto intro!: exI [of _ d] simp: nth_list_update)
  moreover have "reaches (slots[i := s]) u" if "u \<in># M" for u
  proof (rule reaches_update [OF _ i e s])
    show "reaches slots u" using t that by (auto simp: table_holds_def)
    have "u \<in> set (occupied slots)" using t that unfolding table_holds_def
      by (metis set_mset_mset)
    then show "sl_id u \<noteq> 0" by (simp add: occupied_def)
  qed
  ultimately show ?thesis using m by (auto simp: table_holds_def)
qed

lemma table_holds_size: "table_holds slots M \<Longrightarrow> length (occupied slots) = size M"
  by (metis table_holds_def size_mset)

text \<open>One insertion: a table with room has a first empty slot, and storing there keeps the
  table's contract.\<close>

lemma find_empty_inserts:
  assumes t: "table_holds slots M" and room: "size M < length slots"
    and m: "mask_for (length slots) msk" and s: "sl_id s \<noteq> 0"
  obtains idx where "find_empty slots msk (sl_hash s AND msk) = Some idx"
    and "unat idx < length slots"
    and "table_holds (slots[unat idx := s]) (add_mset s M)"
proof -
  let ?n = "length slots"
  have h: "unat (sl_hash s AND msk) = unat (sl_hash s) mod ?n" by (rule mask_for_and [OF m])
  have pos: "0 < ?n" using m by (rule mask_for_pos)
  have shift: "(unat (sl_hash s) mod ?n + e) mod ?n = (unat (sl_hash s) + e) mod ?n" for e
    by (simp add: mod_simps)
  from room table_holds_size [OF t] obtain i where "i < ?n" "sl_id (slots ! i) = 0"
    using exists_empty by metis
  then obtain d where d: "d < ?n" "sl_id (slots ! ((unat (sl_hash s) mod ?n + d) mod ?n)) = 0"
    "\<forall>e < d. sl_id (slots ! ((unat (sl_hash s) mod ?n + e) mod ?n)) \<noteq> 0"
    using first_empty [of i ?n "unat (sl_hash s) mod ?n" slots] pos by (metis mod_less_divisor)
  let ?j = "(unat (sl_hash s) + d) mod ?n"
  have j: "?j < ?n" using pos by simp
  have "find_empty slots msk (sl_hash s AND msk) = Some (of_nat ?j)"
    using find_empty_walk [OF m, of "sl_hash s AND msk" d slots] d pos h by (simp add: shift)
  moreover have "unat (of_nat ?j :: u32) = ?j"
    using mask_for_bound [OF m] j by (rule unat_of_nat_slot)
  moreover have "table_holds (slots[?j := s]) (add_mset s M)"
    using table_insert [OF t j _ s d(1) refl] d by (simp add: shift)
  ultimately show ?thesis using that j by simp
qed

text \<open>The rebuild stores every occupied slot and nothing else, and always ends when the new
  table is larger than what it has to hold.\<close>

lemma rehash_holds:
  assumes "table_holds new M" and "size M + length (occupied ss) < length new"
    and "mask_for (length new) msk"
  shows "\<exists>new'. rehash msk ss new = Some new' \<and> length new' = length new \<and>
    table_holds new' (M + mset (occupied ss))"
  using assms
proof (induction ss arbitrary: new M)
  case Nil
  then show ?case by (simp add: occupied_def)
next
  case (Cons s ss)
  show ?case
  proof (cases "sl_id s = 0")
    case True
    with Cons show ?thesis by (simp add: occupied_def)
  next
    case False
    then have o: "occupied (s # ss) = s # occupied ss" by (simp add: occupied_def)
    from Cons.prems(2) o have "size M < length new" by simp
    then obtain idx where idx: "find_empty new msk (sl_hash s AND msk) = Some idx"
      "table_holds (new[unat idx := s]) (add_mset s M)"
      using find_empty_inserts [OF Cons.prems(1) _ Cons.prems(3) False] by metis
    have "\<exists>new'. rehash msk ss (new[unat idx := s]) = Some new' \<and>
      length new' = length (new[unat idx := s]) \<and>
      table_holds new' (add_mset s M + mset (occupied ss))"
      using Cons.prems o by (intro Cons.IH idx(2)) simp_all
    then show ?thesis using False idx(1) o by simp
  qed
qed

lemma table_holds_empty: "table_holds (replicate n empty_slot) {#}"
  by (simp add: table_holds_def)

end
