(* ===== verification/Nova_Interner.thy ===== *)
theory Nova_Interner
  imports Nova_Prelude
begin

section \<open>The interface of an interner\<close>

text \<open>
  What the rest of the program relies on when it replaces strings by symbols and compares the
  symbols: the contract of \<open>nn_symbol_intern\<close> as nn_symbol.h states it, as the locale
  \<open>interner\<close>. What a client may conclude from it (symbols identify strings, a symbol keeps its
  string while others are interned) is proved once here, for any run of interns.
\<close>

text \<open>
  The abstract table is the list of the strings interned so far, in the order of their symbols.
  A string's symbol is one more than its position, or the next symbol when it is new.
\<close>

definition intern_index :: "'k list \<Rightarrow> 'k \<Rightarrow> nat" where
  "intern_index ns s = Suc (length (takeWhile (\<lambda>x. x \<noteq> s) ns))"

definition intern_names :: "'k list \<Rightarrow> 'k \<Rightarrow> 'k list" where
  "intern_names ns s = (if s \<in> set ns then ns else ns @ [s])"

lemma intern_index_new: "s \<notin> set ns \<Longrightarrow> intern_index ns s = Suc (length ns)"
  by (induction ns) (auto simp: intern_index_def)

lemma intern_index_le: "intern_index ns s \<le> Suc (length ns)"
  by (simp add: intern_index_def length_takeWhile_le)

lemma intern_index_nth:
  "intern_names ns s ! (intern_index ns s - 1) = s \<and> intern_index ns s - 1 < length (intern_names ns s)"
proof (cases "s \<in> set ns")
  case True
  then have l: "length (takeWhile (\<lambda>x. x \<noteq> s) ns) < length ns"
    by (induction ns) auto
  from nth_length_takeWhile [OF l] l True show ?thesis
    by (simp add: intern_index_def intern_names_def)
next
  case False
  then show ?thesis by (simp add: intern_index_new intern_names_def)
qed

lemma distinct_intern_names: "distinct ns \<Longrightarrow> distinct (intern_names ns s)"
  by (simp add: intern_names_def)

lemma intern_index_distinct:
  assumes "distinct ns" and "i < length ns"
  shows "intern_index ns (ns ! i) = Suc i"
proof -
  have "intern_names ns (ns ! i) = ns" using assms(2) by (simp add: intern_names_def)
  then have "ns ! (intern_index ns (ns ! i) - 1) = ns ! i" "intern_index ns (ns ! i) - 1 < length ns"
    using intern_index_nth [of ns "ns ! i"] by simp_all
  with assms have "intern_index ns (ns ! i) - 1 = i" by (metis nth_eq_iff_index_eq)
  then show ?thesis by (simp add: intern_index_def)
qed

text \<open>A client interning one string after another, as the Haskell side does while it parses
  and evaluates; the symbols come back in order.\<close>

fun intern_all ::
  "('al \<Rightarrow> 'st \<Rightarrow> 'k \<Rightarrow> (u32 \<times> 'al \<times> 'st) c_res) \<Rightarrow> 'al \<Rightarrow> 'st \<Rightarrow> 'k list \<Rightarrow>
    (u32 list \<times> 'al \<times> 'st) c_res" where
  "intern_all f al t [] = Inr ([], al, t)"
| "intern_all f al t (s # ss) =
     res_bind (f al t s) (\<lambda>(r, al1, t1).
     res_bind (intern_all f al1 t1 ss) (\<lambda>(rs, al2, t2). Inr (r # rs, al2, t2)))"

text \<open>The symbol \<open>r\<close> stands for the string \<open>s\<close> in a table that holds the strings \<open>ns\<close>.\<close>

definition stands_for :: "'k list \<Rightarrow> u32 \<Rightarrow> 'k \<Rightarrow> bool" where
  "stands_for ns r s \<longleftrightarrow> r \<noteq> 0 \<and> unat r \<le> length ns \<and> ns ! (unat r - 1) = s"

lemma stands_for_append: "stands_for ns r s \<Longrightarrow> stands_for (ns @ extra) r s"
proof -
  assume a: "stands_for ns r s"
  then have "unat r \<noteq> 0" by (simp add: stands_for_def unat_eq_0)
  with a show ?thesis by (auto simp: stands_for_def nth_append)
qed

lemma stands_for_inj:
  assumes "distinct ns" and "stands_for ns r s" and "stands_for ns r' s'"
  shows "r = r' \<longleftrightarrow> s = s'"
proof -
  from assms(2,3) have "unat r \<noteq> 0" "unat r' \<noteq> 0" by (simp_all add: stands_for_def unat_eq_0)
  with assms have "s = s' \<longleftrightarrow> unat r - 1 = unat r' - 1"
    by (auto simp: stands_for_def nth_eq_iff_index_eq)
  also have "\<dots> \<longleftrightarrow> unat r = unat r'" using \<open>unat r \<noteq> 0\<close> \<open>unat r' \<noteq> 0\<close> by auto
  finally show ?thesis by (simp add: word_unat_eq_iff)
qed

locale interner =
  fixes intern :: "'al \<Rightarrow> 'st \<Rightarrow> 'k \<Rightarrow> (u32 \<times> 'al \<times> 'st) c_res"
    and names :: "'st \<Rightarrow> 'k list"
    and inv :: "'st \<Rightarrow> bool"
    and fits :: "'k \<Rightarrow> bool"
  assumes distinct_names: "inv t \<Longrightarrow> distinct (names t)"
    and intern_result: "inv t \<Longrightarrow> fits s \<Longrightarrow> \<exists>r al' t'. intern al t s = Inr (r, al', t') \<and> inv t' \<and>
      ((r = 0 \<and> names t' = names t) \<or>
       (unat r = intern_index (names t) s \<and> names t' = intern_names (names t) s))"
begin

lemma intern_step:
  assumes "inv t" and "fits s"
  obtains r al' t' extra where "intern al t s = Inr (r, al', t')" and "inv t'"
    and "names t' = names t @ extra" and "r \<noteq> 0 \<Longrightarrow> stands_for (names t') r s"
proof -
  obtain r al' t' where r: "intern al t s = Inr (r, al', t')" "inv t'"
    "(r = 0 \<and> names t' = names t) \<or>
     (unat r = intern_index (names t) s \<and> names t' = intern_names (names t) s)"
    using intern_result [OF assms] by blast
  then obtain extra where "names t' = names t @ extra" by (auto simp: intern_names_def split: if_splits)
  moreover have "stands_for (names t') r s" if "r \<noteq> 0"
    using that r(3) intern_index_nth [of "names t" s] by (auto simp: stands_for_def)
  ultimately show ?thesis using that r by blast
qed

lemma intern_all_result:
  assumes "inv t" and "\<forall>s \<in> set ss. fits s"
  shows "\<exists>rs al' t' extra. intern_all intern al t ss = Inr (rs, al', t') \<and> inv t' \<and>
    names t' = names t @ extra \<and> length rs = length ss \<and>
    (\<forall>i < length ss. rs ! i \<noteq> 0 \<longrightarrow> stands_for (names t') (rs ! i) (ss ! i))"
  using assms
proof (induction ss arbitrary: al t)
  case Nil
  then show ?case by simp
next
  case (Cons s ss)
  from Cons.prems have "inv t" "fits s" by simp_all
  then obtain r al1 t1 m1 where r: "intern al t s = Inr (r, al1, t1)" "inv t1"
    "names t1 = names t @ m1" "r \<noteq> 0 \<Longrightarrow> stands_for (names t1) r s"
    using intern_step [of t s al] by blast
  obtain rs al2 t2 m2 where rs: "intern_all intern al1 t1 ss = Inr (rs, al2, t2)" "inv t2"
    "names t2 = names t1 @ m2" "length rs = length ss"
    "\<forall>i < length ss. rs ! i \<noteq> 0 \<longrightarrow> stands_for (names t2) (rs ! i) (ss ! i)"
    using Cons.IH [OF r(2), of al1] Cons.prems(2) by auto
  have "\<forall>i < length (s # ss). (r # rs) ! i \<noteq> 0 \<longrightarrow> stands_for (names t2) ((r # rs) ! i) ((s # ss) ! i)"
    using rs(3,5) r(4) by (auto simp: nth_Cons stands_for_append split: nat.splits)
  with r rs show ?case by simp
qed

text \<open>Two symbols of one run are equal exactly when their strings are.\<close>

lemma symbols_identify:
  assumes "inv t" and "\<forall>s \<in> set ss. fits s" and "intern_all intern al t ss = Inr (rs, al', t')"
    and "i < length ss" and "j < length ss" and "rs ! i \<noteq> 0" and "rs ! j \<noteq> 0"
  shows "rs ! i = rs ! j \<longleftrightarrow> ss ! i = ss ! j"
proof -
  from intern_all_result [OF assms(1,2), of al] assms(3)
  have "inv t'" and "\<forall>i < length ss. rs ! i \<noteq> 0 \<longrightarrow> stands_for (names t') (rs ! i) (ss ! i)"
    by auto
  with assms(4-7) stands_for_inj [OF distinct_names] show ?thesis by blast
qed

end

end
