(* ===== verification/Nova_Intern.thy ===== *)
theory Nova_Intern
  imports Nova_Symbol Nova_Interner
begin

section \<open>Correctness of the symbol table\<close>

text \<open>
  The invariant of a live table, the loops of nn_symbol.c and what each operation does to the
  invariant and to the list of interned strings.
\<close>

subsection \<open>The invariant\<close>

text \<open>The text of the symbol \<open>i\<close>, and the interned strings in the order of their symbols.\<close>

definition sym_text :: "symtab \<Rightarrow> nat \<Rightarrow> u8 list" where
  "sym_text t i = take (unat (se_len (sy_entries t ! i)))
     (drop (unat (se_offset (sy_entries t ! i))) (sy_arena t))"

definition sym_names :: "symtab \<Rightarrow> u8 list list" where
  "sym_names t = map (sym_text t) [1..<Suc (unat (sy_count t))]"

text \<open>An entry lies inside the used part of the arena, is followed by a NUL and caches the
  hash of its text.\<close>

definition entry_wf :: "symtab \<Rightarrow> nat \<Rightarrow> bool" where
  "entry_wf t i \<longleftrightarrow>
     unat (se_offset (sy_entries t ! i)) + unat (se_len (sy_entries t ! i)) < unat (sy_arena_used t) \<and>
     sy_arena t ! (unat (se_offset (sy_entries t ! i)) + unat (se_len (sy_entries t ! i))) = 0 \<and>
     se_hash (sy_entries t ! i) = fnv1a (sym_text t i)"

definition sym_slot_of :: "symtab \<Rightarrow> nat \<Rightarrow> sym_slot" where
  "sym_slot_of t i = \<lparr>sl_hash = se_hash (sy_entries t ! i), sl_id = of_nat i\<rparr>"

definition sym_expected :: "symtab \<Rightarrow> sym_slot multiset" where
  "sym_expected t = mset (map (sym_slot_of t) [1..<Suc (unat (sy_count t))])"

definition slots_wf :: "symtab \<Rightarrow> bool" where
  "slots_wf t \<longleftrightarrow>
     (\<exists>k. 1 \<le> k \<and> k \<le> 31 \<and> unat (sy_slots_cap t) = 2 ^ k) \<and>
     sy_slots_mask t = sy_slots_cap t - 1 \<and>
     length (sy_slots t) = unat (sy_slots_cap t) \<and>
     100 * unat (sy_count t) < 75 * unat (sy_slots_cap t) \<and>
     table_holds (sy_slots t) (sym_expected t)"

definition arrays_wf :: "symtab \<Rightarrow> bool" where
  "arrays_wf t \<longleftrightarrow>
     length (sy_entries t) = unat (sy_entries_cap t) \<and>
     unat (sy_count t) < unat (sy_entries_cap t) \<and>
     length (sy_arena t) = unat (sy_arena_cap t) \<and> 0 < sy_arena_cap t \<and>
     unat (sy_arena_used t) \<le> unat (sy_arena_cap t) \<and>
     unat (sy_arena_used t) \<le> 2 ^ 32"

text \<open>The bytes the arena needs for the strings \<open>ns\<close>: each with its NUL, and nothing between.\<close>

definition names_bytes :: "u8 list list \<Rightarrow> nat" where
  "names_bytes ns = sum_list (map (\<lambda>s. length s + 1) ns)"

definition sym_wf :: "symtab \<Rightarrow> bool" where
  "sym_wf t \<longleftrightarrow> slots_wf t \<and> arrays_wf t \<and>
     (\<forall>i. 1 \<le> i \<and> i \<le> unat (sy_count t) \<longrightarrow> entry_wf t i) \<and> distinct (sym_names t) \<and>
     unat (sy_arena_used t) = names_bytes (sym_names t)"

lemma sym_wf_mask: "sym_wf t \<Longrightarrow> mask_for (length (sy_slots t)) (sy_slots_mask t)"
  by (auto simp: sym_wf_def slots_wf_def intro: mask_for_of_cap)

lemma sym_wf_live: "sym_wf t \<Longrightarrow> sy_slots t \<noteq> []"
  by (auto simp: sym_wf_def slots_wf_def)

lemma sym_names_nth:
  "1 \<le> i \<Longrightarrow> i \<le> unat (sy_count t) \<Longrightarrow> sym_names t ! (i - 1) = sym_text t i"
  by (simp add: sym_names_def del: upt_Suc)

lemma length_sym_names [simp]: "length (sym_names t) = unat (sy_count t)"
  by (simp add: sym_names_def)

lemma set_sym_names:
  "s \<in> set (sym_names t) \<longleftrightarrow> (\<exists>i. 1 \<le> i \<and> i \<le> unat (sy_count t) \<and> sym_text t i = s)"
  by (auto simp: sym_names_def)

text \<open>Every occupied slot belongs to a symbol.\<close>

lemma occupied_slot:
  assumes wf: "sym_wf t" and i: "i < length (sy_slots t)" and "sl_id (sy_slots t ! i) \<noteq> 0"
  obtains j where "1 \<le> j" and "j \<le> unat (sy_count t)" and "sy_slots t ! i = sym_slot_of t j"
    and "unat (sl_id (sy_slots t ! i)) = j"
proof -
  from assms have "sy_slots t ! i \<in> set (occupied (sy_slots t))" by (simp add: occupied_def)
  then have "sy_slots t ! i \<in># sym_expected t"
    using wf unfolding sym_wf_def slots_wf_def table_holds_def by (metis set_mset_mset)
  then obtain j where j: "1 \<le> j" "j \<le> unat (sy_count t)" "sy_slots t ! i = sym_slot_of t j"
    by (auto simp: sym_expected_def)
  moreover have "j < 4294967296" using j(2) unat_u32_less [of "sy_count t"] by simp
  then have "unat (of_nat j :: u32) = j" by (simp add: unat_of_nat)
  ultimately show ?thesis using that by (simp add: sym_slot_of_def)
qed

lemma symbol_reached:
  "sym_wf t \<Longrightarrow> 1 \<le> i \<Longrightarrow> i \<le> unat (sy_count t) \<Longrightarrow> reaches (sy_slots t) (sym_slot_of t i)"
  by (auto simp: sym_wf_def slots_wf_def table_holds_def sym_expected_def)

lemma table_has_room:
  assumes "sym_wf t"
  shows "length (occupied (sy_slots t)) < length (sy_slots t)"
proof -
  from assms have "length (occupied (sy_slots t)) = unat (sy_count t)"
    using table_holds_size [of "sy_slots t" "sym_expected t"]
    by (auto simp: sym_wf_def slots_wf_def sym_expected_def)
  with assms show ?thesis by (simp add: sym_wf_def slots_wf_def)
qed

subsection \<open>The probe\<close>

text \<open>\<open>entry_is\<close> compares a symbol's text with the whole string.\<close>

lemma entry_is_text:
  assumes wf: "sym_wf t" and i: "1 \<le> i" "i \<le> unat (sy_count t)" and len: "unat len = length s"
    and small: "unat len < 2 ^ 32"
  shows "entry_is t (sy_entries t ! i) s len \<longleftrightarrow> sym_text t i = s"
proof -
  let ?e = "sy_entries t ! i"
  from wf i have e: "entry_wf t i" and "arrays_wf t" by (auto simp: sym_wf_def)
  then have "length (sym_text t i) = unat (se_len ?e)"
    by (auto simp: entry_wf_def arrays_wf_def sym_text_def)
  moreover have "ucast (se_len ?e) = len \<longleftrightarrow> unat (se_len ?e) = unat len"
    by (rule ucast_64_eq_iff)
  ultimately show ?thesis using len by (auto simp: entry_is_def sym_text_def)
qed

text \<open>A slot the probe walks past, for the string \<open>s\<close>.\<close>

definition probe_misses :: "symtab \<Rightarrow> u8 list \<Rightarrow> u64 \<Rightarrow> u32 \<Rightarrow> sym_slot \<Rightarrow> bool" where
  "probe_misses t s len hash sl \<longleftrightarrow> sl_id sl \<noteq> 0 \<and>
     \<not> (sl_hash sl = hash \<and> entry_is t (sy_entries t ! unat (sl_id sl)) s len)"

lemma probe_walk:
  assumes m: "mask_for n (sy_slots_mask t)" and "unat idx < n"
    and "\<forall>e < d. probe_misses t s len hash (sy_slots t ! ((unat idx + e) mod n))"
  shows "probe t s len hash idx = probe t s len hash (of_nat ((unat idx + d) mod n))"
  using assms(2-)
proof (induction d)
  case 0
  then show ?case by simp
next
  case (Suc d)
  let ?p = "(unat idx + d) mod n"
  have p: "?p < n" using mask_for_pos [OF m] by simp
  then have u: "unat (of_nat ?p :: u32) = ?p" using mask_for_bound [OF m] unat_of_nat_slot by blast
  have next_pos: "(of_nat ?p + 1) AND sy_slots_mask t = (of_nat ((unat idx + Suc d) mod n) :: u32)"
  proof (rule word_unat_eq_iff [THEN iffD2])
    have "unat ((of_nat ?p + 1) AND sy_slots_mask t) = (?p + 1) mod n"
      using mask_for_step [OF m, of "of_nat ?p"] p u by simp
    also have "\<dots> = (unat idx + Suc d) mod n" by (simp add: mod_simps)
    also have "\<dots> = unat (of_nat ((unat idx + Suc d) mod n) :: u32)"
      using mask_for_bound [OF m] mask_for_pos [OF m] unat_of_nat_slot by simp
    finally show "unat ((of_nat ?p + 1) AND sy_slots_mask t) = \<dots>" .
  qed
  have "probe t s len hash idx = probe t s len hash (of_nat ?p)"
    using Suc by simp
  also have "\<dots> = probe t s len hash ((of_nat ?p + 1) AND sy_slots_mask t)"
    using Suc.prems(2) u by (subst probe.simps) (auto simp: probe_misses_def)
  finally show ?case using next_pos by simp
qed

text \<open>What a probe answers: it always ends, at the symbol of the string when it is interned
  and otherwise at the first empty slot from the string's home position on.\<close>

definition vacant_for :: "symtab \<Rightarrow> u32 \<Rightarrow> u32 \<Rightarrow> bool" where
  "vacant_for t hash idx \<longleftrightarrow> sl_id (sy_slots t ! unat idx) = 0 \<and>
     (\<exists>d < length (sy_slots t).
        unat idx = (unat hash + d) mod length (sy_slots t) \<and>
        (\<forall>e < d. sl_id (sy_slots t ! ((unat hash + e) mod length (sy_slots t))) \<noteq> 0))"

definition probe_answer :: "symtab \<Rightarrow> u8 list \<Rightarrow> u32 \<Rightarrow> probe_result \<Rightarrow> bool" where
  "probe_answer t s hash r = (case r of
       Hit sid \<Rightarrow> 1 \<le> unat sid \<and> unat sid \<le> unat (sy_count t) \<and> sym_text t (unat sid) = s
     | Vacant idx \<Rightarrow> s \<notin> set (sym_names t) \<and> vacant_for t hash idx)"

lemma probe_answers:
  assumes wf: "sym_wf t" and len: "unat len = length s" "unat len < 2 ^ 32"
    and hash: "hash = fnv1a s"
  obtains r where "probe t s len hash (hash AND sy_slots_mask t) = Some r"
    and "probe_answer t s hash r"
proof -
  let ?n = "length (sy_slots t)" and ?h = "unat hash"
  let ?at = "\<lambda>d. sy_slots t ! ((?h + d) mod ?n)"
  let ?stop = "\<lambda>d. \<not> probe_misses t s len hash (?at d)"
  let ?i0 = "hash AND sy_slots_mask t"
  have m: "mask_for ?n (sy_slots_mask t)" using wf by (rule sym_wf_mask)
  have pos: "0 < ?n" using m by (rule mask_for_pos)
  have i0: "unat ?i0 = ?h mod ?n" using m by (rule mask_for_and)
  have shift: "(unat ?i0 + e) mod ?n = (?h + e) mod ?n" for e by (simp add: i0 mod_simps)
  obtain i where "i < ?n" "sl_id (sy_slots t ! i) = 0"
    using exists_empty [OF table_has_room [OF wf]] by blast
  then obtain d1 where d1: "d1 < ?n" "sl_id (?at d1) = 0"
    using first_empty [of i ?n "?h mod ?n" "sy_slots t"] pos
    by (metis mod_add_left_eq mod_less_divisor)
  then have s1: "?stop d1" by (simp add: probe_misses_def)
  define d where "d = Least ?stop"
  have dn: "d < ?n" using Least_le [of ?stop d1] s1 d1 by (simp add: d_def)
  have stop: "?stop d" unfolding d_def using s1 by (rule LeastI)
  have before: "\<forall>e < d. probe_misses t s len hash (?at e)"
    using not_less_Least unfolding d_def by blast
  let ?p = "(?h + d) mod ?n"
  have u: "unat (of_nat ?p :: u32) = ?p"
    using mask_for_bound [OF m] mod_less_divisor [OF pos] by (rule unat_of_nat_slot)
  have walk: "probe t s len hash ?i0 = probe t s len hash (of_nat ?p)"
    using probe_walk [OF m, of ?i0 d s len hash, unfolded shift] before i0
      mod_less_divisor [OF pos, of ?h] by simp
  show ?thesis
  proof (cases "sl_id (?at d) = 0")
    case True
    then have "probe t s len hash ?i0 = Some (Vacant (of_nat ?p))"
      using walk u by (simp add: probe.simps)
    moreover have "s \<notin> set (sym_names t)"
    proof
      assume "s \<in> set (sym_names t)"
      then obtain j where j: "1 \<le> j" "j \<le> unat (sy_count t)" "sym_text t j = s"
        by (auto simp: set_sym_names)
      with wf have "se_hash (sy_entries t ! j) = hash"
        by (auto simp: sym_wf_def entry_wf_def hash)
      with symbol_reached [OF wf j(1,2)] obtain dj where dj: "dj < ?n"
        "?at dj = sym_slot_of t j" "\<forall>e < dj. sl_id (?at e) \<noteq> 0"
        by (auto simp: reaches_def sym_slot_of_def)
      have id: "unat (sl_id (sym_slot_of t j)) = j"
        using j(2) unat_u32_less [of "sy_count t"] by (simp add: sym_slot_of_def unat_of_nat)
      have "?stop dj"
        using entry_is_text [OF wf j(1,2) len] j(3) dj(2) id
        by (simp add: probe_misses_def sym_slot_of_def \<open>se_hash (sy_entries t ! j) = hash\<close>)
      then have "d \<le> dj" unfolding d_def by (rule Least_le)
      moreover have "sl_id (?at dj) \<noteq> 0" using dj(2) id j(1) by auto
      ultimately show False using dj(3) True by (metis le_neq_implies_less)
    qed
    ultimately show ?thesis
      using that [of "Vacant (of_nat ?p)"] u True dn before
      by (auto simp: probe_answer_def vacant_for_def probe_misses_def intro!: exI [of _ d])
  next
    case False
    obtain j where j: "1 \<le> j" "j \<le> unat (sy_count t)" "unat (sl_id (?at d)) = j"
      using occupied_slot [OF wf _ False] pos by (metis mod_less_divisor)
    from stop False have hit: "sl_hash (?at d) = hash" "entry_is t (sy_entries t ! j) s len"
      using j(3) by (auto simp: probe_misses_def)
    then have "sym_text t j = s" using entry_is_text [OF wf j(1,2) len] by simp
    moreover have "probe t s len hash ?i0 = Some (Hit (sl_id (?at d)))"
      using walk u False hit j(3) by (simp add: probe.simps)
    ultimately show ?thesis using that [of "Hit (sl_id (?at d))"] j
      by (simp add: probe_answer_def)
  qed
qed

subsection \<open>Growing the arrays\<close>

text \<open>The two capacity loops end, at a capacity that is large enough.\<close>

lemma arena_cap_loop_ends:
  assumes "0 < c"
  shows "\<exists>r. arena_cap_loop want c = Some r \<and> want \<le> r \<and> c \<le> r"
  using assms
proof (induction "unat want - unat c" arbitrary: c rule: less_induct)
  case less
  show ?case
  proof (cases "c < want")
    case False
    then show ?thesis by (simp add: arena_cap_loop.simps [of want c])
  next
    case True
    define c' where "c' = (if c > SIZE_MAX div 2 then want else c * 2)"
    have "unat (c * 2) = 2 * unat c" if "\<not> c > SIZE_MAX div 2"
      using that by (simp add: word_less_nat_alt unat_div unat_word_ariths)
    then have up: "unat c < unat c'"
      using True less.prems by (simp add: c'_def word_less_nat_alt)
    have "unat want - unat c' < unat want - unat c"
      using up True by (simp add: word_less_nat_alt)
    moreover have "0 < c'" using up by (simp add: word_less_nat_alt)
    ultimately obtain r where "arena_cap_loop want c' = Some r" "want \<le> r" "c' \<le> r"
      using less.hyps by blast
    moreover have "arena_cap_loop want c = arena_cap_loop want c'"
      using True by (simp add: arena_cap_loop.simps [of want c] c'_def)
    moreover have "c \<le> c'" using up by (simp add: word_le_nat_alt)
    ultimately show ?thesis by auto
  qed
qed

lemma round_cap_ends:
  assumes "want \<le> 2 ^ 30" and "unat c = 2 ^ i" and "i \<le> 30"
  shows "\<exists>r j. round_cap want c = Some r \<and> unat r = 2 ^ j \<and> i \<le> j \<and> j \<le> 30 \<and> want \<le> r"
  using assms(2,3)
proof (induction "30 - i" arbitrary: c i rule: less_induct)
  case less
  show ?case
  proof (cases "c < want")
    case False
    with less.prems show ?thesis by (auto simp: round_cap.simps [of want c])
  next
    case True
    with assms(1) have "unat c < 2 ^ 30" by (simp add: word_less_nat_alt word_le_nat_alt)
    with less.prems have "(2::nat) ^ i < 2 ^ 30" by simp
    then have i: "i < 30" by (rule power_less_imp_less_exp [rotated]) simp
    have d: "unat (c * 2) = 2 ^ Suc i"
      using \<open>unat c < 2 ^ 30\<close> less.prems by (simp add: unat_word_ariths)
    obtain r j where "round_cap want (c * 2) = Some r" "unat r = 2 ^ j" "Suc i \<le> j" "j \<le> 30"
      "want \<le> r"
      using less.hyps [OF _ d] i by (metis Suc_leI diff_less_mono2 lessI)
    moreover have "round_cap want c = round_cap want (c * 2)"
      using True by (simp add: round_cap.simps [of want c])
    ultimately show ?thesis by (metis Suc_leD)
  qed
qed

text \<open>A state that agrees on the count, the entries in use and the used part of the arena has
  the same symbols.\<close>

lemma sym_text_agree:
  assumes "entry_wf t i" and "arrays_wf t" and "arrays_wf t'"
    and "sy_entries t' ! i = sy_entries t ! i" and "sy_arena_used t' = sy_arena_used t"
    and "\<forall>k < unat (sy_arena_used t). sy_arena t' ! k = sy_arena t ! k"
  shows "sym_text t' i = sym_text t i"
proof -
  let ?e = "sy_entries t ! i"
  have "take (unat (se_len ?e)) (drop (unat (se_offset ?e)) (sy_arena t')) =
        take (unat (se_len ?e)) (drop (unat (se_offset ?e)) (sy_arena t))"
    by (rule nth_equalityI) (use assms in \<open>auto simp: arrays_wf_def entry_wf_def\<close>)
  then show ?thesis using assms(4) by (simp add: sym_text_def)
qed

lemma sym_wf_agree:
  assumes wf: "sym_wf t" and c: "sy_count t' = sy_count t"
    and u: "sy_arena_used t' = sy_arena_used t"
    and e: "\<forall>i \<le> unat (sy_count t). sy_entries t' ! i = sy_entries t ! i"
    and a: "\<forall>k < unat (sy_arena_used t). sy_arena t' ! k = sy_arena t ! k"
    and ar: "arrays_wf t'"
    and sl: "sym_expected t' = sym_expected t \<Longrightarrow> slots_wf t'"
  shows "sym_wf t'" and "sym_names t' = sym_names t"
proof -
  have same_text: "sym_text t' i = sym_text t i" if "1 \<le> i" "i \<le> unat (sy_count t)" for i
    using wf that e u a ar by (intro sym_text_agree) (auto simp: sym_wf_def)
  then show names: "sym_names t' = sym_names t" by (simp add: sym_names_def c del: upt_Suc)
  have "sym_expected t' = sym_expected t"
    using e by (auto simp: sym_expected_def c sym_slot_of_def intro!: image_mset_cong)
  then have "slots_wf t'" by (rule sl)
  moreover have "entry_wf t' i" if "1 \<le> i" "i \<le> unat (sy_count t)" for i
    using wf that e u a same_text [OF that] by (auto simp: sym_wf_def entry_wf_def)
  ultimately show "sym_wf t'" using wf ar names c u by (simp add: sym_wf_def)
qed

definition same_symbols :: "symtab \<Rightarrow> symtab \<Rightarrow> bool" where
  "same_symbols t t' \<longleftrightarrow> sym_names t' = sym_names t \<and> sy_count t' = sy_count t \<and>
     sy_arena_used t' = sy_arena_used t"

lemma same_symbols_refl [simp]: "same_symbols t t"
  by (simp add: same_symbols_def)

lemma same_symbols_trans: "same_symbols a b \<Longrightarrow> same_symbols b c \<Longrightarrow> same_symbols a c"
  by (simp add: same_symbols_def)

text \<open>Which arrays a growth step leaves alone.\<close>

definition index_kept :: "symtab \<Rightarrow> symtab \<Rightarrow> bool" where
  "index_kept t t' \<longleftrightarrow> sy_slots t' = sy_slots t \<and> sy_slots_cap t' = sy_slots_cap t \<and>
     sy_slots_mask t' = sy_slots_mask t"

definition arena_kept :: "symtab \<Rightarrow> symtab \<Rightarrow> bool" where
  "arena_kept t t' \<longleftrightarrow> sy_arena t' = sy_arena t \<and> sy_arena_blk t' = sy_arena_blk t \<and>
     sy_arena_cap t' = sy_arena_cap t"

definition entries_kept :: "symtab \<Rightarrow> symtab \<Rightarrow> bool" where
  "entries_kept t t' \<longleftrightarrow> sy_entries t' = sy_entries t \<and> sy_entries_cap t' = sy_entries_cap t"

lemmas kept_defs = index_kept_def arena_kept_def entries_kept_def

lemma arena_reserve_keeps:
  assumes wf: "sym_wf t" and need: "unat (sy_arena_used t) + unat needed \<le> 2 ^ 32"
  obtains ok al' t' where "arena_reserve needed al t = Inr (ok, al', t')"
    and "sym_wf t'" and "same_symbols t t'"
    and "index_kept t t'" and "entries_kept t t'"
    and "ok \<Longrightarrow> unat (sy_arena_used t) + unat needed \<le> unat (sy_arena_cap t')"
    and "al_steps al al'" and "al_ok al = (\<lambda>_ _. True) \<Longrightarrow> ok"
proof -
  let ?want = "sy_arena_used t + needed"
  have want: "unat ?want = unat (sy_arena_used t) + unat needed"
    using need by (intro unat_add_u64) simp
  show ?thesis
  proof (cases "?want \<le> sy_arena_cap t")
    case True
    then have "unat (sy_arena_used t) + unat needed \<le> unat (sy_arena_cap t)"
      using want by (simp add: word_le_nat_alt)
    then show ?thesis using that [of True al t] True wf
      by (simp add: arena_reserve_def Let_def kept_defs)
  next
    case False
    from wf have ar: "arrays_wf t" by (simp add: sym_wf_def)
    then obtain c where c: "arena_cap_loop ?want (sy_arena_cap t) = Some c" "?want \<le> c"
      "sy_arena_cap t \<le> c"
      using arena_cap_loop_ends by (metis arrays_wf_def)
    obtain r al' where m: "c_malloc c al = (r, al')" by (cases "c_malloc c al")
    then have st: "al_steps al al'" using al_steps_malloc by (metis snd_conv)
    show ?thesis
    proof (cases r)
      case None
      have "al_ok al \<noteq> (\<lambda>_ _. True)" using m None by (auto simp: c_malloc_def)
      then show ?thesis using that [of False al' t] False c(1) m None wf st
        by (simp add: arena_reserve_def Let_def kept_defs)
    next
      case (Some b)
      let ?a = "sy_arena t @ fill_u8 al b (unat (sy_arena_cap t)) (unat c)"
      let ?t' = "t\<lparr>sy_arena := ?a, sy_arena_blk := b, sy_arena_cap := c\<rparr>"
      have le: "unat (sy_arena_cap t) \<le> unat c" using c(3) by (simp add: word_le_nat_alt)
      have arr: "arrays_wf ?t'" using ar le by (auto simp: arrays_wf_def word_less_nat_alt)
      have same: "\<forall>k < unat (sy_arena_used t). sy_arena ?t' ! k = sy_arena t ! k"
        using ar by (auto simp: arrays_wf_def nth_append)
      have slots: "sym_expected ?t' = sym_expected t \<Longrightarrow> slots_wf ?t'"
        using wf by (simp add: sym_wf_def slots_wf_def)
      have "sym_wf ?t'" and "sym_names ?t' = sym_names t"
        using sym_wf_agree [OF wf _ _ _ same arr slots] by simp_all
      moreover have "unat (sy_arena_used t) + unat needed \<le> unat (sy_arena_cap ?t')"
        using c(2) want by (simp add: word_le_nat_alt)
      ultimately show ?thesis using that [of True al' ?t'] False c(1) m Some st
        by (simp add: arena_reserve_def Let_def same_symbols_def kept_defs)
    qed
  qed
qed

lemma entries_reserve_keeps:
  assumes wf: "sym_wf t"
  obtains ok al' t' where "entries_reserve al t = (ok, al', t')"
    and "sym_wf t'" and "same_symbols t t'"
    and "index_kept t t'" and "arena_kept t t'"
    and "ok \<Longrightarrow> unat (sy_count t) + 1 < unat (sy_entries_cap t')"
    and "al_steps al al'"
    and "al_ok al = (\<lambda>_ _. True) \<Longrightarrow> unat (sy_count t) < 2 ^ 31 - 1 \<Longrightarrow> ok"
proof -
  from wf have ar: "arrays_wf t" by (simp add: sym_wf_def)
  then have cnt: "unat (sy_count t + 1) = unat (sy_count t) + 1"
    using unat_u32_less [of "sy_entries_cap t"] unat_Suc_u32 [of "sy_count t"]
    by (simp add: arrays_wf_def)
  have unchanged: "index_kept t t" "arena_kept t t" by (simp_all add: kept_defs)
  show ?thesis
  proof (cases "sy_count t + 1 < sy_entries_cap t")
    case True
    with that [of True al t] wf unchanged cnt show ?thesis
      by (simp add: entries_reserve_def word_less_nat_alt)
  next
    case False
    show ?thesis
    proof (cases "sy_entries_cap t > UINT32_MAX div 2")
      case True
      then have "2 ^ 31 \<le> unat (sy_entries_cap t)" by (simp add: word_less_nat_alt unat_div)
      with that [of False al t] False True wf unchanged cnt show ?thesis
        by (simp add: entries_reserve_def word_less_nat_alt)
    next
      case small: False
      let ?c = "sy_entries_cap t * 2"
      have c: "unat ?c = 2 * unat (sy_entries_cap t)" using small by (rule unat_double)
      obtain r al' where m: "c_malloc (ucast ?c * 12) al = (r, al')"
        by (cases "c_malloc (ucast ?c * 12) al")
      then have st: "al_steps al al'" using al_steps_malloc by (metis snd_conv)
      show ?thesis
      proof (cases r)
        case None
        then have "al_ok al \<noteq> (\<lambda>_ _. True)" using m by (auto simp: c_malloc_def)
        with that [of False al' t] False small m None wf st unchanged show ?thesis
          by (simp add: entries_reserve_def Let_def)
      next
        case (Some b)
        let ?es = "sy_entries t @ fill_entries al b (unat (sy_entries_cap t)) (unat ?c)"
        let ?t' = "t\<lparr>sy_entries := ?es, sy_entries_cap := ?c\<rparr>"
        have arr: "arrays_wf ?t'" using ar c by (auto simp: arrays_wf_def fill_entries_def)
        have same: "\<forall>i \<le> unat (sy_count t). sy_entries ?t' ! i = sy_entries t ! i"
          using ar by (auto simp: arrays_wf_def nth_append)
        have slots: "sym_expected ?t' = sym_expected t \<Longrightarrow> slots_wf ?t'"
          using wf by (simp add: sym_wf_def slots_wf_def)
        have "sym_wf ?t'" and "sym_names ?t' = sym_names t"
          using sym_wf_agree [OF wf _ _ same _ arr slots] by simp_all
        moreover have "unat (sy_count t) + 1 < unat (sy_entries_cap ?t')"
          using ar c by (simp add: arrays_wf_def)
        ultimately show ?thesis using that [of True al' ?t'] False small m Some st
          by (simp add: entries_reserve_def Let_def same_symbols_def kept_defs)
      qed
    qed
  qed
qed

text \<open>The slot table: the load test, its growth and the slot to use afterwards.\<close>

lemma load_test:
  "ucast (a :: u32) * 100 \<ge> (ucast (b :: u32) :: u64) * 75 \<longleftrightarrow> 75 * unat b \<le> 100 * unat a"
proof -
  have "unat (ucast a * 100 :: u64) = 100 * unat a"
    using unat_u32_less [of a] by (simp add: unat_word_ariths)
  moreover have "unat (ucast b * 75 :: u64) = 75 * unat b"
    using unat_u32_less [of b] by (simp add: unat_word_ariths)
  ultimately show ?thesis by (simp add: word_le_nat_alt)
qed

lemma rehash_grown:
  assumes wf: "sym_wf t" and small: "\<not> sy_slots_cap t > UINT32_MAX div 2"
  obtains k ns where "unat (sy_slots_cap t * 2) = 2 ^ k" and "1 \<le> k" and "k \<le> 31"
    and "rehash (sy_slots_cap t * 2 - 1) (sy_slots t)
           (replicate (unat (sy_slots_cap t * 2)) empty_slot) = Some ns"
    and "length ns = unat (sy_slots_cap t * 2)" and "table_holds ns (sym_expected t)"
proof -
  from wf obtain k where k: "1 \<le> k" "k \<le> 31" "unat (sy_slots_cap t) = 2 ^ k"
    by (auto simp: sym_wf_def slots_wf_def)
  have d: "unat (sy_slots_cap t * 2) = 2 * unat (sy_slots_cap t)" using small by (rule unat_double)
  from small k have "(2::nat) ^ k < 2 ^ 31" by (simp add: word_less_nat_alt unat_div)
  then have "k < 31" by (rule power_less_imp_less_exp [rotated]) simp
  then have m: "mask_for (unat (sy_slots_cap t * 2)) (sy_slots_cap t * 2 - 1)"
    using d k by (intro mask_for_of_cap [of _ "Suc k"]) simp_all
  have "length (occupied (sy_slots t)) < unat (sy_slots_cap t * 2)"
    using table_has_room [OF wf] wf d by (simp add: sym_wf_def slots_wf_def)
  then obtain ns where ns: "rehash (sy_slots_cap t * 2 - 1) (sy_slots t)
      (replicate (unat (sy_slots_cap t * 2)) empty_slot) = Some ns"
    "length ns = unat (sy_slots_cap t * 2)" "table_holds ns ({#} + mset (occupied (sy_slots t)))"
    using rehash_holds [OF table_holds_empty, of "sy_slots t" "unat (sy_slots_cap t * 2)"] m
    by auto
  moreover have "mset (occupied (sy_slots t)) = sym_expected t"
    using wf by (simp add: sym_wf_def slots_wf_def table_holds_def)
  ultimately show ?thesis using that [of "Suc k" ns] d k \<open>k < 31\<close> by simp
qed

lemma slots_grow_keeps:
  assumes wf: "sym_wf t"
  obtains ok al' t' where "slots_grow al t = Inr (ok, al', t')"
    and "sym_wf t'" and "same_symbols t t'" and "entries_kept t t'" and "arena_kept t t'"
    and "ok \<Longrightarrow> unat (sy_slots_cap t') = 2 * unat (sy_slots_cap t)"
    and "al_steps al al'"
    and "al_ok al = (\<lambda>_ _. True) \<Longrightarrow> unat (sy_slots_cap t) < 2 ^ 31 \<Longrightarrow> ok"
proof (cases "sy_slots_cap t > UINT32_MAX div 2")
  case True
  then have "2 ^ 31 \<le> unat (sy_slots_cap t)" by (simp add: word_less_nat_alt unat_div)
  with that [of False al t] True wf show ?thesis by (simp add: slots_grow_def kept_defs)
next
  case small: False
  let ?c = "sy_slots_cap t * 2"
  obtain r al' where m: "c_malloc (ucast ?c * 8) al = (r, al')"
    by (cases "c_malloc (ucast ?c * 8) al")
  then have st: "al_steps al al'" using al_steps_malloc by (metis snd_conv)
  show ?thesis
  proof (cases r)
    case None
    then have "al_ok al \<noteq> (\<lambda>_ _. True)" using m by (auto simp: c_malloc_def)
    with that [of False al' t] small m None wf st show ?thesis
      by (simp add: slots_grow_def Let_def kept_defs)
  next
    case (Some b)
    obtain k ns where k: "unat ?c = 2 ^ k" "1 \<le> k" "k \<le> 31"
      and ns: "rehash (?c - 1) (sy_slots t) (replicate (unat ?c) empty_slot) = Some ns"
        "length ns = unat ?c" "table_holds ns (sym_expected t)"
      using rehash_grown [OF wf small] by blast
    let ?t' = "t\<lparr>sy_slots := ns, sy_slots_cap := ?c, sy_slots_mask := ?c - 1\<rparr>"
    have d: "unat ?c = 2 * unat (sy_slots_cap t)" using small by (rule unat_double)
    have arr: "arrays_wf ?t'" using wf by (simp add: sym_wf_def arrays_wf_def)
    have slots: "slots_wf ?t'" if e: "sym_expected ?t' = sym_expected t"
      using wf ns k d unfolding sym_wf_def slots_wf_def e by auto
    have "sym_wf ?t'" and "sym_names ?t' = sym_names t"
      using sym_wf_agree [OF wf _ _ _ _ arr slots] by simp_all
    with that [of True al' ?t'] small m Some ns st d show ?thesis
      by (simp add: slots_grow_def Let_def same_symbols_def kept_defs)
  qed
qed

lemma vacant_after_search:
  assumes wf: "sym_wf t"
  obtains idx where "find_empty (sy_slots t) (sy_slots_mask t) (hash AND sy_slots_mask t) = Some idx"
    and "vacant_for t hash idx"
proof -
  let ?n = "length (sy_slots t)"
  have m: "mask_for ?n (sy_slots_mask t)" using wf by (rule sym_wf_mask)
  have pos: "0 < ?n" using m by (rule mask_for_pos)
  have h: "unat (hash AND sy_slots_mask t) = unat hash mod ?n" by (rule mask_for_and [OF m])
  have shift: "(unat hash mod ?n + e) mod ?n = (unat hash + e) mod ?n" for e
    by (simp add: mod_simps)
  obtain i where "i < ?n" "sl_id (sy_slots t ! i) = 0"
    using exists_empty [OF table_has_room [OF wf]] by blast
  then obtain d where d: "d < ?n" "sl_id (sy_slots t ! ((unat hash + d) mod ?n)) = 0"
    "\<forall>e < d. sl_id (sy_slots t ! ((unat hash + e) mod ?n)) \<noteq> 0"
    using first_empty [of i ?n "unat hash mod ?n" "sy_slots t"] mod_less_divisor [OF pos]
    unfolding shift by metis
  let ?j = "(unat hash + d) mod ?n"
  have j: "unat (of_nat ?j :: u32) = ?j"
    using mask_for_bound [OF m] mod_less_divisor [OF pos] by (rule unat_of_nat_slot)
  have "find_empty (sy_slots t) (sy_slots_mask t) (hash AND sy_slots_mask t) = Some (of_nat ?j)"
    using find_empty_walk [OF m, of "hash AND sy_slots_mask t" d "sy_slots t", unfolded h shift]
      d mod_less_divisor [OF pos] by simp
  with that [of "of_nat ?j"] d j show ?thesis by (auto simp: vacant_for_def)
qed

lemma intern_make_room_keeps:
  assumes wf: "sym_wf t" and vac: "vacant_for t hash idx"
    and cnt: "unat (sy_count t + 1) = unat (sy_count t) + 1"
  obtains ok al' t' idx' where "intern_make_room al t hash idx = Inr (ok, al', t', idx')"
    and "sym_wf t'" and "same_symbols t t'" and "entries_kept t t'" and "arena_kept t t'"
    and "ok \<Longrightarrow> vacant_for t' hash idx'"
    and "ok \<Longrightarrow> 100 * (unat (sy_count t) + 1) < 75 * unat (sy_slots_cap t')"
    and "al_steps al al'"
    and "al_ok al = (\<lambda>_ _. True) \<Longrightarrow> unat (sy_count t) + 1 < 1610612736 \<Longrightarrow> ok"
proof (cases "75 * unat (sy_slots_cap t) \<le> 100 * unat (sy_count t + 1)")
  case False
  with that [of True al t idx] wf vac cnt show ?thesis
    by (simp add: intern_make_room_def load_test kept_defs)
next
  case True
  obtain ok al' t' where g: "slots_grow al t = Inr (ok, al', t')" "sym_wf t'" "same_symbols t t'"
    "entries_kept t t'" "arena_kept t t'" "ok \<Longrightarrow> unat (sy_slots_cap t') = 2 * unat (sy_slots_cap t)"
    "al_steps al al'" "al_ok al = (\<lambda>_ _. True) \<Longrightarrow> unat (sy_slots_cap t) < 2 ^ 31 \<Longrightarrow> ok"
    using slots_grow_keeps [OF wf] by blast
  obtain j where j: "find_empty (sy_slots t') (sy_slots_mask t') (hash AND sy_slots_mask t') = Some j"
    "vacant_for t' hash j"
    using vacant_after_search [OF g(2)] by blast
  from wf obtain k where k: "1 \<le> k" "unat (sy_slots_cap t) = 2 ^ k"
    "100 * unat (sy_count t) < 75 * unat (sy_slots_cap t)"
    by (auto simp: sym_wf_def slots_wf_def)
  have "(2::nat) ^ 1 \<le> 2 ^ k" using k(1) by (rule power_increasing) simp
  then have load: "ok \<Longrightarrow> 100 * (unat (sy_count t) + 1) < 75 * unat (sy_slots_cap t')"
    using g(6) k by simp
  have few: "unat (sy_slots_cap t) < 2 ^ 31" if "unat (sy_count t) + 1 < 1610612736"
    using True cnt that by simp
  show ?thesis
  proof (cases ok)
    case True': True
    with that [of True al' t' j] g j load True show ?thesis
      by (simp add: intern_make_room_def load_test)
  next
    case False
    with that [of False al' t' idx] g True few show ?thesis
      by (auto simp: intern_make_room_def load_test)
  qed
qed

subsection \<open>The commit\<close>

lemma nth_snoc_upt: "map f [1..<Suc (Suc n)] = map f [1..<Suc n] @ [f (Suc n)]"
  by simp

text \<open>What the commit relies on, all of it established by the steps before it.\<close>

definition commit_ready :: "symtab \<Rightarrow> u8 list \<Rightarrow> u64 \<Rightarrow> u32 \<Rightarrow> u32 \<Rightarrow> bool" where
  "commit_ready t s len hash idx \<longleftrightarrow>
     sym_wf t \<and> unat len = length s \<and> vacant_for t hash idx \<and> hash = fnv1a s \<and>
     s \<notin> set (sym_names t) \<and>
     unat (sy_arena_used t) + length s + 1 \<le> unat (sy_arena_cap t) \<and>
     unat (sy_arena_used t) + length s + 1 \<le> 2 ^ 32 \<and>
     unat (sy_count t) + 1 < unat (sy_entries_cap t) \<and>
     100 * (unat (sy_count t) + 1) < 75 * unat (sy_slots_cap t)"

text \<open>The state after it, with every machine conversion resolved.\<close>

definition committed :: "symtab \<Rightarrow> u8 list \<Rightarrow> u64 \<Rightarrow> u32 \<Rightarrow> u32 \<Rightarrow> symtab" where
  "committed t s len hash idx = t\<lparr>sy_count := sy_count t + 1,
     sy_arena := (memcpy_at (unat (sy_arena_used t)) s (sy_arena t))
       [unat (sy_arena_used t) + length s := 0],
     sy_arena_used := sy_arena_used t + (len + 1),
     sy_entries := (sy_entries t)[Suc (unat (sy_count t)) :=
       \<lparr>se_offset = ucast (sy_arena_used t), se_len = ucast len, se_hash = hash\<rparr>],
     sy_slots := (sy_slots t)[unat idx := \<lparr>sl_hash = hash, sl_id = sy_count t + 1\<rparr>]\<rparr>"

lemma commit_ready_arith:
  assumes "commit_ready t s len hash idx"
  shows "unat (ucast (sy_arena_used t) :: u32) = unat (sy_arena_used t)"
    and "unat (ucast len :: u32) = length s"
    and "unat (sy_count t + 1) = Suc (unat (sy_count t))"
    and "unat (sy_arena_used t + (len + 1)) = unat (sy_arena_used t) + length s + 1"
    and "unat (sy_arena_used t) + length s < length (sy_arena t)"
proof -
  note r = assms [unfolded commit_ready_def]
  show "unat (ucast (sy_arena_used t) :: u32) = unat (sy_arena_used t)"
    using r by (intro unat_ucast_32) simp
  show "unat (ucast len :: u32) = length s" using r by (subst unat_ucast_32) simp_all
  show "unat (sy_count t + 1) = Suc (unat (sy_count t))"
    using r unat_u32_less [of "sy_entries_cap t"] by (intro unat_Suc_u32) simp
  have "unat (len + 1) = length s + 1" using r unat_add_u64 [of len 1] by simp
  then show "unat (sy_arena_used t + (len + 1)) = unat (sy_arena_used t) + length s + 1"
    using r unat_add_u64 [of "sy_arena_used t" "len + 1"] by simp
  show "unat (sy_arena_used t) + length s < length (sy_arena t)"
    using r by (simp add: sym_wf_def arrays_wf_def)
qed

lemma intern_commit_eq:
  assumes r: "commit_ready t s len hash idx"
  shows "intern_commit t s len hash idx = (sy_count t + 1, committed t s len hash idx)"
proof -
  have "unat len = length s" using r by (simp add: commit_ready_def)
  with commit_ready_arith(1,3) [OF r] show ?thesis
    unfolding intern_commit_def committed_def Let_def by simp
qed

text \<open>The commit writes past the used part of the arena only, and gives the new symbol its
  text.\<close>

lemma committed_arena:
  assumes r: "commit_ready t s len hash idx" and k: "k < unat (sy_arena_used t)"
  shows "sy_arena (committed t s len hash idx) ! k = sy_arena t ! k"
  using commit_ready_arith(5) [OF r] k by (simp add: committed_def nth_memcpy_at_before)

lemma committed_new_text:
  assumes r: "commit_ready t s len hash idx"
  shows "sym_text (committed t s len hash idx) (Suc (unat (sy_count t))) = s"
proof -
  let ?u = "unat (sy_arena_used t)"
  let ?arena = "(memcpy_at ?u s (sy_arena t))[?u + length s := 0]"
  note a = commit_ready_arith [OF r]
  have "take (length s) (drop ?u ?arena) = take (length s) (drop ?u (memcpy_at ?u s (sy_arena t)))"
    by (rule nth_equalityI) (use a in simp_all)
  also have "\<dots> = s" using a by (simp add: slice_memcpy_at)
  moreover have "Suc (unat (sy_count t)) < length (sy_entries t)"
    using r by (simp add: commit_ready_def sym_wf_def arrays_wf_def)
  ultimately show ?thesis using a(1,2) by (simp add: sym_text_def committed_def)
qed

lemma committed_old_text:
  assumes r: "commit_ready t s len hash idx" and i: "1 \<le> i" "i \<le> unat (sy_count t)"
  shows "sym_text (committed t s len hash idx) i = sym_text t i"
proof -
  let ?t' = "committed t s len hash idx" and ?e = "sy_entries t ! i"
  have "sy_entries ?t' ! i = ?e" using i by (simp add: committed_def)
  moreover have "take (unat (se_len ?e)) (drop (unat (se_offset ?e)) (sy_arena ?t')) =
        take (unat (se_len ?e)) (drop (unat (se_offset ?e)) (sy_arena t))"
  proof (rule nth_equalityI)
    have "entry_wf t i" using r i by (simp add: commit_ready_def sym_wf_def)
    then show "take (unat (se_len ?e)) (drop (unat (se_offset ?e)) (sy_arena ?t')) ! k =
        take (unat (se_len ?e)) (drop (unat (se_offset ?e)) (sy_arena t)) ! k"
      if "k < length (take (unat (se_len ?e)) (drop (unat (se_offset ?e)) (sy_arena ?t')))" for k
      using that committed_arena [OF r] commit_ready_arith(5) [OF r]
      by (simp add: committed_def entry_wf_def)
  qed (use commit_ready_arith(5) [OF r] in \<open>simp add: committed_def\<close>)
  ultimately show ?thesis by (simp add: sym_text_def)
qed

lemma committed_names:
  assumes r: "commit_ready t s len hash idx"
  shows "sym_names (committed t s len hash idx) = sym_names t @ [s]"
proof -
  have c: "unat (sy_count (committed t s len hash idx)) = Suc (unat (sy_count t))"
    using commit_ready_arith(3) [OF r] by (simp add: committed_def)
  show ?thesis
    using committed_new_text [OF r] committed_old_text [OF r]
    unfolding sym_names_def c nth_snoc_upt by (auto simp del: upt_Suc)
qed

lemma committed_entry:
  assumes r: "commit_ready t s len hash idx" and i: "1 \<le> i" "i \<le> Suc (unat (sy_count t))"
  shows "entry_wf (committed t s len hash idx) i"
proof (cases "i = Suc (unat (sy_count t))")
  case True
  moreover have "Suc (unat (sy_count t)) < length (sy_entries t)" "hash = fnv1a s"
    using r by (simp_all add: commit_ready_def sym_wf_def arrays_wf_def)
  ultimately show ?thesis
    using committed_new_text [OF r] commit_ready_arith [OF r]
    by (simp add: entry_wf_def committed_def)
next
  case False
  with i have i': "i \<le> unat (sy_count t)" by simp
  then have "entry_wf t i" using r i by (simp add: commit_ready_def sym_wf_def)
  moreover have "sy_entries (committed t s len hash idx) ! i = sy_entries t ! i"
    using i' by (simp add: committed_def)
  moreover have "unat (sy_arena_used (committed t s len hash idx)) = unat (sy_arena_used t) + length s + 1"
    using commit_ready_arith(4) [OF r] by (simp add: committed_def)
  ultimately show ?thesis
    using committed_old_text [OF r i(1) i'] committed_arena [OF r] by (simp add: entry_wf_def)
qed

lemma committed_slots:
  assumes r: "commit_ready t s len hash idx"
  shows "slots_wf (committed t s len hash idx)"
proof -
  let ?t' = "committed t s len hash idx" and ?n = "unat (sy_count t)"
  let ?new = "\<lparr>sl_hash = hash, sl_id = sy_count t + 1\<rparr>"
  note a = commit_ready_arith [OF r]
  have fits: "Suc ?n < length (sy_entries t)"
    using r by (simp add: commit_ready_def sym_wf_def arrays_wf_def)
  have "sym_slot_of ?t' i = sym_slot_of t i" if "i \<le> ?n" for i
    using that by (simp add: sym_slot_of_def committed_def)
  moreover have "sym_slot_of ?t' (Suc ?n) = ?new"
    using fits a(3) by (simp add: sym_slot_of_def committed_def)
  ultimately have "map (sym_slot_of ?t') [1..<Suc (Suc ?n)] = map (sym_slot_of t) [1..<Suc ?n] @ [?new]"
    unfolding nth_snoc_upt by (auto simp del: upt_Suc)
  then have expected: "sym_expected ?t' = add_mset ?new (sym_expected t)"
    using a(3) by (simp add: sym_expected_def committed_def del: upt_Suc)
  from r obtain d where "d < length (sy_slots t)"
    "unat idx = (unat hash + d) mod length (sy_slots t)"
    "\<forall>e < d. sl_id (sy_slots t ! ((unat hash + e) mod length (sy_slots t))) \<noteq> 0"
    "sl_id (sy_slots t ! unat idx) = 0" by (auto simp: commit_ready_def vacant_for_def)
  moreover have "sl_id ?new \<noteq> 0" using a(3) by (auto simp: word_unat_eq_iff)
  moreover have "table_holds (sy_slots t) (sym_expected t)"
    using r by (simp add: commit_ready_def sym_wf_def slots_wf_def)
  ultimately have "table_holds ((sy_slots t)[unat idx := ?new]) (add_mset ?new (sym_expected t))"
    by (intro table_insert) (auto intro: mod_less_divisor)
  then have "table_holds (sy_slots ?t') (sym_expected ?t')" by (simp add: expected) (simp add: committed_def)
  then show ?thesis using r a(3)
    by (simp add: commit_ready_def sym_wf_def slots_wf_def) (simp add: committed_def)
qed

lemma committed_wf:
  assumes r: "commit_ready t s len hash idx"
  shows "sym_wf (committed t s len hash idx)"
proof -
  have "arrays_wf (committed t s len hash idx)"
    using r commit_ready_arith [OF r]
    by (auto simp: commit_ready_def sym_wf_def arrays_wf_def committed_def)
  moreover have "sym_wf t" and "s \<notin> set (sym_names t)"
    using r by (simp_all add: commit_ready_def)
  then have "distinct (sym_names (committed t s len hash idx))"
    unfolding committed_names [OF r] by (simp add: sym_wf_def)
  moreover have "unat (sy_count (committed t s len hash idx)) = Suc (unat (sy_count t))"
    using commit_ready_arith(3) [OF r] by (simp add: committed_def)
  moreover have "unat (sy_arena_used (committed t s len hash idx)) = unat (sy_arena_used t) + length s + 1"
    using commit_ready_arith(4) [OF r] by (simp add: committed_def)
  then have "unat (sy_arena_used (committed t s len hash idx)) =
      names_bytes (sym_names (committed t s len hash idx))"
    unfolding committed_names [OF r] using \<open>sym_wf t\<close> by (simp add: sym_wf_def names_bytes_def)
  ultimately show ?thesis
    using committed_slots [OF r] committed_entry [OF r] by (simp add: sym_wf_def)
qed

subsection \<open>Interning\<close>

text \<open>What interning a new string does: it adds the string under the next symbol, or it is
  refused and the symbols stay as they are.\<close>

definition added_or_refused :: "symtab \<Rightarrow> u8 list \<Rightarrow> u32 \<Rightarrow> symtab \<Rightarrow> bool" where
  "added_or_refused t s r t' \<longleftrightarrow> sym_wf t' \<and>
     ((r = 0 \<and> sym_names t' = sym_names t) \<or>
      (unat r = Suc (length (sym_names t)) \<and> sym_names t' = sym_names t @ [s]))"

lemma refused_same: "sym_wf t' \<Longrightarrow> same_symbols t t' \<Longrightarrow> added_or_refused t s 0 t'"
  by (simp add: added_or_refused_def same_symbols_def)

lemma added_or_refused_same:
  "same_symbols t t1 \<Longrightarrow> added_or_refused t1 s r t' \<Longrightarrow> added_or_refused t s r t'"
  by (simp add: added_or_refused_def same_symbols_def)

lemma intern_finish_keeps:
  assumes wf: "sym_wf t" and vac: "vacant_for t hash idx" and hash: "hash = fnv1a s"
    and new: "s \<notin> set (sym_names t)" and len: "unat len = length s"
    and room: "unat (sy_arena_used t) + length s + 1 \<le> unat (sy_arena_cap t)"
    and lim: "unat (sy_arena_used t) + length s + 1 \<le> 2 ^ 32"
    and ent: "unat (sy_count t) + 1 < unat (sy_entries_cap t)"
  obtains r al' t' where "intern_finish al t s len hash idx = Inr (r, al', t')"
    and "added_or_refused t s r t'" and "al_steps al al'"
    and "al_ok al = (\<lambda>_ _. True) \<and> unat (sy_count t) + 1 < 1610612736 \<longrightarrow> r \<noteq> 0"
proof -
  have cnt: "unat (sy_count t + 1) = unat (sy_count t) + 1"
    using ent unat_u32_less [of "sy_entries_cap t"] unat_Suc_u32 [of "sy_count t"] by simp
  obtain ok al' t' idx' where m: "intern_make_room al t hash idx = Inr (ok, al', t', idx')"
    "sym_wf t'" "same_symbols t t'" "entries_kept t t'" "arena_kept t t'"
    "ok \<Longrightarrow> vacant_for t' hash idx'"
    "ok \<Longrightarrow> 100 * (unat (sy_count t) + 1) < 75 * unat (sy_slots_cap t')" "al_steps al al'"
    "al_ok al = (\<lambda>_ _. True) \<Longrightarrow> unat (sy_count t) + 1 < 1610612736 \<Longrightarrow> ok"
    using intern_make_room_keeps [OF wf vac cnt] by blast
  show ?thesis
  proof (cases ok)
    case False
    then have "\<not> (al_ok al = (\<lambda>_ _. True) \<and> unat (sy_count t) + 1 < 1610612736)" using m(9) by blast
    with that [of 0 al' t'] m(1,8) False refused_same [OF m(2,3)] show ?thesis
      by (simp add: intern_finish_def)
  next
    case True
    then have ready: "commit_ready t' s len hash idx'"
      using m room lim ent hash new len by (simp add: commit_ready_def same_symbols_def kept_defs)
    have id: "unat (sy_count t' + 1) = Suc (length (sym_names t'))"
      using commit_ready_arith(3) [OF ready] by simp
    then have "added_or_refused t' s (sy_count t' + 1) (committed t' s len hash idx')"
      using committed_wf [OF ready] committed_names [OF ready] by (simp add: added_or_refused_def)
    then have "added_or_refused t s (sy_count t' + 1) (committed t' s len hash idx')"
      using m(3) by (rule added_or_refused_same [rotated])
    moreover have "sy_count t' + 1 \<noteq> 0" using id by auto
    ultimately show ?thesis
      using that [of "sy_count t' + 1" al'] m True intern_commit_eq [OF ready]
      by (simp add: intern_finish_def)
  qed
qed

lemma arena_limit_test:
  assumes "sym_wf t" and "unat len = length s"
  shows "len \<ge> NN_SYMBOL_ARENA_LIMIT - sy_arena_used t \<longleftrightarrow>
    2 ^ 32 < unat (sy_arena_used t) + length s + 1"
proof -
  from assms(1) have u: "unat (sy_arena_used t) \<le> 4294967296" by (simp add: sym_wf_def arrays_wf_def)
  then have "unat (NN_SYMBOL_ARENA_LIMIT - sy_arena_used t) = 4294967296 - unat (sy_arena_used t)"
    by (simp add: unat_sub word_le_nat_alt)
  with u assms(2) show ?thesis by (auto simp: word_le_nat_alt)
qed

lemma intern_insert_keeps:
  assumes wf: "sym_wf t" and vac: "vacant_for t hash idx" and hash: "hash = fnv1a s"
    and new: "s \<notin> set (sym_names t)" and len: "unat len = length s"
  obtains r al' t' where "intern_insert al t s len hash idx = Inr (r, al', t')"
    and "added_or_refused t s r t'" and "al_steps al al'"
    and "al_ok al = (\<lambda>_ _. True) \<and> unat (sy_arena_used t) + length s + 1 \<le> 2 ^ 32 \<and>
         unat (sy_count t) + 1 < 1610612736 \<longrightarrow> r \<noteq> 0"
proof (cases "len \<ge> NN_SYMBOL_ARENA_LIMIT - sy_arena_used t")
  case True
  with that [of 0 al t] wf arena_limit_test [OF wf len] refused_same [OF wf] show ?thesis
    by (simp add: intern_insert_def)
next
  case fits: False
  then have lim: "unat (sy_arena_used t) + length s + 1 \<le> 2 ^ 32"
    using arena_limit_test [OF wf len] by simp
  then have len1: "unat (len + 1) = length s + 1" using len unat_add_u64 [of len 1] by simp
  then have "unat (sy_arena_used t) + unat (len + 1) \<le> 2 ^ 32" using lim by simp
  then obtain ok1 al1 t1 where a: "arena_reserve (len + 1) al t = Inr (ok1, al1, t1)"
    "sym_wf t1" "same_symbols t t1" "index_kept t t1"
    "ok1 \<Longrightarrow> unat (sy_arena_used t) + unat (len + 1) \<le> unat (sy_arena_cap t1)"
    "al_steps al al1" "al_ok al = (\<lambda>_ _. True) \<Longrightarrow> ok1"
    using arena_reserve_keeps [OF wf, of "len + 1" al] by metis
  obtain ok2 al2 t2 where e: "entries_reserve al1 t1 = (ok2, al2, t2)" "sym_wf t2"
    "same_symbols t1 t2" "index_kept t1 t2" "arena_kept t1 t2"
    "ok2 \<Longrightarrow> unat (sy_count t1) + 1 < unat (sy_entries_cap t2)" "al_steps al1 al2"
    "al_ok al1 = (\<lambda>_ _. True) \<Longrightarrow> unat (sy_count t1) < 2 ^ 31 - 1 \<Longrightarrow> ok2"
    using entries_reserve_keeps [OF a(2)] by blast
  have same: "same_symbols t t2" using a(3) e(3) by (rule same_symbols_trans)
  have steps: "al_steps al al2" using a(6) e(7) by (rule al_steps_trans)
  have al_eq: "al_ok al1 = al_ok al" "al_ok al2 = al_ok al" using a(6) steps by (simp_all add: al_steps_def)
  have count_eq: "sy_count t1 = sy_count t" using a(3) by (simp add: same_symbols_def)
  consider "\<not> ok1" | "ok1" "\<not> ok2" | "ok1" "ok2" by blast
  then show ?thesis
  proof cases
    case 1
    then have "al_ok al \<noteq> (\<lambda>_ _. True)" using a(7) by blast
    with 1 that [of 0 al1 t1] fits a(1,6) refused_same [OF a(2,3)] show ?thesis
      by (simp add: intern_insert_def)
  next
    case 2
    then have "\<not> (al_ok al = (\<lambda>_ _. True) \<and> unat (sy_count t) + 1 < 1610612736)"
      using e(8) al_eq count_eq by auto
    with 2 that [of 0 al2 t2] fits a(1) e(1) refused_same [OF e(2) same] steps show ?thesis
      by (simp add: intern_insert_def)
  next
    case 3
    have vac2: "vacant_for t2 hash idx"
      using vac a(4) e(4) by (simp add: vacant_for_def index_kept_def)
    have pre: "s \<notin> set (sym_names t2)"
      "unat (sy_arena_used t2) + length s + 1 \<le> unat (sy_arena_cap t2)"
      "unat (sy_arena_used t2) + length s + 1 \<le> 2 ^ 32"
      "unat (sy_count t2) + 1 < unat (sy_entries_cap t2)"
      using 3 a(5) e(3,5,6) new lim len1 same by (simp_all add: same_symbols_def kept_defs)
    obtain r al' t' where f: "intern_finish al2 t2 s len hash idx = Inr (r, al', t')"
      "added_or_refused t2 s r t'" "al_steps al2 al'"
      "al_ok al2 = (\<lambda>_ _. True) \<and> unat (sy_count t2) + 1 < 1610612736 \<longrightarrow> r \<noteq> 0"
      using intern_finish_keeps [OF e(2) vac2 hash pre(1) len pre(2-4)] by blast
    have count2: "sy_count t2 = sy_count t" using same by (simp add: same_symbols_def)
    show ?thesis
      using that [of r al' t'] f 3 fits a(1) e(1) al_eq count2
        added_or_refused_same [OF same f(2)] al_steps_trans [OF steps f(3)]
      by (simp add: intern_insert_def)
  qed
qed

text \<open>The whole call on a live table, for every readable string of at most UINT32_MAX bytes.\<close>

definition intern_outcome :: "symtab \<Rightarrow> u8 list \<Rightarrow> u32 \<Rightarrow> symtab \<Rightarrow> bool" where
  "intern_outcome t s r t' \<longleftrightarrow> sym_wf t' \<and>
     ((r = NN_SYMBOL_INVALID \<and> s \<notin> set (sym_names t) \<and> sym_names t' = sym_names t) \<or>
      (unat r = intern_index (sym_names t) s \<and> sym_names t' = intern_names (sym_names t) s))"

lemma intern_keeps:
  assumes wf: "sym_wf t" and len: "unat len \<le> length bs" "unat len < 2 ^ 32"
  obtains r al' t' where "nn_symbol_intern al t (Some bs) len = Inr (r, al', t')"
    and "intern_outcome t (take (unat len) bs) r t'" and "al_steps al al'"
    and "al_ok al = (\<lambda>_ _. True) \<and> unat (sy_arena_used t) + unat len + 1 \<le> 2 ^ 32 \<and>
         unat (sy_count t) + 1 < 1610612736 \<longrightarrow> r \<noteq> 0"
proof -
  define s where "s = take (unat len) bs"
  have s: "unat len = length s" using len(1) by (simp add: s_def)
  let ?hash = "fnv1a s"
  obtain p where p: "probe t s len ?hash (?hash AND sy_slots_mask t) = Some p"
    "probe_answer t s ?hash p"
    using probe_answers [OF wf s len(2) refl] by blast
  have small: "\<not> len > UINT32_MAX64" using len(2) by (simp add: word_less_nat_alt)
  have bytes: "take (unat len) bs = s" "len = 0 \<Longrightarrow> s = []" by (simp_all add: s_def)
  have call: "nn_symbol_intern al t (Some bs) len =
      (case p of Hit sid \<Rightarrow> Inr (sid, al, t) | Vacant idx' \<Rightarrow> intern_insert al t s len ?hash idx')"
    using sym_wf_live [OF wf] small p(1) bytes len(1)
    by (cases "len = 0") (simp_all add: nn_symbol_intern_def Let_def split: probe_result.splits)
  show ?thesis
  proof (cases p)
    case (Hit sid)
    with p(2) have h: "1 \<le> unat sid" "unat sid \<le> unat (sy_count t)" "sym_names t ! (unat sid - 1) = s"
      using sym_names_nth [of "unat sid" t] by (auto simp: probe_answer_def)
    then have "intern_index (sym_names t) s = unat sid"
      using intern_index_distinct [of "sym_names t" "unat sid - 1"] wf by (simp add: sym_wf_def)
    moreover have "s \<in> set (sym_names t)" using h nth_mem [of "unat sid - 1" "sym_names t"] by simp
    ultimately have "intern_outcome t s sid t" using wf by (simp add: intern_outcome_def intern_names_def)
    moreover have "sid \<noteq> 0" using h(1) by auto
    ultimately show ?thesis using that [of sid al t] call Hit by (simp add: s_def)
  next
    case (Vacant idx)
    with p(2) have v: "s \<notin> set (sym_names t)" "vacant_for t ?hash idx" by (auto simp: probe_answer_def)
    obtain r al' t' where r: "intern_insert al t s len ?hash idx = Inr (r, al', t')"
      "added_or_refused t s r t'" "al_steps al al'"
      "al_ok al = (\<lambda>_ _. True) \<and> unat (sy_arena_used t) + length s + 1 \<le> 2 ^ 32 \<and>
         unat (sy_count t) + 1 < 1610612736 \<longrightarrow> r \<noteq> 0"
      using intern_insert_keeps [OF wf v(2) refl v(1) s] by blast
    from r(2) v(1) have "intern_outcome t s r t'"
      by (auto simp: intern_outcome_def added_or_refused_def intern_index_new intern_names_def)
    with that [of r al' t', folded s_def] r(1,3,4) s call Vacant show ?thesis by simp
  qed
qed

subsection \<open>Reading back\<close>

lemma read_back:
  assumes wf: "sym_wf t" and i: "1 \<le> unat symb" "unat symb \<le> unat (sy_count t)"
  shows "read_text t (nn_symbol_text t symb) (unat (nn_symbol_len t symb)) =
         Inr (sym_names t ! (unat symb - 1))"
proof -
  have valid: "\<not> (symb = 0 \<or> sy_count t < symb)" using i by (auto simp: word_less_nat_alt)
  let ?e = "sy_entries t ! unat symb"
  have "entry_wf t (unat symb)" and "arrays_wf t" using wf i by (simp_all add: sym_wf_def)
  then have fit: "unat (se_offset ?e) + unat (se_len ?e) \<le> length (sy_arena t)"
    unfolding entry_wf_def arrays_wf_def by linarith
  have "sym_names t ! (unat symb - 1) =
      take (unat (se_len ?e)) (drop (unat (se_offset ?e)) (sy_arena t))"
    unfolding sym_names_nth [OF i] sym_text_def by (rule refl)
  with valid fit sym_wf_live [OF wf] show ?thesis
    unfolding read_text_def nn_symbol_text_def nn_symbol_len_def by simp
qed

subsection \<open>Initialisation\<close>

lemma init_capacity_result:
  obtains cap k where "init_capacity n = Some cap" and "unat cap = 2 ^ k" and "12 \<le> k" and "k \<le> 30"
    and "(if n < NN_SYMBOL_MAX_INITIAL then n else NN_SYMBOL_MAX_INITIAL) \<le> cap"
proof (cases "n > NN_SYMBOL_DEFAULT_CAPACITY")
  case True
  let ?want = "if n < NN_SYMBOL_MAX_INITIAL then n else NN_SYMBOL_MAX_INITIAL"
  have "?want \<le> 2 ^ 30" by (simp add: word_less_nat_alt word_le_nat_alt)
  then obtain r j where "round_cap ?want NN_SYMBOL_DEFAULT_CAPACITY = Some r" "unat r = 2 ^ j"
    "12 \<le> j" "j \<le> 30" "?want \<le> r"
    using round_cap_ends [of ?want NN_SYMBOL_DEFAULT_CAPACITY 12] by auto
  with that [of r j] True show ?thesis by (simp add: init_capacity_def)
next
  case False
  then have "n \<le> NN_SYMBOL_DEFAULT_CAPACITY" and "n < NN_SYMBOL_MAX_INITIAL"
    by (simp_all add: word_less_nat_alt word_le_nat_alt)
  with that [of NN_SYMBOL_DEFAULT_CAPACITY 12] False show ?thesis by (simp add: init_capacity_def)
qed

lemma fresh_table_wf:
  assumes "unat cap = 2 ^ k" and "1 \<le> k" and "k \<le> 30" and "length ar = unat c" and "0 < c"
  shows "sym_wf (sym_zero\<lparr>sy_entries_cap := cap, sy_entries := replicate (unat cap) e, sy_count := 0,
     sy_slots_cap := cap * 2, sy_slots_mask := cap * 2 - 1,
     sy_slots := replicate (unat (cap * 2)) empty_slot,
     sy_arena_cap := c, sy_arena := ar, sy_arena_blk := b, sy_arena_used := 0\<rparr>)"
proof -
  have "(2::nat) ^ k \<le> 2 ^ 30" using assms(3) by (rule power_increasing) simp
  then have "\<not> cap > UINT32_MAX div 2" using assms(1) by (simp add: word_less_nat_alt unat_div)
  then have d: "unat (cap * 2) = 2 ^ Suc k" using assms(1) by (simp add: unat_double)
  then show ?thesis using assms table_holds_empty [of "unat (cap * 2)"]
    by (auto simp: sym_wf_def slots_wf_def arrays_wf_def sym_names_def sym_expected_def names_bytes_def
        intro!: exI [of _ "Suc k"])
qed

lemma symbol_init_cases:
  obtains "nn_symbol_init al t n = Inl Abort" and "al_ok al \<noteq> (\<lambda>_ _. True)"
  | al' t' where "nn_symbol_init al t n = Inr (al', t')" and "sym_wf t'" and "sym_names t' = []"
    and "al_steps al al'"
    and "(if n < NN_SYMBOL_MAX_INITIAL then n else NN_SYMBOL_MAX_INITIAL) \<le> sy_entries_cap t'"
    and "sy_slots_cap t' = sy_entries_cap t' * 2" and "sy_arena_used t' = 0"
proof -
  obtain cap k where cap: "init_capacity n = Some cap" "unat cap = 2 ^ k" "12 \<le> k" "k \<le> 30"
    "(if n < NN_SYMBOL_MAX_INITIAL then n else NN_SYMBOL_MAX_INITIAL) \<le> cap"
    by (rule init_capacity_result)
  show ?thesis
  proof (cases "nn_symbol_init al t n")
    case (Inl e)
    with cap(1) have "nn_symbol_init al t n = Inl Abort"
      by (auto simp: nn_symbol_init_def Let_def c_malloc_def split: if_splits)
    moreover have "al_ok al \<noteq> (\<lambda>_ _. True)"
      using Inl cap(1) by (auto simp: nn_symbol_init_def Let_def c_malloc_def)
    ultimately show ?thesis by (rule that(1))
  next
    case (Inr p)
    obtain al' t' where p: "p = (al', t')" by (cases p)
    with Inr cap(1) obtain ar b c where t': "t' = sym_zero\<lparr>sy_entries_cap := cap,
        sy_entries := replicate (unat cap) \<lparr>se_offset = 0, se_len = 0, se_hash = 0\<rparr>, sy_count := 0,
        sy_slots_cap := cap * 2, sy_slots_mask := cap * 2 - 1,
        sy_slots := replicate (unat (cap * 2)) empty_slot,
        sy_arena_cap := NN_SYMBOL_ARENA_INITIAL, sy_arena := fill_u8 c b 0 (unat NN_SYMBOL_ARENA_INITIAL),
        sy_arena_blk := b, sy_arena_used := 0\<rparr>" and st: "al_steps al al'"
      by (auto simp: nn_symbol_init_def Let_def c_malloc_def al_steps_def split: if_splits)
    have "sym_wf t'" unfolding t'
      by (rule fresh_table_wf) (use cap in simp_all)
    moreover have "sym_names t' = []" by (simp add: t' sym_names_def)
    ultimately show ?thesis using that(2) [of al' t'] Inr p st cap(5) by (simp add: t')
  qed
qed

end
