(* ===== verification/Nova_Symbol_Spec.thy ===== *)
theory Nova_Symbol_Spec
  imports Nova_Intern
begin

section \<open>What the symbol table promises\<close>

text \<open>
  The contract of nn_symbol.h over the definitions of \<open>Nova_Symbol\<close>: the table is an
  \<open>interner\<close> (the locale of \<open>Nova_Interner\<close>), every symbol reads back as the string it was
  made from, and initialisation gives an empty table for every hint.
\<close>

subsection \<open>The table is an interner\<close>

text \<open>A call of \<open>nn_symbol_intern\<close> on a whole string, as the Haskell binding makes it.\<close>

definition intern_bytes :: "allocator \<Rightarrow> symtab \<Rightarrow> u8 list \<Rightarrow> (u32 \<times> allocator \<times> symtab) c_res" where
  "intern_bytes al t s = nn_symbol_intern al t (Some s) (of_nat (length s))"

lemma unat_length_u64: "length s < 2 ^ 32 \<Longrightarrow> unat (of_nat (length s) :: u64) = length s"
  by (simp add: unsigned_of_nat take_bit_nat_eq_self)

interpretation nn: interner intern_bytes sym_names sym_wf "\<lambda>s. length s < 2 ^ 32"
proof
  fix t al and s :: "u8 list"
  assume wf: "sym_wf t"
  then show "distinct (sym_names t)" by (simp add: sym_wf_def)
  assume len: "length s < 2 ^ 32"
  then have u: "unat (of_nat (length s) :: u64) = length s" by (rule unat_length_u64)
  obtain r al' t' where "nn_symbol_intern al t (Some s) (of_nat (length s)) = Inr (r, al', t')"
    "intern_outcome t (take (unat (of_nat (length s) :: u64)) s) r t'"
    by (rule intern_keeps [OF wf, of "of_nat (length s)" s al]) (use u len in auto)
  then show "\<exists>r al' t'. intern_bytes al t s = Inr (r, al', t') \<and> sym_wf t' \<and>
      ((r = 0 \<and> sym_names t' = sym_names t) \<or>
       (unat r = intern_index (sym_names t) s \<and> sym_names t' = intern_names (sym_names t) s))"
    using u unfolding intern_bytes_def intern_outcome_def by auto
qed

subsection \<open>A table small enough to evaluate\<close>

text \<open>Two entries, four slots and a two-byte arena: the second string already makes every part
  grow.\<close>

definition tiny_table :: symtab where
  "tiny_table = \<lparr>sy_entries = [\<lparr>se_offset = 0, se_len = 0, se_hash = 0\<rparr>,
       \<lparr>se_offset = 0, se_len = 0, se_hash = 0\<rparr>],
     sy_count = 0, sy_entries_cap = 2, sy_slots = [empty_slot, empty_slot, empty_slot, empty_slot],
     sy_slots_cap = 4, sy_slots_mask = 3, sy_arena = [0, 0], sy_arena_blk = 1,
     sy_arena_used = 0, sy_arena_cap = 2\<rparr>"

lemma tiny_table_wf: "sym_wf tiny_table"
proof -
  have n: "unat (2 * 2 :: u32) = Suc (Suc (Suc (Suc 0)))" "unat (2 :: u32) = Suc (Suc 0)"
    by simp_all
  have "sym_wf (sym_zero\<lparr>sy_entries_cap := 2,
      sy_entries := replicate (unat (2 :: u32)) \<lparr>se_offset = 0, se_len = 0, se_hash = 0\<rparr>, sy_count := 0,
      sy_slots_cap := 2 * 2, sy_slots_mask := 2 * 2 - 1,
      sy_slots := replicate (unat (2 * 2 :: u32)) empty_slot,
      sy_arena_cap := 2, sy_arena := [0, 0], sy_arena_blk := 1, sy_arena_used := 0\<rparr>)"
    by (rule fresh_table_wf [of _ 1]) simp_all
  then show ?thesis by (simp only: n replicate.simps) (simp add: tiny_table_def sym_zero_def)
qed

lemma tiny_table_names: "sym_names tiny_table = []"
  by (simp add: tiny_table_def sym_names_def)

subsection \<open>Reading back with the terminator\<close>

lemma read_back_nul:
  assumes wf: "sym_wf t" and i: "1 \<le> unat symb" "unat symb \<le> unat (sy_count t)"
  shows "read_text t (nn_symbol_text t symb) (unat (nn_symbol_len t symb) + 1) =
         Inr (sym_names t ! (unat symb - 1) @ [0])"
proof -
  have valid: "\<not> (symb = 0 \<or> sy_count t < symb)" using i by (auto simp: word_less_nat_alt)
  let ?e = "sy_entries t ! unat symb"
  let ?o = "unat (se_offset ?e)" and ?l = "unat (se_len ?e)"
  have e: "entry_wf t (unat symb)" and "arrays_wf t" using wf i by (simp_all add: sym_wf_def)
  then have fit: "?o + ?l < length (sy_arena t)" unfolding entry_wf_def arrays_wf_def by linarith
  then have "take (Suc ?l) (drop ?o (sy_arena t)) = take ?l (drop ?o (sy_arena t)) @ [sy_arena t ! (?o + ?l)]"
    by (simp add: take_Suc_conv_app_nth)
  also have "\<dots> = sym_names t ! (unat symb - 1) @ [0]"
    using e unfolding sym_names_nth [OF i] sym_text_def entry_wf_def by simp
  finally have "take (Suc ?l) (drop ?o (sy_arena t)) = sym_names t ! (unat symb - 1) @ [0]" .
  with valid fit sym_wf_live [OF wf] show ?thesis
    unfolding read_text_def nn_symbol_text_def nn_symbol_len_def by simp
qed

lemma stands_for_reads:
  assumes "sym_wf t" and "stands_for (sym_names t) r s"
  shows "read_text t (nn_symbol_text t r) (unat (nn_symbol_len t r) + 1) = Inr (s @ [0])"
proof -
  from assms(2) have "unat r \<noteq> 0" "unat r \<le> unat (sy_count t)" "sym_names t ! (unat r - 1) = s"
    by (simp_all add: stands_for_def unat_eq_0)
  with read_back_nul [OF assms(1), of r] show ?thesis by simp
qed

subsection \<open>Runs that fit\<close>

lemma names_bytes_simps [simp]:
  "names_bytes [] = 0"
  "names_bytes (s # ss) = length s + 1 + names_bytes ss"
  "names_bytes (ss @ ts) = names_bytes ss + names_bytes ts"
  by (simp_all add: names_bytes_def)

lemma names_bytes_member: "s \<in> set ss \<Longrightarrow> length s < names_bytes ss"
  by (induction ss) auto

lemma intern_names_bytes: "names_bytes (intern_names ns s) \<le> names_bytes ns + length s + 1"
  by (simp add: intern_names_def)

lemma intern_bytes_fits:
  assumes wf: "sym_wf t" and al: "al_ok al = (\<lambda>_ _. True)"
    and "names_bytes (sym_names t) + length s + 1 \<le> 2 ^ 32"
    and "length (sym_names t) + 1 < 1610612736"
  obtains r al' t' where "intern_bytes al t s = Inr (r, al', t')" and "sym_wf t'"
    and "al_ok al' = (\<lambda>_ _. True)" and "r \<noteq> 0" and "sym_names t' = intern_names (sym_names t) s"
proof -
  from assms have len: "length s < 2 ^ 32" and used: "unat (sy_arena_used t) = names_bytes (sym_names t)"
    by (simp_all add: sym_wf_def)
  from len have u: "unat (of_nat (length s) :: u64) = length s" by (rule unat_length_u64)
  obtain r al' t' where r: "nn_symbol_intern al t (Some s) (of_nat (length s)) = Inr (r, al', t')"
    "intern_outcome t s r t'" "al_steps al al'" "r \<noteq> 0"
    by (rule intern_keeps [OF wf, of "of_nat (length s)" s al]) (use u used len assms in auto)
  then show ?thesis using that [of r al' t'] al
    by (auto simp: intern_bytes_def intern_outcome_def al_steps_def)
qed

lemma intern_all_fits:
  assumes "sym_wf t" and "al_ok al = (\<lambda>_ _. True)"
    and "names_bytes (sym_names t) + names_bytes ss \<le> 2 ^ 32"
    and "length (sym_names t) + length ss < 1610612736"
    and "intern_all intern_bytes al t ss = Inr (rs, al', t')"
  shows "0 \<notin> set rs"
  using assms
proof (induction ss arbitrary: al t rs)
  case Nil
  then show ?case by simp
next
  case (Cons s ss)
  obtain r al1 t1 where r: "intern_bytes al t s = Inr (r, al1, t1)" "sym_wf t1"
    "al_ok al1 = (\<lambda>_ _. True)" "r \<noteq> 0" "sym_names t1 = intern_names (sym_names t) s"
    by (rule intern_bytes_fits [OF Cons.prems(1,2), of s]) (use Cons.prems(3,4) in auto)
  from Cons.prems(5) r(1) obtain rs1 where rs: "rs = r # rs1"
    "intern_all intern_bytes al1 t1 ss = Inr (rs1, al', t')" by (auto simp: res_bind_Inr_iff)
  have "length (intern_names (sym_names t) s) \<le> Suc (length (sym_names t))"
    by (simp add: intern_names_def)
  moreover have "names_bytes (intern_names (sym_names t) s) + names_bytes ss \<le> 2 ^ 32"
    using intern_names_bytes [of "sym_names t" s] Cons.prems(3) by simp
  ultimately have "0 \<notin> set rs1"
    using Cons.IH [OF r(2,3) _ _ rs(2)] Cons.prems(4) unfolding r(5) by simp
  with rs(1) r(4) show ?case by simp
qed

text \<open>The table after interning \<open>a\<close>: its arena is full.\<close>

definition tiny_one :: symtab where
  "tiny_one = tiny_table\<lparr>sy_count := 1, sy_arena := [97, 0], sy_arena_used := 2,
     sy_entries := [\<lparr>se_offset = 0, se_len = 0, se_hash = 0\<rparr>,
       \<lparr>se_offset = 0, se_len = 1, se_hash = 3826002220\<rparr>],
     sy_slots := [\<lparr>sl_hash = 3826002220, sl_id = 1\<rparr>, empty_slot, empty_slot, empty_slot]\<rparr>"

lemma tiny_one_run: "intern_bytes al_all tiny_table [97] = Inr (1, al_all, tiny_one)"
proof -
  have hash: "fnv1a [97] = 3826002220" by (simp add: fnv1a_def)
  have p: "probe tiny_table [97] 1 3826002220 0 = Some (Vacant 0)"
    by (subst probe.simps) (simp add: tiny_table_def empty_slot_def)
  have "intern_insert al_all tiny_table [97] 1 3826002220 0 = Inr (1, al_all, tiny_one)"
    by (simp add: intern_insert_def arena_reserve_def entries_reserve_def intern_finish_def
        intern_make_room_def intern_commit_def tiny_table_def tiny_one_def memcpy_at_def
        word_le_nat_alt)
  moreover have "3826002220 AND sy_slots_mask tiny_table = 0" "sy_slots tiny_table \<noteq> []"
    by (simp_all add: tiny_table_def)
  ultimately show ?thesis
    by (simp add: intern_bytes_def nn_symbol_intern_def hash p Let_def)
qed

lemma tiny_one_wf: "sym_wf tiny_one" "sym_names tiny_one = [[97]]"
proof -
  obtain r al' t' where "intern_bytes al_all tiny_table [97] = Inr (r, al', t')" "sym_wf t'"
    "sym_names t' = intern_names (sym_names tiny_table) [97]"
    by (rule intern_bytes_fits [OF tiny_table_wf, of al_all "[97]"])
      (auto simp: al_all_def tiny_table_names)
  then show "sym_wf tiny_one" "sym_names tiny_one = [[97]]"
    by (simp_all add: tiny_one_run tiny_table_names intern_names_def)
qed

subsection \<open>The properties\<close>

text \<open>C10: Interning any readable string of at most UINT32_MAX bytes into a live table ends. It
  either answers the string's symbol, which is one more than the string's position among the
  interned strings and is the next symbol when the string is new, and then adds nothing that was
  already there; or it refuses a new string with 0 and changes no symbol. It does not refuse while
  memory is granted, the arena stays within 2^32 bytes and the symbols stay below 1610612736.\<close>

theorem symbol_intern_refines:
  assumes "sym_wf t" and "unat len \<le> length bs" and "unat len < 2 ^ 32"
  shows "\<exists>r al' t'. nn_symbol_intern al t (Some bs) len = Inr (r, al', t') \<and>
    intern_outcome t (take (unat len) bs) r t' \<and>
    (r \<noteq> NN_SYMBOL_INVALID \<or> al_ok al \<noteq> (\<lambda>_ _. True) \<or>
     2 ^ 32 < names_bytes (sym_names t) + unat len + 1 \<or> 1610612736 \<le> length (sym_names t) + 1)"
proof -
  obtain r al' t' where r: "nn_symbol_intern al t (Some bs) len = Inr (r, al', t')"
    "intern_outcome t (take (unat len) bs) r t'"
    "al_ok al = (\<lambda>_ _. True) \<and> unat (sy_arena_used t) + unat len + 1 \<le> 2 ^ 32 \<and>
       unat (sy_count t) + 1 < 1610612736 \<longrightarrow> r \<noteq> 0"
    using intern_keeps [OF assms] by blast
  moreover have "unat (sy_arena_used t) = names_bytes (sym_names t)"
    using assms(1) by (simp add: sym_wf_def)
  ultimately show ?thesis by (intro exI [of _ r] exI [of _ al'] exI [of _ t']) auto
qed

lemma symbol_intern_refines_witness:
  "sym_wf tiny_table \<and>
   (\<exists>r al' t'. nn_symbol_intern al_all tiny_table (Some [110, 105, 120]) 3 = Inr (r, al', t') \<and>
      r = 1 \<and> sym_names t' = [[110, 105, 120]])"
proof -
  obtain r al' t' where r: "nn_symbol_intern al_all tiny_table (Some [110, 105, 120]) 3 = Inr (r, al', t')"
    "intern_outcome tiny_table [110, 105, 120] r t'" "r \<noteq> 0"
    using symbol_intern_refines [OF tiny_table_wf, of 3 "[110, 105, 120]" al_all]
    by (auto simp: tiny_table_names al_all_def)
  then have "unat r = 1" "sym_names t' = [[110, 105, 120]]"
    by (auto simp: intern_outcome_def tiny_table_names intern_index_def intern_names_def)
  moreover from this(1) have "r = 1" by (simp add: word_unat_eq_iff)
  ultimately show ?thesis using r(1) tiny_table_wf by blast
qed

text \<open>C13: Over any run of interns two symbols are equal exactly when the strings are, so the
  rest of the program may compare symbols instead of strings.\<close>

theorem symbols_identify_strings:
  assumes "sym_wf t" and "\<forall>s \<in> set ss. length s < 2 ^ 32"
  shows "\<exists>rs al' t'. intern_all intern_bytes al t ss = Inr (rs, al', t') \<and> length rs = length ss \<and>
    (\<forall>i < length ss. \<forall>j < length ss. rs ! i \<noteq> 0 \<and> rs ! j \<noteq> 0 \<longrightarrow>
       (rs ! i = rs ! j \<longleftrightarrow> ss ! i = ss ! j))"
proof -
  obtain rs al' t' where r: "intern_all intern_bytes al t ss = Inr (rs, al', t')" "length rs = length ss"
    using nn.intern_all_result [OF assms, of al] by blast
  with nn.symbols_identify [OF assms r(1)] show ?thesis by blast
qed

lemma symbols_identify_strings_witness:
  "\<exists>rs al' t'. intern_all intern_bytes al_all tiny_table [[97], [98, 99], [97]] = Inr (rs, al', t') \<and>
     rs ! 0 = rs ! 2 \<and> rs ! 0 \<noteq> rs ! 1"
proof -
  let ?ss = "[[97], [98, 99], [97]] :: u8 list list"
  obtain rs al' t' where r: "intern_all intern_bytes al_all tiny_table ?ss = Inr (rs, al', t')"
    "length rs = 3" "\<forall>i < 3. \<forall>j < 3. rs ! i \<noteq> 0 \<and> rs ! j \<noteq> 0 \<longrightarrow> (rs ! i = rs ! j \<longleftrightarrow> ?ss ! i = ?ss ! j)"
    using symbols_identify_strings [OF tiny_table_wf, of ?ss al_all] by auto
  have "0 \<notin> set rs"
    by (rule intern_all_fits [OF tiny_table_wf _ _ _ r(1)]) (simp_all add: al_all_def tiny_table_names)
  then have "rs ! i \<noteq> 0" if "i < 3" for i using that r(2) by (metis nth_mem)
  with r show ?thesis by (intro exI [of _ rs] exI [of _ al'] exI [of _ t']) auto
qed

text \<open>After initialisation, whatever the hint and the state before, every string of a run
  that fits gets a symbol, and the symbol's text and length read back as that string followed by
  its NUL, however much the table grew after the string was interned.\<close>

theorem symbols_read_back:
  assumes "nn_symbol_init al t n = Inr (al0, t0)" and "al_ok al = (\<lambda>_ _. True)"
    and "names_bytes ss \<le> 2 ^ 32" and "length ss < 1610612736"
  shows "\<exists>rs al' t'. intern_all intern_bytes al0 t0 ss = Inr (rs, al', t') \<and> length rs = length ss \<and>
    (\<forall>i < length ss. rs ! i \<noteq> 0 \<and>
       read_text t' (nn_symbol_text t' (rs ! i)) (unat (nn_symbol_len t' (rs ! i)) + 1) =
         Inr (ss ! i @ [0]))"
proof -
  have t0: "sym_wf t0" "sym_names t0 = []" "al_ok al0 = (\<lambda>_ _. True)"
    using symbol_init_cases [of al t n] assms(1,2) by (fastforce simp: al_steps_def)+
  have fits: "\<forall>s \<in> set ss. length s < 2 ^ 32" using names_bytes_member assms(3) by fastforce
  obtain rs al' t' where r: "intern_all intern_bytes al0 t0 ss = Inr (rs, al', t')" "sym_wf t'"
    "length rs = length ss"
    "\<forall>i < length ss. rs ! i \<noteq> 0 \<longrightarrow> stands_for (sym_names t') (rs ! i) (ss ! i)"
    using nn.intern_all_result [OF t0(1) fits, of al0] by blast
  have "0 \<notin> set rs" by (rule intern_all_fits [OF t0(1,3) _ _ r(1)]) (use assms t0 in simp_all)
  then have "rs ! i \<noteq> 0" if "i < length ss" for i using that r(3) by (metis nth_mem)
  with r stands_for_reads [OF r(2)] show ?thesis by blast
qed

lemma symbols_read_back_witness:
  "\<exists>al0 t0 rs al' t'. nn_symbol_init al_all sym_zero 0 = Inr (al0, t0) \<and>
     intern_all intern_bytes al0 t0 [[97], [98, 99]] = Inr (rs, al', t') \<and>
     read_text t' (nn_symbol_text t' (rs ! 1)) 3 = Inr [98, 99, 0]"
proof -
  obtain al0 t0 where i: "nn_symbol_init al_all sym_zero 0 = Inr (al0, t0)"
    by (rule symbol_init_cases [of al_all sym_zero 0]) (auto simp: al_all_def)
  obtain rs al' t' where r: "intern_all intern_bytes al0 t0 [[97], [98, 99]] = Inr (rs, al', t')"
    "read_text t' (nn_symbol_text t' (rs ! 1)) (unat (nn_symbol_len t' (rs ! 1)) + 1) = Inr [98, 99, 0]"
    using symbols_read_back [OF i, of "[[97], [98, 99]]"] by (fastforce simp: al_all_def)
  then have "unat (nn_symbol_len t' (rs ! 1)) + 1 = 3"
    by (auto simp: read_text_def split: val.splits if_splits dest: arg_cong [where f = length])
  with i r show ?thesis by fastforce
qed

text \<open>Initialisation, for every hint, every allocator and any state before it, either
  aborts or gives a live, empty table with room for the hint (at most 2^30 symbols) and twice as
  many slots; it aborts only when the allocator refuses one of the three arrays.\<close>

theorem symbol_init_result:
  "case nn_symbol_init al t n of
     Inl e \<Rightarrow> e = Abort \<and> (\<exists>k b. \<not> al_ok al k b)
   | Inr (al', t') \<Rightarrow> sym_wf t' \<and> nn_symbol_live t' \<and> sym_names t' = [] \<and> nn_symbol_count t' = 0 \<and>
       min (unat n) (2 ^ 30) \<le> unat (sy_entries_cap t') \<and> sy_slots_cap t' = sy_entries_cap t' * 2"
proof (rule symbol_init_cases [of al t n])
  assume "nn_symbol_init al t n = Inl Abort" "al_ok al \<noteq> (\<lambda>_ _. True)"
  then show ?thesis by (auto simp: fun_eq_iff)
next
  fix al' t'
  assume a: "nn_symbol_init al t n = Inr (al', t')" "sym_wf t'" "sym_names t' = []"
    "(if n < NN_SYMBOL_MAX_INITIAL then n else NN_SYMBOL_MAX_INITIAL) \<le> sy_entries_cap t'"
    "sy_slots_cap t' = sy_entries_cap t' * 2"
  have "min (unat n) (2 ^ 30) \<le> unat (sy_entries_cap t')"
    using a(4) by (auto simp: word_less_nat_alt word_le_nat_alt split: if_splits)
  moreover have "sy_count t' = 0"
    using a(3) length_sym_names [of t'] by (simp add: unat_eq_0)
  ultimately show ?thesis using a sym_wf_live [OF a(2)]
    by (simp add: nn_symbol_live_def nn_symbol_count_def)
qed

subsection \<open>Text pointers do not outlive a growth of the arena\<close>

lemma arena_reserve_moves:
  assumes "arena_reserve needed al t = Inr (ok, al1, t1)" and "ok"
    and "sy_arena_cap t < sy_arena_used t + needed"
  shows "sy_arena_blk t1 = al_next al"
  using assms by (auto simp: arena_reserve_def Let_def c_malloc_def split: if_splits option.splits)

lemma arena_reserve_count:
  "arena_reserve needed al t = Inr (ok, al1, t1) \<Longrightarrow> sy_count t1 = sy_count t"
  by (auto simp: arena_reserve_def Let_def c_malloc_def split: if_splits option.splits)

lemma entries_reserve_blk:
  "entries_reserve al t = (ok, al1, t1) \<Longrightarrow> sy_arena_blk t1 = sy_arena_blk t"
  by (auto simp: entries_reserve_def Let_def c_malloc_def split: if_splits)

lemma slots_grow_blk:
  "slots_grow al t = Inr (ok, al1, t1) \<Longrightarrow> sy_arena_blk t1 = sy_arena_blk t"
  by (auto simp: slots_grow_def Let_def c_malloc_def split: if_splits option.splits)

lemma intern_finish_blk:
  "intern_finish al t s len hash idx = Inr (r, al1, t1) \<Longrightarrow> sy_arena_blk t1 = sy_arena_blk t"
  by (auto simp: intern_finish_def intern_make_room_def intern_commit_def Let_def res_bind_Inr_iff
      dest: slots_grow_blk split: if_splits option.splits prod.splits)

lemma intern_moves_arena:
  assumes wf: "sym_wf t" and len: "unat len = length s" "unat len < 2 ^ 32"
    and new: "s \<notin> set (sym_names t)" and full: "sy_arena_cap t < sy_arena_used t + (len + 1)"
    and call: "nn_symbol_intern al t (Some s) len = Inr (r, al', t')" and ok: "r \<noteq> 0"
  shows "sy_arena_blk t' = al_next al"
proof -
  let ?hash = "fnv1a s"
  obtain p where p: "probe t s len ?hash (?hash AND sy_slots_mask t) = Some p"
    "probe_answer t s ?hash p"
    using probe_answers [OF wf len refl] by blast
  have "p \<noteq> Hit sid" for sid
    using p(2) new set_sym_names [of s t] by (auto simp: probe_answer_def)
  then obtain idx where idx: "p = Vacant idx" by (cases p) auto
  have small: "\<not> len > UINT32_MAX64" using len(2) by (simp add: word_less_nat_alt)
  have "intern_insert al t s len ?hash idx = Inr (r, al', t')"
    using call sym_wf_live [OF wf] small p(1) len(1) idx
    by (cases "len = 0") (simp_all add: nn_symbol_intern_def Let_def)
  with ok obtain al1 t1 al2 t2 where
    "arena_reserve (len + 1) al t = Inr (True, al1, t1)"
    "entries_reserve al1 t1 = (True, al2, t2)"
    "intern_finish al2 t2 s len ?hash idx = Inr (r, al', t')"
    by (auto simp: intern_insert_def res_bind_Inr_iff split: if_splits prod.splits)
  then show ?thesis
    using full by (auto dest!: intern_finish_blk entries_reserve_blk arena_reserve_moves)
qed

text \<open>C37: A pointer \<open>nn_symbol_text\<close> answered is valid only until the arena next grows: once a
  new string is interned that the arena has no room for, following a pointer obtained before is
  undefined. nn_symbol.h promises it "valid until nn_symbol_destroy()".\<close>

theorem symbol_text_dangles:
  assumes "sym_wf t" and "unat len = length s" and "unat len < 2 ^ 32" and "s \<notin> set (sym_names t)"
    and "sy_arena_cap t < sy_arena_used t + (len + 1)" and "sy_arena_blk t \<noteq> al_next al"
    and "nn_symbol_intern al t (Some s) len = Inr (r, al', t')" and "r \<noteq> 0"
  shows "read_text t' (nn_symbol_text t symb) n = Inl Undefined"
  using intern_moves_arena [OF assms(1-5,7,8)] assms(6)
  by (simp add: read_text_def nn_symbol_text_def)

lemma symbol_text_dangles_witness:
  "\<exists>r al2 t2. intern_bytes al_all tiny_table [97] = Inr (1, al_all, tiny_one) \<and>
     read_text tiny_one (nn_symbol_text tiny_one 1) 1 = Inr [97] \<and>
     nn_symbol_intern al_all tiny_one (Some [98, 99]) 2 = Inr (r, al2, t2) \<and>
     read_text t2 (nn_symbol_text tiny_one 1) 1 = Inl Undefined"
proof -
  obtain r al2 t2 where r: "nn_symbol_intern al_all tiny_one (Some [98, 99]) 2 = Inr (r, al2, t2)"
    "r \<noteq> 0"
    by (rule intern_bytes_fits [OF tiny_one_wf(1), of al_all "[98, 99]"])
      (auto simp: al_all_def tiny_one_wf(2) intern_bytes_def)
  have "read_text t2 (nn_symbol_text tiny_one 1) 1 = Inl Undefined"
    by (rule symbol_text_dangles [OF tiny_one_wf(1) _ _ _ _ _ r])
      (simp_all add: tiny_one_wf(2), simp_all add: tiny_one_def tiny_table_def al_all_def)
  moreover have "read_text tiny_one (nn_symbol_text tiny_one 1) 1 = Inr [97]"
    by (simp add: read_text_def nn_symbol_text_def tiny_one_def)
  ultimately show ?thesis using r(1) tiny_one_run by blast
qed

end
