(* ===== verification/Nova_Thunk.thy ===== *)
theory Nova_Thunk
  imports Nova_Prelude
begin

section \<open>nn_thunk.c: memoization cells\<close>

text \<open>
  A thunk is a 16-byte cell that is pending (a bytecode index and an environment), under
  evaluation (a black hole) or computed (a tagged payload). Cells live in an arena of blocks, the
  newest of which is filled next; three computed constants live outside it. This theory holds the
  state and the operations as the C has them; \<open>Nova_Thunk_Spec\<close> holds what they promise.
\<close>

subsection \<open>Cells\<close>

abbreviation NN_THUNK_PENDING :: u8 where "NN_THUNK_PENDING \<equiv> 0"
abbreviation NN_THUNK_COMPUTED :: u8 where "NN_THUNK_COMPUTED \<equiv> 1"
abbreviation NN_THUNK_BLACKHOLE :: u8 where "NN_THUNK_BLACKHOLE \<equiv> 2"

abbreviation NN_VALUE_INT :: u8 where "NN_VALUE_INT \<equiv> 0"
abbreviation NN_VALUE_FLOAT :: u8 where "NN_VALUE_FLOAT \<equiv> 1"
abbreviation NN_VALUE_BOOL :: u8 where "NN_VALUE_BOOL \<equiv> 2"
abbreviation NN_VALUE_NULL :: u8 where "NN_VALUE_NULL \<equiv> 3"
abbreviation NN_VALUE_STR :: u8 where "NN_VALUE_STR \<equiv> 4"
abbreviation NN_VALUE_PATH :: u8 where "NN_VALUE_PATH \<equiv> 5"
abbreviation NN_VALUE_LIST :: u8 where "NN_VALUE_LIST \<equiv> 6"
abbreviation NN_VALUE_ATTRS :: u8 where "NN_VALUE_ATTRS \<equiv> 7"
abbreviation NN_VALUE_CTXSTR :: u8 where "NN_VALUE_CTXSTR \<equiv> 8"
abbreviation NN_VALUE_LAMBDA :: u8 where "NN_VALUE_LAMBDA \<equiv> 9"
abbreviation NN_VALUE_PTR :: u8 where "NN_VALUE_PTR \<equiv> 255"

text \<open>\<open>nn_thunk_t\<close>.\<close>

record thunk =
  th_state :: u8
  th_val_tag :: u8
  th_pad :: u16
  th_bc_idx :: u32
  th_payload :: val

text \<open>
  The scalars that share the payload: \<open>int64_t\<close> and \<open>double\<close> as their 64 bits (the code only
  casts or copies them), a symbol or a truth value zero-extended through \<open>intptr_t\<close>.
\<close>

definition pending_cell :: "u32 \<Rightarrow> val \<Rightarrow> thunk" where
  "pending_cell bc_idx env = \<lparr>th_state = NN_THUNK_PENDING, th_val_tag = 0, th_pad = 0,
     th_bc_idx = bc_idx, th_payload = env\<rparr>"

definition computed_cell :: "u8 \<Rightarrow> val \<Rightarrow> thunk" where
  "computed_cell tag payload = \<lparr>th_state = NN_THUNK_COMPUTED, th_val_tag = tag, th_pad = 0,
     th_bc_idx = 0, th_payload = payload\<rparr>"

subsection \<open>The arena\<close>

text \<open>\<open>struct nn_thunk_block\<close> and \<open>struct nn_thunk_arena\<close>. The list of blocks is the linked list
  from \<open>head\<close>; \<open>current\<close> is its last block.\<close>

record thunk_block =
  tb_count :: u32
  tb_capacity :: u32
  tb_slots :: "thunk list"

record thunk_arena =
  ta_blocks :: "thunk_block list"
  ta_total :: u32
  ta_block_capacity :: u32

text \<open>The file's state: \<open>g_arena\<close> (None for NULL) and the three static cells.\<close>

record thunk_mod =
  tm_arena :: "thunk_arena option"
  tm_null :: thunk
  tm_true :: thunk
  tm_false :: thunk

definition thunk_mod_init :: thunk_mod where
  "thunk_mod_init = \<lparr>tm_arena = None,
     tm_null = computed_cell NN_VALUE_NULL NULL,
     tm_true = computed_cell NN_VALUE_BOOL (Raw 1),
     tm_false = computed_cell NN_VALUE_BOOL NULL\<rparr>"

text \<open>A \<open>nn_thunk_t *\<close>: slot \<open>j\<close> of the \<open>i\<close>-th block, or one of the static cells.\<close>

datatype thunk_ref = Slot nat nat | Null_cell | True_cell | False_cell

definition slot_at :: "thunk_arena \<Rightarrow> nat \<Rightarrow> nat \<Rightarrow> thunk option" where
  "slot_at a i j =
     (if i < length (ta_blocks a) \<and> j < unat (tb_count (ta_blocks a ! i))
      then Some (tb_slots (ta_blocks a ! i) ! j) else None)"

fun thunk_at :: "thunk_mod \<Rightarrow> thunk_ref \<Rightarrow> thunk option" where
  "thunk_at m (Slot i j) = (case tm_arena m of None \<Rightarrow> None | Some a \<Rightarrow> slot_at a i j)"
| "thunk_at m Null_cell = Some (tm_null m)"
| "thunk_at m True_cell = Some (tm_true m)"
| "thunk_at m False_cell = Some (tm_false m)"

definition put_slot :: "thunk_arena \<Rightarrow> nat \<Rightarrow> nat \<Rightarrow> thunk \<Rightarrow> thunk_arena" where
  "put_slot a i j t = a\<lparr>ta_blocks := (ta_blocks a)[i :=
     (ta_blocks a ! i)\<lparr>tb_slots := (tb_slots (ta_blocks a ! i))[j := t]\<rparr>]\<rparr>"

fun put_thunk :: "thunk_mod \<Rightarrow> thunk_ref \<Rightarrow> thunk \<Rightarrow> thunk_mod" where
  "put_thunk m (Slot i j) t = m\<lparr>tm_arena := map_option (\<lambda>a. put_slot a i j t) (tm_arena m)\<rparr>"
| "put_thunk m Null_cell t = m\<lparr>tm_null := t\<rparr>"
| "put_thunk m True_cell t = m\<lparr>tm_true := t\<rparr>"
| "put_thunk m False_cell t = m\<lparr>tm_false := t\<rparr>"

text \<open>The slots of a block \<open>malloc\<close> just returned hold anything.\<close>

definition fill_thunks :: "allocator \<Rightarrow> nat \<Rightarrow> nat \<Rightarrow> thunk list" where
  "fill_thunks al b n = map (\<lambda>i. \<lparr>th_state = ucast (al_fill al b (5 * i)),
     th_val_tag = ucast (al_fill al b (5 * i + 1)), th_pad = ucast (al_fill al b (5 * i + 2)),
     th_bc_idx = ucast (al_fill al b (5 * i + 3)), th_payload = Raw (al_fill al b (5 * i + 4))\<rparr>) [0..<n]"

definition alloc_block :: "u32 \<Rightarrow> allocator \<Rightarrow> thunk_block option \<times> allocator" where
  "alloc_block capacity al =
     (case c_malloc (16 + ucast capacity * 16) al of
        (None, al') \<Rightarrow> (None, al')
      | (Some b, al') \<Rightarrow>
          (Some \<lparr>tb_count = 0, tb_capacity = capacity,
                 tb_slots = fill_thunks al b (unat capacity)\<rparr>, al'))"

text \<open>The block to use next, a new one when the current one is full.\<close>

definition open_block :: "allocator \<Rightarrow> thunk_arena \<Rightarrow> bool \<times> allocator \<times> thunk_arena" where
  "open_block al a =
     (if tb_count (last (ta_blocks a)) \<ge> tb_capacity (last (ta_blocks a)) then
        (case alloc_block (ta_block_capacity a) al of
           (None, al') \<Rightarrow> (False, al', a)
         | (Some blk, al') \<Rightarrow> (True, al', a\<lparr>ta_blocks := ta_blocks a @ [blk]\<rparr>))
      else (True, al, a))"

definition bump :: "thunk_arena \<Rightarrow> thunk_arena" where
  "bump a = (let i = length (ta_blocks a) - 1; blk = ta_blocks a ! i in
     a\<lparr>ta_blocks := (ta_blocks a)[i := blk\<lparr>tb_count := tb_count blk + 1\<rparr>],
       ta_total := ta_total a + 1\<rparr>)"

definition arena_alloc ::
  "allocator \<Rightarrow> thunk_mod \<Rightarrow> thunk_ref option \<times> allocator \<times> thunk_mod" where
  "arena_alloc al m =
     (case tm_arena m of
        None \<Rightarrow> (None, al, m)
      | Some a \<Rightarrow>
          (case open_block al a of (ok, al', a') \<Rightarrow>
             if \<not> ok then (None, al', m\<lparr>tm_arena := Some a'\<rparr>)
             else (Some (Slot (length (ta_blocks a') - 1) (unat (tb_count (last (ta_blocks a'))))),
                   al', m\<lparr>tm_arena := Some (bump a')\<rparr>)))"

subsection \<open>Lifecycle\<close>

abbreviation NN_THUNK_DEFAULT_BLOCK_CAPACITY :: u32 where
  "NN_THUNK_DEFAULT_BLOCK_CAPACITY \<equiv> 65536"

definition nn_thunk_live :: "thunk_mod \<Rightarrow> bool" where
  "nn_thunk_live m \<longleftrightarrow> tm_arena m \<noteq> None"

definition nn_thunk_destroy :: "thunk_mod \<Rightarrow> thunk_mod" where
  "nn_thunk_destroy m = (case tm_arena m of None \<Rightarrow> m | Some a \<Rightarrow> m\<lparr>tm_arena := None\<rparr>)"

definition nn_thunk_init :: "allocator \<Rightarrow> thunk_mod \<Rightarrow> u32 \<Rightarrow> (allocator \<times> thunk_mod) c_res" where
  "nn_thunk_init al m initial_capacity =
     (let m = (if tm_arena m \<noteq> None then nn_thunk_destroy m else m);
          cap = (if initial_capacity > 0 then initial_capacity else NN_THUNK_DEFAULT_BLOCK_CAPACITY)
      in case c_malloc 24 al of
           (None, _) \<Rightarrow> Inl Abort
         | (Some _, al1) \<Rightarrow>
             (case alloc_block cap al1 of
                (None, _) \<Rightarrow> Inl Abort
              | (Some blk, al2) \<Rightarrow>
                  Inr (al2, m\<lparr>tm_arena :=
                    Some \<lparr>ta_blocks = [blk], ta_total = 0, ta_block_capacity = cap\<rparr>\<rparr>)))"

subsection \<open>Allocation\<close>

text \<open>Every constructor allocates a slot and then writes all five fields of it.\<close>

definition new_cell ::
  "thunk \<Rightarrow> allocator \<Rightarrow> thunk_mod \<Rightarrow> thunk_ref option \<times> allocator \<times> thunk_mod" where
  "new_cell t al m = (case arena_alloc al m of
     (None, al', m') \<Rightarrow> (None, al', m')
   | (Some r, al', m') \<Rightarrow> (Some r, al', put_thunk m' r t))"

definition nn_thunk_new_bc where
  "nn_thunk_new_bc bc_idx env_ptr = new_cell (pending_cell bc_idx env_ptr)"

definition nn_thunk_new_computed where
  "nn_thunk_new_computed v = new_cell (computed_cell NN_VALUE_PTR v)"

definition nn_thunk_new_computed_int where
  "nn_thunk_new_computed_int v = new_cell (computed_cell NN_VALUE_INT (Raw v))"

definition nn_thunk_new_computed_float where
  "nn_thunk_new_computed_float bits = new_cell (computed_cell NN_VALUE_FLOAT (Raw bits))"

definition nn_thunk_new_computed_str :: "u32 \<Rightarrow> allocator \<Rightarrow> thunk_mod \<Rightarrow>
    thunk_ref option \<times> allocator \<times> thunk_mod" where
  "nn_thunk_new_computed_str symb = new_cell (computed_cell NN_VALUE_STR (Raw (ucast symb)))"

definition nn_thunk_new_computed_path :: "u32 \<Rightarrow> allocator \<Rightarrow> thunk_mod \<Rightarrow>
    thunk_ref option \<times> allocator \<times> thunk_mod" where
  "nn_thunk_new_computed_path symb = new_cell (computed_cell NN_VALUE_PATH (Raw (ucast symb)))"

definition nn_thunk_new_computed_list where
  "nn_thunk_new_computed_list p = new_cell (computed_cell NN_VALUE_LIST p)"

definition nn_thunk_new_computed_attrs where
  "nn_thunk_new_computed_attrs p = new_cell (computed_cell NN_VALUE_ATTRS p)"

definition nn_thunk_new_computed_ctxstr where
  "nn_thunk_new_computed_ctxstr p = new_cell (computed_cell NN_VALUE_CTXSTR p)"

definition nn_thunk_new_computed_lambda where
  "nn_thunk_new_computed_lambda p = new_cell (computed_cell NN_VALUE_LAMBDA p)"

definition nn_thunk_null :: thunk_ref where
  "nn_thunk_null = Null_cell"

definition nn_thunk_bool :: "u8 \<Rightarrow> thunk_ref" where
  "nn_thunk_bool v = (if v \<noteq> 0 then True_cell else False_cell)"

subsection \<open>Queries\<close>

definition nn_thunk_state :: "thunk \<Rightarrow> u8" where
  "nn_thunk_state t = th_state t"

definition nn_thunk_payload :: "thunk \<Rightarrow> val" where
  "nn_thunk_payload t = th_payload t"

definition nn_thunk_value_tag :: "thunk \<Rightarrow> u8" where
  "nn_thunk_value_tag t = th_val_tag t"

definition nn_thunk_get_bc_idx :: "thunk \<Rightarrow> u32" where
  "nn_thunk_get_bc_idx t = th_bc_idx t"

definition nn_thunk_get_int :: "(nat \<Rightarrow> u64) \<Rightarrow> thunk \<Rightarrow> u64" where
  "nn_thunk_get_int base t = val_bits base (th_payload t)"

definition nn_thunk_get_float :: "(nat \<Rightarrow> u64) \<Rightarrow> thunk \<Rightarrow> u64" where
  "nn_thunk_get_float base t = val_bits base (th_payload t)"

definition nn_thunk_get_bool :: "(nat \<Rightarrow> u64) \<Rightarrow> thunk \<Rightarrow> u8" where
  "nn_thunk_get_bool base t = ucast (val_bits base (th_payload t))"

definition nn_thunk_get_str :: "(nat \<Rightarrow> u64) \<Rightarrow> thunk \<Rightarrow> u32" where
  "nn_thunk_get_str base t = ucast (val_bits base (th_payload t))"

definition nn_thunk_get_path :: "(nat \<Rightarrow> u64) \<Rightarrow> thunk \<Rightarrow> u32" where
  "nn_thunk_get_path base t = ucast (val_bits base (th_payload t))"

definition nn_thunk_get_list :: "thunk \<Rightarrow> val" where
  "nn_thunk_get_list t = th_payload t"

definition nn_thunk_get_attrs :: "thunk \<Rightarrow> val" where
  "nn_thunk_get_attrs t = th_payload t"

definition nn_thunk_get_ctxstr :: "thunk \<Rightarrow> val" where
  "nn_thunk_get_ctxstr t = th_payload t"

definition nn_thunk_get_lambda :: "thunk \<Rightarrow> val" where
  "nn_thunk_get_lambda t = th_payload t"

subsection \<open>Transitions\<close>

text \<open>Each answers 1 or 0 (here True or False) and the cell.\<close>

definition nn_thunk_set_payload :: "val \<Rightarrow> thunk \<Rightarrow> bool \<times> thunk" where
  "nn_thunk_set_payload p t =
     (if th_state t \<noteq> NN_THUNK_PENDING then (False, t) else (True, t\<lparr>th_payload := p\<rparr>))"

definition nn_thunk_mark_blackhole :: "thunk \<Rightarrow> bool \<times> thunk" where
  "nn_thunk_mark_blackhole t =
     (if th_state t \<noteq> NN_THUNK_PENDING then (False, t)
      else (True, t\<lparr>th_state := NN_THUNK_BLACKHOLE\<rparr>))"

definition nn_thunk_mark_pending :: "thunk \<Rightarrow> bool \<times> thunk" where
  "nn_thunk_mark_pending t =
     (if th_state t \<noteq> NN_THUNK_BLACKHOLE then (False, t)
      else (True, t\<lparr>th_state := NN_THUNK_PENDING\<rparr>))"

text \<open>The body the eleven \<open>nn_thunk_set_computed\<close> functions share.\<close>

definition memoize :: "u8 \<Rightarrow> val \<Rightarrow> thunk \<Rightarrow> bool \<times> thunk" where
  "memoize tag payload t =
     (if th_state t = NN_THUNK_COMPUTED then (False, t)
      else (True, t\<lparr>th_state := NN_THUNK_COMPUTED, th_val_tag := tag, th_payload := payload\<rparr>))"

definition nn_thunk_set_computed where
  "nn_thunk_set_computed v = memoize NN_VALUE_PTR v"

definition nn_thunk_set_computed_int where
  "nn_thunk_set_computed_int v = memoize NN_VALUE_INT (Raw v)"

definition nn_thunk_set_computed_float where
  "nn_thunk_set_computed_float bits = memoize NN_VALUE_FLOAT (Raw bits)"

definition nn_thunk_set_computed_bool :: "u8 \<Rightarrow> thunk \<Rightarrow> bool \<times> thunk" where
  "nn_thunk_set_computed_bool v = memoize NN_VALUE_BOOL (Raw (ucast v))"

definition nn_thunk_set_computed_null where
  "nn_thunk_set_computed_null = memoize NN_VALUE_NULL NULL"

definition nn_thunk_set_computed_str :: "u32 \<Rightarrow> thunk \<Rightarrow> bool \<times> thunk" where
  "nn_thunk_set_computed_str symb = memoize NN_VALUE_STR (Raw (ucast symb))"

definition nn_thunk_set_computed_path :: "u32 \<Rightarrow> thunk \<Rightarrow> bool \<times> thunk" where
  "nn_thunk_set_computed_path symb = memoize NN_VALUE_PATH (Raw (ucast symb))"

definition nn_thunk_set_computed_list where
  "nn_thunk_set_computed_list p = memoize NN_VALUE_LIST p"

definition nn_thunk_set_computed_attrs where
  "nn_thunk_set_computed_attrs p = memoize NN_VALUE_ATTRS p"

definition nn_thunk_set_computed_ctxstr where
  "nn_thunk_set_computed_ctxstr p = memoize NN_VALUE_CTXSTR p"

definition nn_thunk_set_computed_lambda where
  "nn_thunk_set_computed_lambda p = memoize NN_VALUE_LAMBDA p"

subsection \<open>Walking the arena\<close>

definition nn_thunk_count :: "thunk_mod \<Rightarrow> u32" where
  "nn_thunk_count m = (case tm_arena m of None \<Rightarrow> 0 | Some a \<Rightarrow> ta_total a)"

fun get_walk :: "u32 \<Rightarrow> nat \<Rightarrow> thunk_block list \<Rightarrow> thunk_ref option" where
  "get_walk index i [] = None"
| "get_walk index i (blk # blks) =
     (if index < tb_count blk then Some (Slot i (unat index))
      else get_walk (index - tb_count blk) (i + 1) blks)"

definition nn_thunk_get :: "thunk_mod \<Rightarrow> u32 \<Rightarrow> thunk_ref option" where
  "nn_thunk_get m index = (case tm_arena m of
     None \<Rightarrow> None
   | Some a \<Rightarrow> if index \<ge> ta_total a then None else get_walk index 0 (ta_blocks a))"

text \<open>The test both StablePtr walks make.\<close>

definition stable_payload :: "thunk \<Rightarrow> bool" where
  "stable_payload t \<longleftrightarrow>
     (if th_state t = NN_THUNK_PENDING \<or> th_state t = NN_THUNK_BLACKHOLE then th_payload t \<noteq> NULL
      else th_state t = NN_THUNK_COMPUTED \<and> th_val_tag t = NN_VALUE_PTR \<and> th_payload t \<noteq> NULL)"

fun count_slots :: "thunk list \<Rightarrow> u32 \<Rightarrow> u32" where
  "count_slots [] n = n"
| "count_slots (t # ts) n = count_slots ts (if stable_payload t then n + 1 else n)"

fun count_blocks :: "thunk_block list \<Rightarrow> u32 \<Rightarrow> u32" where
  "count_blocks [] n = n"
| "count_blocks (blk # blks) n =
     count_blocks blks (count_slots (take (unat (tb_count blk)) (tb_slots blk)) n)"

definition nn_thunk_count_stableptrs :: "thunk_mod \<Rightarrow> u32" where
  "nn_thunk_count_stableptrs m = (case tm_arena m of None \<Rightarrow> 0 | Some a \<Rightarrow> count_blocks (ta_blocks a) 0)"

text \<open>The output buffer is the list written so far; \<open>written\<close> is its length.\<close>

fun collect_slots :: "u32 \<Rightarrow> thunk list \<Rightarrow> u32 \<times> val list \<Rightarrow> u32 \<times> val list" where
  "collect_slots max_count [] wo = wo"
| "collect_slots max_count (t # ts) wo =
     (if fst wo < max_count
      then collect_slots max_count ts
             (if stable_payload t then (fst wo + 1, snd wo @ [th_payload t]) else wo)
      else wo)"

fun collect_blocks :: "u32 \<Rightarrow> thunk_block list \<Rightarrow> u32 \<times> val list \<Rightarrow> u32 \<times> val list" where
  "collect_blocks max_count [] wo = wo"
| "collect_blocks max_count (blk # blks) wo =
     (if fst wo < max_count
      then collect_blocks max_count blks
             (collect_slots max_count (take (unat (tb_count blk)) (tb_slots blk)) wo)
      else wo)"

definition nn_thunk_collect_stableptrs :: "thunk_mod \<Rightarrow> u32 \<Rightarrow> u32 \<times> val list" where
  "nn_thunk_collect_stableptrs m max_count = (case tm_arena m of
     None \<Rightarrow> (0, [])
   | Some a \<Rightarrow> collect_blocks max_count (ta_blocks a) (0, []))"

end
