(* ===== verification/Nova_Thunk_Spec.thy ===== *)
theory Nova_Thunk_Spec
  imports Nova_Thunk
begin

section \<open>What thunks promise\<close>

text \<open>
  The arena is a list of cells that only grows; a cell keeps its reference; what a cell goes
  through is a small state machine in which the computed state is final. The two StablePtr walks
  are a filter over the list of cells.
\<close>

subsection \<open>The arena as a list of cells\<close>

definition block_cells :: "thunk_block \<Rightarrow> thunk list" where
  "block_cells blk = take (unat (tb_count blk)) (tb_slots blk)"

definition block_wf :: "thunk_block \<Rightarrow> bool" where
  "block_wf blk \<longleftrightarrow> tb_count blk \<le> tb_capacity blk \<and> length (tb_slots blk) = unat (tb_capacity blk)"

definition cells :: "thunk_mod \<Rightarrow> thunk list" where
  "cells m = (case tm_arena m of None \<Rightarrow> [] | Some a \<Rightarrow> concat (map block_cells (ta_blocks a)))"

definition arena_wf :: "thunk_arena \<Rightarrow> bool" where
  "arena_wf a \<longleftrightarrow> ta_blocks a \<noteq> [] \<and> 0 < ta_block_capacity a \<and> (\<forall>blk \<in> set (ta_blocks a). block_wf blk) \<and>
     ta_total a = of_nat (length (concat (map block_cells (ta_blocks a))))"

definition thunk_wf :: "thunk_mod \<Rightarrow> bool" where
  "thunk_wf m \<longleftrightarrow> (case tm_arena m of None \<Rightarrow> True | Some a \<Rightarrow> arena_wf a)"

lemma length_block_cells: "block_wf blk \<Longrightarrow> length (block_cells blk) = unat (tb_count blk)"
  by (simp add: block_wf_def block_cells_def word_le_nat_alt)

lemma length_fill_thunks [simp]: "length (fill_thunks al b n) = n"
  by (simp add: fill_thunks_def)

lemma fresh_block_wf: "alloc_block c al = (Some blk, al') \<Longrightarrow>
    block_wf blk \<and> tb_count blk = 0 \<and> tb_capacity blk = c"
  by (auto simp: alloc_block_def block_wf_def split: prod.splits option.splits)

lemma alloc_block_steps: "alloc_block c al = (b, al') \<Longrightarrow> al_steps al al'"
  using al_steps_malloc [of al "16 + ucast c * 16"]
  by (auto simp: alloc_block_def split: prod.splits option.splits)

lemma alloc_block_total: "al_ok al = (\<lambda>_ _. True) \<Longrightarrow> fst (alloc_block c al) \<noteq> None"
  by (simp add: alloc_block_def c_malloc_def)

text \<open>Opening a block changes no cell, and leaves room in the last block.\<close>

lemma open_block_result:
  assumes wf: "arena_wf a"
  obtains ok al' bs blk where "open_block al a = (ok, al', a\<lparr>ta_blocks := bs @ [blk]\<rparr>)"
    and "arena_wf (a\<lparr>ta_blocks := bs @ [blk]\<rparr>)"
    and "concat (map block_cells (bs @ [blk])) = concat (map block_cells (ta_blocks a))"
    and "\<forall>i j. slot_at (a\<lparr>ta_blocks := bs @ [blk]\<rparr>) i j = slot_at a i j"
    and "ok \<longrightarrow> tb_count blk < tb_capacity blk" and "al_steps al al'"
    and "al_ok al = (\<lambda>_ _. True) \<longrightarrow> ok"
proof -
  obtain bs last_blk where b: "ta_blocks a = bs @ [last_blk]"
    using wf by (metis append_butlast_last_id arena_wf_def)
  then have same: "a\<lparr>ta_blocks := bs @ [last_blk]\<rparr> = a" by simp
  show ?thesis
  proof (cases "tb_count last_blk \<ge> tb_capacity last_blk")
    case False
    then show ?thesis
      using that [of True al bs last_blk] wf b same False by (simp add: open_block_def not_le)
  next
    case True
    obtain ob al' where o: "alloc_block (ta_block_capacity a) al = (ob, al')"
      by (cases "alloc_block (ta_block_capacity a) al")
    then have st: "al_steps al al'" by (rule alloc_block_steps)
    show ?thesis
    proof (cases ob)
      case None
      then have "al_ok al \<noteq> (\<lambda>_ _. True)" using alloc_block_total [of al] o by (metis fst_conv)
      with None show ?thesis
        using that [of False al' bs last_blk] wf b same o True st by (simp add: open_block_def)
    next
      case (Some blk)
      then have n: "block_wf blk" "tb_count blk = 0" "tb_capacity blk = ta_block_capacity a"
        using fresh_block_wf o by blast+
      then have c: "block_cells blk = []" by (simp add: block_cells_def)
      have "slot_at (a\<lparr>ta_blocks := ta_blocks a @ [blk]\<rparr>) i j = slot_at a i j" for i j
        using n by (auto simp: slot_at_def nth_append less_Suc_eq)
      moreover have "arena_wf (a\<lparr>ta_blocks := ta_blocks a @ [blk]\<rparr>)"
        using wf n c by (simp add: arena_wf_def)
      moreover have "tb_count blk < tb_capacity blk" using wf n by (simp add: arena_wf_def)
      ultimately show ?thesis
        using that [of True al' "ta_blocks a" blk] Some o b True st c by (simp add: open_block_def)
    qed
  qed
qed

text \<open>Taking the next slot of the last block and writing it appends one cell.\<close>

lemma bump_put:
  fixes t :: thunk
  assumes wf: "arena_wf a" and b: "ta_blocks a = bs @ [blk]" and room: "tb_count blk < tb_capacity blk"
  defines "i \<equiv> length bs" and "j \<equiv> unat (tb_count blk)"
  defines "a' \<equiv> put_slot (bump a) i j t"
  shows "arena_wf a'" and "concat (map block_cells (ta_blocks a')) = concat (map block_cells (ta_blocks a)) @ [t]"
    and "slot_at a i j = None" and "slot_at a' i j = Some t"
    and "(i', j') \<noteq> (i, j) \<Longrightarrow> slot_at a' i' j' = slot_at a i' j'"
proof -
  define blk' where "blk' = blk\<lparr>tb_count := tb_count blk + 1, tb_slots := (tb_slots blk)[j := t]\<rparr>"
  have w: "block_wf blk" using wf b by (simp add: arena_wf_def)
  have lt: "j < unat (tb_capacity blk)" using room by (simp add: j_def word_less_nat_alt)
  then have c: "unat (tb_count blk + 1) = Suc j"
    using unat_u32_less [of "tb_capacity blk"] unfolding j_def by (intro unat_Suc_u32) simp
  have a': "a' = a\<lparr>ta_blocks := bs @ [blk'], ta_total := ta_total a + 1\<rparr>"
    by (simp add: a'_def put_slot_def bump_def Let_def b i_def blk'_def)
  have w': "block_wf blk'" using w lt c by (simp add: block_wf_def blk'_def word_le_nat_alt)
  have cells': "block_cells blk' = block_cells blk @ [t]"
    using w lt c by (simp add: block_cells_def blk'_def block_wf_def take_Suc_conv_app_nth j_def)
  show cc: "concat (map block_cells (ta_blocks a')) = concat (map block_cells (ta_blocks a)) @ [t]"
    by (simp add: a' b cells')
  have "ta_total a' = of_nat (length (concat (map block_cells (ta_blocks a'))))"
    unfolding cc using wf by (simp add: a' arena_wf_def)
  then show "arena_wf a'" using wf w' b by (simp add: arena_wf_def a')
  show "slot_at a i j = None" by (simp add: slot_at_def b i_def j_def)
  show "slot_at a' i j = Some t"
    using lt c w by (simp add: slot_at_def a' i_def blk'_def block_wf_def)
  show "slot_at a' i' j' = slot_at a i' j'" if "(i', j') \<noteq> (i, j)"
    using that c by (auto simp: slot_at_def a' b blk'_def i_def j_def nth_append less_Suc_eq)
qed

text \<open>What every constructor does.\<close>

definition cell_added :: "thunk_mod \<Rightarrow> thunk \<Rightarrow> thunk_ref option \<Rightarrow> thunk_mod \<Rightarrow> bool" where
  "cell_added m t res m' \<longleftrightarrow> thunk_wf m' \<and>
     (case res of
        None \<Rightarrow> cells m' = cells m \<and> thunk_at m' = thunk_at m
      | Some r \<Rightarrow> cells m' = cells m @ [t] \<and> thunk_at m r = None \<and> thunk_at m' r = Some t \<and>
          (\<forall>r'. r' \<noteq> r \<longrightarrow> thunk_at m' r' = thunk_at m r'))"

lemma new_cell_adds:
  assumes wf: "thunk_wf m"
  obtains res al' m' where "new_cell t al m = (res, al', m')" and "cell_added m t res m'"
    and "al_steps al al'"
    and "al_ok al = (\<lambda>_ _. True) \<and> nn_thunk_live m \<longrightarrow> res \<noteq> None"
    and "nn_thunk_live m' \<longleftrightarrow> nn_thunk_live m"
proof (cases "tm_arena m")
  case None
  with that [of None al m] wf show ?thesis
    by (simp add: new_cell_def arena_alloc_def cell_added_def nn_thunk_live_def)
next
  case (Some a)
  then have aw: "arena_wf a" using wf by (simp add: thunk_wf_def)
  obtain ok al' bs blk where o: "open_block al a = (ok, al', a\<lparr>ta_blocks := bs @ [blk]\<rparr>)"
    "arena_wf (a\<lparr>ta_blocks := bs @ [blk]\<rparr>)"
    "concat (map block_cells (bs @ [blk])) = concat (map block_cells (ta_blocks a))"
    "\<forall>i j. slot_at (a\<lparr>ta_blocks := bs @ [blk]\<rparr>) i j = slot_at a i j"
    "ok \<longrightarrow> tb_count blk < tb_capacity blk" "al_steps al al'"
    "al_ok al = (\<lambda>_ _. True) \<longrightarrow> ok"
    by (rule open_block_result [OF aw, of al])
  let ?a1 = "a\<lparr>ta_blocks := bs @ [blk]\<rparr>"
  show ?thesis
  proof (cases ok)
    case False
    let ?m' = "m\<lparr>tm_arena := Some ?a1\<rparr>"
    have "thunk_at ?m' r = thunk_at m r" for r using Some o(4) by (cases r) simp_all
    then have "cell_added m t None ?m'"
      using Some o(2,3) by (simp add: cell_added_def thunk_wf_def cells_def fun_eq_iff)
    with that [of None al' ?m'] False o(1,6,7) Some show ?thesis
      by (simp add: new_cell_def arena_alloc_def nn_thunk_live_def)
  next
    case True
    let ?i = "length bs" and ?j = "unat (tb_count blk)"
    let ?a' = "put_slot (bump ?a1) ?i ?j t"
    let ?m' = "m\<lparr>tm_arena := Some ?a'\<rparr>"
    have room: "tb_count blk < tb_capacity blk" using o(5) True by simp
    have b: "ta_blocks ?a1 = bs @ [blk]" by simp
    note p = bump_put(1,2) [OF o(2) b room, of t] bump_put(3) [OF o(2) b room]
      bump_put(4,5) [OF o(2) b room, where t = t]
    have "thunk_at ?m' r = thunk_at m r" if "r \<noteq> Slot ?i ?j" for r
      using that Some p(5) o(4) by (cases r) auto
    then have "cell_added m t (Some (Slot ?i ?j)) ?m'"
      using Some p(1-4) o(3,4) by (simp add: cell_added_def thunk_wf_def cells_def)
    with that [of "Some (Slot ?i ?j)" al' ?m'] True o(1,6) Some show ?thesis
      by (simp add: new_cell_def arena_alloc_def nn_thunk_live_def)
  qed
qed

subsection \<open>Walking\<close>

lemma get_walk_result:
  assumes "\<forall>blk \<in> set bs. block_wf blk"
  shows "case get_walk idx i bs of
      None \<Rightarrow> length (concat (map block_cells bs)) \<le> unat idx
    | Some r \<Rightarrow> unat idx < length (concat (map block_cells bs)) \<and>
        (\<exists>k j. r = Slot (i + k) j \<and> k < length bs \<and> j < unat (tb_count (bs ! k)) \<and>
           tb_slots (bs ! k) ! j = concat (map block_cells bs) ! unat idx)"
  using assms
proof (induction idx i bs rule: get_walk.induct)
  case (1 idx i)
  then show ?case by simp
next
  case (2 idx i blk bs)
  have len: "length (block_cells blk) = unat (tb_count blk)" using 2(2) by (intro length_block_cells) simp
  show ?case
  proof (cases "idx < tb_count blk")
    case True
    then have lt: "unat idx < unat (tb_count blk)" by (simp add: word_less_nat_alt)
    then have "block_cells blk ! unat idx = tb_slots blk ! unat idx" by (simp add: block_cells_def)
    with True lt len show ?thesis
      by (auto simp: nth_append intro!: exI [of _ 0])
  next
    case False
    then have le: "unat (tb_count blk) \<le> unat idx" by (simp add: word_less_nat_alt)
    then have u: "unat (idx - tb_count blk) = unat idx - unat (tb_count blk)"
      by (simp add: unat_sub word_le_nat_alt)
    have IH: "case get_walk (idx - tb_count blk) (i + 1) bs of
        None \<Rightarrow> length (concat (map block_cells bs)) \<le> unat idx - unat (tb_count blk)
      | Some r \<Rightarrow> unat idx - unat (tb_count blk) < length (concat (map block_cells bs)) \<and>
          (\<exists>k j. r = Slot (i + 1 + k) j \<and> k < length bs \<and> j < unat (tb_count (bs ! k)) \<and>
             tb_slots (bs ! k) ! j = concat (map block_cells bs) ! (unat idx - unat (tb_count blk)))"
      using 2(1) [OF False] 2(2) unfolding u by simp
    show ?thesis
    proof (cases "get_walk (idx - tb_count blk) (i + 1) bs")
      case None
      with IH le len False show ?thesis by simp
    next
      case (Some r)
      with IH obtain k j where k: "r = Slot (i + 1 + k) j" "k < length bs" "j < unat (tb_count (bs ! k))"
        "tb_slots (bs ! k) ! j = concat (map block_cells bs) ! (unat idx - unat (tb_count blk))"
        "unat idx - unat (tb_count blk) < length (concat (map block_cells bs))" by auto
      then have "r = Slot (i + Suc k) j \<and> Suc k < length (blk # bs) \<and>
          j < unat (tb_count ((blk # bs) ! Suc k)) \<and>
          tb_slots ((blk # bs) ! Suc k) ! j = concat (map block_cells (blk # bs)) ! unat idx"
        using le len by (simp add: nth_append)
      moreover have "unat idx < length (concat (map block_cells (blk # bs)))"
        using k(5) le len by simp
      ultimately show ?thesis using Some False by (auto simp del: concat.simps list.map)
    qed
  qed
qed

lemma get_result:
  assumes "thunk_wf m" and "idx < nn_thunk_count m"
  shows "\<exists>r. nn_thunk_get m idx = Some r \<and> unat idx < length (cells m) \<and>
    thunk_at m r = Some (cells m ! unat idx)"
proof -
  obtain a where a: "tm_arena m = Some a" using assms(2) by (cases "tm_arena m") (auto simp: nn_thunk_count_def)
  let ?cs = "concat (map block_cells (ta_blocks a))"
  have w: "arena_wf a" using assms(1) a by (simp add: thunk_wf_def)
  have lt: "idx < ta_total a" using assms(2) a by (simp add: nn_thunk_count_def)
  then have "unat idx < unat (of_nat (length ?cs) :: u32)" using w by (simp add: arena_wf_def word_less_nat_alt)
  also have "\<dots> \<le> length ?cs" by (simp add: unsigned_of_nat take_bit_nat_eq_self_iff take_bit_eq_mod)
  finally have i: "unat idx < length ?cs" .
  have "\<forall>blk \<in> set (ta_blocks a). block_wf blk" using w by (simp add: arena_wf_def)
  from get_walk_result [OF this, of idx 0] i
  obtain r where "get_walk idx 0 (ta_blocks a) = Some r" "slot_at a (case r of Slot i j \<Rightarrow> i) (case r of Slot i j \<Rightarrow> j) = Some (?cs ! unat idx)"
    "\<exists>i j. r = Slot i j"
    by (auto split: option.splits simp: slot_at_def)
  then show ?thesis using a lt i by (auto simp: nn_thunk_get_def cells_def)
qed

lemma count_result: "thunk_wf m \<Longrightarrow> nn_thunk_count m = of_nat (length (cells m))"
  by (auto simp: nn_thunk_count_def cells_def thunk_wf_def arena_wf_def split: option.splits)

text \<open>The StablePtrs the arena holds, in the order of allocation.\<close>

definition stables :: "thunk list \<Rightarrow> val list" where
  "stables ts = map th_payload (filter stable_payload ts)"

lemma stables_append: "stables (xs @ ys) = stables xs @ stables ys"
  by (simp add: stables_def)

lemma count_slots_result: "count_slots ts n = n + of_nat (length (stables ts))"
  by (induction ts n rule: count_slots.induct) (simp_all add: stables_def)

lemma count_blocks_result:
  "count_blocks bs n = n + of_nat (length (stables (concat (map block_cells bs))))"
proof (induction bs n rule: count_blocks.induct)
  case (1 n)
  then show ?case by (simp add: stables_def)
next
  case (2 blk bs n)
  then show ?case by (simp add: stables_append count_slots_result block_cells_def)
qed

text \<open>The output so far is cut at the limit, and the counter is its length.\<close>

definition collected :: "u32 \<Rightarrow> val list \<Rightarrow> u32 \<times> val list \<Rightarrow> bool" where
  "collected mx vs wo \<longleftrightarrow> snd wo = take (unat mx) vs \<and> unat (fst wo) = length (snd wo)"

lemma collect_slots_result:
  "collected mx vs wo \<Longrightarrow> collected mx (vs @ stables ts) (collect_slots mx ts wo)"
proof (induction mx ts wo arbitrary: vs rule: collect_slots.induct)
  case (1 mx wo)
  then show ?case by (simp add: stables_def)
next
  case (2 mx t ts wo)
  have s: "stables (t # ts) = (if stable_payload t then [th_payload t] else []) @ stables ts"
    by (simp add: stables_def)
  show ?case
  proof (cases "fst wo < mx")
    case False
    with 2(2) have "unat mx \<le> length vs" by (simp add: collected_def word_less_nat_alt)
    with 2(2) False show ?thesis by (simp add: collected_def)
  next
    case True
    then have lt: "unat (fst wo) < unat mx" by (simp add: word_less_nat_alt)
    have "unat (fst wo + 1) = Suc (unat (fst wo))"
      using lt unat_u32_less [of mx] by (intro unat_Suc_u32) simp
    moreover have "length vs < unat mx" using 2(2) lt by (simp add: collected_def)
    ultimately have "collected mx (vs @ (if stable_payload t then [th_payload t] else []))
        (if stable_payload t then (fst wo + 1, snd wo @ [th_payload t]) else wo)"
      using 2(2) by (simp add: collected_def)
    from 2(1) [OF True this] True s show ?thesis by simp
  qed
qed

lemma collect_blocks_result:
  "collected mx vs wo \<Longrightarrow>
    collected mx (vs @ stables (concat (map block_cells bs))) (collect_blocks mx bs wo)"
proof (induction mx bs wo arbitrary: vs rule: collect_blocks.induct)
  case (1 mx wo)
  then show ?case by (simp add: stables_def)
next
  case (2 mx blk bs wo)
  show ?case
  proof (cases "fst wo < mx")
    case False
    with 2(2) have "unat mx \<le> length vs" by (simp add: collected_def word_less_nat_alt)
    with 2(2) False show ?thesis by (simp add: collected_def)
  next
    case True
    have "collected mx (vs @ stables (block_cells blk)) (collect_slots mx (block_cells blk) wo)"
      using 2(2) by (rule collect_slots_result)
    from 2(1) [OF True this [unfolded block_cells_def]] True show ?thesis
      by (simp add: stables_append block_cells_def)
  qed
qed

lemma collect_result:
  "nn_thunk_collect_stableptrs m mx = (w, out) \<Longrightarrow>
    out = take (unat mx) (stables (cells m)) \<and> unat w = length out"
proof (cases "tm_arena m")
  case None
  then show "nn_thunk_collect_stableptrs m mx = (w, out) \<Longrightarrow> ?thesis"
    by (simp add: nn_thunk_collect_stableptrs_def cells_def stables_def)
next
  case (Some a)
  have "collected mx [] (0, [])" by (simp add: collected_def)
  from collect_blocks_result [OF this, of "ta_blocks a"] Some
  show "nn_thunk_collect_stableptrs m mx = (w, out) \<Longrightarrow> ?thesis"
    by (simp add: nn_thunk_collect_stableptrs_def cells_def collected_def)
qed

subsection \<open>The state machine of a cell\<close>

text \<open>One call on a cell; the eleven setters are all \<open>memoize\<close>.\<close>

inductive transition :: "thunk \<Rightarrow> thunk \<Rightarrow> bool" where
  payload: "nn_thunk_set_payload p t = (ok, t') \<Longrightarrow> transition t t'"
| blackhole: "nn_thunk_mark_blackhole t = (ok, t') \<Longrightarrow> transition t t'"
| pending: "nn_thunk_mark_pending t = (ok, t') \<Longrightarrow> transition t t'"
| computed: "memoize tag p t = (ok, t') \<Longrightarrow> transition t t'"

inductive_cases transitionE: "transition t t'"

lemmas transition_defs = nn_thunk_set_payload_def nn_thunk_mark_blackhole_def
  nn_thunk_mark_pending_def memoize_def

lemma transition_bc_idx: "transition t t' \<Longrightarrow> th_bc_idx t' = th_bc_idx t"
  by (erule transitionE) (auto simp: transition_defs split: if_splits)

lemma transition_computed: "transition t t' \<Longrightarrow> th_state t = NN_THUNK_COMPUTED \<Longrightarrow> t' = t"
  by (erule transitionE) (auto simp: transition_defs split: if_splits)

text \<open>The states a cell goes through.\<close>

definition known_state :: "thunk \<Rightarrow> bool" where
  "known_state t \<longleftrightarrow> th_state t = NN_THUNK_PENDING \<or> th_state t = NN_THUNK_COMPUTED \<or>
     th_state t = NN_THUNK_BLACKHOLE"

lemma transition_known: "transition t t' \<Longrightarrow> known_state t \<Longrightarrow> known_state t'"
  by (erule transitionE) (auto simp: transition_defs known_state_def split: if_splits)

lemma transitions_computed:
  "transition\<^sup>*\<^sup>* t t' \<Longrightarrow> th_state t = NN_THUNK_COMPUTED \<Longrightarrow> t' = t"
  by (induction rule: rtranclp_induct) (auto dest: transition_computed)

lemma transitions_bc_idx: "transition\<^sup>*\<^sup>* t t' \<Longrightarrow> th_bc_idx t' = th_bc_idx t"
  by (induction rule: rtranclp_induct) (auto dest: transition_bc_idx)

lemma transitions_known: "transition\<^sup>*\<^sup>* t t' \<Longrightarrow> known_state t \<Longrightarrow> known_state t'"
  by (induction rule: rtranclp_induct) (auto dest: transition_known)

subsection \<open>Runs\<close>

text \<open>One call of the module inside an init .. destroy window: a constructor, or a call on a cell
  that exists.\<close>

inductive thunk_step :: "thunk_mod \<Rightarrow> thunk_mod \<Rightarrow> bool" where
  new_pending: "nn_thunk_new_bc bc_idx env al m = (r, al', m') \<Longrightarrow> thunk_step m m'"
| new_computed: "new_cell (computed_cell tag p) al m = (r, al', m') \<Longrightarrow> thunk_step m m'"
| on_cell: "thunk_at m r = Some t \<Longrightarrow> transition t t' \<Longrightarrow> thunk_step m (put_thunk m r t')"

inductive_cases thunk_stepE: "thunk_step m m'"

lemma slot_put_slot:
  assumes "slot_at a i j = Some t" and "arena_wf a"
  shows "slot_at (put_slot a i j t') i' j' = (if i' = i \<and> j' = j then Some t' else slot_at a i' j')"
    and "arena_wf (put_slot a i j t')"
proof -
  have b: "i < length (ta_blocks a)" "j < unat (tb_count (ta_blocks a ! i))" "block_wf (ta_blocks a ! i)"
    using assms by (auto simp: slot_at_def arena_wf_def split: if_splits)
  then have "j < length (tb_slots (ta_blocks a ! i))" by (simp add: block_wf_def word_le_nat_alt)
  with b show "slot_at (put_slot a i j t') i' j' = (if i' = i \<and> j' = j then Some t' else slot_at a i' j')"
    by (auto simp: slot_at_def put_slot_def nth_list_update)
  let ?blk = "(ta_blocks a ! i)\<lparr>tb_slots := (tb_slots (ta_blocks a ! i))[j := t']\<rparr>"
  have w: "block_wf ?blk" using b(3) by (simp add: block_wf_def)
  have len: "length (concat (map block_cells ((ta_blocks a)[i := ?blk]))) =
      length (concat (map block_cells (ta_blocks a)))"
  proof -
    have "map (length \<circ> block_cells) ((ta_blocks a)[i := ?blk]) = map (length \<circ> block_cells) (ta_blocks a)"
      using b(1) by (intro nth_equalityI) (auto simp: nth_list_update block_cells_def)
    then show ?thesis by (simp add: length_concat comp_def)
  qed
  show "arena_wf (put_slot a i j t')"
    using assms(2) w len by (auto simp: arena_wf_def put_slot_def dest: set_update_subset_insert [THEN subsetD])
qed

lemma put_thunk_result:
  assumes "thunk_wf m" and "thunk_at m r = Some t"
  shows "thunk_wf (put_thunk m r t')" and "thunk_at (put_thunk m r t') r' = (if r' = r then Some t' else thunk_at m r')"
proof -
  show "thunk_wf (put_thunk m r t')"
    using assms slot_put_slot(2) by (cases r) (auto simp: thunk_wf_def split: option.splits)
  show "thunk_at (put_thunk m r t') r' = (if r' = r then Some t' else thunk_at m r')"
    using assms slot_put_slot(1) by (cases r; cases r') (auto simp: thunk_wf_def split: option.splits)
qed

text \<open>A step keeps every cell, or takes one cell through a transition.\<close>

definition cells_evolve :: "thunk_mod \<Rightarrow> thunk_mod \<Rightarrow> bool" where
  "cells_evolve m m' \<longleftrightarrow> thunk_wf m' \<and>
     (\<forall>r t. thunk_at m r = Some t \<longrightarrow> (\<exists>t'. thunk_at m' r = Some t' \<and> transition\<^sup>*\<^sup>* t t'))"

lemma step_evolves:
  assumes wf: "thunk_wf m" and st: "thunk_step m m'"
  shows "cells_evolve m m'"
proof -
  have added: "cells_evolve m m2" if "new_cell t al m = (r, al', m2)" for t al r al' m2
  proof -
    have "cell_added m t r m2" using new_cell_adds [OF wf, of t al] that by auto
    then show ?thesis by (auto simp: cells_evolve_def cell_added_def split: option.splits) (metis option.distinct(1) option.inject rtranclp.rtrancl_refl)+
  qed
  from st show ?thesis
  proof (rule thunk_stepE)
    fix bc_idx env al r al'
    assume "nn_thunk_new_bc bc_idx env al m = (r, al', m')"
    then show ?thesis unfolding nn_thunk_new_bc_def by (rule added)
  next
    fix r t t'
    assume "m' = put_thunk m r t'" "thunk_at m r = Some t" "transition t t'"
    then show ?thesis using put_thunk_result [OF wf] by (auto simp: cells_evolve_def)
  qed (rule added)
qed

lemma run_evolves:
  assumes "thunk_step\<^sup>*\<^sup>* m m'" and "thunk_wf m"
  shows "cells_evolve m m'"
  using assms
proof (induction rule: rtranclp_induct)
  case base
  then show ?case by (auto simp: cells_evolve_def)
next
  case (step m1 m2)
  then have "thunk_wf m1" by (simp add: cells_evolve_def)
  then have "cells_evolve m1 m2" using step(2) by (rule step_evolves)
  with step show ?case by (auto simp: cells_evolve_def) (meson rtranclp_trans)
qed

subsection \<open>A small arena\<close>

text \<open>Two blocks of two slots: a memoized integer, a pending cell and a black hole.\<close>

definition small_mod :: thunk_mod where
  "small_mod = thunk_mod_init\<lparr>tm_arena := Some \<lparr>
     ta_blocks = [
       \<lparr>tb_count = 2, tb_capacity = 2,
        tb_slots = [computed_cell NN_VALUE_INT (Raw 42), pending_cell 7 (Raw 4096)]\<rparr>,
       \<lparr>tb_count = 1, tb_capacity = 2,
        tb_slots = [(pending_cell 8 (Raw 8192))\<lparr>th_state := NN_THUNK_BLACKHOLE\<rparr>, pending_cell 0 NULL]\<rparr>],
     ta_total = 3, ta_block_capacity = 2\<rparr>\<rparr>"

lemma small_mod_wf: "thunk_wf small_mod"
  by (simp add: thunk_wf_def small_mod_def arena_wf_def block_wf_def block_cells_def)

lemma small_mod_cells: "cells small_mod =
    [computed_cell NN_VALUE_INT (Raw 42), pending_cell 7 (Raw 4096),
     (pending_cell 8 (Raw 8192))\<lparr>th_state := NN_THUNK_BLACKHOLE\<rparr>]"
  by (simp add: cells_def small_mod_def block_cells_def)

lemma small_mod_at:
  "thunk_at small_mod (Slot 0 0) = Some (computed_cell NN_VALUE_INT (Raw 42))"
  "thunk_at small_mod (Slot 0 1) = Some (pending_cell 7 (Raw 4096))"
  by (simp_all add: small_mod_def slot_at_def)

lemma init_thunks_result:
  "case nn_thunk_init al m n of
     Inl e \<Rightarrow> e = Abort \<and> al_ok al \<noteq> (\<lambda>_ _. True)
   | Inr (al', m') \<Rightarrow> thunk_wf m' \<and> nn_thunk_live m' \<and> cells m' = [] \<and> al_steps al al' \<and>
       tm_null m' = tm_null m \<and> tm_true m' = tm_true m \<and> tm_false m' = tm_false m"
proof (cases "nn_thunk_init al m n")
  case (Inl e)
  then show ?thesis
    by (auto simp: nn_thunk_init_def Let_def c_malloc_def alloc_block_def split: if_splits)
next
  case (Inr p)
  obtain al' m' where p: "p = (al', m')" by (cases p)
  define cap where "cap = (if n > 0 then n else NN_THUNK_DEFAULT_BLOCK_CAPACITY)"
  have cap: "0 < cap" by (auto simp: cap_def word_gt_0)
  obtain blk al1 where b: "alloc_block cap al1 = (Some blk, al')" "al_steps al al1"
    "tm_arena m' = Some \<lparr>ta_blocks = [blk], ta_total = 0, ta_block_capacity = cap\<rparr>"
    "tm_null m' = tm_null m" "tm_true m' = tm_true m" "tm_false m' = tm_false m"
    using Inr p unfolding nn_thunk_init_def Let_def cap_def [symmetric]
    by (auto simp: c_malloc_def nn_thunk_destroy_def al_steps_def
        split: if_splits option.splits prod.splits)
  have w: "block_wf blk" "block_cells blk = []"
    using fresh_block_wf [OF b(1)] by (simp_all add: block_cells_def)
  with b cap show ?thesis using al_steps_trans [OF b(2) alloc_block_steps [OF b(1)]]
    by (simp add: Inr p thunk_wf_def arena_wf_def nn_thunk_live_def cells_def)
qed

subsection \<open>The properties\<close>

text \<open>C28: Memoization is write-once. Over any run of constructors, setters and state changes every
  cell stays where it is; a computed cell is never written again, a cell's bytecode index never
  changes, and a cell never leaves the three known states.\<close>

theorem thunk_write_once:
  assumes "thunk_wf m" and "thunk_step\<^sup>*\<^sup>* m m'" and "thunk_at m r = Some t"
  shows "thunk_wf m' \<and> (\<exists>t'. thunk_at m' r = Some t' \<and>
    nn_thunk_get_bc_idx t' = nn_thunk_get_bc_idx t \<and>
    (nn_thunk_state t = NN_THUNK_COMPUTED \<longrightarrow> t' = t) \<and> (known_state t \<longrightarrow> known_state t'))"
  using run_evolves [OF assms(2,1)] assms(3) transitions_computed transitions_bc_idx transitions_known
  unfolding cells_evolve_def nn_thunk_state_def nn_thunk_get_bc_idx_def by meson

lemma thunk_write_once_witness:
  "\<exists>m'. thunk_step\<^sup>*\<^sup>* small_mod m' \<and> m' \<noteq> small_mod \<and>
     thunk_at m' (Slot 0 0) = Some (computed_cell NN_VALUE_INT (Raw 42))"
proof -
  let ?t' = "(pending_cell 7 (Raw 4096))\<lparr>th_state := NN_THUNK_BLACKHOLE\<rparr>"
  let ?m' = "put_thunk small_mod (Slot 0 1) ?t'"
  have "transition (pending_cell 7 (Raw 4096)) ?t'"
    by (rule transition.blackhole [of _ True]) (simp add: nn_thunk_mark_blackhole_def pending_cell_def)
  then have st: "thunk_step small_mod ?m'" by (rule thunk_step.on_cell [OF small_mod_at(2)])
  have ne: "?m' \<noteq> small_mod"
  proof
    assume "?m' = small_mod"
    then have "thunk_at ?m' (Slot 0 1) = Some (pending_cell 7 (Raw 4096))" by (simp only: small_mod_at)
    then show False using put_thunk_result(2) [OF small_mod_wf small_mod_at(2), of ?t' "Slot 0 1"]
      by (simp add: pending_cell_def)
  qed
  have run: "thunk_step\<^sup>*\<^sup>* small_mod ?m'" using st by blast
  from thunk_write_once [OF small_mod_wf run small_mod_at(1)] run ne show ?thesis
    by (intro exI [of _ ?m']) (simp add: nn_thunk_state_def computed_cell_def)
qed

text \<open>The shared null, true and false cells read the same after initialisation and after any
  run: no call writes them.\<close>

theorem thunk_constants:
  assumes "nn_thunk_init al thunk_mod_init n = Inr (al', m)" and "thunk_step\<^sup>*\<^sup>* m m'"
  shows "thunk_at m' nn_thunk_null = Some (computed_cell NN_VALUE_NULL NULL) \<and>
    thunk_at m' (nn_thunk_bool v) = Some (computed_cell NN_VALUE_BOOL (Raw (if v = 0 then 0 else 1)))"
proof -
  have m: "thunk_wf m" "tm_null m = computed_cell NN_VALUE_NULL NULL"
    "tm_true m = computed_cell NN_VALUE_BOOL (Raw 1)" "tm_false m = computed_cell NN_VALUE_BOOL NULL"
    using init_thunks_result [of al thunk_mod_init n] assms(1) by (simp_all add: thunk_mod_init_def)
  have kept: "thunk_at m' r = Some t" if "thunk_at m r = Some t" "th_state t = NN_THUNK_COMPUTED" for r t
    using run_evolves [OF assms(2) m(1)] that transitions_computed unfolding cells_evolve_def by blast
  show ?thesis
    using kept [of Null_cell] kept [of True_cell] kept [of False_cell] m(2-4)
    by (simp add: nn_thunk_null_def nn_thunk_bool_def computed_cell_def)
qed

lemma thunk_constants_witness:
  "\<exists>al m r al' m'. nn_thunk_init al_all thunk_mod_init 0 = Inr (al, m) \<and>
     nn_thunk_new_computed_int 5 al m = (r, al', m') \<and>
     thunk_at m' (nn_thunk_bool 3) = Some (computed_cell NN_VALUE_BOOL (Raw 1))"
proof -
  obtain al m where i: "nn_thunk_init al_all thunk_mod_init 0 = Inr (al, m)"
    using init_thunks_result [of al_all thunk_mod_init 0]
    by (auto simp: al_all_def split: sum.splits)
  obtain r al' m' where n: "nn_thunk_new_computed_int 5 al m = (r, al', m')" by (metis prod_cases3)
  then have "thunk_step m m'" unfolding nn_thunk_new_computed_int_def by (rule thunk_step.new_computed)
  then have "thunk_step\<^sup>*\<^sup>* m m'" by blast
  from thunk_constants [OF i this, of 3] i n show ?thesis by auto
qed

text \<open>A constructor answers a new reference to a cell that holds exactly what it was given, or
  NULL with no cell changed; every other cell keeps its reference and content, also when a new
  block is opened. It answers NULL outside the init .. destroy window, and inside it only when the
  allocator refuses a block.\<close>

theorem thunk_constructor_adds:
  assumes "thunk_wf m"
  shows "case new_cell t al m of (res, al', m') \<Rightarrow> thunk_wf m' \<and>
    (case res of
       None \<Rightarrow> cells m' = cells m \<and> thunk_at m' = thunk_at m
     | Some r \<Rightarrow> cells m' = cells m @ [t] \<and> thunk_at m r = None \<and> thunk_at m' r = Some t \<and>
         (\<forall>r'. r' \<noteq> r \<longrightarrow> thunk_at m' r' = thunk_at m r')) \<and>
    (\<not> nn_thunk_live m \<longrightarrow> res = None) \<and>
    (al_ok al = (\<lambda>_ _. True) \<and> nn_thunk_live m \<longrightarrow> res \<noteq> None)"
proof -
  obtain res al' m' where n: "new_cell t al m = (res, al', m')" "cell_added m t res m'"
    "al_ok al = (\<lambda>_ _. True) \<and> nn_thunk_live m \<longrightarrow> res \<noteq> None"
    by (rule new_cell_adds [OF assms, of t al])
  moreover have "res = None" if "\<not> nn_thunk_live m"
    using that n(1) by (simp add: new_cell_def arena_alloc_def nn_thunk_live_def)
  ultimately show ?thesis by (simp add: cell_added_def)
qed

lemma thunk_constructor_adds_witness:
  "case nn_thunk_new_bc 9 (Raw 1) al_all small_mod of (res, al', m') \<Rightarrow>
     res \<noteq> None \<and> length (cells m') = 4 \<and> thunk_at m' (Slot 0 1) = Some (pending_cell 7 (Raw 4096))"
proof -
  have live: "nn_thunk_live small_mod" by (simp add: nn_thunk_live_def small_mod_def)
  obtain res al' m' where n: "new_cell (pending_cell 9 (Raw 1)) al_all small_mod = (res, al', m')"
    by (metis prod_cases3)
  with thunk_constructor_adds [OF small_mod_wf, of "pending_cell 9 (Raw 1)" al_all] live
  have "res \<noteq> None" by (simp add: al_all_def)
  then obtain r where r: "res = Some r" by blast
  with thunk_constructor_adds [OF small_mod_wf, of "pending_cell 9 (Raw 1)" al_all] n
  have c: "cells m' = cells small_mod @ [pending_cell 9 (Raw 1)]" "thunk_at small_mod r = None"
    "\<forall>r'. r' \<noteq> r \<longrightarrow> thunk_at m' r' = thunk_at small_mod r'" by auto
  then have "r \<noteq> Slot 0 1" using small_mod_at(2) by auto
  then have "thunk_at m' (Slot 0 1) = Some (pending_cell 7 (Raw 4096))" using c(3) small_mod_at(2) by metis
  with n r c(1) show ?thesis by (simp add: nn_thunk_new_bc_def small_mod_cells)
qed

text \<open>\<open>nn_thunk_count\<close> is the number of cells modulo 2^32, and \<open>nn_thunk_get\<close> enumerates the
  cells in the order they were allocated: below the count it always finds a cell, the one of that
  index, across however many blocks there are.\<close>

theorem thunk_enumeration:
  assumes "thunk_wf m"
  shows "nn_thunk_count m = of_nat (length (cells m)) \<and>
    (if idx < nn_thunk_count m
     then \<exists>r. nn_thunk_get m idx = Some r \<and> thunk_at m r = Some (cells m ! unat idx)
     else nn_thunk_get m idx = None)"
proof (cases "idx < nn_thunk_count m")
  case True
  with get_result [OF assms True] count_result [OF assms] show ?thesis by auto
next
  case False
  then have "nn_thunk_get m idx = None"
    by (auto simp: nn_thunk_get_def nn_thunk_count_def split: option.splits)
  with False count_result [OF assms] show ?thesis by auto
qed

lemma thunk_enumeration_witness:
  "\<exists>r. nn_thunk_get small_mod 2 = Some r \<and>
     thunk_at small_mod r = Some ((pending_cell 8 (Raw 8192))\<lparr>th_state := NN_THUNK_BLACKHOLE\<rparr>)"
proof -
  have "nn_thunk_count small_mod = 3" by (simp add: count_result [OF small_mod_wf] small_mod_cells)
  with thunk_enumeration [OF small_mod_wf, of 2] show ?thesis by (simp add: small_mod_cells)
qed

lemma stables_counted: "nn_thunk_count_stableptrs m = of_nat (length (stables (cells m)))"
  by (auto simp: nn_thunk_count_stableptrs_def cells_def count_blocks_result stables_def split: option.splits)

text \<open>The teardown walk collects exactly the StablePtrs: the non-NULL payloads of pending and
  black-holed cells and of computed cells tagged as StablePtr, each once, in allocation order, at
  most \<open>max_count\<close> of them; the counting walk gives their number modulo 2^32.\<close>

theorem thunk_stableptrs_collected:
  "nn_thunk_count_stableptrs m = of_nat (length (stables (cells m))) \<and>
   (case nn_thunk_collect_stableptrs m max_count of (written, output) \<Rightarrow>
      output = take (unat max_count) (stables (cells m)) \<and> unat written = length output)"
proof -
  obtain w out where "nn_thunk_collect_stableptrs m max_count = (w, out)"
    by (cases "nn_thunk_collect_stableptrs m max_count")
  then show ?thesis using collect_result [of m max_count] stables_counted [of m] by simp
qed

text \<open>What a setter stores a getter reads: on any cell that is not computed each scalar setter
  succeeds and the getter of its kind answers the value, whatever the bits; on a computed cell it
  reports failure and changes nothing.\<close>

theorem thunk_scalar_roundtrip:
  "(case nn_thunk_set_computed_int i t of (ok, t') \<Rightarrow>
      if ok then nn_thunk_get_int base t' = i \<and> nn_thunk_value_tag t' = NN_VALUE_INT
      else t' = t \<and> nn_thunk_state t = NN_THUNK_COMPUTED) \<and>
   (case nn_thunk_set_computed_float f t of (ok, t') \<Rightarrow>
      if ok then nn_thunk_get_float base t' = f \<and> nn_thunk_value_tag t' = NN_VALUE_FLOAT
      else t' = t \<and> nn_thunk_state t = NN_THUNK_COMPUTED) \<and>
   (case nn_thunk_set_computed_bool b t of (ok, t') \<Rightarrow>
      if ok then nn_thunk_get_bool base t' = b \<and> nn_thunk_value_tag t' = NN_VALUE_BOOL
      else t' = t \<and> nn_thunk_state t = NN_THUNK_COMPUTED) \<and>
   (case nn_thunk_set_computed_str s t of (ok, t') \<Rightarrow>
      if ok then nn_thunk_get_str base t' = s \<and> nn_thunk_value_tag t' = NN_VALUE_STR
      else t' = t \<and> nn_thunk_state t = NN_THUNK_COMPUTED) \<and>
   (case nn_thunk_set_computed_path s t of (ok, t') \<Rightarrow>
      if ok then nn_thunk_get_path base t' = s \<and> nn_thunk_value_tag t' = NN_VALUE_PATH
      else t' = t \<and> nn_thunk_state t = NN_THUNK_COMPUTED)"
  by (simp add: memoize_def nn_thunk_set_computed_int_def nn_thunk_set_computed_float_def
      nn_thunk_set_computed_bool_def nn_thunk_set_computed_str_def nn_thunk_set_computed_path_def
      nn_thunk_get_int_def nn_thunk_get_float_def nn_thunk_get_bool_def nn_thunk_get_str_def
      nn_thunk_get_path_def nn_thunk_value_tag_def nn_thunk_state_def)

text \<open>C36: A force that failed can be retried: a pending cell marked as a black hole and then as
  pending again is the very cell it was, payload and bytecode index included. The black hole's
  payload is therefore live, and the teardown walk collects it, although nn_thunk.h calls it
  stale.\<close>

theorem thunk_reforce:
  assumes "nn_thunk_state t = NN_THUNK_PENDING"
  shows "\<exists>hole. nn_thunk_mark_blackhole t = (True, hole) \<and>
    nn_thunk_state hole = NN_THUNK_BLACKHOLE \<and> nn_thunk_mark_blackhole hole = (False, hole) \<and>
    nn_thunk_mark_pending hole = (True, t) \<and> stable_payload hole = stable_payload t \<and>
    nn_thunk_payload hole = nn_thunk_payload t"
  using assms
  by (simp add: nn_thunk_state_def nn_thunk_mark_blackhole_def nn_thunk_mark_pending_def
      nn_thunk_payload_def stable_payload_def)

lemma thunk_reforce_witness:
  "\<exists>hole. nn_thunk_mark_blackhole (pending_cell 7 (Raw 4096)) = (True, hole) \<and>
     nn_thunk_mark_pending hole = (True, pending_cell 7 (Raw 4096)) \<and> stable_payload hole"
  using thunk_reforce [of "pending_cell 7 (Raw 4096)"]
  by (auto simp: nn_thunk_state_def pending_cell_def stable_payload_def)

text \<open>Initialisation, in any state, aborts only when the allocator refuses, and otherwise gives
  an empty live arena; it leaves the shared cells alone.\<close>

theorem thunk_init_result:
  "case nn_thunk_init al m n of
     Inl e \<Rightarrow> e = Abort \<and> (\<exists>k b. \<not> al_ok al k b)
   | Inr (al', m') \<Rightarrow> thunk_wf m' \<and> nn_thunk_live m' \<and> cells m' = [] \<and> nn_thunk_count m' = 0 \<and>
       tm_null m' = tm_null m \<and> tm_true m' = tm_true m \<and> tm_false m' = tm_false m"
  using init_thunks_result [of al m n] count_result
  by (auto simp: fun_eq_iff split: sum.splits)


text \<open>Two full blocks of 2^31 slots.\<close>

definition full_mod :: thunk_mod where
  "full_mod = thunk_mod_init\<lparr>tm_arena := Some \<lparr>
     ta_blocks = [
       \<lparr>tb_count = 2147483648, tb_capacity = 2147483648,
        tb_slots = replicate (2 ^ 31) (pending_cell 0 NULL)\<rparr>,
       \<lparr>tb_count = 2147483648, tb_capacity = 2147483648,
        tb_slots = replicate (2 ^ 31) (pending_cell 0 NULL)\<rparr>],
     ta_total = 0, ta_block_capacity = 2147483648\<rparr>\<rparr>"


end
