(* ===== verification/Nova_Env.thy ===== *)
theory Nova_Env
  imports Nova_Prelude
begin

section \<open>nn_env.c: environments in a page allocator\<close>

text \<open>
  Environments and the arrays they point to are bump-allocated from pages that are only freed all
  together. Everything stored there is a row of 8-byte words, so the memory is a map from a block
  and a byte offset in it to the word there; a word is in the map when an allocation handed it out
  and its page is alive. A \<open>uint32_t\<close> field is the low half of its word, whose high half is padding
  that stays zero.
\<close>

subsection \<open>Memory\<close>

type_synonym memory = "(nat \<times> nat) \<rightharpoonup> val"

definition read_word :: "memory \<Rightarrow> val \<Rightarrow> nat \<Rightarrow> val c_res" where
  "read_word mem p off = (case p of
     Raw _ \<Rightarrow> Inl Undefined
   | Ptr b n \<Rightarrow> (case mem (b, n + off) of None \<Rightarrow> Inl Undefined | Some v \<Rightarrow> Inr v))"

definition write_word :: "memory \<Rightarrow> val \<Rightarrow> nat \<Rightarrow> val \<Rightarrow> memory c_res" where
  "write_word mem p off v = (case p of
     Raw _ \<Rightarrow> Inl Undefined
   | Ptr b n \<Rightarrow> (case mem (b, n + off) of None \<Rightarrow> Inl Undefined | Some _ \<Rightarrow> Inr (mem((b, n + off) \<mapsto> v))))"

text \<open>\<open>memset(p, 0, 8 * n)\<close> of words that are handed out with it.\<close>

definition zero_words :: "nat \<Rightarrow> nat \<Rightarrow> nat \<Rightarrow> memory \<Rightarrow> memory" where
  "zero_words b off n mem = (\<lambda>(b', o').
     if b' = b \<and> off \<le> o' \<and> o' < off + 8 * n \<and> (o' - off) mod 8 = 0 then Some NULL else mem (b', o'))"

text \<open>\<open>memcpy\<close> of \<open>n\<close> words.\<close>

fun copy_words :: "memory \<Rightarrow> val \<Rightarrow> nat \<Rightarrow> val \<Rightarrow> nat \<Rightarrow> nat \<Rightarrow> memory c_res" where
  "copy_words mem src so dst dof 0 = Inr mem"
| "copy_words mem src so dst dof (Suc n) =
     res_bind (read_word mem src so) (\<lambda>v.
     res_bind (write_word mem dst dof v) (\<lambda>mem'.
     copy_words mem' src (so + 8) dst (dof + 8) n))"

subsection \<open>State\<close>

text \<open>\<open>struct nn_env_page\<close>; its data start 16 bytes into its block.\<close>

record env_page =
  ep_blk :: nat
  ep_used :: u32
  ep_capacity :: u32

text \<open>The globals: the page list from \<open>g_first_page\<close> to \<open>g_current_page\<close>, and \<open>g_total_bytes\<close>.
  \<open>g_empty_env\<close> is block 0.\<close>

record env_mod =
  ev_pages :: "env_page list"
  ev_total :: u64
  ev_mem :: memory

abbreviation NN_ENV_PAGE_SIZE :: u32 where "NN_ENV_PAGE_SIZE \<equiv> 262144"
abbreviation NN_ENV_ALIGN :: u32 where "NN_ENV_ALIGN \<equiv> 8"

abbreviation sizeof_env :: u32 where "sizeof_env \<equiv> 48"

definition env_mod_init :: env_mod where
  "env_mod_init = \<lparr>ev_pages = [], ev_total = 0, ev_mem = zero_words 0 0 6 Map.empty\<rparr>"

subsection \<open>The page allocator\<close>

definition alloc_page :: "u32 \<Rightarrow> allocator \<Rightarrow> env_page option \<times> allocator" where
  "alloc_page capacity al = (case c_malloc (16 + ucast capacity) al of
     (None, al') \<Rightarrow> (None, al')
   | (Some b, al') \<Rightarrow> (Some \<lparr>ep_blk = b, ep_used = 0, ep_capacity = capacity\<rparr>, al'))"

definition align_up :: "u32 \<Rightarrow> u32 \<Rightarrow> u32" where
  "align_up n alignment = (n + alignment - 1) AND NOT (alignment - 1)"

text \<open>The page to bump: a new one, at least as large as the request, when the current one has not
  enough left.\<close>

definition open_page :: "u32 \<Rightarrow> allocator \<Rightarrow> env_page list \<Rightarrow> bool \<times> allocator \<times> env_page list" where
  "open_page bytes al pages =
     (if bytes > ep_capacity (last pages) - ep_used (last pages) then
        let page_cap = (if bytes > NN_ENV_PAGE_SIZE then bytes else NN_ENV_PAGE_SIZE) in
        (case alloc_page page_cap al of
           (None, al') \<Rightarrow> (False, al', pages)
         | (Some page, al') \<Rightarrow> (True, al', pages @ [page]))
      else (True, al, pages))"

definition nn_env_alloc_raw :: "u32 \<Rightarrow> allocator \<Rightarrow> env_mod \<Rightarrow> val \<times> allocator \<times> env_mod" where
  "nn_env_alloc_raw bytes al m =
     (if bytes > UINT32_MAX - (NN_ENV_ALIGN - 1) then (NULL, al, m)
      else let bytes = align_up bytes NN_ENV_ALIGN in
        if ev_pages m = [] then (NULL, al, m)
        else (case open_page bytes al (ev_pages m) of (ok, al', pages) \<Rightarrow>
          if \<not> ok then (NULL, al', m)
          else let page = last pages; off = 16 + unat (ep_used page) in
            (Ptr (ep_blk page) off, al',
             m\<lparr>ev_pages := butlast pages @ [page\<lparr>ep_used := ep_used page + bytes\<rparr>],
               ev_total := ev_total m + ucast bytes,
               ev_mem := zero_words (ep_blk page) off (unat bytes div 8) (ev_mem m)\<rparr>)))"

subsection \<open>Lifecycle\<close>

definition nn_env_live :: "env_mod \<Rightarrow> bool" where
  "nn_env_live m \<longleftrightarrow> ev_pages m \<noteq> []"

text \<open>Freeing the pages ends the life of every word in them.\<close>

definition nn_env_destroy :: "env_mod \<Rightarrow> env_mod" where
  "nn_env_destroy m = \<lparr>ev_pages = [], ev_total = 0,
     ev_mem = ev_mem m |` {(b, off). b \<notin> ep_blk ` set (ev_pages m)}\<rparr>"

definition nn_env_init :: "allocator \<Rightarrow> env_mod \<Rightarrow> (allocator \<times> env_mod) c_res" where
  "nn_env_init al m =
     (let m = (if ev_pages m \<noteq> [] then nn_env_destroy m else m) in
      case alloc_page NN_ENV_PAGE_SIZE al of
        (None, _) \<Rightarrow> Inl Abort
      | (Some page, al') \<Rightarrow>
          Inr (al', m\<lparr>ev_pages := [page], ev_total := 0, ev_mem := zero_words 0 0 6 (ev_mem m)\<rparr>))"

subsection \<open>Arrays\<close>

definition nn_env_alloc_slots :: "u32 \<Rightarrow> allocator \<Rightarrow> env_mod \<Rightarrow> val \<times> allocator \<times> env_mod" where
  "nn_env_alloc_slots cnt al m =
     (if cnt = 0 then (NULL, al, m)
      else let bytes64 = (ucast cnt :: u64) * 8 in
        if bytes64 > ucast UINT32_MAX then (NULL, al, m)
        else nn_env_alloc_raw (ucast bytes64) al m)"

definition nn_env_alloc_with_scopes :: "u32 \<Rightarrow> allocator \<Rightarrow> env_mod \<Rightarrow> val \<times> allocator \<times> env_mod" where
  "nn_env_alloc_with_scopes cnt al m =
     (if cnt = 0 then (NULL, al, m)
      else let bytes64 = (ucast cnt :: u64) * 8 in
        if bytes64 > ucast UINT32_MAX then (NULL, al, m)
        else nn_env_alloc_raw (ucast bytes64) al m)"

subsection \<open>Fields\<close>

definition nn_env_slots :: "memory \<Rightarrow> val \<Rightarrow> val c_res" where
  "nn_env_slots mem env = read_word mem env 0"

definition nn_env_slot_count :: "memory \<Rightarrow> val \<Rightarrow> u32 c_res" where
  "nn_env_slot_count mem env =
     res_bind (read_word mem env 8) (\<lambda>v. Inr (ucast (val_bits (\<lambda>_. 0) v)))"

definition nn_env_lazy_scope :: "memory \<Rightarrow> val \<Rightarrow> val c_res" where
  "nn_env_lazy_scope mem env = read_word mem env 16"

definition nn_env_parent :: "memory \<Rightarrow> val \<Rightarrow> val c_res" where
  "nn_env_parent mem env = read_word mem env 24"

definition nn_env_with_scopes :: "memory \<Rightarrow> val \<Rightarrow> val c_res" where
  "nn_env_with_scopes mem env = read_word mem env 32"

definition nn_env_with_count :: "memory \<Rightarrow> val \<Rightarrow> u32 c_res" where
  "nn_env_with_count mem env =
     res_bind (read_word mem env 40) (\<lambda>v. Inr (ucast (val_bits (\<lambda>_. 0) v)))"

fun write_words :: "memory \<Rightarrow> val \<Rightarrow> (nat \<times> val) list \<Rightarrow> memory c_res" where
  "write_words mem p [] = Inr mem"
| "write_words mem p ((off, v) # ws) = res_bind (write_word mem p off v) (\<lambda>mem'. write_words mem' p ws)"

subsection \<open>Constructors\<close>

definition nn_env_empty :: val where
  "nn_env_empty = Ptr 0 0"

text \<open>Allocates an environment and writes the listed fields; NULL when there is no memory.\<close>

definition new_env ::
  "(memory \<Rightarrow> (nat \<times> val) list c_res) \<Rightarrow> allocator \<Rightarrow> env_mod \<Rightarrow> (val \<times> allocator \<times> env_mod) c_res" where
  "new_env mk al m = (case nn_env_alloc_raw sizeof_env al m of (env, al', m') \<Rightarrow>
     if env = NULL then Inr (NULL, al', m')
     else res_bind (mk (ev_mem m')) (\<lambda>ws.
          res_bind (write_words (ev_mem m') env ws) (\<lambda>mem.
          Inr (env, al', m'\<lparr>ev_mem := mem\<rparr>))))"

definition nn_env_new ::
  "val \<Rightarrow> u32 \<Rightarrow> val \<Rightarrow> val \<Rightarrow> val \<Rightarrow> u32 \<Rightarrow> allocator \<Rightarrow> env_mod \<Rightarrow> (val \<times> allocator \<times> env_mod) c_res" where
  "nn_env_new slots slot_count lazy_scope parent with_scopes with_count =
     new_env (\<lambda>_. Inr [(0, slots), (8, Raw (ucast slot_count)), (16, lazy_scope), (24, parent),
       (32, with_scopes), (40, Raw (ucast with_count))])"

definition nn_env_from_slots ::
  "val \<Rightarrow> u32 \<Rightarrow> val \<Rightarrow> allocator \<Rightarrow> env_mod \<Rightarrow> (val \<times> allocator \<times> env_mod) c_res" where
  "nn_env_from_slots slots slot_count parent =
     new_env (\<lambda>mem.
       res_bind (if parent \<noteq> NULL then nn_env_with_scopes mem parent else Inr NULL) (\<lambda>ws.
       res_bind (if parent \<noteq> NULL then nn_env_with_count mem parent else Inr 0) (\<lambda>wc.
       Inr [(0, slots), (8, Raw (ucast slot_count)), (16, NULL), (24, parent), (32, ws),
            (40, Raw (ucast wc))])))"

definition nn_env_push_with ::
  "val \<Rightarrow> val \<Rightarrow> allocator \<Rightarrow> env_mod \<Rightarrow> (val \<times> allocator \<times> env_mod) c_res" where
  "nn_env_push_with base scope al m =
     res_bind (nn_env_with_count (ev_mem m) base) (\<lambda>wc.
     if wc = UINT32_MAX then Inr (NULL, al, m)
     else case nn_env_alloc_with_scopes (wc + 1) al m of (new_withs, al1, m1) \<Rightarrow>
       if new_withs = NULL then Inr (NULL, al1, m1)
       else
         res_bind (write_word (ev_mem m1) new_withs 0 scope) (\<lambda>mem1.
         res_bind (nn_env_with_scopes mem1 base) (\<lambda>ws.
         res_bind (if wc > 0 \<and> ws \<noteq> NULL then copy_words mem1 ws 0 new_withs 8 (unat wc) else Inr mem1)
           (\<lambda>mem2.
         new_env (\<lambda>mem.
           res_bind (nn_env_slots mem base) (\<lambda>slots.
           res_bind (nn_env_slot_count mem base) (\<lambda>slot_count.
           res_bind (nn_env_lazy_scope mem base) (\<lambda>lazy_scope.
           res_bind (nn_env_parent mem base) (\<lambda>parent.
           Inr [(0, slots), (8, Raw (ucast slot_count)), (16, lazy_scope), (24, parent),
                (32, new_withs), (40, Raw (ucast (wc + 1)))])))))
           al1 (m1\<lparr>ev_mem := mem2\<rparr>)))))"

definition nn_env_new_minimal ::
  "val \<Rightarrow> u32 \<Rightarrow> allocator \<Rightarrow> env_mod \<Rightarrow> (val \<times> allocator \<times> env_mod) c_res" where
  "nn_env_new_minimal slots slot_count =
     new_env (\<lambda>_. Inr [(0, slots), (8, Raw (ucast slot_count))])"

subsection \<open>Lookup\<close>

text \<open>The loop over \<open>level\<close>; NULL is the early return.\<close>

fun walk_parents :: "bool \<Rightarrow> memory \<Rightarrow> val \<Rightarrow> nat \<Rightarrow> val c_res" where
  "walk_parents dbg mem env 0 = Inr env"
| "walk_parents dbg mem env (Suc level) =
     res_bind (nn_env_parent mem env) (\<lambda>parent.
     NN_ASSERT dbg (parent \<noteq> NULL)
       (if parent = NULL then Inr NULL else walk_parents dbg mem parent level))"

text \<open>A C \<open>int\<close> is an integer of its range; a negative level makes no hop.\<close>

definition nn_env_lookup_resolved :: "bool \<Rightarrow> memory \<Rightarrow> val \<Rightarrow> int \<Rightarrow> int \<Rightarrow> val c_res" where
  "nn_env_lookup_resolved dbg mem env level idx =
     NN_ASSERT dbg (env \<noteq> NULL)
       (if env = NULL then Inr NULL
        else res_bind (walk_parents dbg mem env (nat level)) (\<lambda>env'.
          if env' = NULL then Inr NULL
          else res_bind (nn_env_slot_count mem env') (\<lambda>cnt.
            NN_ASSERT dbg (idx \<ge> 0 \<and> (of_int idx :: u32) < cnt)
              (if idx < 0 \<or> (of_int idx :: u32) \<ge> cnt then Inr NULL
               else res_bind (nn_env_slots mem env') (\<lambda>slots.
                 read_word mem slots (8 * nat idx))))))"

text \<open>The loop of \<open>nn_env_root_scope\<close> follows parents until there is none.\<close>

partial_function (option) root_walk :: "memory \<Rightarrow> val \<Rightarrow> val c_res option" where
  "root_walk mem env = (case nn_env_parent mem env of
     Inl e \<Rightarrow> Some (Inl e)
   | Inr parent \<Rightarrow> if parent \<noteq> NULL then root_walk mem parent
                   else Some (nn_env_lazy_scope mem env))"

definition nn_env_root_scope :: "memory \<Rightarrow> val \<Rightarrow> val c_res" where
  "nn_env_root_scope mem env = (case root_walk mem env of None \<Rightarrow> Inl Diverge | Some r \<Rightarrow> r)"

definition nn_env_bytes_allocated :: "env_mod \<Rightarrow> u64" where
  "nn_env_bytes_allocated m = ev_total m"

end
