(* ===== verification/Nova_Env_Mem.thy ===== *)
theory Nova_Env_Mem
  imports Nova_Env
begin

section \<open>The page allocator: fresh, zeroed, disjoint memory\<close>

text \<open>
  The invariant of the bump-allocated pages, and that what an allocation grants is aligned, zeroed and disjoint from
  all that was granted before.
\<close>

subsection \<open>Words\<close>

lemma read_word_Inr: "read_word mem p off = Inr v \<longleftrightarrow> (\<exists>b n. p = Ptr b n \<and> mem (b, n + off) = Some v)"
  by (auto simp: read_word_def split: val.splits option.splits)

lemma read_word_mono: "mem \<subseteq>\<^sub>m mem' \<Longrightarrow> read_word mem p off = Inr v \<Longrightarrow> read_word mem' p off = Inr v"
  unfolding read_word_Inr by (metis domI map_le_def)

lemma zero_words_at: "zero_words b off n mem (b, off + 8 * k) = (if k < n then Some NULL else mem (b, off + 8 * k))"
  by (simp add: zero_words_def)

lemma zero_words_other: "b' \<noteq> b \<or> o' < off \<Longrightarrow> zero_words b off n mem (b', o') = mem (b', o')"
  by (auto simp: zero_words_def)

lemma zero_words_dom:
  "zero_words b off n mem (b', o') = Some v \<Longrightarrow>
    mem (b', o') = Some v \<or> (b' = b \<and> off \<le> o' \<and> o' + 8 \<le> off + 8 * n \<and> v = NULL)"
proof (cases "b' = b \<and> off \<le> o' \<and> o' < off + 8 * n \<and> (o' - off) mod 8 = 0")
  case True
  assume "zero_words b off n mem (b', o') = Some v"
  then have v: "v = NULL" using True by (simp add: zero_words_def)
  from True obtain k where k: "o' - off = 8 * k" by (meson dvdE mod_0_imp_dvd)
  from True have t: "off \<le> o'" "o' < off + 8 * n" by simp_all
  with k have "8 * k < 8 * n" by linarith
  then have "k < n" by simp
  then have "o' + 8 \<le> off + 8 * n" using k t by linarith
  with True v show ?thesis by simp
qed (simp add: zero_words_def)

subsection \<open>What an allocation grants\<close>

text \<open>\<open>n\<close> words at an aligned address past every word of their block that was handed out before;
  all of them read zero, and no other word changes.\<close>

definition granted :: "memory \<Rightarrow> memory \<Rightarrow> val \<Rightarrow> nat \<Rightarrow> bool" where
  "granted mem mem' p n \<longleftrightarrow> (\<exists>b off. p = Ptr b off \<and> 8 dvd off \<and>
     (\<forall>o'. (b, o') \<in> dom mem \<longrightarrow> o' + 8 \<le> off) \<and> mem' = zero_words b off n mem)"

lemma granted_le: "granted mem mem' p n \<Longrightarrow> mem \<subseteq>\<^sub>m mem'"
proof -
  assume "granted mem mem' p n"
  then obtain b off where g: "\<forall>o'. (b, o') \<in> dom mem \<longrightarrow> o' + 8 \<le> off" "mem' = zero_words b off n mem"
    by (auto simp: granted_def)
  show ?thesis unfolding map_le_def
  proof
    fix x assume x: "x \<in> dom mem"
    obtain b' o' where "x = (b', o')" by (cases x)
    with g x have "b' \<noteq> b \<or> o' < off" by fastforce
    then show "mem x = mem' x" using g(2) \<open>x = (b', o')\<close> by (simp add: zero_words_other)
  qed
qed

lemma granted_zero: "granted mem mem' p n \<Longrightarrow> k < n \<Longrightarrow> read_word mem' p (8 * k) = Inr NULL"
  by (auto simp: granted_def read_word_Inr zero_words_at)

lemma granted_fresh: "granted mem mem' p n \<Longrightarrow> read_word mem p (8 * k) = Inl Undefined"
proof -
  assume "granted mem mem' p n"
  then obtain b off where g: "p = Ptr b off" "\<forall>o'. (b, o') \<in> dom mem \<longrightarrow> o' + 8 \<le> off"
    by (auto simp: granted_def)
  then have "mem (b, off + 8 * k) = None" using g(2)
    by (metis domIff add.assoc add_leE le_add1 le_antisym not_add_less1 not_less_eq_eq numeral_eq_Suc add_Suc_right less_add_Suc1)
  then show ?thesis using g(1) by (simp add: read_word_def)
qed

subsection \<open>Alignment\<close>

lemma and_not_7: "(x :: u32) AND NOT 7 = x div 8 * 8"
proof -
  have "(7 :: u32) = mask 3" by (simp add: mask_eq_exp_minus_1)
  moreover have "x AND NOT (mask 3) = push_bit 3 (drop_bit 3 x)"
    by (rule bit_word_eqI) (auto simp: bit_simps)
  ultimately show ?thesis by (simp add: push_bit_eq_mult drop_bit_eq_div)
qed

lemma align_up_8:
  assumes "unat n \<le> 4294967288"
  shows "unat (align_up n NN_ENV_ALIGN) = 8 * ((unat n + 7) div 8)"
proof -
  have s: "unat (n + 7) = unat n + 7" using assms by (simp add: unat_word_ariths)
  have "align_up n NN_ENV_ALIGN = (n + 7) div 8 * 8" using and_not_7 [of "n + 7"] by (simp add: align_up_def add.commute)
  moreover have "unat ((n + 7) div 8) * 8 < 2 ^ 32"
    using assms s by (simp add: unat_div)
  ultimately show ?thesis using s by (simp add: unat_word_ariths unat_div)
qed

subsection \<open>The invariant\<close>

definition page_wf :: "allocator \<Rightarrow> env_page \<Rightarrow> bool" where
  "page_wf al page \<longleftrightarrow> ep_used page \<le> ep_capacity page \<and> 8 dvd unat (ep_used page) \<and>
     0 < ep_blk page \<and> ep_blk page < al_next al"

text \<open>A word that is alive belongs to the static empty environment or lies in the used part of a
  live page.\<close>

definition word_owned :: "env_page list \<Rightarrow> nat \<times> nat \<Rightarrow> bool" where
  "word_owned pages x \<longleftrightarrow> (fst x = 0 \<and> snd x + 8 \<le> 48) \<or>
     (\<exists>page \<in> set pages. ep_blk page = fst x \<and> 16 \<le> snd x \<and> snd x + 8 \<le> 16 + unat (ep_used page))"

definition env_wf :: "allocator \<Rightarrow> env_mod \<Rightarrow> bool" where
  "env_wf al m \<longleftrightarrow> 0 < al_next al \<and> distinct (map ep_blk (ev_pages m)) \<and>
     (\<forall>page \<in> set (ev_pages m). page_wf al page) \<and>
     (\<forall>x \<in> dom (ev_mem m). word_owned (ev_pages m) x) \<and>
     (\<forall>k < 6. ev_mem m (0, 8 * k) = Some NULL) \<and>
     ev_total m = of_nat (sum_list (map (unat \<circ> ep_used) (ev_pages m)))"

lemma word_owned_mono: "word_owned pages x \<Longrightarrow> set pages \<subseteq> set pages' \<Longrightarrow> word_owned pages' x"
  unfolding word_owned_def by blast

lemma word_owned_snoc: "word_owned pages x \<Longrightarrow> word_owned (pages @ [page]) x"
  by (rule word_owned_mono) auto

lemma env_wf_steps: "env_wf al m \<Longrightarrow> al_steps al al' \<Longrightarrow> env_wf al' m"
  by (auto simp: env_wf_def al_steps_def page_wf_def)

lemma env_wf_mem:
  assumes "env_wf al m" and "dom mem = dom (ev_mem m)" and "\<forall>k < 6. mem (0, 8 * k) = Some NULL"
  shows "env_wf al (m\<lparr>ev_mem := mem\<rparr>)"
  using assms by (simp add: env_wf_def)

text \<open>The page that serves a request, with what came of the request for a new one.\<close>

lemma open_page_result:
  assumes wf: "env_wf al m" and live: "ev_pages m \<noteq> []" and al8: "8 dvd unat bytes"
  obtains ok al' ps page where "open_page bytes al (ev_pages m) = (ok, al', ps @ [page])"
    and "\<not> ok \<Longrightarrow> ps @ [page] = ev_pages m"
    and "env_wf al' (m\<lparr>ev_pages := ps @ [page]\<rparr>)"
    and "ok \<Longrightarrow> unat (ep_used page) + unat bytes \<le> unat (ep_capacity page)"
    and "al_steps al al'" and "al_ok al = (\<lambda>_ _. True) \<Longrightarrow> ok"
proof -
  obtain ps page where p: "ev_pages m = ps @ [page]" using live by (metis append_butlast_last_id)
  then have same: "m\<lparr>ev_pages := ps @ [page]\<rparr> = m" by simp
  have pw: "page_wf al page" using wf p by (simp add: env_wf_def)
  show ?thesis
  proof (cases "bytes > ep_capacity page - ep_used page")
    case False
    have "unat (ep_capacity page - ep_used page) = unat (ep_capacity page) - unat (ep_used page)"
      using pw by (simp add: page_wf_def unat_sub)
    then have "unat (ep_used page) + unat bytes \<le> unat (ep_capacity page)"
      using False pw unfolding page_wf_def word_less_nat_alt word_le_nat_alt by linarith
    with that [of True al ps page] False p wf same show ?thesis by (simp add: open_page_def)
  next
    case True
    define cap where "cap = (if bytes > NN_ENV_PAGE_SIZE then bytes else NN_ENV_PAGE_SIZE)"
    have cap: "unat bytes \<le> unat cap" by (simp add: cap_def word_less_nat_alt)
    obtain r al' where a: "alloc_page cap al = (r, al')" by (cases "alloc_page cap al")
    then have st: "al_steps al al'" "al_next al < al_next al'"
      by (auto simp: alloc_page_def c_malloc_def al_steps_def split: if_splits)
    show ?thesis
    proof (cases r)
      case None
      then have "al_ok al \<noteq> (\<lambda>_ _. True)" using a by (auto simp: alloc_page_def c_malloc_def)
      have call: "open_page bytes al (ev_pages m) = (False, al', ps @ [page])"
        using True None a p unfolding open_page_def Let_def cap_def [symmetric] by (simp add: cap_def)
      have "env_wf al' (m\<lparr>ev_pages := ps @ [page]\<rparr>)"
        unfolding same using wf st(1) by (rule env_wf_steps)
      then show ?thesis
        by (rule that [OF call, rotated]) (use p st(1) \<open>al_ok al \<noteq> _\<close> in simp_all)
    next
      case (Some new)
      then have n: "ep_blk new = al_next al" "ep_used new = 0" "ep_capacity new = cap"
        using a by (auto simp: alloc_page_def c_malloc_def split: if_splits)
      have "page_wf al' new" using n st wf by (simp add: page_wf_def env_wf_def)
      moreover have "\<forall>pg \<in> set (ev_pages m). ep_blk pg \<noteq> al_next al"
        using wf by (auto simp: env_wf_def page_wf_def)
      ultimately have w: "env_wf al' (m\<lparr>ev_pages := ev_pages m @ [new]\<rparr>)"
        using env_wf_steps [OF wf st(1)] n by (auto simp: env_wf_def intro: word_owned_snoc)
      have call: "open_page bytes al (ev_pages m) = (True, al', ev_pages m @ [new])"
        using True Some a p unfolding open_page_def Let_def cap_def [symmetric] by (simp add: cap_def)
      show ?thesis
        by (rule that [OF call]) (use w n cap st(1) in simp_all)
    qed
  qed
qed

text \<open>The whole request: granted words, or NULL and nothing changed.\<close>

lemma bumped_page_wf:
  assumes wf: "env_wf al (m\<lparr>ev_pages := ps @ [page]\<rparr>)" and al8: "unat bytes = 8 * n"
    and room: "unat (ep_used page) + unat bytes \<le> unat (ep_capacity page)"
  defines "off \<equiv> 16 + unat (ep_used page)"
  shows "env_wf al (m\<lparr>ev_pages := ps @ [page\<lparr>ep_used := ep_used page + bytes\<rparr>],
      ev_total := ev_total m + ucast bytes, ev_mem := zero_words (ep_blk page) off n (ev_mem m)\<rparr>)"
    and "granted (ev_mem m) (zero_words (ep_blk page) off n (ev_mem m)) (Ptr (ep_blk page) off) n"
proof -
  let ?page' = "page\<lparr>ep_used := ep_used page + bytes\<rparr>"
  have u: "unat (ep_used page + bytes) = unat (ep_used page) + unat bytes"
    using room unat_u32_less [of "ep_capacity page"] by (simp add: unat_word_ariths)
  have pw: "page_wf al page" and d: "distinct (map ep_blk (ps @ [page]))"
    and owned: "\<forall>x \<in> dom (ev_mem m). word_owned (ps @ [page]) x"
    and st: "\<forall>k < 6. ev_mem m (0, 8 * k) = Some NULL"
    using wf by (simp_all add: env_wf_def)
  have pw': "page_wf al ?page'" using pw room al8 u by (simp add: page_wf_def word_le_nat_alt)
  have "word_owned (ps @ [?page']) x" if "x \<in> dom (zero_words (ep_blk page) off n (ev_mem m))" for x
  proof -
    obtain b' o' where x1: "x = (b', o')" by (cases x)
    with that obtain v where "zero_words (ep_blk page) off n (ev_mem m) (b', o') = Some v" by blast
    note x = x1 this
    from zero_words_dom [OF x(2)] show ?thesis
    proof
      assume "ev_mem m (b', o') = Some v"
      then have "word_owned (ps @ [page]) x" using owned x by blast
      then show ?thesis using u by (auto simp: word_owned_def)
    next
      assume "b' = ep_blk page \<and> off \<le> o' \<and> o' + 8 \<le> off + 8 * n \<and> v = NULL"
      then show ?thesis using u al8 x by (auto simp: word_owned_def off_def)
    qed
  qed
  moreover have "0 < ep_blk page" using pw by (simp add: page_wf_def)
  then have "\<forall>k < 6. zero_words (ep_blk page) off n (ev_mem m) (0, 8 * k) = Some NULL"
    using st by (simp add: zero_words_other)
  ultimately show "env_wf al (m\<lparr>ev_pages := ps @ [?page'], ev_total := ev_total m + ucast bytes,
      ev_mem := zero_words (ep_blk page) off n (ev_mem m)\<rparr>)"
    using wf d pw' u by (simp add: env_wf_def of_nat_unat_64)
  have "o' + 8 \<le> off" if "(ep_blk page, o') \<in> dom (ev_mem m)" for o'
    using owned [rule_format, OF that] pw d
    by (auto simp: word_owned_def off_def page_wf_def) (metis image_eqI)
  moreover have "8 dvd off" using pw by (simp add: off_def page_wf_def)
  ultimately show "granted (ev_mem m) (zero_words (ep_blk page) off n (ev_mem m)) (Ptr (ep_blk page) off) n"
    by (auto simp: granted_def)
qed

lemma alloc_raw_result:
  assumes wf: "env_wf al m"
  obtains p al' m' where "nn_env_alloc_raw bytes al m = (p, al', m')" and "env_wf al' m'"
    and "al_steps al al'" and "nn_env_live m' = nn_env_live m"
    and "p = NULL \<longrightarrow> m' = m"
    and "p \<noteq> NULL \<longrightarrow> granted (ev_mem m) (ev_mem m') p ((unat bytes + 7) div 8)"
    and "al_ok al = (\<lambda>_ _. True) \<and> nn_env_live m \<and> unat bytes \<le> 4294967288 \<longrightarrow> p \<noteq> NULL"
    and "p \<noteq> NULL \<longrightarrow> nn_env_live m \<and> unat bytes \<le> 4294967288"
proof (cases "bytes > UINT32_MAX - (NN_ENV_ALIGN - 1) \<or> ev_pages m = []")
  case True
  then have call: "nn_env_alloc_raw bytes al m = (NULL, al, m)" by (auto simp: nn_env_alloc_raw_def Let_def)
  have "\<not> (nn_env_live m \<and> unat bytes \<le> 4294967288)"
    using True by (auto simp: nn_env_live_def word_less_nat_alt)
  with that [OF call wf] show ?thesis by simp
next
  case False
  then have live: "ev_pages m \<noteq> []" and small: "unat bytes \<le> 4294967288"
    by (auto simp: word_less_nat_alt)
  let ?b = "align_up bytes NN_ENV_ALIGN" and ?n = "(unat bytes + 7) div 8"
  have b: "unat ?b = 8 * ?n" using small by (rule align_up_8)
  then have "8 dvd unat ?b" by simp
  then obtain ok al' ps page where o: "open_page ?b al (ev_pages m) = (ok, al', ps @ [page])"
    "\<not> ok \<Longrightarrow> ps @ [page] = ev_pages m" "env_wf al' (m\<lparr>ev_pages := ps @ [page]\<rparr>)"
    "ok \<Longrightarrow> unat (ep_used page) + unat ?b \<le> unat (ep_capacity page)" "al_steps al al'"
    "al_ok al = (\<lambda>_ _. True) \<Longrightarrow> ok"
    using open_page_result [OF wf live] by metis
  have call: "nn_env_alloc_raw bytes al m = (if \<not> ok then (NULL, al', m)
      else (Ptr (ep_blk page) (16 + unat (ep_used page)), al',
            m\<lparr>ev_pages := ps @ [page\<lparr>ep_used := ep_used page + ?b\<rparr>], ev_total := ev_total m + ucast ?b,
              ev_mem := zero_words (ep_blk page) (16 + unat (ep_used page)) ?n (ev_mem m)\<rparr>))"
    using False o(1) b by (simp add: nn_env_alloc_raw_def Let_def)
  show ?thesis
  proof (cases ok)
    case False
    then have "al_ok al \<noteq> (\<lambda>_ _. True)" using o(6) by blast
    with that [of NULL al' m] False call o(5) env_wf_steps [OF wf o(5)] show ?thesis by simp
  next
    case True
    note w = bumped_page_wf [OF o(3) b o(4) [OF True]]
    let ?m' = "m\<lparr>ev_pages := ps @ [page\<lparr>ep_used := ep_used page + ?b\<rparr>], ev_total := ev_total m + ucast ?b,
        ev_mem := zero_words (ep_blk page) (16 + unat (ep_used page)) ?n (ev_mem m)\<rparr>"
    have "nn_env_live ?m' = nn_env_live m" using live by (simp add: nn_env_live_def)
    with True call w o(5) live small show ?thesis
      by (intro that [of "Ptr (ep_blk page) (16 + unat (ep_used page))" al' ?m'])
        (simp_all add: nn_env_live_def)
  qed
qed

text \<open>An array of \<open>n\<close> words.\<close>

lemma alloc_slots_result:
  assumes wf: "env_wf al m"
  obtains p al' m' where "nn_env_alloc_slots n al m = (p, al', m')" and "env_wf al' m'"
    and "al_steps al al'" and "nn_env_live m' = nn_env_live m"
    and "p = NULL \<longrightarrow> m' = m"
    and "p \<noteq> NULL \<longrightarrow> granted (ev_mem m) (ev_mem m') p (unat n)"
    and "al_ok al = (\<lambda>_ _. True) \<and> nn_env_live m \<and> 0 < unat n \<and> 8 * unat n \<le> 4294967288 \<longrightarrow> p \<noteq> NULL"
    and "p \<noteq> NULL \<longrightarrow> nn_env_live m \<and> 0 < unat n \<and> 8 * unat n \<le> 4294967288"
proof (cases "n = 0 \<or> (ucast n :: u64) * 8 > ucast UINT32_MAX")
  case True
  have m8: "unat ((ucast n :: u64) * 8) = 8 * unat n" by (rule unat_times_8)
  have "nn_env_alloc_slots n al m = (NULL, al, m)" using True by (auto simp: nn_env_alloc_slots_def Let_def)
  moreover have "\<not> (0 < unat n \<and> 8 * unat n \<le> 4294967288)"
    using True m8 by (auto simp: word_less_nat_alt)
  ultimately show ?thesis using that [of NULL al m] wf by simp
next
  case False
  let ?b = "ucast ((ucast n :: u64) * 8) :: u32"
  have m8: "unat ((ucast n :: u64) * 8) = 8 * unat n" by (rule unat_times_8)
  from False have "\<not> (ucast UINT32_MAX < (ucast n :: u64) * 8)" by blast
  then have "\<not> (4294967295 < 8 * unat n)" unfolding word_less_nat_alt m8 unat_ucast_64 by simp
  then have "unat ((ucast n :: u64) * 8) \<le> 4294967295" unfolding m8 by linarith
  then have b: "unat ?b = 8 * unat n" using m8 by (subst unat_ucast_32) simp_all
  have n: "0 < unat n" using False by (simp add: unat_gt_0)
  have call: "nn_env_alloc_slots n al m = nn_env_alloc_raw ?b al m"
    using False by (simp add: nn_env_alloc_slots_def Let_def)
  obtain p al' m' where r: "nn_env_alloc_raw ?b al m = (p, al', m')" "env_wf al' m'"
    "al_steps al al'" "nn_env_live m' = nn_env_live m" "p = NULL \<longrightarrow> m' = m"
    "p \<noteq> NULL \<longrightarrow> granted (ev_mem m) (ev_mem m') p ((unat ?b + 7) div 8)"
    "al_ok al = (\<lambda>_ _. True) \<and> nn_env_live m \<and> unat ?b \<le> 4294967288 \<longrightarrow> p \<noteq> NULL"
    "p \<noteq> NULL \<longrightarrow> nn_env_live m \<and> unat ?b \<le> 4294967288"
    by (rule alloc_raw_result [OF wf])
  have "(8 * unat n + 7) div 8 = unat n" by simp
  with r(6) have g: "p \<noteq> NULL \<longrightarrow> granted (ev_mem m) (ev_mem m') p (unat n)" unfolding b by (simp only:)
  show ?thesis
    by (rule that [OF call [unfolded r(1)] r(2-5) g]; use r(7,8) [unfolded b] n in blast)
qed

lemma with_scopes_same: "nn_env_alloc_with_scopes = nn_env_alloc_slots"
  by (simp add: fun_eq_iff nn_env_alloc_with_scopes_def nn_env_alloc_slots_def)

end
