(* ===== verification/Nova_Env_Abs.thy ===== *)
theory Nova_Env_Abs
  imports Nova_Env_Mem
begin

section \<open>Environments in memory and the environments they represent\<close>

text \<open>
  An environment is a tree of frames; when a memory holds one, and that the lookups of nn_env.c
  agree with it.
\<close>

subsection \<open>Arrays\<close>

definition array_at :: "memory \<Rightarrow> val \<Rightarrow> val list \<Rightarrow> bool" where
  "array_at mem p xs \<longleftrightarrow> (\<forall>i < length xs. read_word mem p (8 * i) = Inr (xs ! i))"

lemma array_at_Nil [simp]: "array_at mem p []"
  by (simp add: array_at_def)

lemma array_at_mono: "mem \<subseteq>\<^sub>m mem' \<Longrightarrow> array_at mem p xs \<Longrightarrow> array_at mem' p xs"
  by (simp add: array_at_def read_word_mono)

lemma granted_array: "granted mem mem' p n \<Longrightarrow> array_at mem' p (replicate n NULL)"
  by (simp add: array_at_def granted_zero)

text \<open>The interface of an allocator of zeroed arrays: an array it answers is new, reads NULL
  everywhere and overlaps nothing that was handed out before.\<close>

locale slot_allocator =
  fixes alloc :: "u32 \<Rightarrow> 'al \<Rightarrow> 'm \<Rightarrow> val \<times> 'al \<times> 'm"
    and mem :: "'m \<Rightarrow> memory"
    and inv :: "'al \<Rightarrow> 'm \<Rightarrow> bool"
  assumes alloc_inv: "inv al m \<Longrightarrow> alloc n al m = (p, al', m') \<Longrightarrow> inv al' m'"
    and alloc_null: "inv al m \<Longrightarrow> alloc n al m = (NULL, al', m') \<Longrightarrow> m' = m"
    and alloc_granted: "inv al m \<Longrightarrow> alloc n al m = (p, al', m') \<Longrightarrow> p \<noteq> NULL \<Longrightarrow>
      granted (mem m) (mem m') p (unat n)"
begin

lemma alloc_keeps:
  assumes "inv al m" and "alloc n al m = (p, al', m')"
  shows "mem m \<subseteq>\<^sub>m mem m'"
proof (cases "p = NULL")
  case True
  with assms have "m' = m" using alloc_null by blast
  then show ?thesis by simp
next
  case False
  with assms show ?thesis using alloc_granted granted_le by blast
qed

text \<open>Arrays that were there read as before, and the new one reads NULL.\<close>

lemma alloc_arrays:
  assumes "inv al m" and "alloc n al m = (p, al', m')"
  shows "array_at (mem m) q xs \<Longrightarrow> array_at (mem m') q xs"
    and "p \<noteq> NULL \<Longrightarrow> array_at (mem m') p (replicate (unat n) NULL)"
    and "p \<noteq> NULL \<Longrightarrow> k < unat n \<Longrightarrow> array_at (mem m) q xs \<Longrightarrow> i < length xs \<Longrightarrow>
      read_word (mem m) p (8 * k) \<noteq> read_word (mem m) q (8 * i)"
proof -
  show "array_at (mem m) q xs \<Longrightarrow> array_at (mem m') q xs"
    using alloc_keeps [OF assms] by (rule array_at_mono)
  show "p \<noteq> NULL \<Longrightarrow> array_at (mem m') p (replicate (unat n) NULL)"
    using alloc_granted [OF assms] by (rule granted_array)
  show "read_word (mem m) p (8 * k) \<noteq> read_word (mem m) q (8 * i)"
    if "p \<noteq> NULL" "k < unat n" "array_at (mem m) q xs" "i < length xs"
    using granted_fresh [OF alloc_granted [OF assms that(1)]] that(3,4) by (simp add: array_at_def)
qed

end

interpretation slots: slot_allocator nn_env_alloc_slots ev_mem env_wf
proof
  fix al m n p al' m'
  assume wf: "env_wf al m"
  obtain p1 al1 m1 where r: "nn_env_alloc_slots n al m = (p1, al1, m1)" "env_wf al1 m1"
    "p1 = NULL \<longrightarrow> m1 = m" "p1 \<noteq> NULL \<longrightarrow> granted (ev_mem m) (ev_mem m1) p1 (unat n)"
    by (rule alloc_slots_result [OF wf, of n])
  show "env_wf al' m'" if "nn_env_alloc_slots n al m = (p, al', m')" using r that by simp
  show "m' = m" if "nn_env_alloc_slots n al m = (NULL, al', m')" using r that by simp
  show "granted (ev_mem m) (ev_mem m') p (unat n)"
    if "nn_env_alloc_slots n al m = (p, al', m')" "p \<noteq> NULL" using r that by simp
qed

subsection \<open>Abstract environments\<close>

text \<open>Slots, lazy scope, the parent unless it is the root, and the with-scopes from the innermost
  out.\<close>

datatype aenv =
    Root "val list" val "val list"
  | Child "val list" val aenv "val list"

fun ae_slots :: "aenv \<Rightarrow> val list" where
  "ae_slots (Root sl lz ws) = sl"
| "ae_slots (Child sl lz e ws) = sl"

fun ae_withs :: "aenv \<Rightarrow> val list" where
  "ae_withs (Root sl lz ws) = ws"
| "ae_withs (Child sl lz e ws) = ws"

fun ae_push :: "val \<Rightarrow> aenv \<Rightarrow> aenv" where
  "ae_push sc (Root sl lz ws) = Root sl lz (sc # ws)"
| "ae_push sc (Child sl lz e ws) = Child sl lz e (sc # ws)"

text \<open>The environment \<open>level\<close> hops up, if the chain is that long.\<close>

fun ae_up :: "aenv \<Rightarrow> nat \<Rightarrow> aenv option" where
  "ae_up e 0 = Some e"
| "ae_up (Root sl lz ws) (Suc n) = None"
| "ae_up (Child sl lz e ws) (Suc n) = ae_up e n"

fun ae_root_scope :: "aenv \<Rightarrow> val" where
  "ae_root_scope (Root sl lz ws) = lz"
| "ae_root_scope (Child sl lz e ws) = ae_root_scope e"

definition fields_at :: "memory \<Rightarrow> val \<Rightarrow> val list \<Rightarrow> val \<Rightarrow> val \<Rightarrow> val list \<Rightarrow> bool" where
  "fields_at mem p sl lz par ws \<longleftrightarrow> p \<noteq> NULL \<and> length sl < 2 ^ 32 \<and> length ws < 2 ^ 32 \<and>
     (\<exists>sp wp. read_word mem p 0 = Inr sp \<and> read_word mem p 8 = Inr (Raw (of_nat (length sl))) \<and>
        array_at mem sp sl \<and> read_word mem p 16 = Inr lz \<and> read_word mem p 24 = Inr par \<and>
        read_word mem p 32 = Inr wp \<and> read_word mem p 40 = Inr (Raw (of_nat (length ws))) \<and>
        array_at mem wp ws \<and> (ws \<noteq> [] \<longrightarrow> wp \<noteq> NULL))"

fun env_at :: "memory \<Rightarrow> val \<Rightarrow> aenv \<Rightarrow> bool" where
  "env_at mem p (Root sl lz ws) = fields_at mem p sl lz NULL ws"
| "env_at mem p (Child sl lz e ws) = (\<exists>par. par \<noteq> NULL \<and> fields_at mem p sl lz par ws \<and> env_at mem par e)"

lemma fields_at_mono: "mem \<subseteq>\<^sub>m mem' \<Longrightarrow> fields_at mem p sl lz par ws \<Longrightarrow> fields_at mem' p sl lz par ws"
  unfolding fields_at_def using read_word_mono array_at_mono by meson

lemma env_at_mono: "mem \<subseteq>\<^sub>m mem' \<Longrightarrow> env_at mem p e \<Longrightarrow> env_at mem' p e"
  by (induction e arbitrary: p) (auto intro: fields_at_mono)

text \<open>The fields of an environment, whichever constructor it has.\<close>

lemma env_at_fields:
  assumes "env_at mem p e"
  obtains lz par where "fields_at mem p (ae_slots e) lz par (ae_withs e)"
  using assms by (cases e) auto

lemma ucast_of_nat: "n < 2 ^ 32 \<Longrightarrow> ucast (of_nat n :: u64) = (of_nat n :: u32)"
  by (simp add: word_unat_eq_iff unsigned_ucast_eq unsigned_of_nat take_bit_nat_eq_self)

lemma unat_of_nat_u32: "n < 2 ^ 32 \<Longrightarrow> unat (of_nat n :: u32) = n"
  by (simp add: unsigned_of_nat take_bit_nat_eq_self)

lemma ucast_of_nat_up: "n < 2 ^ 32 \<Longrightarrow> (ucast (of_nat n :: u32) :: u64) = of_nat n"
  by (simp add: word_unat_eq_iff unsigned_of_nat take_bit_nat_eq_self)

lemma fields_at_reads:
  assumes "fields_at mem p sl lz par ws"
  shows "nn_env_slot_count mem p = Inr (of_nat (length sl))"
    and "nn_env_with_count mem p = Inr (of_nat (length ws))"
    and "nn_env_lazy_scope mem p = Inr lz" and "nn_env_parent mem p = Inr par"
    and "\<exists>sp. nn_env_slots mem p = Inr sp \<and> array_at mem sp sl"
    and "\<exists>wp. nn_env_with_scopes mem p = Inr wp \<and> array_at mem wp ws \<and> (ws \<noteq> [] \<longrightarrow> wp \<noteq> NULL)"
  using assms
  by (auto simp: fields_at_def nn_env_slot_count_def nn_env_with_count_def nn_env_lazy_scope_def
      nn_env_parent_def nn_env_slots_def nn_env_with_scopes_def ucast_of_nat)

subsection \<open>Reading\<close>

lemma walk_parents_result:
  assumes "env_at mem p e"
  shows "case ae_up e n of
      Some e' \<Rightarrow> \<exists>p'. walk_parents dbg mem p n = Inr p' \<and> env_at mem p' e'
    | None \<Rightarrow> walk_parents dbg mem p n = (if dbg then Inl Abort else Inr NULL)"
  using assms
proof (induction e n arbitrary: p rule: ae_up.induct)
  case (1 e)
  then show ?case by auto
next
  case (2 sl lz ws n)
  then have "nn_env_parent mem p = Inr NULL" by (simp add: fields_at_reads)
  then show ?case by (cases dbg) simp_all
next
  case (3 sl lz e ws n)
  then obtain par where par: "par \<noteq> NULL" "fields_at mem p sl lz par ws" "env_at mem par e" by auto
  then have "nn_env_parent mem p = Inr par" by (simp add: fields_at_reads)
  then have w: "walk_parents dbg mem p (Suc n) = walk_parents dbg mem par n" using par(1) by simp
  show ?case unfolding ae_up.simps w by (rule 3(1) [OF par(3)])
qed

lemma root_walk_result: "env_at mem p e \<Longrightarrow> root_walk mem p = Some (Inr (ae_root_scope e))"
proof (induction e arbitrary: p)
  case (Root sl lz ws)
  then show ?case by (subst root_walk.simps) (simp add: fields_at_reads)
next
  case (Child sl lz e ws)
  then obtain par where par: "par \<noteq> NULL" "fields_at mem p sl lz par ws" "env_at mem par e" by auto
  with Child.IH [OF par(3)] show ?case by (subst root_walk.simps) (simp add: fields_at_reads)
qed

end
