(* ===== verification/Nova_Env_Make.thy ===== *)
theory Nova_Env_Make
  imports Nova_Env_Abs
begin

section \<open>Making environments\<close>

text \<open>
  The constructors of nn_env.c build, in fresh memory, the environment their arguments mean and leave every other
  one as it was.
\<close>

subsection \<open>Writing the fields of a new environment\<close>

definition set_words :: "nat \<Rightarrow> nat \<Rightarrow> (nat \<times> val) list \<Rightarrow> memory \<Rightarrow> memory" where
  "set_words b off ws mem = fold (\<lambda>(o', v) mem. mem((b, off + o') \<mapsto> v)) ws mem"

lemma set_words_Cons: "set_words b off ((o', v) # ws) mem = set_words b off ws (mem((b, off + o') \<mapsto> v))"
  by (simp add: set_words_def)

lemma write_words_set:
  "\<forall>w \<in> set ws. (b, off + fst w) \<in> dom mem \<Longrightarrow>
    write_words mem (Ptr b off) ws = Inr (set_words b off ws mem)"
proof (induction ws arbitrary: mem)
  case Nil
  then show ?case by (simp add: set_words_def)
next
  case (Cons w ws)
  obtain o' v where w: "w = (o', v)" by (cases w)
  from Cons.prems w obtain x where "mem (b, off + o') = Some x" by auto
  then have "write_word mem (Ptr b off) o' v = Inr (mem((b, off + o') \<mapsto> v))" by (simp add: write_word_def)
  moreover have "write_words (mem((b, off + o') \<mapsto> v)) (Ptr b off) ws = Inr (set_words b off ws (mem((b, off + o') \<mapsto> v)))"
    using Cons.prems by (intro Cons.IH) auto
  ultimately show ?case by (simp add: w set_words_Cons)
qed

lemma set_words_other:
  "x \<notin> (\<lambda>w. (b, off + fst w)) ` set ws \<Longrightarrow> set_words b off ws mem x = mem x"
proof (induction ws arbitrary: mem)
  case Nil
  then show ?case by (simp add: set_words_def)
next
  case (Cons w ws)
  obtain o' v where w: "w = (o', v)" by (cases w)
  with Cons show ?case by (simp add: set_words_Cons)
qed

lemma set_words_dom:
  "\<forall>w \<in> set ws. (b, off + fst w) \<in> dom mem \<Longrightarrow> dom (set_words b off ws mem) = dom mem"
proof (induction ws arbitrary: mem)
  case Nil
  then show ?case by (simp add: set_words_def)
next
  case (Cons w ws)
  obtain o' v where w: "w = (o', v)" by (cases w)
  from Cons.prems w have d: "dom (mem((b, off + o') \<mapsto> v)) = dom mem" by auto
  then have "\<forall>w \<in> set ws. (b, off + fst w) \<in> dom (mem((b, off + o') \<mapsto> v))"
    using Cons.prems by (simp only: d) simp
  from Cons.IH [OF this] show ?case by (simp only: w set_words_Cons d)
qed

text \<open>Writing only words that were not there before keeps everything that was.\<close>

lemma env_wf_new_words:
  assumes wf: "env_wf al' m'" and le: "mem \<subseteq>\<^sub>m mem2" and d: "dom mem2 = dom (ev_mem m')"
    and st: "\<forall>k < 6. mem (0, 8 * k) = Some NULL"
  shows "env_wf al' (m'\<lparr>ev_mem := mem2\<rparr>)"
  using wf d
proof (rule env_wf_mem)
  show "\<forall>k < 6. mem2 (0, 8 * k) = Some NULL"
  proof (intro allI impI)
    fix k :: nat assume "k < 6"
    then have "mem (0, 8 * k) = Some NULL" using st by blast
    then show "mem2 (0, 8 * k) = Some NULL" using le unfolding map_le_def by (metis domI)
  qed
qed

definition env_offset :: "nat \<Rightarrow> bool" where
  "env_offset off \<longleftrightarrow> (\<exists>k < 6. off = 8 * k)"

lemma env_offsets: "env_offset 0" "env_offset 8" "env_offset 16" "env_offset 24" "env_offset 32" "env_offset 40"
  unfolding env_offset_def by presburger+

lemma new_env_result:
  assumes wf: "env_wf al m" and mk: "\<And>mem'. ev_mem m \<subseteq>\<^sub>m mem' \<Longrightarrow> mk mem' = Inr ws"
    and offs: "\<forall>w \<in> set ws. env_offset (fst w)"
  obtains p al' m' where "new_env mk al m = Inr (p, al', m')" and "env_wf al' m'"
    and "al_steps al al'" and "ev_mem m \<subseteq>\<^sub>m ev_mem m'" and "nn_env_live m' = nn_env_live m"
    and "p \<noteq> NULL \<longrightarrow> (\<exists>b off mem'. p = Ptr b off \<and> ev_mem m' = set_words b off ws mem' \<and>
      (\<forall>k < 6. mem' (b, off + 8 * k) = Some NULL) \<and> (\<forall>k < 6. (b, off + 8 * k) \<notin> dom (ev_mem m)))"
    and "al_ok al = (\<lambda>_ _. True) \<and> nn_env_live m \<longrightarrow> p \<noteq> NULL"
proof -
  obtain p al' m' where a: "nn_env_alloc_raw sizeof_env al m = (p, al', m')" "env_wf al' m'"
    "al_steps al al'" "nn_env_live m' = nn_env_live m" "p = NULL \<longrightarrow> m' = m"
    "p \<noteq> NULL \<longrightarrow> granted (ev_mem m) (ev_mem m') p ((unat sizeof_env + 7) div 8)"
    "al_ok al = (\<lambda>_ _. True) \<and> nn_env_live m \<and> unat sizeof_env \<le> 4294967288 \<longrightarrow> p \<noteq> NULL"
    by (rule alloc_raw_result [OF wf])
  show ?thesis
  proof (cases "p = NULL")
    case True
    then have "new_env mk al m = Inr (NULL, al', m')" using a(1) by (simp add: new_env_def)
    then show ?thesis by (rule that) (use a True in simp_all)
  next
    case False
    then have g: "granted (ev_mem m) (ev_mem m') p 6" using a(6) by simp
    then obtain b off where p: "p = Ptr b off" "\<forall>o'. (b, o') \<in> dom (ev_mem m) \<longrightarrow> o' + 8 \<le> off"
      "ev_mem m' = zero_words b off 6 (ev_mem m)" by (auto simp: granted_def)
    have le: "ev_mem m \<subseteq>\<^sub>m ev_mem m'" using g by (rule granted_le)
    have z: "\<forall>k < 6. ev_mem m' (b, off + 8 * k) = Some NULL" by (simp add: p(3) zero_words_at)
    have new: "(b, off + 8 * k) \<notin> dom (ev_mem m)" for k using p(2) by fastforce
    have dw: "\<forall>w \<in> set ws. (b, off + fst w) \<in> dom (ev_mem m')"
      using offs z unfolding env_offset_def by fastforce
    let ?mem2 = "set_words b off ws (ev_mem m')"
    have call: "new_env mk al m = Inr (p, al', m'\<lparr>ev_mem := ?mem2\<rparr>)"
      using a(1) False mk [OF le] write_words_set [OF dw] p(1) by (simp add: new_env_def)
    have le2: "ev_mem m \<subseteq>\<^sub>m ?mem2" unfolding map_le_def
    proof
      fix x assume x: "x \<in> dom (ev_mem m)"
      then have "x \<notin> (\<lambda>w. (b, off + fst w)) ` set ws"
        using offs new unfolding env_offset_def by fastforce
      then have "?mem2 x = ev_mem m' x" by (rule set_words_other)
      then show "ev_mem m x = ?mem2 x" using le x unfolding map_le_def by metis
    qed
    have wf2: "env_wf al' (m'\<lparr>ev_mem := ?mem2\<rparr>)"
      by (rule env_wf_new_words [OF a(2) le2 set_words_dom [OF dw]]) (use wf in \<open>simp add: env_wf_def\<close>)
    show ?thesis
      by (rule that [OF call wf2 a(3)]) (use le2 z new p(1) a(4) False in \<open>auto simp: nn_env_live_def\<close>)
  qed
qed

subsection \<open>Constructors\<close>

text \<open>A constructor's outcome: an environment that represents \<open>e\<close>, or NULL, and in both cases
  everything that was in memory is still there.\<close>

definition env_made :: "allocator \<Rightarrow> env_mod \<Rightarrow> aenv \<Rightarrow> (val \<times> allocator \<times> env_mod) c_res \<Rightarrow> bool" where
  "env_made al m e res \<longleftrightarrow> (\<exists>p al' m'. res = Inr (p, al', m') \<and> env_wf al' m' \<and> al_steps al al' \<and>
     ev_mem m \<subseteq>\<^sub>m ev_mem m' \<and> nn_env_live m' = nn_env_live m \<and> (p \<noteq> NULL \<longrightarrow> env_at (ev_mem m') p e) \<and>
     (al_ok al = (\<lambda>_ _. True) \<and> nn_env_live m \<longrightarrow> p \<noteq> NULL))"

text \<open>Where the parent pointer and the parent environment agree.\<close>

definition aenv_of :: "memory \<Rightarrow> val \<Rightarrow> val list \<Rightarrow> val \<Rightarrow> val list \<Rightarrow> aenv \<Rightarrow> bool" where
  "aenv_of mem par sl lz ws e \<longleftrightarrow> (case e of
     Root sl' lz' ws' \<Rightarrow> par = NULL \<and> sl' = sl \<and> lz' = lz \<and> ws' = ws
   | Child sl' lz' e' ws' \<Rightarrow> par \<noteq> NULL \<and> env_at mem par e' \<and> sl' = sl \<and> lz' = lz \<and> ws' = ws)"

lemma env_at_fields_iff: "fields_at mem p sl lz par ws \<Longrightarrow> aenv_of mem par sl lz ws e \<Longrightarrow> env_at mem p e"
  by (cases e) (auto simp: aenv_of_def)

lemma aenv_of_mono: "mem \<subseteq>\<^sub>m mem' \<Longrightarrow> aenv_of mem par sl lz ws e \<Longrightarrow> aenv_of mem' par sl lz ws e"
  by (cases e) (auto simp: aenv_of_def intro: env_at_mono)

lemma new_env_fields:
  assumes wf: "env_wf al m"
    and mk: "\<And>mem'. ev_mem m \<subseteq>\<^sub>m mem' \<Longrightarrow> mk mem' = Inr [(0, sp), (8, Raw (of_nat (length sl))), (16, lz),
      (24, par), (32, wp), (40, Raw (of_nat (length ws)))]"
    and sl: "array_at (ev_mem m) sp sl" "length sl < 2 ^ 32"
    and ws: "array_at (ev_mem m) wp ws" "length ws < 2 ^ 32" "ws \<noteq> [] \<longrightarrow> wp \<noteq> NULL"
    and e: "aenv_of (ev_mem m) par sl lz ws e"
  obtains p al' m' where "new_env mk al m = Inr (p, al', m')" and "env_wf al' m'"
    and "al_steps al al'" and "ev_mem m \<subseteq>\<^sub>m ev_mem m'" and "nn_env_live m' = nn_env_live m"
    and "p \<noteq> NULL \<longrightarrow> env_at (ev_mem m') p e"
    and "al_ok al = (\<lambda>_ _. True) \<and> nn_env_live m \<longrightarrow> p \<noteq> NULL"
proof -
  let ?ws = "[(0, sp), (8, Raw (of_nat (length sl))), (16, lz), (24, par), (32, wp),
    (40, Raw (of_nat (length ws)))]"
  have offs: "\<forall>w \<in> set ?ws. env_offset (fst w)" using env_offsets by simp
  obtain p al' m' where n: "new_env mk al m = Inr (p, al', m')" "env_wf al' m'" "al_steps al al'"
    "ev_mem m \<subseteq>\<^sub>m ev_mem m'" "nn_env_live m' = nn_env_live m"
    "p \<noteq> NULL \<longrightarrow> (\<exists>b off mem'. p = Ptr b off \<and> ev_mem m' = set_words b off ?ws mem' \<and>
      (\<forall>k < 6. mem' (b, off + 8 * k) = Some NULL) \<and> (\<forall>k < 6. (b, off + 8 * k) \<notin> dom (ev_mem m)))"
    "al_ok al = (\<lambda>_ _. True) \<and> nn_env_live m \<longrightarrow> p \<noteq> NULL"
    by (rule new_env_result [OF wf mk offs])
  have "env_at (ev_mem m') p e" if nz: "p \<noteq> NULL"
  proof -
    obtain b off mem' where p: "p = Ptr b off" "ev_mem m' = set_words b off ?ws mem'"
      using n(6) nz by blast
    have r: "read_word (ev_mem m') p 0 = Inr sp" "read_word (ev_mem m') p 8 = Inr (Raw (of_nat (length sl)))"
      "read_word (ev_mem m') p 16 = Inr lz" "read_word (ev_mem m') p 24 = Inr par"
      "read_word (ev_mem m') p 32 = Inr wp" "read_word (ev_mem m') p 40 = Inr (Raw (of_nat (length ws)))"
      by (simp_all add: p read_word_def set_words_def)
    have "fields_at (ev_mem m') p sl lz par ws"
      unfolding fields_at_def using r nz sl(2) ws(2,3) array_at_mono [OF n(4)] sl(1) ws(1) by blast
    then show ?thesis using aenv_of_mono [OF n(4) e] by (rule env_at_fields_iff)
  qed
  with that n show ?thesis by blast
qed

text \<open>Copying the with-scopes of the base behind the new one.\<close>

lemma copy_words_result:
  assumes "mem0 \<subseteq>\<^sub>m mem" and "\<forall>i < n. read_word mem0 src (so + 8 * i) = Inr (f i)"
    and "\<forall>i < n. (b, off + dof + 8 * i) \<in> dom mem - dom mem0"
  shows "\<exists>mem'. copy_words mem src so (Ptr b off) dof n = Inr mem' \<and> mem0 \<subseteq>\<^sub>m mem' \<and> dom mem' = dom mem \<and>
    (\<forall>i < n. mem' (b, off + dof + 8 * i) = Some (f i)) \<and>
    (\<forall>o' < off + dof. mem' (b, o') = mem (b, o'))"
  using assms
proof (induction n arbitrary: mem so dof f)
  case 0
  then show ?case by simp
next
  case (Suc n)
  have "read_word mem0 src (so + 8 * 0) = Inr (f 0)" using Suc.prems(2) by blast
  then have r: "read_word mem src so = Inr (f 0)" using read_word_mono [OF Suc.prems(1)] by simp
  have "(b, off + dof + 8 * 0) \<in> dom mem - dom mem0" using Suc.prems(3) by blast
  then obtain y where y: "mem (b, off + dof) = Some y" "(b, off + dof) \<notin> dom mem0" by auto
  let ?mem1 = "mem((b, off + dof) \<mapsto> f 0)"
  have w: "write_word mem (Ptr b off) dof (f 0) = Inr ?mem1" using y by (simp add: write_word_def)
  have d: "dom ?mem1 = dom mem" using y by auto
  have "mem0 \<subseteq>\<^sub>m ?mem1" using Suc.prems(1) y(2) by (auto simp: map_le_def)
  moreover have "\<forall>i < n. read_word mem0 src (so + 8 + 8 * i) = Inr (f (Suc i))"
  proof (intro allI impI)
    fix i assume "i < n"
    then have "read_word mem0 src (so + 8 * Suc i) = Inr (f (Suc i))" using Suc.prems(2) by blast
    then show "read_word mem0 src (so + 8 + 8 * i) = Inr (f (Suc i))" by (simp add: algebra_simps)
  qed
  moreover have "\<forall>i < n. (b, off + (dof + 8) + 8 * i) \<in> dom ?mem1 - dom mem0"
  proof (intro allI impI)
    fix i assume "i < n"
    then have "(b, off + dof + 8 * Suc i) \<in> dom mem - dom mem0" using Suc.prems(3) by blast
    then show "(b, off + (dof + 8) + 8 * i) \<in> dom ?mem1 - dom mem0"
      unfolding d by (simp add: algebra_simps)
  qed
  ultimately have "\<exists>mem'. copy_words ?mem1 src (so + 8) (Ptr b off) (dof + 8) n = Inr mem' \<and>
      mem0 \<subseteq>\<^sub>m mem' \<and> dom mem' = dom ?mem1 \<and>
      (\<forall>i < n. mem' (b, off + (dof + 8) + 8 * i) = Some (f (Suc i))) \<and>
      (\<forall>o' < off + (dof + 8). mem' (b, o') = ?mem1 (b, o'))"
    by (rule Suc.IH)
  then obtain mem' where m: "copy_words ?mem1 src (so + 8) (Ptr b off) (dof + 8) n = Inr mem'"
    "mem0 \<subseteq>\<^sub>m mem'" "dom mem' = dom ?mem1" "\<forall>i < n. mem' (b, off + (dof + 8) + 8 * i) = Some (f (Suc i))"
    "\<forall>o' < off + (dof + 8). mem' (b, o') = ?mem1 (b, o')"
    by blast
  have "mem' (b, off + dof + 8 * i) = Some (f i)" if "i < Suc n" for i
  proof (cases i)
    case 0
    then show ?thesis using m(5) by simp
  next
    case (Suc k)
    then have "mem' (b, off + (dof + 8) + 8 * k) = Some (f (Suc k))" using m(4) that by simp
    then show ?thesis using Suc by (simp add: algebra_simps)
  qed
  moreover have "\<forall>o' < off + dof. mem' (b, o') = mem (b, o')" using m(5) by simp
  ultimately show ?case using r w m(1-3) d by simp
qed

text \<open>The new array of with-scopes, before the environment is allocated.\<close>

lemma push_array:
  assumes wf: "env_wf al m" and ws: "array_at (ev_mem m) wp ws" "length ws < 2 ^ 32 - 1"
    and a: "nn_env_alloc_with_scopes (of_nat (length ws) + 1) al m = (p, al1, m1)" "p \<noteq> NULL"
  obtains mem1 mem2 where "write_word (ev_mem m1) p 0 sc = Inr mem1" and "ev_mem m \<subseteq>\<^sub>m mem1"
    and "copy_words mem1 wp 0 p 8 (length ws) = Inr mem2"
    and "env_wf al1 (m1\<lparr>ev_mem := mem2\<rparr>)" and "ev_mem m \<subseteq>\<^sub>m mem2" and "array_at mem2 p (sc # ws)"
    and "ws = [] \<longrightarrow> mem2 = mem1"
proof -
  have n: "unat (of_nat (length ws) + 1 :: u32) = Suc (length ws)"
    using ws(2) unat_of_nat_u32 [of "Suc (length ws)"] by (simp add: add.commute)
  note a1 = a(1) [unfolded with_scopes_same]
  have g: "granted (ev_mem m) (ev_mem m1) p (Suc (length ws))"
    using slots.alloc_granted [OF wf a1 a(2)] unfolding n .
  have wf1: "env_wf al1 m1" by (rule slots.alloc_inv [OF wf a1])
  from g obtain b off where p: "p = Ptr b off" "\<forall>o'. (b, o') \<in> dom (ev_mem m) \<longrightarrow> o' + 8 \<le> off"
    "ev_mem m1 = zero_words b off (Suc (length ws)) (ev_mem m)" by (auto simp: granted_def)
  have le: "ev_mem m \<subseteq>\<^sub>m ev_mem m1" using g by (rule granted_le)
  have z: "ev_mem m1 (b, off + 8 * k) = Some NULL" if "k < Suc (length ws)" for k
    using that by (simp add: p(3) zero_words_at)
  have new: "(b, off + k) \<notin> dom (ev_mem m)" for k using p(2) by fastforce
  let ?mem1 = "(ev_mem m1)((b, off) \<mapsto> sc)"
  have z0: "ev_mem m1 (b, off) = Some NULL" using z [of 0] by simp
  then have w: "write_word (ev_mem m1) p 0 sc = Inr ?mem1" by (simp add: p(1) write_word_def)
  have le1: "ev_mem m \<subseteq>\<^sub>m ?mem1" using le new [of 0] by (auto simp: map_le_def)
  have d1: "dom ?mem1 = dom (ev_mem m1)" using z0 by auto
  have "\<forall>i < length ws. (b, off + 8 + 8 * i) \<in> dom ?mem1 - dom (ev_mem m)"
    unfolding d1 using z [of "Suc _"] new by (auto simp: domIff add.assoc)
  moreover have "\<forall>i < length ws. read_word (ev_mem m) wp (0 + 8 * i) = Inr (ws ! i)"
    using ws(1) by (simp add: array_at_def)
  ultimately obtain mem2 where c: "copy_words ?mem1 wp 0 (Ptr b off) 8 (length ws) = Inr mem2"
    "ev_mem m \<subseteq>\<^sub>m mem2" "dom mem2 = dom ?mem1" "\<forall>i < length ws. mem2 (b, off + 8 + 8 * i) = Some (ws ! i)"
    "\<forall>o' < off + 8. mem2 (b, o') = ?mem1 (b, o')"
    using copy_words_result [OF le1, of "length ws" wp 0 "(!) ws" b off 8] by auto
  have "array_at mem2 p (sc # ws)"
    unfolding array_at_def
  proof (intro allI impI)
    fix i assume "i < length (sc # ws)"
    then show "read_word mem2 p (8 * i) = Inr ((sc # ws) ! i)"
      using c(4,5) by (cases i) (simp_all add: p(1) read_word_def add.assoc)
  qed
  moreover have "env_wf al1 (m1\<lparr>ev_mem := mem2\<rparr>)"
    by (rule env_wf_new_words [OF wf1 c(2)]) (use c(3) d1 wf in \<open>simp_all add: env_wf_def\<close>)
  moreover have "ws = [] \<longrightarrow> mem2 = ?mem1" using c(1) by auto
  ultimately show ?thesis
    using that [OF w le1 c(1) [folded p(1)] _ c(2)] by blast
qed

lemma push_with_result:
  assumes wf: "env_wf al m" and e: "env_at (ev_mem m) base e"
  obtains p al' m' where "nn_env_push_with base sc al m = Inr (p, al', m')" and "env_wf al' m'"
    and "al_steps al al'" and "ev_mem m \<subseteq>\<^sub>m ev_mem m'" and "nn_env_live m' = nn_env_live m"
    and "p \<noteq> NULL \<longrightarrow> env_at (ev_mem m') p (ae_push sc e)"
    and "al_ok al = (\<lambda>_ _. True) \<and> nn_env_live m \<and> 8 * (length (ae_withs e) + 1) \<le> 4294967288 \<longrightarrow> p \<noteq> NULL"
proof -
  obtain lz par where f: "fields_at (ev_mem m) base (ae_slots e) lz par (ae_withs e)"
    "aenv_of (ev_mem m) par (ae_slots e) lz (sc # ae_withs e) (ae_push sc e)"
    using e by (cases e) (auto simp: aenv_of_def)
  note fr = fields_at_reads [OF f(1)]
  let ?ws = "ae_withs e" and ?wc = "of_nat (length (ae_withs e)) :: u32"
  obtain sp wp where sp: "nn_env_slots (ev_mem m) base = Inr sp" "array_at (ev_mem m) sp (ae_slots e)"
    and wp: "nn_env_with_scopes (ev_mem m) base = Inr wp" "array_at (ev_mem m) wp ?ws" "?ws \<noteq> [] \<longrightarrow> wp \<noteq> NULL"
    using fr(5,6) by blast
  have len: "length (ae_slots e) < 2 ^ 32" "length ?ws < 2 ^ 32" using f(1) by (simp_all add: fields_at_def)
  have wcu: "unat ?wc = length ?ws" using len(2) by (rule unat_of_nat_u32)
  show ?thesis
  proof (cases "?wc = UINT32_MAX")
    case True
    then have "length ?ws = 4294967295" using wcu by simp
    then show ?thesis using that [of NULL al m] fr(2) True wf by (simp add: nn_env_push_with_def)
  next
    case False
    then have ws_len: "length ?ws < 2 ^ 32 - 1" using wcu len(2) by (auto simp: word_unat_eq_iff)
    obtain nw al1 m1 where a: "nn_env_alloc_with_scopes (?wc + 1) al m = (nw, al1, m1)" by (metis prod_cases3)
    note a' = a [unfolded with_scopes_same]
    have n1: "unat (?wc + 1) = Suc (length ?ws)" using ws_len wcu unat_Suc_u32 [of ?wc] by simp
    obtain q al2 m2 where r: "nn_env_alloc_slots (?wc + 1) al m = (q, al2, m2)" "env_wf al2 m2" "al_steps al al2"
      "nn_env_live m2 = nn_env_live m" "q = NULL \<longrightarrow> m2 = m"
      "al_ok al = (\<lambda>_ _. True) \<and> nn_env_live m \<and> 0 < unat (?wc + 1) \<and> 8 * unat (?wc + 1) \<le> 4294967288 \<longrightarrow> q \<noteq> NULL"
      by (rule alloc_slots_result [OF wf])
    have eq: "q = nw" "al2 = al1" "m2 = m1" using a' r(1) by simp_all
    note st = r(2-6) [unfolded eq]
    show ?thesis
    proof (cases "nw = NULL")
      case True
      with a fr(2) False st show ?thesis
        using that [of NULL al1 m1] n1 by (simp add: nn_env_push_with_def)
    next
      case nz: False
      obtain mem1 mem2 where c: "write_word (ev_mem m1) nw 0 sc = Inr mem1" "ev_mem m \<subseteq>\<^sub>m mem1"
        "copy_words mem1 wp 0 nw 8 (length ?ws) = Inr mem2" "env_wf al1 (m1\<lparr>ev_mem := mem2\<rparr>)"
        "ev_mem m \<subseteq>\<^sub>m mem2" "array_at mem2 nw (sc # ?ws)" "?ws = [] \<longrightarrow> mem2 = mem1"
        by (rule push_array [OF wf wp(2) ws_len a nz])
      have cp: "(if ?wc > 0 \<and> wp \<noteq> NULL then copy_words mem1 wp 0 nw 8 (unat ?wc) else Inr mem1) = Inr mem2"
        using c(3,7) wcu wp(3) by (cases "?ws = []") (auto simp: word_gt_0 word_unat_eq_iff)
      have rd: "fields_at mem' base (ae_slots e) lz par ?ws" if "ev_mem m \<subseteq>\<^sub>m mem'" for mem'
        using that f(1) by (rule fields_at_mono)
      let ?mk = "\<lambda>mem. res_bind (nn_env_slots mem base) (\<lambda>slots. res_bind (nn_env_slot_count mem base)
        (\<lambda>slot_count. res_bind (nn_env_lazy_scope mem base) (\<lambda>lazy_scope. res_bind (nn_env_parent mem base)
        (\<lambda>parent. Inr [(0, slots), (8, Raw (ucast slot_count)), (16, lazy_scope), (24, parent), (32, nw),
          (40, Raw (ucast (?wc + 1)))]))))"
      have wsp: "nn_env_with_scopes mem1 base = Inr wp" "\<And>mem'. ev_mem m \<subseteq>\<^sub>m mem' \<Longrightarrow> nn_env_slots mem' base = Inr sp"
        using wp(1) sp(1) c(2) read_word_mono by (auto simp: nn_env_with_scopes_def nn_env_slots_def)
      have call: "nn_env_push_with base sc al m = new_env ?mk al1 (m1\<lparr>ev_mem := mem2\<rparr>)"
        unfolding nn_env_push_with_def using fr(2) False a nz c(1) wsp(1) cp by simp
      have mk: "?mk mem' = Inr [(0, sp), (8, Raw (of_nat (length (ae_slots e)))), (16, lz), (24, par), (32, nw),
          (40, Raw (of_nat (length (sc # ?ws))))]" if "ev_mem (m1\<lparr>ev_mem := mem2\<rparr>) \<subseteq>\<^sub>m mem'" for mem'
      proof -
        have le: "ev_mem m \<subseteq>\<^sub>m mem'" using c(5) that by (simp add: map_le_trans)
        have "(ucast (?wc + 1) :: u64) = of_nat (length (sc # ?ws))"
          using ucast_of_nat_up [of "Suc (length ?ws)"] ws_len by (simp add: add.commute)
        then show ?thesis
          using fields_at_reads(1,3,4) [OF rd [OF le]] wsp(2) [OF le] ucast_of_nat_up [OF len(1)] by simp
      qed
      have arr: "array_at (ev_mem (m1\<lparr>ev_mem := mem2\<rparr>)) sp (ae_slots e)"
        "array_at (ev_mem (m1\<lparr>ev_mem := mem2\<rparr>)) nw (sc # ?ws)"
        "aenv_of (ev_mem (m1\<lparr>ev_mem := mem2\<rparr>)) par (ae_slots e) lz (sc # ?ws) (ae_push sc e)"
        using array_at_mono [OF c(5) sp(2)] c(6) aenv_of_mono [OF c(5) f(2)] by simp_all
      have ws1: "length (sc # ?ws) < 2 ^ 32" "sc # ?ws \<noteq> [] \<longrightarrow> nw \<noteq> NULL" using ws_len nz by simp_all
      obtain p al' m' where n: "new_env ?mk al1 (m1\<lparr>ev_mem := mem2\<rparr>) = Inr (p, al', m')" "env_wf al' m'"
        "al_steps al1 al'" "ev_mem (m1\<lparr>ev_mem := mem2\<rparr>) \<subseteq>\<^sub>m ev_mem m'"
        "nn_env_live m' = nn_env_live (m1\<lparr>ev_mem := mem2\<rparr>)"
        "p \<noteq> NULL \<longrightarrow> env_at (ev_mem m') p (ae_push sc e)"
        "al_ok al1 = (\<lambda>_ _. True) \<and> nn_env_live (m1\<lparr>ev_mem := mem2\<rparr>) \<longrightarrow> p \<noteq> NULL"
        by (rule new_env_fields [OF c(4) mk arr(1) len(1) arr(2) ws1 arr(3)])
      show ?thesis
        by (rule that [OF call [unfolded n(1)] n(2) al_steps_trans [OF st(2) n(3)] _ _ n(6)])
          (use c(5) n(4,5,7) st in \<open>auto simp: nn_env_live_def al_steps_def intro: map_le_trans\<close>)
    qed
  qed
qed

end
