(* ===== verification/Nova_Env_Spec.thy ===== *)
theory Nova_Env_Spec
  imports Nova_Env_Make
begin

section \<open>What environments promise\<close>

text \<open>
  A live module serves arrays and environments that are new, aligned and zeroed, and never touches
  a word it handed out before; each constructor's result represents the abstract environment its
  header comment describes, and the lookups agree with the abstract ones.
\<close>

subsection \<open>A small live module\<close>

definition env_demo :: env_mod where
  "env_demo = \<lparr>ev_pages = [\<lparr>ep_blk = 1, ep_used = 0, ep_capacity = 262144\<rparr>], ev_total = 0,
     ev_mem = zero_words 0 0 6 Map.empty\<rparr>"

lemma env_demo_wf: "env_wf al_all env_demo"
proof -
  have "o' + 8 \<le> 48" if "o' < 48" "8 dvd o'" for o' :: nat
    using that by presburger
  then show ?thesis
    by (auto simp: env_wf_def env_demo_def al_all_def page_wf_def word_owned_def zero_words_def
        mod_eq_0_iff_dvd split: if_splits)
qed

lemma env_demo_live: "nn_env_live env_demo" "al_ok al_all = (\<lambda>_ _. True)"
  by (simp_all add: env_demo_def nn_env_live_def al_all_def)

text \<open>The shared empty environment is there in every module, live or not.\<close>

lemma env_at_empty: "env_wf al m \<Longrightarrow> env_at (ev_mem m) nn_env_empty (Root [] NULL [])"
proof -
  assume "env_wf al m"
  then have z: "\<forall>k < 6. ev_mem m (0, 8 * k) = Some NULL" by (simp add: env_wf_def)
  have "ev_mem m (0, 0) = Some NULL" "ev_mem m (0, 8) = Some NULL" "ev_mem m (0, 16) = Some NULL"
    "ev_mem m (0, 24) = Some NULL" "ev_mem m (0, 32) = Some NULL" "ev_mem m (0, 40) = Some NULL"
    using z [rule_format, of 0] z [rule_format, of 1] z [rule_format, of 2] z [rule_format, of 3]
      z [rule_format, of 4] z [rule_format, of 5] by simp_all
  then show ?thesis by (simp add: fields_at_def nn_env_empty_def read_word_def)
qed

subsection \<open>Allocation\<close>

lemma alloc_raw_total:
  "nn_env_alloc_raw bytes al m = (p, al', m') \<Longrightarrow> p \<noteq> NULL \<Longrightarrow>
    ev_total m' = ev_total m + ucast (align_up bytes NN_ENV_ALIGN)"
  by (auto simp: nn_env_alloc_raw_def Let_def split: if_splits prod.splits)

lemma alloc_slots_total:
  assumes "nn_env_alloc_slots n al m = (p, al', m')" and nz: "p \<noteq> NULL"
    and small: "8 * unat n \<le> 4294967288"
  shows "nn_env_bytes_allocated m' = nn_env_bytes_allocated m + 8 * ucast n"
proof -
  let ?b = "ucast ((ucast n :: u64) * 8) :: u32"
  have m8: "unat ((ucast n :: u64) * 8) = 8 * unat n" by (rule unat_times_8)
  have b: "unat ?b = 8 * unat n" using m8 small by (subst unat_ucast_32) simp_all
  have "nn_env_alloc_raw ?b al m = (p, al', m')"
    using assms(1) nz by (auto simp: nn_env_alloc_slots_def Let_def split: if_splits)
  then have t: "ev_total m' = ev_total m + ucast (align_up ?b NN_ENV_ALIGN)" using nz by (rule alloc_raw_total)
  have "unat (align_up ?b NN_ENV_ALIGN) = 8 * ((unat ?b + 7) div 8)" using small b by (intro align_up_8) simp
  also have "\<dots> = 8 * unat n" unfolding b by simp
  finally have "(ucast (align_up ?b NN_ENV_ALIGN) :: u64) = ucast n * 8"
    using m8 by (simp only: word_unat_eq_iff unat_ucast_64)
  with t show ?thesis by (simp add: nn_env_bytes_allocated_def mult.commute)
qed

lemma env_alloc_keeps:
  assumes "env_wf al m" and "nn_env_alloc_slots n al m = (p, al', m')"
  shows "env_wf al' m'" and "ev_mem m \<subseteq>\<^sub>m ev_mem m'" and "nn_env_live m' = nn_env_live m"
proof -
  show "env_wf al' m'" by (rule slots.alloc_inv [OF assms])
  show "ev_mem m \<subseteq>\<^sub>m ev_mem m'" by (rule slots.alloc_keeps [OF assms])
  obtain p1 al1 m1 where "nn_env_alloc_slots n al m = (p1, al1, m1)" "nn_env_live m1 = nn_env_live m"
    by (rule alloc_slots_result [OF assms(1)])
  with assms(2) show "nn_env_live m' = nn_env_live m" by simp
qed

text \<open>C30: nn_env_alloc_slots answers an array of zeroed words, aligned and past every word of its page
  that was handed out before, and counts its bytes; it answers NULL and changes nothing when the
  module is not live, the count is 0 or its bytes do not fit the guarded 32-bit size, or the C
  allocator refuses a page. Nothing that was in memory changes.\<close>

theorem env_alloc_grants:
  assumes "env_wf al m" and "nn_env_alloc_slots n al m = (p, al', m')"
  shows "env_wf al' m' \<and> ev_mem m \<subseteq>\<^sub>m ev_mem m' \<and> nn_env_live m' = nn_env_live m \<and>
    (p = NULL \<longrightarrow> m' = m) \<and>
    (p \<noteq> NULL \<longrightarrow> granted (ev_mem m) (ev_mem m') p (unat n) \<and>
       nn_env_bytes_allocated m' = nn_env_bytes_allocated m + 8 * ucast n \<and>
       nn_env_live m \<and> 0 < unat n \<and> 8 * unat n \<le> 4294967288) \<and>
    (al_ok al = (\<lambda>_ _. True) \<and> nn_env_live m \<and> 0 < unat n \<and> 8 * unat n \<le> 4294967288 \<longrightarrow> p \<noteq> NULL)"
proof -
  obtain p1 al1 m1 where r: "nn_env_alloc_slots n al m = (p1, al1, m1)" "env_wf al1 m1"
    "nn_env_live m1 = nn_env_live m" "p1 = NULL \<longrightarrow> m1 = m"
    "p1 \<noteq> NULL \<longrightarrow> granted (ev_mem m) (ev_mem m1) p1 (unat n)"
    "al_ok al = (\<lambda>_ _. True) \<and> nn_env_live m \<and> 0 < unat n \<and> 8 * unat n \<le> 4294967288 \<longrightarrow> p1 \<noteq> NULL"
    "p1 \<noteq> NULL \<longrightarrow> nn_env_live m \<and> 0 < unat n \<and> 8 * unat n \<le> 4294967288"
    by (rule alloc_slots_result [OF assms(1)])
  have "ev_mem m \<subseteq>\<^sub>m ev_mem m'" by (rule slots.alloc_keeps [OF assms])
  moreover have eq: "p1 = p" "al1 = al'" "m1 = m'" using r(1) assms(2) by simp_all
  ultimately show ?thesis using r(2-7) [unfolded eq] alloc_slots_total [OF assms(2)] by blast
qed

theorem env_alloc_grants_witness:
  "case nn_env_alloc_slots 3 al_all env_demo of (p, al', m') \<Rightarrow> p \<noteq> NULL \<and>
     granted (ev_mem env_demo) (ev_mem m') p 3 \<and> nn_env_bytes_allocated m' = 24"
  using env_alloc_grants [OF env_demo_wf, of 3] env_demo_live
  by (cases "nn_env_alloc_slots 3 al_all env_demo")
    (simp add: nn_env_bytes_allocated_def env_demo_def)

subsection \<open>Constructors\<close>

lemma env_madeI:
  assumes "res = Inr (p, al', m')" and "env_wf al' m'" and "al_steps al al'" and "ev_mem m \<subseteq>\<^sub>m ev_mem m'"
    and "nn_env_live m' = nn_env_live m" and "p \<noteq> NULL \<longrightarrow> env_at (ev_mem m') p e"
    and "al_ok al = (\<lambda>_ _. True) \<and> nn_env_live m \<longrightarrow> p \<noteq> NULL"
  shows "env_made al m e res"
  using assms unfolding env_made_def by blast

lemma made_minimal:
  assumes wf: "env_wf al m" and sl: "array_at (ev_mem m) sp sl" "length sl < 2 ^ 32"
  shows "env_made al m (Root sl NULL []) (nn_env_new_minimal sp (of_nat (length sl)) al m)"
proof -
  let ?ws = "[(0, sp), (8, Raw (of_nat (length sl)))]"
  have offs: "\<forall>w \<in> set ?ws. env_offset (fst w)" using env_offsets by simp
  obtain p al' m' where n: "new_env (\<lambda>_. Inr ?ws) al m = Inr (p, al', m')" "env_wf al' m'" "al_steps al al'"
    "ev_mem m \<subseteq>\<^sub>m ev_mem m'" "nn_env_live m' = nn_env_live m"
    "p \<noteq> NULL \<longrightarrow> (\<exists>b off mem'. p = Ptr b off \<and> ev_mem m' = set_words b off ?ws mem' \<and>
      (\<forall>k < 6. mem' (b, off + 8 * k) = Some NULL) \<and> (\<forall>k < 6. (b, off + 8 * k) \<notin> dom (ev_mem m)))"
    "al_ok al = (\<lambda>_ _. True) \<and> nn_env_live m \<longrightarrow> p \<noteq> NULL"
    by (rule new_env_result [OF wf _ offs]) simp
  have "env_at (ev_mem m') p (Root sl NULL [])" if nz: "p \<noteq> NULL"
  proof -
    obtain b off mem' where p: "p = Ptr b off" "ev_mem m' = set_words b off ?ws mem'"
      "\<forall>k < 6. mem' (b, off + 8 * k) = Some NULL" using n(6) nz by blast
    have z: "mem' (b, off + 16) = Some NULL" "mem' (b, off + 24) = Some NULL"
      "mem' (b, off + 32) = Some NULL" "mem' (b, off + 40) = Some NULL"
      using p(3) [rule_format, of 2] p(3) [rule_format, of 3] p(3) [rule_format, of 4]
        p(3) [rule_format, of 5] by simp_all
    have "array_at (ev_mem m') sp sl" using n(4) sl(1) by (rule array_at_mono)
    moreover have "read_word (ev_mem m') p 0 = Inr sp" "read_word (ev_mem m') p 8 = Inr (Raw (of_nat (length sl)))"
      "read_word (ev_mem m') p 16 = Inr NULL" "read_word (ev_mem m') p 24 = Inr NULL"
      "read_word (ev_mem m') p 32 = Inr NULL" "read_word (ev_mem m') p 40 = Inr (Raw 0)"
      using z by (simp_all add: p(1,2) read_word_def set_words_def)
    ultimately show ?thesis using sl(2) nz by (auto simp: fields_at_def)
  qed
  then have "p \<noteq> NULL \<longrightarrow> env_at (ev_mem m') p (Root sl NULL [])" by blast
  moreover have "nn_env_new_minimal sp (of_nat (length sl)) al m = Inr (p, al', m')"
    using n(1) ucast_of_nat_up [OF sl(2)] by (simp add: nn_env_new_minimal_def)
  ultimately show ?thesis by (intro env_madeI [OF _ n(2-5) _ n(7)])
qed

lemma made_new:
  assumes wf: "env_wf al m" and sl: "array_at (ev_mem m) sp sl" "length sl < 2 ^ 32"
    and ws: "array_at (ev_mem m) wp ws" "length ws < 2 ^ 32" "ws \<noteq> [] \<longrightarrow> wp \<noteq> NULL"
    and e: "aenv_of (ev_mem m) par sl lz ws e"
  shows "env_made al m e (nn_env_new sp (of_nat (length sl)) lz par wp (of_nat (length ws)) al m)"
proof -
  let ?mk = "\<lambda>_ :: memory. Inr [(0, sp), (8, Raw (ucast (of_nat (length sl) :: u32))), (16, lz), (24, par),
    (32, wp), (40, Raw (ucast (of_nat (length ws) :: u32)))] :: (nat \<times> val) list c_res"
  obtain p al' m' where n: "new_env ?mk al m = Inr (p, al', m')" "env_wf al' m'" "al_steps al al'"
    "ev_mem m \<subseteq>\<^sub>m ev_mem m'" "nn_env_live m' = nn_env_live m" "p \<noteq> NULL \<longrightarrow> env_at (ev_mem m') p e"
    "al_ok al = (\<lambda>_ _. True) \<and> nn_env_live m \<longrightarrow> p \<noteq> NULL"
    by (rule new_env_fields [OF wf _ sl ws e, of ?mk])
      (simp add: ucast_of_nat_up [OF sl(2)] ucast_of_nat_up [OF ws(2)])
  show ?thesis unfolding nn_env_new_def by (rule env_madeI [OF n])
qed

lemma made_from_slots:
  assumes wf: "env_wf al m" and sl: "array_at (ev_mem m) sp sl" "length sl < 2 ^ 32"
    and par: "par \<noteq> NULL" "env_at (ev_mem m) par pe"
  shows "env_made al m (Child sl NULL pe (ae_withs pe)) (nn_env_from_slots sp (of_nat (length sl)) par al m)"
proof -
  obtain lz pp where f: "fields_at (ev_mem m) par (ae_slots pe) lz pp (ae_withs pe)"
    using par(2) by (rule env_at_fields)
  obtain wp where wp: "nn_env_with_scopes (ev_mem m) par = Inr wp" "array_at (ev_mem m) wp (ae_withs pe)"
    "ae_withs pe \<noteq> [] \<longrightarrow> wp \<noteq> NULL" using fields_at_reads(6) [OF f] by blast
  have wl: "length (ae_withs pe) < 2 ^ 32" using f by (simp add: fields_at_def)
  let ?mk = "\<lambda>mem. res_bind (if par \<noteq> NULL then nn_env_with_scopes mem par else Inr NULL) (\<lambda>ws.
       res_bind (if par \<noteq> NULL then nn_env_with_count mem par else Inr 0) (\<lambda>wc.
       Inr [(0, sp), (8, Raw (ucast (of_nat (length sl) :: u32))), (16, NULL), (24, par), (32, ws),
            (40, Raw (ucast wc))]))"
  have mk: "?mk mem' = Inr [(0, sp), (8, Raw (of_nat (length sl))), (16, NULL), (24, par), (32, wp),
      (40, Raw (of_nat (length (ae_withs pe))))]" if le: "ev_mem m \<subseteq>\<^sub>m mem'" for mem'
    using par(1) fields_at_reads(2) [OF fields_at_mono [OF le f]] ucast_of_nat_up [OF wl] ucast_of_nat_up [OF sl(2)]
      read_word_mono [OF le wp(1) [unfolded nn_env_with_scopes_def]]
    by (simp add: nn_env_with_scopes_def)
  have e: "aenv_of (ev_mem m) par sl NULL (ae_withs pe) (Child sl NULL pe (ae_withs pe))"
    using par by (simp add: aenv_of_def)
  obtain p al' m' where n: "new_env ?mk al m = Inr (p, al', m')" "env_wf al' m'" "al_steps al al'"
    "ev_mem m \<subseteq>\<^sub>m ev_mem m'" "nn_env_live m' = nn_env_live m"
    "p \<noteq> NULL \<longrightarrow> env_at (ev_mem m') p (Child sl NULL pe (ae_withs pe))"
    "al_ok al = (\<lambda>_ _. True) \<and> nn_env_live m \<longrightarrow> p \<noteq> NULL"
    by (rule new_env_fields [OF wf mk sl wp(2) wl wp(3) e])
  show ?thesis unfolding nn_env_from_slots_def by (rule env_madeI [OF n])
qed

lemma made_from_slots_null:
  assumes "env_wf al m" and "array_at (ev_mem m) sp sl" "length sl < 2 ^ 32"
  shows "env_made al m (Root sl NULL []) (nn_env_from_slots sp (of_nat (length sl)) NULL al m)"
proof -
  have "nn_env_from_slots sp (of_nat (length sl)) NULL al m
      = nn_env_new sp (of_nat (length sl)) NULL NULL NULL (of_nat (length ([] :: val list))) al m"
    by (simp add: nn_env_from_slots_def nn_env_new_def)
  then show ?thesis
    using made_new [OF assms, of NULL "[]" NULL NULL "Root sl NULL []"] by (simp add: aenv_of_def)
qed

text \<open>C33: The constructors. nn_env_new represents the environment of the given parts;
  nn_env_from_slots a child that has no lazy scope and inherits the parent's with-scopes, or a root
  when there is no parent; nn_env_new_minimal a root with slots only. Each answers NULL only when the
  allocator refuses or the module is not live, and leaves every word in memory as it was.\<close>

theorem env_constructors_represent:
  assumes "env_wf al m" and "array_at (ev_mem m) sp sl" and "length sl < 2 ^ 32"
    and "array_at (ev_mem m) wp ws" and "length ws < 2 ^ 32" and "ws \<noteq> [] \<longrightarrow> wp \<noteq> NULL"
    and "par \<noteq> NULL" and "env_at (ev_mem m) par pe"
  shows "env_made al m (Root sl lz ws) (nn_env_new sp (of_nat (length sl)) lz NULL wp (of_nat (length ws)) al m) \<and>
    env_made al m (Child sl lz pe ws) (nn_env_new sp (of_nat (length sl)) lz par wp (of_nat (length ws)) al m) \<and>
    env_made al m (Child sl NULL pe (ae_withs pe)) (nn_env_from_slots sp (of_nat (length sl)) par al m) \<and>
    env_made al m (Root sl NULL []) (nn_env_from_slots sp (of_nat (length sl)) NULL al m) \<and>
    env_made al m (Root sl NULL []) (nn_env_new_minimal sp (of_nat (length sl)) al m)"
  using made_new [OF assms(1-6)] made_from_slots [OF assms(1-3,7,8)] made_from_slots_null [OF assms(1-3)]
    made_minimal [OF assms(1-3)] assms(7,8)
  by (simp add: aenv_of_def)

theorem env_constructors_represent_witness:
  "env_made al_all env_demo (Child [NULL, NULL] (Raw 7) (Root [] NULL []) [])
     (nn_env_new nn_env_empty 2 (Raw 7) nn_env_empty NULL 0 al_all env_demo)"
proof -
  have "array_at (ev_mem env_demo) nn_env_empty [NULL, NULL]"
    by (simp add: array_at_def less_Suc_eq read_word_def nn_env_empty_def env_demo_def zero_words_def)
  then show ?thesis
    using env_constructors_represent [OF env_demo_wf, of nn_env_empty "[NULL, NULL]" NULL "[]" nn_env_empty
        "Root [] NULL []" "Raw 7"] env_at_empty [OF env_demo_wf]
    by (simp add: nn_env_empty_def)
qed

text \<open>nn_env_push_with puts the scope in front of the base's with-scopes and keeps its slots, lazy
  scope and parent; the base itself is unchanged. It answers NULL only when the allocator refuses,
  the module is not live or the new count does not fit an allocation.\<close>

theorem env_push_with_refines:
  assumes "env_wf al m" and "env_at (ev_mem m) base e"
  shows "\<exists>p al' m'. nn_env_push_with base sc al m = Inr (p, al', m') \<and> env_wf al' m' \<and> al_steps al al' \<and>
    env_at (ev_mem m') base e \<and> (p \<noteq> NULL \<longrightarrow> env_at (ev_mem m') p (ae_push sc e)) \<and>
    (al_ok al = (\<lambda>_ _. True) \<and> nn_env_live m \<and> 8 * (length (ae_withs e) + 1) \<le> 4294967288 \<longrightarrow> p \<noteq> NULL)"
proof -
  obtain p al' m' where r: "nn_env_push_with base sc al m = Inr (p, al', m')" "env_wf al' m'" "al_steps al al'"
    "ev_mem m \<subseteq>\<^sub>m ev_mem m'" "nn_env_live m' = nn_env_live m"
    "p \<noteq> NULL \<longrightarrow> env_at (ev_mem m') p (ae_push sc e)"
    "al_ok al = (\<lambda>_ _. True) \<and> nn_env_live m \<and> 8 * (length (ae_withs e) + 1) \<le> 4294967288 \<longrightarrow> p \<noteq> NULL"
    by (rule push_with_result [OF assms])
  then show ?thesis using env_at_mono [OF r(4) assms(2)] by blast
qed

theorem env_push_with_refines_witness:
  "\<exists>p al' m'. nn_env_push_with nn_env_empty (Raw 7) al_all env_demo = Inr (p, al', m') \<and>
     env_at (ev_mem m') p (Root [] NULL [Raw 7])"
  using env_push_with_refines [OF env_demo_wf env_at_empty [OF env_demo_wf], of "Raw 7"] env_demo_live
  by auto

subsection \<open>Lookup\<close>

lemma unat_of_int_u32: "0 \<le> idx \<Longrightarrow> idx < 2 ^ 31 \<Longrightarrow> unat (of_int idx :: u32) = nat idx"
  by (simp add: unsigned_of_int take_bit_int_eq_self)

lemma index_in_slots:
  assumes "- (2 ^ 31) \<le> idx" and "idx < 2 ^ 31" and "n < 2 ^ 32"
  shows "(idx \<ge> 0 \<and> (of_int idx :: u32) < of_nat n) = (0 \<le> idx \<and> nat idx < n)"
  using assms unat_of_int_u32 [of idx] unat_of_nat_u32 [of n] by (auto simp: word_less_nat_alt)

text \<open>C31: nn_env_lookup_resolved reads the slot of the environment \<open>level\<close> hops up. A chain that is too
  short or an index out of bounds, which only a resolver bug gives, is an abort in a debug build and
  NULL in a release build; no lookup reads outside the slot array. Level and index are C ints.\<close>

theorem env_lookup_refines:
  assumes "env_at mem p e" and "- (2 ^ 31) \<le> idx" and "idx < 2 ^ 31"
  shows "nn_env_lookup_resolved dbg mem p level idx = (case ae_up e (nat level) of
      Some e' \<Rightarrow> if 0 \<le> idx \<and> nat idx < length (ae_slots e') then Inr (ae_slots e' ! nat idx)
        else if dbg then Inl Abort else Inr NULL
    | None \<Rightarrow> if dbg then Inl Abort else Inr NULL)"
proof -
  note walk = walk_parents_result [OF assms(1), where n = "nat level" and dbg = dbg]
  have nz: "p \<noteq> NULL" using assms(1) by (cases e) (auto simp: fields_at_def)
  show ?thesis
  proof (cases "ae_up e (nat level)")
    case None
    with walk nz show ?thesis by (cases dbg) (simp_all add: nn_env_lookup_resolved_def)
  next
    case (Some e')
    with walk obtain q where q: "walk_parents dbg mem p (nat level) = Inr q" "env_at mem q e'" by auto
    obtain lz par where f: "fields_at mem q (ae_slots e') lz par (ae_withs e')" using q(2) by (rule env_at_fields)
    then have len: "length (ae_slots e') < 2 ^ 32" and qz: "q \<noteq> NULL" by (simp_all add: fields_at_def)
    obtain sp where sp: "nn_env_slots mem q = Inr sp" "array_at mem sp (ae_slots e')"
      using fields_at_reads(5) [OF f] by blast
    note ix = index_in_slots [OF assms(2,3) len]
    have neg: "(idx < 0 \<or> (of_int idx :: u32) \<ge> of_nat (length (ae_slots e')))
        = (\<not> (0 \<le> idx \<and> nat idx < length (ae_slots e')))"
      unfolding ix [symmetric] by (simp add: not_less not_le)
    have "nn_env_lookup_resolved dbg mem p level idx =
        NN_ASSERT dbg (0 \<le> idx \<and> nat idx < length (ae_slots e'))
          (if \<not> (0 \<le> idx \<and> nat idx < length (ae_slots e')) then Inr NULL else read_word mem sp (8 * nat idx))"
      unfolding nn_env_lookup_resolved_def
      using nz q(1) qz fields_at_reads(1) [OF f] sp(1) by (simp add: ix neg)
    with sp(2) Some show ?thesis by (cases dbg) (auto simp: array_at_def)
  qed
qed

definition env_two_levels :: memory where
  "env_two_levels = (zero_words 5 0 6 (zero_words 4 0 6 Map.empty))
     ((4, 0) \<mapsto> Ptr 4 48, (4, 8) \<mapsto> Raw 1, (4, 16) \<mapsto> Raw 9, (4, 48) \<mapsto> Raw 77, (5, 24) \<mapsto> Ptr 4 0)"

lemma env_two_levels: "env_at env_two_levels (Ptr 5 0) (Child [] NULL (Root [Raw 77] (Raw 9) []) [])"
  by (auto simp: env_two_levels_def fields_at_def array_at_def read_word_def zero_words_def
      intro!: exI [of _ "Ptr 4 0"])

theorem env_lookup_refines_witness:
  "nn_env_lookup_resolved True env_two_levels (Ptr 5 0) 1 0 = Inr (Raw 77) \<and>
   nn_env_lookup_resolved True env_two_levels (Ptr 5 0) 0 0 = Inl Abort \<and>
   nn_env_lookup_resolved False env_two_levels (Ptr 5 0) 2 0 = Inr NULL"
  using env_lookup_refines [OF env_two_levels, of 0] by (simp add: numeral_2_eq_2)

text \<open>nn_env_root_scope ends for every environment and answers the lazy scope of the root of its
  parent chain; in particular the walk never reads through a pointer that is not an environment.\<close>

theorem env_root_scope_refines:
  assumes "env_at mem p e"
  shows "nn_env_root_scope mem p = Inr (ae_root_scope e)"
  using root_walk_result [OF assms] by (simp add: nn_env_root_scope_def)

theorem env_root_scope_refines_witness: "nn_env_root_scope env_two_levels (Ptr 5 0) = Inr (Raw 9)"
  using env_root_scope_refines [OF env_two_levels] by simp

subsection \<open>Runs\<close>

text \<open>One call of the allocating interface. The parent and the base a caller passes are environments.\<close>

inductive env_step :: "allocator \<times> env_mod \<Rightarrow> allocator \<times> env_mod \<Rightarrow> bool" where
  slots: "nn_env_alloc_slots n al m = (p, al', m') \<Longrightarrow> env_step (al, m) (al', m')"
| scopes: "nn_env_alloc_with_scopes n al m = (p, al', m') \<Longrightarrow> env_step (al, m) (al', m')"
| new: "nn_env_new sp n lz par wp k al m = Inr (p, al', m') \<Longrightarrow> env_step (al, m) (al', m')"
| minimal: "nn_env_new_minimal sp n al m = Inr (p, al', m') \<Longrightarrow> env_step (al, m) (al', m')"
| child: "env_at (ev_mem m) par e \<Longrightarrow> nn_env_from_slots sp n par al m = Inr (p, al', m') \<Longrightarrow>
    env_step (al, m) (al', m')"
| orphan: "nn_env_from_slots sp n NULL al m = Inr (p, al', m') \<Longrightarrow> env_step (al, m) (al', m')"
| push: "env_at (ev_mem m) base e \<Longrightarrow> nn_env_push_with base sc al m = Inr (p, al', m') \<Longrightarrow>
    env_step (al, m) (al', m')"

definition env_extends :: "allocator \<times> env_mod \<Rightarrow> allocator \<times> env_mod \<Rightarrow> bool" where
  "env_extends s s' \<longleftrightarrow> env_wf (fst s') (snd s') \<and> ev_mem (snd s) \<subseteq>\<^sub>m ev_mem (snd s') \<and>
     nn_env_live (snd s') = nn_env_live (snd s)"

lemma new_env_extends:
  assumes wf: "env_wf al m" and mk: "\<And>mem'. ev_mem m \<subseteq>\<^sub>m mem' \<Longrightarrow> mk mem' = Inr ws"
    and offs: "\<forall>w \<in> set ws. env_offset (fst w)" and call: "new_env mk al m = Inr (p, al', m')"
  shows "env_extends (al, m) (al', m')"
proof -
  obtain p1 al1 m1 where "new_env mk al m = Inr (p1, al1, m1)" "env_wf al1 m1" "al_steps al al1"
    "ev_mem m \<subseteq>\<^sub>m ev_mem m1" "nn_env_live m1 = nn_env_live m"
    by (rule new_env_result [OF wf mk offs])
  with call show ?thesis by (simp add: env_extends_def)
qed

lemma from_slots_extends:
  assumes wf: "env_wf al m" and e: "env_at (ev_mem m) par e"
    and call: "nn_env_from_slots sp n par al m = Inr (p, al', m')"
  shows "env_extends (al, m) (al', m')"
proof -
  obtain lz pp where f: "fields_at (ev_mem m) par (ae_slots e) lz pp (ae_withs e)" using e by (rule env_at_fields)
  obtain wp where wp: "nn_env_with_scopes (ev_mem m) par = Inr wp" using fields_at_reads(6) [OF f] by blast
  have nz: "par \<noteq> NULL" using f by (simp add: fields_at_def)
  show ?thesis
    by (rule new_env_extends [OF wf _ _ call [unfolded nn_env_from_slots_def], where ws = "[(0, sp), (8, Raw (ucast n)),
        (16, NULL), (24, par), (32, wp), (40, Raw (ucast (of_nat (length (ae_withs e)) :: u32)))]"])
      (use nz fields_at_reads(2) [OF fields_at_mono [OF _ f]] read_word_mono [OF _ wp [unfolded nn_env_with_scopes_def]]
          env_offsets in \<open>simp_all add: nn_env_with_scopes_def\<close>)
qed

lemma env_step_extends:
  assumes "env_step s s'" and "env_wf (fst s) (snd s)"
  shows "env_extends s s'"
  using assms
proof (induction rule: env_step.induct)
  case (slots n al m p al' m')
  then show ?case using env_alloc_keeps by (simp add: env_extends_def)
next
  case (scopes n al m p al' m')
  then show ?case using env_alloc_keeps by (simp add: env_extends_def with_scopes_same)
next
  case (new sp n lz par wp k al m p al' m')
  show ?case
    by (rule new_env_extends [OF _ _ _ new(1) [unfolded nn_env_new_def], where ws = "[(0, sp), (8, Raw (ucast n)),
        (16, lz), (24, par), (32, wp), (40, Raw (ucast k))]"]) (use new(2) env_offsets in simp_all)
next
  case (minimal sp n al m p al' m')
  show ?case
    by (rule new_env_extends [OF _ _ _ minimal(1) [unfolded nn_env_new_minimal_def],
        where ws = "[(0, sp), (8, Raw (ucast n))]"])
      (use minimal(2) env_offsets in simp_all)
next
  case (child m par e sp n al p al' m')
  then show ?case using from_slots_extends by simp
next
  case (orphan sp n al m p al' m')
  show ?case
    by (rule new_env_extends [OF _ _ _ orphan(1) [unfolded nn_env_from_slots_def], where ws = "[(0, sp),
        (8, Raw (ucast n)), (16, NULL), (24, NULL), (32, NULL), (40, Raw 0)]"])
      (use orphan(2) env_offsets in simp_all)
next
  case (push m base e sc al p al' m')
  from push(3) have wf: "env_wf al m" by simp
  obtain p1 al1 m1 where "nn_env_push_with base sc al m = Inr (p1, al1, m1)" "env_wf al1 m1"
    "ev_mem m \<subseteq>\<^sub>m ev_mem m1" "nn_env_live m1 = nn_env_live m"
    by (rule push_with_result [OF wf push(1)])
  with push(2) show ?case by (simp add: env_extends_def)
qed

text \<open>C32: Environments are immutable. Over any run of the allocating calls the module stays well
  formed and live, every environment keeps representing what it did, and so every lookup through it
  answers what it answered before.\<close>

theorem env_runs_persist:
  assumes "env_step\<^sup>*\<^sup>* (al, m) (al', m')" and "env_wf al m" and "env_at (ev_mem m) p e"
  shows "env_wf al' m' \<and> nn_env_live m' = nn_env_live m \<and> env_at (ev_mem m') p e \<and>
    nn_env_root_scope (ev_mem m') p = nn_env_root_scope (ev_mem m) p"
proof -
  have "env_wf (fst s) (snd s) \<and> ev_mem m \<subseteq>\<^sub>m ev_mem (snd s) \<and> nn_env_live (snd s) = nn_env_live m"
    if "env_step\<^sup>*\<^sup>* (al, m) s" for s
    using that
  proof (induction rule: rtranclp_induct)
    case base
    then show ?case using assms(2) by simp
  next
    case (step s s')
    then have "env_extends s s'" using env_step_extends by blast
    with step.IH show ?case by (auto simp: env_extends_def intro: map_le_trans)
  qed
  from this [OF assms(1)] have "env_wf al' m'" "ev_mem m \<subseteq>\<^sub>m ev_mem m'" "nn_env_live m' = nn_env_live m"
    by simp_all
  with env_at_mono [OF _ assms(3)] root_walk_result [OF assms(3)] root_walk_result [OF env_at_mono [OF _ assms(3)]]
  show ?thesis by (simp add: nn_env_root_scope_def)
qed

theorem env_runs_persist_witness:
  "env_at (ev_mem (snd (snd (nn_env_alloc_slots 3 al_all env_demo)))) nn_env_empty (Root [] NULL [])"
proof (cases "nn_env_alloc_slots 3 al_all env_demo")
  case (fields p al' m')
  then have "env_step\<^sup>*\<^sup>* (al_all, env_demo) (al', m')" by (intro r_into_rtranclp env_step.slots)
  from env_runs_persist [OF this env_demo_wf env_at_empty [OF env_demo_wf]] show ?thesis by (simp add: fields)
qed

subsection \<open>Lifecycle\<close>

lemma destroyed_wf:
  assumes "env_wf al m"
  shows "env_wf al (nn_env_destroy m)" and "x \<in> dom (ev_mem (nn_env_destroy m)) \<Longrightarrow> fst x = 0 \<and> snd x + 8 \<le> 48"
proof -
  have nz: "0 \<notin> ep_blk ` set (ev_pages m)" using assms by (auto simp: env_wf_def page_wf_def)
  have owned: "fst x = 0 \<and> snd x + 8 \<le> 48" if "x \<in> dom (ev_mem (nn_env_destroy m))" for x
  proof -
    obtain b off where x: "x = (b, off)" by (cases x)
    with that have "b \<notin> ep_blk ` set (ev_pages m)" "x \<in> dom (ev_mem m)"
      by (auto simp: nn_env_destroy_def restrict_map_def split: if_splits)
    moreover from this(2) have "word_owned (ev_pages m) x" using assms by (simp add: env_wf_def)
    ultimately show ?thesis unfolding x word_owned_def by force
  qed
  then show "env_wf al (nn_env_destroy m)"
    using assms nz by (simp add: env_wf_def word_owned_def nn_env_destroy_def)
  show "x \<in> dom (ev_mem (nn_env_destroy m)) \<Longrightarrow> fst x = 0 \<and> snd x + 8 \<le> 48" by (rule owned)
qed

lemma init_from_dead:
  assumes wf: "env_wf al m" and dead: "ev_pages m = []"
  shows "nn_env_init al m = (if al_ok al (al_next al) 262160
    then Inr (al\<lparr>al_next := Suc (al_next al)\<rparr>,
      m\<lparr>ev_pages := [\<lparr>ep_blk = al_next al, ep_used = 0, ep_capacity = NN_ENV_PAGE_SIZE\<rparr>], ev_total := 0\<rparr>)
    else Inl Abort)"
proof -
  have "zero_words 0 0 6 (ev_mem m) x = ev_mem m x" for x
  proof (cases "fst x = 0 \<and> snd x < 48 \<and> snd x mod 8 = 0")
    case True
    then obtain k where k: "snd x = 8 * k" by (metis mod_0_imp_dvd dvdE)
    with True have "k < 6" by simp
    with wf k True show ?thesis by (cases x) (simp add: env_wf_def zero_words_def)
  next
    case False
    then show ?thesis by (cases x) (auto simp: zero_words_def)
  qed
  then show ?thesis using dead by (simp add: nn_env_init_def alloc_page_def c_malloc_def fun_eq_iff)
qed

lemma init_destroys:
  assumes "env_wf al m"
  shows "nn_env_init al m = nn_env_init al (nn_env_destroy m)"
proof (cases "ev_pages m = []")
  case True
  have "ev_total m = 0" using assms True by (simp add: env_wf_def)
  then have "nn_env_destroy m = m"
    using True by (cases m) (simp add: nn_env_destroy_def restrict_map_def)
  then show ?thesis by simp
next
  case False
  then show ?thesis by (simp add: nn_env_init_def nn_env_destroy_def)
qed

lemma init_live:
  assumes "env_wf al m"
  shows "case nn_env_init al m of
       Inl err \<Rightarrow> err = Abort \<and> \<not> al_ok al (al_next al) 262160
     | Inr (al', m') \<Rightarrow> env_wf al' m' \<and> al_steps al al' \<and> nn_env_live m' \<and> nn_env_bytes_allocated m' = 0 \<and>
         ev_mem m' = ev_mem (nn_env_destroy m)"
  unfolding init_destroys [OF assms]
    init_from_dead [OF destroyed_wf(1) [OF assms], unfolded nn_env_destroy_def, simplified, folded nn_env_destroy_def]
  using destroyed_wf(1) [OF assms]
  by (auto simp: env_wf_def page_wf_def al_steps_def nn_env_live_def nn_env_bytes_allocated_def
      word_owned_def nn_env_destroy_def)

text \<open>nn_env_destroy leaves a module that is not live, with no word of any page readable, that
  refuses every request; nn_env_init, on a live module too, aborts exactly when its first page is
  refused and otherwise starts afresh, live and with no bytes counted. The empty environment
  outlives both.\<close>

theorem env_lifecycle:
  assumes "env_wf al m"
  shows "(let d = nn_env_destroy m in env_wf al d \<and> \<not> nn_env_live d \<and> nn_env_bytes_allocated d = 0 \<and>
      nn_env_alloc_slots n al d = (NULL, al, d) \<and> env_at (ev_mem d) nn_env_empty (Root [] NULL []) \<and>
      (b \<noteq> 0 \<longrightarrow> read_word (ev_mem d) (Ptr b off) k = Inl Undefined)) \<and>
    (case nn_env_init al m of
       Inl err \<Rightarrow> err = Abort \<and> \<not> al_ok al (al_next al) 262160
     | Inr (al', m') \<Rightarrow> env_wf al' m' \<and> al_steps al al' \<and> nn_env_live m' \<and> nn_env_bytes_allocated m' = 0 \<and>
         env_at (ev_mem m') nn_env_empty (Root [] NULL []) \<and>
         (b \<noteq> 0 \<longrightarrow> read_word (ev_mem m') (Ptr b off) k = Inl Undefined))"
proof -
  let ?d = "nn_env_destroy m"
  note wf = destroyed_wf(1) [OF assms]
  have dead: "ev_pages ?d = []" "ev_total ?d = 0" by (simp_all add: nn_env_destroy_def)
  have un: "read_word (ev_mem ?d) (Ptr b off) k = Inl Undefined" if "b \<noteq> 0"
    using destroyed_wf(2) [OF assms, of "(b, off + k)"] that
    by (cases "ev_mem ?d (b, off + k)") (auto simp: read_word_def)
  have "nn_env_alloc_slots n al ?d = (NULL, al, ?d)"
    using dead by (simp add: nn_env_alloc_slots_def nn_env_alloc_raw_def Let_def)
  moreover note init_live [OF assms]
  ultimately show ?thesis
    using wf dead un env_at_empty [OF wf]
    by (auto simp: Let_def nn_env_live_def nn_env_bytes_allocated_def split: sum.splits)
qed

theorem env_lifecycle_witness:
  "case nn_env_init al_all env_demo of Inl err \<Rightarrow> False
   | Inr (al', m') \<Rightarrow> env_wf al' m' \<and> nn_env_live m'"
  using env_lifecycle [OF env_demo_wf] env_demo_live(2)
  by (auto split: sum.splits)

end
