(* ===== verification/Nova_Bytecode.thy ===== *)
theory Nova_Bytecode
  imports Nova_Prelude
begin

section \<open>nn_bytecode.c: the instruction store\<close>

text \<open>
  Two arrays that grow by doubling: instructions, and the words of their variable-length operands.
  The first five instructions are laid down by \<open>nn_bytecode_init\<close>. This theory holds the state and the
  operations; \<open>Nova_Bytecode_Spec\<close> holds what they promise.
\<close>

subsection \<open>Instructions\<close>

record bc_op =
  bo_opcode :: u8
  bo_flags :: u8
  bo_short_arg :: u16
  bo_arg1 :: u32
  bo_arg2 :: u32
  bo_arg3 :: u32

abbreviation (input) NN_OP_RESOLVED_VAR :: u8 where "NN_OP_RESOLVED_VAR \<equiv> 10"
abbreviation (input) NN_OP_APP :: u8 where "NN_OP_APP \<equiv> 15"
abbreviation (input) NN_APP_DEFERRED :: u8 where "NN_APP_DEFERRED \<equiv> 1"

abbreviation (input) NN_BC_RESERVED_APPLY1 :: u32 where "NN_BC_RESERVED_APPLY1 \<equiv> 2"
abbreviation (input) NN_BC_RESERVED_APPLY2 :: u32 where "NN_BC_RESERVED_APPLY2 \<equiv> 4"
abbreviation (input) NN_BC_RESERVED_COUNT :: u32 where "NN_BC_RESERVED_COUNT \<equiv> 5"

abbreviation (input) NN_BC_DEFAULT_OP_CAPACITY :: u32 where "NN_BC_DEFAULT_OP_CAPACITY \<equiv> 65536"
abbreviation (input) NN_BC_DEFAULT_DATA_CAPACITY :: u32 where "NN_BC_DEFAULT_DATA_CAPACITY \<equiv> 131072"

text \<open>A designated initializer zeroes the fields it does not name.\<close>

definition op_zero :: bc_op where
  "op_zero = \<lparr>bo_opcode = 0, bo_flags = 0, bo_short_arg = 0, bo_arg1 = 0, bo_arg2 = 0, bo_arg3 = 0\<rparr>"

definition g_reserved_ops :: "bc_op list" where
  "g_reserved_ops =
     [op_zero\<lparr>bo_opcode := NN_OP_RESOLVED_VAR, bo_arg1 := 0, bo_arg2 := 0\<rparr>,
      op_zero\<lparr>bo_opcode := NN_OP_RESOLVED_VAR, bo_arg1 := 0, bo_arg2 := 1\<rparr>,
      op_zero\<lparr>bo_opcode := NN_OP_APP, bo_flags := NN_APP_DEFERRED, bo_arg1 := 0, bo_arg2 := 1\<rparr>,
      op_zero\<lparr>bo_opcode := NN_OP_RESOLVED_VAR, bo_arg1 := 0, bo_arg2 := 2\<rparr>,
      op_zero\<lparr>bo_opcode := NN_OP_APP, bo_flags := NN_APP_DEFERRED,
              bo_arg1 := NN_BC_RESERVED_APPLY1, bo_arg2 := 3\<rparr>]"

subsection \<open>State\<close>

text \<open>The globals. An array is None for the NULL pointer and as long as its allocation otherwise; what
  lies past the count is what the allocator left there.\<close>

record bytecode =
  bc_ops :: "bc_op list option"
  bc_op_count :: u32
  bc_op_capacity :: u32
  bc_data :: "u32 list option"
  bc_data_count :: u32
  bc_data_capacity :: u32

definition bytecode_zero :: bytecode where
  "bytecode_zero = \<lparr>bc_ops = None, bc_op_count = 0, bc_op_capacity = 0,
     bc_data = None, bc_data_count = 0, bc_data_capacity = 0\<rparr>"

definition fill_op :: "allocator \<Rightarrow> nat \<Rightarrow> nat \<Rightarrow> nat \<Rightarrow> bc_op list" where
  "fill_op al b lo hi = map (\<lambda>i. \<lparr>bo_opcode = ucast (al_fill al b i), bo_flags = ucast (al_fill al b i),
     bo_short_arg = ucast (al_fill al b i), bo_arg1 = ucast (al_fill al b i), bo_arg2 = ucast (al_fill al b i),
     bo_arg3 = ucast (al_fill al b i)\<rparr>) [lo..<hi]"

subsection \<open>Lifecycle\<close>

definition nn_bytecode_live :: "bytecode \<Rightarrow> bool" where
  "nn_bytecode_live s \<longleftrightarrow> bc_ops s \<noteq> None"

definition nn_bytecode_destroy :: "bytecode \<Rightarrow> bytecode" where
  "nn_bytecode_destroy s = s\<lparr>bc_ops := None, bc_op_count := 0, bc_op_capacity := 0,
     bc_data := None, bc_data_count := 0, bc_data_capacity := 0\<rparr>"

definition nn_bytecode_init ::
  "u32 \<Rightarrow> u32 \<Rightarrow> allocator \<Rightarrow> bytecode \<Rightarrow> (allocator \<times> bytecode) c_res" where
  "nn_bytecode_init op_capacity data_capacity al s =
     (let s = (if bc_ops s \<noteq> None then nn_bytecode_destroy s else s);
          op_capacity = (if op_capacity = 0 then NN_BC_DEFAULT_OP_CAPACITY else op_capacity);
          op_capacity = (if op_capacity < NN_BC_RESERVED_COUNT then NN_BC_RESERVED_COUNT else op_capacity);
          data_capacity = (if data_capacity = 0 then NN_BC_DEFAULT_DATA_CAPACITY else data_capacity)
      in case c_malloc (ucast op_capacity * 16) al of
           (None, _) \<Rightarrow> Inl Abort
         | (Some ob, al1) \<Rightarrow>
           let s = s\<lparr>bc_ops := Some (memcpy_at 0 g_reserved_ops (fill_op al ob 0 (unat op_capacity))),
                     bc_op_count := NN_BC_RESERVED_COUNT, bc_op_capacity := op_capacity\<rparr>
           in case c_malloc (ucast data_capacity * 4) al1 of
                (None, _) \<Rightarrow> Inl Abort
              | (Some db, al2) \<Rightarrow>
                Inr (al2, s\<lparr>bc_data := Some (fill_u32 al1 db 0 (unat data_capacity)),
                            bc_data_count := 0, bc_data_capacity := data_capacity\<rparr>))"

subsection \<open>Growth\<close>

definition ensure_op_space :: "allocator \<Rightarrow> bytecode \<Rightarrow> bool \<times> allocator \<times> bytecode" where
  "ensure_op_space al s = (case bc_ops s of
     None \<Rightarrow> (False, al, s)
   | Some ops \<Rightarrow>
       if bc_op_count s < bc_op_capacity s then (True, al, s)
       else let new_cap = bc_op_capacity s * 2 in
         if new_cap < bc_op_capacity s then (False, al, s)
         else (case c_malloc (ucast new_cap * 16) al of
                 (None, al') \<Rightarrow> (False, al', s)
               | (Some b, al') \<Rightarrow>
                   (True, al', s\<lparr>bc_ops := Some (take (unat new_cap) ops @ fill_op al b (length ops) (unat new_cap)),
                                 bc_op_capacity := new_cap\<rparr>)))"

definition ensure_data_space :: "allocator \<Rightarrow> bytecode \<Rightarrow> bool \<times> allocator \<times> bytecode" where
  "ensure_data_space al s = (case bc_data s of
     None \<Rightarrow> (False, al, s)
   | Some words \<Rightarrow>
       if bc_data_count s < bc_data_capacity s then (True, al, s)
       else let new_cap = bc_data_capacity s * 2 in
         if new_cap < bc_data_capacity s then (False, al, s)
         else (case c_malloc (ucast new_cap * 4) al of
                 (None, al') \<Rightarrow> (False, al', s)
               | (Some b, al') \<Rightarrow>
                   (True, al', s\<lparr>bc_data := Some (take (unat new_cap) words @ fill_u32 al b (length words) (unat new_cap)),
                                 bc_data_capacity := new_cap\<rparr>)))"

subsection \<open>Emitting\<close>

text \<open>\<open>arr[i] = x\<close> on a pointer that may be NULL.\<close>

definition store_at :: "'a list option \<Rightarrow> u32 \<Rightarrow> 'a \<Rightarrow> 'a list c_res" where
  "store_at arr i x = (case arr of
     None \<Rightarrow> Inl Undefined
   | Some xs \<Rightarrow> if unat i < length xs then Inr (xs[unat i := x]) else Inl Undefined)"

definition load_at :: "'a list option \<Rightarrow> u32 \<Rightarrow> 'a c_res" where
  "load_at arr i = (case arr of
     None \<Rightarrow> Inl Undefined
   | Some xs \<Rightarrow> if unat i < length xs then Inr (xs ! unat i) else Inl Undefined)"

definition nn_bc_emit ::
  "u8 \<Rightarrow> u8 \<Rightarrow> u16 \<Rightarrow> u32 \<Rightarrow> u32 \<Rightarrow> u32 \<Rightarrow> allocator \<Rightarrow> bytecode \<Rightarrow> (u32 \<times> allocator \<times> bytecode) c_res" where
  "nn_bc_emit opcode flags short_arg arg1 arg2 arg3 al s =
     (case ensure_op_space al s of (ok, al', s) \<Rightarrow>
        if \<not> ok then Inr (UINT32_MAX, al', s)
        else let idx = bc_op_count s in
          res_bind (store_at (bc_ops s) idx
              \<lparr>bo_opcode = opcode, bo_flags = flags, bo_short_arg = short_arg,
               bo_arg1 = arg1, bo_arg2 = arg2, bo_arg3 = arg3\<rparr>) (\<lambda>ops.
          Inr (idx, al', s\<lparr>bc_op_count := idx + 1, bc_ops := Some ops\<rparr>)))"

definition nn_bc_emit_data :: "u32 \<Rightarrow> allocator \<Rightarrow> bytecode \<Rightarrow> (u32 \<times> allocator \<times> bytecode) c_res" where
  "nn_bc_emit_data v al s =
     (case ensure_data_space al s of (ok, al', s) \<Rightarrow>
        if \<not> ok then Inr (UINT32_MAX, al', s)
        else let offset = bc_data_count s in
          res_bind (store_at (bc_data s) offset v) (\<lambda>words.
          Inr (offset, al', s\<lparr>bc_data_count := offset + 1, bc_data := Some words\<rparr>)))"

subsection \<open>Reading\<close>

definition nn_bc_opcode :: "bool \<Rightarrow> bytecode \<Rightarrow> u32 \<Rightarrow> u8 c_res" where
  "nn_bc_opcode dbg s idx = NN_ASSERT dbg (idx < bc_op_count s) (res_bind (load_at (bc_ops s) idx) (\<lambda>op. Inr (bo_opcode op)))"

definition nn_bc_flags :: "bool \<Rightarrow> bytecode \<Rightarrow> u32 \<Rightarrow> u8 c_res" where
  "nn_bc_flags dbg s idx = NN_ASSERT dbg (idx < bc_op_count s) (res_bind (load_at (bc_ops s) idx) (\<lambda>op. Inr (bo_flags op)))"

definition nn_bc_short_arg :: "bool \<Rightarrow> bytecode \<Rightarrow> u32 \<Rightarrow> u16 c_res" where
  "nn_bc_short_arg dbg s idx =
     NN_ASSERT dbg (idx < bc_op_count s) (res_bind (load_at (bc_ops s) idx) (\<lambda>op. Inr (bo_short_arg op)))"

definition nn_bc_arg1 :: "bool \<Rightarrow> bytecode \<Rightarrow> u32 \<Rightarrow> u32 c_res" where
  "nn_bc_arg1 dbg s idx = NN_ASSERT dbg (idx < bc_op_count s) (res_bind (load_at (bc_ops s) idx) (\<lambda>op. Inr (bo_arg1 op)))"

definition nn_bc_arg2 :: "bool \<Rightarrow> bytecode \<Rightarrow> u32 \<Rightarrow> u32 c_res" where
  "nn_bc_arg2 dbg s idx = NN_ASSERT dbg (idx < bc_op_count s) (res_bind (load_at (bc_ops s) idx) (\<lambda>op. Inr (bo_arg2 op)))"

definition nn_bc_arg3 :: "bool \<Rightarrow> bytecode \<Rightarrow> u32 \<Rightarrow> u32 c_res" where
  "nn_bc_arg3 dbg s idx = NN_ASSERT dbg (idx < bc_op_count s) (res_bind (load_at (bc_ops s) idx) (\<lambda>op. Inr (bo_arg3 op)))"

definition nn_bc_data :: "bool \<Rightarrow> bytecode \<Rightarrow> u32 \<Rightarrow> u32 c_res" where
  "nn_bc_data dbg s offset = NN_ASSERT dbg (offset < bc_data_count s) (load_at (bc_data s) offset)"

definition nn_bc_op_count :: "bytecode \<Rightarrow> u32" where
  "nn_bc_op_count s = bc_op_count s"

definition nn_bc_data_count :: "bytecode \<Rightarrow> u32" where
  "nn_bc_data_count s = bc_data_count s"

end
