(* ===== verification/Nova_Bytecode_Spec.thy ===== *)
theory Nova_Bytecode_Spec
  imports Nova_Bytecode
begin

section \<open>What the instruction store promises\<close>

text \<open>
  A growing array as a list, the interface of an emitter and its two instances, and that what was emitted reads
  back through all growth.
\<close>

subsection \<open>An array that grows by doubling\<close>

definition garr :: "'a list \<Rightarrow> u32 \<Rightarrow> u32 \<Rightarrow> bool" where
  "garr xs cnt cap \<longleftrightarrow> length xs = unat cap \<and> cnt \<le> cap \<and> 0 < cap"

lemma doubled_u32:
  assumes "\<not> cap * 2 < (cap :: u32)" and "0 < cap"
  shows "unat (cap * 2) = 2 * unat cap"
proof (rule ccontr)
  assume no: "unat (cap * 2) \<noteq> 2 * unat cap"
  have "unat (cap * 2) = (2 * unat cap) mod 4294967296" by (simp add: unat_word_ariths mult.commute)
  with no have "2 * unat cap \<ge> 4294967296" by (metis mod_less not_le)
  then have "unat (cap * 2) = 2 * unat cap - 4294967296"
    using unat_u32_less [of cap] \<open>unat (cap * 2) = (2 * unat cap) mod 4294967296\<close> by (simp add: le_mod_geq)
  then have "unat (cap * 2) < unat cap" using unat_u32_less [of cap] \<open>2 * unat cap \<ge> 4294967296\<close> by linarith
  with assms(1) show False by (simp add: word_less_nat_alt)
qed

lemma garr_grow:
  assumes g: "garr xs cnt cap" and full: "\<not> cnt < cap" and ok: "\<not> cap * 2 < cap"
    and f: "length ys = unat (cap * 2) - length xs"
  shows "garr (take (unat (cap * 2)) xs @ ys) cnt (cap * 2)" and "cnt < cap * 2"
    and "take (unat cnt) (take (unat (cap * 2)) xs @ ys) = take (unat cnt) xs"
proof -
  have pos: "0 < unat cap" using g by (simp add: garr_def unat_gt_0 word_gt_0)
  have d: "unat (cap * 2) = 2 * unat cap" using ok g by (intro doubled_u32) (simp_all add: garr_def)
  have c: "unat cnt \<le> unat cap" using g by (simp add: garr_def word_le_nat_alt)
  have l: "length xs = unat cap" using g by (simp add: garr_def)
  show "cnt < cap * 2" unfolding word_less_nat_alt d using c pos by linarith
  then show "garr (take (unat (cap * 2)) xs @ ys) cnt (cap * 2)"
    using f d l by (auto simp: garr_def word_le_less_eq word_gt_0)
  show "take (unat cnt) (take (unat (cap * 2)) xs @ ys) = take (unat cnt) xs"
    using c d l by (simp add: min_def)
qed

lemma garr_store:
  assumes "garr xs cnt cap" and "cnt < cap"
  shows "store_at (Some xs) cnt x = Inr (xs[unat cnt := x])" and "garr (xs[unat cnt := x]) (cnt + 1) cap"
    and "take (unat (cnt + 1)) (xs[unat cnt := x]) = take (unat cnt) xs @ [x]" and "unat (cnt + 1) = Suc (unat cnt)"
proof -
  have c: "unat cnt < length xs" using assms by (simp add: garr_def word_less_nat_alt)
  show s: "unat (cnt + 1) = Suc (unat cnt)"
    using assms unat_u32_less [of cap] by (intro unat_Suc_u32) (simp add: word_less_nat_alt)
  show "store_at (Some xs) cnt x = Inr (xs[unat cnt := x])" using c by (simp add: store_at_def)
  show "garr (xs[unat cnt := x]) (cnt + 1) cap"
    using assms c s by (simp add: garr_def word_le_nat_alt)
  show "take (unat (cnt + 1)) (xs[unat cnt := x]) = take (unat cnt) xs @ [x]"
    using c by (simp add: s take_Suc_conv_app_nth)
qed

subsection \<open>The store\<close>

definition ops_of :: "bytecode \<Rightarrow> bc_op list" where
  "ops_of s = (case bc_ops s of None \<Rightarrow> [] | Some xs \<Rightarrow> take (unat (bc_op_count s)) xs)"

definition data_of :: "bytecode \<Rightarrow> u32 list" where
  "data_of s = (case bc_data s of None \<Rightarrow> [] | Some xs \<Rightarrow> take (unat (bc_data_count s)) xs)"

definition bc_wf :: "bytecode \<Rightarrow> bool" where
  "bc_wf s \<longleftrightarrow> (case bc_ops s of
       None \<Rightarrow> bc_op_count s = 0 \<and> bc_op_capacity s = 0
     | Some xs \<Rightarrow> garr xs (bc_op_count s) (bc_op_capacity s)) \<and>
     (case bc_data s of
       None \<Rightarrow> bc_data_count s = 0 \<and> bc_data_capacity s = 0
     | Some xs \<Rightarrow> garr xs (bc_data_count s) (bc_data_capacity s)) \<and>
     (bc_data s = None \<longleftrightarrow> bc_ops s = None)"

lemma bc_wf_zero [wf_intros]: "bc_wf bytecode_zero"
  by (simp add: bc_wf_def bytecode_zero_def)

lemma length_ops_of: "bc_wf s \<Longrightarrow> length (ops_of s) = unat (bc_op_count s)"
  by (auto simp: bc_wf_def ops_of_def garr_def word_le_nat_alt split: option.splits)

lemma length_data_of: "bc_wf s \<Longrightarrow> length (data_of s) = unat (bc_data_count s)"
  by (auto simp: bc_wf_def data_of_def garr_def word_le_nat_alt split: option.splits)

subsection \<open>The interface of an emitter\<close>

text \<open>A call appends its element and answers its index, or answers UINT32_MAX and changes nothing; what
  else the store holds stays as it is.\<close>

locale emitter =
  fixes emit :: "'e \<Rightarrow> allocator \<Rightarrow> 's \<Rightarrow> (u32 \<times> allocator \<times> 's) c_res"
    and items :: "'s \<Rightarrow> 'e list"
    and inv :: "'s \<Rightarrow> bool"
    and other :: "'s \<Rightarrow> 'o"
  assumes emit_result: "inv s \<Longrightarrow> \<exists>i al' s'. emit e al s = Inr (i, al', s') \<and> inv s' \<and> al_steps al al' \<and>
      other s' = other s \<and>
      (if i = UINT32_MAX then s' = s else items s' = items s @ [e] \<and> unat i = length (items s))"

text \<open>A client that emits one element after the other and keeps the answers.\<close>

fun emit_all ::
  "('e \<Rightarrow> allocator \<Rightarrow> 's \<Rightarrow> (u32 \<times> allocator \<times> 's) c_res) \<Rightarrow> 'e list \<Rightarrow> allocator \<Rightarrow> 's \<Rightarrow>
    (u32 list \<times> allocator \<times> 's) c_res" where
  "emit_all emit [] al s = Inr ([], al, s)"
| "emit_all emit (e # es) al s = res_bind (emit e al s) (\<lambda>(i, al', s').
     res_bind (emit_all emit es al' s') (\<lambda>(is, al'', s''). Inr (i # is, al'', s'')))"

context emitter
begin

lemma emit_all_result:
  assumes "inv s"
  shows "\<exists>is al' s' new. emit_all emit es al s = Inr (is, al', s') \<and> inv s' \<and> al_steps al al' \<and>
    other s' = other s \<and> length is = length es \<and> items s' = items s @ new \<and>
    (\<forall>k < length es. is ! k \<noteq> UINT32_MAX \<longrightarrow> length (items s) \<le> unat (is ! k) \<and>
       unat (is ! k) < length (items s') \<and> items s' ! unat (is ! k) = es ! k) \<and>
    (\<forall>k < length es. \<forall>j < k. is ! j \<noteq> UINT32_MAX \<and> is ! k \<noteq> UINT32_MAX \<longrightarrow> is ! j < is ! k)"
  using assms
proof (induction es arbitrary: al s)
  case Nil
  then show ?case by simp
next
  case (Cons e es)
  obtain i al1 s1 where e: "emit e al s = Inr (i, al1, s1)" "inv s1" "al_steps al al1" "other s1 = other s"
    "if i = UINT32_MAX then s1 = s else items s1 = items s @ [e] \<and> unat i = length (items s)"
    using emit_result [OF Cons.prems] by blast
  obtain "is" al' s' new where r: "emit_all emit es al1 s1 = Inr (is, al', s')" "inv s'" "al_steps al1 al'"
    "other s' = other s1" "length is = length es" "items s' = items s1 @ new"
    "\<forall>k < length es. is ! k \<noteq> UINT32_MAX \<longrightarrow> length (items s1) \<le> unat (is ! k) \<and>
       unat (is ! k) < length (items s') \<and> items s' ! unat (is ! k) = es ! k"
    "\<forall>k < length es. \<forall>j < k. is ! j \<noteq> UINT32_MAX \<and> is ! k \<noteq> UINT32_MAX \<longrightarrow> is ! j < is ! k"
    using Cons.IH [OF e(2)] by blast
  have len: "length (items s) \<le> length (items s1)" and new: "\<exists>new. items s' = items s @ new"
    using e(5) r(6) by (simp_all split: if_splits)
  have hd: "length (items s) \<le> unat i \<and> unat i < length (items s') \<and> items s' ! unat i = e \<and> unat i < length (items s1)"
    if "i \<noteq> UINT32_MAX" using that e(5) r(6) by (simp add: nth_append)
  have 1: "\<forall>k < length (e # es). (i # is) ! k \<noteq> UINT32_MAX \<longrightarrow> length (items s) \<le> unat ((i # is) ! k) \<and>
       unat ((i # is) ! k) < length (items s') \<and> items s' ! unat ((i # is) ! k) = (e # es) ! k"
  proof (intro allI impI)
    fix k assume k: "k < length (e # es)" "(i # is) ! k \<noteq> UINT32_MAX"
    then show "length (items s) \<le> unat ((i # is) ! k) \<and> unat ((i # is) ! k) < length (items s') \<and>
        items s' ! unat ((i # is) ! k) = (e # es) ! k"
    proof (cases k)
      case 0
      then show ?thesis using hd k by simp
    next
      case (Suc n)
      then show ?thesis using r(7) [rule_format, of n] k len by simp
    qed
  qed
  have 2: "\<forall>k < length (e # es). \<forall>j < k. (i # is) ! j \<noteq> UINT32_MAX \<and> (i # is) ! k \<noteq> UINT32_MAX \<longrightarrow>
      (i # is) ! j < (i # is) ! k"
  proof (intro allI impI, elim conjE)
    fix k j assume k: "k < length (e # es)" "j < k" "(i # is) ! j \<noteq> UINT32_MAX" "(i # is) ! k \<noteq> UINT32_MAX"
    then obtain n where n: "k = Suc n" "n < length es" by (cases k) simp_all
    show "(i # is) ! j < (i # is) ! k"
    proof (cases j)
      case 0
      then have "unat i < length (items s1)" "length (items s1) \<le> unat (is ! n)"
        using k n hd r(7) [rule_format, of n] by simp_all
      then show ?thesis using 0 n by (simp add: word_less_nat_alt)
    next
      case (Suc j')
      then show ?thesis using r(8) [rule_format, of n j'] k n by simp
    qed
  qed
  have "al_steps al al'" using e(3) r(3) by (rule al_steps_trans)
  moreover have "emit_all emit (e # es) al s = Inr (i # is, al', s')" using e(1) r(1) by simp
  moreover have "other s' = other s" using e(4) r(4) by simp
  ultimately show ?case using r(2,5) new 1 2 by auto
qed

end

subsection \<open>Room for one more\<close>

text \<open>The limits: the window, and the capacity that doubling would wrap.\<close>

definition op_room :: "allocator \<Rightarrow> bytecode \<Rightarrow> bool" where
  "op_room al s \<longleftrightarrow> nn_bytecode_live s \<and> (bc_op_count s < bc_op_capacity s \<or>
     (unat (bc_op_capacity s) < 2 ^ 31 \<and> al_ok al (al_next al) (32 * ucast (bc_op_capacity s))))"

definition data_room :: "allocator \<Rightarrow> bytecode \<Rightarrow> bool" where
  "data_room al s \<longleftrightarrow> nn_bytecode_live s \<and> (bc_data_count s < bc_data_capacity s \<or>
     (unat (bc_data_capacity s) < 2 ^ 31 \<and> al_ok al (al_next al) (8 * ucast (bc_data_capacity s))))"

lemma doubled_iff:
  assumes "0 < (cap :: u32)"
  shows "cap * 2 < cap \<longleftrightarrow> \<not> unat cap < 2 ^ 31"
proof
  assume "cap * 2 < cap"
  show "\<not> unat cap < 2 ^ 31"
  proof
    assume "unat cap < 2 ^ 31"
    then have "unat (cap * 2) = 2 * unat cap" by (simp add: unat_word_ariths)
    with \<open>cap * 2 < cap\<close> show False by (simp add: word_less_nat_alt)
  qed
next
  assume big: "\<not> unat cap < 2 ^ 31"
  show "cap * 2 < cap"
  proof (rule ccontr)
    assume "\<not> cap * 2 < cap"
    then have "unat (cap * 2) = 2 * unat cap" using assms by (rule doubled_u32)
    then show False using big unat_u32_less [of "cap * 2"] by simp
  qed
qed

lemma ucast_double: "unat (cap :: u32) < 2 ^ 31 \<Longrightarrow> (ucast (cap * 2) :: u64) = 2 * ucast cap"
  by (simp add: word_unat_eq_iff unat_word_ariths)

lemma below_not_max: "c < (cap :: u32) \<Longrightarrow> c \<noteq> UINT32_MAX"
  using unat_u32_less [of cap] by (auto simp: word_less_nat_alt)

lemma length_fill_op [simp]: "length (fill_op al b lo hi) = hi - lo"
  by (simp add: fill_op_def)

lemma op_space:
  assumes wf: "bc_wf s"
  obtains al' s' where "ensure_op_space al s = (op_room al s, al', s')" and "bc_wf s'" and "al_steps al al'"
    and "ops_of s' = ops_of s" and "data_of s' = data_of s" and "bc_op_count s' = bc_op_count s"
    and "op_room al s \<Longrightarrow> bc_op_count s' < bc_op_capacity s'" and "op_room al s \<Longrightarrow> nn_bytecode_live s'"
    and "\<not> op_room al s \<Longrightarrow> s' = s"
proof (cases "bc_ops s")
  case None
  then have "ensure_op_space al s = (op_room al s, al, s)"
    by (simp add: ensure_op_space_def op_room_def nn_bytecode_live_def)
  then show ?thesis by (rule that) (use wf None in \<open>simp_all add: op_room_def nn_bytecode_live_def\<close>)
next
  case (Some xs)
  then have g: "garr xs (bc_op_count s) (bc_op_capacity s)" using wf by (simp add: bc_wf_def)
  then have pos: "0 < bc_op_capacity s" by (simp add: garr_def)
  have live: "nn_bytecode_live s" using Some by (simp add: nn_bytecode_live_def)
  show ?thesis
  proof (cases "bc_op_count s < bc_op_capacity s")
    case True
    then have "ensure_op_space al s = (op_room al s, al, s)" using Some live
      by (simp add: ensure_op_space_def op_room_def)
    then show ?thesis by (rule that) (use wf True live in \<open>simp_all add: op_room_def\<close>)
  next
    case full: False
    let ?nc = "bc_op_capacity s * 2"
    show ?thesis
    proof (cases "?nc < bc_op_capacity s")
      case True
      then have "\<not> op_room al s" using full doubled_iff [OF pos] by (simp add: op_room_def)
      then have "ensure_op_space al s = (op_room al s, al, s)" using Some full True
        by (simp add: ensure_op_space_def)
      then show ?thesis by (rule that) (use wf \<open>\<not> op_room al s\<close> in simp_all)
    next
      case ok: False
      then have small: "unat (bc_op_capacity s) < 2 ^ 31" using doubled_iff [OF pos] by blast
      have bytes: "(ucast ?nc :: u64) * 16 = 32 * ucast (bc_op_capacity s)"
        using ucast_double [OF small] by simp
      have room: "op_room al s \<longleftrightarrow> al_ok al (al_next al) (32 * ucast (bc_op_capacity s))"
        using full small live by (simp add: op_room_def)
      obtain r al' where c: "c_malloc (ucast ?nc * 16) al = (r, al')" by (metis surj_pair)
      have st: "al_steps al al'" and r: "op_room al s \<longleftrightarrow> r \<noteq> None"
        using c unfolding bytes room by (auto simp: c_malloc_def al_steps_def split: if_splits)
      show ?thesis
      proof (cases r)
        case None
        then have "ensure_op_space al s = (op_room al s, al', s)" using Some full ok c r
          by (simp add: ensure_op_space_def Let_def)
        then show ?thesis by (rule that) (use wf st None r in simp_all)
      next
        case b: (Some b)
        let ?xs = "take (unat ?nc) xs @ fill_op al b (length xs) (unat ?nc)"
        note gg = garr_grow [OF g full ok, of "fill_op al b (length xs) (unat ?nc)", simplified]
        have call: "ensure_op_space al s = (op_room al s, al', s\<lparr>bc_ops := Some ?xs, bc_op_capacity := ?nc\<rparr>)"
          using Some full ok c r b by (simp add: ensure_op_space_def Let_def)
        show ?thesis
          by (rule that [OF call])
            (use wf st gg Some b r in \<open>simp_all add: bc_wf_def ops_of_def data_of_def nn_bytecode_live_def
              split: option.splits\<close>)
      qed
    qed
  qed
qed

lemma data_space:
  assumes wf: "bc_wf s"
  obtains al' s' where "ensure_data_space al s = (data_room al s, al', s')" and "bc_wf s'" and "al_steps al al'"
    and "ops_of s' = ops_of s" and "data_of s' = data_of s" and "bc_data_count s' = bc_data_count s"
    and "data_room al s \<Longrightarrow> bc_data_count s' < bc_data_capacity s'" and "data_room al s \<Longrightarrow> nn_bytecode_live s'"
    and "\<not> data_room al s \<Longrightarrow> s' = s"
proof (cases "bc_data s")
  case None
  then have "bc_ops s = None" using wf by (simp add: bc_wf_def)
  with None have "ensure_data_space al s = (data_room al s, al, s)"
    by (simp add: ensure_data_space_def data_room_def nn_bytecode_live_def)
  then show ?thesis by (rule that) (use wf \<open>bc_ops s = None\<close> in \<open>simp_all add: data_room_def nn_bytecode_live_def\<close>)
next
  case (Some xs)
  then have g: "garr xs (bc_data_count s) (bc_data_capacity s)" using wf by (simp add: bc_wf_def)
  then have pos: "0 < bc_data_capacity s" by (simp add: garr_def)
  have live: "nn_bytecode_live s" using Some wf by (simp add: nn_bytecode_live_def bc_wf_def)
  show ?thesis
  proof (cases "bc_data_count s < bc_data_capacity s")
    case True
    then have "ensure_data_space al s = (data_room al s, al, s)" using Some live
      by (simp add: ensure_data_space_def data_room_def)
    then show ?thesis by (rule that) (use wf True live in \<open>simp_all add: data_room_def\<close>)
  next
    case full: False
    let ?nc = "bc_data_capacity s * 2"
    show ?thesis
    proof (cases "?nc < bc_data_capacity s")
      case True
      then have "\<not> data_room al s" using full doubled_iff [OF pos] by (simp add: data_room_def)
      then have "ensure_data_space al s = (data_room al s, al, s)" using Some full True
        by (simp add: ensure_data_space_def)
      then show ?thesis by (rule that) (use wf \<open>\<not> data_room al s\<close> in simp_all)
    next
      case ok: False
      then have small: "unat (bc_data_capacity s) < 2 ^ 31" using doubled_iff [OF pos] by blast
      have bytes: "(ucast ?nc :: u64) * 4 = 8 * ucast (bc_data_capacity s)"
        using ucast_double [OF small] by simp
      have room: "data_room al s \<longleftrightarrow> al_ok al (al_next al) (8 * ucast (bc_data_capacity s))"
        using full small live by (simp add: data_room_def)
      obtain r al' where c: "c_malloc (ucast ?nc * 4) al = (r, al')" by (metis surj_pair)
      have st: "al_steps al al'" and r: "data_room al s \<longleftrightarrow> r \<noteq> None"
        using c unfolding bytes room by (auto simp: c_malloc_def al_steps_def split: if_splits)
      show ?thesis
      proof (cases r)
        case None
        then have "ensure_data_space al s = (data_room al s, al', s)" using Some full ok c r
          by (simp add: ensure_data_space_def Let_def)
        then show ?thesis by (rule that) (use wf st None r in simp_all)
      next
        case b: (Some b)
        let ?xs = "take (unat ?nc) xs @ fill_u32 al b (length xs) (unat ?nc)"
        note gg = garr_grow [OF g full ok, of "fill_u32 al b (length xs) (unat ?nc)", simplified]
        have call: "ensure_data_space al s = (data_room al s, al', s\<lparr>bc_data := Some ?xs, bc_data_capacity := ?nc\<rparr>)"
          using Some full ok c r b by (simp add: ensure_data_space_def Let_def)
        show ?thesis
          by (rule that [OF call])
            (use wf st gg Some b r live in \<open>simp_all add: bc_wf_def ops_of_def data_of_def nn_bytecode_live_def
              split: option.splits\<close>)
      qed
    qed
  qed
qed

subsection \<open>Emitting\<close>

definition emit_op :: "bc_op \<Rightarrow> allocator \<Rightarrow> bytecode \<Rightarrow> (u32 \<times> allocator \<times> bytecode) c_res" where
  "emit_op e = nn_bc_emit (bo_opcode e) (bo_flags e) (bo_short_arg e) (bo_arg1 e) (bo_arg2 e) (bo_arg3 e)"

lemma bc_op_eta [simp]:
  "\<lparr>bo_opcode = bo_opcode e, bo_flags = bo_flags e, bo_short_arg = bo_short_arg e, bo_arg1 = bo_arg1 e,
     bo_arg2 = bo_arg2 e, bo_arg3 = bo_arg3 e\<rparr> = (e :: bc_op)"
  by (cases e) simp

lemma emit_op_result:
  assumes wf: "bc_wf s"
  obtains i al' s' where "emit_op e al s = Inr (i, al', s')" and "bc_wf s'" and "al_steps al al'"
    and "data_of s' = data_of s" and "i = UINT32_MAX \<longleftrightarrow> \<not> op_room al s" and "i = UINT32_MAX \<longrightarrow> s' = s"
    and "i \<noteq> UINT32_MAX \<longrightarrow> i = bc_op_count s \<and> ops_of s' = ops_of s @ [e] \<and> unat i = length (ops_of s)"
proof -
  obtain al' s1 where e: "ensure_op_space al s = (op_room al s, al', s1)" "bc_wf s1" "al_steps al al'"
    "ops_of s1 = ops_of s" "data_of s1 = data_of s" "bc_op_count s1 = bc_op_count s"
    "op_room al s \<Longrightarrow> bc_op_count s1 < bc_op_capacity s1" "op_room al s \<Longrightarrow> nn_bytecode_live s1"
    "\<not> op_room al s \<Longrightarrow> s1 = s"
    using op_space [OF wf] by metis
  show ?thesis
  proof (cases "op_room al s")
    case False
    then have "emit_op e al s = Inr (UINT32_MAX, al', s)" using e(1,9) by (simp add: emit_op_def nn_bc_emit_def)
    then show ?thesis by (rule that) (use False e wf in simp_all)
  next
    case True
    then obtain xs where xs: "bc_ops s1 = Some xs" using e(8) by (auto simp: nn_bytecode_live_def)
    then have g: "garr xs (bc_op_count s) (bc_op_capacity s1)" using e(2,6) by (simp add: bc_wf_def)
    have lt: "bc_op_count s < bc_op_capacity s1" using e(6,7) True by simp
    note st = garr_store(1-3) [OF g lt, of e]
    let ?s' = "s1\<lparr>bc_op_count := bc_op_count s + 1, bc_ops := Some (xs[unat (bc_op_count s) := e])\<rparr>"
    have call: "emit_op e al s = Inr (bc_op_count s, al', ?s')"
      using e(1,6) True xs st(1) by (simp add: emit_op_def nn_bc_emit_def Let_def)
    have w: "bc_wf ?s'" using e(2) xs st(2) by (simp add: bc_wf_def split: option.splits)
    have o: "ops_of ?s' = ops_of s @ [e]" using e(4,6) xs st(3) by (simp add: ops_of_def)
    have d: "data_of ?s' = data_of s" using e(5) by (simp add: data_of_def split: option.splits)
    have nm: "bc_op_count s \<noteq> UINT32_MAX" using lt by (rule below_not_max)
    have l: "unat (bc_op_count s) = length (ops_of s)" using length_ops_of [OF wf] by simp
    show ?thesis by (rule that [OF call w e(3) d]) (use True nm l o in blast)+
  qed
qed

lemma emit_data_result:
  assumes wf: "bc_wf s"
  obtains i al' s' where "nn_bc_emit_data v al s = Inr (i, al', s')" and "bc_wf s'" and "al_steps al al'"
    and "ops_of s' = ops_of s" and "i = UINT32_MAX \<longleftrightarrow> \<not> data_room al s" and "i = UINT32_MAX \<longrightarrow> s' = s"
    and "i \<noteq> UINT32_MAX \<longrightarrow> i = bc_data_count s \<and> data_of s' = data_of s @ [v] \<and> unat i = length (data_of s)"
proof -
  obtain al' s1 where e: "ensure_data_space al s = (data_room al s, al', s1)" "bc_wf s1" "al_steps al al'"
    "ops_of s1 = ops_of s" "data_of s1 = data_of s" "bc_data_count s1 = bc_data_count s"
    "data_room al s \<Longrightarrow> bc_data_count s1 < bc_data_capacity s1" "data_room al s \<Longrightarrow> nn_bytecode_live s1"
    "\<not> data_room al s \<Longrightarrow> s1 = s"
    using data_space [OF wf] by metis
  show ?thesis
  proof (cases "data_room al s")
    case False
    then have "nn_bc_emit_data v al s = Inr (UINT32_MAX, al', s)" using e(1,9) by (simp add: nn_bc_emit_data_def)
    then show ?thesis by (rule that) (use False e wf in simp_all)
  next
    case True
    then obtain xs where xs: "bc_data s1 = Some xs" using e(2,8) by (auto simp: nn_bytecode_live_def bc_wf_def)
    then have g: "garr xs (bc_data_count s) (bc_data_capacity s1)" using e(2,6) by (simp add: bc_wf_def)
    have lt: "bc_data_count s < bc_data_capacity s1" using e(6,7) True by simp
    note st = garr_store(1-3) [OF g lt, of v]
    let ?s' = "s1\<lparr>bc_data_count := bc_data_count s + 1, bc_data := Some (xs[unat (bc_data_count s) := v])\<rparr>"
    have call: "nn_bc_emit_data v al s = Inr (bc_data_count s, al', ?s')"
      using e(1,6) True xs st(1) by (simp add: nn_bc_emit_data_def Let_def)
    have w: "bc_wf ?s'" using e(2) xs st(2) by (simp add: bc_wf_def split: option.splits)
    have d: "data_of ?s' = data_of s @ [v]" using e(5,6) xs st(3) by (simp add: data_of_def)
    have o: "ops_of ?s' = ops_of s" using e(4) by (simp add: ops_of_def split: option.splits)
    have nm: "bc_data_count s \<noteq> UINT32_MAX" using lt by (rule below_not_max)
    have l: "unat (bc_data_count s) = length (data_of s)" using length_data_of [OF wf] by simp
    show ?thesis by (rule that [OF call w e(3) o]) (use True nm l d in blast)+
  qed
qed

interpretation ops: emitter emit_op ops_of bc_wf data_of
proof
  fix s e al assume wf: "bc_wf s"
  show "\<exists>i al' s'. emit_op e al s = Inr (i, al', s') \<and> bc_wf s' \<and> al_steps al al' \<and> data_of s' = data_of s \<and>
      (if i = UINT32_MAX then s' = s else ops_of s' = ops_of s @ [e] \<and> unat i = length (ops_of s))"
    by (rule emit_op_result [OF wf, of e al]) auto
qed

interpretation data: emitter nn_bc_emit_data data_of bc_wf ops_of
proof
  fix s v al assume wf: "bc_wf s"
  show "\<exists>i al' s'. nn_bc_emit_data v al s = Inr (i, al', s') \<and> bc_wf s' \<and> al_steps al al' \<and> ops_of s' = ops_of s \<and>
      (if i = UINT32_MAX then s' = s else data_of s' = data_of s @ [v] \<and> unat i = length (data_of s))"
    by (rule emit_data_result [OF wf, of v al]) auto
qed

subsection \<open>Reading\<close>

lemma load_op:
  assumes "bc_wf s" and "unat i < length (ops_of s)"
  shows "load_at (bc_ops s) i = Inr (ops_of s ! unat i)" and "i < bc_op_count s"
proof -
  show "i < bc_op_count s" using assms length_ops_of [OF assms(1)] by (simp add: word_less_nat_alt)
  obtain xs where xs: "bc_ops s = Some xs" using assms(2) by (auto simp: ops_of_def split: option.splits)
  then have "unat i < length xs" "unat i < unat (bc_op_count s)" using assms(2) by (simp_all add: ops_of_def)
  then show "load_at (bc_ops s) i = Inr (ops_of s ! unat i)" using xs by (simp add: load_at_def ops_of_def)
qed

definition reads_op :: "bool \<Rightarrow> bytecode \<Rightarrow> u32 \<Rightarrow> bc_op \<Rightarrow> bool" where
  "reads_op dbg s i e \<longleftrightarrow> nn_bc_opcode dbg s i = Inr (bo_opcode e) \<and> nn_bc_flags dbg s i = Inr (bo_flags e) \<and>
     nn_bc_short_arg dbg s i = Inr (bo_short_arg e) \<and> nn_bc_arg1 dbg s i = Inr (bo_arg1 e) \<and>
     nn_bc_arg2 dbg s i = Inr (bo_arg2 e) \<and> nn_bc_arg3 dbg s i = Inr (bo_arg3 e)"

lemma op_reads: "bc_wf s \<Longrightarrow> unat i < length (ops_of s) \<Longrightarrow> reads_op dbg s i (ops_of s ! unat i)"
  using load_op [of s i] by (simp add: reads_op_def nn_bc_opcode_def nn_bc_flags_def nn_bc_short_arg_def
      nn_bc_arg1_def nn_bc_arg2_def nn_bc_arg3_def)

lemma data_reads: "bc_wf s \<Longrightarrow> unat i < length (data_of s) \<Longrightarrow> nn_bc_data dbg s i = Inr (data_of s ! unat i)"
proof -
  assume wf: "bc_wf s" and i: "unat i < length (data_of s)"
  then have "i < bc_data_count s" using length_data_of [OF wf] by (simp add: word_less_nat_alt)
  obtain xs where xs: "bc_data s = Some xs" using i by (auto simp: data_of_def split: option.splits)
  then have "unat i < length xs" "unat i < unat (bc_data_count s)" using i by (simp_all add: data_of_def)
  with xs \<open>i < bc_data_count s\<close> show ?thesis by (simp add: nn_bc_data_def load_at_def data_of_def)
qed

subsection \<open>Emit and read back\<close>

lemma if_cases: "c \<longrightarrow> P \<Longrightarrow> (\<not> c \<Longrightarrow> Q) \<Longrightarrow> if c then P else Q"
  by simp

text \<open>One emitted instruction or operand word. The emitters answer the current count as its index and
  the readers give it back there; they answer UINT32_MAX, which is never an index, and change nothing,
  exactly when the store is not live or the array is full and either its capacity cannot double in 32
  bits or the allocator refuses the doubled block. The other array keeps its contents.\<close>

theorem bytecode_emit_result:
  assumes "bc_wf s"
  shows "(\<exists>i al' s'. nn_bc_emit opc fl sa a1 a2 a3 al s = Inr (i, al', s') \<and> bc_wf s' \<and> data_of s' = data_of s \<and>
      (i = UINT32_MAX \<longleftrightarrow> \<not> op_room al s) \<and>
      (if i = UINT32_MAX then s' = s
       else i = nn_bc_op_count s \<and> nn_bc_op_count s' = nn_bc_op_count s + 1 \<and>
         reads_op dbg s' i \<lparr>bo_opcode = opc, bo_flags = fl, bo_short_arg = sa, bo_arg1 = a1, bo_arg2 = a2, bo_arg3 = a3\<rparr>)) \<and>
    (\<exists>i al' s'. nn_bc_emit_data v al s = Inr (i, al', s') \<and> bc_wf s' \<and> ops_of s' = ops_of s \<and>
      (i = UINT32_MAX \<longleftrightarrow> \<not> data_room al s) \<and>
      (if i = UINT32_MAX then s' = s
       else i = nn_bc_data_count s \<and> nn_bc_data_count s' = nn_bc_data_count s + 1 \<and> nn_bc_data dbg s' i = Inr v))"
proof
  let ?e = "\<lparr>bo_opcode = opc, bo_flags = fl, bo_short_arg = sa, bo_arg1 = a1, bo_arg2 = a2, bo_arg3 = a3\<rparr>"
  obtain i al' s' where r: "emit_op ?e al s = Inr (i, al', s')" "bc_wf s'" "data_of s' = data_of s"
    "i = UINT32_MAX \<longleftrightarrow> \<not> op_room al s" "i = UINT32_MAX \<longrightarrow> s' = s"
    "i \<noteq> UINT32_MAX \<longrightarrow> i = bc_op_count s \<and> ops_of s' = ops_of s @ [?e] \<and> unat i = length (ops_of s)"
    using emit_op_result [OF assms, of ?e al] by metis
  have ok: "i = nn_bc_op_count s \<and> nn_bc_op_count s' = nn_bc_op_count s + 1 \<and> reads_op dbg s' i ?e" if "i \<noteq> UINT32_MAX"
  proof -
    have o: "i = bc_op_count s" "ops_of s' = ops_of s @ [?e]" "unat i = length (ops_of s)" using r(6) that by blast+
    have "length (ops_of s') = Suc (unat i)" using o(3) by (simp add: o(2))
    then have "unat (bc_op_count s') = Suc (unat i)" using length_ops_of [OF r(2)] by simp
    moreover have "unat (i + 1) = Suc (unat i)"
      using that unat_u32_less [of i] by (intro unat_Suc_u32) (auto simp: word_unat_eq_iff)
    ultimately have "bc_op_count s' = i + 1" by (simp add: word_unat_eq_iff)
    moreover have "reads_op dbg s' i ?e" using op_reads [OF r(2), of i dbg] o(2,3) by simp
    ultimately show ?thesis using o(1) by (simp add: nn_bc_op_count_def)
  qed
  have call: "nn_bc_emit opc fl sa a1 a2 a3 al s = Inr (i, al', s')" using r(1) by (simp add: emit_op_def)
  have res: "if i = UINT32_MAX then s' = s
      else i = nn_bc_op_count s \<and> nn_bc_op_count s' = nn_bc_op_count s + 1 \<and> reads_op dbg s' i ?e"
    using r(5) ok by (rule if_cases)
  show "\<exists>i al' s'. nn_bc_emit opc fl sa a1 a2 a3 al s = Inr (i, al', s') \<and> bc_wf s' \<and> data_of s' = data_of s \<and>
      (i = UINT32_MAX \<longleftrightarrow> \<not> op_room al s) \<and>
      (if i = UINT32_MAX then s' = s
       else i = nn_bc_op_count s \<and> nn_bc_op_count s' = nn_bc_op_count s + 1 \<and> reads_op dbg s' i ?e)"
    using call r(2-4) res by blast
next
  obtain i al' s' where r: "nn_bc_emit_data v al s = Inr (i, al', s')" "bc_wf s'" "ops_of s' = ops_of s"
    "i = UINT32_MAX \<longleftrightarrow> \<not> data_room al s" "i = UINT32_MAX \<longrightarrow> s' = s"
    "i \<noteq> UINT32_MAX \<longrightarrow> i = bc_data_count s \<and> data_of s' = data_of s @ [v] \<and> unat i = length (data_of s)"
    using emit_data_result [OF assms, of v al] by metis
  have ok: "i = nn_bc_data_count s \<and> nn_bc_data_count s' = nn_bc_data_count s + 1 \<and> nn_bc_data dbg s' i = Inr v" if "i \<noteq> UINT32_MAX"
  proof -
    have o: "i = bc_data_count s" "data_of s' = data_of s @ [v]" "unat i = length (data_of s)" using r(6) that by blast+
    have "length (data_of s') = Suc (unat i)" using o(3) by (simp add: o(2))
    then have "unat (bc_data_count s') = Suc (unat i)" using length_data_of [OF r(2)] by simp
    moreover have "unat (i + 1) = Suc (unat i)"
      using that unat_u32_less [of i] by (intro unat_Suc_u32) (auto simp: word_unat_eq_iff)
    ultimately have "bc_data_count s' = i + 1" by (simp add: word_unat_eq_iff)
    moreover have "nn_bc_data dbg s' i = Inr v" using data_reads [OF r(2), of i dbg] o(2,3) by simp
    ultimately show ?thesis using o(1) by (simp add: nn_bc_data_count_def)
  qed
  have res: "if i = UINT32_MAX then s' = s
      else i = nn_bc_data_count s \<and> nn_bc_data_count s' = nn_bc_data_count s + 1 \<and> nn_bc_data dbg s' i = Inr v"
    using r(5) ok by (rule if_cases)
  show "\<exists>i al' s'. nn_bc_emit_data v al s = Inr (i, al', s') \<and> bc_wf s' \<and> ops_of s' = ops_of s \<and>
      (i = UINT32_MAX \<longleftrightarrow> \<not> data_room al s) \<and>
      (if i = UINT32_MAX then s' = s
       else i = nn_bc_data_count s \<and> nn_bc_data_count s' = nn_bc_data_count s + 1 \<and> nn_bc_data dbg s' i = Inr v)"
    using r(1-4) res by blast
qed

text \<open>A full store of five instructions and no operand word.\<close>

definition bc_demo :: bytecode where
  "bc_demo = \<lparr>bc_ops = Some g_reserved_ops, bc_op_count = 5, bc_op_capacity = 5,
     bc_data = Some [0], bc_data_count = 0, bc_data_capacity = 1\<rparr>"

lemma bc_demo: "bc_wf bc_demo" "op_room al_all bc_demo" "data_room al_all bc_demo"
  by (simp_all add: bc_wf_def bc_demo_def garr_def g_reserved_ops_def op_room_def data_room_def
      nn_bytecode_live_def al_all_def)

theorem bytecode_emit_result_witness:
  "\<exists>al' s'. nn_bc_emit 12 0 1 7 8 9 al_all bc_demo = Inr (5, al', s') \<and>
     reads_op True s' 5 \<lparr>bo_opcode = 12, bo_flags = 0, bo_short_arg = 1, bo_arg1 = 7, bo_arg2 = 8, bo_arg3 = 9\<rparr>"
proof -
  obtain i al' s' where r: "nn_bc_emit 12 0 1 7 8 9 al_all bc_demo = Inr (i, al', s')"
    "i = UINT32_MAX \<longleftrightarrow> \<not> op_room al_all bc_demo"
    "if i = UINT32_MAX then s' = bc_demo else i = nn_bc_op_count bc_demo \<and>
       nn_bc_op_count s' = nn_bc_op_count bc_demo + 1 \<and>
       reads_op True s' i \<lparr>bo_opcode = 12, bo_flags = 0, bo_short_arg = 1, bo_arg1 = 7, bo_arg2 = 8, bo_arg3 = 9\<rparr>"
    using bytecode_emit_result [OF bc_demo(1), of 12 0 1 7 8 9 al_all True] by blast
  have "i \<noteq> UINT32_MAX" using r(2) bc_demo(2) by blast
  note r(3) [unfolded if_not_P [OF this]]
  moreover have "nn_bc_op_count bc_demo = 5" by (simp add: nn_bc_op_count_def bc_demo_def)
  ultimately show ?thesis using r(1) by metis
qed

text \<open>C23: Compiling an expression: emitting any list of instructions returns for each its index or
  UINT32_MAX; every index reads back its instruction through all the growth that followed it, the
  indices rise, so that a child emitted before its parent has the smaller index, and what the store
  held before is where it was.\<close>

theorem bytecode_run_roundtrip:
  assumes "bc_wf s"
  shows "\<exists>is al' s'. emit_all emit_op es al s = Inr (is, al', s') \<and> bc_wf s' \<and> length is = length es \<and>
    data_of s' = data_of s \<and>
    (\<forall>k < length es. is ! k \<noteq> UINT32_MAX \<longrightarrow> reads_op dbg s' (is ! k) (es ! k)) \<and>
    (\<forall>k < length es. \<forall>j < k. is ! j \<noteq> UINT32_MAX \<and> is ! k \<noteq> UINT32_MAX \<longrightarrow> is ! j < is ! k) \<and>
    (\<forall>i. unat i < length (ops_of s) \<longrightarrow> reads_op dbg s' i (ops_of s ! unat i))"
proof -
  obtain "is" al' s' new where r: "emit_all emit_op es al s = Inr (is, al', s')" "bc_wf s'"
    "data_of s' = data_of s" "length is = length es" "ops_of s' = ops_of s @ new"
    "\<forall>k < length es. is ! k \<noteq> UINT32_MAX \<longrightarrow> length (ops_of s) \<le> unat (is ! k) \<and>
       unat (is ! k) < length (ops_of s') \<and> ops_of s' ! unat (is ! k) = es ! k"
    "\<forall>k < length es. \<forall>j < k. is ! j \<noteq> UINT32_MAX \<and> is ! k \<noteq> UINT32_MAX \<longrightarrow> is ! j < is ! k"
    using ops.emit_all_result [OF assms, of es al] by blast
  have "\<forall>k < length es. is ! k \<noteq> UINT32_MAX \<longrightarrow> reads_op dbg s' (is ! k) (es ! k)"
    using r(6) op_reads [OF r(2)] by metis
  moreover have "\<forall>i. unat i < length (ops_of s) \<longrightarrow> reads_op dbg s' i (ops_of s ! unat i)"
  proof (intro allI impI)
    fix i :: u32 assume "unat i < length (ops_of s)"
    then show "reads_op dbg s' i (ops_of s ! unat i)" using op_reads [OF r(2), of i dbg] r(5) by (simp add: nth_append)
  qed
  ultimately show ?thesis using r(1-4,7) by blast
qed

theorem bytecode_run_roundtrip_witness:
  "\<exists>is al' s'. emit_all emit_op [op_zero\<lparr>bo_opcode := 8\<rparr>, op_zero\<lparr>bo_opcode := 12\<rparr>] al_all bc_demo = Inr (is, al', s') \<and>
     length is = 2 \<and> reads_op True s' 2 (g_reserved_ops ! 2)"
proof -
  let ?es = "[op_zero\<lparr>bo_opcode := 8\<rparr>, op_zero\<lparr>bo_opcode := 12\<rparr>]"
  obtain "is" al' s' where r: "emit_all emit_op ?es al_all bc_demo = Inr (is, al', s')" "length is = length ?es"
    "\<forall>i. unat i < length (ops_of bc_demo) \<longrightarrow> reads_op True s' i (ops_of bc_demo ! unat i)"
    using bytecode_run_roundtrip [OF bc_demo(1), of ?es al_all True] by blast
  have "ops_of bc_demo = g_reserved_ops" by (simp add: ops_of_def bc_demo_def g_reserved_ops_def)
  with r(3) [rule_format, of 2] have "reads_op True s' 2 (g_reserved_ops ! 2)" by (simp add: g_reserved_ops_def)
  with r(1,2) show ?thesis by auto
qed

subsection \<open>The reserved instructions\<close>

inductive bc_step :: "allocator \<times> bytecode \<Rightarrow> allocator \<times> bytecode \<Rightarrow> bool" where
  op: "nn_bc_emit opc fl sa a1 a2 a3 al s = Inr (i, al', s') \<Longrightarrow> bc_step (al, s) (al', s')"
| word: "nn_bc_emit_data v al s = Inr (i, al', s') \<Longrightarrow> bc_step (al, s) (al', s')"

inductive_cases bc_stepE: "bc_step (al, s) (al', s')"

lemma bc_step_keeps:
  assumes "bc_step (al, s) (al', s')" and wf: "bc_wf s"
  shows "bc_wf s' \<and> (\<exists>new. ops_of s' = ops_of s @ new) \<and> (\<exists>new. data_of s' = data_of s @ new)"
  using assms(1)
proof (rule bc_stepE)
  fix opc fl sa a1 a2 a3 i
  assume c: "nn_bc_emit opc fl sa a1 a2 a3 al s = Inr (i, al', s')"
  let ?e = "\<lparr>bo_opcode = opc, bo_flags = fl, bo_short_arg = sa, bo_arg1 = a1, bo_arg2 = a2, bo_arg3 = a3\<rparr>"
  have "emit_op ?e al s = Inr (i, al', s')" using c by (simp add: emit_op_def)
  then show ?thesis using ops.emit_result [OF wf, of ?e al] by (auto split: if_splits)
next
  fix v i
  assume "nn_bc_emit_data v al s = Inr (i, al', s')"
  then show ?thesis using data.emit_result [OF wf, of v al] by (auto split: if_splits)
qed

lemma bc_steps_keep:
  assumes "bc_step\<^sup>*\<^sup>* x y" and "bc_wf (snd x)"
  shows "bc_wf (snd y) \<and> (\<exists>new. ops_of (snd y) = ops_of (snd x) @ new)"
  using assms(1)
proof (induction rule: rtranclp_induct)
  case (step y z)
  then have "bc_wf (snd z) \<and> (\<exists>new. ops_of (snd z) = ops_of (snd y) @ new)"
    using bc_step_keeps [of "fst y" "snd y" "fst z" "snd z"] by simp
  with step.IH show ?case by auto
qed (use assms(2) in simp)

text \<open>What an instruction of the reserved kinds means: the value of a slot, or an application.\<close>

datatype bc_term = Slot u32 u32 | Apply bc_term bc_term

fun bc_decode :: "nat \<Rightarrow> bytecode \<Rightarrow> u32 \<Rightarrow> bc_term option" where
  "bc_decode 0 s i = None"
| "bc_decode (Suc n) s i =
     (case (nn_bc_opcode True s i, nn_bc_flags True s i, nn_bc_arg1 True s i, nn_bc_arg2 True s i) of
        (Inr opc, Inr fl, Inr a1, Inr a2) \<Rightarrow>
          if opc = NN_OP_RESOLVED_VAR then Some (Slot a1 a2)
          else if opc = NN_OP_APP \<and> fl = NN_APP_DEFERRED then
            (case (bc_decode n s a1, bc_decode n s a2) of
               (Some f, Some x) \<Rightarrow> Some (Apply f x)
             | _ \<Rightarrow> None)
          else None
      | _ \<Rightarrow> None)"

lemma length_reserved: "length g_reserved_ops = 5"
  by (simp add: g_reserved_ops_def)

lemma decode_reserved:
  assumes wf: "bc_wf s" and o: "ops_of s = g_reserved_ops @ new"
  shows "bc_decode 3 s NN_BC_RESERVED_APPLY1 = Some (Apply (Slot 0 0) (Slot 0 1))"
    and "bc_decode 3 s NN_BC_RESERVED_APPLY2 = Some (Apply (Apply (Slot 0 0) (Slot 0 1)) (Slot 0 2))"
proof -
  have rd: "reads_op True s i (g_reserved_ops ! unat i)" if "unat i < 5" for i
    using op_reads [OF wf, of i True] that o by (simp add: nth_append length_reserved)
  have r: "reads_op True s 0 (op_zero\<lparr>bo_opcode := 10, bo_arg1 := 0, bo_arg2 := 0\<rparr>)"
    "reads_op True s 1 (op_zero\<lparr>bo_opcode := 10, bo_arg1 := 0, bo_arg2 := 1\<rparr>)"
    "reads_op True s 2 (op_zero\<lparr>bo_opcode := 15, bo_flags := 1, bo_arg1 := 0, bo_arg2 := 1\<rparr>)"
    "reads_op True s 3 (op_zero\<lparr>bo_opcode := 10, bo_arg1 := 0, bo_arg2 := 2\<rparr>)"
    "reads_op True s 4 (op_zero\<lparr>bo_opcode := 15, bo_flags := 1, bo_arg1 := 2, bo_arg2 := 3\<rparr>)"
    using rd [of 0] rd [of 1] rd [of 2] rd [of 3] rd [of 4] by (simp_all add: g_reserved_ops_def)
  note f = r [unfolded reads_op_def op_zero_def, simplified]
  have slot: "bc_decode (Suc n) s 0 = Some (Slot 0 0)" "bc_decode (Suc n) s 1 = Some (Slot 0 1)"
    "bc_decode (Suc n) s 3 = Some (Slot 0 2)" for n using f by simp_all
  have app: "bc_decode (Suc (Suc n)) s 2 = Some (Apply (Slot 0 0) (Slot 0 1))" for n
    using f(3) slot by (simp del: bc_decode.simps add: bc_decode.simps(2) [of "Suc n" s 2])
  show "bc_decode 3 s NN_BC_RESERVED_APPLY1 = Some (Apply (Slot 0 0) (Slot 0 1))"
    using app [of 1] by (simp del: bc_decode.simps add: numeral_3_eq_3)
  show "bc_decode 3 s NN_BC_RESERVED_APPLY2 = Some (Apply (Apply (Slot 0 0) (Slot 0 1)) (Slot 0 2))"
    using f(5) slot app [of 0]
    by (simp del: bc_decode.simps add: numeral_3_eq_3 bc_decode.simps(2) [of "Suc (Suc 0)" s 4])
qed

text \<open>The capacities \<open>nn_bytecode_init\<close> allocates.\<close>

definition bc_op_cap :: "u32 \<Rightarrow> u32" where
  "bc_op_cap oc = (let c = (if oc = 0 then NN_BC_DEFAULT_OP_CAPACITY else oc)
     in if c < NN_BC_RESERVED_COUNT then NN_BC_RESERVED_COUNT else c)"

definition bc_data_cap :: "u32 \<Rightarrow> u32" where
  "bc_data_cap dc = (if dc = 0 then NN_BC_DEFAULT_DATA_CAPACITY else dc)"

lemma bytecode_init_cases:
  "case nn_bytecode_init oc dc al s of
      Inl err \<Rightarrow> err = Abort \<and> (\<not> al_ok al (al_next al) (ucast (bc_op_cap oc) * 16) \<or>
        \<not> al_ok al (Suc (al_next al)) (ucast (bc_data_cap dc) * 4))
    | Inr (al', s') \<Rightarrow> bc_wf s' \<and> al_steps al al' \<and> ops_of s' = g_reserved_ops \<and> data_of s' = [] \<and>
        nn_bytecode_live s' \<and> bc_op_count s' = 5 \<and> bc_data_count s' = 0"
proof -
  define a where "a = bc_op_cap oc"
  define d where "d = bc_data_cap dc"
  have oc: "5 \<le> unat a" and dc: "0 < d"
    by (auto simp: a_def d_def bc_op_cap_def bc_data_cap_def Let_def word_less_nat_alt word_gt_0 unat_gt_0)
  then have g1: "garr (memcpy_at 0 g_reserved_ops (fill_op al b 0 (unat a))) 5 a" for b
    by (auto simp: garr_def word_le_nat_alt word_less_nat_alt g_reserved_ops_def)
  have g2: "garr (fill_u32 al1 b 0 (unat d)) 0 d" for al1 b using dc by (simp add: garr_def)
  have t: "take 5 (memcpy_at 0 g_reserved_ops (fill_op al b 0 (unat a))) = g_reserved_ops" for b
    by (simp add: memcpy_at_def g_reserved_ops_def)
  let ?s = "\<lambda>al1. \<lparr>bc_ops = Some (memcpy_at 0 g_reserved_ops (fill_op al (al_next al) 0 (unat a))),
      bc_op_count = 5, bc_op_capacity = a, bc_data = Some (fill_u32 al1 (Suc (al_next al)) 0 (unat d)),
      bc_data_count = 0, bc_data_capacity = d\<rparr>"
  have call: "nn_bytecode_init oc dc al s =
      (if al_ok al (al_next al) (ucast a * 16) \<and> al_ok al (Suc (al_next al)) (ucast d * 4)
       then Inr (al\<lparr>al_next := Suc (Suc (al_next al))\<rparr>, ?s (al\<lparr>al_next := Suc (al_next al)\<rparr>)) else Inl Abort)"
    unfolding nn_bytecode_init_def Let_def bc_op_cap_def [unfolded Let_def, symmetric] bc_data_cap_def [symmetric]
      a_def [symmetric] d_def [symmetric]
    by (cases s) (simp add: c_malloc_def nn_bytecode_destroy_def)
  show ?thesis
    unfolding call a_def [symmetric] d_def [symmetric]
    using g1 g2 t by (auto simp: bc_wf_def ops_of_def data_of_def al_steps_def nn_bytecode_live_def)
qed

text \<open>nn_bytecode_init aborts exactly when one of its two allocations is refused. Otherwise the store is
  live and holds the reserved instructions, and for its whole life, over any run of the emitters, the
  indices NN_BC_RESERVED_APPLY1 and NN_BC_RESERVED_APPLY2 are the code that applies slot 0 to slot 1,
  and that to slot 2.\<close>

theorem bytecode_reserved_forever:
  "case nn_bytecode_init oc dc al s of
      Inl err \<Rightarrow> err = Abort \<and> (\<not> al_ok al (al_next al) (ucast (bc_op_cap oc) * 16) \<or>
        \<not> al_ok al (Suc (al_next al)) (ucast (bc_data_cap dc) * 4))
    | Inr (al', s') \<Rightarrow> bc_wf s' \<and> nn_bytecode_live s' \<and> nn_bc_op_count s' = 5 \<and> nn_bc_data_count s' = 0 \<and>
        (\<forall>al2 s2. bc_step\<^sup>*\<^sup>* (al', s') (al2, s2) \<longrightarrow>
          bc_decode 3 s2 NN_BC_RESERVED_APPLY1 = Some (Apply (Slot 0 0) (Slot 0 1)) \<and>
          bc_decode 3 s2 NN_BC_RESERVED_APPLY2 = Some (Apply (Apply (Slot 0 0) (Slot 0 1)) (Slot 0 2)))"
proof (cases "nn_bytecode_init oc dc al s")
  case (Inl e)
  then show ?thesis using bytecode_init_cases [where oc = oc and dc = dc and al = al and s = s] by simp
next
  case (Inr r)
  obtain al' s' where r: "r = (al', s')" by (cases r)
  note i = bytecode_init_cases [where oc = oc and dc = dc and al = al and s = s, unfolded Inr r, simplified]
  have "bc_decode 3 s2 NN_BC_RESERVED_APPLY1 = Some (Apply (Slot 0 0) (Slot 0 1)) \<and>
      bc_decode 3 s2 NN_BC_RESERVED_APPLY2 = Some (Apply (Apply (Slot 0 0) (Slot 0 1)) (Slot 0 2))"
    if run: "bc_step\<^sup>*\<^sup>* (al', s') (al2, s2)" for al2 s2
  proof -
    obtain new where "bc_wf s2" "ops_of s2 = g_reserved_ops @ new" using bc_steps_keep [OF run] i by auto
    then show ?thesis using decode_reserved by blast
  qed
  then show ?thesis unfolding Inr r using i by (simp add: nn_bc_op_count_def nn_bc_data_count_def)
qed

theorem bytecode_reserved_forever_witness:
  "case nn_bytecode_init 0 0 al_all bytecode_zero of Inl err \<Rightarrow> False
   | Inr (al', s') \<Rightarrow> bc_decode 3 s' 4 = Some (Apply (Apply (Slot 0 0) (Slot 0 1)) (Slot 0 2))"
  using bytecode_reserved_forever [where oc = 0 and dc = 0 and al = al_all and s = bytecode_zero]
  by (auto simp: al_all_def split: sum.splits)

end
