(* ===== verification/Nova_Lifecycle.thy ===== *)
theory Nova_Lifecycle
  imports Nova_Symbol_Spec Nova_Thunk_Spec Nova_Env_Spec Nova_Bytecode_Spec
begin

section \<open>The window between init and destroy\<close>

text \<open>
  The symbol table, the thunk arena, the environment pages and the instruction store share a
  contract: an init function that opens a window or aborts, a destroy function that closes it, and a
  function that says whether it is open. The arena's lifecycle is proved from this contract alone.
\<close>

locale window =
  fixes init :: "allocator \<Rightarrow> 's \<Rightarrow> (allocator \<times> 's) c_res"
    and destroy :: "'s \<Rightarrow> 's"
    and live :: "'s \<Rightarrow> bool"
    and inv :: "allocator \<Rightarrow> 's \<Rightarrow> bool"
  assumes init_opens: "inv al s \<Longrightarrow> init al s = Inr (al', s') \<Longrightarrow> inv al' s' \<and> live s' \<and> al_steps al al'"
    and init_fails: "inv al s \<Longrightarrow> init al s = Inl err \<Longrightarrow> err = Abort \<and> al_ok al \<noteq> (\<lambda>_ _. True)"
    and destroy_closes: "inv al s \<Longrightarrow> inv al (destroy s) \<and> \<not> live (destroy s)"
    and inv_later: "inv al s \<Longrightarrow> al_steps al al' \<Longrightarrow> inv al' s"
begin

lemma init_cases:
  assumes "inv al s"
  obtains "init al s = Inl Abort" and "al_ok al \<noteq> (\<lambda>_ _. True)"
  | al' s' where "init al s = Inr (al', s')" and "inv al' s'" and "live s'" and "al_steps al al'"
  using init_opens [OF assms] init_fails [OF assms] by (cases "init al s") auto

text \<open>A closed window opens again.\<close>

lemma reopens:
  assumes "inv al s" and "al_ok al = (\<lambda>_ _. True)"
  shows "\<exists>al' s'. init al (destroy s) = Inr (al', s') \<and> live s' \<and> inv al' s'"
  using init_cases [of al "destroy s"] destroy_closes [OF assms(1)] assms(2) by metis

end

subsection \<open>The four sub-arenas\<close>

definition symtab_inv :: "allocator \<Rightarrow> symtab \<Rightarrow> bool" where
  "symtab_inv al t \<longleftrightarrow> t = sym_zero \<or> sym_wf t"

interpretation symbols: window "\<lambda>al t. nn_symbol_init al t 0" nn_symbol_destroy nn_symbol_live symtab_inv
proof
  fix al t al' t' err
  show "nn_symbol_init al t 0 = Inr (al', t') \<Longrightarrow> symtab_inv al' t' \<and> nn_symbol_live t' \<and> al_steps al al'"
    by (rule symbol_init_cases [of al t 0]) (auto simp: symtab_inv_def nn_symbol_live_def dest: sym_wf_live)
  show "nn_symbol_init al t 0 = Inl err \<Longrightarrow> err = Abort \<and> al_ok al \<noteq> (\<lambda>_ _. True)"
    by (rule symbol_init_cases [of al t 0]) auto
  show "symtab_inv al (nn_symbol_destroy t) \<and> \<not> nn_symbol_live (nn_symbol_destroy t)"
    by (simp add: symtab_inv_def nn_symbol_destroy_def nn_symbol_live_def sym_zero_def)
  show "symtab_inv al t \<Longrightarrow> symtab_inv al' t" by (simp add: symtab_inv_def)
qed

interpretation thunks: window "\<lambda>al m. nn_thunk_init al m 0" nn_thunk_destroy nn_thunk_live "\<lambda>al. thunk_wf"
proof
  fix al m al' m' err
  show "nn_thunk_init al m 0 = Inr (al', m') \<Longrightarrow> thunk_wf m' \<and> nn_thunk_live m' \<and> al_steps al al'"
    using init_thunks_result [of al m 0] by auto
  show "nn_thunk_init al m 0 = Inl err \<Longrightarrow> err = Abort \<and> al_ok al \<noteq> (\<lambda>_ _. True)"
    using init_thunks_result [of al m 0] by auto
  show "thunk_wf m \<Longrightarrow> thunk_wf (nn_thunk_destroy m) \<and> \<not> nn_thunk_live (nn_thunk_destroy m)"
    by (auto simp: thunk_wf_def nn_thunk_destroy_def nn_thunk_live_def split: option.splits)
qed

lemma env_init_cases:
  assumes "env_wf al m"
  shows "case nn_env_init al m of
       Inl err \<Rightarrow> err = Abort \<and> al_ok al \<noteq> (\<lambda>_ _. True)
     | Inr (al', m') \<Rightarrow> env_wf al' m' \<and> nn_env_live m' \<and> al_steps al al'"
  using init_live [OF assms] by (auto simp: fun_eq_iff split: sum.splits)

interpretation envs: window nn_env_init nn_env_destroy nn_env_live env_wf
proof
  fix al m al' m' err
  assume wf: "env_wf al m"
  show "nn_env_init al m = Inr (al', m') \<Longrightarrow> env_wf al' m' \<and> nn_env_live m' \<and> al_steps al al'"
    using env_init_cases [OF wf] by simp
  show "nn_env_init al m = Inl err \<Longrightarrow> err = Abort \<and> al_ok al \<noteq> (\<lambda>_ _. True)"
    using env_init_cases [OF wf] by simp
  show "env_wf al (nn_env_destroy m) \<and> \<not> nn_env_live (nn_env_destroy m)"
    using destroyed_wf(1) [OF wf] by (simp add: nn_env_destroy_def nn_env_live_def)
  show "al_steps al al' \<Longrightarrow> env_wf al' m" using wf by (rule env_wf_steps)
qed

interpretation codes: window "nn_bytecode_init 0 0" nn_bytecode_destroy nn_bytecode_live "\<lambda>al. bc_wf"
proof
  fix al s al' s' err
  show "nn_bytecode_init 0 0 al s = Inr (al', s') \<Longrightarrow> bc_wf s' \<and> nn_bytecode_live s' \<and> al_steps al al'"
    using bytecode_init_cases [where oc = 0 and dc = 0 and al = al and s = s] by auto
  show "nn_bytecode_init 0 0 al s = Inl err \<Longrightarrow> err = Abort \<and> al_ok al \<noteq> (\<lambda>_ _. True)"
    using bytecode_init_cases [where oc = 0 and dc = 0 and al = al and s = s] by auto
  show "bc_wf (nn_bytecode_destroy s) \<and> \<not> nn_bytecode_live (nn_bytecode_destroy s)"
    by (simp add: bc_wf_def nn_bytecode_destroy_def nn_bytecode_live_def)
qed

end
