(* ===== verification/Nova_Track.thy ===== *)
theory Nova_Track
  imports Nova_Prelude
begin

section \<open>Tracking arrays: the contract of bulk cleanup\<close>

text \<open>
  Four components (nn_attrset.c, nn_list.c, nn_lambda.c, nn_ctxstr.c) keep the headers they
  allocate in a file-scope array that grows by doubling, and free every header in it at
  teardown. Each file has its own copy of the array and of the function that appends to it;
  this theory states what the rest of such a file relies on as the locale \<open>tracking\<close>, and
  proves once what follows: how many objects can be tracked, and that the teardown loop frees
  each block exactly once and leaves none.
\<close>

text \<open>\<open>g_tracked\<close> with its first \<open>g_tracked_count\<close> entries (the entries past the count are
  never read), and \<open>g_tracked_cap\<close>.\<close>

record tracker =
  tk_objs :: "nat list"
  tk_cap :: u32

definition tracker_empty :: tracker where
  "tracker_empty = \<lparr>tk_objs = [], tk_cap = 0\<rparr>"

text \<open>The capacities doubling can reach: none yet, or 256 times a power of two up to 2^31.\<close>

definition tracker_wf :: "tracker \<Rightarrow> bool" where
  "tracker_wf tk \<longleftrightarrow> length (tk_objs tk) \<le> unat (tk_cap tk) \<and>
     (tk_cap tk = 0 \<or> (\<exists>k\<le>23. unat (tk_cap tk) = 256 * 2 ^ k))"

text \<open>The tracked blocks are exactly the live ones of the heap \<open>h\<close>, each once, and none is a
  block the allocator may still hand out.\<close>

definition tracks_heap :: "allocator \<Rightarrow> tracker \<Rightarrow> (nat \<rightharpoonup> 'a) \<Rightarrow> bool" where
  "tracks_heap al tk h \<longleftrightarrow>
     distinct (tk_objs tk) \<and> set (tk_objs tk) = dom h \<and> (\<forall>b \<in> dom h. b < al_next al)"

lemma tracker_wf_empty [wf_intros]: "tracker_wf tracker_empty"
  by (simp add: tracker_wf_def tracker_empty_def)

lemma tracks_heap_empty [wf_intros]: "tracks_heap al tracker_empty Map.empty"
  by (simp add: tracks_heap_def tracker_empty_def)

lemma tracks_heap_mono: "tracks_heap al tk h \<Longrightarrow> al_next al \<le> al_next al' \<Longrightarrow> tracks_heap al' tk h"
  unfolding tracks_heap_def by (meson less_le_trans)

lemma tracks_heap_update:
  "tracks_heap al tk h \<Longrightarrow> b \<in> dom h \<Longrightarrow> tracks_heap al tk (h(b \<mapsto> x))"
  by (auto simp: tracks_heap_def)

lemma tracks_heap_free_each:
  "tracks_heap al tk h \<Longrightarrow> c_free_each (tk_objs tk) h = Inr Map.empty"
  by (simp add: tracks_heap_def c_free_each_ok restrict_map_def fun_eq_iff) (metis domIff)

text \<open>Both together are the invariant of a file that tracks what it allocates.\<close>

definition tracked_store :: "allocator \<Rightarrow> tracker \<Rightarrow> (nat \<rightharpoonup> 'a) \<Rightarrow> bool" where
  "tracked_store al tk h \<longleftrightarrow> tracker_wf tk \<and> tracks_heap al tk h"

lemma tracked_store_empty [wf_intros]: "tracked_store al tracker_empty Map.empty"
  by (simp add: tracked_store_def wf_intros)

lemma tracked_store_steps: "tracked_store al tk h \<Longrightarrow> al_steps al al' \<Longrightarrow> tracked_store al' tk h"
  unfolding tracked_store_def al_steps_def using tracks_heap_mono by blast

lemma tracked_store_update: "tracked_store al tk h \<Longrightarrow> b \<in> dom h \<Longrightarrow> tracked_store al tk (h(b \<mapsto> x))"
  by (simp add: tracked_store_def tracks_heap_update)

lemma tracked_store_fresh: "tracked_store al tk h \<Longrightarrow> al_next al \<le> b \<Longrightarrow> h b = None"
  unfolding tracked_store_def tracks_heap_def by (meson domIff leD)

lemma tracked_store_free_each: "tracked_store al tk h \<Longrightarrow> c_free_each (tk_objs tk) h = Inr Map.empty"
  unfolding tracked_store_def by (blast intro: tracks_heap_free_each)

text \<open>Following a pointer to a header.\<close>

definition deref :: "(nat \<rightharpoonup> 'a) \<Rightarrow> nat option \<Rightarrow> 'a c_res" where
  "deref h p = (case p of
     None \<Rightarrow> Inl Undefined
   | Some b \<Rightarrow> (case h b of None \<Rightarrow> Inl Undefined | Some x \<Rightarrow> Inr x))"

lemma deref_simps [simp]:
  "deref h None = Inl Undefined"
  "h b = Some x \<Longrightarrow> deref h (Some b) = Inr x"
  by (simp_all add: deref_def)

text \<open>No more than 2^31 headers are ever tracked.\<close>

lemma tracker_cap_le:
  assumes "tracker_wf tk"
  shows "unat (tk_cap tk) \<le> 2 ^ 31"
proof -
  have "(2::nat) ^ k \<le> 2 ^ 23" if "k \<le> 23" for k
    using that by (rule power_increasing) simp
  with assms show ?thesis by (fastforce simp: tracker_wf_def)
qed

lemma tracked_at_most: "tracker_wf tk \<Longrightarrow> length (tk_objs tk) \<le> 2 ^ 31"
  using tracker_cap_le [of tk] by (simp add: tracker_wf_def)

subsection \<open>The interface\<close>

text \<open>What a file relies on when it tracks a header: success appends, a refusal changes
  nothing, the capacity invariant is kept, requests are only ever added, and a refusal happens
  only at the ceiling or when the allocator refuses.\<close>

locale tracking =
  fixes track :: "allocator \<Rightarrow> tracker \<Rightarrow> nat \<Rightarrow> bool \<times> allocator \<times> tracker"
  assumes track_appends:
      "track al tk b = (True, al', tk') \<Longrightarrow> tk_objs tk' = tk_objs tk @ [b]"
    and track_refused: "track al tk b = (False, al', tk') \<Longrightarrow> tk' = tk"
    and track_wf: "track al tk b = (ok, al', tk') \<Longrightarrow> tracker_wf tk \<Longrightarrow> tracker_wf tk'"
    and track_steps: "track al tk b = (ok, al', tk') \<Longrightarrow> al_steps al al'"
    and track_total:
      "tracker_wf tk \<Longrightarrow> length (tk_objs tk) < 2 ^ 31 \<Longrightarrow> al_ok al = (\<lambda>_ _. True) \<Longrightarrow>
        fst (track al tk b)"
    and track_ceiling:
      "tracker_wf tk \<Longrightarrow> length (tk_objs tk) = 2 ^ 31 \<Longrightarrow> \<not> fst (track al tk b)"
begin

text \<open>A header that was just allocated and is now tracked keeps the tracked blocks and the
  live blocks the same; one whose tracking was refused is freed and changes neither.\<close>

lemma tracks_new:
  assumes t: "tracks_heap al tk h" and n: "al_next al \<le> b" and b: "b < al_next al1"
    and le: "al_next al \<le> al_next al1"
    and tr: "track al1 tk b = (True, al', tk')"
  shows "tracks_heap al' tk' (h(b \<mapsto> x))"
proof -
  from tr have o: "tk_objs tk' = tk_objs tk @ [b]" by (rule track_appends)
  from tr have m: "al_next al1 \<le> al_next al'" using track_steps by (simp add: al_steps_def)
  from t n have "b \<notin> dom h" unfolding tracks_heap_def by (meson leD)
  moreover from t le m have "\<forall>c \<in> dom h. c < al_next al'"
    unfolding tracks_heap_def by (meson le_trans less_le_trans)
  ultimately show ?thesis using t o b m by (auto simp: tracks_heap_def)
qed

lemma tracks_refused:
  assumes t: "tracks_heap al tk h" and le: "al_next al \<le> al_next al1"
    and tr: "track al1 tk b = (False, al', tk')"
  shows "tracks_heap al' tk' h"
  using tracks_heap_mono [OF t] le track_steps [OF tr] track_refused [OF tr]
  by (simp add: al_steps_def)

text \<open>The two together, for the invariant.\<close>

lemma store_new:
  assumes s: "tracked_store al tk h" and n: "al_next al \<le> b" and b: "b < al_next al1"
    and le: "al_steps al al1" and tr: "track al1 tk b = (ok, al', tk')"
  shows "tracked_store al' tk' (if ok then h(b \<mapsto> x) else h)" and "al_steps al al'" and "h b = None"
proof -
  from s have wf: "tracker_wf tk" and t: "tracks_heap al tk h" by (simp_all add: tracked_store_def)
  from le have le': "al_next al \<le> al_next al1" by (simp add: al_steps_def)
  have wf': "tracker_wf tk'" using tr wf by (rule track_wf)
  show "tracked_store al' tk' (if ok then h(b \<mapsto> x) else h)"
  proof (cases ok)
    case True
    with tr have "tracks_heap al' tk' (h(b \<mapsto> x))" by (intro tracks_new [OF t n b le']) simp
    with wf' True show ?thesis by (simp add: tracked_store_def)
  next
    case False
    with tr have "tracks_heap al' tk' h" by (intro tracks_refused [OF t le']) simp
    with wf' False show ?thesis by (simp add: tracked_store_def)
  qed
  show "al_steps al al'" using le track_steps [OF tr] by (rule al_steps_trans)
  show "h b = None" using s n by (rule tracked_store_fresh)
qed

end

subsection \<open>Append with doubling, as the four files write it\<close>

definition track_push :: "allocator \<Rightarrow> tracker \<Rightarrow> nat \<Rightarrow> bool \<times> allocator \<times> tracker" where
  "track_push al tk b =
     (if length (tk_objs tk) \<ge> unat (tk_cap tk) then
        if tk_cap tk > UINT32_MAX div 2 then (False, al, tk)
        else let new_cap = (if tk_cap tk \<noteq> 0 then tk_cap tk * 2 else 256) in
          (case c_malloc (ucast new_cap * 8) al of
             (None, al') \<Rightarrow> (False, al', tk)
           | (Some _, al') \<Rightarrow>
               (True, al', \<lparr>tk_objs = tk_objs tk @ [b], tk_cap = new_cap\<rparr>))
      else (True, al, tk\<lparr>tk_objs := tk_objs tk @ [b]\<rparr>))"

lemma doubled_capacity_wf:
  assumes wf: "tracker_wf tk" and full: "length (tk_objs tk) \<ge> unat (tk_cap tk)"
    and small: "\<not> tk_cap tk > UINT32_MAX div 2"
  shows "tracker_wf \<lparr>tk_objs = tk_objs tk @ [b],
           tk_cap = (if tk_cap tk \<noteq> 0 then tk_cap tk * 2 else 256)\<rparr>"
proof (cases "tk_cap tk = 0")
  case True
  with wf show ?thesis by (auto simp: tracker_wf_def intro: exI [of _ 0])
next
  case False
  with wf obtain k where k: "unat (tk_cap tk) = 256 * 2 ^ k" by (auto simp: tracker_wf_def)
  have d: "unat (tk_cap tk * 2) = 2 * unat (tk_cap tk)" using small by (rule unat_double)
  from small have "unat (tk_cap tk) < 2 ^ 31" by (simp add: word_less_nat_alt unat_div)
  with k have "(2::nat) ^ (8 + k) < 2 ^ 31" by (simp add: power_add)
  then have "8 + k < 31" by (rule power_less_imp_less_exp [rotated]) simp
  then have "Suc k \<le> 23" by simp
  moreover have "unat (tk_cap tk * 2) = 256 * 2 ^ Suc k" using d k by simp
  moreover have "Suc (length (tk_objs tk)) \<le> unat (tk_cap tk * 2)"
    using wf full False d k by (simp add: tracker_wf_def)
  ultimately show ?thesis using False unfolding tracker_wf_def
    by (auto intro!: exI [of _ "Suc k"])
qed

lemma tracking_track_push: "tracking track_push"
proof
  fix al tk b al' tk' ok
  show "track_push al tk b = (True, al', tk') \<Longrightarrow> tk_objs tk' = tk_objs tk @ [b]"
    by (auto simp: track_push_def Let_def split: if_splits option.splits prod.splits)
  show "track_push al tk b = (False, al', tk') \<Longrightarrow> tk' = tk"
    by (auto simp: track_push_def Let_def split: if_splits option.splits prod.splits)
  show "track_push al tk b = (ok, al', tk') \<Longrightarrow> al_steps al al'"
    by (auto simp: track_push_def Let_def c_malloc_def al_steps_def split: if_splits)
  assume wf: "tracker_wf tk"
  show "tracker_wf tk'" if "track_push al tk b = (ok, al', tk')"
  proof (cases "length (tk_objs tk) \<ge> unat (tk_cap tk)")
    case True
    with that wf doubled_capacity_wf [OF wf True, of b] show ?thesis
      by (auto simp: track_push_def Let_def split: if_splits option.splits prod.splits)
  next
    case False
    with that wf show ?thesis by (auto simp: track_push_def tracker_wf_def)
  qed
  show "fst (track_push al tk b)"
    if "length (tk_objs tk) < 2 ^ 31" and "al_ok al = (\<lambda>_ _. True)"
  proof (cases "tk_cap tk > UINT32_MAX div 2")
    case True
    then have "2 ^ 31 \<le> unat (tk_cap tk)" by (simp add: word_less_nat_alt unat_div)
    with that show ?thesis by (simp add: track_push_def)
  next
    case False
    with that show ?thesis by (simp add: track_push_def Let_def c_malloc_def)
  qed
  show "\<not> fst (track_push al tk b)" if "length (tk_objs tk) = 2 ^ 31"
  proof -
    from wf that have "unat (tk_cap tk) \<ge> 2 ^ 31" by (simp add: tracker_wf_def)
    moreover from wf have "unat (tk_cap tk) \<le> 2 ^ 31" by (rule tracker_cap_le)
    ultimately show ?thesis using that by (simp add: track_push_def word_less_nat_alt unat_div)
  qed
qed

end
