(* ===== verification/Nova_Attrset.thy ===== *)
theory Nova_Attrset
  imports Nova_Track
begin

section \<open>nn_attrset.c: attribute sets\<close>

text \<open>
  An attribute set is three parallel arrays of one capacity: keys, positions and values. Keys
  and positions share one block, the keys first and the positions from index \<open>capacity\<close> on.
  Inserts append rows; \<open>nn_attrset_freeze\<close> sorts them by key and keeps the last row of every
  key; lookups search the sorted keys. This theory holds the state and the operations as the C
  has them, with their loops and their array accesses; \<open>Nova_Attrset_Rows\<close> and
  \<open>Nova_Attrset_Spec\<close> hold what they compute.
\<close>

subsection \<open>State\<close>

abbreviation NN_ATTRSET_MAX_ENTRIES :: u32 where
  "NN_ATTRSET_MAX_ENTRIES \<equiv> UINT32_MAX"

abbreviation NN_ATTRSET_NOT_FOUND :: u32 where
  "NN_ATTRSET_NOT_FOUND \<equiv> UINT32_MAX"

text \<open>
  \<open>struct nn_attrset\<close>. \<open>as_names\<close> is the block of keys and positions, \<open>as_positions\<close> the index
  in it that the \<open>positions\<close> pointer points to. The lists are as long as their allocation.
\<close>

record attrset =
  as_names :: "u32 list"
  as_positions :: nat
  as_values :: "val list"
  as_count :: u32
  as_capacity :: u32
  as_frozen :: u32

text \<open>The file's globals (\<open>g_tracked\<close> with its count and capacity) and the sets that are alive.\<close>

record attr_store =
  at_heap :: "nat \<rightharpoonup> attrset"
  at_tracked :: tracker

definition attr_store_init :: attr_store where
  "attr_store_init = \<lparr>at_heap = Map.empty, at_tracked = tracker_empty\<rparr>"

subsection \<open>Tracking\<close>

definition nn_attrset_track :: "allocator \<Rightarrow> tracker \<Rightarrow> nat \<Rightarrow> bool \<times> allocator \<times> tracker" where
  "nn_attrset_track al tk b =
     (if length (tk_objs tk) \<ge> unat (tk_cap tk) then
        if tk_cap tk > UINT32_MAX div 2 then (False, al, tk)
        else let new_cap = (if tk_cap tk \<noteq> 0 then tk_cap tk * 2 else 256) in
          (case c_malloc (ucast new_cap * 8) al of
             (None, al') \<Rightarrow> (False, al', tk)
           | (Some _, al') \<Rightarrow>
               (True, al', \<lparr>tk_objs = tk_objs tk @ [b], tk_cap = new_cap\<rparr>))
      else (True, al, tk\<lparr>tk_objs := tk_objs tk @ [b]\<rparr>))"

lemma nn_attrset_track_push: "nn_attrset_track = track_push"
  by (simp add: fun_eq_iff nn_attrset_track_def track_push_def)

interpretation attrs: tracking nn_attrset_track
  unfolding nn_attrset_track_push by (rule tracking_track_push)

text \<open>\<open>nn_attrset_free\<close> of a set: its two arrays belong to it and go with it.\<close>

definition nn_attrset_free :: "nat option \<Rightarrow> (nat \<rightharpoonup> attrset) \<Rightarrow> (nat \<rightharpoonup> attrset) c_res" where
  "nn_attrset_free p h = (case p of None \<Rightarrow> Inr h | Some b \<Rightarrow> c_free b h)"

fun attrset_free_loop :: "nat list \<Rightarrow> (nat \<rightharpoonup> attrset) \<Rightarrow> (nat \<rightharpoonup> attrset) c_res" where
  "attrset_free_loop [] h = Inr h"
| "attrset_free_loop (b # bs) h = res_bind (nn_attrset_free (Some b) h) (attrset_free_loop bs)"

definition nn_attrset_free_all :: "attr_store \<Rightarrow> attr_store c_res" where
  "nn_attrset_free_all st =
     res_bind (attrset_free_loop (tk_objs (at_tracked st)) (at_heap st)) (\<lambda>h.
       Inr \<lparr>at_heap = h, at_tracked = tracker_empty\<rparr>)"

subsection \<open>Rows\<close>

text \<open>
  The code moves the three columns of a row together, always as
  \<open>keys[i] = ..; positions[i] = ..; values[i] = ..\<close>.
\<close>

type_synonym row = "u32 \<times> u32 \<times> val"

definition get_row :: "attrset \<Rightarrow> nat \<Rightarrow> row" where
  "get_row s i = (as_names s ! i, as_names s ! (as_positions s + i), as_values s ! i)"

definition put_row :: "attrset \<Rightarrow> nat \<Rightarrow> row \<Rightarrow> attrset" where
  "put_row s i r = (case r of (key, pos, v) \<Rightarrow>
     s\<lparr>as_names := (as_names s)[i := key, as_positions s + i := pos],
       as_values := (as_values s)[i := v]\<rparr>)"

subsection \<open>Growth and insertion\<close>

definition names_block_bytes :: "u32 \<Rightarrow> u64" where
  "names_block_bytes capacity = ucast capacity * (4 + 4)"

text \<open>Each \<open>realloc\<close> keeps what fits of the old block and leaves the rest unspecified.\<close>

definition grow :: "allocator \<Rightarrow> attrset \<Rightarrow> bool \<times> allocator \<times> attrset" where
  "grow al s =
     (if as_capacity s \<ge> NN_ATTRSET_MAX_ENTRIES then (False, al, s)
      else let doubled = (ucast (as_capacity s) :: u64) * 2;
               new_cap = (if doubled > ucast NN_ATTRSET_MAX_ENTRIES
                          then NN_ATTRSET_MAX_ENTRIES else (ucast doubled :: u32))
      in (case c_malloc (ucast new_cap * 8) al of
            (None, al1) \<Rightarrow> (False, al1, s)
          | (Some vb, al1) \<Rightarrow>
        let s1 = s\<lparr>as_values := take (unat new_cap) (as_values s) @
                     fill_val al vb (length (as_values s)) (unat new_cap)\<rparr>
        in (case c_malloc (names_block_bytes new_cap) al1 of
              (None, al2) \<Rightarrow> (False, al2, s1)
            | (Some kb, al2) \<Rightarrow>
          let grown = as_names s1 @ fill_u32 al1 kb (length (as_names s1)) (2 * unat new_cap)
          in (True, al2, s1\<lparr>
                as_names := memmove_in (unat new_cap) (unat (as_capacity s1)) (unat (as_count s1)) grown,
                as_positions := unat new_cap,
                as_capacity := new_cap\<rparr>))))"

definition nn_attrset_insert ::
  "allocator \<Rightarrow> attrset \<Rightarrow> u32 \<Rightarrow> val \<Rightarrow> u32 \<Rightarrow> bool \<times> allocator \<times> attrset" where
  "nn_attrset_insert al s key v pos =
     (case (if as_count s \<ge> as_capacity s then grow al s else (True, al, s)) of
        (ok, al', s') \<Rightarrow>
          if \<not> ok then (False, al', s')
          else (True, al', (put_row s' (unat (as_count s')) (key, pos, v))
                             \<lparr>as_count := as_count s' + 1\<rparr>))"

definition nn_attrset_new ::
  "u32 \<Rightarrow> allocator \<Rightarrow> attr_store \<Rightarrow> nat option \<times> allocator \<times> attr_store" where
  "nn_attrset_new capacity al st =
     (case c_malloc 40 al of
        (None, al1) \<Rightarrow> (None, al1, st)
      | (Some p, al1) \<Rightarrow>
     (let cap = (if capacity = 0 then 8 else capacity) in
      case c_malloc (names_block_bytes cap) al1 of (k, al2) \<Rightarrow>
      case c_malloc (ucast cap * 8) al2 of (v, al3) \<Rightarrow>
      (case (k, v) of
         (Some kb, Some vb) \<Rightarrow>
           (case nn_attrset_track al3 (at_tracked st) p of (ok, al4, tk) \<Rightarrow>
              if \<not> ok then (None, al4, st\<lparr>at_tracked := tk\<rparr>)
              else (Some p, al4, st\<lparr>
                at_heap := (at_heap st)(p \<mapsto>
                  \<lparr>as_names = fill_u32 al1 kb 0 (2 * unat cap), as_positions = unat cap,
                   as_values = fill_val al2 vb 0 (unat cap),
                   as_count = 0, as_capacity = cap, as_frozen = 0\<rparr>),
                at_tracked := tk\<rparr>))
       | _ \<Rightarrow> (None, al3, st))))"

subsection \<open>Freezing\<close>

text \<open>The insertion sort: the inner loop moves rows with a greater key one place up.\<close>

fun shift_up :: "u32 \<Rightarrow> nat \<Rightarrow> attrset \<Rightarrow> nat \<times> attrset" where
  "shift_up key 0 s = (0, s)"
| "shift_up key (Suc j) s =
     (if as_names s ! j > key then shift_up key j (put_row s (Suc j) (get_row s j))
      else (Suc j, s))"

definition insertion_pass :: "nat \<Rightarrow> attrset \<Rightarrow> attrset" where
  "insertion_pass i s =
     (let r = get_row s i in case shift_up (fst r) i s of (j, s') \<Rightarrow> put_row s' j r)"

definition insertion_sort :: "attrset \<Rightarrow> attrset" where
  "insertion_sort s = fold insertion_pass [1..<unat (as_count s)] s"

text \<open>\<open>nn_tagged_entry_t\<close> and the comparator handed to \<open>qsort\<close>.\<close>

record tagged_entry =
  te_key :: u32
  te_idx :: u32
  te_pos :: u32
  te_value :: val

definition cmp_tagged :: "tagged_entry \<Rightarrow> tagged_entry \<Rightarrow> int" where
  "cmp_tagged ta tb =
     (if te_key ta < te_key tb then -1
      else if te_key ta > te_key tb then 1
      else if te_idx ta < te_idx tb then -1
      else if te_idx ta > te_idx tb then 1
      else 0)"

definition tag_row :: "attrset \<Rightarrow> nat \<Rightarrow> tagged_entry" where
  "tag_row s i = (case get_row s i of (key, pos, v) \<Rightarrow>
     \<lparr>te_key = key, te_idx = of_nat i, te_pos = pos, te_value = v\<rparr>)"

definition untag_row :: "tagged_entry \<Rightarrow> row" where
  "untag_row t = (te_key t, te_pos t, te_value t)"

text \<open>
  \<open>qsort\<close> is the standard library's, a parameter: it is given the comparator and the array and
  answers the array sorted.
\<close>

type_synonym qsort_fn = "(tagged_entry \<Rightarrow> tagged_entry \<Rightarrow> int) \<Rightarrow> tagged_entry list \<Rightarrow> tagged_entry list"

definition tagged_sort :: "qsort_fn \<Rightarrow> attrset \<Rightarrow> attrset" where
  "tagged_sort qsort s =
     (let tagged = qsort cmp_tagged (map (tag_row s) [0..<unat (as_count s)])
      in fold (\<lambda>i s. put_row s i (untag_row (tagged ! i))) [0..<unat (as_count s)] s)"

text \<open>The deduplication: the loop variables are the state (\<open>write\<close>, the set) and \<open>read\<close>.\<close>

definition dedup_step :: "nat \<Rightarrow> nat \<times> attrset \<Rightarrow> nat \<times> attrset" where
  "dedup_step read ws = (case ws of (write, s) \<Rightarrow>
     if read + 1 < unat (as_count s) \<and> as_names s ! read = as_names s ! (read + 1) then (write, s)
     else (write + 1, if write \<noteq> read then put_row s write (get_row s read) else s))"

definition dedup :: "attrset \<Rightarrow> attrset" where
  "dedup s = (case fold dedup_step [0..<unat (as_count s)] (0, s) of
     (write, s') \<Rightarrow> s'\<lparr>as_count := of_nat write\<rparr>)"

definition nn_attrset_freeze :: "qsort_fn \<Rightarrow> allocator \<Rightarrow> attrset \<Rightarrow> allocator \<times> attrset" where
  "nn_attrset_freeze qsort al s =
     (if as_frozen s \<noteq> 0 then (al, s)
      else if as_count s \<le> 1 then (al, s\<lparr>as_frozen := 1\<rparr>)
      else case (if as_count s \<le> 64 then (al, insertion_sort s)
                 else case c_malloc (ucast (as_count s) * 24) al of
                        (None, al') \<Rightarrow> (al', insertion_sort s)
                      | (Some _, al') \<Rightarrow> (al', tagged_sort qsort s)) of
        (al', s') \<Rightarrow> (al', (dedup s')\<lparr>as_frozen := 1\<rparr>))"

subsection \<open>Search\<close>

function bsearch_loop :: "u32 list \<Rightarrow> u32 \<Rightarrow> u32 \<Rightarrow> u32 \<Rightarrow> u32" where
  "bsearch_loop keys key lo hi =
     (if lo < hi then
        let mid = lo + (hi - lo) div 2 in
        if keys ! unat mid < key then bsearch_loop keys key (mid + 1) hi
        else if keys ! unat mid > key then bsearch_loop keys key lo mid
        else mid
      else NN_ATTRSET_NOT_FOUND)"
  by pat_completeness auto

lemma bsearch_mid:
  fixes lo hi :: u32
  assumes "lo < hi"
  shows "unat (lo + (hi - lo) div 2) = (unat lo + unat hi) div 2"
    and "unat (lo + (hi - lo) div 2 + 1) = Suc ((unat lo + unat hi) div 2)"
proof -
  have l: "unat lo < unat hi" using assms by (simp add: word_less_nat_alt)
  have d: "unat ((hi - lo) div 2) = (unat hi - unat lo) div 2"
    using l by (simp add: unat_div unat_sub word_le_nat_alt)
  have "unat lo + (unat hi - unat lo) div 2 = (unat lo + unat hi) div 2" using l by linarith
  with d l unat_u32_less [of hi] show m: "unat (lo + (hi - lo) div 2) = (unat lo + unat hi) div 2"
    by (simp add: unat_word_ariths)
  show "unat (lo + (hi - lo) div 2 + 1) = Suc ((unat lo + unat hi) div 2)"
    using m l unat_u32_less [of hi] by (subst unat_Suc_u32) linarith+
qed

termination bsearch_loop
proof (relation "measure (\<lambda>(keys, key, lo, hi). unat hi - unat lo)", goal_cases)
  case 1
  show ?case by simp
next
  case (2 keys key lo hi mid)
  then have "unat lo < unat hi" by (simp add: word_less_nat_alt)
  with 2 bsearch_mid(2) [of lo hi] show ?case by simp
next
  case (3 keys key lo hi mid)
  then have "unat lo < unat hi" by (simp add: word_less_nat_alt)
  with 3 bsearch_mid(1) [of lo hi] show ?case by simp
qed

declare bsearch_loop.simps [simp del]

definition bsearch_key :: "u32 list \<Rightarrow> u32 \<Rightarrow> u32 \<Rightarrow> u32" where
  "bsearch_key keys cnt key = bsearch_loop keys key 0 cnt"

definition nn_attrset_lookup :: "attrset \<Rightarrow> u32 \<Rightarrow> val" where
  "nn_attrset_lookup s key =
     (let idx = bsearch_key (as_names s) (as_count s) key in
      if idx = NN_ATTRSET_NOT_FOUND then NULL else as_values s ! unat idx)"

definition nn_attrset_index :: "attrset \<Rightarrow> u32 \<Rightarrow> u32" where
  "nn_attrset_index s key = bsearch_key (as_names s) (as_count s) key"

text \<open>
  The accessors by index. An index past the count aborts a debug build; in a release build it
  reads or writes whatever the array has there, and past the array it is undefined.
\<close>

definition nn_attrset_set_value :: "bool \<Rightarrow> attrset \<Rightarrow> u32 \<Rightarrow> val \<Rightarrow> attrset c_res" where
  "nn_attrset_set_value dbg s idx v =
     NN_ASSERT dbg (idx < as_count s)
       (if unat idx < length (as_values s)
        then Inr (s\<lparr>as_values := (as_values s)[unat idx := v]\<rparr>) else Inl Undefined)"

definition nn_attrset_get_value :: "bool \<Rightarrow> attrset \<Rightarrow> u32 \<Rightarrow> val c_res" where
  "nn_attrset_get_value dbg s idx =
     NN_ASSERT dbg (idx < as_count s)
       (if unat idx < length (as_values s) then Inr (as_values s ! unat idx) else Inl Undefined)"

definition nn_attrset_get_key :: "bool \<Rightarrow> attrset \<Rightarrow> u32 \<Rightarrow> u32 c_res" where
  "nn_attrset_get_key dbg s idx =
     NN_ASSERT dbg (idx < as_count s)
       (if unat idx < length (as_names s) then Inr (as_names s ! unat idx) else Inl Undefined)"

definition nn_attrset_get_pos :: "bool \<Rightarrow> attrset \<Rightarrow> u32 \<Rightarrow> u32 c_res" where
  "nn_attrset_get_pos dbg s idx =
     NN_ASSERT dbg (idx < as_count s)
       (if as_positions s + unat idx < length (as_names s)
        then Inr (as_names s ! (as_positions s + unat idx)) else Inl Undefined)"

definition nn_attrset_size :: "attrset \<Rightarrow> u32" where
  "nn_attrset_size s = as_count s"

text \<open>The keys a caller reads through the returned pointer.\<close>

definition nn_attrset_keys_ptr :: "attrset \<Rightarrow> u32 list" where
  "nn_attrset_keys_ptr s = as_names s"

subsection \<open>Set operations\<close>

text \<open>Inserts row \<open>i\<close> of \<open>src\<close>.\<close>

definition insert_row :: "allocator \<Rightarrow> attrset \<Rightarrow> attrset \<Rightarrow> nat \<Rightarrow> bool \<times> allocator \<times> attrset" where
  "insert_row al r src i =
     (case get_row src i of (key, pos, v) \<Rightarrow> nn_attrset_insert al r key v pos)"

text \<open>The loop over what is left of one side.\<close>

function copy_rest :: "allocator \<Rightarrow> attrset \<Rightarrow> attrset \<Rightarrow> nat \<Rightarrow> bool \<times> allocator \<times> attrset" where
  "copy_rest al r src i =
     (if i < unat (as_count src) then
        (case insert_row al r src i of (ok, al', r') \<Rightarrow>
           if ok then copy_rest al' r' src (i + 1) else (False, al', r'))
      else (True, al, r))"
  by pat_completeness auto
termination by (relation "measure (\<lambda>(al, r, src, i). unat (as_count src) - i)") auto

declare copy_rest.simps [simp del]

function merge_loop ::
  "allocator \<Rightarrow> attrset \<Rightarrow> attrset \<Rightarrow> attrset \<Rightarrow> nat \<Rightarrow> nat \<Rightarrow> bool \<times> allocator \<times> attrset" where
  "merge_loop al r a b ia ib =
     (if ia < unat (as_count a) \<and> ib < unat (as_count b) then
        if as_names a ! ia < as_names b ! ib then
          (case insert_row al r a ia of (ok, al', r') \<Rightarrow>
             if ok then merge_loop al' r' a b (ia + 1) ib else (False, al', r'))
        else if as_names a ! ia > as_names b ! ib then
          (case insert_row al r b ib of (ok, al', r') \<Rightarrow>
             if ok then merge_loop al' r' a b ia (ib + 1) else (False, al', r'))
        else
          (case insert_row al r b ib of (ok, al', r') \<Rightarrow>
             if ok then merge_loop al' r' a b (ia + 1) (ib + 1) else (False, al', r'))
      else (case copy_rest al r a ia of (ok, al', r') \<Rightarrow>
              if ok then copy_rest al' r' b ib else (False, al', r')))"
  by pat_completeness auto
termination
  by (relation "measure (\<lambda>(al, r, a, b, ia, ib). (unat (as_count a) - ia) + (unat (as_count b) - ib))")
    auto

declare merge_loop.simps [simp del]

text \<open>A result that could not be filled stays in the heap and tracked, and NULL is returned.\<close>

definition finish_result ::
  "nat \<Rightarrow> attr_store \<Rightarrow> bool \<times> allocator \<times> attrset \<Rightarrow> (nat option \<times> allocator \<times> attr_store) c_res" where
  "finish_result p st res = (case res of (ok, al, r) \<Rightarrow>
     if ok then Inr (Some p, al, st\<lparr>at_heap := (at_heap st)(p \<mapsto> r\<lparr>as_frozen := 1\<rparr>)\<rparr>)
     else Inr (None, al, st\<lparr>at_heap := (at_heap st)(p \<mapsto> r)\<rparr>))"

definition nn_attrset_union ::
  "bool \<Rightarrow> allocator \<Rightarrow> attr_store \<Rightarrow> nat \<Rightarrow> nat \<Rightarrow> (nat option \<times> allocator \<times> attr_store) c_res" where
  "nn_attrset_union dbg al st pa pb =
     (case (at_heap st pa, at_heap st pb) of
        (Some a, Some b) \<Rightarrow>
          NN_ASSERT dbg (as_frozen a \<noteq> 0 \<and> as_frozen b \<noteq> 0)
            (let total = (ucast (as_count a) :: u64) + ucast (as_count b);
                 cap = (if total > ucast NN_ATTRSET_MAX_ENTRIES
                        then NN_ATTRSET_MAX_ENTRIES else (ucast total :: u32))
             in (case nn_attrset_new cap al st of
                   (None, al', st') \<Rightarrow> Inr (None, al', st')
                 | (Some p, al', st') \<Rightarrow>
                     (case at_heap st' p of
                        None \<Rightarrow> Inl Undefined
                      | Some r \<Rightarrow> finish_result p st' (merge_loop al' r a b 0 0))))
      | _ \<Rightarrow> Inl Undefined)"

text \<open>The scan of the removal list, up to the first match.\<close>

fun skip_scan :: "u32 \<Rightarrow> u32 list \<Rightarrow> nat \<Rightarrow> bool c_res" where
  "skip_scan key keys 0 = Inr False"
| "skip_scan key [] (Suc n) = Inl Undefined"
| "skip_scan key (k # ks) (Suc n) = (if key = k then Inr True else skip_scan key ks n)"

function remove_loop ::
  "allocator \<Rightarrow> attrset \<Rightarrow> attrset \<Rightarrow> u32 list \<Rightarrow> nat \<Rightarrow> nat \<Rightarrow> (bool \<times> allocator \<times> attrset) c_res" where
  "remove_loop al r s keys key_count i =
     (if i < unat (as_count s) then
        res_bind (skip_scan (as_names s ! i) keys key_count) (\<lambda>skip.
          if skip then remove_loop al r s keys key_count (i + 1)
          else (case insert_row al r s i of (ok, al', r') \<Rightarrow>
                  if ok then remove_loop al' r' s keys key_count (i + 1) else Inr (False, al', r')))
      else Inr (True, al, r))"
  by pat_completeness auto
termination by (relation "measure (\<lambda>(al, r, s, keys, n, i). unat (as_count s) - i)") auto

declare remove_loop.simps [simp del]

definition nn_attrset_remove_keys ::
  "bool \<Rightarrow> allocator \<Rightarrow> attr_store \<Rightarrow> nat \<Rightarrow> u32 list \<Rightarrow> u32 \<Rightarrow>
    (nat option \<times> allocator \<times> attr_store) c_res" where
  "nn_attrset_remove_keys dbg al st ps keys key_count =
     (case at_heap st ps of
        None \<Rightarrow> Inl Undefined
      | Some s \<Rightarrow>
          NN_ASSERT dbg (as_frozen s \<noteq> 0)
            (case nn_attrset_new (as_count s) al st of
               (None, al', st') \<Rightarrow> Inr (None, al', st')
             | (Some p, al', st') \<Rightarrow>
                 (case at_heap st' p of
                    None \<Rightarrow> Inl Undefined
                  | Some r \<Rightarrow>
                      res_bind (remove_loop al' r s keys (unat key_count) 0) (finish_result p st'))))"

end
