(* ===== verification/Nova_Attrset_Rows.thy ===== *)
theory Nova_Attrset_Rows
  imports Nova_Attrset
begin

section \<open>Attribute sets as lists of rows\<close>

text \<open>
  The abstraction of a set is the list of its rows. Every array operation of nn_attrset.c is an
  operation on that list; the sort, the deduplication and the merge are then list functions.
\<close>

definition rows :: "attrset \<Rightarrow> row list" where
  "rows s = map (get_row s) [0..<unat (as_count s)]"

text \<open>The shape of the arrays. The values may be longer than the capacity, after a growth whose
  second allocation was refused.\<close>

definition attrset_wf :: "attrset \<Rightarrow> bool" where
  "attrset_wf s \<longleftrightarrow> length (as_names s) = 2 * unat (as_capacity s) \<and>
     as_positions s = unat (as_capacity s) \<and> unat (as_capacity s) \<le> length (as_values s) \<and>
     as_count s \<le> as_capacity s \<and> 0 < as_capacity s"

lemma length_rows [simp]: "length (rows s) = unat (as_count s)"
  by (simp add: rows_def)

lemma nth_rows: "i < unat (as_count s) \<Longrightarrow> rows s ! i = get_row s i"
  by (simp add: rows_def)

lemma rows_key: "i < unat (as_count s) \<Longrightarrow> fst (rows s ! i) = as_names s ! i"
  by (simp add: nth_rows get_row_def)

lemma attrset_wf_count: "attrset_wf s \<Longrightarrow> unat (as_count s) \<le> unat (as_capacity s)"
  by (simp add: attrset_wf_def word_le_nat_alt)

subsection \<open>Moving rows\<close>

lemma put_row_fields [simp]:
  "as_count (put_row s i r) = as_count s"
  "as_capacity (put_row s i r) = as_capacity s"
  "as_positions (put_row s i r) = as_positions s"
  "as_frozen (put_row s i r) = as_frozen s"
  "length (as_names (put_row s i r)) = length (as_names s)"
  "length (as_values (put_row s i r)) = length (as_values s)"
  by (cases r; simp add: put_row_def)+

lemma attrset_wf_put_row [simp]: "attrset_wf (put_row s i r) \<longleftrightarrow> attrset_wf s"
  by (simp add: attrset_wf_def)

lemma get_put_row:
  assumes "attrset_wf s" and "i < unat (as_capacity s)" and "j < unat (as_capacity s)"
  shows "get_row (put_row s i r) j = (if i = j then r else get_row s j)"
  using assms by (cases r) (auto simp: put_row_def get_row_def attrset_wf_def nth_list_update)

lemma rows_put_row:
  assumes "attrset_wf s" and "i < unat (as_count s)"
  shows "rows (put_row s i r) = (rows s)[i := r]"
proof (rule nth_equalityI)
  fix j assume "j < length (rows (put_row s i r))"
  then have "j < unat (as_count s)" by simp
  with assms attrset_wf_count [OF assms(1)] show "rows (put_row s i r) ! j = (rows s)[i := r] ! j"
    by (simp add: nth_rows get_put_row nth_list_update)
qed simp

lemma rows_frozen [simp]: "rows (s\<lparr>as_frozen := f\<rparr>) = rows s"
  by (simp add: rows_def get_row_def)

lemma attrset_wf_frozen [simp]: "attrset_wf (s\<lparr>as_frozen := f\<rparr>) = attrset_wf s"
  by (simp add: attrset_wf_def)

subsection \<open>Growth and insertion\<close>

lemma grown_capacity:
  fixes c :: u32
  assumes "\<not> c \<ge> UINT32_MAX" and "0 < c"
  shows "unat c < unat (if (ucast c :: u64) * 2 > ucast UINT32_MAX then UINT32_MAX
                        else (ucast ((ucast c :: u64) * 2) :: u32))"
proof -
  have c: "unat c < 4294967295" using assms(1) by (simp add: word_le_nat_alt)
  have d: "unat ((ucast c :: u64) * 2) = 2 * unat c"
    using c by (simp add: unat_word_ariths)
  show ?thesis
  proof (cases "(ucast c :: u64) * 2 > ucast UINT32_MAX")
    case False
    then have "2 * unat c \<le> 4294967295" using d by (simp add: word_less_nat_alt)
    then have "unat (ucast ((ucast c :: u64) * 2) :: u32) = 2 * unat c"
      using d by (subst unat_ucast_32) simp_all
    with False assms(2) show ?thesis by (simp add: word_less_nat_alt)
  qed (use c in simp)
qed

text \<open>What growing leaves alone, and what it adds.\<close>

definition grown_to :: "attrset \<Rightarrow> bool \<Rightarrow> attrset \<Rightarrow> bool" where
  "grown_to s ok s' \<longleftrightarrow> attrset_wf s' \<and> rows s' = rows s \<and> as_count s' = as_count s \<and>
     as_frozen s' = as_frozen s \<and>
     (if ok then as_capacity s < as_capacity s' else as_capacity s' = as_capacity s)"

lemma grow_values_kept:
  assumes wf: "attrset_wf s" and "unat (as_capacity s) \<le> n" and "length vs = n - length (as_values s)"
  shows "grown_to s False (s\<lparr>as_values := take n (as_values s) @ vs\<rparr>)"
proof -
  have "rows (s\<lparr>as_values := take n (as_values s) @ vs\<rparr>) = rows s"
    using assms attrset_wf_count [OF wf]
    by (auto simp: rows_def get_row_def attrset_wf_def nth_append)
  with assms show ?thesis by (auto simp: grown_to_def attrset_wf_def)
qed

lemma grow_names_moved:
  assumes wf: "attrset_wf s" and n: "unat (as_capacity s) < unat c"
    and v: "unat c \<le> length (as_values s)" and k: "length ks = 2 * unat c - length (as_names s)"
  shows "grown_to s True (s\<lparr>
    as_names := memmove_in (unat c) (unat (as_capacity s)) (unat (as_count s)) (as_names s @ ks),
    as_positions := unat c, as_capacity := c\<rparr>)"
    (is "grown_to s True ?s'")
proof -
  have "get_row ?s' i = get_row s i" if "i < unat (as_count s)" for i
    using assms attrset_wf_count [OF wf] that
    by (simp add: get_row_def attrset_wf_def nth_memmove_in nth_append)
  then have "rows ?s' = rows s" by (simp add: rows_def)
  with assms attrset_wf_count [OF wf] show ?thesis
    by (auto simp: grown_to_def attrset_wf_def word_less_nat_alt word_le_nat_alt)
qed

lemma grown_to_trans: "grown_to s False s1 \<Longrightarrow> grown_to s1 ok s2 \<Longrightarrow> grown_to s ok s2"
  by (auto simp: grown_to_def)

lemma grow_keeps:
  assumes wf: "attrset_wf s"
  obtains ok al' s' where "grow al s = (ok, al', s')" and "grown_to s ok s'" and "al_steps al al'"
    and "ok \<Longrightarrow> as_capacity s < UINT32_MAX"
    and "al_ok al = (\<lambda>_ _. True) \<Longrightarrow> as_capacity s < UINT32_MAX \<Longrightarrow> ok"
proof (cases "as_capacity s \<ge> NN_ATTRSET_MAX_ENTRIES")
  case True
  with that [of False al s] wf show ?thesis by (simp add: grow_def grown_to_def)
next
  case False
  define c where "c = (if (ucast (as_capacity s) :: u64) * 2 > ucast UINT32_MAX then UINT32_MAX
            else (ucast ((ucast (as_capacity s) :: u64) * 2) :: u32))"
  define vs where "vs = fill_val al (al_next al) (length (as_values s)) (unat c)"
  define s1 where "s1 = s\<lparr>as_values := take (unat c) (as_values s) @ vs\<rparr>"
  let ?al1 = "al\<lparr>al_next := Suc (al_next al)\<rparr>" and ?al2 = "al\<lparr>al_next := Suc (Suc (al_next al))\<rparr>"
  define ks where "ks = fill_u32 ?al1 (Suc (al_next al)) (length (as_names s1)) (2 * unat c)"
  define s2 where "s2 = s1\<lparr>as_names := memmove_in (unat c) (unat (as_capacity s1)) (unat (as_count s1))
      (as_names s1 @ ks), as_positions := unat c, as_capacity := c\<rparr>"
  have call: "grow al s = (if \<not> al_ok al (al_next al) (ucast c * 8) then (False, ?al1, s)
      else if \<not> al_ok al (Suc (al_next al)) (names_block_bytes c) then (False, ?al2, s1)
      else (True, ?al2, s2))"
    using False unfolding grow_def Let_def c_malloc_def c_def [symmetric]
    by (simp add: s2_def ks_def s1_def vs_def)
  have c: "unat (as_capacity s) < unat c"
    unfolding c_def using wf False by (intro grown_capacity) (simp_all add: attrset_wf_def)
  have g1: "grown_to s False s1" unfolding s1_def
    using wf c by (intro grow_values_kept) (simp_all add: vs_def)
  have "grown_to s1 True s2" unfolding s2_def
    using g1 c by (intro grow_names_moved) (auto simp: grown_to_def ks_def s1_def vs_def)
  then have g2: "grown_to s True s2" using g1 grown_to_trans by blast
  have small: "as_capacity s < UINT32_MAX" using False by simp
  have g0: "grown_to s False s" using wf by (simp add: grown_to_def)
  have steps: "al_steps al ?al1" "al_steps al ?al2" by (simp_all add: al_steps_def)
  consider "\<not> al_ok al (al_next al) (ucast c * 8)"
    | "al_ok al (al_next al) (ucast c * 8)" "\<not> al_ok al (Suc (al_next al)) (names_block_bytes c)"
    | "al_ok al (al_next al) (ucast c * 8)" "al_ok al (Suc (al_next al)) (names_block_bytes c)" by blast
  then show ?thesis
  proof cases
    case 1
    then have "al_ok al \<noteq> (\<lambda>_ _. True)" by metis
    with 1 that [of False ?al1 s] g0 steps call show ?thesis by simp
  next
    case 2
    then have "al_ok al \<noteq> (\<lambda>_ _. True)" by metis
    with 2 that [of False ?al2 s1] g1 steps call show ?thesis by simp
  next
    case 3
    with that [of True ?al2 s2] g2 steps call small show ?thesis by simp
  qed
qed

text \<open>What an insert does: it appends the row, or it changes no row. It is refused only at
  UINT32_MAX rows or by the allocator.\<close>

definition appended :: "attrset \<Rightarrow> row list \<Rightarrow> attrset \<Rightarrow> bool" where
  "appended s new s' \<longleftrightarrow> attrset_wf s' \<and> rows s' = rows s @ new \<and> as_frozen s' = as_frozen s"

lemma appended_refl: "attrset_wf s \<Longrightarrow> appended s [] s"
  by (simp add: appended_def)

lemma appended_trans: "appended s xs s1 \<Longrightarrow> appended s1 ys s2 \<Longrightarrow> appended s (xs @ ys) s2"
  by (simp add: appended_def)

lemma append_row:
  assumes wf: "attrset_wf s" and room: "as_count s < as_capacity s"
  shows "appended s [r] ((put_row s (unat (as_count s)) r)\<lparr>as_count := as_count s + 1\<rparr>)"
    (is "appended s [r] ?s'")
proof -
  have lt: "unat (as_count s) < unat (as_capacity s)" using room by (simp add: word_less_nat_alt)
  then have c: "unat (as_count s + 1) = Suc (unat (as_count s))"
    using unat_u32_less [of "as_capacity s"] by (intro unat_Suc_u32) simp
  have g: "get_row ?s' i = get_row (put_row s (unat (as_count s)) r) i" for i
    by (simp add: get_row_def)
  have "rows ?s' = map (get_row ?s') [0..<unat (as_count s)] @ [get_row ?s' (unat (as_count s))]"
    using c by (simp add: rows_def)
  also have "\<dots> = rows s @ [r]"
    using wf lt by (simp add: g get_put_row rows_def)
  finally have "rows ?s' = rows s @ [r]" .
  moreover have "attrset_wf ?s'"
    using wf lt c by (simp add: attrset_wf_def word_le_nat_alt)
  ultimately show ?thesis by (simp add: appended_def)
qed

lemma insert_appends:
  assumes wf: "attrset_wf s"
  obtains ok al' s' where "nn_attrset_insert al s key v pos = (ok, al', s')"
    and "appended s (if ok then [(key, pos, v)] else []) s'" and "al_steps al al'"
    and "ok \<longrightarrow> unat (as_count s) < 4294967295"
    and "al_ok al = (\<lambda>_ _. True) \<and> unat (as_count s) < 4294967295 \<longrightarrow> ok"
proof (cases "as_count s \<ge> as_capacity s")
  case True
  with wf have eq: "as_count s = as_capacity s" by (simp add: attrset_wf_def)
  obtain ok al' s' where g: "grow al s = (ok, al', s')" "grown_to s ok s'" "al_steps al al'"
    "ok \<Longrightarrow> as_capacity s < UINT32_MAX"
    "al_ok al = (\<lambda>_ _. True) \<Longrightarrow> as_capacity s < UINT32_MAX \<Longrightarrow> ok"
    using grow_keeps [OF wf] by blast
  show ?thesis
  proof (cases ok)
    case False
    with that [of False al' s'] g True eq show ?thesis
      by (auto simp: nn_attrset_insert_def grown_to_def appended_def word_less_nat_alt)
  next
    case ok: True
    then have "attrset_wf s'" "as_count s' < as_capacity s'" "rows s' = rows s" "as_frozen s' = as_frozen s"
      using g(2) eq by (simp_all add: grown_to_def)
    then have "appended s [(key, pos, v)]
        ((put_row s' (unat (as_count s')) (key, pos, v))\<lparr>as_count := as_count s' + 1\<rparr>)"
      using append_row [of s' "(key, pos, v)"] by (simp add: appended_def)
    with that [of True al'] g ok True eq show ?thesis
      by (simp add: nn_attrset_insert_def word_less_nat_alt)
  qed
next
  case False
  then have "unat (as_count s) < 4294967295"
    using unat_u32_less [of "as_capacity s"] by (simp add: word_le_nat_alt)
  with that [of True al] False append_row [OF wf, of "(key, pos, v)"] show ?thesis
    by (simp add: nn_attrset_insert_def)
qed

end
