(* ===== verification/Nova_Attrset_Sort.thy ===== *)
theory Nova_Attrset_Sort
  imports Nova_Attrset_Rows
begin

section \<open>Freezing: a stable sort, then the last row of every key\<close>

text \<open>
  Both sorts of nn_attrset.c are stable permutations by key: the insertion sort for small sets and the tagged sort
  over the qsort of the C library.
\<close>

subsection \<open>Stable permutations\<close>

text \<open>The rows of every key stay in their order; whatever sorts this way gives the one list
  that \<open>sort_key fst\<close> names.\<close>

definition stable_perm :: "('k \<times> 'b) list \<Rightarrow> ('k \<times> 'b) list \<Rightarrow> bool" where
  "stable_perm xs ys \<longleftrightarrow> mset ys = mset xs \<and>
     (\<forall>k. filter (\<lambda>r. fst r = k) ys = filter (\<lambda>r. fst r = k) xs)"

lemma stable_perm_refl [simp]: "stable_perm xs xs"
  by (simp add: stable_perm_def)

lemma stable_perm_trans: "stable_perm xs ys \<Longrightarrow> stable_perm ys zs \<Longrightarrow> stable_perm xs zs"
  by (simp add: stable_perm_def)

lemma stable_perm_length: "stable_perm xs ys \<Longrightarrow> length ys = length xs"
  unfolding stable_perm_def by (metis size_mset)

lemma stable_sorted:
  fixes xs :: "('k::linorder \<times> 'b) list"
  assumes "stable_perm xs ys" and "sorted (map fst ys)"
  shows "ys = sort_key fst xs"
proof (rule properties_for_sort_key [symmetric])
  show "mset ys = mset xs" using assms(1) by (simp add: stable_perm_def)
  have "(\<lambda>r :: 'k \<times> 'b. fst x = fst r) = (\<lambda>r. fst r = fst x)" for x :: "'k \<times> 'b" by auto
  then show "filter (\<lambda>r. fst x = fst r) ys = filter (\<lambda>r. fst x = fst r) xs" if "x \<in> set ys" for x
    using assms(1) by (simp add: stable_perm_def)
qed (rule assms(2))

lemma stable_move:
  assumes "\<forall>x \<in> set seg. fst x \<noteq> fst r"
  shows "stable_perm (pre @ seg @ r # suf) (pre @ r # seg @ suf)"
proof -
  have "filter (\<lambda>x. fst x = fst r) seg = []" using assms by (simp add: filter_empty_conv)
  then show ?thesis by (auto simp: stable_perm_def)
qed

subsection \<open>The insertion sort\<close>

text \<open>The inner loop stops at \<open>m\<close>; the rows from \<open>m\<close> to \<open>j - 1\<close> have moved one up.\<close>

lemma shift_up_rows:
  assumes "attrset_wf s" and "j < unat (as_count s)"
  obtains m s' where "shift_up key j s = (m, s')" and "m \<le> j" and "attrset_wf s'"
    and "as_count s' = as_count s" and "as_frozen s' = as_frozen s"
    and "\<forall>i < unat (as_count s). rows s' ! i = (if m < i \<and> i \<le> j then rows s ! (i - 1) else rows s ! i)"
    and "\<forall>i. m \<le> i \<and> i < j \<longrightarrow> key < fst (rows s ! i)"
    and "0 < m \<longrightarrow> fst (rows s ! (m - 1)) \<le> key"
  using assms
proof (induction j arbitrary: s thesis)
  case 0
  from 0(1) [of 0 s] 0(2,3) show ?case by simp
next
  case (Suc j)
  let ?n = "unat (as_count s)"
  have j: "fst (rows s ! j) = as_names s ! j" "get_row s j = rows s ! j"
    using Suc.prems(3) by (simp_all add: nth_rows get_row_def)
  show ?case
  proof (cases "as_names s ! j > key")
    case False
    with Suc.prems(2) j show ?thesis by (intro Suc.prems(1) [of "Suc j" s]) auto
  next
    case True
    let ?s1 = "put_row s (Suc j) (get_row s j)"
    have s1: "rows ?s1 = (rows s)[Suc j := rows s ! j]" "attrset_wf ?s1"
      using rows_put_row [OF Suc.prems(2,3)] Suc.prems(2) j by simp_all
    obtain m s' where r: "shift_up key j ?s1 = (m, s')" "m \<le> j" "attrset_wf s'"
      "as_count s' = as_count s" "as_frozen s' = as_frozen s"
      "\<forall>i < ?n. rows s' ! i = (if m < i \<and> i \<le> j then rows ?s1 ! (i - 1) else rows ?s1 ! i)"
      "\<forall>i. m \<le> i \<and> i < j \<longrightarrow> key < fst (rows ?s1 ! i)" "0 < m \<longrightarrow> fst (rows ?s1 ! (m - 1)) \<le> key"
      using Suc.IH [of ?s1] s1(2) Suc.prems(3) by auto
    have "\<forall>i < ?n. rows s' ! i = (if m < i \<and> i \<le> Suc j then rows s ! (i - 1) else rows s ! i)"
      using r(2,6) s1(1) Suc.prems(3) by (auto simp: nth_list_update le_Suc_eq)
    moreover have "\<forall>i. m \<le> i \<and> i < Suc j \<longrightarrow> key < fst (rows s ! i)"
      using r(7) s1(1) True j by (auto simp: less_Suc_eq nth_list_update)
    moreover have "0 < m \<longrightarrow> fst (rows s ! (m - 1)) \<le> key"
      using r(2,8) s1(1) by (auto simp: nth_list_update)
    ultimately show ?thesis using Suc.prems(1) [of m s'] r(1-5) True by simp
  qed
qed

text \<open>One pass inserts row \<open>i\<close> into the sorted rows before it, after those of its own key.\<close>

lemma insertion_pass_rows:
  assumes wf: "attrset_wf s" and i: "i < unat (as_count s)"
  obtains m where "m \<le> i" and "attrset_wf (insertion_pass i s)"
    and "as_count (insertion_pass i s) = as_count s" and "as_frozen (insertion_pass i s) = as_frozen s"
    and "rows (insertion_pass i s) =
      take m (rows s) @ rows s ! i # drop m (take i (rows s)) @ drop (Suc i) (rows s)"
    and "\<forall>r \<in> set (drop m (take i (rows s))). fst (rows s ! i) < fst r"
    and "0 < m \<longrightarrow> fst (rows s ! (m - 1)) \<le> fst (rows s ! i)"
proof -
  let ?r = "rows s ! i"
  have r: "get_row s i = ?r" using i by (simp add: nth_rows)
  obtain m s' where m: "shift_up (fst ?r) i s = (m, s')" "m \<le> i" "attrset_wf s'"
    "as_count s' = as_count s" "as_frozen s' = as_frozen s"
    "\<forall>k < unat (as_count s). rows s' ! k = (if m < k \<and> k \<le> i then rows s ! (k - 1) else rows s ! k)"
    "\<forall>k. m \<le> k \<and> k < i \<longrightarrow> fst ?r < fst (rows s ! k)" "0 < m \<longrightarrow> fst (rows s ! (m - 1)) \<le> fst ?r"
    by (rule shift_up_rows [OF wf i, of "fst ?r"])
  have pass: "insertion_pass i s = put_row s' m ?r"
    using m(1) r by (simp add: insertion_pass_def Let_def)
  have "rows (put_row s' m ?r) = (rows s')[m := ?r]"
    using m(2-4) i by (intro rows_put_row) simp_all
  also have "\<dots> = take m (rows s) @ ?r # drop m (take i (rows s)) @ drop (Suc i) (rows s)"
  proof (rule nth_equalityI)
    fix k assume k: "k < length ((rows s')[m := ?r])"
    consider "k < m" | "k = m" | "m < k" "k \<le> i" | "i < k" by linarith
    then show "(rows s')[m := ?r] ! k =
        (take m (rows s) @ ?r # drop m (take i (rows s)) @ drop (Suc i) (rows s)) ! k"
      using m(2,4,6) k i by cases (auto simp: nth_append nth_Cons' nth_list_update)
  qed (use m(2,4) i in simp)
  finally have "rows (insertion_pass i s) =
      take m (rows s) @ ?r # drop m (take i (rows s)) @ drop (Suc i) (rows s)" by (simp only: pass)
  moreover have "\<forall>r \<in> set (drop m (take i (rows s))). fst ?r < fst r"
  proof
    fix r assume "r \<in> set (drop m (take i (rows s)))"
    then obtain k where "k < length (drop m (take i (rows s)))" "r = drop m (take i (rows s)) ! k"
      by (metis in_set_conv_nth)
    then have "r = rows s ! (m + k)" "m + k < i" using i m(2) by (simp_all add: nth_append)
    then show "fst ?r < fst r" using m(7) by simp
  qed
  ultimately show ?thesis using m(2-5,8) pass by (intro that [of m]) simp_all
qed

definition sorted_up_to :: "nat \<Rightarrow> row list \<Rightarrow> bool" where
  "sorted_up_to i rs \<longleftrightarrow> sorted (map fst (take i rs))"

lemma insertion_pass_sorts:
  assumes wf: "attrset_wf s" and i: "i < unat (as_count s)" and so: "sorted_up_to i (rows s)"
  shows "sorted_up_to (Suc i) (rows (insertion_pass i s)) \<and>
    stable_perm (rows s) (rows (insertion_pass i s))"
proof -
  let ?R = "rows s"
  obtain m where m: "m \<le> i"
    "rows (insertion_pass i s) = take m ?R @ ?R ! i # drop m (take i ?R) @ drop (Suc i) ?R"
    "\<forall>r \<in> set (drop m (take i ?R)). fst (?R ! i) < fst r"
    "0 < m \<longrightarrow> fst (?R ! (m - 1)) \<le> fst (?R ! i)"
    by (rule insertion_pass_rows [OF wf i])
  have split: "take m ?R @ drop m (take i ?R) = take i ?R"
    using m(1) by (metis append_take_drop_id min.absorb1 take_take)
  then have R: "?R = take m ?R @ drop m (take i ?R) @ ?R ! i # drop (Suc i) ?R"
    using i by (metis append.assoc id_take_nth_drop length_rows)
  have st: "stable_perm ?R (rows (insertion_pass i s))"
    unfolding m(2) by (subst (1) R) (rule stable_move, use m(3) in auto)
  have so2: "sorted (map fst (take m ?R) @ map fst (drop m (take i ?R)))"
    using so unfolding sorted_up_to_def map_append [symmetric] split .
  have le: "\<forall>r \<in> set (take m ?R). fst r \<le> fst (?R ! i)"
  proof (cases m)
    case (Suc m')
    have "sorted (map fst (take m ?R))" using so2 by (simp add: sorted_append)
    then have "fst r \<le> fst (?R ! m')" if "r \<in> set (take m ?R)" for r
      using that Suc m(1) i by (auto simp: in_set_conv_nth sorted_iff_nth_mono)
    with m(4) Suc show ?thesis by force
  qed simp
  have "take (Suc i) (rows (insertion_pass i s)) = take m ?R @ ?R ! i # drop m (take i ?R)"
    using m(1,2) i by (simp add: Suc_diff_le)
  then have "sorted_up_to (Suc i) (rows (insertion_pass i s))"
    using so2 le m(3) unfolding sorted_up_to_def
    by (auto simp: sorted_append intro: less_imp_le)
  with st show ?thesis by simp
qed

lemma insertion_sort_result:
  assumes wf: "attrset_wf s"
  shows "attrset_wf (insertion_sort s)" and "as_count (insertion_sort s) = as_count s"
    and "as_frozen (insertion_sort s) = as_frozen s"
    and "rows (insertion_sort s) = sort_key fst (rows s)"
proof -
  have inv: "attrset_wf t \<and> as_count t = as_count s \<and> as_frozen t = as_frozen s \<and>
      sorted_up_to (Suc i) (rows t) \<and> stable_perm (rows s) (rows t)"
    if "t = fold insertion_pass [1..<Suc i] s" "i = 0 \<or> i < unat (as_count s)" for i t
    using that
  proof (induction i arbitrary: t)
    case 0
    then show ?case using wf by (cases "rows s") (simp_all add: sorted_up_to_def)
  next
    case (Suc i)
    let ?u = "fold insertion_pass [1..<Suc i] s"
    have u: "attrset_wf ?u" "as_count ?u = as_count s" "as_frozen ?u = as_frozen s"
      "sorted_up_to (Suc i) (rows ?u)" "stable_perm (rows s) (rows ?u)"
      using Suc by auto
    have "t = insertion_pass (Suc i) ?u" using Suc.prems(1) by simp
    moreover have "Suc i < unat (as_count ?u)" using Suc.prems(2) u(2) by simp
    ultimately show ?case
      using insertion_pass_sorts [of ?u "Suc i"] insertion_pass_rows [of ?u "Suc i"] u stable_perm_trans
      by metis
  qed
  let ?t = "insertion_sort s"
  have t: "attrset_wf ?t \<and> as_count ?t = as_count s \<and> as_frozen ?t = as_frozen s \<and>
      sorted_up_to (unat (as_count s)) (rows ?t) \<and> stable_perm (rows s) (rows ?t)"
  proof (cases "unat (as_count s)")
    case 0
    then show ?thesis using wf by (simp add: insertion_sort_def sorted_up_to_def)
  next
    case (Suc i)
    with inv [of ?t i] show ?thesis by (simp add: insertion_sort_def)
  qed
  moreover from this have "take (unat (as_count s)) (rows ?t) = rows ?t" by simp
  ultimately have "sorted (map fst (rows ?t))" by (simp add: sorted_up_to_def)
  with t stable_sorted show "attrset_wf ?t" "as_count ?t = as_count s" "as_frozen ?t = as_frozen s"
    "rows ?t = sort_key fst (rows s)" by blast+
qed

subsection \<open>The tagged sort\<close>

text \<open>
  What \<open>qsort\<close> documents: for a comparator that orders the elements totally, the array comes
  back as a permutation of what it was, with no element before one that compares smaller.
\<close>

definition cmp_orders :: "('a \<Rightarrow> 'a \<Rightarrow> int) \<Rightarrow> 'a set \<Rightarrow> bool" where
  "cmp_orders cmp A \<longleftrightarrow> (\<forall>x \<in> A. \<forall>y \<in> A. (cmp x y \<le> 0 \<or> cmp y x \<le> 0) \<and>
     (\<forall>z \<in> A. cmp x y \<le> 0 \<longrightarrow> cmp y z \<le> 0 \<longrightarrow> cmp x z \<le> 0))"

definition qsort_conforms :: "qsort_fn \<Rightarrow> bool" where
  "qsort_conforms qsort \<longleftrightarrow> (\<forall>cmp xs. cmp_orders cmp (set xs) \<longrightarrow>
     mset (qsort cmp xs) = mset xs \<and> sorted_wrt (\<lambda>x y. cmp x y \<le> 0) (qsort cmp xs))"

lemma lex_cmp:
  fixes a b i j :: "'k::linorder"
  shows "(if a < b then -1 else if a > b then 1 else if i < j then -1 else if i > j then 1 else 0)
    \<le> (0 :: int) \<longleftrightarrow> a < b \<or> (a = b \<and> i \<le> j)"
  by auto

lemma lex_le_total:
  fixes a b i j :: "'k::linorder"
  shows "(a < b \<or> (a = b \<and> i \<le> j)) \<or> (b < a \<or> (b = a \<and> j \<le> i))"
  by auto

lemma lex_le_trans:
  fixes a b c i j k :: "'k::linorder"
  shows "a < b \<or> (a = b \<and> i \<le> j) \<Longrightarrow> b < c \<or> (b = c \<and> j \<le> k) \<Longrightarrow> a < c \<or> (a = c \<and> i \<le> k)"
  by auto

lemma cmp_tagged_le: "cmp_tagged x y \<le> 0 \<longleftrightarrow>
    te_key x < te_key y \<or> (te_key x = te_key y \<and> te_idx x \<le> te_idx y)"
  unfolding cmp_tagged_def by (rule lex_cmp)

lemma cmp_tagged_key: "cmp_tagged x y \<le> 0 \<Longrightarrow> te_key x \<le> te_key y"
  unfolding cmp_tagged_le by (elim disjE conjE) (simp_all only: less_imp_le order_refl)

lemma cmp_tagged_orders: "cmp_orders cmp_tagged A"
  unfolding cmp_orders_def cmp_tagged_le
  by (intro ballI conjI impI lex_le_total) (erule lex_le_trans, assumption)

text \<open>Lists with the same elements that both increase in an injective key are equal.\<close>

lemma increasing_unique:
  fixes f :: "'a \<Rightarrow> 'b::linorder"
  assumes "mset xs = mset ys" and "inj_on f (set xs)" and "distinct xs"
    and "sorted (map f xs)" and "sorted (map f ys)"
  shows "xs = ys"
proof -
  have "set ys = set xs" "distinct ys"
    using assms(1,3) by (metis mset_eq_setD, metis mset_eq_imp_distinct_iff)
  then have "map f xs = map f ys"
    using assms(2-5) by (intro sorted_distinct_set_unique) (simp_all add: distinct_map)
  moreover have "inj_on f (set xs \<union> set ys)" using assms(2) \<open>set ys = set xs\<close> by (simp only: Un_absorb)
  ultimately show ?thesis by (rule map_inj_on)
qed

lemma tag_index:
  assumes "i < unat (c :: u32)"
  shows "unat (of_nat i :: u32) = i"
  using assms unat_u32_less [of c] by (simp add: unsigned_of_nat take_bit_nat_eq_self)

lemma te_idx_tag_row [simp]: "te_idx (tag_row s i) = of_nat i"
  by (simp add: tag_row_def split: prod.split)

lemma untag_tag_row [simp]: "untag_row (tag_row s i) = get_row s i"
  by (simp add: tag_row_def untag_row_def split: prod.split)

lemma te_key_untag: "te_key t = fst (untag_row t)"
  by (simp add: untag_row_def)

lemma tagged_rows: "map untag_row (map (tag_row s) [0..<unat (as_count s)]) = rows s"
  by (simp add: rows_def)

lemma tags_increase:
  fixes s :: attrset
  defines "T \<equiv> map (tag_row s) [0..<unat (as_count s)]"
  shows "distinct T" and "inj_on te_idx (set T)" and "sorted (map te_idx T)"
proof -
  have u: "(of_nat i :: u32) \<le> of_nat j \<longleftrightarrow> i \<le> j" if "i < unat (as_count s)" "j < unat (as_count s)" for i j
    using that tag_index by (simp add: word_le_nat_alt)
  have e: "(of_nat i :: u32) = of_nat j \<longleftrightarrow> i = j" if "i < unat (as_count s)" "j < unat (as_count s)" for i j
    using that tag_index by (metis word_unat_eq_iff)
  have "distinct (map te_idx T)"
    by (auto simp: T_def distinct_map comp_def inj_on_def e)
  then show "distinct T" "inj_on te_idx (set T)" by (simp_all add: distinct_map)
  show "sorted (map te_idx T)"
    by (auto simp: T_def sorted_iff_nth_mono u)
qed

lemma sorted_tags_stable:
  fixes s :: attrset
  defines "T \<equiv> map (tag_row s) [0..<unat (as_count s)]"
  assumes q: "mset Q = mset T" and so: "sorted_wrt (\<lambda>x y. cmp_tagged x y \<le> 0) Q"
  shows "map untag_row Q = sort_key fst (rows s)"
proof (rule stable_sorted)
  have "filter (\<lambda>t. te_key t = k) Q = filter (\<lambda>t. te_key t = k) T" for k
  proof (rule increasing_unique [of _ _ te_idx])
    show "mset (filter (\<lambda>t. te_key t = k) Q) = mset (filter (\<lambda>t. te_key t = k) T)"
      using q by (simp add: mset_filter)
    have "set Q = set T" using q by (rule mset_eq_setD)
    then show "inj_on te_idx (set (filter (\<lambda>t. te_key t = k) Q))"
      using tags_increase(2) [of s] by (auto simp: T_def intro: inj_on_subset)
    show "distinct (filter (\<lambda>t. te_key t = k) Q)"
      using q tags_increase(1) [of s] unfolding T_def by (metis distinct_filter mset_eq_imp_distinct_iff)
    have "sorted_wrt (\<lambda>x y. te_idx x \<le> te_idx y) (filter (\<lambda>t. te_key t = k) Q)"
      using sorted_wrt_filter [OF so, of "\<lambda>t. te_key t = k"]
      by (rule sorted_wrt_mono_rel [rotated]) (auto simp: cmp_tagged_le)
    then show "sorted (map te_idx (filter (\<lambda>t. te_key t = k) Q))" by (simp add: sorted_map)
    have "sorted_wrt (\<lambda>x y. te_idx x \<le> te_idx y) T"
      using tags_increase(3) [of s] unfolding T_def by (simp only: sorted_map)
    then show "sorted (map te_idx (filter (\<lambda>t. te_key t = k) T))"
      by (simp add: sorted_map sorted_wrt_filter)
  qed
  then have "filter (\<lambda>r. fst r = k) (map untag_row Q) = filter (\<lambda>r. fst r = k) (map untag_row T)" for k
    by (simp add: filter_map comp_def te_key_untag [symmetric])
  moreover have "mset (map untag_row Q) = mset (map untag_row T)" using q by (metis mset_map)
  ultimately show "stable_perm (rows s) (map untag_row Q)"
    unfolding stable_perm_def T_def tagged_rows by simp
  show "sorted (map fst (map untag_row Q))"
    unfolding map_map comp_def te_key_untag [symmetric] sorted_map
    using so by (rule sorted_wrt_mono_rel [rotated]) (rule cmp_tagged_key)
qed

text \<open>The loop that writes the sorted entries back.\<close>

lemma write_back:
  assumes wf: "attrset_wf s" and n: "n \<le> unat (as_count s)"
  shows "attrset_wf (fold (\<lambda>i s. put_row s i (f i)) [0..<n] s) \<and>
    as_count (fold (\<lambda>i s. put_row s i (f i)) [0..<n] s) = as_count s \<and>
    as_frozen (fold (\<lambda>i s. put_row s i (f i)) [0..<n] s) = as_frozen s \<and>
    rows (fold (\<lambda>i s. put_row s i (f i)) [0..<n] s) = map f [0..<n] @ drop n (rows s)"
  using n
proof (induction n)
  case (Suc n)
  let ?t = "fold (\<lambda>i s. put_row s i (f i)) [0..<n] s"
  have t: "attrset_wf ?t" "as_count ?t = as_count s" "as_frozen ?t = as_frozen s"
    "rows ?t = map f [0..<n] @ drop n (rows s)" using Suc by simp_all
  have "rows (put_row ?t n (f n)) = (map f [0..<n] @ drop n (rows s))[n := f n]"
    using rows_put_row [of ?t n "f n"] t Suc.prems by simp
  also have "\<dots> = map f [0..<Suc n] @ drop (Suc n) (rows s)"
    using Suc.prems by (simp add: list_update_append Cons_nth_drop_Suc [symmetric])
  finally show ?case using t by simp
qed (use wf in simp)

lemma tagged_sort_result:
  assumes wf: "attrset_wf s" and q: "qsort_conforms qsort"
  shows "attrset_wf (tagged_sort qsort s)" and "as_count (tagged_sort qsort s) = as_count s"
    and "as_frozen (tagged_sort qsort s) = as_frozen s"
    and "rows (tagged_sort qsort s) = sort_key fst (rows s)"
proof -
  let ?T = "map (tag_row s) [0..<unat (as_count s)]"
  let ?Q = "qsort cmp_tagged ?T"
  have Q: "mset ?Q = mset ?T" "sorted_wrt (\<lambda>x y. cmp_tagged x y \<le> 0) ?Q"
    using q cmp_tagged_orders unfolding qsort_conforms_def by blast+
  have len: "length ?Q = unat (as_count s)" using Q(1) by (metis diff_zero length_map length_upt size_mset)
  have "map (\<lambda>i. untag_row (?Q ! i)) [0..<unat (as_count s)] = map untag_row ?Q"
    using len by (intro nth_equalityI) simp_all
  also have "\<dots> = sort_key fst (rows s)" using Q by (rule sorted_tags_stable)
  finally have "map (\<lambda>i. untag_row (?Q ! i)) [0..<unat (as_count s)] = sort_key fst (rows s)" .
  with write_back [OF wf order_refl, of "\<lambda>i. untag_row (?Q ! i)"]
  show "attrset_wf (tagged_sort qsort s)" "as_count (tagged_sort qsort s) = as_count s"
    "as_frozen (tagged_sort qsort s) = as_frozen s"
    "rows (tagged_sort qsort s) = sort_key fst (rows s)"
    by (simp_all add: tagged_sort_def Let_def)
qed

end
