(* ===== verification/Nova_Attrset_Freeze.thy ===== *)
theory Nova_Attrset_Freeze
  imports Nova_Attrset_Sort
begin

section \<open>The deduplication, and what a frozen set is\<close>

text \<open>
  What the deduplication keeps of a sorted row list, what a frozen set is as a finite map, and that freezing
  a set keeps the map its rows mean.
\<close>

subsection \<open>Keeping the last row of every run of equal keys\<close>

definition keeps_row :: "('k \<times> 'b) list \<Rightarrow> nat \<Rightarrow> bool" where
  "keeps_row R i \<longleftrightarrow> \<not> (i + 1 < length R \<and> fst (R ! i) = fst (R ! (i + 1)))"

definition kept_upto :: "('k \<times> 'b) list \<Rightarrow> nat \<Rightarrow> ('k \<times> 'b) list" where
  "kept_upto R n = map ((!) R) (filter (keeps_row R) [0..<n])"

fun keep_last :: "('k \<times> 'b) list \<Rightarrow> ('k \<times> 'b) list" where
  "keep_last [] = []"
| "keep_last [x] = [x]"
| "keep_last (x # y # zs) = (if fst x = fst y then keep_last (y # zs) else x # keep_last (y # zs))"

lemma kept_upto_le: "length (kept_upto R n) \<le> n"
  unfolding kept_upto_def using length_filter_le [of "keeps_row R" "[0..<n]"] by simp

lemma kept_upto_all: "kept_upto R (length R) = keep_last R"
proof (induction R rule: keep_last.induct)
  case (3 x y zs)
  have k: "keeps_row (x # y # zs) (Suc i) = keeps_row (y # zs) i" for i
    by (simp add: keeps_row_def)
  have "[0..<length (x # y # zs)] = 0 # map Suc [0..<length (y # zs)]"
    by (simp add: upt_conv_Cons map_Suc_upt del: upt_Suc)
  then have "kept_upto (x # y # zs) (length (x # y # zs)) =
      (if keeps_row (x # y # zs) 0 then [x] else []) @ kept_upto (y # zs) (length (y # zs))"
    by (simp add: kept_upto_def filter_map comp_def k del: upt_Suc)
  moreover have "keeps_row (x # y # zs) 0 \<longleftrightarrow> fst x \<noteq> fst y" by (simp add: keeps_row_def)
  ultimately show ?case using 3 by (simp del: length_Cons)
qed (simp_all add: kept_upto_def keeps_row_def)

text \<open>The loop invariant: the kept rows of what was read stand in front, and what was not read
  yet is where it was.\<close>

lemma dedup_loop:
  assumes wf: "attrset_wf s" and n: "n \<le> unat (as_count s)"
  obtains s' where "fold dedup_step [0..<n] (0, s) = (length (kept_upto (rows s) n), s')"
    and "attrset_wf s'" and "as_count s' = as_count s" and "as_frozen s' = as_frozen s"
    and "take (length (kept_upto (rows s) n)) (rows s') = kept_upto (rows s) n"
    and "drop n (rows s') = drop n (rows s)"
  using n
proof (induction n arbitrary: thesis)
  case 0
  from 0(1) [of s] wf show ?case by (simp add: kept_upto_def)
next
  case (Suc n)
  let ?R = "rows s" and ?w = "length (kept_upto (rows s) n)"
  obtain s' where s': "fold dedup_step [0..<n] (0, s) = (?w, s')" "attrset_wf s'"
    "as_count s' = as_count s" "as_frozen s' = as_frozen s"
    "take ?w (rows s') = kept_upto ?R n" "drop n (rows s') = drop n ?R"
    using Suc.IH Suc.prems(2) by auto
  have w: "?w \<le> n" by (rule kept_upto_le)
  have later: "rows s' ! i = ?R ! i" if "n \<le> i" "i < unat (as_count s)" for i
  proof -
    have "drop n (rows s') ! (i - n) = drop n ?R ! (i - n)" by (simp only: s'(6))
    then show ?thesis using that s'(3) by simp
  qed
  have n_lt: "n < unat (as_count s)" using Suc.prems(2) by simp
  have names: "as_names s' ! i = fst (?R ! i)" if "n \<le> i" "i < unat (as_count s)" for i
    using later [OF that] that(2) s'(3) rows_key [of i s'] by simp
  have step: "fold dedup_step [0..<Suc n] (0, s) = dedup_step n (?w, s')" using s'(1) by simp
  have d: "drop (Suc n) (rows s') = drop (Suc n) ?R" using s'(6) by (metis drop_drop plus_1_eq_Suc)
  show ?case
  proof (cases "keeps_row ?R n")
    case False
    then have "dedup_step n (?w, s') = (?w, s')" using names n_lt s'(3)
      by (simp add: dedup_step_def keeps_row_def)
    moreover have "kept_upto ?R (Suc n) = kept_upto ?R n" using False by (simp add: kept_upto_def)
    ultimately show ?thesis using Suc.prems(1) [of s'] s' d step by simp
  next
    case True
    then have stay: "\<not> (n + 1 < unat (as_count s') \<and> as_names s' ! n = as_names s' ! (n + 1))"
      using names [of n] names [of "n + 1"] n_lt s'(3) by (auto simp: keeps_row_def)
    have kept: "kept_upto ?R (Suc n) = kept_upto ?R n @ [?R ! n]" using True by (simp add: kept_upto_def)
    let ?t = "if ?w \<noteq> n then put_row s' ?w (get_row s' n) else s'"
    have "get_row s' n = ?R ! n" using later n_lt s'(3) nth_rows [of n s'] by simp
    moreover have "rows (put_row s' ?w r) = (rows s')[?w := r]" for r
      using w n_lt s'(2,3) by (intro rows_put_row) simp_all
    ultimately have t: "rows ?t = (rows s')[?w := ?R ! n]"
      using later [of n] n_lt list_update_id [of "rows s'" n] by (auto simp: s'(3))
    have "take (Suc ?w) (rows ?t) = take ?w (rows s') @ [?R ! n]"
      unfolding t using w n_lt s'(3) by (simp add: take_Suc_conv_app_nth)
    moreover have "drop (Suc n) (rows ?t) = drop (Suc n) ?R" unfolding t using w d by simp
    moreover have "fold dedup_step [0..<Suc n] (0, s) = (Suc ?w, ?t)"
      unfolding step dedup_step_def prod.case using stay by (simp only: if_False Suc_eq_plus1)
    moreover have "length (kept_upto ?R (Suc n)) = Suc ?w" by (simp add: kept)
    moreover have "attrset_wf ?t" "as_count ?t = as_count s" "as_frozen ?t = as_frozen s"
      using s'(2-4) by simp_all
    ultimately show ?thesis
      by (intro Suc.prems(1) [of ?t]) (simp_all only: s'(5) kept)
  qed
qed

lemma dedup_result:
  assumes wf: "attrset_wf s"
  shows "attrset_wf (dedup s)" and "rows (dedup s) = keep_last (rows s)"
    and "as_frozen (dedup s) = as_frozen s"
proof -
  let ?k = "kept_upto (rows s) (unat (as_count s))"
  obtain s' where s': "fold dedup_step [0..<unat (as_count s)] (0, s) = (length ?k, s')"
    "attrset_wf s'" "as_count s' = as_count s" "as_frozen s' = as_frozen s"
    "take (length ?k) (rows s') = ?k"
    by (rule dedup_loop [OF wf order_refl])
  have k: "length ?k \<le> unat (as_count s)" by (rule kept_upto_le)
  then have u: "unat (of_nat (length ?k) :: u32) = length ?k"
    using unat_u32_less [of "as_count s"] by (simp add: unsigned_of_nat take_bit_nat_eq_self)
  have d: "dedup s = s'\<lparr>as_count := of_nat (length ?k)\<rparr>" using s'(1) by (simp add: dedup_def)
  have "rows (dedup s) = take (length ?k) (rows s')"
    using k u s'(3) by (simp add: d rows_def get_row_def take_map)
  then show "rows (dedup s) = keep_last (rows s)"
    using s'(5) kept_upto_all [of "rows s"] by simp
  show "attrset_wf (dedup s)" using s'(2,3) k u by (simp add: d attrset_wf_def word_le_nat_alt)
  show "as_frozen (dedup s) = as_frozen s" using s'(4) by (simp add: d)
qed

subsection \<open>The map of a row list\<close>

text \<open>The last row of a key is the one that counts.\<close>

definition row_map :: "('k \<times> 'b) list \<Rightarrow> 'k \<rightharpoonup> 'b" where
  "row_map rs = map_of (rev rs)"

lemma row_map_filter:
  "row_map rs k = (case filter (\<lambda>r. fst r = k) rs of [] \<Rightarrow> None | x # xs \<Rightarrow> Some (snd (last (x # xs))))"
proof (induction rs rule: rev_induct)
  case (snoc x xs)
  then show ?case by (auto simp: row_map_def split: list.splits)
qed (simp add: row_map_def)

lemma row_map_stable: "stable_perm xs ys \<Longrightarrow> row_map ys = row_map xs"
  by (rule ext) (simp add: row_map_filter stable_perm_def)

lemma row_map_dom: "dom (row_map rs) = fst ` set rs"
  by (simp add: row_map_def dom_map_of_conv_image_fst)

lemma row_map_distinct:
  assumes d: "distinct (map fst rs)"
  shows "row_map rs = map_of rs"
proof
  fix k
  show "row_map rs k = map_of rs k"
  proof (cases "map_of rs k")
    case None
    then have "map_of (rev rs) k = None" by (simp add: map_of_eq_None_iff)
    with None show ?thesis by (simp add: row_map_def)
  next
    case (Some v)
    then have "(k, v) \<in> set (rev rs)" by (simp add: map_of_SomeD)
    moreover have "distinct (map fst (rev rs))" using d by (simp add: rev_map [symmetric])
    ultimately show ?thesis using Some by (simp add: row_map_def)
  qed
qed

lemma keep_last_keys: "fst ` set (keep_last rs) = fst ` set rs"
  by (induction rs rule: keep_last.induct) auto

lemma keep_last_map: "row_map (keep_last rs) = row_map rs"
proof (induction rs rule: keep_last.induct)
  case (3 x y zs)
  have cons: "row_map (r # rs) = map_of [r] ++ row_map rs" for r :: "'a \<times> 'b" and rs
    by (simp add: row_map_def)
  show ?case
  proof (cases "fst x = fst y")
    case True
    have "row_map (x # y # zs) = row_map (y # zs)"
    proof
      fix k
      have "fst y \<in> dom (row_map (y # zs))" by (simp add: row_map_dom)
      then show "row_map (x # y # zs) k = row_map (y # zs) k"
        unfolding cons [of x] using True by (auto simp: map_add_def split: option.split)
    qed
    with 3 True show ?thesis by simp
  next
    case False
    with 3 show ?thesis by (simp add: cons [of x])
  qed
qed simp_all

lemma keep_last_sorted:
  fixes rs :: "('k::linorder \<times> 'b) list"
  assumes "sorted (map fst rs)"
  shows "sorted_wrt (<) (map fst (keep_last rs))"
  using assms
proof (induction rs rule: keep_last.induct)
  case (3 x y zs)
  show ?case
  proof (cases "fst x = fst y")
    case False
    have "fst x < k" if "k \<in> set (map fst (keep_last (y # zs)))" for k
    proof -
      have "k \<in> fst ` set (y # zs)" using that keep_last_keys [of "y # zs"] by simp
      then have "fst y \<le> k" using 3(3) by auto
      moreover have "fst x \<le> fst y" using 3(3) by simp
      ultimately show ?thesis using False by simp
    qed
    with 3 False show ?thesis by simp
  qed (use 3 in simp)
qed simp_all

lemma sort_key_map: "row_map (sort_key fst rs) = row_map (rs :: ('k::linorder \<times> 'b) list)"
proof (rule row_map_stable)
  have "filter (\<lambda>r. fst r = k) (sort_key fst rs) = filter (\<lambda>r. fst r = k) rs" for k
    by (rule sort_key_stable)
  then show "stable_perm rs (sort_key fst rs)" by (simp add: stable_perm_def)
qed

subsection \<open>Freeze\<close>

definition sorted_keys :: "('k::linorder \<times> 'b) list \<Rightarrow> bool" where
  "sorted_keys rs \<longleftrightarrow> sorted_wrt (<) (map fst rs)"

text \<open>A list of rows with increasing keys is determined by its map.\<close>

lemma sorted_keys_distinct: "sorted_keys rs \<Longrightarrow> distinct (map fst rs)"
  by (simp add: sorted_keys_def strict_sorted_iff)

definition frozen_rows :: "row list \<Rightarrow> row list" where
  "frozen_rows rs = keep_last (sort_key fst rs)"

lemma frozen_rows_sorted: "sorted_keys (frozen_rows rs)"
  unfolding sorted_keys_def frozen_rows_def by (intro keep_last_sorted) simp

lemma frozen_rows_map: "row_map (frozen_rows rs) = row_map rs"
  by (simp add: frozen_rows_def keep_last_map sort_key_map)

lemma freeze_result:
  assumes wf: "attrset_wf s" and fr: "as_frozen s = 0" and q: "qsort_conforms qsort"
  obtains al' s' where "nn_attrset_freeze qsort al s = (al', s')" and "attrset_wf s'"
    and "rows s' = frozen_rows (rows s)" and "as_frozen s' = 1" and "al_steps al al'"
proof (cases "as_count s \<le> 1")
  case True
  then have "length (rows s) \<le> 1" by (simp add: word_le_nat_alt)
  then have "frozen_rows (rows s) = rows s"
    by (cases "rows s") (auto simp: frozen_rows_def)
  with that [of al "s\<lparr>as_frozen := 1\<rparr>"] True fr wf show ?thesis
    by (simp add: nn_attrset_freeze_def)
next
  case False
  have sorted_by: "attrset_wf ((dedup t)\<lparr>as_frozen := 1\<rparr>) \<and>
      rows ((dedup t)\<lparr>as_frozen := 1\<rparr>) = frozen_rows (rows s)"
    if "attrset_wf t" "rows t = sort_key fst (rows s)" for t
    using that dedup_result [of t] by (simp add: frozen_rows_def)
  note i = sorted_by [OF insertion_sort_result(1,4) [OF wf]]
  note t = sorted_by [OF tagged_sort_result(1,4) [OF wf q]]
  show ?thesis
  proof (cases "as_count s \<le> 64")
    case small: True
    with that [of al "(dedup (insertion_sort s))\<lparr>as_frozen := 1\<rparr>"] False fr i show ?thesis
      by (simp add: nn_attrset_freeze_def)
  next
    case large: False
    obtain r al' where m: "c_malloc (ucast (as_count s) * 24) al = (r, al')"
      by (cases "c_malloc (ucast (as_count s) * 24) al")
    then have st: "al_steps al al'" using al_steps_malloc by (metis snd_conv)
    show ?thesis
    proof (cases r)
      case None
      with that [of al' "(dedup (insertion_sort s))\<lparr>as_frozen := 1\<rparr>"] m large False fr i st
      show ?thesis by (simp add: nn_attrset_freeze_def)
    next
      case (Some b)
      with that [of al' "(dedup (tagged_sort qsort s))\<lparr>as_frozen := 1\<rparr>"] m large False fr t st
      show ?thesis by (simp add: nn_attrset_freeze_def)
    qed
  qed
qed

end
