(* ===== verification/Nova_Attrset_Ops.thy ===== *)
theory Nova_Attrset_Ops
  imports Nova_Attrset_Freeze
begin

section \<open>Search, union and removal on frozen sets\<close>

text \<open>
  On frozen sets: the binary search finds exactly the rows that are there, the merge of a union is the
  union of the maps with the right one first, and removal drops the keys it is given.
\<close>

subsection \<open>The binary search\<close>

definition increasing_keys :: "u32 list \<Rightarrow> nat \<Rightarrow> bool" where
  "increasing_keys keys n \<longleftrightarrow> (\<forall>i j. i < j \<and> j < n \<longrightarrow> keys ! i < keys ! j)"

lemma bsearch_loop_result:
  assumes "increasing_keys keys n" and "unat hi \<le> n"
    and "\<forall>i < n. i < unat lo \<longrightarrow> keys ! i < key" and "\<forall>i < n. unat hi \<le> i \<longrightarrow> key < keys ! i"
  shows "(if \<exists>i < n. keys ! i = key
          then unat (bsearch_loop keys key lo hi) < n \<and> keys ! unat (bsearch_loop keys key lo hi) = key
          else bsearch_loop keys key lo hi = NN_ATTRSET_NOT_FOUND)"
  using assms
proof (induction keys key lo hi rule: bsearch_loop.induct)
  case (1 keys key lo hi)
  define mid where "mid = lo + (hi - lo) div 2"
  show ?case
  proof (cases "lo < hi")
    case False
    then have "unat hi \<le> unat lo" by (simp add: word_less_nat_alt)
    then have "keys ! i \<noteq> key" if "i < n" for i
      using that 1(5,6) by (cases "i < unat lo") auto
    with False show ?thesis by (subst (1 2 3) bsearch_loop.simps) auto
  next
    case True
    then have l: "unat lo < unat hi" by (simp add: word_less_nat_alt)
    have m: "unat mid = (unat lo + unat hi) div 2" "unat (mid + 1) = Suc (unat mid)"
      unfolding mid_def using bsearch_mid [OF True] by simp_all
    with l 1(4) have mn: "unat mid < n" by linarith
    consider "keys ! unat mid < key" | "key < keys ! unat mid" | "keys ! unat mid = key"
      by (metis linorder_cases)
    then show ?thesis
    proof cases
      case lt: 1
      have "\<forall>i < n. i < unat (mid + 1) \<longrightarrow> keys ! i < key"
        using lt mn 1(3) m(2) unfolding increasing_keys_def
        by (metis less_Suc_eq less_trans)
      from 1(1) [OF True mid_def lt 1(3,4) this 1(6)] True lt show ?thesis
        by (simp add: bsearch_loop.simps [of keys key lo hi] mid_def [symmetric] Let_def)
    next
      case gt: 2
      have "\<forall>i < n. unat mid \<le> i \<longrightarrow> key < keys ! i"
        using gt 1(3) unfolding increasing_keys_def by (metis le_neq_implies_less less_trans)
      moreover have "\<not> keys ! unat mid < key" using gt by simp
      ultimately show ?thesis
        using 1(2) [OF True mid_def _ gt 1(3) _ 1(5)] True gt mn
        by (simp add: bsearch_loop.simps [of keys key lo hi] mid_def [symmetric] Let_def)
    next
      case 3
      with True mn show ?thesis
        by (auto simp: bsearch_loop.simps [of keys key lo hi] mid_def [symmetric] Let_def)
    qed
  qed
qed

lemma sorted_keys_increasing:
  assumes "sorted_keys (rows s)"
  shows "increasing_keys (as_names s) (unat (as_count s))"
proof -
  have "fst (rows s ! i) < fst (rows s ! j)" if "i < j" "j < unat (as_count s)" for i j
    using assms that unfolding sorted_keys_def by (auto simp: sorted_wrt_iff_nth_less)
  then show ?thesis by (auto simp: increasing_keys_def rows_key dest: less_trans)
qed

lemma index_result:
  assumes "sorted_keys (rows s)"
  shows "if key \<in> fst ` set (rows s)
    then unat (nn_attrset_index s key) < unat (as_count s) \<and>
         fst (rows s ! unat (nn_attrset_index s key)) = key
    else nn_attrset_index s key = NN_ATTRSET_NOT_FOUND"
proof -
  have "(if \<exists>i < unat (as_count s). as_names s ! i = key
      then unat (nn_attrset_index s key) < unat (as_count s) \<and>
           as_names s ! unat (nn_attrset_index s key) = key
      else nn_attrset_index s key = NN_ATTRSET_NOT_FOUND)"
    unfolding nn_attrset_index_def bsearch_key_def
    by (rule bsearch_loop_result) (use sorted_keys_increasing [OF assms] in auto)
  moreover have "key \<in> fst ` set (rows s) \<longleftrightarrow> (\<exists>i < unat (as_count s). as_names s ! i = key)"
  proof -
    have "fst ` set (rows s) = set (map ((!) (as_names s)) [0..<unat (as_count s)])"
      by (auto simp: rows_def get_row_def image_image)
    then show ?thesis by auto
  qed
  ultimately show ?thesis by (simp add: rows_key split: if_splits)
qed

text \<open>What the evaluator reads: the value and the position of a key.\<close>

lemma lookup_result:
  assumes "sorted_keys (rows s)"
  shows "nn_attrset_lookup s key = (case row_map (rows s) key of None \<Rightarrow> NULL | Some (pos, v) \<Rightarrow> v)"
proof -
  let ?i = "nn_attrset_index s key"
  have l: "nn_attrset_lookup s key =
      (if ?i = NN_ATTRSET_NOT_FOUND then NULL else as_values s ! unat ?i)"
    by (simp add: nn_attrset_lookup_def nn_attrset_index_def Let_def)
  have m: "row_map (rows s) = map_of (rows s)" and d: "distinct (map fst (rows s))"
    using assms sorted_keys_distinct row_map_distinct by blast+
  note r = index_result [OF assms, of key]
  show ?thesis
  proof (cases "key \<in> fst ` set (rows s)")
    case False
    then have "map_of (rows s) key = None" by (simp add: map_of_eq_None_iff)
    with False r l m show ?thesis by simp
  next
    case True
    with r have i: "unat ?i < unat (as_count s)" "fst (rows s ! unat ?i) = key" by simp_all
    then have "?i \<noteq> NN_ATTRSET_NOT_FOUND" using unat_u32_less [of "as_count s"] by auto
    moreover have "map_of (rows s) key = Some (snd (rows s ! unat ?i))"
      using d i by (intro map_of_is_SomeI) (auto simp: in_set_conv_nth prod_eq_iff)
    moreover have "snd (snd (rows s ! unat ?i)) = as_values s ! unat ?i"
      using i(1) by (simp add: nth_rows get_row_def)
    ultimately show ?thesis using l m by (auto split: prod.split)
  qed
qed

subsection \<open>Copying rows into a result\<close>

text \<open>What a loop of inserts leaves: its rows were appended, or it was refused and stopped.\<close>

definition filled :: "allocator \<Rightarrow> attrset \<Rightarrow> row list \<Rightarrow> bool \<times> allocator \<times> attrset \<Rightarrow> bool" where
  "filled al r new res \<longleftrightarrow> (case res of (ok, al', r') \<Rightarrow>
     attrset_wf r' \<and> as_frozen r' = as_frozen r \<and> al_steps al al' \<and>
     (ok \<longrightarrow> rows r' = rows r @ new) \<and>
     (ok \<longrightarrow> unat (as_count r) + length new \<le> 4294967295) \<and>
     (al_ok al = (\<lambda>_ _. True) \<and> unat (as_count r) + length new \<le> 4294967295 \<longrightarrow> ok))"

lemma filled_nothing: "attrset_wf r \<Longrightarrow> filled al r [] (True, al, r)"
  using unat_u32_less [of "as_count r"] by (simp add: filled_def)

lemma insert_row_filled:
  assumes wf: "attrset_wf r"
    and i: "i < unat (as_count src)"
  shows "filled al r [rows src ! i] (insert_row al r src i)"
proof -
  obtain key pos v where g: "get_row src i = (key, pos, v)" by (metis prod_cases3)
  obtain ok al' r' where n: "nn_attrset_insert al r key v pos = (ok, al', r')"
    "appended r (if ok then [(key, pos, v)] else []) r'" "al_steps al al'"
    "ok \<longrightarrow> unat (as_count r) < 4294967295"
    "al_ok al = (\<lambda>_ _. True) \<and> unat (as_count r) < 4294967295 \<longrightarrow> ok"
    by (rule insert_appends [OF wf])
  have "rows src ! i = (key, pos, v)" using i g by (simp add: nth_rows)
  moreover have "insert_row al r src i = (ok, al', r')" using g n(1) by (simp add: insert_row_def)
  ultimately show ?thesis using n by (auto simp: filled_def appended_def)
qed

text \<open>Two inserting steps one after the other.\<close>

lemma filled_then:
  assumes "filled al r xs (ok, al1, r1)" and "ok \<Longrightarrow> filled al1 r1 ys res"
  shows "filled al r (xs @ ys) (if ok then res else (False, al1, r1))"
proof (cases ok)
  case False
  with assms(1) show ?thesis by (auto simp: filled_def)
next
  case True
  with assms(1) have r1: "rows r1 = rows r @ xs" "al_steps al al1" "as_frozen r1 = as_frozen r"
    by (simp_all add: filled_def)
  then have "unat (as_count r1) = unat (as_count r) + length xs" by (metis length_append length_rows)
  with True assms(2) r1 show ?thesis
    by (auto simp: filled_def al_steps_def split: prod.splits)
qed

lemma copy_rest_filled:
  "attrset_wf r \<Longrightarrow> filled al r (drop i (rows src)) (copy_rest al r src i)"
proof (induction al r src i rule: copy_rest.induct)
  case (1 al r src i)
  show ?case
  proof (cases "i < unat (as_count src)")
    case False
    with 1(2) show ?thesis by (simp add: copy_rest.simps [of al r src i] filled_nothing)
  next
    case True
    obtain ok al1 r1 where n: "insert_row al r src i = (ok, al1, r1)" by (metis prod_cases3)
    have f: "filled al r [rows src ! i] (ok, al1, r1)" using insert_row_filled [OF 1(2) True] n by metis
    then have "attrset_wf r1" by (simp add: filled_def)
    then have "ok \<Longrightarrow> filled al1 r1 (drop (i + 1) (rows src)) (copy_rest al1 r1 src (i + 1))"
      using 1(1) [OF True n [symmetric] refl] by simp
    from filled_then [OF f this] show ?thesis
      using True n Cons_nth_drop_Suc [of i "rows src"] by (simp add: copy_rest.simps [of al r src i])
  qed
qed

subsection \<open>The merge\<close>

fun merge_rows :: "row list \<Rightarrow> row list \<Rightarrow> row list" where
  "merge_rows [] ys = ys"
| "merge_rows xs [] = xs"
| "merge_rows (x # xs) (y # ys) =
     (if fst x < fst y then x # merge_rows xs (y # ys)
      else if fst x > fst y then y # merge_rows (x # xs) ys
      else y # merge_rows xs ys)"

lemma merge_rows_Nil2 [simp]: "merge_rows xs [] = xs"
  by (cases xs) simp_all

lemma merge_rows_keys: "fst ` set (merge_rows xs ys) = fst ` set xs \<union> fst ` set ys"
proof (induction xs ys rule: merge_rows.induct)
  case (3 x xs y ys)
  consider "fst x < fst y" | "fst y < fst x" | "fst x = fst y" by (metis linorder_cases)
  then show ?case using 3 by cases (auto simp: insert_commute)
qed auto

lemma sorted_keys_Cons:
  "sorted_keys (x # xs) \<longleftrightarrow> (\<forall>k \<in> fst ` set xs. fst x < k) \<and> sorted_keys xs"
  by (auto simp: sorted_keys_def)

lemma merge_rows_sorted:
  "sorted_keys xs \<Longrightarrow> sorted_keys ys \<Longrightarrow> sorted_keys (merge_rows xs ys)"
proof (induction xs ys rule: merge_rows.induct)
  case (3 x xs y ys)
  have x: "\<forall>k \<in> fst ` set xs. fst x < k" "sorted_keys xs" and y: "\<forall>k \<in> fst ` set ys. fst y < k" "sorted_keys ys"
    using 3(4,5) unfolding sorted_keys_Cons by blast+
  consider "fst x < fst y" | "fst y < fst x" | "fst x = fst y" by (metis linorder_cases)
  then show ?case
  proof cases
    case 1
    have "\<forall>k \<in> fst ` set (merge_rows xs (y # ys)). fst x < k"
      unfolding merge_rows_keys using 1 x y less_trans by auto
    with 1 3(1) x 3(5) show ?thesis by (simp add: sorted_keys_Cons)
  next
    case 2
    then have n: "\<not> fst x < fst y" by simp
    have "\<forall>k \<in> fst ` set (merge_rows (x # xs) ys). fst y < k"
      unfolding merge_rows_keys using 2 x y less_trans by auto
    with 2 n 3(2) y 3(4) show ?thesis by (simp add: sorted_keys_Cons)
  next
    case c: 3
    have "\<forall>k \<in> fst ` set (merge_rows xs ys). fst y < k"
      unfolding merge_rows_keys using c x y by auto
    with c 3(3) x y show ?thesis by (simp add: sorted_keys_Cons)
  qed
qed simp_all

lemma merge_rows_map:
  "sorted_keys xs \<Longrightarrow> sorted_keys ys \<Longrightarrow> map_of (merge_rows xs ys) = map_of xs ++ map_of ys"
proof (induction xs ys rule: merge_rows.induct)
  case (3 x xs y ys)
  have x: "\<forall>k \<in> fst ` set xs. fst x < k" "sorted_keys xs" and y: "\<forall>k \<in> fst ` set ys. fst y < k" "sorted_keys ys"
    using 3(4,5) unfolding sorted_keys_Cons by blast+
  consider "fst x < fst y" | "fst y < fst x" | "fst x = fst y" by (metis linorder_cases)
  then show ?case
  proof cases
    case 1
    then have "map_of (y # ys) (fst x) = None"
      using y(1) by (auto simp: map_of_eq_None_iff dest: less_trans)
    with 1 3(1) x 3(5) show ?thesis
      by (auto simp: map_add_def fun_eq_iff split: option.split)
  next
    case 2
    then have n: "\<not> fst x < fst y" by simp
    with 2 3(2) y 3(4) show ?thesis by (auto simp: map_add_def fun_eq_iff split: option.split)
  next
    case c: 3
    with 3(3) x y show ?thesis by (auto simp: map_add_def fun_eq_iff split: option.split)
  qed
qed simp_all

lemma merge_loop_filled:
  "attrset_wf r \<Longrightarrow> ia \<le> unat (as_count a) \<Longrightarrow> ib \<le> unat (as_count b) \<Longrightarrow>
    filled al r (merge_rows (drop ia (rows a)) (drop ib (rows b))) (merge_loop al r a b ia ib)"
proof (induction al r a b ia ib rule: merge_loop.induct)
  case (1 al r a b ia ib)
  note unfold = merge_loop.simps [of al r a b ia ib]
  show ?case
  proof (cases "ia < unat (as_count a) \<and> ib < unat (as_count b)")
    case False
    then have m: "merge_rows (drop ia (rows a)) (drop ib (rows b)) = drop ia (rows a) @ drop ib (rows b)"
      using 1(5,6) by auto
    obtain ok al1 r1 where n: "copy_rest al r a ia = (ok, al1, r1)" by (metis prod_cases3)
    then have f: "filled al r (drop ia (rows a)) (ok, al1, r1)" using copy_rest_filled [OF 1(4)] by metis
    then have "attrset_wf r1" by (simp add: filled_def)
    then have "filled al1 r1 (drop ib (rows b)) (copy_rest al1 r1 b ib)" by (rule copy_rest_filled)
    from filled_then [OF f this] show ?thesis unfolding unfold m if_not_P [OF False] n by simp
  next
    case True
    then have ia: "ia < unat (as_count a)" and ib: "ib < unat (as_count b)" by simp_all
    have da: "drop ia (rows a) = rows a ! ia # drop (ia + 1) (rows a)"
      and db: "drop ib (rows b) = rows b ! ib # drop (ib + 1) (rows b)"
      using ia ib by (simp_all add: Cons_nth_drop_Suc)
    have ka: "fst (rows a ! ia) = as_names a ! ia" and kb: "fst (rows b ! ib) = as_names b ! ib"
      using ia ib by (simp_all add: rows_key)
    obtain ok al1 r1 where na: "insert_row al r a ia = (ok, al1, r1)" by (metis prod_cases3)
    obtain ok' al2 r2 where nb: "insert_row al r b ib = (ok', al2, r2)" by (metis prod_cases3)
    have fa: "filled al r [rows a ! ia] (ok, al1, r1)" using insert_row_filled [OF 1(4) ia] na by metis
    have fb: "filled al r [rows b ! ib] (ok', al2, r2)" using insert_row_filled [OF 1(4) ib] nb by metis
    have wf: "attrset_wf r1" "attrset_wf r2" using fa fb by (simp_all add: filled_def)
    consider "as_names a ! ia < as_names b ! ib" | "as_names b ! ib < as_names a ! ia"
      | "as_names a ! ia = as_names b ! ib" by (metis linorder_cases)
    then show ?thesis
    proof cases
      case lt: 1
      have "ok \<Longrightarrow> filled al1 r1 (merge_rows (drop (ia + 1) (rows a)) (drop ib (rows b)))
          (merge_loop al1 r1 a b (ia + 1) ib)"
        using 1(1) [OF True lt na [symmetric] refl] wf ia ib by simp
      from filled_then [OF fa this] show ?thesis
        unfolding unfold using True lt na ka kb by (simp add: da db del: drop_Suc)
    next
      case gt: 2
      then have nl: "\<not> as_names a ! ia < as_names b ! ib" by simp
      have "ok' \<Longrightarrow> filled al2 r2 (merge_rows (drop ia (rows a)) (drop (ib + 1) (rows b)))
          (merge_loop al2 r2 a b ia (ib + 1))"
        using 1(2) [OF True nl gt nb [symmetric] refl] wf ia ib by simp
      from filled_then [OF fb this] show ?thesis
        unfolding unfold using True gt nl nb ka kb by (simp add: da db del: drop_Suc)
    next
      case eq: 3
      then have nl: "\<not> as_names a ! ia < as_names b ! ib" "\<not> as_names a ! ia > as_names b ! ib" by simp_all
      have "ok' \<Longrightarrow> filled al2 r2 (merge_rows (drop (ia + 1) (rows a)) (drop (ib + 1) (rows b)))
          (merge_loop al2 r2 a b (ia + 1) (ib + 1))"
        using 1(3) [OF True nl nb [symmetric] refl] wf ia ib by simp
      from filled_then [OF fb this] show ?thesis
        unfolding unfold using True eq nb ka kb by (simp add: da db del: drop_Suc)
    qed
  qed
qed

subsection \<open>Removal\<close>

lemma skip_scan_result:
  "n \<le> length keys \<Longrightarrow> skip_scan key keys n = Inr (key \<in> set (take n keys))"
  by (induction key keys n rule: skip_scan.induct) auto

lemma remove_loop_filled:
  "attrset_wf r \<Longrightarrow> n \<le> length keys \<Longrightarrow> \<exists>res. remove_loop al r s keys n i = Inr res \<and>
    filled al r (filter (\<lambda>x. fst x \<notin> set (take n keys)) (drop i (rows s))) res"
proof (induction al r s keys n i rule: remove_loop.induct)
  case (1 al r s keys n i)
  note unfold = remove_loop.simps [of al r s keys n i]
  show ?case
  proof (cases "i < unat (as_count s)")
    case False
    with 1(3) show ?thesis by (simp add: unfold filled_nothing)
  next
    case True
    have d: "drop i (rows s) = rows s ! i # drop (i + 1) (rows s)" and k: "fst (rows s ! i) = as_names s ! i"
      using True by (simp_all add: Cons_nth_drop_Suc rows_key)
    have sk: "skip_scan (as_names s ! i) keys n = Inr (as_names s ! i \<in> set (take n keys))"
      using 1(4) by (rule skip_scan_result)
    show ?thesis
    proof (cases "as_names s ! i \<in> set (take n keys)")
      case skip: True
      with 1(1) [OF True _ 1(3,4)] show ?thesis unfolding unfold d using True sk k by simp
    next
      case keep: False
      obtain ok al1 r1 where n: "insert_row al r s i = (ok, al1, r1)" by (metis prod_cases3)
      have f: "filled al r [rows s ! i] (ok, al1, r1)" using insert_row_filled [OF 1(3) True] n by metis
      then have wf1: "attrset_wf r1" by (simp add: filled_def)
      show ?thesis
      proof (cases ok)
        case False
        with filled_then [OF f] n keep True sk k show ?thesis unfolding unfold d by simp
      next
        case ok: True
        then obtain res where res: "remove_loop al1 r1 s keys n (i + 1) = Inr res"
          "filled al1 r1 (filter (\<lambda>x. fst x \<notin> set (take n keys)) (drop (i + 1) (rows s))) res"
          using 1(2) [OF True keep n [symmetric] refl _ wf1 1(4)] by blast
        with filled_then [OF f res(2)] n keep True sk k ok show ?thesis unfolding unfold d by simp
      qed
    qed
  qed
qed

end
