(* ===== verification/Nova_Attrset_Spec.thy ===== *)
theory Nova_Attrset_Spec
  imports Nova_Attrset_Ops
begin

section \<open>What attribute sets promise\<close>

text \<open>
  The invariant of the store of attribute sets and the properties of its operations over the maps they represent.
\<close>

subsection \<open>The store\<close>

text \<open>Every live set is well-formed, and the tracked sets are exactly the live ones.\<close>

definition attr_store_wf :: "allocator \<Rightarrow> attr_store \<Rightarrow> bool" where
  "attr_store_wf al st \<longleftrightarrow> tracker_wf (at_tracked st) \<and>
     tracks_heap al (at_tracked st) (at_heap st) \<and>
     (\<forall>p s. at_heap st p = Some s \<longrightarrow> attrset_wf s)"

lemma attr_store_wf_init [wf_intros]: "attr_store_wf al attr_store_init"
  by (simp add: attr_store_wf_def attr_store_init_def wf_intros)

lemma attr_store_wf_update:
  assumes "attr_store_wf al st" and "p \<in> dom (at_heap st)" and "attrset_wf s"
  shows "attr_store_wf al (st\<lparr>at_heap := (at_heap st)(p \<mapsto> s)\<rparr>)"
  using assms by (auto simp: attr_store_wf_def intro: tracks_heap_update)

lemma attr_store_wf_steps:
  "attr_store_wf al st \<Longrightarrow> al_steps al al' \<Longrightarrow> attr_store_wf al' st"
  by (auto simp: attr_store_wf_def al_steps_def intro: tracks_heap_mono)

text \<open>A fresh set: empty, not frozen, at a block that was not in use.\<close>

definition fresh_set :: "allocator \<Rightarrow> attr_store \<Rightarrow> nat \<Rightarrow> attrset \<Rightarrow> attr_store \<Rightarrow> bool" where
  "fresh_set al st p r st' \<longleftrightarrow> p = al_next al \<and> at_heap st' = (at_heap st)(p \<mapsto> r) \<and>
     attrset_wf r \<and> rows r = [] \<and> as_frozen r = 0 \<and>
     length (tk_objs (at_tracked st')) = Suc (length (tk_objs (at_tracked st)))"

lemma new_set_wf:
  assumes "0 < cap" and "length ns = 2 * unat cap" and "length vs = unat cap"
  shows "attrset_wf \<lparr>as_names = ns, as_positions = unat cap, as_values = vs, as_count = 0,
    as_capacity = cap, as_frozen = 0\<rparr>"
  using assms by (simp add: attrset_wf_def)

lemma new_result:
  assumes wf: "attr_store_wf al st"
  obtains res al' st' where "nn_attrset_new capacity al st = (res, al', st')"
    and "attr_store_wf al' st'" and "al_steps al al'"
    and "case res of None \<Rightarrow> at_heap st' = at_heap st | Some p \<Rightarrow> \<exists>r. fresh_set al st p r st'"
    and "al_ok al = (\<lambda>_ _. True) \<and> length (tk_objs (at_tracked st)) < 2 ^ 31 \<longrightarrow> res \<noteq> None"
proof -
  define cap where "cap = (if capacity = 0 then 8 else capacity)"
  have cap: "0 < cap" by (simp add: cap_def word_gt_0)
  let ?p = "al_next al" and ?al3 = "al\<lparr>al_next := Suc (Suc (Suc (al_next al)))\<rparr>"
  have t: "tracker_wf (at_tracked st)" "tracks_heap al (at_tracked st) (at_heap st)"
    "\<forall>p s. at_heap st p = Some s \<longrightarrow> attrset_wf s" using wf by (simp_all add: attr_store_wf_def)
  show ?thesis
  proof (cases "al_ok al ?p 40 \<and> al_ok al (Suc ?p) (names_block_bytes cap) \<and> al_ok al (Suc (Suc ?p)) (ucast cap * 8)")
    case False
    then obtain n where n: "nn_attrset_new capacity al st = (None, al\<lparr>al_next := n\<rparr>, st)" "?p \<le> n"
      unfolding nn_attrset_new_def c_malloc_def Let_def cap_def [symmetric]
      by (cases "al_ok al ?p 40"; cases "al_ok al (Suc ?p) (names_block_bytes cap)";
          cases "al_ok al (Suc (Suc ?p)) (ucast cap * 8)") auto
    have "al_steps al (al\<lparr>al_next := n\<rparr>)" using n(2) by (simp add: al_steps_def)
    moreover have "al_ok al \<noteq> (\<lambda>_ _. True)" using False by metis
    ultimately show ?thesis using that [OF n(1)] attr_store_wf_steps [OF wf] by simp
  next
    case True
    define r where "r = \<lparr>as_names = fill_u32 (al\<lparr>al_next := Suc ?p\<rparr>) (Suc ?p) 0 (2 * unat cap),
      as_positions = unat cap,
      as_values = fill_val (al\<lparr>al_next := Suc (Suc ?p)\<rparr>) (Suc (Suc ?p)) 0 (unat cap),
      as_count = 0, as_capacity = cap, as_frozen = 0\<rparr>"
    obtain ok al4 tk where k: "nn_attrset_track ?al3 (at_tracked st) ?p = (ok, al4, tk)"
      by (metis prod_cases3)
    have call: "nn_attrset_new capacity al st = (if \<not> ok then (None, al4, st\<lparr>at_tracked := tk\<rparr>)
        else (Some ?p, al4, st\<lparr>at_heap := (at_heap st)(?p \<mapsto> r), at_tracked := tk\<rparr>))"
      using True k unfolding nn_attrset_new_def c_malloc_def Let_def cap_def [symmetric]
      by (simp add: r_def)
    have r: "attrset_wf r" "rows r = []" "as_frozen r = 0"
      using new_set_wf cap by (simp_all add: r_def rows_def)
    have st: "al_steps al al4" using attrs.track_steps [OF k] by (simp add: al_steps_def)
    have tw: "tracker_wf tk" using attrs.track_wf [OF k t(1)] .
    have full: "al_ok al = (\<lambda>_ _. True) \<and> length (tk_objs (at_tracked st)) < 2 ^ 31 \<longrightarrow> ok"
      using attrs.track_total [OF t(1), of ?al3 ?p] k by simp
    show ?thesis
    proof (cases ok)
      case False
      have k0: "nn_attrset_track ?al3 (at_tracked st) ?p = (False, al4, tk)" using k False by simp
      have "tracks_heap al4 tk (at_heap st)"
        by (rule attrs.tracks_refused [OF t(2) _ k0]) simp
      then show ?thesis
        using that [of None al4] call False st full tw t(3) by (simp add: attr_store_wf_def)
    next
      case ok: True
      have k1: "nn_attrset_track ?al3 (at_tracked st) ?p = (True, al4, tk)" using k ok by simp
      let ?st' = "st\<lparr>at_heap := (at_heap st)(?p \<mapsto> r), at_tracked := tk\<rparr>"
      have "tracks_heap al4 tk ((at_heap st)(?p \<mapsto> r))"
        by (rule attrs.tracks_new [OF t(2) _ _ _ k1]) simp_all
      then have wf': "attr_store_wf al4 ?st'" using tw t(3) r(1) by (simp add: attr_store_wf_def)
      have "fresh_set al st ?p r ?st'"
        using r attrs.track_appends [OF k1] by (simp add: fresh_set_def)
      then show ?thesis
        by (intro that [of "Some ?p" al4 ?st'] wf' st) (use call ok in auto)
    qed
  qed
qed

subsection \<open>A conforming \<open>qsort\<close>\<close>

text \<open>Insertion by the comparator; it shows that the hypothesis on \<open>qsort\<close> can hold.\<close>

fun insert_by :: "('a \<Rightarrow> 'a \<Rightarrow> int) \<Rightarrow> 'a \<Rightarrow> 'a list \<Rightarrow> 'a list" where
  "insert_by cmp x [] = [x]"
| "insert_by cmp x (y # ys) = (if cmp x y \<le> 0 then x # y # ys else y # insert_by cmp x ys)"

definition sort_by :: "('a \<Rightarrow> 'a \<Rightarrow> int) \<Rightarrow> 'a list \<Rightarrow> 'a list" where
  "sort_by cmp xs = foldr (insert_by cmp) xs []"

lemma mset_insert_by [simp]: "mset (insert_by cmp x ys) = add_mset x (mset ys)"
  by (induction ys) auto

lemma set_insert_by [simp]: "set (insert_by cmp x ys) = insert x (set ys)"
  by (induction ys) auto

lemma mset_sort_by [simp]: "mset (sort_by cmp xs) = mset xs"
  by (induction xs) (simp_all add: sort_by_def)

lemma cmp_orders_subset: "cmp_orders cmp A \<Longrightarrow> B \<subseteq> A \<Longrightarrow> cmp_orders cmp B"
  unfolding cmp_orders_def by blast

lemma cmp_orders_trans:
  "cmp_orders cmp A \<Longrightarrow> x \<in> A \<Longrightarrow> y \<in> A \<Longrightarrow> z \<in> A \<Longrightarrow> cmp x y \<le> 0 \<Longrightarrow> cmp y z \<le> 0 \<Longrightarrow> cmp x z \<le> 0"
  unfolding cmp_orders_def by blast

lemma insert_by_sorted:
  assumes "cmp_orders cmp (insert x (set ys))" and "sorted_wrt (\<lambda>x y. cmp x y \<le> 0) ys"
  shows "sorted_wrt (\<lambda>x y. cmp x y \<le> 0) (insert_by cmp x ys)"
  using assms
proof (induction ys)
  case (Cons y ys)
  have o: "cmp_orders cmp (insert x (set ys))" using Cons.prems(1) by (rule cmp_orders_subset) auto
  have total: "cmp x y \<le> 0 \<or> cmp y x \<le> 0" using Cons.prems(1) by (auto simp: cmp_orders_def)
  show ?case
  proof (cases "cmp x y \<le> 0")
    case True
    have "cmp x z \<le> 0" if z: "z \<in> set ys" for z
    proof -
      have "cmp y z \<le> 0" using Cons.prems(2) z by simp
      with True show ?thesis using cmp_orders_trans [OF Cons.prems(1), of x y z] z by simp
    qed
    with True Cons.prems show ?thesis by simp
  next
    case False
    with Cons o total show ?thesis by auto
  qed
qed simp

lemma sort_by_conforms: "qsort_conforms sort_by"
proof -
  have "sorted_wrt (\<lambda>x y. cmp x y \<le> 0) (sort_by cmp xs)" if "cmp_orders cmp (set xs)"
    for cmp :: "tagged_entry \<Rightarrow> tagged_entry \<Rightarrow> int" and xs
    using that
  proof (induction xs)
    case (Cons x xs)
    have "cmp_orders cmp (set xs)" using Cons.prems by (rule cmp_orders_subset) auto
    moreover have "set (sort_by cmp xs) = set xs" by (rule mset_eq_setD) simp
    ultimately show ?case
      using Cons insert_by_sorted [of cmp x "sort_by cmp xs"] by (simp add: sort_by_def)
  qed (simp add: sort_by_def)
  then show ?thesis by (simp add: qsort_conforms_def)
qed

text \<open>A set under construction with a repeated key.\<close>

definition sample_set :: attrset where
  "sample_set = \<lparr>as_names = [7, 3, 7, 0, 70, 30, 71, 0], as_positions = 4,
     as_values = [Raw 1, Raw 2, Raw 3, Raw 0], as_count = 3, as_capacity = 4, as_frozen = 0\<rparr>"

lemma sample_set_wf: "attrset_wf sample_set"
  by (simp add: attrset_wf_def sample_set_def word_le_nat_alt)

lemma sample_set_rows: "rows sample_set = [(7, 70, Raw 1), (3, 30, Raw 2), (7, 71, Raw 3)]"
  by (simp add: rows_def get_row_def sample_set_def upt_rec)

subsection \<open>Building a result set\<close>

text \<open>A set operation built the rows \<open>new\<close>: every set that was alive is unchanged, and the answer
  is NULL or a new frozen set of exactly those rows.\<close>

definition built :: "attr_store \<Rightarrow> row list \<Rightarrow> nat option \<Rightarrow> allocator \<Rightarrow> attr_store \<Rightarrow> bool" where
  "built st new res al' st' \<longleftrightarrow> attr_store_wf al' st' \<and> at_heap st \<subseteq>\<^sub>m at_heap st' \<and>
     (case res of None \<Rightarrow> True
      | Some p \<Rightarrow> p \<notin> dom (at_heap st) \<and>
          (\<exists>r. at_heap st' p = Some r \<and> attrset_wf r \<and> as_frozen r = 1 \<and> rows r = new))"

lemma finish_built:
  assumes wf: "attr_store_wf al st" "attr_store_wf al1 st1" and f: "fresh_set al st p r st1"
    and al1: "al_ok al1 = al_ok al" and fl: "filled al1 r new res"
  obtains res' al' st' where "finish_result p st1 res = Inr (res', al', st')"
    and "built st new res' al' st'"
    and "res' \<noteq> None \<longrightarrow> length new \<le> 4294967295"
    and "al_ok al = (\<lambda>_ _. True) \<and> length new \<le> 4294967295 \<longrightarrow> res' \<noteq> None"
proof -
  obtain ok al' r' where res: "res = (ok, al', r')" by (metis prod_cases3)
  have p: "p \<notin> dom (at_heap st)" "p \<in> dom (at_heap st1)" "at_heap st1 = (at_heap st)(p \<mapsto> r)"
    using f wf(1) by (auto simp: fresh_set_def attr_store_wf_def tracks_heap_def)
  have r: "rows r = []" "unat (as_count r) = 0" using f length_rows [of r] by (simp_all add: fresh_set_def)
  have c: "attrset_wf r'" "al_steps al1 al'" "ok \<longrightarrow> rows r' = new" "ok \<longrightarrow> length new \<le> 4294967295"
    "al_ok al1 = (\<lambda>_ _. True) \<and> length new \<le> 4294967295 \<longrightarrow> ok"
    using fl r by (simp_all add: filled_def res)
  have w: "attr_store_wf al' st1" using wf(2) c(2) by (rule attr_store_wf_steps)
  have le: "at_heap st \<subseteq>\<^sub>m (at_heap st1)(p \<mapsto> x)" for x using p by (auto simp: map_le_def)
  show ?thesis
  proof (cases ok)
    case False
    have "attr_store_wf al' (st1\<lparr>at_heap := (at_heap st1)(p \<mapsto> r')\<rparr>)"
      using w p(2) c(1) by (rule attr_store_wf_update)
    then have "built st new None al' (st1\<lparr>at_heap := (at_heap st1)(p \<mapsto> r')\<rparr>)"
      using le by (simp add: built_def)
    then show ?thesis by (rule that [rotated]) (use False res c(5) al1 in \<open>simp_all add: finish_result_def\<close>)
  next
    case True
    let ?r = "r'\<lparr>as_frozen := 1\<rparr>"
    have "attr_store_wf al' (st1\<lparr>at_heap := (at_heap st1)(p \<mapsto> ?r)\<rparr>)"
      using w p(2) c(1) by (intro attr_store_wf_update) simp_all
    then have "built st new (Some p) al' (st1\<lparr>at_heap := (at_heap st1)(p \<mapsto> ?r)\<rparr>)"
      using le p(1) c(1,3) True by (simp add: built_def)
    then show ?thesis by (rule that [rotated]) (use True res c(4) in \<open>simp_all add: finish_result_def\<close>)
  qed
qed

lemma built_nothing:
  assumes "attr_store_wf al' st'" and "at_heap st' = at_heap st"
  shows "built st new None al' st'"
  using assms by (simp add: built_def)

lemma merge_rows_length:
  assumes "sorted_keys xs" and "sorted_keys ys"
  shows "length (merge_rows xs ys) = card (fst ` set xs \<union> fst ` set ys)"
proof -
  have "distinct (map fst (merge_rows xs ys))"
    using merge_rows_sorted [OF assms] by (rule sorted_keys_distinct)
  then have "card (set (map fst (merge_rows xs ys))) = length (merge_rows xs ys)"
    by (simp only: distinct_card length_map)
  then show ?thesis using merge_rows_keys [of xs ys] by simp
qed

lemma union_builds:
  assumes wf: "attr_store_wf al st" and a: "at_heap st pa = Some a" and b: "at_heap st pb = Some b"
    and fr: "as_frozen a \<noteq> 0" "as_frozen b \<noteq> 0"
  obtains res al' st' where "nn_attrset_union dbg al st pa pb = Inr (res, al', st')"
    and "built st (merge_rows (rows a) (rows b)) res al' st'"
    and "res \<noteq> None \<longrightarrow> length (merge_rows (rows a) (rows b)) \<le> 4294967295"
    and "al_ok al = (\<lambda>_ _. True) \<and> length (tk_objs (at_tracked st)) < 2 ^ 31 \<and>
         length (merge_rows (rows a) (rows b)) \<le> 4294967295 \<longrightarrow> res \<noteq> None"
proof -
  define cap where "cap = (if (ucast (as_count a) :: u64) + ucast (as_count b) > ucast NN_ATTRSET_MAX_ENTRIES
    then NN_ATTRSET_MAX_ENTRIES else (ucast ((ucast (as_count a) :: u64) + ucast (as_count b)) :: u32))"
  obtain res1 al1 st1 where n: "nn_attrset_new cap al st = (res1, al1, st1)" "attr_store_wf al1 st1"
    "al_steps al al1"
    "case res1 of None \<Rightarrow> at_heap st1 = at_heap st | Some p \<Rightarrow> \<exists>r. fresh_set al st p r st1"
    "al_ok al = (\<lambda>_ _. True) \<and> length (tk_objs (at_tracked st)) < 2 ^ 31 \<longrightarrow> res1 \<noteq> None"
    by (rule new_result [OF wf])
  show ?thesis
  proof (cases res1)
    case None
    have "nn_attrset_union dbg al st pa pb = Inr (None, al1, st1)"
      using a b fr n(1) None by (simp add: nn_attrset_union_def Let_def cap_def split del: if_split)
    then show ?thesis by (rule that) (use n None built_nothing in auto)
  next
    case (Some p)
    then obtain r where f: "fresh_set al st p r st1" using n(4) by auto
    then have "at_heap st1 p = Some r" by (simp add: fresh_set_def)
    then have call: "nn_attrset_union dbg al st pa pb = finish_result p st1 (merge_loop al1 r a b 0 0)"
      using a b fr n(1) Some by (simp add: nn_attrset_union_def Let_def cap_def split del: if_split)
    have "attrset_wf r" using f by (simp add: fresh_set_def)
    then have "filled al1 r (merge_rows (rows a) (rows b)) (merge_loop al1 r a b 0 0)"
      using merge_loop_filled [of r 0 a 0 b al1] by simp
    then show ?thesis
      by (rule finish_built [OF wf n(2) f, rotated]) (use that call n(3) in \<open>auto simp: al_steps_def\<close>)
  qed
qed

lemma remove_builds:
  assumes wf: "attr_store_wf al st" and s: "at_heap st ps = Some s" and fr: "as_frozen s \<noteq> 0"
    and keys: "unat n \<le> length keys"
  defines "new \<equiv> filter (\<lambda>x. fst x \<notin> set (take (unat n) keys)) (rows s)"
  obtains res al' st' where "nn_attrset_remove_keys dbg al st ps keys n = Inr (res, al', st')"
    and "built st new res al' st'"
    and "al_ok al = (\<lambda>_ _. True) \<and> length (tk_objs (at_tracked st)) < 2 ^ 31 \<longrightarrow> res \<noteq> None"
proof -
  obtain res1 al1 st1 where n: "nn_attrset_new (as_count s) al st = (res1, al1, st1)" "attr_store_wf al1 st1"
    "al_steps al al1"
    "case res1 of None \<Rightarrow> at_heap st1 = at_heap st | Some p \<Rightarrow> \<exists>r. fresh_set al st p r st1"
    "al_ok al = (\<lambda>_ _. True) \<and> length (tk_objs (at_tracked st)) < 2 ^ 31 \<longrightarrow> res1 \<noteq> None"
    by (rule new_result [OF wf])
  have small: "length new \<le> 4294967295"
    using length_filter_le [of "\<lambda>x. fst x \<notin> set (take (unat n) keys)" "rows s"] unat_u32_less [of "as_count s"]
    by (simp add: new_def)
  show ?thesis
  proof (cases res1)
    case None
    have "nn_attrset_remove_keys dbg al st ps keys n = Inr (None, al1, st1)"
      using s fr n(1) None by (simp add: nn_attrset_remove_keys_def)
    then show ?thesis by (rule that) (use n None built_nothing in auto)
  next
    case (Some p)
    then obtain r where f: "fresh_set al st p r st1" using n(4) by auto
    then have "at_heap st1 p = Some r" "attrset_wf r" by (simp_all add: fresh_set_def)
    moreover from this obtain res where res: "remove_loop al1 r s keys (unat n) 0 = Inr res" "filled al1 r new res"
      using remove_loop_filled [of r "unat n" keys al1 s 0] keys by (auto simp: new_def)
    ultimately have call: "nn_attrset_remove_keys dbg al st ps keys n = finish_result p st1 res"
      using s fr n(1) Some by (simp add: nn_attrset_remove_keys_def)
    show ?thesis
      by (rule finish_built [OF wf n(2) f _ res(2)])
        (use that call n(3) small in \<open>auto simp: al_steps_def\<close>)
  qed
qed

subsection \<open>The properties\<close>

text \<open>An insert appends its row after the rows already there, which keep their keys,
  positions and values also when the arrays grow and the positions move; a refused insert changes
  no row. It is refused at UINT32_MAX rows, and otherwise only by the allocator.\<close>

theorem attrset_insert_appends:
  assumes "attrset_wf s"
  shows "case nn_attrset_insert al s key v pos of (ok, al', s') \<Rightarrow>
    attrset_wf s' \<and> as_frozen s' = as_frozen s \<and>
    rows s' = (if ok then rows s @ [(key, pos, v)] else rows s) \<and>
    (nn_attrset_size s = NN_ATTRSET_MAX_ENTRIES \<longrightarrow> \<not> ok) \<and>
    (al_ok al = (\<lambda>_ _. True) \<and> nn_attrset_size s \<noteq> NN_ATTRSET_MAX_ENTRIES \<longrightarrow> ok)"
proof -
  obtain ok al' s' where i: "nn_attrset_insert al s key v pos = (ok, al', s')"
    "appended s (if ok then [(key, pos, v)] else []) s'"
    "ok \<longrightarrow> unat (as_count s) < 4294967295"
    "al_ok al = (\<lambda>_ _. True) \<and> unat (as_count s) < 4294967295 \<longrightarrow> ok"
    by (rule insert_appends [OF assms])
  have "unat (as_count s) < 4294967295 \<longleftrightarrow> as_count s \<noteq> NN_ATTRSET_MAX_ENTRIES"
    using unat_u32_less [of "as_count s"] by (auto simp: word_unat_eq_iff)
  with i show ?thesis by (auto simp: appended_def nn_attrset_size_def)
qed

lemma attrset_insert_appends_witness:
  "case nn_attrset_insert al_all sample_set 5 (Raw 4) 50 of (ok, al', s') \<Rightarrow>
     ok \<and> rows s' = [(7, 70, Raw 1), (3, 30, Raw 2), (7, 71, Raw 3), (5, 50, Raw 4)]"
  using attrset_insert_appends [OF sample_set_wf, where al = al_all and key = 5 and v = "Raw 4" and pos = 50]
  by (auto simp: sample_set_rows al_all_def nn_attrset_size_def split: prod.splits)
    (auto simp: sample_set_def)

text \<open>C22: Freezing a set that is not frozen, with any conforming \<open>qsort\<close> and whether or not the
  allocator grants the tagged copy, sorts the rows stably by key and keeps the last row of every
  key: the keys increase strictly, and each key has the value and position of its last insert.\<close>

theorem attrset_freeze_result:
  assumes "attrset_wf s" and "as_frozen s = 0" and "qsort_conforms qsort"
  shows "case nn_attrset_freeze qsort al s of (al', s') \<Rightarrow>
    attrset_wf s' \<and> as_frozen s' = 1 \<and>
    rows s' = keep_last (sort_key fst (rows s)) \<and>
    sorted_wrt (<) (map fst (rows s')) \<and> map_of (rows s') = row_map (rows s)"
proof -
  obtain al' s' where f: "nn_attrset_freeze qsort al s = (al', s')" "attrset_wf s'"
    "rows s' = frozen_rows (rows s)" "as_frozen s' = 1"
    by (rule freeze_result [OF assms])
  have "sorted_keys (rows s')" and "row_map (rows s') = row_map (rows s)"
    by (simp_all add: f(3) frozen_rows_sorted frozen_rows_map)
  then have "map_of (rows s') = row_map (rows s)" and "sorted_wrt (<) (map fst (rows s'))"
    using row_map_distinct [OF sorted_keys_distinct, of "rows s'"] by (simp_all add: sorted_keys_def)
  with f show ?thesis by (simp add: frozen_rows_def)
qed

lemma attrset_freeze_result_witness:
  "rows (snd (nn_attrset_freeze sort_by al_all sample_set)) = [(3, 30, Raw 2), (7, 71, Raw 3)]"
proof -
  have "as_frozen sample_set = 0" by (simp add: sample_set_def)
  with attrset_freeze_result [OF sample_set_wf _ sort_by_conforms, of al_all]
  have "rows (snd (nn_attrset_freeze sort_by al_all sample_set)) =
      keep_last (sort_key fst (rows sample_set))"
    by (simp add: split_def)
  then show ?thesis by (simp add: sample_set_rows sort_key_def)
qed

text \<open>C24: In a set with increasing keys the binary search ends and the queries agree with the map
  of the rows: a key that is present is found at an index below the size, which holds the key, its
  position and its value, and looked up as that value, in debug and release builds alike; an absent
  key gives \<open>NN_ATTRSET_NOT_FOUND\<close> and NULL.\<close>

theorem attrset_lookup_result:
  assumes "attrset_wf s" and "sorted_wrt (<) (map fst (rows s))"
  shows "case map_of (rows s) key of
      None \<Rightarrow> nn_attrset_index s key = NN_ATTRSET_NOT_FOUND \<and> nn_attrset_lookup s key = NULL
    | Some (pos, v) \<Rightarrow> nn_attrset_lookup s key = v \<and> nn_attrset_index s key < nn_attrset_size s \<and>
        nn_attrset_get_key dbg s (nn_attrset_index s key) = Inr key \<and>
        nn_attrset_get_pos dbg s (nn_attrset_index s key) = Inr pos \<and>
        nn_attrset_get_value dbg s (nn_attrset_index s key) = Inr v"
proof -
  let ?i = "nn_attrset_index s key"
  have so: "sorted_keys (rows s)" using assms(2) by (simp add: sorted_keys_def)
  then have m: "row_map (rows s) = map_of (rows s)" and d: "distinct (map fst (rows s))"
    by (auto intro: row_map_distinct sorted_keys_distinct)
  note r = index_result [OF so, of key] and l = lookup_result [OF so, of key, unfolded m]
  show ?thesis
  proof (cases "map_of (rows s) key")
    case None
    then have "key \<notin> fst ` set (rows s)" by (simp add: map_of_eq_None_iff)
    with None show ?thesis using r l by simp
  next
    case (Some pv)
    obtain pos v where pv: "pv = (pos, v)" by (cases pv)
    have "key \<in> fst ` set (rows s)" using Some by (metis domI dom_map_of_conv_image_fst)
    with r have i: "unat ?i < unat (as_count s)" "fst (rows s ! unat ?i) = key" by simp_all
    then have "(key, snd (rows s ! unat ?i)) \<in> set (rows s)"
      by (metis length_rows nth_mem prod.collapse)
    then have "rows s ! unat ?i = (key, pos, v)"
      using d Some pv i(2) by (metis map_of_eq_Some_iff option.inject prod.collapse)
    then have row: "as_names s ! unat ?i = key" "as_names s ! (as_positions s + unat ?i) = pos"
      "as_values s ! unat ?i = v" using i(1) by (simp_all add: nth_rows get_row_def)
    have "unat ?i < unat (as_capacity s)" using i(1) attrset_wf_count [OF assms(1)] by simp
    with row i(1) Some pv l assms(1) show ?thesis
      by (simp add: nn_attrset_get_key_def nn_attrset_get_pos_def nn_attrset_get_value_def
          nn_attrset_size_def attrset_wf_def word_less_nat_alt)
  qed
qed

text \<open>A frozen set.\<close>

definition sample_frozen :: attrset where
  "sample_frozen = \<lparr>as_names = [3, 7, 9, 0, 30, 71, 90, 0], as_positions = 4,
     as_values = [Raw 2, Raw 3, Raw 5, Raw 0], as_count = 3, as_capacity = 4, as_frozen = 1\<rparr>"

lemma sample_frozen_wf: "attrset_wf sample_frozen"
  by (simp add: attrset_wf_def sample_frozen_def word_le_nat_alt)

lemma sample_frozen_rows: "rows sample_frozen = [(3, 30, Raw 2), (7, 71, Raw 3), (9, 90, Raw 5)]"
  by (simp add: rows_def get_row_def sample_frozen_def upt_rec)

lemma attrset_lookup_result_witness:
  "nn_attrset_lookup sample_frozen 7 = Raw 3 \<and> nn_attrset_lookup sample_frozen 8 = NULL"
  using attrset_lookup_result [OF sample_frozen_wf, of 7] attrset_lookup_result [OF sample_frozen_wf, of 8]
  by (simp add: sample_frozen_rows word_less_nat_alt)

text \<open>A store of two frozen sets.\<close>

definition sample_other :: attrset where
  "sample_other = \<lparr>as_names = [7, 8, 77, 78], as_positions = 2, as_values = [Raw 6, Raw 9],
     as_count = 2, as_capacity = 2, as_frozen = 1\<rparr>"

lemma sample_other_rows: "rows sample_other = [(7, 77, Raw 6), (8, 78, Raw 9)]"
  by (simp add: rows_def get_row_def sample_other_def upt_rec)

definition sample_store :: attr_store where
  "sample_store = \<lparr>at_heap = [1 \<mapsto> sample_frozen, 2 \<mapsto> sample_other],
     at_tracked = \<lparr>tk_objs = [1, 2], tk_cap = 256\<rparr>\<rparr>"

lemma sample_store_wf: "attr_store_wf al_all sample_store"
proof -
  have "attrset_wf sample_other" by (simp add: attrset_wf_def sample_other_def)
  then show ?thesis using sample_frozen_wf
    by (auto simp: attr_store_wf_def sample_store_def tracker_wf_def tracks_heap_def al_all_def
        intro: exI [of _ 0])
qed

text \<open>C26: The union of two frozen sets returns, in debug and release builds alike, and leaves
  every live set as it was. Its answer is a new frozen set with increasing keys whose map is the
  right-biased union of the two maps, positions included, or NULL; when memory is granted it is
  NULL exactly when the union has more than UINT32_MAX keys, however many both sides have.\<close>

theorem attrset_union_result:
  assumes "attr_store_wf al st" and "at_heap st pa = Some a" and "at_heap st pb = Some b"
    and "as_frozen a \<noteq> 0" and "as_frozen b \<noteq> 0"
    and "sorted_wrt (<) (map fst (rows a))" and "sorted_wrt (<) (map fst (rows b))"
  shows "\<exists>res al' st'. nn_attrset_union dbg al st pa pb = Inr (res, al', st') \<and>
    attr_store_wf al' st' \<and> at_heap st \<subseteq>\<^sub>m at_heap st' \<and>
    (case res of None \<Rightarrow> True | Some p \<Rightarrow> p \<notin> dom (at_heap st) \<and>
       (\<exists>r. at_heap st' p = Some r \<and> as_frozen r = 1 \<and> sorted_wrt (<) (map fst (rows r)) \<and>
          map_of (rows r) = map_of (rows a) ++ map_of (rows b))) \<and>
    (al_ok al = (\<lambda>_ _. True) \<and> length (tk_objs (at_tracked st)) < 2 ^ 31 \<longrightarrow>
       (res \<noteq> None \<longleftrightarrow> card (dom (map_of (rows a)) \<union> dom (map_of (rows b))) \<le> 4294967295))"
proof -
  have so: "sorted_keys (rows a)" "sorted_keys (rows b)" using assms(6,7) by (simp_all add: sorted_keys_def)
  let ?m = "merge_rows (rows a) (rows b)"
  have m: "sorted_keys ?m" "map_of ?m = map_of (rows a) ++ map_of (rows b)"
    "length ?m = card (dom (map_of (rows a)) \<union> dom (map_of (rows b)))"
    using merge_rows_sorted [OF so] merge_rows_map [OF so] merge_rows_length [OF so]
    by (simp_all add: dom_map_of_conv_image_fst)
  obtain res al' st' where u: "nn_attrset_union dbg al st pa pb = Inr (res, al', st')"
    "built st ?m res al' st'" "res \<noteq> None \<longrightarrow> length ?m \<le> 4294967295"
    "al_ok al = (\<lambda>_ _. True) \<and> length (tk_objs (at_tracked st)) < 2 ^ 31 \<and>
       length ?m \<le> 4294967295 \<longrightarrow> res \<noteq> None"
    by (rule union_builds [OF assms(1-5)])
  have "case res of None \<Rightarrow> True | Some p \<Rightarrow> p \<notin> dom (at_heap st) \<and>
       (\<exists>r. at_heap st' p = Some r \<and> as_frozen r = 1 \<and> sorted_wrt (<) (map fst (rows r)) \<and>
          map_of (rows r) = map_of (rows a) ++ map_of (rows b))"
    using u(2) m(1,2) by (auto simp: built_def sorted_keys_def split: option.splits)
  with u m(3) show ?thesis
    by (intro exI [of _ res] exI [of _ al'] exI [of _ st']) (auto simp: built_def)
qed

lemma attrset_union_result_witness:
  "\<exists>p al' st' r. nn_attrset_union True al_all sample_store 1 2 = Inr (Some p, al', st') \<and>
     at_heap st' p = Some r \<and>
     map_of (rows r) = [3 \<mapsto> (30, Raw 2), 7 \<mapsto> (77, Raw 6), 8 \<mapsto> (78, Raw 9), 9 \<mapsto> (90, Raw 5)]"
proof -
  have h: "at_heap sample_store 1 = Some sample_frozen" "at_heap sample_store 2 = Some sample_other"
    "as_frozen sample_frozen \<noteq> 0" "as_frozen sample_other \<noteq> 0"
    "sorted_wrt (<) (map fst (rows sample_frozen))" "sorted_wrt (<) (map fst (rows sample_other))"
    by (simp_all add: sample_store_def sample_frozen_rows sample_other_rows)
      (simp_all add: sample_frozen_def sample_other_def)
  have m: "map_of (rows sample_frozen) ++ map_of (rows sample_other) =
      [3 \<mapsto> (30, Raw 2), 7 \<mapsto> (77, Raw 6), 8 \<mapsto> (78, Raw 9), 9 \<mapsto> (90, Raw 5)]"
    by (auto simp: sample_frozen_rows sample_other_rows fun_eq_iff map_add_def)
  have c: "card (dom (map_of (rows sample_frozen)) \<union> dom (map_of (rows sample_other))) \<le> 4294967295"
    by (simp add: sample_frozen_rows sample_other_rows card_insert_if)
  obtain res al' st' where r: "nn_attrset_union True al_all sample_store 1 2 = Inr (res, al', st')"
    "case res of None \<Rightarrow> True | Some p \<Rightarrow> p \<notin> dom (at_heap sample_store) \<and>
       (\<exists>r. at_heap st' p = Some r \<and> as_frozen r = 1 \<and> sorted_wrt (<) (map fst (rows r)) \<and>
          map_of (rows r) = map_of (rows sample_frozen) ++ map_of (rows sample_other))"
    "res \<noteq> None"
    using attrset_union_result [OF sample_store_wf h, of True] c
    by (auto simp: al_all_def sample_store_def)
  then show ?thesis unfolding m by (cases res) auto
qed

lemma map_of_filter_keys: "map_of (filter (\<lambda>x. fst x \<notin> K) xs) = map_of xs |` (- K)"
  by (induction xs) (auto simp: restrict_map_def fun_eq_iff)

text \<open>Removing keys from a frozen set returns, when the list holds as many keys as it says,
  and answers NULL (only when the allocator or the tracking array refuses) or a new frozen set of
  exactly the rows whose key is not listed; the keys still increase and every live set is as it
  was.\<close>

theorem attrset_remove_result:
  assumes "attr_store_wf al st" and "at_heap st ps = Some s" and "as_frozen s \<noteq> 0"
    and "unat n \<le> length keys" and "sorted_wrt (<) (map fst (rows s))"
  shows "\<exists>res al' st'. nn_attrset_remove_keys dbg al st ps keys n = Inr (res, al', st') \<and>
    attr_store_wf al' st' \<and> at_heap st \<subseteq>\<^sub>m at_heap st' \<and>
    (case res of None \<Rightarrow> True | Some p \<Rightarrow> p \<notin> dom (at_heap st) \<and>
       (\<exists>r. at_heap st' p = Some r \<and> as_frozen r = 1 \<and> sorted_wrt (<) (map fst (rows r)) \<and>
          map_of (rows r) = map_of (rows s) |` (- set (take (unat n) keys)))) \<and>
    (al_ok al = (\<lambda>_ _. True) \<and> length (tk_objs (at_tracked st)) < 2 ^ 31 \<longrightarrow> res \<noteq> None)"
proof -
  let ?K = "set (take (unat n) keys)"
  let ?new = "filter (\<lambda>x. fst x \<notin> ?K) (rows s)"
  have so: "sorted_wrt (<) (map fst ?new)"
    using assms(5) by (simp add: sorted_wrt_map sorted_wrt_filter)
  have m: "map_of ?new = map_of (rows s) |` (- ?K)" by (rule map_of_filter_keys)
  obtain res al' st' where u: "nn_attrset_remove_keys dbg al st ps keys n = Inr (res, al', st')"
    "built st ?new res al' st'"
    "al_ok al = (\<lambda>_ _. True) \<and> length (tk_objs (at_tracked st)) < 2 ^ 31 \<longrightarrow> res \<noteq> None"
    by (rule remove_builds [OF assms(1-4)])
  have "case res of None \<Rightarrow> True | Some p \<Rightarrow> p \<notin> dom (at_heap st) \<and>
       (\<exists>r. at_heap st' p = Some r \<and> as_frozen r = 1 \<and> sorted_wrt (<) (map fst (rows r)) \<and>
          map_of (rows r) = map_of (rows s) |` (- ?K))"
    using u(2) so m by (auto simp: built_def split: option.splits)
  with u show ?thesis
    by (intro exI [of _ res] exI [of _ al'] exI [of _ st']) (auto simp: built_def)
qed

lemma attrset_remove_result_witness:
  "\<exists>p al' st' r. nn_attrset_remove_keys False al_all sample_store 1 [9, 4] 2 = Inr (Some p, al', st') \<and>
     at_heap st' p = Some r \<and> map_of (rows r) = [3 \<mapsto> (30, Raw 2), 7 \<mapsto> (71, Raw 3)]"
proof -
  have h: "at_heap sample_store 1 = Some sample_frozen" "as_frozen sample_frozen \<noteq> 0"
    "unat (2 :: u32) \<le> length [9, 4 :: u32]" "sorted_wrt (<) (map fst (rows sample_frozen))"
    by (simp_all add: sample_store_def sample_frozen_rows) (simp add: sample_frozen_def)
  have m: "map_of (rows sample_frozen) |` (- set (take (unat (2 :: u32)) [9, 4])) =
      [3 \<mapsto> (30, Raw 2), 7 \<mapsto> (71, Raw 3)]"
    by (auto simp: sample_frozen_rows fun_eq_iff restrict_map_def)
  obtain res al' st' where r:
    "nn_attrset_remove_keys False al_all sample_store 1 [9, 4] 2 = Inr (res, al', st')"
    "case res of None \<Rightarrow> True | Some p \<Rightarrow> p \<notin> dom (at_heap sample_store) \<and>
       (\<exists>r. at_heap st' p = Some r \<and> as_frozen r = 1 \<and> sorted_wrt (<) (map fst (rows r)) \<and>
          map_of (rows r) = map_of (rows sample_frozen) |` (- set (take (unat (2 :: u32)) [9, 4])))"
    "res \<noteq> None"
    using attrset_remove_result [OF sample_store_wf h, of False]
    by (auto simp: al_all_def sample_store_def)
  then show ?thesis unfolding m by (cases res) auto
qed

lemma attrset_free_loop_each: "attrset_free_loop bs h = c_free_each bs h"
  by (induction bs h rule: attrset_free_loop.induct)
    (simp_all add: nn_attrset_free_def c_free_def fun_upd_def split: option.split)

text \<open>The teardown frees every live set exactly once and leaves none, and it is the only free
  there may be: a set freed on its own stays tracked, and the teardown then frees it a second time,
  which is undefined (nn_attrset.h warns of it).\<close>

theorem attrset_teardown:
  assumes "attr_store_wf al st"
  shows "nn_attrset_free_all st = Inr attr_store_init \<and>
    (\<forall>p \<in> dom (at_heap st). \<exists>h. nn_attrset_free (Some p) (at_heap st) = Inr h \<and>
       nn_attrset_free_all (st\<lparr>at_heap := h\<rparr>) = Inl Undefined)"
proof -
  have t: "tracks_heap al (at_tracked st) (at_heap st)" using assms by (simp add: attr_store_wf_def)
  have "nn_attrset_free_all st = Inr attr_store_init"
    using tracks_heap_free_each [OF t]
    by (simp add: nn_attrset_free_all_def attrset_free_loop_each attr_store_init_def)
  moreover have "nn_attrset_free_all (st\<lparr>at_heap := (at_heap st)(p := None)\<rparr>) = Inl Undefined"
    if "p \<in> dom (at_heap st)" for p
  proof -
    have "\<not> set (tk_objs (at_tracked st)) \<subseteq> dom ((at_heap st)(p := None))"
      using t that by (auto simp: tracks_heap_def)
    then show ?thesis
      using c_free_each_double [of "tk_objs (at_tracked st)" "(at_heap st)(p := None)"]
      by (simp add: nn_attrset_free_all_def attrset_free_loop_each)
  qed
  moreover have "nn_attrset_free (Some p) (at_heap st) = Inr ((at_heap st)(p := None))"
    if "p \<in> dom (at_heap st)" for p
    using that by (auto simp: nn_attrset_free_def c_free_def)
  ultimately show ?thesis by blast
qed

lemma attrset_teardown_witness:
  "nn_attrset_free_all sample_store = Inr attr_store_init"
  using attrset_teardown [OF sample_store_wf] by simp

text \<open>A client that builds a set: it inserts the rows one after the other and stops at a refusal.\<close>

fun insert_all :: "allocator \<Rightarrow> attrset \<Rightarrow> row list \<Rightarrow> bool \<times> allocator \<times> attrset" where
  "insert_all al s [] = (True, al, s)"
| "insert_all al s ((key, pos, v) # rs) =
     (case nn_attrset_insert al s key v pos of (ok, al', s') \<Rightarrow>
        if ok then insert_all al' s' rs else (False, al', s'))"

lemma insert_all_filled: "attrset_wf s \<Longrightarrow> filled al s rs (insert_all al s rs)"
proof (induction al s rs rule: insert_all.induct)
  case (1 al s)
  then show ?case by (simp add: filled_nothing)
next
  case (2 al s key pos v rs)
  obtain ok al' s' where n: "nn_attrset_insert al s key v pos = (ok, al', s')"
    "appended s (if ok then [(key, pos, v)] else []) s'" "al_steps al al'"
    "ok \<longrightarrow> unat (as_count s) < 4294967295"
    "al_ok al = (\<lambda>_ _. True) \<and> unat (as_count s) < 4294967295 \<longrightarrow> ok"
    by (rule insert_appends [OF 2(2)])
  have f: "filled al s [(key, pos, v)] (ok, al', s')" using n by (auto simp: filled_def appended_def)
  have "ok \<Longrightarrow> filled al' s' rs (insert_all al' s' rs)"
    using 2(1) [OF n(1) [symmetric] refl] n(2) by (simp add: appended_def)
  from filled_then [OF f this] n(1) show ?case by simp
qed

text \<open>A set built from any rows the ceiling admits and then frozen looks up every key as the
  value of the last row inserted with it: the two-phase construction implements a map update by
  update, through every growth, sort and deduplication.\<close>

lemma build_lookup:
  assumes "attrset_wf s" and "rows s = []" and "as_frozen s = 0" and "qsort_conforms qsort"
    and "al_ok al = (\<lambda>_ _. True)" and "length rs \<le> 4294967295"
  shows "case insert_all al s rs of (ok, al1, s1) \<Rightarrow> ok \<and>
    (case nn_attrset_freeze qsort al1 s1 of (al2, s2) \<Rightarrow>
       nn_attrset_lookup s2 key = (case row_map rs key of None \<Rightarrow> NULL | Some (pos, v) \<Rightarrow> v))"
proof -
  obtain ok al1 s1 where i: "insert_all al s rs = (ok, al1, s1)" by (metis prod_cases3)
  have "unat (as_count s) = 0" using assms(2) length_rows [of s] by simp
  with insert_all_filled [OF assms(1), of al rs] assms i
  have s1: "ok" "attrset_wf s1" "as_frozen s1 = 0" "rows s1 = rs" by (simp_all add: filled_def)
  obtain al2 s2 where f: "nn_attrset_freeze qsort al1 s1 = (al2, s2)" "rows s2 = frozen_rows (rows s1)"
    by (rule freeze_result [OF s1(2,3) assms(4)])
  have "sorted_keys (rows s2)" "row_map (rows s2) = row_map rs"
    by (simp_all add: f(2) s1(4) frozen_rows_sorted frozen_rows_map)
  with lookup_result [of s2 key] i f s1(1) show ?thesis by simp
qed

lemma build_lookup_sample:
  "\<exists>s1 s2 al1 al2. insert_all al_all (sample_set\<lparr>as_count := 0\<rparr>) [(7, 70, Raw 1), (7, 71, Raw 3)] = (True, al1, s1) \<and>
     nn_attrset_freeze sort_by al1 s1 = (al2, s2) \<and> nn_attrset_lookup s2 7 = Raw 3"
proof -
  have h: "attrset_wf (sample_set\<lparr>as_count := 0\<rparr>)" "rows (sample_set\<lparr>as_count := 0\<rparr>) = []"
    "as_frozen (sample_set\<lparr>as_count := 0\<rparr>) = 0" "al_ok al_all = (\<lambda>_ _. True)"
    by (simp_all add: attrset_wf_def rows_def) (simp_all add: sample_set_def al_all_def)
  show ?thesis
    using build_lookup [OF h(1-3) sort_by_conforms h(4), of "[(7, 70, Raw 1), (7, 71, Raw 3)]" 7]
    by (auto simp: row_map_def split: prod.splits)
qed

end
