(* ===== verification/Nova_List.thy ===== *)
theory Nova_List
  imports Nova_Track Nova_Env_Abs
begin

section \<open>nn_list.c: lists\<close>

text \<open>
  A list is a small tracked header over an array of items in the environment pages; NULL is the
  empty list. A suffix shares the items of its source. This theory holds the state and the
  operations; \<open>Nova_List_Spec\<close> holds what they promise.
\<close>

subsection \<open>State\<close>

record list_hdr =
  li_items :: val
  li_count :: u32

text \<open>The file's globals and the headers that are alive.\<close>

record list_store =
  ls_heap :: "nat \<rightharpoonup> list_hdr"
  ls_tracked :: tracker

definition list_store_init :: list_store where
  "list_store_init = \<lparr>ls_heap = Map.empty, ls_tracked = tracker_empty\<rparr>"

subsection \<open>Tracking\<close>

definition nn_list_track :: "allocator \<Rightarrow> tracker \<Rightarrow> nat \<Rightarrow> bool \<times> allocator \<times> tracker" where
  "nn_list_track al tk b =
     (if length (tk_objs tk) \<ge> unat (tk_cap tk) then
        if tk_cap tk > UINT32_MAX div 2 then (False, al, tk)
        else let new_cap = (if tk_cap tk \<noteq> 0 then tk_cap tk * 2 else 256) in
          (case c_malloc (ucast new_cap * 8) al of
             (None, al') \<Rightarrow> (False, al', tk)
           | (Some _, al') \<Rightarrow>
               (True, al', \<lparr>tk_objs = tk_objs tk @ [b], tk_cap = new_cap\<rparr>))
      else (True, al, tk\<lparr>tk_objs := tk_objs tk @ [b]\<rparr>))"

lemma nn_list_track_push: "nn_list_track = track_push"
  by (simp add: fun_eq_iff nn_list_track_def track_push_def)

interpretation lists: tracking nn_list_track
  unfolding nn_list_track_push by (rule tracking_track_push)

subsection \<open>Lifecycle\<close>

text \<open>The return code, \<open>*out\<close>, and the state after the call.\<close>

definition nn_list_new ::
  "u32 \<Rightarrow> allocator \<Rightarrow> env_mod \<Rightarrow> list_store \<Rightarrow> int \<times> nat option \<times> allocator \<times> env_mod \<times> list_store" where
  "nn_list_new cnt al m st =
     (if cnt = 0 then (0, None, al, m, st)
      else case c_malloc 16 al of
        (None, al1) \<Rightarrow> (-1, None, al1, m, st)
      | (Some p, al1) \<Rightarrow>
     (case nn_env_alloc_slots cnt al1 m of (items, al2, m') \<Rightarrow>
      if items = NULL then (-1, None, al2, m', st)
      else case nn_list_track al2 (ls_tracked st) p of (ok, al3, tk) \<Rightarrow>
        if \<not> ok then (-1, None, al3, m', st\<lparr>ls_tracked := tk\<rparr>)
        else (0, Some p, al3, m',
          \<lparr>ls_heap = (ls_heap st)(p \<mapsto> \<lparr>li_items = items, li_count = cnt\<rparr>), ls_tracked = tk\<rparr>)))"

text \<open>Pointer arithmetic on an array of pointers.\<close>

fun items_plus :: "val \<Rightarrow> nat \<Rightarrow> val" where
  "items_plus (Ptr b off) n = Ptr b (off + 8 * n)"
| "items_plus (Raw w) n = Raw (w + 8 * of_nat n)"

definition nn_list_drop ::
  "nat option \<Rightarrow> u32 \<Rightarrow> allocator \<Rightarrow> list_store \<Rightarrow> (int \<times> nat option \<times> allocator \<times> list_store) c_res" where
  "nn_list_drop p n al st =
     (if p = None then Inr (0, None, al, st)
      else res_bind (deref (ls_heap st) p) (\<lambda>list.
        if n \<ge> li_count list then Inr (0, None, al, st)
        else case c_malloc 16 al of
          (None, al1) \<Rightarrow> Inr (-1, None, al1, st)
        | (Some r, al1) \<Rightarrow>
            (case nn_list_track al1 (ls_tracked st) r of (ok, al2, tk) \<Rightarrow>
               if \<not> ok then Inr (-1, None, al2, st\<lparr>ls_tracked := tk\<rparr>)
               else Inr (0, Some r, al2,
                 \<lparr>ls_heap = (ls_heap st)(r \<mapsto> \<lparr>li_items = items_plus (li_items list) (unat n),
                                              li_count = li_count list - n\<rparr>),
                  ls_tracked = tk\<rparr>))))"

definition nn_list_free_all :: "list_store \<Rightarrow> list_store c_res" where
  "nn_list_free_all st =
     res_bind (c_free_each (tk_objs (ls_tracked st)) (ls_heap st)) (\<lambda>h.
       Inr \<lparr>ls_heap = h, ls_tracked = tracker_empty\<rparr>)"

subsection \<open>Access\<close>

definition nn_list_count :: "list_store \<Rightarrow> nat option \<Rightarrow> u32 c_res" where
  "nn_list_count st p = res_bind (deref (ls_heap st) p) (\<lambda>list. Inr (li_count list))"

definition nn_list_get :: "bool \<Rightarrow> list_store \<Rightarrow> memory \<Rightarrow> nat option \<Rightarrow> u32 \<Rightarrow> val c_res" where
  "nn_list_get dbg st mem p idx =
     res_bind (deref (ls_heap st) p) (\<lambda>list.
     NN_ASSERT dbg (idx < li_count list)
       (read_word mem (li_items list) (8 * unat idx)))"

definition nn_list_set ::
  "bool \<Rightarrow> list_store \<Rightarrow> memory \<Rightarrow> nat option \<Rightarrow> u32 \<Rightarrow> val \<Rightarrow> memory c_res" where
  "nn_list_set dbg st mem p idx thunk =
     res_bind (deref (ls_heap st) p) (\<lambda>list.
     NN_ASSERT dbg (idx < li_count list)
       (write_word mem (li_items list) (8 * unat idx) thunk))"

end
