(* ===== verification/Nova_List_Spec.thy ===== *)
theory Nova_List_Spec
  imports Nova_List Nova_Env_Spec
begin

section \<open>What lists promise\<close>

text \<open>
  A pointer represents a HOL list: NULL the empty one, a header the items it points to. Creating,
  sharing a suffix, reading and filling are the list functions \<open>replicate\<close>, \<open>drop\<close>, \<open>!\<close> and update.
\<close>

definition list_store_wf :: "allocator \<Rightarrow> list_store \<Rightarrow> bool" where
  "list_store_wf al st \<longleftrightarrow> tracked_store al (ls_tracked st) (ls_heap st)"

lemma list_store_wf_init [wf_intros]: "list_store_wf al list_store_init"
  by (simp add: list_store_wf_def list_store_init_def wf_intros)

definition list_at :: "list_store \<Rightarrow> memory \<Rightarrow> nat option \<Rightarrow> val list \<Rightarrow> bool" where
  "list_at st mem p xs \<longleftrightarrow> (case p of
     None \<Rightarrow> xs = []
   | Some b \<Rightarrow> xs \<noteq> [] \<and> length xs < 2 ^ 32 \<and> (\<exists>list. ls_heap st b = Some list \<and>
       li_count list = of_nat (length xs) \<and> array_at mem (li_items list) xs))"

lemma list_at_mono:
  assumes "ls_heap st \<subseteq>\<^sub>m ls_heap st'" and "mem \<subseteq>\<^sub>m mem'" and "list_at st mem p xs"
  shows "list_at st' mem' p xs"
proof (cases p)
  case (Some b)
  with assms(3) obtain list where l: "ls_heap st b = Some list" "li_count list = of_nat (length xs)"
    "array_at mem (li_items list) xs" "xs \<noteq> []" "length xs < 2 ^ 32" by (auto simp: list_at_def)
  have "ls_heap st' b = Some list" using assms(1) l(1) unfolding map_le_def by (metis domI)
  with Some l(2-5) array_at_mono [OF assms(2) l(3)] show ?thesis by (auto simp: list_at_def)
qed (use assms(3) in \<open>simp add: list_at_def\<close>)

text \<open>A new header over the given items, tracked.\<close>

lemma list_store_new:
  fixes hdr :: list_hdr
  assumes wf: "list_store_wf al st" and n: "al_next al \<le> b" "b < al_next al1" and st: "al_steps al al1"
    and tr: "nn_list_track al1 (ls_tracked st) b = (ok, al', tk)"
  defines "st' \<equiv> \<lparr>ls_heap = (if ok then (ls_heap st)(b \<mapsto> hdr) else ls_heap st), ls_tracked = tk\<rparr>"
  shows "list_store_wf al' st'" and "al_steps al al'" and "ls_heap st \<subseteq>\<^sub>m ls_heap st'"
proof -
  note s = lists.store_new [OF wf [unfolded list_store_wf_def] n st tr]
  show "list_store_wf al' st'" using s(1) by (simp add: list_store_wf_def st'_def)
  show "al_steps al al'" by (rule s(2))
  show "ls_heap st \<subseteq>\<^sub>m ls_heap st'" using s(3) by (auto simp: st'_def map_le_def)
qed

lemma track_room:
  "al_ok al = (\<lambda>_ _. True) \<Longrightarrow> tracker_wf tk \<Longrightarrow> length (tk_objs tk) < 2 ^ 31 \<Longrightarrow>
    nn_list_track al tk b = (ok, al', tk') \<Longrightarrow> ok"
  using lists.track_total [of tk al b] by simp

subsection \<open>Creation\<close>

text \<open>What every operation of the file keeps: the invariants, the words of memory and the headers.\<close>

definition list_kept :: "allocator \<times> env_mod \<times> list_store \<Rightarrow> allocator \<times> env_mod \<times> list_store \<Rightarrow> bool" where
  "list_kept = (\<lambda>(al, m, st) (al', m', st'). env_wf al' m' \<and> list_store_wf al' st' \<and> al_steps al al' \<and>
     ev_mem m \<subseteq>\<^sub>m ev_mem m' \<and> ls_heap st \<subseteq>\<^sub>m ls_heap st')"

lemma list_kept_at: "list_kept (al, m, st) (al', m', st') \<Longrightarrow> list_at st (ev_mem m) p xs \<Longrightarrow> list_at st' (ev_mem m') p xs"
  unfolding list_kept_def using list_at_mono by blast

lemma list_store_steps: "list_store_wf al st \<Longrightarrow> al_steps al al' \<Longrightarrow> list_store_wf al' st"
  unfolding list_store_wf_def by (rule tracked_store_steps)

lemma malloc_steps:
  "c_malloc n al = (Some b, al') \<Longrightarrow> al_steps al al' \<and> al_next al \<le> b \<and> b < al_next al'"
  "c_malloc n al = (r, al') \<Longrightarrow> al_steps al al'"
  by (auto simp: c_malloc_def al_steps_def split: if_splits)

lemma new_list_made:
  assumes wf: "env_wf al m" "list_store_wf al st"
  obtains rc out al' m' st' where "nn_list_new n al m st = (rc, out, al', m', st')"
    and "list_kept (al, m, st) (al', m', st')"
    and "(rc = 0 \<and> list_at st' (ev_mem m') out (replicate (unat n) NULL)) \<or>
      (rc = -1 \<and> out = None \<and> ls_heap st' = ls_heap st)"
    and "al_ok al = (\<lambda>_ _. True) \<and> nn_env_live m \<and> 8 * unat n \<le> 4294967288 \<and>
      length (tk_objs (ls_tracked st)) < 2 ^ 31 \<longrightarrow> rc = 0"
proof (cases "n = 0")
  case True
  with that [of 0 None al m st] wf show ?thesis
    by (simp add: nn_list_new_def list_kept_def list_at_def)
next
  case n0: False
  obtain r al1 where c: "c_malloc 16 al = (r, al1)" by (cases "c_malloc 16 al")
  have s1: "al_steps al al1" using c by (rule malloc_steps(2))
  have wf1: "env_wf al1 m" "list_store_wf al1 st"
    using env_wf_steps [OF wf(1) s1] list_store_steps [OF wf(2) s1] by simp_all
  show ?thesis
  proof (cases r)
    case None
    then have "al_ok al \<noteq> (\<lambda>_ _. True)" using c by (auto simp: c_malloc_def)
    then show ?thesis using that [of "-1" None al1 m st] None n0 c s1 wf1
      by (simp add: nn_list_new_def list_kept_def)
  next
    case (Some p)
    obtain it al2 m' where a: "nn_env_alloc_slots n al1 m = (it, al2, m')" by (metis prod_cases3)
    obtain it2 al3 m3 where r: "nn_env_alloc_slots n al1 m = (it2, al3, m3)" "al_steps al1 al3"
      "al_ok al1 = (\<lambda>_ _. True) \<and> nn_env_live m \<and> 0 < unat n \<and> 8 * unat n \<le> 4294967288 \<longrightarrow> it2 \<noteq> NULL"
      by (rule alloc_slots_result [OF wf1(1)])
    have s2: "al_steps al1 al2" and big: "al_ok al1 = (\<lambda>_ _. True) \<and> nn_env_live m \<and> 0 < unat n \<and>
        8 * unat n \<le> 4294967288 \<longrightarrow> it \<noteq> NULL" using r a by simp_all
    have wf2: "env_wf al2 m'" and le: "ev_mem m \<subseteq>\<^sub>m ev_mem m'"
      using slots.alloc_inv [OF wf1(1) a] slots.alloc_keeps [OF wf1(1) a] by simp_all
    have s: "al_steps al al2" using s1 s2 by (rule al_steps_trans)
    show ?thesis
    proof (cases "it = NULL")
      case True
      then show ?thesis using that [of "-1" None al2 m' st] Some n0 c a s le wf2 list_store_steps [OF wf(2) s]
          big s1 by (auto simp: nn_list_new_def list_kept_def al_steps_def unat_gt_0)
    next
      case False
      obtain ok al4 tk where t: "nn_list_track al2 (ls_tracked st) p = (ok, al4, tk)" by (metis prod_cases3)
      have p: "al_next al \<le> p" "p < al_next al2" using malloc_steps(1) [OF c [unfolded Some]] s2
        by (auto simp: al_steps_def)
      note st = list_store_new(1,3) [OF wf(2) p s t, where hdr = "\<lparr>li_items = it, li_count = n\<rparr>"]
        list_store_new(2) [OF wf(2) p s t]
      have wf4: "env_wf al4 m'" using wf2 lists.track_steps [OF t] by (rule env_wf_steps)
      have ok: "al_ok al = (\<lambda>_ _. True) \<and> length (tk_objs (ls_tracked st)) < 2 ^ 31 \<longrightarrow> ok"
        using track_room [OF _ _ _ t] s wf(2) by (simp add: list_store_wf_def tracked_store_def al_steps_def)
      show ?thesis
      proof (cases ok)
        case False
        then have "nn_list_new n al m st = (-1, None, al4, m', st\<lparr>ls_tracked := tk\<rparr>)"
          using Some n0 c a t \<open>it \<noteq> NULL\<close> by (simp add: nn_list_new_def)
        then show ?thesis by (rule that) (use False st ok wf4 le in \<open>simp_all add: list_kept_def list_store_wf_def\<close>)
      next
        case True
        have "array_at (ev_mem m') it (replicate (unat n) NULL)"
          using slots.alloc_granted [OF wf1(1) a False] by (rule granted_array)
        moreover have "unat n < 2 ^ 32" using unat_u32_less [of n] by simp
        ultimately have "list_at \<lparr>ls_heap = (ls_heap st)(p \<mapsto> \<lparr>li_items = it, li_count = n\<rparr>), ls_tracked = tk\<rparr>
            (ev_mem m') (Some p) (replicate (unat n) NULL)"
          using n0 by (simp add: list_at_def unat_eq_zero)
        moreover have "nn_list_new n al m st = (0, Some p, al4, m',
            \<lparr>ls_heap = (ls_heap st)(p \<mapsto> \<lparr>li_items = it, li_count = n\<rparr>), ls_tracked = tk\<rparr>)"
          using Some n0 c a t False True by (simp add: nn_list_new_def)
        ultimately show ?thesis using that st True wf4 le by (simp add: list_kept_def)
      qed
    qed
  qed
qed

text \<open>nn_list_new answers a list of \<open>cnt\<close> NULL items, NULL for an empty one, or -1 with no list and
  no header kept; it fails only when the allocator refuses, the environments are not live, the items do
  not fit an allocation or 2^31 headers are tracked. Every older list and environment stays as it is.\<close>

theorem list_new_result:
  assumes "env_wf al m" and "list_store_wf al st"
  shows "case nn_list_new cnt al m st of (rc, out, al', m', st') \<Rightarrow>
    list_kept (al, m, st) (al', m', st') \<and>
    ((rc = 0 \<and> list_at st' (ev_mem m') out (replicate (unat cnt) NULL)) \<or>
     (rc = -1 \<and> out = None \<and> ls_heap st' = ls_heap st)) \<and>
    (list_at st (ev_mem m) p xs \<longrightarrow> list_at st' (ev_mem m') p xs) \<and>
    (al_ok al = (\<lambda>_ _. True) \<and> nn_env_live m \<and> 8 * unat cnt \<le> 4294967288 \<and>
      length (tk_objs (ls_tracked st)) < 2 ^ 31 \<longrightarrow> rc = 0)"
proof -
  obtain rc out al' m' st' where r: "nn_list_new cnt al m st = (rc, out, al', m', st')"
    "list_kept (al, m, st) (al', m', st')"
    "(rc = 0 \<and> list_at st' (ev_mem m') out (replicate (unat cnt) NULL)) \<or>
      (rc = -1 \<and> out = None \<and> ls_heap st' = ls_heap st)"
    "al_ok al = (\<lambda>_ _. True) \<and> nn_env_live m \<and> 8 * unat cnt \<le> 4294967288 \<and>
      length (tk_objs (ls_tracked st)) < 2 ^ 31 \<longrightarrow> rc = 0"
    by (rule new_list_made [OF assms])
  show ?thesis unfolding r(1) using r(2-4) list_kept_at [OF r(2)] by blast
qed

theorem list_new_result_witness:
  "case nn_list_new 2 al_all env_demo list_store_init of (rc, out, al', m', st') \<Rightarrow>
     rc = 0 \<and> list_at st' (ev_mem m') out [NULL, NULL]"
proof -
  have "list_store_wf al_all list_store_init" by (rule list_store_wf_init)
  note r = list_new_result [OF env_demo_wf this, of 2]
  obtain rc out al' m' st' where c: "nn_list_new 2 al_all env_demo list_store_init = (rc, out, al', m', st')"
    by (metis prod_cases5)
  have "unat (2 :: u32) = 2" by simp
  then have two: "replicate (unat (2 :: u32)) NULL = [NULL, NULL]" by (simp only: numeral_2_eq_2 replicate.simps)
  have "length (tk_objs (ls_tracked list_store_init)) < 2 ^ 31" "8 * unat (2 :: u32) \<le> 4294967288"
    by (simp_all add: list_store_init_def tracker_empty_def)
  with r [unfolded c] env_demo_live have "rc = 0" by blast
  moreover from this r [unfolded c] two have "list_at st' (ev_mem m') out [NULL, NULL]" by simp
  ultimately show ?thesis unfolding c by simp
qed

subsection \<open>Suffixes\<close>

lemma array_at_plus: "xs \<noteq> [] \<Longrightarrow> array_at mem it xs \<Longrightarrow> array_at mem (items_plus it n) (drop n xs)"
proof -
  assume xs: "xs \<noteq> []" and a: "array_at mem it xs"
  have "read_word mem it (8 * 0) = Inr (xs ! 0)" using a xs unfolding array_at_def by (metis length_greater_0_conv)
  then obtain b off where it: "it = Ptr b off" by (auto simp: read_word_Inr)
  have "read_word mem (items_plus it n) (8 * i) = Inr (drop n xs ! i)" if i: "i < length (drop n xs)" for i
  proof -
    have "n + i < length xs" using i by simp
    with a have "read_word mem it (8 * (n + i)) = Inr (xs ! (n + i))" unfolding array_at_def by blast
    then show ?thesis using i by (simp add: it read_word_def algebra_simps)
  qed
  then show ?thesis by (simp add: array_at_def)
qed

text \<open>The two pointers show the items of one array, the second from index \<open>n\<close> on.\<close>

definition shares :: "list_store \<Rightarrow> nat option \<Rightarrow> nat option \<Rightarrow> nat \<Rightarrow> bool" where
  "shares st p q n \<longleftrightarrow> (\<exists>h h'. deref (ls_heap st) p = Inr h \<and> deref (ls_heap st) q = Inr h' \<and>
     li_items h' = items_plus (li_items h) n)"

lemma shares_at:
  assumes "shares st p q n" and "list_at st mem0 q (drop n ys)" and "list_at st mem p xs"
    and "length ys = length xs" and "n < length xs"
  shows "list_at st mem q (drop n xs)"
proof -
  from assms(3,5) obtain b h where p: "p = Some b" "ls_heap st b = Some h" "array_at mem (li_items h) xs"
    by (auto simp: list_at_def split: option.splits)
  from assms(2,4,5) obtain c h' where q: "q = Some c" "ls_heap st c = Some h'"
    "li_count h' = of_nat (length (drop n ys))" "length (drop n ys) < 2 ^ 32"
    by (auto simp: list_at_def split: option.splits)
  have "li_items h' = items_plus (li_items h) n" using assms(1) p q by (simp add: shares_def)
  then have "array_at mem (li_items h') (drop n xs)" using array_at_plus [OF _ p(3)] assms(5) by (cases xs) simp_all
  with q assms(4,5) show ?thesis by (simp add: list_at_def)
qed

lemma drop_made:
  assumes wf: "list_store_wf al st" and xs: "list_at st mem p xs"
  obtains rc out al' st' where "nn_list_drop p n al st = Inr (rc, out, al', st')"
    and "list_store_wf al' st'" and "al_steps al al'" and "ls_heap st \<subseteq>\<^sub>m ls_heap st'"
    and "(rc = 0 \<and> list_at st' mem out (drop (unat n) xs)) \<or> (rc = -1 \<and> out = None \<and> ls_heap st' = ls_heap st)"
    and "al_ok al = (\<lambda>_ _. True) \<and> length (tk_objs (ls_tracked st)) < 2 ^ 31 \<or> length xs \<le> unat n \<longrightarrow> rc = 0"
    and "rc = 0 \<and> unat n < length xs \<longrightarrow> shares st' p out (unat n)"
proof (cases p)
  case None
  then show ?thesis using that [of 0 None al st] wf xs by (simp add: nn_list_drop_def list_at_def)
next
  case (Some b)
  with xs obtain list where l: "ls_heap st b = Some list" "li_count list = of_nat (length xs)"
    "array_at mem (li_items list) xs" "xs \<noteq> []" "length xs < 2 ^ 32" by (auto simp: list_at_def)
  have len: "unat (li_count list) = length xs" using l(2,5) by (simp add: unat_of_nat_u32)
  show ?thesis
  proof (cases "n \<ge> li_count list")
    case True
    then have "length xs \<le> unat n" using len by (simp add: word_le_nat_alt)
    then show ?thesis using that [of 0 None al st] True Some l(1) wf by (simp add: nn_list_drop_def list_at_def)
  next
    case less: False
    then have n: "unat n < length xs" using len by (simp add: word_le_nat_alt)
    obtain r al1 where c: "c_malloc 16 al = (r, al1)" by (cases "c_malloc 16 al")
    have s1: "al_steps al al1" using c by (rule malloc_steps(2))
    show ?thesis
    proof (cases r)
      case None
      then have "al_ok al \<noteq> (\<lambda>_ _. True)" using c by (auto simp: c_malloc_def)
      then show ?thesis using that [of "-1" None al1 st] None c less Some l(1) s1 list_store_steps [OF wf s1] n
        by (simp add: nn_list_drop_def)
    next
      case r: (Some q)
      obtain ok al2 tk where t: "nn_list_track al1 (ls_tracked st) q = (ok, al2, tk)" by (metis prod_cases3)
      have q: "al_next al \<le> q" "q < al_next al1" using malloc_steps(1) [OF c [unfolded r]] by simp_all
      let ?hdr = "\<lparr>li_items = items_plus (li_items list) (unat n), li_count = li_count list - n\<rparr>"
      note st = list_store_new(1,3) [OF wf q s1 t, where hdr = "?hdr"] list_store_new(2) [OF wf q s1 t]
      have ok: "al_ok al = (\<lambda>_ _. True) \<and> length (tk_objs (ls_tracked st)) < 2 ^ 31 \<longrightarrow> ok"
        using track_room [OF _ _ _ t] s1 wf by (simp add: list_store_wf_def tracked_store_def al_steps_def)
      show ?thesis
      proof (cases ok)
        case False
        then have "nn_list_drop p n al st = Inr (-1, None, al2, st\<lparr>ls_tracked := tk\<rparr>)"
          using Some r c t less l(1) by (simp add: nn_list_drop_def)
        then show ?thesis by (rule that) (use False st ok n in \<open>simp_all add: list_store_wf_def\<close>)
      next
        case True
        have "unat (li_count list - n) = length xs - unat n" using less len by (simp add: unat_sub)
        then have cnt: "li_count list - n = of_nat (length (drop (unat n) xs))"
          using l(5) by (simp add: word_unat_eq_iff unat_of_nat_u32 del: of_nat_diff)
        have "list_at \<lparr>ls_heap = (ls_heap st)(q \<mapsto> ?hdr), ls_tracked = tk\<rparr> mem (Some q) (drop (unat n) xs)"
          using n l(5) cnt array_at_plus [OF l(4,3)] by (simp add: list_at_def)
        moreover have "nn_list_drop p n al st = Inr (0, Some q, al2, \<lparr>ls_heap = (ls_heap st)(q \<mapsto> ?hdr), ls_tracked = tk\<rparr>)"
          using Some r c t less l(1) True by (simp add: nn_list_drop_def)
        moreover have "b \<noteq> q" using tracked_store_fresh [OF wf [unfolded list_store_wf_def] q(1)] l(1) by auto
        then have "shares \<lparr>ls_heap = (ls_heap st)(q \<mapsto> ?hdr), ls_tracked = tk\<rparr> p (Some q) (unat n)"
          using Some l(1) by (simp add: shares_def)
        ultimately show ?thesis using that st True by simp
      qed
    qed
  qed
qed

subsection \<open>Reading and filling\<close>

lemma list_set_at:
  assumes xs: "list_at st mem p xs" and i: "unat i < length xs"
  obtains mem' where "nn_list_set dbg st mem p i v = Inr mem'" and "list_at st mem' p (xs[unat i := v])"
    and "dom mem' = dom mem"
proof -
  from xs i obtain b h where p: "p = Some b" "ls_heap st b = Some h" "li_count h = of_nat (length xs)"
    "array_at mem (li_items h) xs" "length xs < 2 ^ 32" by (auto simp: list_at_def split: option.splits)
  have "read_word mem (li_items h) (8 * unat i) = Inr (xs ! unat i)" using p(4) i unfolding array_at_def by blast
  then obtain blk off where it: "li_items h = Ptr blk off" "mem (blk, off + 8 * unat i) = Some (xs ! unat i)"
    by (auto simp: read_word_Inr)
  let ?mem' = "mem((blk, off + 8 * unat i) \<mapsto> v)"
  have "i < li_count h" using p(3,5) i by (simp add: word_less_nat_alt unat_of_nat_u32)
  then have call: "nn_list_set dbg st mem p i v = Inr ?mem'" using p(1,2) it by (simp add: nn_list_set_def write_word_def)
  have "read_word ?mem' (li_items h) (8 * j) = Inr (xs[unat i := v] ! j)" if j: "j < length xs" for j
  proof (cases "j = unat i")
    case True
    with i show ?thesis by (simp add: it read_word_def)
  next
    case False
    have "read_word mem (li_items h) (8 * j) = Inr (xs ! j)" using p(4) j unfolding array_at_def by blast
    with False show ?thesis by (simp add: it read_word_def)
  qed
  then have "array_at ?mem' (li_items h) (xs[unat i := v])" by (simp add: array_at_def)
  then have "list_at st ?mem' p (xs[unat i := v])" using p i by (auto simp: list_at_def)
  moreover have "dom ?mem' = dom mem" using it(2) by auto
  ultimately show ?thesis using that [OF call] by blast
qed

text \<open>C35: nn_list_drop answers the items from index \<open>n\<close> on, NULL when none remains, without copying:
  the suffix and its source share the array, so an item stored through the source afterwards is the
  item the suffix shows.\<close>

theorem list_drop_suffix:
  assumes "list_store_wf al st" and "list_at st mem p xs"
  shows "\<exists>rc out al' st'. nn_list_drop p n al st = Inr (rc, out, al', st') \<and> list_store_wf al' st' \<and>
    ls_heap st \<subseteq>\<^sub>m ls_heap st' \<and>
    ((rc = 0 \<and> list_at st' mem out (drop (unat n) xs)) \<or> (rc = -1 \<and> out = None \<and> ls_heap st' = ls_heap st)) \<and>
    (al_ok al = (\<lambda>_ _. True) \<and> length (tk_objs (ls_tracked st)) < 2 ^ 31 \<or> length xs \<le> unat n \<longrightarrow> rc = 0) \<and>
    (rc = 0 \<and> unat n \<le> unat i \<and> unat i < length xs \<longrightarrow> (\<exists>mem'. nn_list_set dbg st' mem p i v = Inr mem' \<and>
      list_at st' mem' p (xs[unat i := v]) \<and> list_at st' mem' out (drop (unat n) (xs[unat i := v]))))"
proof -
  obtain rc out al' st' where r: "nn_list_drop p n al st = Inr (rc, out, al', st')" "list_store_wf al' st'"
    "al_steps al al'" "ls_heap st \<subseteq>\<^sub>m ls_heap st'"
    "(rc = 0 \<and> list_at st' mem out (drop (unat n) xs)) \<or> (rc = -1 \<and> out = None \<and> ls_heap st' = ls_heap st)"
    "al_ok al = (\<lambda>_ _. True) \<and> length (tk_objs (ls_tracked st)) < 2 ^ 31 \<or> length xs \<le> unat n \<longrightarrow> rc = 0"
    "rc = 0 \<and> unat n < length xs \<longrightarrow> shares st' p out (unat n)"
    by (rule drop_made [OF assms])
  have "\<exists>mem'. nn_list_set dbg st' mem p i v = Inr mem' \<and> list_at st' mem' p (xs[unat i := v]) \<and>
      list_at st' mem' out (drop (unat n) (xs[unat i := v]))"
    if "rc = 0" and i: "unat n \<le> unat i" "unat i < length xs"
  proof -
    have p: "list_at st' mem p xs" using r(4) assms(2) by (intro list_at_mono [OF r(4)]) simp_all
    obtain mem' where s: "nn_list_set dbg st' mem p i v = Inr mem'" "list_at st' mem' p (xs[unat i := v])"
      by (rule list_set_at [OF p i(2)])
    have "shares st' p out (unat n)" "list_at st' mem out (drop (unat n) xs)" using r(5,7) that by auto
    from shares_at [OF this s(2)] i s show ?thesis by auto
  qed
  with r show ?thesis by blast
qed

text \<open>Filling and reading. nn_list_set stores one item and leaves the others, nn_list_get and
  nn_list_count read the list; an index past the end is an abort in a debug build.\<close>

theorem list_set_get:
  assumes "list_at st mem p xs" and "xs \<noteq> []"
  shows "nn_list_count st p = Inr (of_nat (length xs)) \<and>
    (unat i < length xs \<longrightarrow> nn_list_get dbg st mem p i = Inr (xs ! unat i) \<and>
      (\<exists>mem'. nn_list_set dbg st mem p i v = Inr mem' \<and> list_at st mem' p (xs[unat i := v]))) \<and>
    (length xs \<le> unat i \<longrightarrow> nn_list_get True st mem p i = Inl Abort \<and> nn_list_set True st mem p i v = Inl Abort)"
proof -
  from assms obtain b h where p: "p = Some b" "ls_heap st b = Some h" "li_count h = of_nat (length xs)"
    "array_at mem (li_items h) xs" "length xs < 2 ^ 32" by (auto simp: list_at_def split: option.splits)
  have lt: "i < li_count h \<longleftrightarrow> unat i < length xs" using p(3,5) by (simp add: word_less_nat_alt unat_of_nat_u32)
  have "nn_list_get dbg st mem p i = Inr (xs ! unat i)" if "unat i < length xs"
    using that lt p by (simp add: nn_list_get_def array_at_def)
  moreover have "\<exists>mem'. nn_list_set dbg st mem p i v = Inr mem' \<and> list_at st mem' p (xs[unat i := v])"
    if "unat i < length xs" using list_set_at [OF assms(1) that] by metis
  moreover have "nn_list_get True st mem p i = Inl Abort \<and> nn_list_set True st mem p i v = Inl Abort"
    if "length xs \<le> unat i" using that lt p by (simp add: nn_list_get_def nn_list_set_def)
  moreover have "nn_list_count st p = Inr (of_nat (length xs))" using p by (simp add: nn_list_count_def)
  ultimately show ?thesis by blast
qed

text \<open>A list of three items in the pages.\<close>

definition list_demo_mem :: memory where
  "list_demo_mem = [(3, 16) \<mapsto> Raw 10, (3, 24) \<mapsto> Raw 11, (3, 32) \<mapsto> Raw 12]"

definition list_demo :: list_store where
  "list_demo = \<lparr>ls_heap = [1 \<mapsto> \<lparr>li_items = Ptr 3 16, li_count = 3\<rparr>], ls_tracked = \<lparr>tk_objs = [1], tk_cap = 256\<rparr>\<rparr>"

lemma list_demo: "list_store_wf al_all list_demo" "list_at list_demo list_demo_mem (Some 1) [Raw 10, Raw 11, Raw 12]"
proof -
  show "list_store_wf al_all list_demo"
    by (auto simp: list_store_wf_def list_demo_def tracked_store_def tracker_wf_def tracks_heap_def al_all_def
        intro: exI [of _ 0])
  show "list_at list_demo list_demo_mem (Some 1) [Raw 10, Raw 11, Raw 12]"
    by (auto simp: list_at_def list_demo_def list_demo_mem_def array_at_def read_word_def less_Suc_eq)
qed

theorem list_drop_suffix_witness:
  "\<exists>out al' st'. nn_list_drop (Some 1) 2 al_all list_demo = Inr (0, out, al', st') \<and>
     list_at st' list_demo_mem out [Raw 12]"
proof -
  have room: "al_ok al_all = (\<lambda>_ _. True)" "length (tk_objs (ls_tracked list_demo)) < 2 ^ 31"
    by (simp_all add: al_all_def list_demo_def)
  obtain rc out al' st' where r: "nn_list_drop (Some 1) 2 al_all list_demo = Inr (rc, out, al', st')"
    "(rc = 0 \<and> list_at st' list_demo_mem out (drop (unat (2 :: u32)) [Raw 10, Raw 11, Raw 12])) \<or>
      (rc = -1 \<and> out = None \<and> ls_heap st' = ls_heap list_demo)" "rc = 0"
    using list_drop_suffix [OF list_demo, of 2] room by blast
  then have "list_at st' list_demo_mem out [Raw 12]" by simp
  with r(1,3) show ?thesis by blast
qed

theorem list_set_get_witness:
  "nn_list_get True list_demo list_demo_mem (Some 1) 1 = Inr (Raw 11) \<and>
   nn_list_get True list_demo list_demo_mem (Some 1) 3 = Inl Abort"
  using list_set_get [OF list_demo(2), of 1] list_set_get [OF list_demo(2), of 3] by simp

end
