(* ===== verification/Nova_Elems.thy ===== *)
theory Nova_Elems
  imports Nova_Track
begin

section \<open>Objects with a sized array of elements\<close>

text \<open>
  A lambda (nn_lambda.c) and a context string (nn_ctxstr.c) are created with an array of zeroed
  elements, which the caller then fills one index after the other through a setter that drops an
  index out of bounds. This theory states that contract as the locale \<open>element_store\<close> and proves
  once that filling all indices stores exactly the given elements. \<open>elems h b\<close> is the array of the
  object at block \<open>b\<close>, \<open>enc a\<close> the element the setter stores for its arguments \<open>a\<close>.
\<close>

text \<open>The caller's loop: one setter call per element, from index \<open>i\<close> on.\<close>

fun fill :: "(u32 \<Rightarrow> 'a \<Rightarrow> 'h \<Rightarrow> 'h c_res) \<Rightarrow> nat \<Rightarrow> 'a list \<Rightarrow> 'h \<Rightarrow> 'h c_res" where
  "fill setter i [] h = Inr h"
| "fill setter i (a # as) h = res_bind (setter (of_nat i) a h) (fill setter (Suc i) as)"

locale element_store =
  fixes elems :: "'h \<Rightarrow> nat \<Rightarrow> 'e list option"
    and set_elem :: "bool \<Rightarrow> nat option \<Rightarrow> u32 \<Rightarrow> 'a \<Rightarrow> 'h \<Rightarrow> 'h c_res"
    and enc :: "'a \<Rightarrow> 'e"
  assumes set_in: "elems h b = Some es \<Longrightarrow> unat i < length es \<Longrightarrow>
      \<exists>h'. set_elem dbg (Some b) i a h = Inr h' \<and> elems h' = (elems h)(b \<mapsto> es[unat i := enc a])"
    and set_out: "elems h b = Some es \<Longrightarrow> length es \<le> unat i \<Longrightarrow>
      set_elem dbg (Some b) i a h = (if dbg then Inl Abort else Inr h)"
    and set_null: "set_elem dbg None i a h = (if dbg then Inl Abort else Inr h)"
begin

lemma fill_stores:
  assumes "elems h b = Some es" and "i + length as \<le> length es" and "length es < 2 ^ 32"
  shows "\<exists>h'. fill (set_elem dbg (Some b)) i as h = Inr h' \<and>
    elems h' = (elems h)(b \<mapsto> take i es @ map enc as @ drop (i + length as) es)"
  using assms
proof (induction as arbitrary: i h es)
  case Nil
  then show ?case by (auto simp: fun_upd_idem)
next
  case (Cons a as)
  have i: "unat (of_nat i :: u32) = i" using Cons.prems by (simp add: unsigned_of_nat take_bit_nat_eq_self)
  then have "unat (of_nat i :: u32) < length es" using Cons.prems(2) by simp
  from set_in [OF Cons.prems(1) this, of dbg a] obtain h1 where h1: "set_elem dbg (Some b) (of_nat i) a h = Inr h1"
    "elems h1 = (elems h)(b \<mapsto> es[i := enc a])" unfolding i by blast
  have "elems h1 b = Some (es[i := enc a])" by (simp add: h1(2))
  moreover have "Suc i + length as \<le> length (es[i := enc a])" "length (es[i := enc a]) < 2 ^ 32"
    using Cons.prems(2,3) by simp_all
  ultimately obtain h' where h': "fill (set_elem dbg (Some b)) (Suc i) as h1 = Inr h'"
    "elems h' = (elems h1)(b \<mapsto> take (Suc i) (es[i := enc a]) @ map enc as @ drop (Suc i + length as) (es[i := enc a]))"
    using Cons.IH by blast
  have "take (Suc i) (es[i := enc a]) = take i es @ [enc a]"
    using Cons.prems(2) by (simp add: take_Suc_conv_app_nth)
  then have "elems h' = (elems h)(b \<mapsto> take i es @ map enc (a # as) @ drop (i + length (a # as)) es)"
    using h'(2) h1(2) by simp
  with h1(1) h'(1) show ?case by (simp add: fun_eq_iff)
qed

text \<open>A full fill determines the array.\<close>

lemma fill_all:
  assumes "elems h b = Some es" and "length as = length es" and "length es < 2 ^ 32"
  shows "\<exists>h'. fill (set_elem dbg (Some b)) 0 as h = Inr h' \<and> elems h' = (elems h)(b \<mapsto> map enc as)"
  using fill_stores [OF assms(1), of 0 as dbg] assms(2,3) by simp

end

end
