(* ===== verification/Nova_Lambda.thy ===== *)
theory Nova_Lambda
  imports Nova_Elems
begin

section \<open>nn_lambda.c: closures\<close>

text \<open>
  A closure is a tracked header that owns an array of formal entries. The pointer to a captured
  environment is not followed here. This theory holds the state and the operations;
  \<open>Nova_Lambda_Spec\<close> holds what they promise.
\<close>

subsection \<open>State\<close>

abbreviation (input) NN_FORMALS_NAME :: u8 where "NN_FORMALS_NAME \<equiv> 0"
abbreviation (input) NN_FORMALS_SET :: u8 where "NN_FORMALS_SET \<equiv> 1"
abbreviation (input) NN_FORMALS_NAMED_SET :: u8 where "NN_FORMALS_NAMED_SET \<equiv> 2"

record formal_entry =
  fe_name_sym :: u32
  fe_has_default :: u32
  fe_default_bc_idx :: u32

definition formal_zero :: formal_entry where
  "formal_zero = \<lparr>fe_name_sym = 0, fe_has_default = 0, fe_default_bc_idx = 0\<rparr>"

text \<open>\<open>la_entries\<close> is None for the NULL pointer, and as long as its allocation otherwise.\<close>

record lambda =
  la_env :: val
  la_entries :: "formal_entry list option"
  la_body_bc_idx :: u32
  la_name_sym :: u32
  la_formal_count :: u32
  la_formals_type :: u8
  la_allow_extra :: u8

record lambda_store =
  lm_heap :: "nat \<rightharpoonup> lambda"
  lm_tracked :: tracker

definition lambda_store_init :: lambda_store where
  "lambda_store_init = \<lparr>lm_heap = Map.empty, lm_tracked = tracker_empty\<rparr>"

subsection \<open>Tracking\<close>

definition nn_lambda_track :: "allocator \<Rightarrow> tracker \<Rightarrow> nat \<Rightarrow> bool \<times> allocator \<times> tracker" where
  "nn_lambda_track al tk b =
     (if length (tk_objs tk) \<ge> unat (tk_cap tk) then
        if tk_cap tk > UINT32_MAX div 2 then (False, al, tk)
        else let new_cap = (if tk_cap tk \<noteq> 0 then tk_cap tk * 2 else 256) in
          (case c_malloc (ucast new_cap * 8) al of
             (None, al') \<Rightarrow> (False, al', tk)
           | (Some _, al') \<Rightarrow>
               (True, al', \<lparr>tk_objs = tk_objs tk @ [b], tk_cap = new_cap\<rparr>))
      else (True, al, tk\<lparr>tk_objs := tk_objs tk @ [b]\<rparr>))"

lemma nn_lambda_track_push: "nn_lambda_track = track_push"
  by (simp add: fun_eq_iff nn_lambda_track_def track_push_def)

interpretation lambdas: tracking nn_lambda_track
  unfolding nn_lambda_track_push by (rule tracking_track_push)

subsection \<open>Lifecycle\<close>

abbreviation sizeof_lambda :: u64 where "sizeof_lambda \<equiv> 32"
abbreviation sizeof_formal_entry :: u64 where "sizeof_formal_entry \<equiv> 12"

text \<open>The entries of a new closure: NULL without formals, zeroed otherwise, or no memory.\<close>

definition lambda_entries ::
  "u32 \<Rightarrow> u64 \<Rightarrow> allocator \<Rightarrow> formal_entry list option option \<times> allocator" where
  "lambda_entries formal_count entry_bytes64 al =
     (if formal_count > 0 then
        (case c_malloc entry_bytes64 al of
           (None, al') \<Rightarrow> (None, al')
         | (Some _, al') \<Rightarrow> (Some (Some (replicate (unat formal_count) formal_zero)), al'))
      else (Some None, al))"

definition nn_lambda_new ::
  "val \<Rightarrow> u32 \<Rightarrow> u8 \<Rightarrow> u32 \<Rightarrow> u8 \<Rightarrow> u32 \<Rightarrow> allocator \<Rightarrow> lambda_store \<Rightarrow>
    nat option \<times> allocator \<times> lambda_store" where
  "nn_lambda_new env body_bc_idx formals_type name_sym allow_extra formal_count al st =
     (let entry_bytes64 = ucast formal_count * sizeof_formal_entry in
      if entry_bytes64 > UINT32_MAX64 then (None, al, st)
      else case c_malloc sizeof_lambda al of
        (None, al1) \<Rightarrow> (None, al1, st)
      | (Some p, al1) \<Rightarrow>
     (case lambda_entries formal_count entry_bytes64 al1 of
        (None, al2) \<Rightarrow> (None, al2, st)
      | (Some entries, al2) \<Rightarrow>
     (case nn_lambda_track al2 (lm_tracked st) p of (ok, al3, tk) \<Rightarrow>
        if \<not> ok then (None, al3, st\<lparr>lm_tracked := tk\<rparr>)
        else (Some p, al3,
          \<lparr>lm_heap = (lm_heap st)(p \<mapsto>
             \<lparr>la_env = env, la_entries = entries, la_body_bc_idx = body_bc_idx, la_name_sym = name_sym,
              la_formal_count = formal_count, la_formals_type = formals_type, la_allow_extra = allow_extra\<rparr>),
           lm_tracked = tk\<rparr>))))"

definition nn_lambda_free_all :: "lambda_store \<Rightarrow> lambda_store c_res" where
  "nn_lambda_free_all st =
     res_bind (c_free_each (tk_objs (lm_tracked st)) (lm_heap st)) (\<lambda>h.
       Inr \<lparr>lm_heap = h, lm_tracked = tracker_empty\<rparr>)"

subsection \<open>Entries\<close>

text \<open>The guard of every entry operation, \<open>lam != NULL && lam->entries != NULL && idx < lam->formal_count\<close>,
  evaluated from the left.\<close>

definition entry_guard :: "(nat \<rightharpoonup> lambda) \<Rightarrow> nat option \<Rightarrow> u32 \<Rightarrow> bool c_res" where
  "entry_guard h p idx =
     (if p = None then Inr False
      else res_bind (deref h p) (\<lambda>lam. Inr (la_entries lam \<noteq> None \<and> idx < la_formal_count lam)))"

text \<open>\<open>lam->entries[idx]\<close>.\<close>

definition entry_of :: "lambda \<Rightarrow> u32 \<Rightarrow> formal_entry c_res" where
  "entry_of lam idx = (case la_entries lam of
     None \<Rightarrow> Inl Undefined
   | Some es \<Rightarrow> if unat idx < length es then Inr (es ! unat idx) else Inl Undefined)"

definition nn_lambda_set_entry ::
  "bool \<Rightarrow> nat option \<Rightarrow> u32 \<Rightarrow> u32 \<Rightarrow> u32 \<Rightarrow> u32 \<Rightarrow> (nat \<rightharpoonup> lambda) \<Rightarrow> (nat \<rightharpoonup> lambda) c_res" where
  "nn_lambda_set_entry dbg p idx name_sym has_default default_bc_idx h =
     res_bind (entry_guard h p idx) (\<lambda>ok.
     NN_ASSERT dbg ok
       (if \<not> ok then Inr h
        else res_bind (deref h p) (\<lambda>lam.
          res_bind (entry_of lam idx) (\<lambda>e.
          Inr (h(the p \<mapsto> lam\<lparr>la_entries := Some ((the (la_entries lam))[unat idx :=
            e\<lparr>fe_name_sym := name_sym, fe_has_default := has_default, fe_default_bc_idx := default_bc_idx\<rparr>])\<rparr>))))))"

text \<open>The three readers differ in the field only.\<close>

definition read_entry :: "(formal_entry \<Rightarrow> u32) \<Rightarrow> bool \<Rightarrow> (nat \<rightharpoonup> lambda) \<Rightarrow> nat option \<Rightarrow> u32 \<Rightarrow> u32 c_res" where
  "read_entry field dbg h p idx =
     res_bind (entry_guard h p idx) (\<lambda>ok.
     NN_ASSERT dbg ok
       (if \<not> ok then Inr 0
        else res_bind (deref h p) (\<lambda>lam. res_bind (entry_of lam idx) (\<lambda>e. Inr (field e)))))"

definition nn_lambda_entry_name :: "bool \<Rightarrow> (nat \<rightharpoonup> lambda) \<Rightarrow> nat option \<Rightarrow> u32 \<Rightarrow> u32 c_res" where
  "nn_lambda_entry_name = read_entry fe_name_sym"

definition nn_lambda_entry_has_default :: "bool \<Rightarrow> (nat \<rightharpoonup> lambda) \<Rightarrow> nat option \<Rightarrow> u32 \<Rightarrow> u32 c_res" where
  "nn_lambda_entry_has_default = read_entry fe_has_default"

definition nn_lambda_entry_default :: "bool \<Rightarrow> (nat \<rightharpoonup> lambda) \<Rightarrow> nat option \<Rightarrow> u32 \<Rightarrow> u32 c_res" where
  "nn_lambda_entry_default = read_entry fe_default_bc_idx"

subsection \<open>Accessors\<close>

definition nn_lambda_env :: "(nat \<rightharpoonup> lambda) \<Rightarrow> nat option \<Rightarrow> val c_res" where
  "nn_lambda_env h p = res_bind (deref h p) (\<lambda>lam. Inr (la_env lam))"

definition nn_lambda_body :: "(nat \<rightharpoonup> lambda) \<Rightarrow> nat option \<Rightarrow> u32 c_res" where
  "nn_lambda_body h p = res_bind (deref h p) (\<lambda>lam. Inr (la_body_bc_idx lam))"

definition nn_lambda_formals_type :: "(nat \<rightharpoonup> lambda) \<Rightarrow> nat option \<Rightarrow> u8 c_res" where
  "nn_lambda_formals_type h p = res_bind (deref h p) (\<lambda>lam. Inr (la_formals_type lam))"

definition nn_lambda_name_sym :: "(nat \<rightharpoonup> lambda) \<Rightarrow> nat option \<Rightarrow> u32 c_res" where
  "nn_lambda_name_sym h p = res_bind (deref h p) (\<lambda>lam. Inr (la_name_sym lam))"

definition nn_lambda_allow_extra :: "(nat \<rightharpoonup> lambda) \<Rightarrow> nat option \<Rightarrow> u8 c_res" where
  "nn_lambda_allow_extra h p = res_bind (deref h p) (\<lambda>lam. Inr (la_allow_extra lam))"

definition nn_lambda_formal_count :: "(nat \<rightharpoonup> lambda) \<Rightarrow> nat option \<Rightarrow> u32 c_res" where
  "nn_lambda_formal_count h p = res_bind (deref h p) (\<lambda>lam. Inr (la_formal_count lam))"

end
