(* ===== verification/Nova_Lambda_Spec.thy ===== *)
theory Nova_Lambda_Spec
  imports Nova_Lambda
begin

section \<open>What closures promise\<close>

text \<open>A closure has NULL entries exactly when it has no formals, and its array is as long as its count.\<close>

definition lambda_wf :: "lambda \<Rightarrow> bool" where
  "lambda_wf lam \<longleftrightarrow> (case la_entries lam of
     None \<Rightarrow> la_formal_count lam = 0
   | Some es \<Rightarrow> la_formal_count lam \<noteq> 0 \<and> length es = unat (la_formal_count lam))"

definition lambda_store_wf :: "allocator \<Rightarrow> lambda_store \<Rightarrow> bool" where
  "lambda_store_wf al st \<longleftrightarrow> tracked_store al (lm_tracked st) (lm_heap st) \<and>
     (\<forall>b \<in> dom (lm_heap st). lambda_wf (the (lm_heap st b)))"

lemma lambda_store_wf_init [wf_intros]: "lambda_store_wf al lambda_store_init"
  by (simp add: lambda_store_wf_def lambda_store_init_def wf_intros)

lemma lambda_store_steps: "lambda_store_wf al st \<Longrightarrow> al_steps al al' \<Longrightarrow> lambda_store_wf al' st"
  unfolding lambda_store_wf_def using tracked_store_steps by blast

text \<open>The formals of a well-formed closure.\<close>

definition formals :: "lambda \<Rightarrow> formal_entry list" where
  "formals lam = (case la_entries lam of None \<Rightarrow> [] | Some es \<Rightarrow> es)"

lemma formals_count: "lambda_wf lam \<Longrightarrow> unat (la_formal_count lam) = length (formals lam)"
  by (simp add: lambda_wf_def formals_def split: option.splits)

subsection \<open>Creation\<close>

lemma lambda_new_cases:
  assumes wf: "lambda_store_wf al st"
  obtains p al' st' where "nn_lambda_new env body ft nm ex n al st = (p, al', st')"
    and "lambda_store_wf al' st'" and "al_steps al al'"
    and "case p of None \<Rightarrow> lm_heap st' = lm_heap st
       | Some b \<Rightarrow> lm_heap st b = None \<and> lm_heap st' = (lm_heap st)(b \<mapsto> \<lparr>la_env = env,
           la_entries = (if n = 0 then None else Some (replicate (unat n) formal_zero)), la_body_bc_idx = body,
           la_name_sym = nm, la_formal_count = n, la_formals_type = ft, la_allow_extra = ex\<rparr>)"
    and "al_ok al = (\<lambda>_ _. True) \<and> 12 * unat n \<le> 4294967295 \<and> length (tk_objs (lm_tracked st)) < 2 ^ 31 \<longrightarrow> p \<noteq> None"
    and "12 * unat n > 4294967295 \<longrightarrow> (p, al', st') = (None, al, st)"
proof -
  have m: "unat ((ucast n :: u64) * 12) = 12 * unat n"
    using unat_u32_less [of n] by (simp add: unat_word_ariths mult.commute)
  have big: "(ucast n :: u64) * 12 > UINT32_MAX64 \<longleftrightarrow> 12 * unat n > 4294967295"
    unfolding word_less_nat_alt m by simp
  show ?thesis
  proof (cases "12 * unat n > 4294967295")
    case True
    then show ?thesis using that [of None al st] wf by (simp add: nn_lambda_new_def Let_def big)
  next
    case small: False
    obtain r al1 where c: "c_malloc sizeof_lambda al = (r, al1)" by (cases "c_malloc sizeof_lambda al")
    have s1: "al_steps al al1" and r1: "r = None \<Longrightarrow> al_ok al \<noteq> (\<lambda>_ _. True)"
      using c by (auto simp: c_malloc_def al_steps_def)
    show ?thesis
    proof (cases r)
      case None
      then show ?thesis using that [of None al1 st] c small s1 r1 lambda_store_steps [OF wf s1]
        by (simp add: nn_lambda_new_def Let_def big)
    next
      case p: (Some p)
      obtain e al2 where e: "lambda_entries n (ucast n * sizeof_formal_entry) al1 = (e, al2)" by (metis surj_pair)
      have s2: "al_steps al al2" and pb: "al_next al \<le> p" "p < al_next al2"
        and r2: "e = None \<Longrightarrow> al_ok al \<noteq> (\<lambda>_ _. True)"
        and e2: "e \<noteq> None \<Longrightarrow> e = Some (if n = 0 then None else Some (replicate (unat n) formal_zero))"
        using c e p by (auto simp: c_malloc_def al_steps_def lambda_entries_def word_gt_0 split: if_splits)
      show ?thesis
      proof (cases e)
        case None
        then show ?thesis using that [of None al2 st] c e p small s2 r2 lambda_store_steps [OF wf s2]
          by (simp add: nn_lambda_new_def Let_def big)
      next
        case entries: (Some en)
        obtain ok al3 tk where t: "nn_lambda_track al2 (lm_tracked st) p = (ok, al3, tk)" by (metis prod_cases3)
        define lam where "lam = \<lparr>la_env = env, la_entries = (if n = 0 then None else Some (replicate (unat n) formal_zero)),
          la_body_bc_idx = body, la_name_sym = nm, la_formal_count = n, la_formals_type = ft, la_allow_extra = ex\<rparr>"
        have ts: "tracked_store al (lm_tracked st) (lm_heap st)" using wf by (simp add: lambda_store_wf_def)
        note new = lambdas.store_new [OF ts pb s2 t]
        have "lambda_wf lam" by (simp add: lambda_wf_def lam_def)
        then have wf': "lambda_store_wf al3 \<lparr>lm_heap = (if ok then (lm_heap st)(p \<mapsto> lam) else lm_heap st), lm_tracked = tk\<rparr>"
          using wf new(1) by (simp add: lambda_store_wf_def)
        have room: "ok" if "al_ok al = (\<lambda>_ _. True)" "length (tk_objs (lm_tracked st)) < 2 ^ 31"
          using lambdas.track_total [of "lm_tracked st" al2 p] ts that s2 t
          by (simp add: tracked_store_def al_steps_def)
        have en: "en = (if n = 0 then None else Some (replicate (unat n) formal_zero))" using e2 entries by simp
        have call: "nn_lambda_new env body ft nm ex n al st = (if \<not> ok then (None, al3, st\<lparr>lm_tracked := tk\<rparr>)
            else (Some p, al3, \<lparr>lm_heap = (lm_heap st)(p \<mapsto> lam), lm_tracked = tk\<rparr>))"
          unfolding nn_lambda_new_def Let_def lam_def using small c p e entries t en
          by (simp add: big split del: if_split)
        show ?thesis
        proof (cases ok)
          case False
          then have call': "nn_lambda_new env body ft nm ex n al st = (None, al3, st\<lparr>lm_tracked := tk\<rparr>)"
            using call by simp
          show ?thesis by (rule that [OF call']) (use False wf' new(2) room small in \<open>auto simp: lambda_store_wf_def\<close>)
        next
          case True
          then have call': "nn_lambda_new env body ft nm ex n al st =
              (Some p, al3, \<lparr>lm_heap = (lm_heap st)(p \<mapsto> lam), lm_tracked = tk\<rparr>)"
            using call by simp
          show ?thesis by (rule that [OF call']) (use True wf' new(2,3) small in \<open>auto simp: lam_def\<close>)
        qed
      qed
    qed
  qed
qed

text \<open>nn_lambda_new answers a fresh closure whose readers give back the arguments and whose formals are
  zeroed, or NULL with nothing kept: NULL only when the allocator refuses, 2^31 closures are tracked or
  the entries exceed UINT32_MAX bytes, which is refused before anything is allocated. Every older
  closure stays as it is.\<close>

theorem lambda_new_result:
  assumes "lambda_store_wf al st"
  shows "case nn_lambda_new env body ft nm ex n al st of (p, al', st') \<Rightarrow>
    lambda_store_wf al' st' \<and> al_steps al al' \<and>
    (case p of None \<Rightarrow> lm_heap st' = lm_heap st
     | Some b \<Rightarrow> lm_heap st b = None \<and> (\<forall>c. c \<noteq> b \<longrightarrow> lm_heap st' c = lm_heap st c) \<and>
         nn_lambda_env (lm_heap st') p = Inr env \<and> nn_lambda_body (lm_heap st') p = Inr body \<and>
         nn_lambda_formals_type (lm_heap st') p = Inr ft \<and> nn_lambda_name_sym (lm_heap st') p = Inr nm \<and>
         nn_lambda_allow_extra (lm_heap st') p = Inr ex \<and> nn_lambda_formal_count (lm_heap st') p = Inr n \<and>
         formals (the (lm_heap st' b)) = replicate (unat n) formal_zero) \<and>
    (al_ok al = (\<lambda>_ _. True) \<and> 12 * unat n \<le> 4294967295 \<and> length (tk_objs (lm_tracked st)) < 2 ^ 31 \<longrightarrow> p \<noteq> None) \<and>
    (12 * unat n > 4294967295 \<longrightarrow> (p, al', st') = (None, al, st))"
proof -
  obtain p al' st' where r: "nn_lambda_new env body ft nm ex n al st = (p, al', st')"
    "lambda_store_wf al' st'" "al_steps al al'"
    "case p of None \<Rightarrow> lm_heap st' = lm_heap st
       | Some b \<Rightarrow> lm_heap st b = None \<and> lm_heap st' = (lm_heap st)(b \<mapsto> \<lparr>la_env = env,
           la_entries = (if n = 0 then None else Some (replicate (unat n) formal_zero)), la_body_bc_idx = body,
           la_name_sym = nm, la_formal_count = n, la_formals_type = ft, la_allow_extra = ex\<rparr>)"
    "al_ok al = (\<lambda>_ _. True) \<and> 12 * unat n \<le> 4294967295 \<and> length (tk_objs (lm_tracked st)) < 2 ^ 31 \<longrightarrow> p \<noteq> None"
    "12 * unat n > 4294967295 \<longrightarrow> (p, al', st') = (None, al, st)"
    by (rule lambda_new_cases [OF assms])
  have "case p of None \<Rightarrow> lm_heap st' = lm_heap st
     | Some b \<Rightarrow> lm_heap st b = None \<and> (\<forall>c. c \<noteq> b \<longrightarrow> lm_heap st' c = lm_heap st c) \<and>
         nn_lambda_env (lm_heap st') p = Inr env \<and> nn_lambda_body (lm_heap st') p = Inr body \<and>
         nn_lambda_formals_type (lm_heap st') p = Inr ft \<and> nn_lambda_name_sym (lm_heap st') p = Inr nm \<and>
         nn_lambda_allow_extra (lm_heap st') p = Inr ex \<and> nn_lambda_formal_count (lm_heap st') p = Inr n \<and>
         formals (the (lm_heap st' b)) = replicate (unat n) formal_zero"
    using r(4) by (cases p) (auto simp: nn_lambda_env_def nn_lambda_body_def nn_lambda_formals_type_def
        nn_lambda_name_sym_def nn_lambda_allow_extra_def nn_lambda_formal_count_def formals_def)
  with r(2,3,5,6) show ?thesis unfolding r(1) prod.case by blast
qed

theorem lambda_new_result_witness:
  "(case nn_lambda_new NULL 7 1 0 1 2 al_all lambda_store_init of (p, al', st') \<Rightarrow>
      p \<noteq> None \<and> nn_lambda_body (lm_heap st') p = Inr 7) \<and>
   fst (nn_lambda_new NULL 7 1 0 1 357913942 al_all lambda_store_init) = None"
  using lambda_new_result [OF lambda_store_wf_init [of al_all], of NULL 7 1 0 1 2]
    lambda_new_result [OF lambda_store_wf_init [of al_all], of NULL 7 1 0 1 357913942]
  by (auto simp: al_all_def lambda_store_init_def tracker_empty_def split: option.splits)

subsection \<open>Formals\<close>

text \<open>The array of a closure, and its setter, as the interface of objects with a sized array.\<close>

definition lambda_elems :: "(nat \<rightharpoonup> lambda) \<Rightarrow> nat \<Rightarrow> formal_entry list option" where
  "lambda_elems h b = (case h b of
     None \<Rightarrow> None
   | Some lam \<Rightarrow> if lambda_wf lam then Some (formals lam) else None)"

fun formal_of :: "u32 \<times> u32 \<times> u32 \<Rightarrow> formal_entry" where
  "formal_of (n, d, bc) = \<lparr>fe_name_sym = n, fe_has_default = d, fe_default_bc_idx = bc\<rparr>"

fun set_formal ::
  "bool \<Rightarrow> nat option \<Rightarrow> u32 \<Rightarrow> u32 \<times> u32 \<times> u32 \<Rightarrow> (nat \<rightharpoonup> lambda) \<Rightarrow> (nat \<rightharpoonup> lambda) c_res" where
  "set_formal dbg p i (n, d, bc) h = nn_lambda_set_entry dbg p i n d bc h"

lemma lambda_elems_Some:
  assumes "lambda_elems h b = Some es"
  obtains lam where "h b = Some lam" and "lambda_wf lam" and "formals lam = es"
    and "unat (la_formal_count lam) = length es"
  using assms formals_count by (auto simp: lambda_elems_def split: option.splits if_splits)

lemma guard_in: "h b = Some lam \<Longrightarrow> lambda_wf lam \<Longrightarrow> entry_guard h (Some b) i = Inr (unat i < length (formals lam))"
  using formals_count [of lam]
  by (auto simp: entry_guard_def word_less_nat_alt formals_def split: option.splits)

lemma entry_in: "unat i < length (formals lam) \<Longrightarrow> entry_of lam i = Inr (formals lam ! unat i)"
  by (auto simp: entry_of_def formals_def split: option.splits)

lemma formal_set:
  "e\<lparr>fe_name_sym := n, fe_has_default := d, fe_default_bc_idx := bc\<rparr> =
    \<lparr>fe_name_sym = n, fe_has_default = d, fe_default_bc_idx = bc\<rparr>"
  by (cases e) simp

interpretation formals: element_store lambda_elems set_formal formal_of
proof
  fix h b es i dbg and a :: "u32 \<times> u32 \<times> u32"
  obtain n d bc where a: "a = (n, d, bc)" by (cases a)
  show "set_formal dbg None i a h = (if dbg then Inl Abort else Inr h)"
    by (cases dbg) (simp_all add: a nn_lambda_set_entry_def entry_guard_def)
  assume "lambda_elems h b = Some es"
  then obtain lam where lam: "h b = Some lam" "lambda_wf lam" "formals lam = es" "unat (la_formal_count lam) = length es"
    by (rule lambda_elems_Some)
  show "set_formal dbg (Some b) i a h = (if dbg then Inl Abort else Inr h)" if "length es \<le> unat i"
    using that lam guard_in [of h b lam i] by (cases dbg) (simp_all add: a nn_lambda_set_entry_def)
  show "\<exists>h'. set_formal dbg (Some b) i a h = Inr h' \<and> lambda_elems h' = (lambda_elems h)(b \<mapsto> es[unat i := formal_of a])"
    if i: "unat i < length es"
  proof -
    have es: "la_entries lam = Some es" using lam(3) i by (auto simp: formals_def split: option.splits)
    let ?lam = "lam\<lparr>la_entries := Some (es[unat i := (es ! unat i)\<lparr>fe_name_sym := n, fe_has_default := d,
      fe_default_bc_idx := bc\<rparr>])\<rparr>"
    have call: "set_formal dbg (Some b) i a h = Inr (h(b \<mapsto> ?lam))"
      using i lam guard_in [of h b lam i] entry_in [of i lam] es by (simp add: a nn_lambda_set_entry_def)
    have "lambda_wf ?lam" "formals ?lam = es[unat i := formal_of a]"
      using lam(2) es by (simp_all add: lambda_wf_def formals_def a formal_set)
    then have "lambda_elems (h(b \<mapsto> ?lam)) = (lambda_elems h)(b \<mapsto> es[unat i := formal_of a])"
      by (simp add: lambda_elems_def fun_eq_iff)
    with call show ?thesis by blast
  qed
qed

lemma read_entry_in:
  assumes "lambda_elems h b = Some es" and "unat i < length es"
  shows "read_entry field dbg h (Some b) i = Inr (field (es ! unat i))"
proof -
  from assms(1) obtain lam where lam: "h b = Some lam" "lambda_wf lam" "formals lam = es" by (rule lambda_elems_Some)
  then show ?thesis using assms(2) guard_in [of h b lam i] entry_in [of i lam] by (simp add: read_entry_def)
qed


definition lambda_demo :: lambda_store where
  "lambda_demo = \<lparr>lm_heap = [4 \<mapsto> \<lparr>la_env = NULL, la_entries = Some (replicate 2 formal_zero), la_body_bc_idx = 7,
     la_name_sym = 0, la_formal_count = 2, la_formals_type = 1, la_allow_extra = 1\<rparr>],
     lm_tracked = \<lparr>tk_objs = [4], tk_cap = 256\<rparr>\<rparr>"

lemma lambda_new_demo:
  "nn_lambda_new NULL 7 1 0 1 2 al_all lambda_store_init = (Some 4, al_all\<lparr>al_next := 7\<rparr>, lambda_demo)"
  by (simp add: nn_lambda_new_def lambda_entries_def nn_lambda_track_def c_malloc_def al_all_def lambda_store_init_def
      tracker_empty_def Let_def lambda_demo_def)


text \<open>The bound of the entry operations holds without the caller: an index past the formals, or a NULL
  closure, aborts in a debug build, and in a release build the setter drops the write and the readers
  answer 0; no entry operation reads or writes outside the array.\<close>

theorem lambda_entry_bounds:
  assumes "lambda_store_wf al st" and "p = None \<or> (p = Some b \<and> lm_heap st b = Some lam \<and> la_formal_count lam \<le> i)"
  shows "nn_lambda_set_entry dbg p i n d bc (lm_heap st) = (if dbg then Inl Abort else Inr (lm_heap st)) \<and>
    nn_lambda_entry_name dbg (lm_heap st) p i = (if dbg then Inl Abort else Inr 0) \<and>
    nn_lambda_entry_has_default dbg (lm_heap st) p i = (if dbg then Inl Abort else Inr 0) \<and>
    nn_lambda_entry_default dbg (lm_heap st) p i = (if dbg then Inl Abort else Inr 0)"
proof -
  have "entry_guard (lm_heap st) p i = Inr False"
  proof (cases p)
    case (Some c)
    with assms have b: "lm_heap st b = Some lam" "la_formal_count lam \<le> i" "c = b" by simp_all
    then have "lambda_wf lam" using assms(1) by (force simp: lambda_store_wf_def)
    with b Some guard_in [of "lm_heap st" b lam i] formals_count [of lam] show ?thesis by (simp add: word_le_nat_alt)
  qed (simp add: entry_guard_def)
  then show ?thesis
    by (cases dbg) (simp_all add: nn_lambda_set_entry_def read_entry_def nn_lambda_entry_name_def
        nn_lambda_entry_has_default_def nn_lambda_entry_default_def)
qed

theorem lambda_entry_bounds_witness:
  "case nn_lambda_new NULL 7 1 0 1 2 al_all lambda_store_init of (p, al', st') \<Rightarrow>
     nn_lambda_set_entry False p 2 1 1 1 (lm_heap st') = Inr (lm_heap st') \<and>
     nn_lambda_entry_name True (lm_heap st') p 2 = Inl Abort"
proof -
  have wf: "lambda_store_wf (al_all\<lparr>al_next := 7\<rparr>) lambda_demo"
    by (rule lambda_new_cases [OF lambda_store_wf_init [of al_all], of NULL 7 1 0 1 2]) (simp add: lambda_new_demo)
  have "lm_heap lambda_demo 4 = Some \<lparr>la_env = NULL, la_entries = Some (replicate 2 formal_zero), la_body_bc_idx = 7,
      la_name_sym = 0, la_formal_count = 2, la_formals_type = 1, la_allow_extra = 1\<rparr>" by (simp add: lambda_demo_def)
  then show ?thesis
    using lambda_entry_bounds [OF wf, of "Some 4" 4 _ 2 False] lambda_entry_bounds [OF wf, of "Some 4" 4 _ 2 True]
    by (simp only: lambda_new_demo prod.case) simp
qed

end
