(* ===== verification/Nova_Ctxstr.thy ===== *)
theory Nova_Ctxstr
  imports Nova_Elems "HOL-Library.Product_Lexorder"
begin

section \<open>nn_ctxstr.c: strings with context\<close>

text \<open>
  A context string is one tracked block: the text's symbol, a count and that many context elements.
  This theory holds the state and the operations; \<open>Nova_Ctxstr_Spec\<close> holds what they promise.
\<close>

subsection \<open>State\<close>

abbreviation (input) NN_SCE_PLAIN :: u8 where "NN_SCE_PLAIN \<equiv> 0"
abbreviation (input) NN_SCE_DRV_OUTPUT :: u8 where "NN_SCE_DRV_OUTPUT \<equiv> 1"
abbreviation (input) NN_SCE_ALL_OUTPUTS :: u8 where "NN_SCE_ALL_OUTPUTS \<equiv> 2"

record sce =
  sce_tag :: u8
  sce_hash :: u32
  sce_name :: u32
  sce_output :: u32

definition sce_zero :: sce where
  "sce_zero = \<lparr>sce_tag = 0, sce_hash = 0, sce_name = 0, sce_output = 0\<rparr>"

record ctxstr =
  cs_text :: u32
  cs_ctx_count :: u32
  cs_ctx :: "sce list"

record ctxstr_store =
  cx_heap :: "nat \<rightharpoonup> ctxstr"
  cx_tracked :: tracker

definition ctxstr_store_init :: ctxstr_store where
  "ctxstr_store_init = \<lparr>cx_heap = Map.empty, cx_tracked = tracker_empty\<rparr>"

subsection \<open>Tracking\<close>

abbreviation NN_CTXSTR_INITIAL_CAPACITY :: u32 where "NN_CTXSTR_INITIAL_CAPACITY \<equiv> 256"

definition nn_ctxstr_track :: "allocator \<Rightarrow> tracker \<Rightarrow> nat \<Rightarrow> bool \<times> allocator \<times> tracker" where
  "nn_ctxstr_track al tk b =
     (if length (tk_objs tk) \<ge> unat (tk_cap tk) then
        if tk_cap tk > UINT32_MAX div 2 then (False, al, tk)
        else let new_cap = (if tk_cap tk = 0 then NN_CTXSTR_INITIAL_CAPACITY else tk_cap tk * 2) in
          (case c_malloc (ucast new_cap * 8) al of
             (None, al') \<Rightarrow> (False, al', tk)
           | (Some _, al') \<Rightarrow>
               (True, al', \<lparr>tk_objs = tk_objs tk @ [b], tk_cap = new_cap\<rparr>))
      else (True, al, tk\<lparr>tk_objs := tk_objs tk @ [b]\<rparr>))"

lemma nn_ctxstr_track_push: "nn_ctxstr_track = track_push"
  by (simp add: fun_eq_iff nn_ctxstr_track_def track_push_def)

interpretation ctxstrs: tracking nn_ctxstr_track
  unfolding nn_ctxstr_track_push by (rule tracking_track_push)

subsection \<open>Lifecycle\<close>

abbreviation sizeof_ctxstr :: u64 where "sizeof_ctxstr \<equiv> 8"
abbreviation sizeof_sce :: u64 where "sizeof_sce \<equiv> 16"

definition nn_ctxstr_new ::
  "u32 \<Rightarrow> u32 \<Rightarrow> allocator \<Rightarrow> ctxstr_store \<Rightarrow> nat option \<times> allocator \<times> ctxstr_store" where
  "nn_ctxstr_new txt ctx_count al st =
     (let bytes64 = sizeof_ctxstr + ucast ctx_count * sizeof_sce in
      if bytes64 > UINT32_MAX64 then (None, al, st)
      else case c_malloc bytes64 al of
        (None, al1) \<Rightarrow> (None, al1, st)
      | (Some p, al1) \<Rightarrow>
     (case nn_ctxstr_track al1 (cx_tracked st) p of (ok, al2, tk) \<Rightarrow>
        if \<not> ok then (None, al2, st\<lparr>cx_tracked := tk\<rparr>)
        else (Some p, al2,
          \<lparr>cx_heap = (cx_heap st)(p \<mapsto>
             \<lparr>cs_text = txt, cs_ctx_count = ctx_count, cs_ctx = replicate (unat ctx_count) sce_zero\<rparr>),
           cx_tracked = tk\<rparr>)))"

definition nn_ctxstr_free_all :: "ctxstr_store \<Rightarrow> ctxstr_store c_res" where
  "nn_ctxstr_free_all st =
     res_bind (c_free_each (tk_objs (cx_tracked st)) (cx_heap st)) (\<lambda>h.
       Inr \<lparr>cx_heap = h, cx_tracked = tracker_empty\<rparr>)"

subsection \<open>Elements\<close>

text \<open>The guard of every element operation, \<open>s != NULL && idx < s->ctx_count\<close>.\<close>

definition ctx_guard :: "(nat \<rightharpoonup> ctxstr) \<Rightarrow> nat option \<Rightarrow> u32 \<Rightarrow> bool c_res" where
  "ctx_guard h p idx =
     (if p = None then Inr False else res_bind (deref h p) (\<lambda>s. Inr (idx < cs_ctx_count s)))"

text \<open>The setters write all four fields of \<open>s->ctx[idx]\<close>.\<close>

definition write_ctx :: "bool \<Rightarrow> nat option \<Rightarrow> u32 \<Rightarrow> sce \<Rightarrow> (nat \<rightharpoonup> ctxstr) \<Rightarrow> (nat \<rightharpoonup> ctxstr) c_res" where
  "write_ctx dbg p idx e h =
     res_bind (ctx_guard h p idx) (\<lambda>ok.
     NN_ASSERT dbg ok
       (if \<not> ok then Inr h
        else res_bind (deref h p) (\<lambda>s.
          if unat idx < length (cs_ctx s) then Inr (h(the p \<mapsto> s\<lparr>cs_ctx := (cs_ctx s)[unat idx := e]\<rparr>))
          else Inl Undefined)))"

definition nn_ctxstr_set_plain ::
  "bool \<Rightarrow> nat option \<Rightarrow> u32 \<Rightarrow> u32 \<Rightarrow> u32 \<Rightarrow> (nat \<rightharpoonup> ctxstr) \<Rightarrow> (nat \<rightharpoonup> ctxstr) c_res" where
  "nn_ctxstr_set_plain dbg p idx sp_hash sp_name =
     write_ctx dbg p idx \<lparr>sce_tag = NN_SCE_PLAIN, sce_hash = sp_hash, sce_name = sp_name, sce_output = 0\<rparr>"

definition nn_ctxstr_set_drv_output ::
  "bool \<Rightarrow> nat option \<Rightarrow> u32 \<Rightarrow> u32 \<Rightarrow> u32 \<Rightarrow> u32 \<Rightarrow> (nat \<rightharpoonup> ctxstr) \<Rightarrow> (nat \<rightharpoonup> ctxstr) c_res" where
  "nn_ctxstr_set_drv_output dbg p idx sp_hash sp_name output =
     write_ctx dbg p idx \<lparr>sce_tag = NN_SCE_DRV_OUTPUT, sce_hash = sp_hash, sce_name = sp_name, sce_output = output\<rparr>"

definition nn_ctxstr_set_all_outputs ::
  "bool \<Rightarrow> nat option \<Rightarrow> u32 \<Rightarrow> u32 \<Rightarrow> u32 \<Rightarrow> (nat \<rightharpoonup> ctxstr) \<Rightarrow> (nat \<rightharpoonup> ctxstr) c_res" where
  "nn_ctxstr_set_all_outputs dbg p idx sp_hash sp_name =
     write_ctx dbg p idx \<lparr>sce_tag = NN_SCE_ALL_OUTPUTS, sce_hash = sp_hash, sce_name = sp_name, sce_output = 0\<rparr>"

text \<open>The four readers differ in the field only.\<close>

definition read_ctx :: "(sce \<Rightarrow> 'w::zero) \<Rightarrow> bool \<Rightarrow> (nat \<rightharpoonup> ctxstr) \<Rightarrow> nat option \<Rightarrow> u32 \<Rightarrow> 'w c_res" where
  "read_ctx field dbg h p idx =
     res_bind (ctx_guard h p idx) (\<lambda>ok.
     NN_ASSERT dbg ok
       (if \<not> ok then Inr 0
        else res_bind (deref h p) (\<lambda>s.
          if unat idx < length (cs_ctx s) then Inr (field (cs_ctx s ! unat idx)) else Inl Undefined)))"

definition nn_ctxstr_elem_tag :: "bool \<Rightarrow> (nat \<rightharpoonup> ctxstr) \<Rightarrow> nat option \<Rightarrow> u32 \<Rightarrow> u8 c_res" where
  "nn_ctxstr_elem_tag = read_ctx sce_tag"

definition nn_ctxstr_elem_hash :: "bool \<Rightarrow> (nat \<rightharpoonup> ctxstr) \<Rightarrow> nat option \<Rightarrow> u32 \<Rightarrow> u32 c_res" where
  "nn_ctxstr_elem_hash = read_ctx sce_hash"

definition nn_ctxstr_elem_name :: "bool \<Rightarrow> (nat \<rightharpoonup> ctxstr) \<Rightarrow> nat option \<Rightarrow> u32 \<Rightarrow> u32 c_res" where
  "nn_ctxstr_elem_name = read_ctx sce_name"

definition nn_ctxstr_elem_output :: "bool \<Rightarrow> (nat \<rightharpoonup> ctxstr) \<Rightarrow> nat option \<Rightarrow> u32 \<Rightarrow> u32 c_res" where
  "nn_ctxstr_elem_output = read_ctx sce_output"

subsection \<open>Accessors\<close>

definition nn_ctxstr_text :: "(nat \<rightharpoonup> ctxstr) \<Rightarrow> nat option \<Rightarrow> u32 c_res" where
  "nn_ctxstr_text h p = res_bind (deref h p) (\<lambda>s. Inr (cs_text s))"

definition nn_ctxstr_ctx_count :: "(nat \<rightharpoonup> ctxstr) \<Rightarrow> nat option \<Rightarrow> u32 c_res" where
  "nn_ctxstr_ctx_count h p = res_bind (deref h p) (\<lambda>s. Inr (cs_ctx_count s))"

subsection \<open>The elements the setters encode\<close>

text \<open>A store path reference, by the symbols of its hash and name; ordered as nn_ctxstr.h orders the
  array: by tag, hash, name and output.\<close>

datatype ctx_elem = SCPlain u32 u32 | SCDrvOutput u32 u32 u32 | SCAllOutputs u32 u32

fun sce_of :: "ctx_elem \<Rightarrow> sce" where
  "sce_of (SCPlain sh sn) = \<lparr>sce_tag = NN_SCE_PLAIN, sce_hash = sh, sce_name = sn, sce_output = 0\<rparr>"
| "sce_of (SCDrvOutput sh sn out) = \<lparr>sce_tag = NN_SCE_DRV_OUTPUT, sce_hash = sh, sce_name = sn, sce_output = out\<rparr>"
| "sce_of (SCAllOutputs sh sn) = \<lparr>sce_tag = NN_SCE_ALL_OUTPUTS, sce_hash = sh, sce_name = sn, sce_output = 0\<rparr>"

definition sce_key :: "sce \<Rightarrow> u8 \<times> u32 \<times> u32 \<times> u32" where
  "sce_key e = (sce_tag e, sce_hash e, sce_name e, sce_output e)"

lemma sce_of_inject: "sce_key (sce_of x) = sce_key (sce_of y) \<Longrightarrow> x = y"
  by (cases x; cases y) (simp_all add: sce_key_def)

instantiation ctx_elem :: linorder
begin

definition less_eq_ctx_elem :: "ctx_elem \<Rightarrow> ctx_elem \<Rightarrow> bool" where
  "less_eq_ctx_elem x y \<longleftrightarrow> sce_key (sce_of x) \<le> sce_key (sce_of y)"

definition less_ctx_elem :: "ctx_elem \<Rightarrow> ctx_elem \<Rightarrow> bool" where
  "less_ctx_elem x y \<longleftrightarrow> sce_key (sce_of x) < sce_key (sce_of y)"

instance
  by standard (auto simp: less_eq_ctx_elem_def less_ctx_elem_def less_le_not_le dest: sce_of_inject)

end

fun set_ctx_elem :: "bool \<Rightarrow> nat option \<Rightarrow> u32 \<Rightarrow> ctx_elem \<Rightarrow> (nat \<rightharpoonup> ctxstr) \<Rightarrow> (nat \<rightharpoonup> ctxstr) c_res" where
  "set_ctx_elem dbg p i (SCPlain sh sn) = nn_ctxstr_set_plain dbg p i sh sn"
| "set_ctx_elem dbg p i (SCDrvOutput sh sn out) = nn_ctxstr_set_drv_output dbg p i sh sn out"
| "set_ctx_elem dbg p i (SCAllOutputs sh sn) = nn_ctxstr_set_all_outputs dbg p i sh sn"

end
