(* ===== verification/Nova_Ctxstr_Spec.thy ===== *)
theory Nova_Ctxstr_Spec
  imports Nova_Ctxstr
begin

section \<open>What context strings promise\<close>

text \<open>
  The invariant of a context string, its creation, and its elements as an instance of the element store.
\<close>

definition ctxstr_wf :: "ctxstr \<Rightarrow> bool" where
  "ctxstr_wf s \<longleftrightarrow> length (cs_ctx s) = unat (cs_ctx_count s)"

definition ctxstr_store_wf :: "allocator \<Rightarrow> ctxstr_store \<Rightarrow> bool" where
  "ctxstr_store_wf al st \<longleftrightarrow> tracked_store al (cx_tracked st) (cx_heap st) \<and>
     (\<forall>b \<in> dom (cx_heap st). ctxstr_wf (the (cx_heap st b)))"

lemma ctxstr_store_wf_init [wf_intros]: "ctxstr_store_wf al ctxstr_store_init"
  by (simp add: ctxstr_store_wf_def ctxstr_store_init_def wf_intros)

lemma ctxstr_store_steps: "ctxstr_store_wf al st \<Longrightarrow> al_steps al al' \<Longrightarrow> ctxstr_store_wf al' st"
  unfolding ctxstr_store_wf_def using tracked_store_steps by blast

subsection \<open>Creation\<close>

lemma ctxstr_new_cases:
  assumes wf: "ctxstr_store_wf al st"
  obtains p al' st' where "nn_ctxstr_new txt n al st = (p, al', st')"
    and "ctxstr_store_wf al' st'" and "al_steps al al'"
    and "case p of None \<Rightarrow> cx_heap st' = cx_heap st
       | Some b \<Rightarrow> cx_heap st b = None \<and> cx_heap st' = (cx_heap st)(b \<mapsto>
           \<lparr>cs_text = txt, cs_ctx_count = n, cs_ctx = replicate (unat n) sce_zero\<rparr>)"
    and "al_ok al = (\<lambda>_ _. True) \<and> 8 + 16 * unat n \<le> 4294967295 \<and> length (tk_objs (cx_tracked st)) < 2 ^ 31 \<longrightarrow> p \<noteq> None"
    and "8 + 16 * unat n > 4294967295 \<longrightarrow> (p, al', st') = (None, al, st)"
proof -
  have m: "unat (8 + (ucast n :: u64) * 16) = 8 + 16 * unat n"
    using unat_u32_less [of n] by (simp add: unat_word_ariths mult.commute)
  have big: "8 + (ucast n :: u64) * 16 > UINT32_MAX64 \<longleftrightarrow> 8 + 16 * unat n > 4294967295"
    unfolding word_less_nat_alt m by simp
  show ?thesis
  proof (cases "8 + 16 * unat n > 4294967295")
    case True
    then have "nn_ctxstr_new txt n al st = (None, al, st)" unfolding nn_ctxstr_new_def Let_def big by (rule if_P)
    then show ?thesis using that [of None al st] wf True by simp
  next
    case small: False
    obtain r al1 where c: "c_malloc (sizeof_ctxstr + ucast n * sizeof_sce) al = (r, al1)" by (metis surj_pair)
    have s1: "al_steps al al1" and r1: "r = None \<Longrightarrow> al_ok al \<noteq> (\<lambda>_ _. True)"
      and pb: "\<And>p. r = Some p \<Longrightarrow> al_next al \<le> p \<and> p < al_next al1"
      using c by (auto simp: c_malloc_def al_steps_def split: if_splits)
    have nw: "nn_ctxstr_new txt n al st = (case r of
        None \<Rightarrow> (None, al1, st)
      | Some p \<Rightarrow> (case nn_ctxstr_track al1 (cx_tracked st) p of (ok, al2, tk) \<Rightarrow>
          if \<not> ok then (None, al2, st\<lparr>cx_tracked := tk\<rparr>)
          else (Some p, al2, \<lparr>cx_heap = (cx_heap st)(p \<mapsto>
             \<lparr>cs_text = txt, cs_ctx_count = n, cs_ctx = replicate (unat n) sce_zero\<rparr>), cx_tracked = tk\<rparr>)))"
      unfolding nn_ctxstr_new_def Let_def big if_not_P [OF small] c by (cases r) simp_all
    show ?thesis
    proof (cases r)
      case None
      then show ?thesis using that [of None al1 st] nw small s1 r1 ctxstr_store_steps [OF wf s1] by simp
    next
      case p: (Some p)
      obtain ok al2 tk where t: "nn_ctxstr_track al1 (cx_tracked st) p = (ok, al2, tk)" by (metis prod_cases3)
      define s where "s = \<lparr>cs_text = txt, cs_ctx_count = n, cs_ctx = replicate (unat n) sce_zero\<rparr>"
      have ts: "tracked_store al (cx_tracked st) (cx_heap st)" using wf by (simp add: ctxstr_store_wf_def)
      note new = ctxstrs.store_new [OF ts conjunct1 [OF pb [OF p]] conjunct2 [OF pb [OF p]] s1 t]
      have "ctxstr_wf s" by (simp add: ctxstr_wf_def s_def)
      then have wf': "ctxstr_store_wf al2 \<lparr>cx_heap = (if ok then (cx_heap st)(p \<mapsto> s) else cx_heap st), cx_tracked = tk\<rparr>"
        using wf new(1) by (simp add: ctxstr_store_wf_def)
      have room: "ok" if "al_ok al = (\<lambda>_ _. True)" "length (tk_objs (cx_tracked st)) < 2 ^ 31"
        using ctxstrs.track_total [of "cx_tracked st" al1 p] ts that s1 t
        by (simp add: tracked_store_def al_steps_def)
      show ?thesis
      proof (cases ok)
        case False
        then have call: "nn_ctxstr_new txt n al st = (None, al2, st\<lparr>cx_tracked := tk\<rparr>)" using nw p t by simp
        show ?thesis by (rule that [OF call]) (use False wf' new(2) room small in \<open>auto simp: ctxstr_store_wf_def\<close>)
      next
        case True
        then have call: "nn_ctxstr_new txt n al st = (Some p, al2, \<lparr>cx_heap = (cx_heap st)(p \<mapsto> s), cx_tracked = tk\<rparr>)"
          using nw p t by (simp add: s_def)
        show ?thesis by (rule that [OF call]) (use True wf' new(2,3) small in \<open>auto simp: s_def\<close>)
      qed
    qed
  qed
qed

text \<open>nn_ctxstr_new answers a fresh context string with the given text and zeroed elements, or NULL with
  nothing kept: NULL only when the allocator refuses, 2^31 strings are tracked or the block exceeds
  UINT32_MAX bytes, which is refused before anything is allocated.\<close>

theorem ctxstr_new_result:
  assumes "ctxstr_store_wf al st"
  shows "case nn_ctxstr_new txt n al st of (p, al', st') \<Rightarrow>
    ctxstr_store_wf al' st' \<and> al_steps al al' \<and>
    (case p of None \<Rightarrow> cx_heap st' = cx_heap st
     | Some b \<Rightarrow> cx_heap st b = None \<and> (\<forall>c. c \<noteq> b \<longrightarrow> cx_heap st' c = cx_heap st c) \<and>
         nn_ctxstr_text (cx_heap st') p = Inr txt \<and> nn_ctxstr_ctx_count (cx_heap st') p = Inr n \<and>
         cs_ctx (the (cx_heap st' b)) = replicate (unat n) sce_zero) \<and>
    (al_ok al = (\<lambda>_ _. True) \<and> 8 + 16 * unat n \<le> 4294967295 \<and> length (tk_objs (cx_tracked st)) < 2 ^ 31 \<longrightarrow> p \<noteq> None) \<and>
    (8 + 16 * unat n > 4294967295 \<longrightarrow> (p, al', st') = (None, al, st))"
proof -
  obtain p al' st' where r: "nn_ctxstr_new txt n al st = (p, al', st')" "ctxstr_store_wf al' st'" "al_steps al al'"
    "case p of None \<Rightarrow> cx_heap st' = cx_heap st
       | Some b \<Rightarrow> cx_heap st b = None \<and> cx_heap st' = (cx_heap st)(b \<mapsto>
           \<lparr>cs_text = txt, cs_ctx_count = n, cs_ctx = replicate (unat n) sce_zero\<rparr>)"
    "al_ok al = (\<lambda>_ _. True) \<and> 8 + 16 * unat n \<le> 4294967295 \<and> length (tk_objs (cx_tracked st)) < 2 ^ 31 \<longrightarrow> p \<noteq> None"
    "8 + 16 * unat n > 4294967295 \<longrightarrow> (p, al', st') = (None, al, st)"
    by (rule ctxstr_new_cases [OF assms])
  have "case p of None \<Rightarrow> cx_heap st' = cx_heap st
     | Some b \<Rightarrow> cx_heap st b = None \<and> (\<forall>c. c \<noteq> b \<longrightarrow> cx_heap st' c = cx_heap st c) \<and>
         nn_ctxstr_text (cx_heap st') p = Inr txt \<and> nn_ctxstr_ctx_count (cx_heap st') p = Inr n \<and>
         cs_ctx (the (cx_heap st' b)) = replicate (unat n) sce_zero"
    using r(4) by (cases p) (auto simp: nn_ctxstr_text_def nn_ctxstr_ctx_count_def)
  with r(2,3,5,6) show ?thesis unfolding r(1) prod.case by blast
qed

subsection \<open>Elements\<close>

definition ctxstr_elems :: "(nat \<rightharpoonup> ctxstr) \<Rightarrow> nat \<Rightarrow> sce list option" where
  "ctxstr_elems h b = (case h b of None \<Rightarrow> None | Some s \<Rightarrow> if ctxstr_wf s then Some (cs_ctx s) else None)"

lemma ctxstr_elems_Some:
  "ctxstr_elems h b = Some es \<longleftrightarrow> (\<exists>s. h b = Some s \<and> ctxstr_wf s \<and> cs_ctx s = es)"
  by (auto simp: ctxstr_elems_def split: option.splits)

lemma set_ctx_elem_write: "set_ctx_elem dbg p i x h = write_ctx dbg p i (sce_of x) h"
  by (cases x) (simp_all add: nn_ctxstr_set_plain_def nn_ctxstr_set_drv_output_def nn_ctxstr_set_all_outputs_def)

lemma ctx_guard_in: "h b = Some s \<Longrightarrow> ctxstr_wf s \<Longrightarrow> ctx_guard h (Some b) i = Inr (unat i < length (cs_ctx s))"
  by (simp add: ctx_guard_def ctxstr_wf_def word_less_nat_alt)

interpretation contexts: element_store ctxstr_elems set_ctx_elem sce_of
proof
  fix h b es i dbg x
  show "set_ctx_elem dbg None i x h = (if dbg then Inl Abort else Inr h)"
    by (cases dbg) (simp_all add: set_ctx_elem_write write_ctx_def ctx_guard_def)
  assume "ctxstr_elems h b = Some es"
  then obtain s where s: "h b = Some s" "ctxstr_wf s" "cs_ctx s = es" by (auto simp: ctxstr_elems_Some)
  show "set_ctx_elem dbg (Some b) i x h = (if dbg then Inl Abort else Inr h)" if "length es \<le> unat i"
    using that s ctx_guard_in [of h b s i] by (cases dbg) (simp_all add: set_ctx_elem_write write_ctx_def)
  show "\<exists>h'. set_ctx_elem dbg (Some b) i x h = Inr h' \<and> ctxstr_elems h' = (ctxstr_elems h)(b \<mapsto> es[unat i := sce_of x])"
    if i: "unat i < length es"
  proof -
    let ?s = "s\<lparr>cs_ctx := es[unat i := sce_of x]\<rparr>"
    have "set_ctx_elem dbg (Some b) i x h = Inr (h(b \<mapsto> ?s))"
      using i s ctx_guard_in [of h b s i] by (simp add: set_ctx_elem_write write_ctx_def)
    moreover have "ctxstr_elems (h(b \<mapsto> ?s)) = (ctxstr_elems h)(b \<mapsto> es[unat i := sce_of x])"
      using s by (auto simp: ctxstr_elems_def ctxstr_wf_def fun_eq_iff)
    ultimately show ?thesis by blast
  qed
qed

lemma read_ctx_in:
  assumes "ctxstr_elems h b = Some es" and "unat i < length es"
  shows "read_ctx field dbg h (Some b) i = Inr (field (es ! unat i))"
proof -
  from assms(1) obtain s where s: "h b = Some s" "ctxstr_wf s" "cs_ctx s = es" by (auto simp: ctxstr_elems_Some)
  then show ?thesis using assms(2) ctx_guard_in [of h b s i] by (simp add: read_ctx_def)
qed

text \<open>C40: A context string created for some elements and then filled with them one by one gives each of
  them back through the four readers, whichever setter stored it, keeps its text, and touches no other
  string; filled with a sorted list, its array is sorted by (tag, hash, name, output), as the layout
  demands.\<close>

theorem ctxstr_elements_roundtrip:
  assumes "ctxstr_store_wf al st" and "length xs < 2 ^ 32"
    and "nn_ctxstr_new txt (of_nat (length xs)) al st = (Some b, al', st')"
  shows "\<exists>h. fill (set_ctx_elem dbg (Some b)) 0 xs (cx_heap st') = Inr h \<and>
    ctxstr_elems h = (ctxstr_elems (cx_heap st))(b \<mapsto> map sce_of xs) \<and>
    (\<forall>i. unat i < length xs \<longrightarrow>
      nn_ctxstr_elem_tag dbg h (Some b) i = Inr (sce_tag (sce_of (xs ! unat i))) \<and>
      nn_ctxstr_elem_hash dbg h (Some b) i = Inr (sce_hash (sce_of (xs ! unat i))) \<and>
      nn_ctxstr_elem_name dbg h (Some b) i = Inr (sce_name (sce_of (xs ! unat i))) \<and>
      nn_ctxstr_elem_output dbg h (Some b) i = Inr (sce_output (sce_of (xs ! unat i)))) \<and>
    (sorted xs \<longrightarrow> sorted (map sce_key (the (ctxstr_elems h b))))"
proof -
  obtain p al2 st2 where r: "nn_ctxstr_new txt (of_nat (length xs)) al st = (p, al2, st2)"
    "case p of None \<Rightarrow> cx_heap st2 = cx_heap st
       | Some b \<Rightarrow> cx_heap st b = None \<and> cx_heap st2 = (cx_heap st)(b \<mapsto>
           \<lparr>cs_text = txt, cs_ctx_count = of_nat (length xs),
            cs_ctx = replicate (unat (of_nat (length xs) :: u32)) sce_zero\<rparr>)"
    by (rule ctxstr_new_cases [OF assms(1)])
  have n: "unat (of_nat (length xs) :: u32) = length xs" using assms(2) by (simp add: unsigned_of_nat take_bit_nat_eq_self)
  have eq: "p = Some b" "st2 = st'" using r(1) assms(3) by simp_all
  have heap: "cx_heap st' = (cx_heap st)(b \<mapsto> \<lparr>cs_text = txt, cs_ctx_count = of_nat (length xs),
      cs_ctx = replicate (length xs) sce_zero\<rparr>)" using r(2) unfolding n eq by simp
  have el: "ctxstr_elems (cx_heap st') b = Some (replicate (length xs) sce_zero)"
    using n by (simp add: ctxstr_elems_def heap ctxstr_wf_def)
  obtain h where h: "fill (set_ctx_elem dbg (Some b)) 0 xs (cx_heap st') = Inr h"
    "ctxstr_elems h = (ctxstr_elems (cx_heap st'))(b \<mapsto> map sce_of xs)"
    using contexts.fill_all [OF el, of xs dbg] assms(2) by auto
  have eb: "ctxstr_elems h b = Some (map sce_of xs)" by (simp add: h(2))
  have "ctxstr_elems h = (ctxstr_elems (cx_heap st))(b \<mapsto> map sce_of xs)"
    by (simp add: h(2) ctxstr_elems_def heap fun_eq_iff)
  moreover have "sorted (map sce_key (the (ctxstr_elems h b)))" if "sorted xs"
    using sorted_wrt_mono_rel [OF _ that, of "\<lambda>x y. sce_key (sce_of x) \<le> sce_key (sce_of y)"]
    unfolding eb by (simp add: sorted_wrt_map less_eq_ctx_elem_def)
  moreover have "\<forall>i. unat i < length xs \<longrightarrow>
      nn_ctxstr_elem_tag dbg h (Some b) i = Inr (sce_tag (sce_of (xs ! unat i))) \<and>
      nn_ctxstr_elem_hash dbg h (Some b) i = Inr (sce_hash (sce_of (xs ! unat i))) \<and>
      nn_ctxstr_elem_name dbg h (Some b) i = Inr (sce_name (sce_of (xs ! unat i))) \<and>
      nn_ctxstr_elem_output dbg h (Some b) i = Inr (sce_output (sce_of (xs ! unat i)))"
    using read_ctx_in [OF eb, where field = sce_tag] read_ctx_in [OF eb, where field = sce_hash]
      read_ctx_in [OF eb, where field = sce_name] read_ctx_in [OF eb, where field = sce_output]
    by (simp add: nn_ctxstr_elem_tag_def nn_ctxstr_elem_hash_def
        nn_ctxstr_elem_name_def nn_ctxstr_elem_output_def)
  ultimately show ?thesis using h(1) by blast
qed

definition ctxstr_demo :: ctxstr_store where
  "ctxstr_demo = \<lparr>cx_heap = [4 \<mapsto> \<lparr>cs_text = 9, cs_ctx_count = 2, cs_ctx = replicate 2 sce_zero\<rparr>],
     cx_tracked = \<lparr>tk_objs = [4], tk_cap = 256\<rparr>\<rparr>"

lemma ctxstr_new_demo: "nn_ctxstr_new 9 2 al_all ctxstr_store_init = (Some 4, al_all\<lparr>al_next := 6\<rparr>, ctxstr_demo)"
  by (simp add: nn_ctxstr_new_def nn_ctxstr_track_def c_malloc_def al_all_def ctxstr_store_init_def
      tracker_empty_def Let_def ctxstr_demo_def)

theorem ctxstr_elements_roundtrip_witness:
  "case nn_ctxstr_new 9 2 al_all ctxstr_store_init of (p, al', st') \<Rightarrow>
     \<exists>h. fill (set_ctx_elem True p) 0 [SCPlain 5 6, SCDrvOutput 5 6 7] (cx_heap st') = Inr h \<and>
       nn_ctxstr_elem_output True h p 1 = Inr 7 \<and> sorted (map sce_key (the (ctxstr_elems h 4)))"
proof -
  let ?xs = "[SCPlain 5 6, SCDrvOutput 5 6 7]"
  have n: "of_nat (length ?xs) = (2 :: u32)" and l: "length ?xs < 2 ^ 32" and s: "sorted ?xs"
    by (simp_all add: less_eq_ctx_elem_def sce_key_def)
  note rt = ctxstr_elements_roundtrip [OF ctxstr_store_wf_init [of al_all] l, unfolded n, OF ctxstr_new_demo, of True]
  then obtain h where h: "fill (set_ctx_elem True (Some 4)) 0 ?xs (cx_heap ctxstr_demo) = Inr h"
    "\<forall>i. unat i < length ?xs \<longrightarrow> nn_ctxstr_elem_output True h (Some 4) i = Inr (sce_output (sce_of (?xs ! unat i)))"
    "sorted (map sce_key (the (ctxstr_elems h 4)))" using s by blast
  from h(2) [rule_format, of 1] have "nn_ctxstr_elem_output True h (Some 4) 1 = Inr 7" by simp
  with h(1,3) show ?thesis by (simp only: ctxstr_new_demo prod.case) blast
qed

text \<open>The bound of the element operations holds without the caller: an index past the elements, or a
  NULL string, aborts in a debug build, and in a release build the setters drop the write and the
  readers answer 0; no element operation reads or writes outside the array.\<close>

theorem ctxstr_element_bounds:
  assumes "p = None \<or> (\<exists>s. deref h p = Inr s \<and> cs_ctx_count s \<le> i)"
  shows "nn_ctxstr_set_plain dbg p i sh sn h = (if dbg then Inl Abort else Inr h) \<and>
    nn_ctxstr_set_drv_output dbg p i sh sn out h = (if dbg then Inl Abort else Inr h) \<and>
    nn_ctxstr_set_all_outputs dbg p i sh sn h = (if dbg then Inl Abort else Inr h) \<and>
    nn_ctxstr_elem_tag dbg h p i = (if dbg then Inl Abort else Inr 0) \<and>
    nn_ctxstr_elem_hash dbg h p i = (if dbg then Inl Abort else Inr 0) \<and>
    nn_ctxstr_elem_name dbg h p i = (if dbg then Inl Abort else Inr 0) \<and>
    nn_ctxstr_elem_output dbg h p i = (if dbg then Inl Abort else Inr 0)"
proof -
  have "ctx_guard h p i = Inr False"
    using assms by (auto simp: ctx_guard_def not_less)
  then show ?thesis
    by (cases dbg) (simp_all add: nn_ctxstr_set_plain_def nn_ctxstr_set_drv_output_def
        nn_ctxstr_set_all_outputs_def write_ctx_def read_ctx_def nn_ctxstr_elem_tag_def nn_ctxstr_elem_hash_def
        nn_ctxstr_elem_name_def nn_ctxstr_elem_output_def)
qed

theorem ctxstr_element_bounds_witness:
  "nn_ctxstr_set_plain False (Some 4) 2 1 1 (cx_heap ctxstr_demo) = Inr (cx_heap ctxstr_demo) \<and>
   nn_ctxstr_elem_tag True (cx_heap ctxstr_demo) None 0 = Inl Abort"
  using ctxstr_element_bounds [of "Some 4" "cx_heap ctxstr_demo" 2 False]
    ctxstr_element_bounds [of None "cx_heap ctxstr_demo" 0 True]
  by (simp add: ctxstr_demo_def)

end
