(* ===== verification/Nova_Arena.thy ===== *)
theory Nova_Arena
  imports Nova_Lifecycle Nova_Attrset_Spec Nova_List_Spec Nova_Lambda_Spec Nova_Ctxstr_Spec
begin

section \<open>nn_arena.c: the whole data layer\<close>

text \<open>
  The eight modules side by side, the three functions of nn_arena.c over them, and the two sequences
  of calls in which the Haskell side opens and closes the layer (src/Nix/Eval/Arena.hs).
\<close>

subsection \<open>State\<close>

record data_layer =
  dl_symbols :: symtab
  dl_thunks :: thunk_mod
  dl_envs :: env_mod
  dl_code :: bytecode
  dl_attrsets :: attr_store
  dl_lists :: list_store
  dl_lambdas :: lambda_store
  dl_ctxstrs :: ctxstr_store

text \<open>The globals at program start.\<close>

definition layer_start :: data_layer where
  "layer_start = \<lparr>dl_symbols = sym_zero, dl_thunks = thunk_mod_init, dl_envs = env_mod_init,
     dl_code = bytecode_zero, dl_attrsets = attr_store_init, dl_lists = list_store_init,
     dl_lambdas = lambda_store_init, dl_ctxstrs = ctxstr_store_init\<rparr>"

subsection \<open>nn_arena.c\<close>

definition nn_arena_live :: "data_layer \<Rightarrow> bool" where
  "nn_arena_live l \<longleftrightarrow> nn_symbol_live (dl_symbols l) \<and> nn_thunk_live (dl_thunks l) \<and> nn_env_live (dl_envs l) \<and>
     nn_bytecode_live (dl_code l)"

definition nn_arena_stableptr_count :: "data_layer \<Rightarrow> u32" where
  "nn_arena_stableptr_count l = nn_thunk_count_stableptrs (dl_thunks l)"

definition nn_arena_collect_stableptrs :: "data_layer \<Rightarrow> u32 \<Rightarrow> u32 \<times> val list" where
  "nn_arena_collect_stableptrs l max_count = nn_thunk_collect_stableptrs (dl_thunks l) max_count"

subsection \<open>The calls of arenaInit and arenaDestroy\<close>

definition arena_init :: "allocator \<Rightarrow> data_layer \<Rightarrow> (allocator \<times> data_layer) c_res" where
  "arena_init al l =
     res_bind (nn_symbol_init al (dl_symbols l) 0) (\<lambda>(al1, sy).
     res_bind (nn_thunk_init al1 (dl_thunks l) 0) (\<lambda>(al2, th).
     res_bind (nn_env_init al2 (dl_envs l)) (\<lambda>(al3, en).
     res_bind (nn_bytecode_init 0 0 al3 (dl_code l)) (\<lambda>(al4, bc).
     Inr (al4, l\<lparr>dl_symbols := sy, dl_thunks := th, dl_envs := en, dl_code := bc\<rparr>)))))"

text \<open>The StablePtrs that are freed.\<close>

definition cleanup_stableptrs :: "data_layer \<Rightarrow> val list" where
  "cleanup_stableptrs l = (let cnt = nn_arena_stableptr_count l in
     if cnt = 0 then [] else (case nn_arena_collect_stableptrs l cnt of (written, ptrs) \<Rightarrow> take (unat written) ptrs))"

definition arena_destroy :: "data_layer \<Rightarrow> (val list \<times> data_layer) c_res" where
  "arena_destroy l = (let freed = cleanup_stableptrs l in
     res_bind (nn_ctxstr_free_all (dl_ctxstrs l)) (\<lambda>cx.
     res_bind (nn_lambda_free_all (dl_lambdas l)) (\<lambda>lm.
     res_bind (nn_list_free_all (dl_lists l)) (\<lambda>ls.
     res_bind (nn_attrset_free_all (dl_attrsets l)) (\<lambda>ats.
     Inr (freed, \<lparr>dl_symbols = nn_symbol_destroy (dl_symbols l), dl_thunks = nn_thunk_destroy (dl_thunks l),
       dl_envs = nn_env_destroy (dl_envs l), dl_code = nn_bytecode_destroy (dl_code l),
       dl_attrsets = ats, dl_lists = ls, dl_lambdas = lm, dl_ctxstrs = cx\<rparr>))))))"

end
