(* ===== verification/Nova_Arena_Spec.thy ===== *)
theory Nova_Arena_Spec
  imports Nova_Arena
begin

section \<open>What the data layer promises\<close>

text \<open>
  The invariant of the whole layer, which opening establishes and teardown ends: teardown frees every tracked header and
  collects every StablePtr once, and the calls a layer answers are those between init and destroy.
\<close>

definition layer_wf :: "allocator \<Rightarrow> data_layer \<Rightarrow> bool" where
  "layer_wf al l \<longleftrightarrow> symtab_inv al (dl_symbols l) \<and> thunk_wf (dl_thunks l) \<and> env_wf al (dl_envs l) \<and>
     bc_wf (dl_code l) \<and> attr_store_wf al (dl_attrsets l) \<and> list_store_wf al (dl_lists l) \<and>
     lambda_store_wf al (dl_lambdas l) \<and> ctxstr_store_wf al (dl_ctxstrs l)"

lemma env_mod_init_wf: "0 < al_next al \<Longrightarrow> env_wf al env_mod_init"
proof -
  have "o' + 8 \<le> 48" if "o' < 48" "8 dvd o'" for o' :: nat
    using that by presburger
  then show "0 < al_next al \<Longrightarrow> env_wf al env_mod_init"
    by (auto simp: env_wf_def env_mod_init_def word_owned_def zero_words_def mod_eq_0_iff_dvd split: if_splits)
qed

lemma layer_start_wf: "0 < al_next al \<Longrightarrow> layer_wf al layer_start"
  by (simp add: layer_wf_def layer_start_def symtab_inv_def thunk_wf_def thunk_mod_init_def env_mod_init_wf wf_intros)

subsection \<open>Teardown\<close>

lemma list_free_all: "list_store_wf al st \<Longrightarrow> nn_list_free_all st = Inr list_store_init"
  by (simp add: nn_list_free_all_def list_store_wf_def tracked_store_free_each list_store_init_def)

lemma lambda_free_all: "lambda_store_wf al st \<Longrightarrow> nn_lambda_free_all st = Inr lambda_store_init"
  using tracked_store_free_each [of al "lm_tracked st" "lm_heap st"]
  by (simp add: nn_lambda_free_all_def lambda_store_wf_def lambda_store_init_def)

lemma ctxstr_free_all: "ctxstr_store_wf al st \<Longrightarrow> nn_ctxstr_free_all st = Inr ctxstr_store_init"
  using tracked_store_free_each [of al "cx_tracked st" "cx_heap st"]
  by (simp add: nn_ctxstr_free_all_def ctxstr_store_wf_def ctxstr_store_init_def)

lemma attrset_free_all: "attr_store_wf al st \<Longrightarrow> nn_attrset_free_all st = Inr attr_store_init"
  using tracks_heap_free_each [of al "at_tracked st" "at_heap st"]
  by (simp add: nn_attrset_free_all_def attrset_free_loop_each attr_store_wf_def attr_store_init_def)

lemma cleanup_all:
  assumes "length (stables (cells (dl_thunks l))) < 2 ^ 32"
  shows "cleanup_stableptrs l = stables (cells (dl_thunks l))"
proof -
  let ?st = "stables (cells (dl_thunks l))"
  have c: "nn_arena_stableptr_count l = of_nat (length ?st)"
    by (simp add: nn_arena_stableptr_count_def stables_counted)
  have u: "unat (of_nat (length ?st) :: u32) = length ?st" using assms by (rule unat_of_nat_u32)
  show ?thesis
  proof (cases "?st = []")
    case True
    with c show ?thesis by (simp add: cleanup_stableptrs_def)
  next
    case False
    then have "of_nat (length ?st) \<noteq> (0 :: u32)" using u by (metis length_0_conv unat_0)
    moreover obtain w out where o: "nn_thunk_collect_stableptrs (dl_thunks l) (of_nat (length ?st)) = (w, out)"
      by (metis surj_pair)
    ultimately show ?thesis using collect_result [OF o] u c
      by (simp add: cleanup_stableptrs_def nn_arena_collect_stableptrs_def Let_def)
  qed
qed

text \<open>The layer after the teardown.\<close>

definition layer_closed :: "data_layer \<Rightarrow> data_layer" where
  "layer_closed l = \<lparr>dl_symbols = nn_symbol_destroy (dl_symbols l), dl_thunks = nn_thunk_destroy (dl_thunks l),
     dl_envs = nn_env_destroy (dl_envs l), dl_code = nn_bytecode_destroy (dl_code l),
     dl_attrsets = attr_store_init, dl_lists = list_store_init, dl_lambdas = lambda_store_init,
     dl_ctxstrs = ctxstr_store_init\<rparr>"

lemma closed_parts:
  assumes "layer_wf al l"
  shows "symtab_inv al (nn_symbol_destroy (dl_symbols l)) \<and> \<not> nn_symbol_live (nn_symbol_destroy (dl_symbols l))"
    and "thunk_wf (nn_thunk_destroy (dl_thunks l)) \<and> \<not> nn_thunk_live (nn_thunk_destroy (dl_thunks l))"
    and "env_wf al (nn_env_destroy (dl_envs l)) \<and> \<not> nn_env_live (nn_env_destroy (dl_envs l))"
    and "bc_wf (nn_bytecode_destroy (dl_code l)) \<and> \<not> nn_bytecode_live (nn_bytecode_destroy (dl_code l))"
  using assms symbols.destroy_closes thunks.destroy_closes envs.destroy_closes codes.destroy_closes
  unfolding layer_wf_def by blast+

lemma destroy_closes_layer:
  assumes "layer_wf al l" and "length (stables (cells (dl_thunks l))) < 2 ^ 32"
  shows "arena_destroy l = Inr (stables (cells (dl_thunks l)), layer_closed l)" and "layer_wf al (layer_closed l)"
proof -
  have "nn_ctxstr_free_all (dl_ctxstrs l) = Inr ctxstr_store_init" "nn_lambda_free_all (dl_lambdas l) = Inr lambda_store_init"
    "nn_list_free_all (dl_lists l) = Inr list_store_init" "nn_attrset_free_all (dl_attrsets l) = Inr attr_store_init"
    using assms(1) ctxstr_free_all lambda_free_all list_free_all attrset_free_all unfolding layer_wf_def by blast+
  then show "arena_destroy l = Inr (stables (cells (dl_thunks l)), layer_closed l)"
    using cleanup_all [OF assms(2)] by (simp add: arena_destroy_def layer_closed_def)
  show "layer_wf al (layer_closed l)"
    using closed_parts [OF assms(1)] by (simp add: layer_wf_def layer_closed_def wf_intros)
qed


definition layer_demo :: data_layer where
  "layer_demo = layer_start\<lparr>dl_thunks := small_mod, dl_lists := list_demo\<rparr>"

lemma layer_demo: "layer_wf al_all layer_demo" "stables (cells (dl_thunks layer_demo)) = [Raw 4096, Raw 8192]"
proof -
  have "layer_wf al_all layer_start" by (rule layer_start_wf) (simp add: al_all_def)
  then show "layer_wf al_all layer_demo" using small_mod_wf list_demo(1) by (simp add: layer_wf_def layer_demo_def)
  show "stables (cells (dl_thunks layer_demo)) = [Raw 4096, Raw 8192]"
    by (simp add: layer_demo_def small_mod_cells stables_def stable_payload_def computed_cell_def pending_cell_def)
qed


subsection \<open>Opening\<close>

lemma layer_later:
  assumes "layer_wf al l" and "al_steps al al'"
  shows "layer_wf al' l"
proof -
  note wf = assms(1) [unfolded layer_wf_def]
  show ?thesis unfolding layer_wf_def
    using wf symbols.inv_later [OF _ assms(2)] envs.inv_later [OF _ assms(2)] attr_store_wf_steps [OF _ assms(2)]
      list_store_steps [OF _ assms(2)] lambda_store_steps [OF _ assms(2)] ctxstr_store_steps [OF _ assms(2)]
    by blast
qed

lemma arena_init_cases:
  assumes wf: "layer_wf al l"
  obtains "arena_init al l = Inl Abort" and "al_ok al \<noteq> (\<lambda>_ _. True)"
  | al' l' where "arena_init al l = Inr (al', l')" and "layer_wf al' l'" and "nn_arena_live l'" and "al_steps al al'"
proof -
  note w = wf [unfolded layer_wf_def]
  show ?thesis
  proof (rule symbols.init_cases [of al "dl_symbols l"])
    show "symtab_inv al (dl_symbols l)" using w by blast
    assume "nn_symbol_init al (dl_symbols l) 0 = Inl Abort" "al_ok al \<noteq> (\<lambda>_ _. True)"
    then show ?thesis by (intro that(1)) (simp_all add: arena_init_def)
  next
    fix al1 sy assume 1: "nn_symbol_init al (dl_symbols l) 0 = Inr (al1, sy)" "symtab_inv al1 sy" "nn_symbol_live sy" "al_steps al al1"
    show ?thesis
    proof (rule thunks.init_cases [of "dl_thunks l" al1])
      show "thunk_wf (dl_thunks l)" using w by blast
      assume "nn_thunk_init al1 (dl_thunks l) 0 = Inl Abort" "al_ok al1 \<noteq> (\<lambda>_ _. True)"
      then show ?thesis using 1 by (intro that(1)) (simp_all add: arena_init_def al_steps_def)
    next
      fix al2 th assume 2: "nn_thunk_init al1 (dl_thunks l) 0 = Inr (al2, th)" "thunk_wf th" "nn_thunk_live th" "al_steps al1 al2"
      have s2: "al_steps al al2" using 1(4) 2(4) by (rule al_steps_trans)
      show ?thesis
      proof (rule envs.init_cases [of al2 "dl_envs l"])
        show "env_wf al2 (dl_envs l)" using w envs.inv_later [OF _ s2] by blast
        assume "nn_env_init al2 (dl_envs l) = Inl Abort" "al_ok al2 \<noteq> (\<lambda>_ _. True)"
        then show ?thesis using 1 2 s2 by (intro that(1)) (simp_all add: arena_init_def al_steps_def)
      next
        fix al3 en assume 3: "nn_env_init al2 (dl_envs l) = Inr (al3, en)" "env_wf al3 en" "nn_env_live en" "al_steps al2 al3"
        have s3: "al_steps al al3" using s2 3(4) by (rule al_steps_trans)
        show ?thesis
        proof (rule codes.init_cases [of "dl_code l" al3])
          show "bc_wf (dl_code l)" using w by blast
          assume "nn_bytecode_init 0 0 al3 (dl_code l) = Inl Abort" "al_ok al3 \<noteq> (\<lambda>_ _. True)"
          then show ?thesis using 1 2 3 s3 by (intro that(1)) (simp_all add: arena_init_def al_steps_def)
        next
          fix al4 bc assume 4: "nn_bytecode_init 0 0 al3 (dl_code l) = Inr (al4, bc)" "bc_wf bc" "nn_bytecode_live bc" "al_steps al3 al4"
          have s4: "al_steps al al4" using s3 4(4) by (rule al_steps_trans)
          let ?l = "l\<lparr>dl_symbols := sy, dl_thunks := th, dl_envs := en, dl_code := bc\<rparr>"
          have "env_wf al4 en" using 3(2) 4(4) by (rule env_wf_steps)
          moreover have "symtab_inv al4 sy" using 1(2) by (simp add: symtab_inv_def)
          ultimately have "layer_wf al4 ?l" using layer_later [OF wf s4] 2(2) 4(2) by (simp add: layer_wf_def)
          moreover have "arena_init al l = Inr (al4, ?l)" using 1 2 3 4 by (simp add: arena_init_def)
          moreover have "nn_arena_live ?l" using 1 2 3 4 by (simp add: nn_arena_live_def)
          ultimately show ?thesis using s4 by (intro that(2))
        qed
      qed
    qed
  qed
qed

text \<open>C34: The window. From any well-formed layer, closed or open, the calls of arenaInit either abort, only when
  the allocator refuses, or give a well-formed layer for which nn_arena_live answers true; it answers
  false as soon as any one of the four sub-arenas is destroyed, and a layer that was torn down opens
  again.\<close>

theorem arena_window:
  assumes "layer_wf al l" and "length (stables (cells (dl_thunks l))) < 2 ^ 32"
  shows "(case arena_init al l of
      Inl err \<Rightarrow> err = Abort \<and> al_ok al \<noteq> (\<lambda>_ _. True)
    | Inr (al', l') \<Rightarrow> layer_wf al' l' \<and> nn_arena_live l' \<and>
        \<not> nn_arena_live (l'\<lparr>dl_symbols := nn_symbol_destroy (dl_symbols l')\<rparr>) \<and>
        \<not> nn_arena_live (l'\<lparr>dl_thunks := nn_thunk_destroy (dl_thunks l')\<rparr>) \<and>
        \<not> nn_arena_live (l'\<lparr>dl_envs := nn_env_destroy (dl_envs l')\<rparr>) \<and>
        \<not> nn_arena_live (l'\<lparr>dl_code := nn_bytecode_destroy (dl_code l')\<rparr>)) \<and>
    (al_ok al = (\<lambda>_ _. True) \<longrightarrow> (\<exists>ptrs l1 al2 l2. arena_destroy l = Inr (ptrs, l1) \<and>
      arena_init al l1 = Inr (al2, l2) \<and> nn_arena_live l2))"
proof
  show "case arena_init al l of
      Inl err \<Rightarrow> err = Abort \<and> al_ok al \<noteq> (\<lambda>_ _. True)
    | Inr (al', l') \<Rightarrow> layer_wf al' l' \<and> nn_arena_live l' \<and>
        \<not> nn_arena_live (l'\<lparr>dl_symbols := nn_symbol_destroy (dl_symbols l')\<rparr>) \<and>
        \<not> nn_arena_live (l'\<lparr>dl_thunks := nn_thunk_destroy (dl_thunks l')\<rparr>) \<and>
        \<not> nn_arena_live (l'\<lparr>dl_envs := nn_env_destroy (dl_envs l')\<rparr>) \<and>
        \<not> nn_arena_live (l'\<lparr>dl_code := nn_bytecode_destroy (dl_code l')\<rparr>)"
  proof (rule arena_init_cases [OF assms(1)])
    fix al' l' assume a: "arena_init al l = Inr (al', l')" "layer_wf al' l'" "nn_arena_live l'"
    with closed_parts [OF a(2)] show ?thesis by (simp add: nn_arena_live_def)
  qed simp
  note d = destroy_closes_layer [OF assms]
  show "al_ok al = (\<lambda>_ _. True) \<longrightarrow> (\<exists>ptrs l1 al2 l2. arena_destroy l = Inr (ptrs, l1) \<and>
      arena_init al l1 = Inr (al2, l2) \<and> nn_arena_live l2)"
    by (rule arena_init_cases [OF d(2)]) (use d(1) in blast)+
qed

theorem arena_window_witness:
  "\<exists>al' l'. arena_init al_all layer_start = Inr (al', l') \<and> nn_arena_live l'"
proof -
  have wf: "layer_wf al_all layer_start" by (rule layer_start_wf) (simp add: al_all_def)
  have "length (stables (cells (dl_thunks layer_start))) < 2 ^ 32"
    by (simp add: layer_start_def thunk_mod_init_def cells_def stables_def)
  from arena_window [OF wf this] show ?thesis
    by (cases "arena_init al_all layer_start") (auto simp: al_all_def)
qed

end
