(* ===== verification/Nova_Platform.thy ===== *)
theory Nova_Platform
  imports Nova_Prelude
begin

section \<open>nn_darwinfs.c and nn_winfs.c: filesystem probes\<close>

text \<open>
  Two functions that ask the operating system about case sensitivity. The operating system is a
  parameter: what each of its calls answers. \<open>apple\<close> and \<open>win32\<close> say which branch of the conditional
  compilation the build has. A path is a list of 16-bit code units, or of bytes.
\<close>

subsection \<open>macOS: is a volume case-sensitive\<close>

text \<open>\<open>pathconf path\<close> is the answer of \<open>pathconf(path, _PC_CASE_SENSITIVE)\<close>, a long.\<close>

definition nn_path_case_sensitive :: "bool \<Rightarrow> (u8 list \<Rightarrow> int) \<Rightarrow> u8 list \<Rightarrow> int" where
  "nn_path_case_sensitive apple pathconf path =
     (if apple then
        let answer = pathconf path in
        if answer < 0 then -1 else if answer > 0 then 1 else 0
      else -1)"

subsection \<open>Windows: make a directory case-sensitive\<close>

record win_os =
  wo_module :: "string \<Rightarrow> nat option"
  wo_proc :: "nat \<Rightarrow> string \<Rightarrow> nat option"
  wo_open :: "u16 list \<Rightarrow> nat option"
  wo_set :: "nat \<Rightarrow> nat \<Rightarrow> u32 \<Rightarrow> nat \<Rightarrow> int"

text \<open>The calls that are made, in order: a directory is opened to a handle, the routine \<open>f\<close> sets the
  flags of a handle, a handle is closed.\<close>

datatype win_call = OpenDir "u16 list" | SetInfo nat nat u32 nat | CloseHandle nat

abbreviation NN_FILE_CASE_SENSITIVE_INFORMATION :: nat where "NN_FILE_CASE_SENSITIVE_INFORMATION \<equiv> 71"
abbreviation (input) FILE_CS_FLAG_CASE_SENSITIVE_DIR :: u32 where "FILE_CS_FLAG_CASE_SENSITIVE_DIR \<equiv> 1"

definition nn_dir_set_case_sensitive :: "bool \<Rightarrow> win_os \<Rightarrow> u16 list \<Rightarrow> int \<times> win_call list" where
  "nn_dir_set_case_sensitive win32 os path =
     (if \<not> win32 then (0, [])
      else case wo_module os ''ntdll.dll'' of
        None \<Rightarrow> (0, [])
      | Some ntdll \<Rightarrow>
     (case wo_proc os ntdll ''NtSetInformationFile'' of
        None \<Rightarrow> (0, [])
      | Some set_information_file \<Rightarrow>
     (case wo_open os path of
        None \<Rightarrow> (0, [OpenDir path])
      | Some dir \<Rightarrow>
          let status = wo_set os set_information_file dir FILE_CS_FLAG_CASE_SENSITIVE_DIR
                         NN_FILE_CASE_SENSITIVE_INFORMATION
          in (if status \<ge> 0 then 1 else 0,
              [OpenDir path,
               SetInfo set_information_file dir FILE_CS_FLAG_CASE_SENSITIVE_DIR NN_FILE_CASE_SENSITIVE_INFORMATION,
               CloseHandle dir]))))"

subsection \<open>What they promise\<close>

text \<open>The probes. nn_path_case_sensitive answers the sign of the query on macOS and no answer elsewhere.
  nn_dir_set_case_sensitive answers 1 exactly when the routine is found, the directory opens and the
  routine reports success; a handle is set and then closed, once, exactly when it was opened, so no
  path of the function leaks it.\<close>

theorem platform_probes:
  "nn_path_case_sensitive apple pathconf path = (if apple then sgn (pathconf path) else -1) \<and>
   (case nn_dir_set_case_sensitive win32 os dir of (r, calls) \<Rightarrow>
      (r = 1 \<longleftrightarrow> win32 \<and> (\<exists>nt f h. wo_module os ''ntdll.dll'' = Some nt \<and> wo_proc os nt ''NtSetInformationFile'' = Some f \<and>
         wo_open os dir = Some h \<and> 0 \<le> wo_set os f h 1 71)) \<and>
      (r = 0 \<or> r = 1) \<and>
      (\<exists>f. calls = [] \<or> (calls = [OpenDir dir] \<and> wo_open os dir = None) \<or>
         (\<exists>h. wo_open os dir = Some h \<and> calls = [OpenDir dir, SetInfo f h 1 71, CloseHandle h])))"
  by (auto simp: nn_path_case_sensitive_def nn_dir_set_case_sensitive_def Let_def split: option.splits)

end
