(* ===== verification/Nova_Expr.thy ===== *)
theory Nova_Expr
  imports Nova_Prelude
begin

section \<open>Expr/Types.hs: the expressions of the language\<close>

text \<open>
  The data types of src/src/Nix/Expr/Types.hs with their constructors. A \<open>Text\<close> is its UTF-8 bytes, which is
  what \<open>symbolIntern\<close> hands to C; an \<open>Int64\<close> and the bits of a \<open>Double\<close> are 64-bit words. Levels and slots
  are counted up from 0 by the passes that make them; a line or column is any \<open>Int\<close>.
\<close>

type_synonym hs_text = "u8 list"
type_synonym byte_string = "u8 list"

text \<open>The bytes of a literal.\<close>

abbreviation (input) ascii :: "string \<Rightarrow> hs_text" where
  "ascii s \<equiv> map of_char s"

datatype nix_atom =
    NixInt u64
  | NixFloat u64
  | NixBool bool
  | NixNull
  | NixUri hs_text
  | NixPath hs_text

datatype source_origin = SourceFile hs_text | SourceText hs_text

datatype src_pos = SrcPos source_origin int int

datatype inherited_name = InheritedName src_pos hs_text

datatype capture_info =
    NoCaptureInfo
  | Captures "(nat \<times> nat) list"
  | CapturesWithScopes "(nat \<times> nat) list"

datatype unary_op = OpNot | OpNegate

datatype binary_op =
    OpAdd | OpSub | OpMul | OpDiv | OpAnd | OpOr | OpImpl | OpEq | OpNeq
  | OpLt | OpLte | OpGt | OpGte | OpConcat | OpUpdate

datatype (plugins only: code size) expr =
    ELit nix_atom
  | EStr "string_part list"
  | EIndStr "string_part list"
  | EPathStr hs_text "string_part list"
  | EVar hs_text
  | EAttrs bool "binding list" capture_info
  | EList "expr list"
  | ESelect expr "attr_key list" "expr option"
  | EHasAttr expr "attr_key list"
  | EApp expr expr
  | ELambda formals expr capture_info
  | ELet "binding list" expr capture_info
  | EIf expr expr expr
  | EWith expr expr
  | EAssert expr expr
  | EUnary unary_op expr
  | EBinary binary_op expr expr
  | ESearchPath hs_text
  | EResolvedVar nat nat
  | EWithVar hs_text
and string_part = StrLit byte_string | StrEsc byte_string | StrInterp expr
and attr_key = StaticKey hs_text | DynamicKey expr
and binding =
    NamedBinding src_pos attr_key expr
  | Inherit src_pos hs_text expr
  | InheritFrom expr "inherited_name list"
and formal = Formal hs_text "expr option"
and formals =
    FormalName hs_text
  | FormalSet "formal list" bool
  | FormalNamedSet hs_text "formal list" bool

end
