(* ===== verification/Nova_Hs.thy ===== *)
theory Nova_Hs
  imports Nova_Arena_Spec Nova_Expr
begin

section \<open>The Haskell side of the boundary\<close>

text \<open>
  The actions of \<open>IO\<close> that src/src/Nix/Eval/Symbol.hs, CBytecode.hs and CStatus.hs build on the C calls: a
  failure sentinel becomes an exception that says whether the layer was closed. An action takes the world and
  either throws or answers a value and the next world.
\<close>

subsection \<open>Actions and exceptions\<close>

text \<open>\<open>CFault\<close> is what the C call itself may end in (\<open>c_error\<close>); the next two are the constructors of
  \<open>CStatusError\<close> a refused call raises; \<open>ErrorCall\<close> is \<open>error\<close>; \<open>CountExceeded\<close> is the \<open>userError\<close> of the
  compiler's \<open>countArg\<close>, with what it counts and how many there are.\<close>

datatype hs_error =
    CFault c_error
  | ArenaNotInitialized string
  | CAllocationFailed string string
  | ErrorCall string
  | CountExceeded string nat

type_synonym ('s, 'a) io = "'s \<Rightarrow> hs_error + 'a \<times> 's"

definition io_return :: "'a \<Rightarrow> ('s, 'a) io" where
  "io_return x s = Inr (x, s)"

definition io_throw :: "hs_error \<Rightarrow> ('s, 'a) io" where
  "io_throw e s = Inl e"

definition io_bind :: "('s, 'a) io \<Rightarrow> ('a \<Rightarrow> ('s, 'b) io) \<Rightarrow> ('s, 'b) io" where
  "io_bind m f s = (case m s of Inl e \<Rightarrow> Inl e | Inr (x, s') \<Rightarrow> f x s')"

fun io_mapM :: "('a \<Rightarrow> ('s, 'b) io) \<Rightarrow> 'a list \<Rightarrow> ('s, 'b list) io" where
  "io_mapM f [] = io_return []"
| "io_mapM f (x # xs) = io_bind (f x) (\<lambda>y. io_bind (io_mapM f xs) (\<lambda>ys. io_return (y # ys)))"

lemma io_mapM_cong [fundef_cong]:
  "xs = ys \<Longrightarrow> (\<And>x. x \<in> set ys \<Longrightarrow> f x = g x) \<Longrightarrow> io_mapM f xs = io_mapM g ys"
  by (induction ys arbitrary: xs) auto

text \<open>Reading only: an exception or a value.\<close>

type_synonym 'a reader = "hs_error + 'a"

definition rd_bind :: "'a reader \<Rightarrow> ('a \<Rightarrow> 'b reader) \<Rightarrow> 'b reader" where
  "rd_bind m f = (case m of Inl e \<Rightarrow> Inl e | Inr x \<Rightarrow> f x)"

lemma rd_bind_simps [simp]:
  "rd_bind (Inl e) f = Inl e"
  "rd_bind (Inr x) f = f x"
  by (simp_all add: rd_bind_def)

definition from_c :: "'a c_res \<Rightarrow> 'a reader" where
  "from_c r = (case r of Inl e \<Rightarrow> Inl (CFault e) | Inr x \<Rightarrow> Inr x)"

lemma from_c_simps [simp]:
  "from_c (Inl e) = Inl (CFault e)"
  "from_c (Inr x) = Inr x"
  by (simp_all add: from_c_def)

subsection \<open>The world of a compilation\<close>

text \<open>The C layer with its allocator, and the position recorder's \<open>IORef\<close> (SourcePos.hs).\<close>

record world =
  w_al :: allocator
  w_layer :: data_layer
  w_seen :: "(source_origin \<times> u32) option"

abbreviation w_syms :: "world \<Rightarrow> symtab" where
  "w_syms w \<equiv> dl_symbols (w_layer w)"

abbreviation w_code :: "world \<Rightarrow> bytecode" where
  "w_code w \<equiv> dl_code (w_layer w)"

subsection \<open>CStatus.hs\<close>

definition arenaLive :: "(world, bool) io" where
  "arenaLive w = Inr (nn_arena_live (w_layer w), w)"

definition cStatusFailure :: "string \<Rightarrow> string \<Rightarrow> (world, 'a) io" where
  "cStatusFailure site detail = io_bind arenaLive (\<lambda>live.
     io_throw (if live then CAllocationFailed site detail else ArenaNotInitialized site))"

subsection \<open>Symbol.hs\<close>

definition c_nn_symbol_intern :: "u8 list \<Rightarrow> (world, u32) io" where
  "c_nn_symbol_intern bytes w =
     (case nn_symbol_intern (w_al w) (w_syms w) (Some bytes) (of_nat (length bytes)) of
        Inl e \<Rightarrow> Inl (CFault e)
      | Inr (r, al, t) \<Rightarrow> Inr (r, w\<lparr>w_al := al, w_layer := (w_layer w)\<lparr>dl_symbols := t\<rparr>\<rparr>))"

definition checkedSymbol :: "u32 \<Rightarrow> (world, u32) io" where
  "checkedSymbol sid =
     (if sid = 0
      then cStatusFailure ''nn_symbol_intern''
             ''the symbol table cannot hold the string (allocation failure or its 4 GiB arena limit)''
      else io_return sid)"

text \<open>A \<open>Text\<close> is its UTF-8 bytes in this model, so the two entry points make the same call.\<close>

definition symbolIntern :: "u8 list \<Rightarrow> (world, u32) io" where
  "symbolIntern txt = io_bind (c_nn_symbol_intern txt) checkedSymbol"

definition symbolInternBytes :: "u8 list \<Rightarrow> (world, u32) io" where
  "symbolInternBytes bs = io_bind (c_nn_symbol_intern bs) checkedSymbol"

definition symbolBytes :: "symtab \<Rightarrow> u32 \<Rightarrow> u8 list reader" where
  "symbolBytes t sid =
     (if sid = 0 then Inr []
      else let ptr = nn_symbol_text t sid in
        if ptr = NULL then Inr []
        else from_c (read_text t ptr (unat (nn_symbol_len t sid))))"

definition symbolText :: "symtab \<Rightarrow> u32 \<Rightarrow> u8 list reader" where
  "symbolText t sid =
     (if sid = 0 then Inr []
      else let ptr = nn_symbol_text t sid in
        if ptr = NULL then Inr []
        else from_c (read_text t ptr (unat (nn_symbol_len t sid))))"

subsection \<open>CBytecode.hs\<close>

definition checkedEmit :: "string \<Rightarrow> u32 \<Rightarrow> (world, u32) io" where
  "checkedEmit site idx =
     (if idx = UINT32_MAX
      then cStatusFailure site ''bytecode append failed (allocation failure or index ceiling)''
      else io_return idx)"

definition cbcEmit :: "u8 \<Rightarrow> u8 \<Rightarrow> u16 \<Rightarrow> u32 \<Rightarrow> u32 \<Rightarrow> u32 \<Rightarrow> (world, u32) io" where
  "cbcEmit opcode flags short_arg arg1 arg2 arg3 =
     io_bind (\<lambda>w. case nn_bc_emit opcode flags short_arg arg1 arg2 arg3 (w_al w) (w_code w) of
         Inl e \<Rightarrow> Inl (CFault e)
       | Inr (i, al, s) \<Rightarrow> Inr (i, w\<lparr>w_al := al, w_layer := (w_layer w)\<lparr>dl_code := s\<rparr>\<rparr>))
     (checkedEmit ''nn_bc_emit'')"

definition cbcEmitData :: "u32 \<Rightarrow> (world, u32) io" where
  "cbcEmitData v =
     io_bind (\<lambda>w. case nn_bc_emit_data v (w_al w) (w_code w) of
         Inl e \<Rightarrow> Inl (CFault e)
       | Inr (i, al, s) \<Rightarrow> Inr (i, w\<lparr>w_al := al, w_layer := (w_layer w)\<lparr>dl_code := s\<rparr>\<rparr>))
     (checkedEmit ''nn_bc_emit_data'')"

definition cbcOpcode :: "bool \<Rightarrow> bytecode \<Rightarrow> u32 \<Rightarrow> u8 reader" where
  "cbcOpcode dbg s i = from_c (nn_bc_opcode dbg s i)"

definition cbcFlags :: "bool \<Rightarrow> bytecode \<Rightarrow> u32 \<Rightarrow> u8 reader" where
  "cbcFlags dbg s i = from_c (nn_bc_flags dbg s i)"

definition cbcShortArg :: "bool \<Rightarrow> bytecode \<Rightarrow> u32 \<Rightarrow> u16 reader" where
  "cbcShortArg dbg s i = from_c (nn_bc_short_arg dbg s i)"

definition cbcArg1 :: "bool \<Rightarrow> bytecode \<Rightarrow> u32 \<Rightarrow> u32 reader" where
  "cbcArg1 dbg s i = from_c (nn_bc_arg1 dbg s i)"

definition cbcArg2 :: "bool \<Rightarrow> bytecode \<Rightarrow> u32 \<Rightarrow> u32 reader" where
  "cbcArg2 dbg s i = from_c (nn_bc_arg2 dbg s i)"

definition cbcArg3 :: "bool \<Rightarrow> bytecode \<Rightarrow> u32 \<Rightarrow> u32 reader" where
  "cbcArg3 dbg s i = from_c (nn_bc_arg3 dbg s i)"

definition cbcData :: "bool \<Rightarrow> bytecode \<Rightarrow> u32 \<Rightarrow> u32 reader" where
  "cbcData dbg s i = from_c (nn_bc_data dbg s i)"

abbreviation (input) spilledCountSentinel :: u16 where
  "spilledCountSentinel \<equiv> 65535"

definition cbcCountedPayload :: "bool \<Rightarrow> bytecode \<Rightarrow> u32 \<Rightarrow> u32 \<Rightarrow> (nat \<times> u32) reader" where
  "cbcCountedPayload dbg s bcIdx dataOff =
     rd_bind (cbcShortArg dbg s bcIdx) (\<lambda>inline.
       if inline = spilledCountSentinel
       then rd_bind (cbcData dbg s dataOff) (\<lambda>spilled. Inr (unat spilled, dataOff + 1))
       else Inr (unat inline, dataOff))"

end
