(* ===== verification/Nova_Compile.thy ===== *)
theory Nova_Compile
  imports Nova_Hs
begin

section \<open>Eval/Compile.hs: expressions to instructions\<close>

text \<open>
  The compiler of src/src/Nix/Eval/Compile.hs with the position records of SourcePos.hs, over the C layer:
  children are compiled before their parent, what does not fit an instruction goes to the operand words.
  Then the decoders the evaluator reads the operand words with.
\<close>

subsection \<open>Opcodes, flags and tags\<close>

abbreviation (input) OpLitInt :: u8 where "OpLitInt \<equiv> 0"
abbreviation (input) OpLitFloat :: u8 where "OpLitFloat \<equiv> 1"
abbreviation (input) OpLitBool :: u8 where "OpLitBool \<equiv> 2"
abbreviation (input) OpLitNull :: u8 where "OpLitNull \<equiv> 3"
abbreviation (input) OpLitUri :: u8 where "OpLitUri \<equiv> 4"
abbreviation (input) OpLitPath :: u8 where "OpLitPath \<equiv> 5"
abbreviation (input) OpStr :: u8 where "OpStr \<equiv> 6"
abbreviation (input) OpIndStr :: u8 where "OpIndStr \<equiv> 7"
abbreviation (input) OpVar :: u8 where "OpVar \<equiv> 8"
abbreviation (input) OpWithVar :: u8 where "OpWithVar \<equiv> 9"
abbreviation (input) OpResolvedVar :: u8 where "OpResolvedVar \<equiv> 10"
abbreviation (input) OpAttrs :: u8 where "OpAttrs \<equiv> 11"
abbreviation (input) OpList :: u8 where "OpList \<equiv> 12"
abbreviation (input) OpSelect :: u8 where "OpSelect \<equiv> 13"
abbreviation (input) OpHasAttr :: u8 where "OpHasAttr \<equiv> 14"
abbreviation (input) OpApp :: u8 where "OpApp \<equiv> 15"
abbreviation (input) OpLambda :: u8 where "OpLambda \<equiv> 16"
abbreviation (input) OpLet :: u8 where "OpLet \<equiv> 17"
abbreviation (input) OpIf :: u8 where "OpIf \<equiv> 18"
abbreviation (input) OpWith :: u8 where "OpWith \<equiv> 19"
abbreviation (input) OpAssert :: u8 where "OpAssert \<equiv> 20"
abbreviation (input) OpUnary :: u8 where "OpUnary \<equiv> 21"
abbreviation (input) OpBinary :: u8 where "OpBinary \<equiv> 22"
abbreviation (input) OpSearchPath :: u8 where "OpSearchPath \<equiv> 23"
abbreviation (input) OpPathStr :: u8 where "OpPathStr \<equiv> 24"

abbreviation (input) appDirect :: u8 where "appDirect \<equiv> 0"

abbreviation (input) strpartLit :: u32 where "strpartLit \<equiv> 0"
abbreviation (input) strpartInterp :: u32 where "strpartInterp \<equiv> 1"
abbreviation (input) strpartEsc :: u32 where "strpartEsc \<equiv> 2"

abbreviation (input) bindNamed :: u32 where "bindNamed \<equiv> 0"
abbreviation (input) bindInherit :: u32 where "bindInherit \<equiv> 1"
abbreviation (input) bindInheritFrom :: u32 where "bindInheritFrom \<equiv> 2"

abbreviation (input) captureNone :: u32 where "captureNone \<equiv> 0"
abbreviation (input) captureSlots :: u32 where "captureSlots \<equiv> 1"
abbreviation (input) captureWithScopes :: u32 where "captureWithScopes \<equiv> 2"

abbreviation (input) attrkeyStatic :: u32 where "attrkeyStatic \<equiv> 0"
abbreviation (input) attrkeyDynamic :: u32 where "attrkeyDynamic \<equiv> 1"

definition encodeUnaryOp :: "unary_op \<Rightarrow> u8" where
  "encodeUnaryOp op = (case op of OpNot \<Rightarrow> 0 | OpNegate \<Rightarrow> 1)"

definition encodeBinaryOp :: "binary_op \<Rightarrow> u8" where
  "encodeBinaryOp op = (case op of
     OpAdd \<Rightarrow> 0 | OpSub \<Rightarrow> 1 | OpMul \<Rightarrow> 2 | OpDiv \<Rightarrow> 3 | OpAnd \<Rightarrow> 4 | OpOr \<Rightarrow> 5 | OpImpl \<Rightarrow> 6 | OpEq \<Rightarrow> 7
   | OpNeq \<Rightarrow> 8 | OpLt \<Rightarrow> 9 | OpLte \<Rightarrow> 10 | OpGt \<Rightarrow> 11 | OpGte \<Rightarrow> 12 | OpConcat \<Rightarrow> 13 | OpUpdate \<Rightarrow> 14)"

definition encodeFormalType :: "formals \<Rightarrow> u8" where
  "encodeFormalType fs = (case fs of FormalName _ \<Rightarrow> 0 | FormalSet _ _ \<Rightarrow> 1 | FormalNamedSet _ _ _ \<Rightarrow> 2)"

subsection \<open>Numbers in two halves\<close>

definition splitInt64 :: "u64 \<Rightarrow> u32 \<times> u32" where
  "splitInt64 n = (ucast (n AND 4294967295), ucast (drop_bit 32 n))"

definition splitDouble :: "u64 \<Rightarrow> u32 \<times> u32" where
  "splitDouble d = (ucast (d AND 4294967295), ucast (drop_bit 32 d))"

definition reassembleInt64 :: "u32 \<Rightarrow> u32 \<Rightarrow> u64" where
  "reassembleInt64 lo hi = ucast lo OR push_bit 32 (ucast hi)"

definition reassembleDouble :: "u32 \<Rightarrow> u32 \<Rightarrow> u64" where
  "reassembleDouble lo hi = ucast lo OR push_bit 32 (ucast hi)"

subsection \<open>Operand words\<close>

definition pairWords :: "(u32 \<times> u32) list \<Rightarrow> u32 list" where
  "pairWords ps = concat (map (\<lambda>(tag, v). [tag, v]) ps)"

fun emitWordList :: "u32 list \<Rightarrow> (world, u32) io" where
  "emitWordList [] = io_return 0"
| "emitWordList (x # xs) =
     io_bind (cbcEmitData x) (\<lambda>off. io_bind (io_mapM cbcEmitData xs) (\<lambda>_. io_return off))"

definition countArg :: "string \<Rightarrow> nat \<Rightarrow> (world, u32) io" where
  "countArg what n = (if n > 4294967295 then io_throw (CountExceeded what n) else io_return (of_nat n))"

definition emitCounted :: "string \<Rightarrow> nat \<Rightarrow> u32 list \<Rightarrow> (world, u16 \<times> u32) io" where
  "emitCounted what n payload =
     (if n < unat spilledCountSentinel
      then io_bind (emitWordList payload) (\<lambda>off. io_return (of_nat n, off))
      else io_bind (countArg what n) (\<lambda>spilled.
           io_bind (emitWordList (spilled # payload)) (\<lambda>off. io_return (spilledCountSentinel, off))))"

definition captureWords :: "(nat \<times> nat) list \<Rightarrow> u32 list" where
  "captureWords ps = concat (map (\<lambda>(level, idx). [of_nat level, of_nat idx]) ps)"

definition compileCaptureInfo :: "capture_info \<Rightarrow> (world, u32) io" where
  "compileCaptureInfo ci = (case ci of
     NoCaptureInfo \<Rightarrow> emitWordList [captureNone]
   | Captures ps \<Rightarrow> emitWordList ([captureSlots, of_nat (length ps)] @ captureWords ps)
   | CapturesWithScopes ps \<Rightarrow> emitWordList ([captureWithScopes, of_nat (length ps)] @ captureWords ps))"

subsection \<open>Positions (SourcePos.hs)\<close>

abbreviation (input) noPos :: u32 where "noPos \<equiv> 0"
abbreviation (input) noFile :: u32 where "noFile \<equiv> 0"

definition newPosRecorder :: "(world, unit) io" where
  "newPosRecorder w = Inr ((), w\<lparr>w_seen := None\<rparr>)"

definition internedFile :: "source_origin \<Rightarrow> (world, u32) io" where
  "internedFile origin = (case origin of SourceFile path \<Rightarrow> symbolIntern path | SourceText _ \<Rightarrow> io_return noFile)"

definition fileWord :: "source_origin \<Rightarrow> (world, u32) io" where
  "fileWord origin w =
     (case w_seen w of
        Some (known, word) \<Rightarrow>
          if known = origin then Inr (word, w)
          else io_bind (internedFile origin) (\<lambda>word w'. Inr (word, w'\<lparr>w_seen := Some (origin, word)\<rparr>)) w
      | None \<Rightarrow> io_bind (internedFile origin) (\<lambda>word w'. Inr (word, w'\<lparr>w_seen := Some (origin, word)\<rparr>)) w)"

definition toWord32 :: "int \<Rightarrow> u32 option" where
  "toWord32 n = (if 0 \<le> n \<and> n \<le> 4294967295 then Some (of_int n) else None)"

definition recordPos :: "src_pos \<Rightarrow> (world, u32) io" where
  "recordPos p = (case p of SrcPos origin line column \<Rightarrow>
     (case (toWord32 line, toWord32 column) of
        (Some lineWord, Some columnWord) \<Rightarrow>
          io_bind (fileWord origin) (\<lambda>file.
          io_bind (cbcEmitData file) (\<lambda>offset.
          io_bind (cbcEmitData lineWord) (\<lambda>_.
          io_bind (cbcEmitData columnWord) (\<lambda>_.
          io_return (offset + 1)))))
      | _ \<Rightarrow> io_return noPos))"

datatype recorded_pos = PosInFile hs_text nat nat | PosInText nat nat

definition lookupPos :: "bool \<Rightarrow> data_layer \<Rightarrow> u32 \<Rightarrow> recorded_pos option reader" where
  "lookupPos dbg l p =
     (if p = 0 then Inr None
      else let offset = p - 1 in
        rd_bind (cbcData dbg (dl_code l) offset) (\<lambda>file.
        rd_bind (cbcData dbg (dl_code l) (offset + 1)) (\<lambda>line.
        rd_bind (cbcData dbg (dl_code l) (offset + 2)) (\<lambda>column.
          if file = noFile then Inr (Some (PosInText (unat line) (unat column)))
          else rd_bind (symbolText (dl_symbols l) file) (\<lambda>path.
            Inr (Some (PosInFile path (unat line) (unat column))))))))"

subsection \<open>What compiling takes\<close>

text \<open>A bound on the instructions, operand words and string bytes that compiling an expression adds to the
  layer; it also shows that the recursion of the compiler ends.\<close>

abbreviation text_weight :: "u8 list \<Rightarrow> nat" where
  "text_weight s \<equiv> Suc (length s)"

fun origin_weight :: "source_origin \<Rightarrow> nat" where
  "origin_weight (SourceFile path) = text_weight path"
| "origin_weight (SourceText _) = 0"

fun pos_weight :: "src_pos \<Rightarrow> nat" where
  "pos_weight (SrcPos origin _ _) = origin_weight origin + 3"

fun atom_weight :: "nix_atom \<Rightarrow> nat" where
  "atom_weight (NixUri s) = text_weight s + 1"
| "atom_weight (NixPath s) = text_weight s + 1"
| "atom_weight _ = 1"

fun capture_weight :: "capture_info \<Rightarrow> nat" where
  "capture_weight NoCaptureInfo = 1"
| "capture_weight (Captures ps) = 2 + 2 * length ps"
| "capture_weight (CapturesWithScopes ps) = 2 + 2 * length ps"

fun inherited_weight :: "inherited_name \<Rightarrow> nat" where
  "inherited_weight (InheritedName pos name) = 2 * text_weight name + pos_weight pos + 9"

fun weight :: "expr \<Rightarrow> nat" and part_weight :: "string_part \<Rightarrow> nat" and key_weight :: "attr_key \<Rightarrow> nat"
  and binding_weight :: "binding \<Rightarrow> nat" and formal_weight :: "formal \<Rightarrow> nat" and formals_weight :: "formals \<Rightarrow> nat"
where
  "weight (ELit a) = atom_weight a"
| "weight (EStr ps) = sum_list (map part_weight ps) + 2"
| "weight (EIndStr ps) = sum_list (map part_weight ps) + 2"
| "weight (EPathStr h ps) = text_weight h + sum_list (map part_weight ps) + 4"
| "weight (EVar x) = text_weight x + 1"
| "weight (EAttrs r bs c) = sum_list (map binding_weight bs) + capture_weight c + 2"
| "weight (EList es) = sum_list (map (\<lambda>e. weight e + 1) es) + 2"
| "weight (ESelect t path d) =
     weight t + sum_list (map key_weight path) + (case d of None \<Rightarrow> 0 | Some e \<Rightarrow> weight e) + 2"
| "weight (EHasAttr t path) = weight t + sum_list (map key_weight path) + 2"
| "weight (EApp f x) = weight f + weight x + 1"
| "weight (ELambda fs b c) = formals_weight fs + weight b + capture_weight c + 1"
| "weight (ELet bs b c) = sum_list (map binding_weight bs) + weight b + capture_weight c + 2"
| "weight (EIf c t e) = weight c + weight t + weight e + 1"
| "weight (EWith s b) = weight s + weight b + 1"
| "weight (EAssert c b) = weight c + weight b + 1"
| "weight (EUnary op e) = weight e + 1"
| "weight (EBinary op l r) = weight l + weight r + 1"
| "weight (ESearchPath x) = text_weight x + 1"
| "weight (EResolvedVar l i) = 1"
| "weight (EWithVar x) = text_weight x + 1"
| "part_weight (StrLit s) = text_weight s + 2"
| "part_weight (StrEsc s) = text_weight s + 2"
| "part_weight (StrInterp e) = weight e + 2"
| "key_weight (StaticKey x) = text_weight x + 2"
| "key_weight (DynamicKey e) = weight e + 2"
| "binding_weight (NamedBinding pos k e) = key_weight k + weight e + pos_weight pos + 5"
| "binding_weight (Inherit pos x v) = text_weight x + weight v + pos_weight pos + 4"
| "binding_weight (InheritFrom e xs) = weight e + sum_list (map inherited_weight xs) + 3"
| "formal_weight (Formal x d) = text_weight x + (case d of None \<Rightarrow> 0 | Some e \<Rightarrow> weight e) + 3"
| "formals_weight (FormalName x) = text_weight x + 1"
| "formals_weight (FormalSet fs _) = sum_list (map formal_weight fs) + 2"
| "formals_weight (FormalNamedSet x fs _) = text_weight x + sum_list (map formal_weight fs) + 3"

lemma sum_list_map_member: "x \<in> set xs \<Longrightarrow> f x \<le> sum_list (map f xs)" for f :: "'a \<Rightarrow> nat"
  by (rule member_le_sum_list) auto

lemmas member_weights = sum_list_map_member [of _ _ part_weight] sum_list_map_member [of _ _ key_weight]
  sum_list_map_member [of _ _ binding_weight] sum_list_map_member [of _ _ inherited_weight]
  sum_list_map_member [of _ _ formal_weight] sum_list_map_member [of _ _ "\<lambda>e. Suc (weight e)"]

subsection \<open>The compiler\<close>

definition compileSymbolOp :: "u8 \<Rightarrow> hs_text \<Rightarrow> (world, u32) io" where
  "compileSymbolOp op name = io_bind (symbolIntern name) (\<lambda>sid. cbcEmit op 0 0 sid 0 0)"

definition compileLit :: "nix_atom \<Rightarrow> (world, u32) io" where
  "compileLit a = (case a of
     NixInt n \<Rightarrow> (case splitInt64 n of (lo, hi) \<Rightarrow> cbcEmit OpLitInt 0 0 lo hi 0)
   | NixFloat d \<Rightarrow> (case splitDouble d of (lo, hi) \<Rightarrow> cbcEmit OpLitFloat 0 0 lo hi 0)
   | NixBool b \<Rightarrow> cbcEmit OpLitBool 0 (if b then 1 else 0) 0 0 0
   | NixNull \<Rightarrow> cbcEmit OpLitNull 0 0 0 0 0
   | NixUri u \<Rightarrow> compileSymbolOp OpLitUri u
   | NixPath p \<Rightarrow> compileSymbolOp OpLitPath p)"

function (sequential) compile_go :: "expr \<Rightarrow> (world, u32) io"
  and compileOnePart :: "string_part \<Rightarrow> (world, u32 \<times> u32) io"
  and compileAttrKey :: "attr_key \<Rightarrow> (world, u32 \<times> u32) io"
  and compileOneBinding :: "binding \<Rightarrow> (world, u32 list) io"
  and compileInheritedName :: "inherited_name \<Rightarrow> (world, u32 list) io"
  and compileFormalEntry :: "formal \<Rightarrow> (world, u32 list) io"
  and compileFormals :: "formals \<Rightarrow> (world, u32) io"
where
  "compile_go (ELit a) = compileLit a"
| "compile_go (EStr parts) =
     io_bind (io_mapM compileOnePart parts) (\<lambda>compiled.
     io_bind (emitCounted ''string with parts'' (length parts) (pairWords compiled)) (\<lambda>(partCount, dataOff).
     cbcEmit OpStr 0 partCount dataOff 0 0))"
| "compile_go (EIndStr parts) =
     io_bind (io_mapM compileOnePart parts) (\<lambda>compiled.
     io_bind (emitCounted ''string with parts'' (length parts) (pairWords compiled)) (\<lambda>(partCount, dataOff).
     cbcEmit OpIndStr 0 partCount dataOff 0 0))"
| "compile_go (EPathStr headPiece parts) =
     io_bind (io_mapM compileOnePart (StrLit headPiece # parts)) (\<lambda>compiled.
     io_bind (emitCounted ''string with parts'' (length (StrLit headPiece # parts)) (pairWords compiled))
       (\<lambda>(partCount, dataOff).
     cbcEmit OpPathStr 0 partCount dataOff 0 0))"
| "compile_go (EVar name) = compileSymbolOp OpVar name"
| "compile_go (EWithVar name) = compileSymbolOp OpWithVar name"
| "compile_go (EResolvedVar level idx) = cbcEmit OpResolvedVar 0 0 (of_nat level) (of_nat idx) 0"
| "compile_go (EAttrs isRec bindings captureInfo) =
     io_bind (io_mapM compileOneBinding bindings) (\<lambda>bindingWords.
     io_bind (compileCaptureInfo captureInfo) (\<lambda>capOff.
     io_bind (emitCounted ''attribute set with bindings'' (length bindings) (concat bindingWords))
       (\<lambda>(bindingCount, dataOff).
     cbcEmit OpAttrs (if isRec then 1 else 0) bindingCount dataOff capOff 0)))"
| "compile_go (EList exprs) =
     io_bind (io_mapM compile_go exprs) (\<lambda>childIndices.
     io_bind (emitCounted ''list with elements'' (length exprs) childIndices) (\<lambda>(elemCount, dataOff).
     cbcEmit OpList 0 elemCount dataOff 0 0))"
| "compile_go (ESelect tgt path defExpr) =
     io_bind (compile_go tgt) (\<lambda>targetIdx.
     io_bind (case defExpr of None \<Rightarrow> io_return 0 | Some d \<Rightarrow> compile_go d) (\<lambda>defIdx.
     io_bind (io_mapM compileAttrKey path) (\<lambda>compiled.
     io_bind (emitCounted ''attribute path with segments'' (length path) (pairWords compiled)) (\<lambda>(pathLen, pathOff).
     cbcEmit OpSelect (case defExpr of None \<Rightarrow> 0 | Some _ \<Rightarrow> 1) pathLen targetIdx pathOff defIdx))))"
| "compile_go (EHasAttr tgt path) =
     io_bind (compile_go tgt) (\<lambda>targetIdx.
     io_bind (io_mapM compileAttrKey path) (\<lambda>compiled.
     io_bind (emitCounted ''attribute path with segments'' (length path) (pairWords compiled)) (\<lambda>(pathLen, pathOff).
     cbcEmit OpHasAttr 0 pathLen targetIdx pathOff 0)))"
| "compile_go (EApp func arg) =
     io_bind (compile_go func) (\<lambda>funcIdx.
     io_bind (compile_go arg) (\<lambda>argIdx.
     cbcEmit OpApp appDirect 0 funcIdx argIdx 0))"
| "compile_go (ELambda fs body captureInfo) =
     io_bind (compile_go body) (\<lambda>bodyIdx.
     io_bind (compileFormals fs) (\<lambda>formalsOff.
     io_bind (compileCaptureInfo captureInfo) (\<lambda>capOff.
     cbcEmit OpLambda (encodeFormalType fs) 0 formalsOff bodyIdx capOff)))"
| "compile_go (ELet bindings body captureInfo) =
     io_bind (compile_go body) (\<lambda>bodyIdx.
     io_bind (io_mapM compileOneBinding bindings) (\<lambda>bindingWords.
     io_bind (compileCaptureInfo captureInfo) (\<lambda>capOff.
     io_bind (emitCounted ''let with bindings'' (length bindings) (concat bindingWords)) (\<lambda>(bindingCount, dataOff).
     cbcEmit OpLet 0 bindingCount dataOff bodyIdx capOff))))"
| "compile_go (EIf cond thenExpr elseExpr) =
     io_bind (compile_go cond) (\<lambda>condIdx.
     io_bind (compile_go thenExpr) (\<lambda>thenIdx.
     io_bind (compile_go elseExpr) (\<lambda>elseIdx.
     cbcEmit OpIf 0 0 condIdx thenIdx elseIdx)))"
| "compile_go (EWith scope body) =
     io_bind (compile_go scope) (\<lambda>scopeIdx.
     io_bind (compile_go body) (\<lambda>bodyIdx.
     cbcEmit OpWith 0 0 scopeIdx bodyIdx 0))"
| "compile_go (EAssert cond body) =
     io_bind (compile_go cond) (\<lambda>condIdx.
     io_bind (compile_go body) (\<lambda>bodyIdx.
     cbcEmit OpAssert 0 0 condIdx bodyIdx 0))"
| "compile_go (EUnary op operand) =
     io_bind (compile_go operand) (\<lambda>operandIdx.
     cbcEmit OpUnary (encodeUnaryOp op) 0 operandIdx 0 0)"
| "compile_go (EBinary op left right) =
     io_bind (compile_go left) (\<lambda>leftIdx.
     io_bind (compile_go right) (\<lambda>rightIdx.
     cbcEmit OpBinary (encodeBinaryOp op) 0 leftIdx rightIdx 0))"
| "compile_go (ESearchPath name) = compileSymbolOp OpSearchPath name"
| "compileOnePart (StrLit bytes) = io_bind (symbolInternBytes bytes) (\<lambda>sid. io_return (strpartLit, sid))"
| "compileOnePart (StrEsc bytes) = io_bind (symbolInternBytes bytes) (\<lambda>sid. io_return (strpartEsc, sid))"
| "compileOnePart (StrInterp e) = io_bind (compile_go e) (\<lambda>idx. io_return (strpartInterp, idx))"
| "compileAttrKey (StaticKey name) = io_bind (symbolIntern name) (\<lambda>sid. io_return (attrkeyStatic, sid))"
| "compileAttrKey (DynamicKey e) = io_bind (compile_go e) (\<lambda>idx. io_return (attrkeyDynamic, idx))"
| "compileOneBinding (NamedBinding pos key e) =
     io_bind (compileAttrKey key) (\<lambda>(keyKind, keyWord).
     io_bind (compile_go e) (\<lambda>valIdx.
     io_bind (recordPos pos) (\<lambda>posWord.
     io_return [bindNamed, keyKind, keyWord, valIdx, posWord])))"
| "compileOneBinding (Inherit pos name var) =
     io_bind (symbolIntern name) (\<lambda>sid.
     io_bind (compile_go var) (\<lambda>valIdx.
     io_bind (recordPos pos) (\<lambda>posWord.
     io_return [bindInherit, sid, valIdx, posWord])))"
| "compileOneBinding (InheritFrom fromExpr names) =
     io_bind (compile_go fromExpr) (\<lambda>fromIdx.
     io_bind (io_mapM compileInheritedName names) (\<lambda>inherited.
     io_return ([bindInheritFrom, fromIdx, of_nat (length names)] @ concat inherited)))"
| "compileInheritedName (InheritedName pos name) =
     io_bind (symbolIntern name) (\<lambda>sid.
     io_bind (compile_go (ESelect (EResolvedVar 0 0) [StaticKey name] None)) (\<lambda>selectIdx.
     io_bind (recordPos pos) (\<lambda>posWord.
     io_return [sid, selectIdx, posWord])))"
| "compileFormalEntry (Formal name defExpr) =
     io_bind (symbolIntern name) (\<lambda>nameSym.
     (case defExpr of
        None \<Rightarrow> io_return [nameSym, 0, 0]
      | Some d \<Rightarrow> io_bind (compile_go d) (\<lambda>defIdx. io_return [nameSym, 1, defIdx])))"
| "compileFormals (FormalName name) = io_bind (symbolIntern name) (\<lambda>sid. emitWordList [sid])"
| "compileFormals (FormalSet fs ellipsis) =
     io_bind (io_mapM compileFormalEntry fs) (\<lambda>formalWords.
     emitWordList ([of_nat (length fs), if ellipsis then 1 else 0] @ concat formalWords))"
| "compileFormals (FormalNamedSet name fs ellipsis) =
     io_bind (symbolIntern name) (\<lambda>nameSym.
     io_bind (io_mapM compileFormalEntry fs) (\<lambda>formalWords.
     emitWordList ([nameSym, of_nat (length fs), if ellipsis then 1 else 0] @ concat formalWords)))"
  by pat_completeness auto

termination
  by (relation "measure (\<lambda>x. case x of
      Inl (Inl e) \<Rightarrow> weight e
    | Inl (Inr (Inl p)) \<Rightarrow> part_weight p
    | Inl (Inr (Inr k)) \<Rightarrow> key_weight k
    | Inr (Inl (Inl b)) \<Rightarrow> binding_weight b
    | Inr (Inl (Inr n)) \<Rightarrow> inherited_weight n
    | Inr (Inr (Inl f)) \<Rightarrow> formal_weight f
    | Inr (Inr (Inr fs)) \<Rightarrow> formals_weight fs)")
    (auto simp: less_Suc_eq_le dest!: member_weights)

text \<open>\<open>compileExpr\<close>: one position recorder for the whole tree.\<close>

definition compileExpr :: "expr \<Rightarrow> (world, u32) io" where
  "compileExpr e = io_bind newPosRecorder (\<lambda>_. compile_go e)"

end
