(* ===== verification/Nova_Decode.thy ===== *)
theory Nova_Decode
  imports Nova_Compile
begin

section \<open>Reading compiled code\<close>

text \<open>
  The decoders of src/src/Nix/Eval/Compile.hs, and the loops with which src/src/Nix/Eval.hs reads string parts,
  list elements and attribute paths out of the operand words. \<open>dbg\<close> is the build of the C layer.
\<close>

subsection \<open>Formals\<close>

datatype eval_formal = EvalFormal hs_text "u32 option"

datatype eval_formals = EFName hs_text | EFSet "eval_formal list" bool | EFNamedSet hs_text "eval_formal list" bool

fun decodeFormalEntries :: "bool \<Rightarrow> data_layer \<Rightarrow> nat \<Rightarrow> u32 \<Rightarrow> eval_formal list reader" where
  "decodeFormalEntries dbg l 0 off = Inr []"
| "decodeFormalEntries dbg l (Suc n) off =
     rd_bind (cbcData dbg (dl_code l) off) (\<lambda>nameSym.
     rd_bind (cbcData dbg (dl_code l) (off + 1)) (\<lambda>hasDef.
     rd_bind (cbcData dbg (dl_code l) (off + 2)) (\<lambda>defBcIdx.
     rd_bind (decodeFormalEntries dbg l n (off + 3)) (\<lambda>rest.
     rd_bind (symbolText (dl_symbols l) nameSym) (\<lambda>name.
     Inr (EvalFormal name (if hasDef \<noteq> 0 then Some defBcIdx else None) # rest))))))"

definition decodeBcFormals :: "bool \<Rightarrow> data_layer \<Rightarrow> u8 \<Rightarrow> u32 \<Rightarrow> eval_formals reader" where
  "decodeBcFormals dbg l flags dataOff =
     (if flags = 0 then
        rd_bind (cbcData dbg (dl_code l) dataOff) (\<lambda>sid.
        rd_bind (symbolText (dl_symbols l) sid) (\<lambda>name. Inr (EFName name)))
      else if flags = 1 then
        rd_bind (cbcData dbg (dl_code l) dataOff) (\<lambda>cnt.
        rd_bind (cbcData dbg (dl_code l) (dataOff + 1)) (\<lambda>ellipsis.
        rd_bind (decodeFormalEntries dbg l (unat cnt) (dataOff + 2)) (\<lambda>fs.
        Inr (EFSet fs (ellipsis \<noteq> 0)))))
      else if flags = 2 then
        rd_bind (cbcData dbg (dl_code l) dataOff) (\<lambda>nameSym.
        rd_bind (cbcData dbg (dl_code l) (dataOff + 1)) (\<lambda>cnt.
        rd_bind (cbcData dbg (dl_code l) (dataOff + 2)) (\<lambda>ellipsis.
        rd_bind (decodeFormalEntries dbg l (unat cnt) (dataOff + 3)) (\<lambda>fs.
        rd_bind (symbolText (dl_symbols l) nameSym) (\<lambda>name.
        Inr (EFNamedSet name fs (ellipsis \<noteq> 0)))))))
      else Inl (ErrorCall ''decodeBcFormals: invalid formal type flag''))"

subsection \<open>Captures\<close>

fun decodePairs :: "bool \<Rightarrow> bytecode \<Rightarrow> nat \<Rightarrow> u32 \<Rightarrow> (nat \<times> nat) list reader" where
  "decodePairs dbg s 0 off = Inr []"
| "decodePairs dbg s (Suc n) off =
     rd_bind (cbcData dbg s off) (\<lambda>level.
     rd_bind (cbcData dbg s (off + 1)) (\<lambda>idx.
     rd_bind (decodePairs dbg s n (off + 2)) (\<lambda>rest.
     Inr ((unat level, unat idx) # rest))))"

definition decodeBcCaptureInfo :: "bool \<Rightarrow> bytecode \<Rightarrow> u32 \<Rightarrow> capture_info reader" where
  "decodeBcCaptureInfo dbg s dataOff =
     rd_bind (cbcData dbg s dataOff) (\<lambda>tag.
       if tag = captureNone then Inr NoCaptureInfo
       else if tag = captureSlots then
         rd_bind (cbcData dbg s (dataOff + 1)) (\<lambda>cnt.
         rd_bind (decodePairs dbg s (unat cnt) (dataOff + 2)) (\<lambda>ps. Inr (Captures ps)))
       else if tag = captureWithScopes then
         rd_bind (cbcData dbg s (dataOff + 1)) (\<lambda>cnt.
         rd_bind (decodePairs dbg s (unat cnt) (dataOff + 2)) (\<lambda>ps. Inr (CapturesWithScopes ps)))
       else Inl (ErrorCall ''decodeBcCaptureInfo: invalid capture type tag''))"

subsection \<open>Bindings\<close>

datatype bc_attr_key = BcStaticKey u32 | BcDynamicKey u32

datatype bc_inherited_name = BcInheritedName u32 u32 u32

datatype bc_binding =
    BcNamed u32 bc_attr_key u32
  | BcInherit u32 u32 u32
  | BcInheritFrom u32 "bc_inherited_name list"

definition decodeAttrKey :: "bool \<Rightarrow> bytecode \<Rightarrow> u32 \<Rightarrow> bc_attr_key reader" where
  "decodeAttrKey dbg s off =
     rd_bind (cbcData dbg s off) (\<lambda>isExpr.
     rd_bind (cbcData dbg s (off + 1)) (\<lambda>v.
     Inr (if isExpr \<noteq> 0 then BcDynamicKey v else BcStaticKey v)))"

fun decodeInheritedNames :: "bool \<Rightarrow> bytecode \<Rightarrow> nat \<Rightarrow> u32 \<Rightarrow> bc_inherited_name list reader" where
  "decodeInheritedNames dbg s 0 off = Inr []"
| "decodeInheritedNames dbg s (Suc n) off =
     rd_bind (cbcData dbg s off) (\<lambda>sid.
     rd_bind (cbcData dbg s (off + 1)) (\<lambda>selectBcIdx.
     rd_bind (cbcData dbg s (off + 2)) (\<lambda>pos.
     rd_bind (decodeInheritedNames dbg s n (off + 3)) (\<lambda>rest.
     Inr (BcInheritedName pos sid selectBcIdx # rest)))))"

definition decodeOneBinding :: "bool \<Rightarrow> bytecode \<Rightarrow> u32 \<Rightarrow> (bc_binding \<times> u32) reader" where
  "decodeOneBinding dbg s off =
     rd_bind (cbcData dbg s off) (\<lambda>tag.
       if tag = bindNamed then
         rd_bind (decodeAttrKey dbg s (off + 1)) (\<lambda>key.
         rd_bind (cbcData dbg s (off + 3)) (\<lambda>valBcIdx.
         rd_bind (cbcData dbg s (off + 4)) (\<lambda>pos.
         Inr (BcNamed pos key valBcIdx, off + 5))))
       else if tag = bindInherit then
         rd_bind (cbcData dbg s (off + 1)) (\<lambda>sid.
         rd_bind (cbcData dbg s (off + 2)) (\<lambda>valBcIdx.
         rd_bind (cbcData dbg s (off + 3)) (\<lambda>pos.
         Inr (BcInherit pos sid valBcIdx, off + 4))))
       else if tag = bindInheritFrom then
         rd_bind (cbcData dbg s (off + 1)) (\<lambda>fromBcIdx.
         rd_bind (cbcData dbg s (off + 2)) (\<lambda>nameCount.
         rd_bind (decodeInheritedNames dbg s (unat nameCount) (off + 3)) (\<lambda>names.
         Inr (BcInheritFrom fromBcIdx names, off + 3 + 3 * nameCount))))
       else Inl (ErrorCall ''decodeOneBinding: invalid binding type tag''))"

fun decodeBcBindings :: "bool \<Rightarrow> bytecode \<Rightarrow> nat \<Rightarrow> u32 \<Rightarrow> bc_binding list reader" where
  "decodeBcBindings dbg s 0 off = Inr []"
| "decodeBcBindings dbg s (Suc n) off =
     rd_bind (decodeOneBinding dbg s off) (\<lambda>(binding, nextOff).
     rd_bind (decodeBcBindings dbg s n nextOff) (\<lambda>rest.
     Inr (binding # rest)))"

subsection \<open>The evaluator's reading loops (Eval.hs)\<close>

text \<open>\<open>readParts\<close> is what \<open>evalBcStringParts\<close> and \<open>evalBcPathParts\<close> read, \<open>readChildren\<close> the local function of
  \<open>evalBcList\<close>, and \<open>readPath\<close> the walk of \<open>walkBcAttrPath\<close> and \<open>hasBcAttrPath\<close> over the elements of a path.\<close>

fun readParts :: "bool \<Rightarrow> bytecode \<Rightarrow> nat \<Rightarrow> u32 \<Rightarrow> (u32 \<times> u32) list reader" where
  "readParts dbg s 0 off = Inr []"
| "readParts dbg s (Suc n) off =
     rd_bind (cbcData dbg s off) (\<lambda>tag.
     rd_bind (cbcData dbg s (off + 1)) (\<lambda>v.
     rd_bind (readParts dbg s n (off + 2)) (\<lambda>rest.
     Inr ((tag, v) # rest))))"

fun readChildren :: "bool \<Rightarrow> bytecode \<Rightarrow> nat \<Rightarrow> u32 \<Rightarrow> u32 list reader" where
  "readChildren dbg s 0 off = Inr []"
| "readChildren dbg s (Suc n) off =
     rd_bind (cbcData dbg s off) (\<lambda>childIdx.
     rd_bind (readChildren dbg s n (off + 1)) (\<lambda>rest.
     Inr (childIdx # rest)))"

fun readPath :: "bool \<Rightarrow> bytecode \<Rightarrow> nat \<Rightarrow> u32 \<Rightarrow> bc_attr_key list reader" where
  "readPath dbg s 0 off = Inr []"
| "readPath dbg s (Suc n) off =
     rd_bind (decodeAttrKey dbg s off) (\<lambda>key.
     rd_bind (readPath dbg s n (off + 2)) (\<lambda>rest.
     Inr (key # rest)))"

text \<open>The operator a flags byte selects (\<open>decodeUnaryOp\<close> and \<open>decodeBinaryOp\<close> of Eval.hs).\<close>

definition decodeUnaryOp :: "u8 \<Rightarrow> unary_op reader" where
  "decodeUnaryOp n =
     (if n = 0 then Inr OpNot else if n = 1 then Inr OpNegate else Inl (ErrorCall ''decodeUnaryOp: unknown tag''))"

definition decodeBinaryOp :: "u8 \<Rightarrow> binary_op reader" where
  "decodeBinaryOp n =
     (let ops = [OpAdd, OpSub, OpMul, OpDiv, OpAnd, OpOr, OpImpl, OpEq, OpNeq, OpLt, OpLte, OpGt, OpGte, OpConcat, OpUpdate]
      in if unat n < length ops then Inr (ops ! unat n) else Inl (ErrorCall ''decodeBinaryOp: unknown tag''))"

subsection \<open>Formals compiled for a closure\<close>

text \<open>What the evaluator's closures use when a lambda is made from an expression rather than read from code
  (Eval/Types.hs): each default is compiled on its own.\<close>

definition compileOneFormal :: "formal \<Rightarrow> (world, eval_formal) io" where
  "compileOneFormal f = (case f of Formal name defExpr \<Rightarrow>
     io_bind (case defExpr of None \<Rightarrow> io_return None | Some e \<Rightarrow> io_bind (compileExpr e) (\<lambda>i. io_return (Some i))) (\<lambda>defBcIdx.
     io_return (EvalFormal name defBcIdx)))"

definition compileFormalsToEval :: "formals \<Rightarrow> (world, eval_formals) io" where
  "compileFormalsToEval fs = (case fs of
     FormalName name \<Rightarrow> io_return (EFName name)
   | FormalSet fs ellipsis \<Rightarrow> io_bind (io_mapM compileOneFormal fs) (\<lambda>efs. io_return (EFSet efs ellipsis))
   | FormalNamedSet name fs ellipsis \<Rightarrow> io_bind (io_mapM compileOneFormal fs) (\<lambda>efs. io_return (EFNamedSet name efs ellipsis)))"

end
