(* ===== verification/Nova_Code.thy ===== *)
theory Nova_Code
  imports Nova_Decode
begin

section \<open>What compiled code means\<close>

text \<open>
  The specification of the compiler: instruction \<open>i\<close> of a layer is code of an expression when everything the
  evaluator reads there, through the readers and decoders of \<open>Nova_Decode\<close>, is the expression's: its constructor,
  its names as the bytes of their symbols, its numbers reassembled, its captures, its recorded positions, and
  as children indices that are code of its subexpressions and smaller than its own.
\<close>

text \<open>A symbol that reads back as a string.\<close>

definition names :: "data_layer \<Rightarrow> u32 \<Rightarrow> u8 list \<Rightarrow> bool" where
  "names l sid x \<longleftrightarrow> sid \<noteq> 0 \<and> sid \<le> nn_symbol_count (dl_symbols l) \<and> symbolBytes (dl_symbols l) sid = Inr x"

definition is_op :: "bool \<Rightarrow> data_layer \<Rightarrow> u32 \<Rightarrow> u8 \<Rightarrow> u8 \<Rightarrow> u16 \<Rightarrow> u32 \<Rightarrow> u32 \<Rightarrow> u32 \<Rightarrow> bool" where
  "is_op dbg l i opc fl sa a1 a2 a3 \<longleftrightarrow> cbcOpcode dbg (dl_code l) i = Inr opc \<and> cbcFlags dbg (dl_code l) i = Inr fl \<and>
     cbcShortArg dbg (dl_code l) i = Inr sa \<and> cbcArg1 dbg (dl_code l) i = Inr a1 \<and>
     cbcArg2 dbg (dl_code l) i = Inr a2 \<and> cbcArg3 dbg (dl_code l) i = Inr a3"

text \<open>What a position reads back as: nothing when its line or column does not fit 32 bits.\<close>

fun recorded :: "src_pos \<Rightarrow> recorded_pos option" where
  "recorded (SrcPos origin line column) =
     (if 0 \<le> line \<and> line \<le> 4294967295 \<and> 0 \<le> column \<and> column \<le> 4294967295
      then Some (case origin of
          SourceFile path \<Rightarrow> PosInFile path (nat line) (nat column)
        | SourceText _ \<Rightarrow> PosInText (nat line) (nat column))
      else None)"

definition lit_code :: "bool \<Rightarrow> data_layer \<Rightarrow> nix_atom \<Rightarrow> u32 \<Rightarrow> bool" where
  "lit_code dbg l a i = (case a of
     NixInt n \<Rightarrow> \<exists>lo hi. is_op dbg l i OpLitInt 0 0 lo hi 0 \<and> reassembleInt64 lo hi = n
   | NixFloat d \<Rightarrow> \<exists>lo hi. is_op dbg l i OpLitFloat 0 0 lo hi 0 \<and> reassembleDouble lo hi = d
   | NixBool b \<Rightarrow> \<exists>flag. is_op dbg l i OpLitBool 0 flag 0 0 0 \<and> (flag \<noteq> 0) = b
   | NixNull \<Rightarrow> is_op dbg l i OpLitNull 0 0 0 0 0
   | NixUri u \<Rightarrow> \<exists>sid. is_op dbg l i OpLitUri 0 0 sid 0 0 \<and> names l sid u
   | NixPath p \<Rightarrow> \<exists>sid. is_op dbg l i OpLitPath 0 0 sid 0 0 \<and> names l sid p)"

text \<open>The payload of an instruction: so many elements, read from there on.\<close>

definition parts_at :: "bool \<Rightarrow> data_layer \<Rightarrow> u32 \<Rightarrow> u32 \<Rightarrow> (u32 \<times> u32) list \<Rightarrow> bool" where
  "parts_at dbg l i dataOff ps \<longleftrightarrow> (\<exists>n off. cbcCountedPayload dbg (dl_code l) i dataOff = Inr (n, off) \<and>
     readParts dbg (dl_code l) n off = Inr ps)"

definition children_at :: "bool \<Rightarrow> data_layer \<Rightarrow> u32 \<Rightarrow> u32 \<Rightarrow> u32 list \<Rightarrow> bool" where
  "children_at dbg l i dataOff cs \<longleftrightarrow> (\<exists>n off. cbcCountedPayload dbg (dl_code l) i dataOff = Inr (n, off) \<and>
     readChildren dbg (dl_code l) n off = Inr cs)"

definition path_at :: "bool \<Rightarrow> data_layer \<Rightarrow> u32 \<Rightarrow> u32 \<Rightarrow> bc_attr_key list \<Rightarrow> bool" where
  "path_at dbg l i dataOff ks \<longleftrightarrow> (\<exists>n off. cbcCountedPayload dbg (dl_code l) i dataOff = Inr (n, off) \<and>
     readPath dbg (dl_code l) n off = Inr ks)"

definition bindings_at :: "bool \<Rightarrow> data_layer \<Rightarrow> u32 \<Rightarrow> u32 \<Rightarrow> bc_binding list \<Rightarrow> bool" where
  "bindings_at dbg l i dataOff bs \<longleftrightarrow> (\<exists>n off. cbcCountedPayload dbg (dl_code l) i dataOff = Inr (n, off) \<and>
     decodeBcBindings dbg (dl_code l) n off = Inr bs)"

text \<open>The evaluator's walk over a path (\<open>evalBcPathParts\<close>) knows two kinds of parts and takes anything that is not a
  literal for an instruction, so a path must hold no escape; the parser makes escapes in indented strings only.\<close>

fun no_escape :: "string_part \<Rightarrow> bool" where
  "no_escape (StrEsc _) = False"
| "no_escape _ = True"

lemma list_all2_cong [fundef_cong]:
  "xs = xs' \<Longrightarrow> ys = ys' \<Longrightarrow> (\<And>x y. x \<in> set xs' \<Longrightarrow> y \<in> set ys' \<Longrightarrow> P x y = Q x y) \<Longrightarrow>
     list_all2 P xs ys = list_all2 Q xs' ys'"
  by (metis list.rel_cong)

function (sequential) code :: "bool \<Rightarrow> data_layer \<Rightarrow> nat \<Rightarrow> expr \<Rightarrow> u32 \<Rightarrow> bool"
  and part_code :: "bool \<Rightarrow> data_layer \<Rightarrow> nat \<Rightarrow> string_part \<Rightarrow> u32 \<times> u32 \<Rightarrow> bool"
  and key_code :: "bool \<Rightarrow> data_layer \<Rightarrow> nat \<Rightarrow> attr_key \<Rightarrow> bc_attr_key \<Rightarrow> bool"
  and binding_code :: "bool \<Rightarrow> data_layer \<Rightarrow> nat \<Rightarrow> binding \<Rightarrow> bc_binding \<Rightarrow> bool"
  and inherited_code :: "bool \<Rightarrow> data_layer \<Rightarrow> nat \<Rightarrow> inherited_name \<Rightarrow> bc_inherited_name \<Rightarrow> bool"
  and formal_code :: "bool \<Rightarrow> data_layer \<Rightarrow> nat \<Rightarrow> formal \<Rightarrow> eval_formal \<Rightarrow> bool"
  and formals_code :: "bool \<Rightarrow> data_layer \<Rightarrow> nat \<Rightarrow> formals \<Rightarrow> eval_formals \<Rightarrow> bool"
where
  "code dbg l j (ELit a) i \<longleftrightarrow> unat i < j \<and> lit_code dbg l a i"
| "code dbg l j (EStr ps) i \<longleftrightarrow> unat i < j \<and> (\<exists>sa a1 vs. is_op dbg l i OpStr 0 sa a1 0 0 \<and> parts_at dbg l i a1 vs \<and>
     list_all2 (part_code dbg l (unat i)) ps vs)"
| "code dbg l j (EIndStr ps) i \<longleftrightarrow> unat i < j \<and> (\<exists>sa a1 vs. is_op dbg l i OpIndStr 0 sa a1 0 0 \<and> parts_at dbg l i a1 vs \<and>
     list_all2 (part_code dbg l (unat i)) ps vs)"
| "code dbg l j (EPathStr h ps) i \<longleftrightarrow> unat i < j \<and> (\<exists>sa a1 vs. is_op dbg l i OpPathStr 0 sa a1 0 0 \<and> parts_at dbg l i a1 vs \<and>
     list_all2 (part_code dbg l (unat i)) (StrLit h # ps) vs) \<and> list_all no_escape ps"
| "code dbg l j (EVar x) i \<longleftrightarrow> unat i < j \<and> (\<exists>sid. is_op dbg l i OpVar 0 0 sid 0 0 \<and> names l sid x)"
| "code dbg l j (EWithVar x) i \<longleftrightarrow> unat i < j \<and> (\<exists>sid. is_op dbg l i OpWithVar 0 0 sid 0 0 \<and> names l sid x)"
| "code dbg l j (ESearchPath x) i \<longleftrightarrow> unat i < j \<and> (\<exists>sid. is_op dbg l i OpSearchPath 0 0 sid 0 0 \<and> names l sid x)"
| "code dbg l j (EResolvedVar level idx) i \<longleftrightarrow> unat i < j \<and>
     (\<exists>a1 a2. is_op dbg l i OpResolvedVar 0 0 a1 a2 0 \<and> unat a1 = level \<and> unat a2 = idx)"
| "code dbg l j (EAttrs isRec bs ci) i \<longleftrightarrow> unat i < j \<and> (\<exists>fl sa a1 a2 vs. is_op dbg l i OpAttrs fl sa a1 a2 0 \<and>
     (fl \<noteq> 0) = isRec \<and> bindings_at dbg l i a1 vs \<and> list_all2 (binding_code dbg l (unat i)) bs vs \<and>
     decodeBcCaptureInfo dbg (dl_code l) a2 = Inr ci)"
| "code dbg l j (EList es) i \<longleftrightarrow> unat i < j \<and> (\<exists>sa a1 vs. is_op dbg l i OpList 0 sa a1 0 0 \<and> children_at dbg l i a1 vs \<and>
     list_all2 (code dbg l (unat i)) es vs)"
| "code dbg l j (ESelect e path d) i \<longleftrightarrow> unat i < j \<and> (\<exists>fl sa a1 a2 a3 ks. is_op dbg l i OpSelect fl sa a1 a2 a3 \<and>
     code dbg l (unat i) e a1 \<and> path_at dbg l i a2 ks \<and> list_all2 (key_code dbg l (unat i)) path ks \<and>
     (case d of None \<Rightarrow> fl = 0 | Some e' \<Rightarrow> fl \<noteq> 0 \<and> code dbg l (unat i) e' a3))"
| "code dbg l j (EHasAttr e path) i \<longleftrightarrow> unat i < j \<and> (\<exists>sa a1 a2 ks. is_op dbg l i OpHasAttr 0 sa a1 a2 0 \<and>
     code dbg l (unat i) e a1 \<and> path_at dbg l i a2 ks \<and> list_all2 (key_code dbg l (unat i)) path ks)"
| "code dbg l j (EApp f x) i \<longleftrightarrow> unat i < j \<and> (\<exists>a1 a2. is_op dbg l i OpApp appDirect 0 a1 a2 0 \<and>
     code dbg l (unat i) f a1 \<and> code dbg l (unat i) x a2)"
| "code dbg l j (ELambda fs b ci) i \<longleftrightarrow> unat i < j \<and> (\<exists>fl a1 a2 a3 efs. is_op dbg l i OpLambda fl 0 a1 a2 a3 \<and>
     decodeBcFormals dbg l fl a1 = Inr efs \<and> formals_code dbg l (unat i) fs efs \<and> code dbg l (unat i) b a2 \<and>
     decodeBcCaptureInfo dbg (dl_code l) a3 = Inr ci)"
| "code dbg l j (ELet bs b ci) i \<longleftrightarrow> unat i < j \<and> (\<exists>sa a1 a2 a3 vs. is_op dbg l i OpLet 0 sa a1 a2 a3 \<and>
     bindings_at dbg l i a1 vs \<and> list_all2 (binding_code dbg l (unat i)) bs vs \<and> code dbg l (unat i) b a2 \<and>
     decodeBcCaptureInfo dbg (dl_code l) a3 = Inr ci)"
| "code dbg l j (EIf c t e) i \<longleftrightarrow> unat i < j \<and> (\<exists>a1 a2 a3. is_op dbg l i OpIf 0 0 a1 a2 a3 \<and>
     code dbg l (unat i) c a1 \<and> code dbg l (unat i) t a2 \<and> code dbg l (unat i) e a3)"
| "code dbg l j (EWith s b) i \<longleftrightarrow> unat i < j \<and> (\<exists>a1 a2. is_op dbg l i OpWith 0 0 a1 a2 0 \<and>
     code dbg l (unat i) s a1 \<and> code dbg l (unat i) b a2)"
| "code dbg l j (EAssert c b) i \<longleftrightarrow> unat i < j \<and> (\<exists>a1 a2. is_op dbg l i OpAssert 0 0 a1 a2 0 \<and>
     code dbg l (unat i) c a1 \<and> code dbg l (unat i) b a2)"
| "code dbg l j (EUnary op e) i \<longleftrightarrow> unat i < j \<and> (\<exists>fl a1. is_op dbg l i OpUnary fl 0 a1 0 0 \<and>
     decodeUnaryOp fl = Inr op \<and> code dbg l (unat i) e a1)"
| "code dbg l j (EBinary op e e') i \<longleftrightarrow> unat i < j \<and> (\<exists>fl a1 a2. is_op dbg l i OpBinary fl 0 a1 a2 0 \<and>
     decodeBinaryOp fl = Inr op \<and> code dbg l (unat i) e a1 \<and> code dbg l (unat i) e' a2)"
| "part_code dbg l j (StrLit s) v \<longleftrightarrow> fst v = strpartLit \<and> names l (snd v) s"
| "part_code dbg l j (StrEsc s) v \<longleftrightarrow> fst v = strpartEsc \<and> names l (snd v) s"
| "part_code dbg l j (StrInterp e) v \<longleftrightarrow> fst v = strpartInterp \<and> code dbg l j e (snd v)"
| "key_code dbg l j (StaticKey x) (BcStaticKey sid) \<longleftrightarrow> names l sid x"
| "key_code dbg l j (DynamicKey e) (BcDynamicKey v) \<longleftrightarrow> code dbg l j e v"
| "key_code dbg l j _ _ \<longleftrightarrow> False"
| "binding_code dbg l j (NamedBinding pos k e) (BcNamed p kv v) \<longleftrightarrow>
     key_code dbg l j k kv \<and> code dbg l j e v \<and> lookupPos dbg l p = Inr (recorded pos)"
| "binding_code dbg l j (Inherit pos x e) (BcInherit p sid v) \<longleftrightarrow>
     names l sid x \<and> code dbg l j e v \<and> lookupPos dbg l p = Inr (recorded pos)"
| "binding_code dbg l j (InheritFrom e xs) (BcInheritFrom v ns) \<longleftrightarrow>
     code dbg l j e v \<and> list_all2 (inherited_code dbg l j) xs ns"
| "binding_code dbg l j _ _ \<longleftrightarrow> False"
| "inherited_code dbg l j (InheritedName pos x) (BcInheritedName p sid v) \<longleftrightarrow>
     names l sid x \<and> code dbg l j (ESelect (EResolvedVar 0 0) [StaticKey x] None) v \<and>
     lookupPos dbg l p = Inr (recorded pos)"
| "formal_code dbg l j (Formal x d) (EvalFormal y v) \<longleftrightarrow> x = y \<and>
     (case d of None \<Rightarrow> v = None | Some e \<Rightarrow> (case v of None \<Rightarrow> False | Some i \<Rightarrow> code dbg l j e i))"
| "formals_code dbg l j (FormalName x) (EFName y) \<longleftrightarrow> x = y"
| "formals_code dbg l j (FormalSet fs el) (EFSet efs el') \<longleftrightarrow> el = el' \<and> list_all2 (formal_code dbg l j) fs efs"
| "formals_code dbg l j (FormalNamedSet x fs el) (EFNamedSet y efs el') \<longleftrightarrow>
     x = y \<and> el = el' \<and> list_all2 (formal_code dbg l j) fs efs"
| "formals_code dbg l j _ _ \<longleftrightarrow> False"
  by pat_completeness auto

termination
  by (relation "measure (\<lambda>x. case x of
      Inl (Inl (_, _, _, e, _)) \<Rightarrow> weight e
    | Inl (Inr (Inl (_, _, _, p, _))) \<Rightarrow> part_weight p
    | Inl (Inr (Inr (_, _, _, k, _))) \<Rightarrow> key_weight k
    | Inr (Inl (Inl (_, _, _, b, _))) \<Rightarrow> binding_weight b
    | Inr (Inl (Inr (_, _, _, n, _))) \<Rightarrow> inherited_weight n
    | Inr (Inr (Inl (_, _, _, f, _))) \<Rightarrow> formal_weight f
    | Inr (Inr (Inr (_, _, _, fs, _))) \<Rightarrow> formals_weight fs)")
    (auto simp: less_Suc_eq_le dest!: member_weights)

end
