(* ===== verification/Nova_Trim.thy ===== *)
theory Nova_Trim
  imports Nova_Compile "HOL-Library.Product_Lexorder"
begin

section \<open>Expr/ClosureTrim.hs: closures that keep only what they use\<close>

text \<open>
  The pass that attaches to each lambda, let and recursive set the list of outer slots it uses, and renumbers the
  references in it to that list (src/src/Nix/Expr/ClosureTrim.hs). A \<open>Set\<close> of pairs is a set, its ascending list
  the sorted list of that set; a \<open>Map\<close> is a map. The folds over the parts of an expression are \<open>foldFree\<close>.
\<close>

subsection \<open>Free variables\<close>

text \<open>The references that point outside, whether a variable is looked up by name, whether one is looked up in the
  with-scopes.\<close>

type_synonym free = "(nat \<times> nat) set \<times> bool \<times> bool"

abbreviation (input) no_free :: free where
  "no_free \<equiv> ({}, False, False)"

definition join_free :: "free \<Rightarrow> free \<Rightarrow> free" where
  "join_free a b = (fst a \<union> fst b, fst (snd a) \<or> fst (snd b), snd (snd a) \<or> snd (snd b))"

definition foldFree :: "('a \<Rightarrow> free) \<Rightarrow> 'a list \<Rightarrow> free" where
  "foldFree f xs = foldl (\<lambda>acc x. join_free acc (f x)) no_free xs"

lemma foldFree_cong [fundef_cong]:
  "xs = ys \<Longrightarrow> (\<And>x. x \<in> set ys \<Longrightarrow> f x = g x) \<Longrightarrow> foldFree f xs = foldFree g ys"
  unfolding foldFree_def by (rule foldl_cong) simp_all

definition capturesFree :: "nat \<Rightarrow> capture_info \<Rightarrow> free" where
  "capturesFree depth ci = (case ci of
     NoCaptureInfo \<Rightarrow> no_free
   | Captures caps \<Rightarrow> (set (map (\<lambda>(lvl, idx). (lvl - depth - 1, idx)) (filter (\<lambda>(lvl, idx). lvl > depth) caps)), False, False)
   | CapturesWithScopes caps \<Rightarrow>
       (set (map (\<lambda>(lvl, idx). (lvl - depth - 1, idx)) (filter (\<lambda>(lvl, idx). lvl > depth) caps)), False, True))"

function (sequential) collectFreeVars :: "nat \<Rightarrow> expr \<Rightarrow> free"
  and collectPart :: "nat \<Rightarrow> string_part \<Rightarrow> free"
  and collectKey :: "nat \<Rightarrow> attr_key \<Rightarrow> free"
  and collectBinding :: "nat \<Rightarrow> nat option \<Rightarrow> binding \<Rightarrow> free"
  and collectFormal :: "nat \<Rightarrow> formal \<Rightarrow> free"
  and foldFormalsDefaults :: "nat \<Rightarrow> formals \<Rightarrow> free"
where
  "collectFreeVars depth (ELit a) = no_free"
| "collectFreeVars depth (EStr parts) = foldFree (collectPart depth) parts"
| "collectFreeVars depth (EIndStr parts) = foldFree (collectPart depth) parts"
| "collectFreeVars depth (EPathStr h parts) = foldFree (collectPart depth) parts"
| "collectFreeVars depth (EVar x) = ({}, True, False)"
| "collectFreeVars depth (EWithVar x) = ({}, False, True)"
| "collectFreeVars depth (EResolvedVar level idx) =
     (if level > depth then ({(level - depth - 1, idx)}, False, False) else no_free)"
| "collectFreeVars depth (EAttrs isRec bs ci) =
     (if isRec then join_free (foldFree (collectBinding (depth + 1) (Some depth)) bs) (capturesFree depth ci)
      else foldFree (collectBinding depth (Some depth)) bs)"
| "collectFreeVars depth (EList es) = foldFree (collectFreeVars depth) es"
| "collectFreeVars depth (ESelect tgt path d) =
     join_free (join_free (collectFreeVars depth tgt) (foldFree (collectKey depth) path))
       (case d of None \<Rightarrow> no_free | Some e \<Rightarrow> collectFreeVars depth e)"
| "collectFreeVars depth (EHasAttr tgt path) = join_free (collectFreeVars depth tgt) (foldFree (collectKey depth) path)"
| "collectFreeVars depth (EApp f x) = foldFree (collectFreeVars depth) [f, x]"
| "collectFreeVars depth (ELambda fs body ci) =
     join_free (join_free (foldFormalsDefaults (depth + 1) fs) (collectFreeVars (depth + 1) body)) (capturesFree depth ci)"
| "collectFreeVars depth (ELet bs body ci) =
     join_free (join_free (foldFree (collectBinding (depth + 1) (Some depth)) bs) (collectFreeVars (depth + 1) body))
       (capturesFree depth ci)"
| "collectFreeVars depth (EIf c t f) =
     join_free (join_free (collectFreeVars depth c) (collectFreeVars depth t)) (collectFreeVars depth f)"
| "collectFreeVars depth (EWith s b) = join_free (collectFreeVars depth s) (collectFreeVars depth b)"
| "collectFreeVars depth (EAssert c b) = join_free (collectFreeVars depth c) (collectFreeVars depth b)"
| "collectFreeVars depth (EUnary op e) = collectFreeVars depth e"
| "collectFreeVars depth (EBinary op l r) = join_free (collectFreeVars depth l) (collectFreeVars depth r)"
| "collectFreeVars depth (ESearchPath x) = no_free"
| "collectPart depth (StrLit s) = no_free"
| "collectPart depth (StrEsc s) = no_free"
| "collectPart depth (StrInterp e) = collectFreeVars depth e"
| "collectKey depth (StaticKey x) = no_free"
| "collectKey depth (DynamicKey e) = collectFreeVars depth e"
| "collectBinding depth outer (NamedBinding pos key e) = join_free (collectKey depth key) (collectFreeVars depth e)"
| "collectBinding depth outer (Inherit pos x v) = (case outer of None \<Rightarrow> no_free | Some o' \<Rightarrow> collectFreeVars o' v)"
| "collectBinding depth outer (InheritFrom e xs) = collectFreeVars depth e"
| "collectFormal depth (Formal x d) = (case d of None \<Rightarrow> no_free | Some e \<Rightarrow> collectFreeVars depth e)"
| "foldFormalsDefaults depth (FormalName x) = no_free"
| "foldFormalsDefaults depth (FormalSet fs el) = foldFree (collectFormal depth) fs"
| "foldFormalsDefaults depth (FormalNamedSet x fs el) = foldFree (collectFormal depth) fs"
  by pat_completeness auto

termination
  by (relation "measure (\<lambda>x. case x of
      Inl (Inl (_, e)) \<Rightarrow> weight e
    | Inl (Inr (Inl (_, p))) \<Rightarrow> part_weight p
    | Inl (Inr (Inr (_, k))) \<Rightarrow> key_weight k
    | Inr (Inl (_, _, b)) \<Rightarrow> binding_weight b
    | Inr (Inr (Inl (_, f))) \<Rightarrow> formal_weight f
    | Inr (Inr (Inr (_, fs))) \<Rightarrow> formals_weight fs)")
    (auto simp: less_Suc_eq_le dest!: member_weights)

subsection \<open>Renumbering\<close>

type_synonym capture_map = "nat \<times> nat \<Rightarrow> nat option"

definition rewriteOne :: "nat \<Rightarrow> capture_map \<Rightarrow> nat \<times> nat \<Rightarrow> nat \<times> nat" where
  "rewriteOne depth captureMap c = (case c of (lvl, idx) \<Rightarrow>
     if lvl > depth then (case captureMap (lvl - depth - 1, idx) of
         Some captureIdx \<Rightarrow> (depth + 1, captureIdx)
       | None \<Rightarrow> (lvl, idx))
     else (lvl, idx))"

definition rewriteCaptures :: "nat \<Rightarrow> capture_map \<Rightarrow> capture_info \<Rightarrow> capture_info" where
  "rewriteCaptures depth captureMap ci = (case ci of
     NoCaptureInfo \<Rightarrow> NoCaptureInfo
   | Captures caps \<Rightarrow> Captures (map (rewriteOne depth captureMap) caps)
   | CapturesWithScopes caps \<Rightarrow> CapturesWithScopes (map (rewriteOne depth captureMap) caps))"

function (sequential) rewriteBody :: "nat \<Rightarrow> capture_map \<Rightarrow> expr \<Rightarrow> expr"
  and rewritePart :: "nat \<Rightarrow> capture_map \<Rightarrow> string_part \<Rightarrow> string_part"
  and rewriteKey :: "nat \<Rightarrow> capture_map \<Rightarrow> attr_key \<Rightarrow> attr_key"
  and rewriteBinding :: "nat \<Rightarrow> nat option \<Rightarrow> capture_map \<Rightarrow> binding \<Rightarrow> binding"
  and rewriteFormal :: "nat \<Rightarrow> capture_map \<Rightarrow> formal \<Rightarrow> formal"
  and rewriteFormals :: "nat \<Rightarrow> capture_map \<Rightarrow> formals \<Rightarrow> formals"
where
  "rewriteBody depth cm (ELit a) = ELit a"
| "rewriteBody depth cm (EStr parts) = EStr (map (rewritePart depth cm) parts)"
| "rewriteBody depth cm (EIndStr parts) = EIndStr (map (rewritePart depth cm) parts)"
| "rewriteBody depth cm (EPathStr h parts) = EPathStr h (map (rewritePart depth cm) parts)"
| "rewriteBody depth cm (EVar x) = EVar x"
| "rewriteBody depth cm (EWithVar x) = EWithVar x"
| "rewriteBody depth cm (EResolvedVar level idx) =
     (if level > depth then (case cm (level - depth - 1, idx) of
         Some captureIdx \<Rightarrow> EResolvedVar (depth + 1) captureIdx
       | None \<Rightarrow> EResolvedVar level idx)
     else EResolvedVar level idx)"
| "rewriteBody depth cm (EAttrs isRec bs ci) =
     (if isRec then EAttrs True (map (rewriteBinding (depth + 1) (Some depth) cm) bs) (rewriteCaptures depth cm ci)
      else EAttrs False (map (rewriteBinding depth (Some depth) cm) bs) ci)"
| "rewriteBody depth cm (EList es) = EList (map (rewriteBody depth cm) es)"
| "rewriteBody depth cm (ESelect tgt path d) =
     ESelect (rewriteBody depth cm tgt) (map (rewriteKey depth cm) path)
       (case d of None \<Rightarrow> None | Some e \<Rightarrow> Some (rewriteBody depth cm e))"
| "rewriteBody depth cm (EHasAttr tgt path) = EHasAttr (rewriteBody depth cm tgt) (map (rewriteKey depth cm) path)"
| "rewriteBody depth cm (EApp f x) = EApp (rewriteBody depth cm f) (rewriteBody depth cm x)"
| "rewriteBody depth cm (ELambda fs body ci) =
     ELambda (rewriteFormals (depth + 1) cm fs) (rewriteBody (depth + 1) cm body) (rewriteCaptures depth cm ci)"
| "rewriteBody depth cm (ELet bs body ci) =
     ELet (map (rewriteBinding (depth + 1) (Some depth) cm) bs) (rewriteBody (depth + 1) cm body) (rewriteCaptures depth cm ci)"
| "rewriteBody depth cm (EIf c t f) = EIf (rewriteBody depth cm c) (rewriteBody depth cm t) (rewriteBody depth cm f)"
| "rewriteBody depth cm (EWith s b) = EWith (rewriteBody depth cm s) (rewriteBody depth cm b)"
| "rewriteBody depth cm (EAssert c b) = EAssert (rewriteBody depth cm c) (rewriteBody depth cm b)"
| "rewriteBody depth cm (EUnary op e) = EUnary op (rewriteBody depth cm e)"
| "rewriteBody depth cm (EBinary op l r) = EBinary op (rewriteBody depth cm l) (rewriteBody depth cm r)"
| "rewriteBody depth cm (ESearchPath x) = ESearchPath x"
| "rewritePart depth cm (StrLit s) = StrLit s"
| "rewritePart depth cm (StrEsc s) = StrEsc s"
| "rewritePart depth cm (StrInterp e) = StrInterp (rewriteBody depth cm e)"
| "rewriteKey depth cm (StaticKey x) = StaticKey x"
| "rewriteKey depth cm (DynamicKey e) = DynamicKey (rewriteBody depth cm e)"
| "rewriteBinding depth outer cm (NamedBinding pos key e) = NamedBinding pos (rewriteKey depth cm key) (rewriteBody depth cm e)"
| "rewriteBinding depth outer cm (Inherit pos x v) =
     Inherit pos x (case outer of None \<Rightarrow> v | Some o' \<Rightarrow> rewriteBody o' cm v)"
| "rewriteBinding depth outer cm (InheritFrom e xs) = InheritFrom (rewriteBody depth cm e) xs"
| "rewriteFormal depth cm (Formal x d) = Formal x (case d of None \<Rightarrow> None | Some e \<Rightarrow> Some (rewriteBody depth cm e))"
| "rewriteFormals depth cm (FormalName x) = FormalName x"
| "rewriteFormals depth cm (FormalSet fs el) = FormalSet (map (rewriteFormal depth cm) fs) el"
| "rewriteFormals depth cm (FormalNamedSet x fs el) = FormalNamedSet x (map (rewriteFormal depth cm) fs) el"
  by pat_completeness auto

termination
  by (relation "measure (\<lambda>x. case x of
      Inl (Inl (_, _, e)) \<Rightarrow> weight e
    | Inl (Inr (Inl (_, _, p))) \<Rightarrow> part_weight p
    | Inl (Inr (Inr (_, _, k))) \<Rightarrow> key_weight k
    | Inr (Inl (_, _, _, b)) \<Rightarrow> binding_weight b
    | Inr (Inr (Inl (_, _, f))) \<Rightarrow> formal_weight f
    | Inr (Inr (Inr (_, _, fs))) \<Rightarrow> formals_weight fs)")
    (auto simp: less_Suc_eq_le dest!: member_weights)

subsection \<open>Trimming one scope\<close>

text \<open>\<open>sortBy (comparing fst <> comparing snd) (Set.toList vs)\<close>, and the map from each captured reference to its
  position.\<close>

definition capture_list :: "(nat \<times> nat) set \<Rightarrow> (nat \<times> nat) list" where
  "capture_list vs = sort (sorted_list_of_set vs)"

definition capture_map_of :: "(nat \<times> nat) list \<Rightarrow> capture_map" where
  "capture_map_of caps = map_of (zip caps [0..<length caps])"

definition capture_info_of :: "(nat \<times> nat) list \<Rightarrow> bool \<Rightarrow> capture_info" where
  "capture_info_of caps needsWithScopes = (if needsWithScopes then CapturesWithScopes caps else Captures caps)"

definition trimOneLambda :: "formals \<Rightarrow> expr \<Rightarrow> expr + (nat \<times> nat) list \<times> formals \<times> expr \<times> bool" where
  "trimOneLambda fs body =
     (let (bodyVars, bodyHasEVar, bodyHasWithVar) = collectFreeVars 0 body;
          (formalVars, formalHasEVar, formalHasWithVar) = foldFormalsDefaults 0 fs;
          freeVars = bodyVars \<union> formalVars;
          hasOuterEVar = (bodyHasEVar \<or> formalHasEVar);
          needsWithScopes = (bodyHasWithVar \<or> formalHasWithVar)
      in if hasOuterEVar \<or> (freeVars = {} \<and> \<not> needsWithScopes) then Inl (ELambda fs body NoCaptureInfo)
         else let captureList = capture_list freeVars; captureMap = capture_map_of captureList
           in Inr (captureList, rewriteFormals 0 captureMap fs, rewriteBody 0 captureMap body, needsWithScopes))"

definition trimOneLetBlock ::
  "binding list \<Rightarrow> expr \<Rightarrow> binding list \<times> expr + (nat \<times> nat) list \<times> binding list \<times> expr \<times> bool" where
  "trimOneLetBlock bs body =
     (let (bindingVars, bindingHasEVar, bindingHasWithVar) = foldFree (collectBinding 0 None) bs;
          (bodyVars, bodyHasEVar, bodyHasWithVar) = collectFreeVars 0 body;
          freeVars = bindingVars \<union> bodyVars;
          hasOuterEVar = (bindingHasEVar \<or> bodyHasEVar);
          needsWithScopes = (bindingHasWithVar \<or> bodyHasWithVar)
      in if hasOuterEVar \<or> (freeVars = {} \<and> \<not> needsWithScopes) then Inl (bs, body)
         else let captureList = capture_list freeVars; captureMap = capture_map_of captureList
           in Inr (captureList, map (rewriteBinding 0 None captureMap) bs, rewriteBody 0 captureMap body, needsWithScopes))"

definition trimOneRecAttrs :: "binding list \<Rightarrow> binding list + (nat \<times> nat) list \<times> binding list \<times> bool" where
  "trimOneRecAttrs bs =
     (let (bindingVars, bindingHasEVar, bindingHasWithVar) = foldFree (collectBinding 0 None) bs
      in if bindingHasEVar \<or> (bindingVars = {} \<and> \<not> bindingHasWithVar) then Inl bs
         else let captureList = capture_list bindingVars; captureMap = capture_map_of captureList
           in Inr (captureList, map (rewriteBinding 0 None captureMap) bs, bindingHasWithVar))"

subsection \<open>The walk\<close>

function (sequential) trimExpr :: "expr \<Rightarrow> expr"
  and trimPart :: "string_part \<Rightarrow> string_part"
  and trimKey :: "attr_key \<Rightarrow> attr_key"
  and trimBinding :: "binding \<Rightarrow> binding"
  and trimFormal :: "formal \<Rightarrow> formal"
  and trimFormals :: "formals \<Rightarrow> formals"
where
  "trimExpr (ELit a) = ELit a"
| "trimExpr (EStr parts) = EStr (map trimPart parts)"
| "trimExpr (EIndStr parts) = EIndStr (map trimPart parts)"
| "trimExpr (EPathStr h parts) = EPathStr h (map trimPart parts)"
| "trimExpr (EVar x) = EVar x"
| "trimExpr (EWithVar x) = EWithVar x"
| "trimExpr (EResolvedVar level idx) = EResolvedVar level idx"
| "trimExpr (EAttrs isRec bs ci) =
     (if isRec then
        let trimmedBindings = map trimBinding bs in
        (case ci of
           NoCaptureInfo \<Rightarrow> (case trimOneRecAttrs trimmedBindings of
               Inl unchanged \<Rightarrow> EAttrs True unchanged NoCaptureInfo
             | Inr (captureList, rewrittenBindings, needsWithScopes) \<Rightarrow>
                 EAttrs True rewrittenBindings (capture_info_of captureList needsWithScopes))
         | _ \<Rightarrow> EAttrs True trimmedBindings ci)
      else EAttrs False (map trimBinding bs) NoCaptureInfo)"
| "trimExpr (EList es) = EList (map trimExpr es)"
| "trimExpr (ESelect tgt path d) =
     ESelect (trimExpr tgt) (map trimKey path) (case d of None \<Rightarrow> None | Some e \<Rightarrow> Some (trimExpr e))"
| "trimExpr (EHasAttr tgt path) = EHasAttr (trimExpr tgt) (map trimKey path)"
| "trimExpr (EApp f x) = EApp (trimExpr f) (trimExpr x)"
| "trimExpr (ELambda fs body ci) =
     (let trimmedFormals = trimFormals fs; trimmedBody = trimExpr body in
      (case ci of
         NoCaptureInfo \<Rightarrow> (case trimOneLambda trimmedFormals trimmedBody of
             Inl unchanged \<Rightarrow> unchanged
           | Inr (captureList, rewrittenFormals, rewrittenBody, needsWithScopes) \<Rightarrow>
               ELambda rewrittenFormals rewrittenBody (capture_info_of captureList needsWithScopes))
       | _ \<Rightarrow> ELambda trimmedFormals trimmedBody ci))"
| "trimExpr (ELet bs body ci) =
     (let trimmedBindings = map trimBinding bs; trimmedBody = trimExpr body in
      (case ci of
         NoCaptureInfo \<Rightarrow> (case trimOneLetBlock trimmedBindings trimmedBody of
             Inl (unchangedBindings, unchangedBody) \<Rightarrow> ELet unchangedBindings unchangedBody NoCaptureInfo
           | Inr (captureList, rewrittenBindings, rewrittenBody, needsWithScopes) \<Rightarrow>
               ELet rewrittenBindings rewrittenBody (capture_info_of captureList needsWithScopes))
       | _ \<Rightarrow> ELet trimmedBindings trimmedBody ci))"
| "trimExpr (EIf c t f) = EIf (trimExpr c) (trimExpr t) (trimExpr f)"
| "trimExpr (EWith s b) = EWith (trimExpr s) (trimExpr b)"
| "trimExpr (EAssert c b) = EAssert (trimExpr c) (trimExpr b)"
| "trimExpr (EUnary op e) = EUnary op (trimExpr e)"
| "trimExpr (EBinary op l r) = EBinary op (trimExpr l) (trimExpr r)"
| "trimExpr (ESearchPath x) = ESearchPath x"
| "trimPart (StrLit s) = StrLit s"
| "trimPart (StrEsc s) = StrEsc s"
| "trimPart (StrInterp e) = StrInterp (trimExpr e)"
| "trimKey (StaticKey x) = StaticKey x"
| "trimKey (DynamicKey e) = DynamicKey (trimExpr e)"
| "trimBinding (NamedBinding pos key e) = NamedBinding pos (trimKey key) (trimExpr e)"
| "trimBinding (Inherit pos x v) = Inherit pos x (trimExpr v)"
| "trimBinding (InheritFrom e xs) = InheritFrom (trimExpr e) xs"
| "trimFormal (Formal x d) = Formal x (case d of None \<Rightarrow> None | Some e \<Rightarrow> Some (trimExpr e))"
| "trimFormals (FormalName x) = FormalName x"
| "trimFormals (FormalSet fs el) = FormalSet (map trimFormal fs) el"
| "trimFormals (FormalNamedSet x fs el) = FormalNamedSet x (map trimFormal fs) el"
  by pat_completeness auto

termination
  by (relation "measure (\<lambda>x. case x of
      Inl (Inl e) \<Rightarrow> weight e
    | Inl (Inr (Inl p)) \<Rightarrow> part_weight p
    | Inl (Inr (Inr k)) \<Rightarrow> key_weight k
    | Inr (Inl b) \<Rightarrow> binding_weight b
    | Inr (Inr (Inl f)) \<Rightarrow> formal_weight f
    | Inr (Inr (Inr fs)) \<Rightarrow> formals_weight fs)")
    (auto simp: less_Suc_eq_le dest!: member_weights)

definition trimClosures :: "expr \<Rightarrow> expr" where
  "trimClosures e = trimExpr e"

end
