(* ===== verification/Nova_Meaning.thy ===== *)
theory Nova_Meaning
  imports Nova_Trim
begin

section \<open>What an expression means in an environment\<close>

text \<open>
  A compositional meaning for expressions, for the statement that a pass preserves it. How the parts of an
  expression combine is a parameter, the field \<open>sem_node\<close> of a \<open>semantics\<close>: an evaluator, lazy or strict, in
  any monad, is one. What is fixed is what Eval.hs does with environments: which environment each part is evaluated
  in, what a reference reads, and what a capture list keeps (\<open>buildCaptureEnv\<close>, \<open>newFrameEnv\<close>).
\<close>

subsection \<open>Environments\<close>

text \<open>The slots along the parent chain, what a lookup by name through the chain sees, and what a lookup through the
  with-scopes sees: the scopes and, past them, the root scope, which \<open>withScopesForCapture\<close> appends so that a
  captured environment sees the same. A name that an enclosing scope binds is never looked up there
  (\<open>resolveVar\<close> of Resolve.hs).\<close>

record ('v, 'n, 'w) view =
  vw_slots :: "'v list list"
  vw_names :: 'n
  vw_withs :: 'w

text \<open>A frame: its slots and its table of names.\<close>

type_synonym ('v, 'm) frame = "'v list \<times> 'm"

subsection \<open>Nodes\<close>

text \<open>An expression whose subexpressions are replaced by their meanings. Under a lambda, a \<open>let\<close> or a recursive set
  they are functions of the frame that the node makes (and may make from them: the knot of \<open>rec\<close>).\<close>

datatype (plugins only: code) 'd n_part = NLit byte_string | NEsc byte_string | NInterp 'd

datatype (plugins only: code) 'd n_key = NStatic hs_text | NDynamic 'd

datatype (plugins only: code) 'd n_binding =
    NNamed src_pos "'d n_key" 'd
  | NInherit src_pos hs_text 'd
  | NInheritFrom 'd "inherited_name list"

datatype (plugins only: code) 'd n_formal = NFormal hs_text "'d option"

datatype (plugins only: code) 'd n_formals =
    NName hs_text
  | NSetF "'d n_formal list" bool
  | NNamedSet hs_text "'d n_formal list" bool

datatype (plugins only: code) ('v, 'm, 'n, 'w, 'd) node =
    NAtom nix_atom
  | NStr "'d n_part list"
  | NIndStr "'d n_part list"
  | NPath hs_text "'d n_part list"
  | NVar hs_text "('v, 'n, 'w) view"
  | NWithVar hs_text 'w
  | NSlot 'v
  | NRec "('v, 'm) frame \<Rightarrow> 'd n_binding list"
  | NAttrs "'d n_binding list"
  | NList "'d list"
  | NSelect 'd "'d n_key list" "'d option"
  | NHasAttr 'd "'d n_key list"
  | NApp 'd 'd
  | NLambda "('v, 'm) frame \<Rightarrow> 'd n_formals" "('v, 'm) frame \<Rightarrow> 'd"
  | NLet "('v, 'm) frame \<Rightarrow> 'd n_binding list" "('v, 'm) frame \<Rightarrow> 'd"
  | NIf 'd 'd 'd
  | NWith 'd 'd
  | NAssert 'd 'd
  | NUnary unary_op 'd
  | NBinary binary_op 'd 'd
  | NSearchPath hs_text "('v, 'n, 'w) view"

text \<open>\<open>sem_dangling\<close> is what a reference past the slots reads.\<close>

record ('v, 'm, 'n, 'w, 'd) semantics =
  sem_node :: "('v, 'm, 'n, 'w, 'd) node \<Rightarrow> 'd"
  sem_with :: "'d \<Rightarrow> 'w \<Rightarrow> 'w"
  sem_names :: "'m \<Rightarrow> 'n \<Rightarrow> 'n"
  sem_no_names :: 'n
  sem_no_withs :: 'w
  sem_dangling :: 'v

definition read_slot :: "'v \<Rightarrow> 'v list list \<Rightarrow> nat \<times> nat \<Rightarrow> 'v" where
  "read_slot dangling ss r = (if fst r < length ss \<and> snd r < length (ss ! fst r) then ss ! fst r ! snd r else dangling)"

definition buildCaptureEnv :: "('v, 'm, 'n, 'w, 'd) semantics \<Rightarrow> ('v, 'n, 'w) view \<Rightarrow> capture_info \<Rightarrow> ('v, 'n, 'w) view" where
  "buildCaptureEnv S env ci = (case ci of
     NoCaptureInfo \<Rightarrow> env
   | Captures caps \<Rightarrow> \<lparr>vw_slots = [map (read_slot (sem_dangling S) (vw_slots env)) caps], vw_names = sem_no_names S,
       vw_withs = sem_no_withs S\<rparr>
   | CapturesWithScopes caps \<Rightarrow> \<lparr>vw_slots = [map (read_slot (sem_dangling S) (vw_slots env)) caps],
       vw_names = sem_no_names S, vw_withs = vw_withs env\<rparr>)"

definition push_frame :: "('v, 'm, 'n, 'w, 'd) semantics \<Rightarrow> ('v, 'm) frame \<Rightarrow> ('v, 'n, 'w) view \<Rightarrow> ('v, 'n, 'w) view" where
  "push_frame S fr env = \<lparr>vw_slots = fst fr # vw_slots env, vw_names = sem_names S (snd fr) (vw_names env),
     vw_withs = vw_withs env\<rparr>"

definition push_with :: "('v, 'm, 'n, 'w, 'd) semantics \<Rightarrow> 'd \<Rightarrow> ('v, 'n, 'w) view \<Rightarrow> ('v, 'n, 'w) view" where
  "push_with S d env = env\<lparr>vw_withs := sem_with S d (vw_withs env)\<rparr>"

subsection \<open>Meaning\<close>

function (sequential) den :: "('v, 'm, 'n, 'w, 'd) semantics \<Rightarrow> expr \<Rightarrow> ('v, 'n, 'w) view \<Rightarrow> 'd"
  and den_part :: "('v, 'm, 'n, 'w, 'd) semantics \<Rightarrow> ('v, 'n, 'w) view \<Rightarrow> string_part \<Rightarrow> 'd n_part"
  and den_key :: "('v, 'm, 'n, 'w, 'd) semantics \<Rightarrow> ('v, 'n, 'w) view \<Rightarrow> attr_key \<Rightarrow> 'd n_key"
  and den_binding :: "('v, 'm, 'n, 'w, 'd) semantics \<Rightarrow> ('v, 'n, 'w) view \<Rightarrow> ('v, 'n, 'w) view \<Rightarrow> binding \<Rightarrow> 'd n_binding"
  and den_formal :: "('v, 'm, 'n, 'w, 'd) semantics \<Rightarrow> ('v, 'n, 'w) view \<Rightarrow> formal \<Rightarrow> 'd n_formal"
  and den_formals :: "('v, 'm, 'n, 'w, 'd) semantics \<Rightarrow> ('v, 'n, 'w) view \<Rightarrow> formals \<Rightarrow> 'd n_formals"
where
  "den S (ELit a) env = sem_node S (NAtom a)"
| "den S (EStr ps) env = sem_node S (NStr (map (den_part S env) ps))"
| "den S (EIndStr ps) env = sem_node S (NIndStr (map (den_part S env) ps))"
| "den S (EPathStr h ps) env = sem_node S (NPath h (map (den_part S env) ps))"
| "den S (EVar x) env = sem_node S (NVar x env)"
| "den S (EWithVar x) env = sem_node S (NWithVar x (vw_withs env))"
| "den S (EResolvedVar level idx) env = sem_node S (NSlot (read_slot (sem_dangling S) (vw_slots env) (level, idx)))"
| "den S (EAttrs isRec bs ci) env =
     (if isRec then sem_node S (NRec (\<lambda>fr. map (den_binding S (push_frame S fr (buildCaptureEnv S env ci)) env) bs))
      else sem_node S (NAttrs (map (den_binding S env env) bs)))"
| "den S (EList es) env = sem_node S (NList (map (\<lambda>e. den S e env) es))"
| "den S (ESelect e path d) env =
     sem_node S (NSelect (den S e env) (map (den_key S env) path) (case d of None \<Rightarrow> None | Some e' \<Rightarrow> Some (den S e' env)))"
| "den S (EHasAttr e path) env = sem_node S (NHasAttr (den S e env) (map (den_key S env) path))"
| "den S (EApp f x) env = sem_node S (NApp (den S f env) (den S x env))"
| "den S (ELambda fs b ci) env = sem_node S (NLambda
     (\<lambda>fr. den_formals S (push_frame S fr (buildCaptureEnv S env ci)) fs)
     (\<lambda>fr. den S b (push_frame S fr (buildCaptureEnv S env ci))))"
| "den S (ELet bs b ci) env = sem_node S (NLet
     (\<lambda>fr. map (den_binding S (push_frame S fr (buildCaptureEnv S env ci)) env) bs)
     (\<lambda>fr. den S b (push_frame S fr (buildCaptureEnv S env ci))))"
| "den S (EIf c t e) env = sem_node S (NIf (den S c env) (den S t env) (den S e env))"
| "den S (EWith s b) env = sem_node S (NWith (den S s env) (den S b (push_with S (den S s env) env)))"
| "den S (EAssert c b) env = sem_node S (NAssert (den S c env) (den S b env))"
| "den S (EUnary op e) env = sem_node S (NUnary op (den S e env))"
| "den S (EBinary op a b) env = sem_node S (NBinary op (den S a env) (den S b env))"
| "den S (ESearchPath x) env = sem_node S (NSearchPath x env)"
| "den_part S env (StrLit s) = NLit s"
| "den_part S env (StrEsc s) = NEsc s"
| "den_part S env (StrInterp e) = NInterp (den S e env)"
| "den_key S env (StaticKey x) = NStatic x"
| "den_key S env (DynamicKey e) = NDynamic (den S e env)"
| "den_binding S env outer (NamedBinding pos k e) = NNamed pos (den_key S env k) (den S e env)"
| "den_binding S env outer (Inherit pos x v) = NInherit pos x (den S v outer)"
| "den_binding S env outer (InheritFrom e xs) = NInheritFrom (den S e env) xs"
| "den_formal S env (Formal x d) = NFormal x (case d of None \<Rightarrow> None | Some e \<Rightarrow> Some (den S e env))"
| "den_formals S env (FormalName x) = NName x"
| "den_formals S env (FormalSet fs el) = NSetF (map (den_formal S env) fs) el"
| "den_formals S env (FormalNamedSet x fs el) = NNamedSet x (map (den_formal S env) fs) el"
  by pat_completeness auto

termination
  by (relation "measure (\<lambda>x. case x of
      Inl (Inl (_, e, _)) \<Rightarrow> weight e
    | Inl (Inr (Inl (_, _, p))) \<Rightarrow> part_weight p
    | Inl (Inr (Inr (_, _, k))) \<Rightarrow> key_weight k
    | Inr (Inl (_, _, _, b)) \<Rightarrow> binding_weight b
    | Inr (Inr (Inl (_, _, f))) \<Rightarrow> formal_weight f
    | Inr (Inr (Inr (_, _, fs))) \<Rightarrow> formals_weight fs)")
    (auto simp: less_Suc_eq_le dest!: member_weights)

end
