(* ===== verification/Nova_Resolve.thy ===== *)
theory Nova_Resolve
  imports Nova_Compile
begin

section \<open>Expr/Resolve.hs: variables to slots\<close>

text \<open>
  The pass that binds every variable before anything is evaluated (src/src/Nix/Expr/Resolve.hs): a lambda's formals
  and the bindings of a scope without dynamic keys become level and slot, a name that only a \<open>with\<close> could supply
  becomes a with-variable, and one that nothing supplies fails the expression. \<open>Left\<close> is \<open>Inl\<close>.
\<close>

subsection \<open>The Either applicative\<close>

definition fmapE :: "('a \<Rightarrow> 'b) \<Rightarrow> 'e + 'a \<Rightarrow> 'e + 'b" where
  "fmapE f r = (case r of Inl x \<Rightarrow> Inl x | Inr y \<Rightarrow> Inr (f y))"

definition apE :: "'e + ('a \<Rightarrow> 'b) \<Rightarrow> 'e + 'a \<Rightarrow> 'e + 'b" where
  "apE f r = (case f of Inl x \<Rightarrow> Inl x | Inr g \<Rightarrow> fmapE g r)"

fun traverseE :: "('a \<Rightarrow> 'e + 'b) \<Rightarrow> 'a list \<Rightarrow> 'e + 'b list" where
  "traverseE f [] = Inr []"
| "traverseE f (x # xs) = apE (fmapE Cons (f x)) (traverseE f xs)"

lemma traverseE_cong [fundef_cong]:
  "xs = ys \<Longrightarrow> (\<And>x. x \<in> set ys \<Longrightarrow> f x = g x) \<Longrightarrow> traverseE f xs = traverseE g ys"
  by (induction ys arbitrary: xs) auto

subsection \<open>Scopes\<close>

datatype scope_entry =
    LexicalScope "hs_text \<Rightarrow> nat option"
  | NameBarrier "hs_text set"
  | WithBarrier

definition curPosName :: hs_text where
  "curPosName = ascii ''__curPos''"

text \<open>\<open>go\<close> of \<open>resolveVar\<close>.\<close>

fun resolve_go :: "hs_text \<Rightarrow> scope_entry list \<Rightarrow> nat \<Rightarrow> bool \<Rightarrow> hs_text + expr" where
  "resolve_go x [] level crossedWith =
     (if crossedWith then Inr (EWithVar x) else if x = curPosName then Inr (EVar x) else Inl x)"
| "resolve_go x (LexicalScope scope # rest) level crossedWith =
     (case scope x of Some idx \<Rightarrow> Inr (EResolvedVar level idx) | None \<Rightarrow> resolve_go x rest (level + 1) crossedWith)"
| "resolve_go x (NameBarrier xs # rest) level crossedWith =
     (if x \<in> xs then Inr (EVar x) else resolve_go x rest (level + 1) crossedWith)"
| "resolve_go x (WithBarrier # rest) level crossedWith = resolve_go x rest level True"

definition resolveVar :: "scope_entry list \<Rightarrow> hs_text \<Rightarrow> hs_text + expr" where
  "resolveVar fullStack x = resolve_go x fullStack 0 False"

text \<open>\<open>Map.fromList (zip names [k ..])\<close>: a later duplicate wins.\<close>

definition numbered :: "nat \<Rightarrow> hs_text list \<Rightarrow> hs_text \<Rightarrow> nat option" where
  "numbered k xs = map_of (rev (zip xs [k..<k + length xs]))"

fun fName :: "formal \<Rightarrow> hs_text" where
  "fName (Formal x d) = x"

fun lexicalScopeFromFormals :: "formals \<Rightarrow> scope_entry" where
  "lexicalScopeFromFormals (FormalName x) = LexicalScope [x \<mapsto> 0]"
| "lexicalScopeFromFormals (FormalSet fs el) = LexicalScope (numbered 0 (map fName fs))"
| "lexicalScopeFromFormals (FormalNamedSet x fs el) = LexicalScope ([x \<mapsto> 0] ++ numbered 1 (map fName fs))"

fun in_name :: "inherited_name \<Rightarrow> hs_text" where
  "in_name (InheritedName pos x) = x"

fun bindingNames :: "binding \<Rightarrow> hs_text list" where
  "bindingNames (NamedBinding pos (StaticKey x) e) = [x]"
| "bindingNames (Inherit pos x v) = [x]"
| "bindingNames (InheritFrom e xs) = map in_name xs"
| "bindingNames (NamedBinding pos (DynamicKey k) e) = []"

definition lexicalScopeFromBindings :: "binding list \<Rightarrow> scope_entry" where
  "lexicalScopeFromBindings bs = LexicalScope (numbered 0 (concat (map bindingNames bs)))"

fun addNames :: "hs_text set \<Rightarrow> binding \<Rightarrow> hs_text set" where
  "addNames acc (NamedBinding pos (StaticKey x) e) = insert x acc"
| "addNames acc (NamedBinding pos (DynamicKey k) e) = acc"
| "addNames acc (Inherit pos x v) = insert x acc"
| "addNames acc (InheritFrom e xs) = foldl (\<lambda>a n. insert n a) acc (map in_name xs)"

definition collectBindingNames :: "binding list \<Rightarrow> hs_text set" where
  "collectBindingNames bs = foldl addNames {} bs"

fun isEligible :: "binding \<Rightarrow> bool" where
  "isEligible (NamedBinding pos (StaticKey x) e) = True"
| "isEligible (Inherit pos x v) = True"
| "isEligible (InheritFrom e xs) = True"
| "isEligible (NamedBinding pos (DynamicKey k) e) = False"

definition allStaticSingleKey :: "binding list \<Rightarrow> bool" where
  "allStaticSingleKey bs = list_all isEligible bs"

subsection \<open>The walk\<close>

text \<open>\<open>scope_of_bindings\<close> is the entry that a \<open>let\<close> or a recursive set pushes, on either of its branches.\<close>

definition scope_of_bindings :: "binding list \<Rightarrow> scope_entry" where
  "scope_of_bindings bs =
     (if allStaticSingleKey bs then lexicalScopeFromBindings bs else NameBarrier (collectBindingNames bs))"

text \<open>A search path is resolved as the application it stands for (\<open>resolve_search_path\<close> below).\<close>

function (sequential) resolve :: "scope_entry list \<Rightarrow> expr \<Rightarrow> hs_text + expr"
  and resolvePart :: "scope_entry list \<Rightarrow> string_part \<Rightarrow> hs_text + string_part"
  and resolveKey :: "scope_entry list \<Rightarrow> attr_key \<Rightarrow> hs_text + attr_key"
  and resolveBinding :: "scope_entry list \<Rightarrow> binding \<Rightarrow> hs_text + binding"
  and resolveLetBinding :: "scope_entry list \<Rightarrow> scope_entry list \<Rightarrow> binding \<Rightarrow> hs_text + binding"
  and resolveFormal :: "scope_entry list \<Rightarrow> formal \<Rightarrow> hs_text + formal"
  and resolveFormalsDefaults :: "scope_entry list \<Rightarrow> formals \<Rightarrow> hs_text + formals"
where
  "resolve stack (ELit a) = Inr (ELit a)"
| "resolve stack (EStr parts) = fmapE EStr (traverseE (resolvePart stack) parts)"
| "resolve stack (EIndStr parts) = fmapE EIndStr (traverseE (resolvePart stack) parts)"
| "resolve stack (EPathStr h parts) = fmapE (EPathStr h) (traverseE (resolvePart stack) parts)"
| "resolve stack (EVar x) = resolveVar stack x"
| "resolve stack (EResolvedVar level idx) = Inr (EResolvedVar level idx)"
| "resolve stack (EAttrs isRec bs ci) =
     (if isRec then fmapE (\<lambda>resolved. EAttrs True resolved NoCaptureInfo)
        (traverseE (resolveLetBinding stack (scope_of_bindings bs # stack)) bs)
      else fmapE (\<lambda>resolved. EAttrs False resolved NoCaptureInfo) (traverseE (resolveBinding stack) bs))"
| "resolve stack (EList es) = fmapE EList (traverseE (resolve stack) es)"
| "resolve stack (ESelect tgt path d) =
     apE (apE (fmapE ESelect (resolve stack tgt)) (traverseE (resolveKey stack) path))
       (case d of None \<Rightarrow> Inr None | Some e \<Rightarrow> fmapE Some (resolve stack e))"
| "resolve stack (EHasAttr tgt path) = apE (fmapE EHasAttr (resolve stack tgt)) (traverseE (resolveKey stack) path)"
| "resolve stack (EApp f x) = apE (fmapE EApp (resolve stack f)) (resolve stack x)"
| "resolve stack (ELambda fs body ci) =
     (let newStack = lexicalScopeFromFormals fs # stack in
      apE (fmapE (\<lambda>resolvedFormals resolvedBody. ELambda resolvedFormals resolvedBody NoCaptureInfo)
        (resolveFormalsDefaults newStack fs)) (resolve newStack body))"
| "resolve stack (ELet bs body ci) =
     (let newStack = scope_of_bindings bs # stack in
      apE (fmapE (\<lambda>resolved resolvedBody. ELet resolved resolvedBody NoCaptureInfo)
        (traverseE (resolveLetBinding stack newStack) bs)) (resolve newStack body))"
| "resolve stack (EIf c t f) = apE (apE (fmapE EIf (resolve stack c)) (resolve stack t)) (resolve stack f)"
| "resolve stack (EWithVar x) = Inr (EWithVar x)"
| "resolve stack (EWith scope body) = apE (fmapE EWith (resolve stack scope)) (resolve (WithBarrier # stack) body)"
| "resolve stack (EAssert c body) = apE (fmapE EAssert (resolve stack c)) (resolve stack body)"
| "resolve stack (EUnary op e) = fmapE (EUnary op) (resolve stack e)"
| "resolve stack (EBinary op l r) = apE (fmapE (EBinary op) (resolve stack l)) (resolve stack r)"
| "resolve stack (ESearchPath x) =
     apE (fmapE EApp (apE (fmapE EApp (resolveVar stack (ascii ''__findFile''))) (resolveVar stack (ascii ''__nixPath''))))
       (fmapE EStr (Inr [StrLit x]))"
| "resolvePart stack (StrLit s) = Inr (StrLit s)"
| "resolvePart stack (StrEsc s) = Inr (StrEsc s)"
| "resolvePart stack (StrInterp e) = fmapE StrInterp (resolve stack e)"
| "resolveKey stack (StaticKey x) = Inr (StaticKey x)"
| "resolveKey stack (DynamicKey e) = fmapE DynamicKey (resolve stack e)"
| "resolveBinding stack (NamedBinding pos key e) =
     apE (fmapE (NamedBinding pos) (resolveKey stack key)) (resolve stack e)"
| "resolveBinding stack (Inherit pos x v) = fmapE (Inherit pos x) (resolve stack v)"
| "resolveBinding stack (InheritFrom e xs) = fmapE (\<lambda>r. InheritFrom r xs) (resolve stack e)"
| "resolveLetBinding outerStack innerStack (NamedBinding pos key e) =
     apE (fmapE (NamedBinding pos) (resolveKey innerStack key)) (resolve innerStack e)"
| "resolveLetBinding outerStack innerStack (InheritFrom e xs) = fmapE (\<lambda>r. InheritFrom r xs) (resolve innerStack e)"
| "resolveLetBinding outerStack innerStack (Inherit pos x v) = fmapE (Inherit pos x) (resolve outerStack v)"
| "resolveFormal stack (Formal x d) =
     fmapE (Formal x) (case d of None \<Rightarrow> Inr None | Some e \<Rightarrow> fmapE Some (resolve stack e))"
| "resolveFormalsDefaults stack (FormalName x) = Inr (FormalName x)"
| "resolveFormalsDefaults stack (FormalSet fs el) = fmapE (\<lambda>r. FormalSet r el) (traverseE (resolveFormal stack) fs)"
| "resolveFormalsDefaults stack (FormalNamedSet x fs el) =
     fmapE (\<lambda>resolved. FormalNamedSet x resolved el) (traverseE (resolveFormal stack) fs)"
  by pat_completeness auto

termination
  by (relation "measure (\<lambda>x. case x of
      Inl (Inl (_, e)) \<Rightarrow> weight e
    | Inl (Inr (Inl (_, p))) \<Rightarrow> part_weight p
    | Inl (Inr (Inr (_, k))) \<Rightarrow> key_weight k
    | Inr (Inl (Inl (_, b))) \<Rightarrow> binding_weight b
    | Inr (Inl (Inr (_, _, b))) \<Rightarrow> binding_weight b
    | Inr (Inr (Inl (_, f))) \<Rightarrow> formal_weight f
    | Inr (Inr (Inr (_, fs))) \<Rightarrow> formals_weight fs)")
    (auto simp: less_Suc_eq_le dest!: member_weights)

lemma resolve_search_path:
  "resolve stack (ESearchPath x) =
     resolve stack (EApp (EApp (EVar (ascii ''__findFile'')) (EVar (ascii ''__nixPath''))) (EStr [StrLit x]))"
  by (simp add: fmapE_def apE_def)

definition resolveVars :: "hs_text set \<Rightarrow> expr \<Rightarrow> hs_text + expr" where
  "resolveVars globals e = resolve [NameBarrier globals] e"

subsection \<open>The names bound around every expression\<close>

definition unprefixedGlobals :: "string list" where
  "unprefixedGlobals = [
    ''abort'', ''baseNameOf'', ''break'', ''builtins'', ''derivation'', ''derivationStrict'', ''dirOf'', ''false'',
    ''fetchGit'', ''fetchMercurial'', ''fetchTarball'', ''fromTOML'', ''import'', ''isNull'', ''map'', ''null'',
    ''placeholder'', ''removeAttrs'', ''scopedImport'', ''throw'', ''toString'', ''true'']"

text \<open>\<open>foldl'\<close> ends in a quote, the character 0x27.\<close>

definition prefixedGlobals :: "string list" where
  "prefixedGlobals = [
    ''add'', ''addDrvOutputDependencies'', ''addErrorContext'', ''all'', ''any'', ''appendContext'', ''attrNames'',
    ''attrValues'', ''bitAnd'', ''bitOr'', ''bitXor'', ''catAttrs'', ''ceil'', ''compareVersions'', ''concatLists'',
    ''concatMap'', ''concatStringsSep'', ''convertHash'', ''currentSystem'', ''currentTime'', ''deepSeq'', ''div'',
    ''elem'', ''elemAt'', ''fetchurl'', ''filter'', ''filterSource'', ''findFile'', ''floor'',
    (''foldl'' @ [CHR 0x27]), ''fromJSON'', ''functionArgs'', ''genList'', ''genericClosure'', ''getAttr'',
    ''getContext'', ''getEnv'', ''groupBy'', ''hasAttr'', ''hasContext'', ''hashFile'', ''hashString'', ''head'',
    ''intersectAttrs'', ''isAttrs'', ''isBool'', ''isFloat'', ''isFunction'', ''isInt'', ''isList'', ''isPath'',
    ''isString'', ''langVersion'', ''length'', ''lessThan'', ''listToAttrs'', ''mapAttrs'', ''match'', ''mul'',
    ''nixPath'', ''nixVersion'', ''parseDrvName'', ''partition'', ''path'', ''pathExists'', ''readDir'',
    ''readFile'', ''readFileType'', ''replaceStrings'', ''seq'', ''sort'', ''split'', ''splitVersion'', ''storeDir'',
    ''storePath'', ''stringLength'', ''sub'', ''substring'', ''tail'', ''toFile'', ''toJSON'', ''toPath'', ''toXML'',
    ''trace'', ''traceVerbose'', ''tryEval'', ''typeOf'', ''unsafeDiscardOutputDependency'',
    ''unsafeDiscardStringContext'', ''unsafeGetAttrPos'', ''warn'', ''zipAttrsWith'']"

definition staticGlobalNames :: "hs_text set" where
  "staticGlobalNames = set (map (map of_char) (unprefixedGlobals @ map (append ''__'') prefixedGlobals))"

definition impureOnlyGlobalNames :: "hs_text set" where
  "impureOnlyGlobalNames = set (map (map of_char) [''__currentSystem'', ''__currentTime''])"

lemma impureOnly_are_global: "impureOnlyGlobalNames \<subseteq> staticGlobalNames"
  by (simp add: impureOnlyGlobalNames_def staticGlobalNames_def prefixedGlobals_def)

end
