(* ===== verification/Nova_Names.thy ===== *)
theory Nova_Names
  imports Nova_Meaning Nova_Resolve
begin

section \<open>Static scoping\<close>

text \<open>
  What an expression of the source means: its variables are names, and a scope is a map from the names that the
  enclosing lambdas, \<open>let\<close>s and recursive sets bind. There are no levels and no slots here but in the frame that a
  node makes, whose values are bound to the node's names in their order; the last of two equal names wins. This is
  the reference for \<open>resolveVars\<close>.
\<close>

text \<open>A bound name stands for a value, or is looked up by name at run time.\<close>

datatype 'v named = Bound 'v | AtRuntime

type_synonym 'v scope = "hs_text \<Rightarrow> 'v named option"

definition frame_value :: "'v \<Rightarrow> 'v list \<Rightarrow> nat \<Rightarrow> 'v" where
  "frame_value dangling vs i = (if i < length vs then vs ! i else dangling)"

definition bind_names :: "'v \<Rightarrow> hs_text list \<Rightarrow> 'v list \<Rightarrow> 'v scope \<Rightarrow> 'v scope" where
  "bind_names dangling xs vs \<rho> = \<rho>(xs [\<mapsto>] map (\<lambda>i. Bound (frame_value dangling vs i)) [0..<length xs])"

fun formals_names :: "formals \<Rightarrow> hs_text list" where
  "formals_names (FormalName x) = [x]"
| "formals_names (FormalSet fs el) = map fName fs"
| "formals_names (FormalNamedSet x fs el) = x # map fName fs"

text \<open>With a dynamic key the names of a scope are not known before it is evaluated.\<close>

definition bind_bindings :: "'v \<Rightarrow> binding list \<Rightarrow> 'v list \<Rightarrow> 'v scope \<Rightarrow> 'v scope" where
  "bind_bindings dangling bs vs \<rho> =
     (if list_all isEligible bs then bind_names dangling (concat (map bindingNames bs)) vs \<rho>
      else (\<lambda>x. if x \<in> set (concat (map bindingNames bs)) then Some AtRuntime else \<rho> x))"

text \<open>A name in scope; failing that, under a \<open>with\<close>, a with-variable.\<close>

definition variable :: "('v, 'm, 'n, 'w, 'd) semantics \<Rightarrow> 'v scope \<Rightarrow> bool \<Rightarrow> hs_text \<Rightarrow> ('v, 'n, 'w) view \<Rightarrow> 'd" where
  "variable S \<rho> in_with x env = (case \<rho> x of
     Some (Bound v) \<Rightarrow> sem_node S (NSlot v)
   | Some AtRuntime \<Rightarrow> sem_node S (NVar x env)
   | None \<Rightarrow> if in_with then sem_node S (NWithVar x (vw_withs env)) else sem_node S (NVar x env))"

function (sequential) nden :: "('v, 'm, 'n, 'w, 'd) semantics \<Rightarrow> 'v scope \<Rightarrow> bool \<Rightarrow> expr \<Rightarrow> ('v, 'n, 'w) view \<Rightarrow> 'd"
  and nden_part :: "('v, 'm, 'n, 'w, 'd) semantics \<Rightarrow> 'v scope \<Rightarrow> bool \<Rightarrow> ('v, 'n, 'w) view \<Rightarrow> string_part \<Rightarrow> 'd n_part"
  and nden_key :: "('v, 'm, 'n, 'w, 'd) semantics \<Rightarrow> 'v scope \<Rightarrow> bool \<Rightarrow> ('v, 'n, 'w) view \<Rightarrow> attr_key \<Rightarrow> 'd n_key"
  and nden_binding :: "('v, 'm, 'n, 'w, 'd) semantics \<Rightarrow> 'v scope \<Rightarrow> 'v scope \<Rightarrow> bool \<Rightarrow> ('v, 'n, 'w) view \<Rightarrow> ('v, 'n, 'w) view \<Rightarrow>
      binding \<Rightarrow> 'd n_binding"
  and nden_formal :: "('v, 'm, 'n, 'w, 'd) semantics \<Rightarrow> 'v scope \<Rightarrow> bool \<Rightarrow> ('v, 'n, 'w) view \<Rightarrow> formal \<Rightarrow> 'd n_formal"
  and nden_formals :: "('v, 'm, 'n, 'w, 'd) semantics \<Rightarrow> 'v scope \<Rightarrow> bool \<Rightarrow> ('v, 'n, 'w) view \<Rightarrow> formals \<Rightarrow> 'd n_formals"
where
  "nden S \<rho> w (ELit a) env = sem_node S (NAtom a)"
| "nden S \<rho> w (EStr ps) env = sem_node S (NStr (map (nden_part S \<rho> w env) ps))"
| "nden S \<rho> w (EIndStr ps) env = sem_node S (NIndStr (map (nden_part S \<rho> w env) ps))"
| "nden S \<rho> w (EPathStr h ps) env = sem_node S (NPath h (map (nden_part S \<rho> w env) ps))"
| "nden S \<rho> w (EVar x) env = variable S \<rho> w x env"
| "nden S \<rho> w (EWithVar x) env = sem_node S (NWithVar x (vw_withs env))"
| "nden S \<rho> w (EResolvedVar level idx) env = sem_node S (NSlot (read_slot (sem_dangling S) (vw_slots env) (level, idx)))"
| "nden S \<rho> w (EAttrs isRec bs ci) env =
     (if isRec then sem_node S (NRec (\<lambda>fr.
        map (nden_binding S (bind_bindings (sem_dangling S) bs (fst fr) \<rho>) \<rho> w (push_frame S fr env) env) bs))
      else sem_node S (NAttrs (map (nden_binding S \<rho> \<rho> w env env) bs)))"
| "nden S \<rho> w (EList es) env = sem_node S (NList (map (\<lambda>e. nden S \<rho> w e env) es))"
| "nden S \<rho> w (ESelect e path d) env = sem_node S (NSelect (nden S \<rho> w e env) (map (nden_key S \<rho> w env) path)
     (case d of None \<Rightarrow> None | Some e' \<Rightarrow> Some (nden S \<rho> w e' env)))"
| "nden S \<rho> w (EHasAttr e path) env = sem_node S (NHasAttr (nden S \<rho> w e env) (map (nden_key S \<rho> w env) path))"
| "nden S \<rho> w (EApp f x) env = sem_node S (NApp (nden S \<rho> w f env) (nden S \<rho> w x env))"
| "nden S \<rho> w (ELambda fs b ci) env = sem_node S (NLambda
     (\<lambda>fr. nden_formals S (bind_names (sem_dangling S) (formals_names fs) (fst fr) \<rho>) w (push_frame S fr env) fs)
     (\<lambda>fr. nden S (bind_names (sem_dangling S) (formals_names fs) (fst fr) \<rho>) w b (push_frame S fr env)))"
| "nden S \<rho> w (ELet bs b ci) env = sem_node S (NLet
     (\<lambda>fr. map (nden_binding S (bind_bindings (sem_dangling S) bs (fst fr) \<rho>) \<rho> w (push_frame S fr env) env) bs)
     (\<lambda>fr. nden S (bind_bindings (sem_dangling S) bs (fst fr) \<rho>) w b (push_frame S fr env)))"
| "nden S \<rho> w (EIf c t e) env = sem_node S (NIf (nden S \<rho> w c env) (nden S \<rho> w t env) (nden S \<rho> w e env))"
| "nden S \<rho> w (EWith s b) env =
     sem_node S (NWith (nden S \<rho> w s env) (nden S \<rho> True b (push_with S (nden S \<rho> w s env) env)))"
| "nden S \<rho> w (EAssert c b) env = sem_node S (NAssert (nden S \<rho> w c env) (nden S \<rho> w b env))"
| "nden S \<rho> w (EUnary op e) env = sem_node S (NUnary op (nden S \<rho> w e env))"
| "nden S \<rho> w (EBinary op a b) env = sem_node S (NBinary op (nden S \<rho> w a env) (nden S \<rho> w b env))"
| "nden S \<rho> w (ESearchPath x) env =
     sem_node S (NApp (sem_node S (NApp (variable S \<rho> w (ascii ''__findFile'') env) (variable S \<rho> w (ascii ''__nixPath'') env)))
       (sem_node S (NStr [NLit x])))"
| "nden_part S \<rho> w env (StrLit s) = NLit s"
| "nden_part S \<rho> w env (StrEsc s) = NEsc s"
| "nden_part S \<rho> w env (StrInterp e) = NInterp (nden S \<rho> w e env)"
| "nden_key S \<rho> w env (StaticKey x) = NStatic x"
| "nden_key S \<rho> w env (DynamicKey e) = NDynamic (nden S \<rho> w e env)"
| "nden_binding S \<rho> \<rho>o w env outer (NamedBinding pos k e) = NNamed pos (nden_key S \<rho> w env k) (nden S \<rho> w e env)"
| "nden_binding S \<rho> \<rho>o w env outer (Inherit pos x v) = NInherit pos x (nden S \<rho>o w v outer)"
| "nden_binding S \<rho> \<rho>o w env outer (InheritFrom e xs) = NInheritFrom (nden S \<rho> w e env) xs"
| "nden_formal S \<rho> w env (Formal x d) = NFormal x (case d of None \<Rightarrow> None | Some e \<Rightarrow> Some (nden S \<rho> w e env))"
| "nden_formals S \<rho> w env (FormalName x) = NName x"
| "nden_formals S \<rho> w env (FormalSet fs el) = NSetF (map (nden_formal S \<rho> w env) fs) el"
| "nden_formals S \<rho> w env (FormalNamedSet x fs el) = NNamedSet x (map (nden_formal S \<rho> w env) fs) el"
  by pat_completeness auto

termination
  by (relation "measure (\<lambda>x. case x of
      Inl (Inl (_, _, _, e, _)) \<Rightarrow> weight e
    | Inl (Inr (Inl (_, _, _, _, p))) \<Rightarrow> part_weight p
    | Inl (Inr (Inr (_, _, _, _, k))) \<Rightarrow> key_weight k
    | Inr (Inl (_, _, _, _, _, _, b)) \<Rightarrow> binding_weight b
    | Inr (Inr (Inl (_, _, _, _, f))) \<Rightarrow> formal_weight f
    | Inr (Inr (Inr (_, _, _, _, fs))) \<Rightarrow> formals_weight fs)")
    (auto simp: less_Suc_eq_le dest!: member_weights)

subsection \<open>Names that nothing binds\<close>

text \<open>In the order of the walk, with the names bound around the expression and whether a \<open>with\<close> encloses it.\<close>

definition unbound_name :: "hs_text set \<Rightarrow> bool \<Rightarrow> hs_text \<Rightarrow> hs_text list" where
  "unbound_name N in_with x = (if x \<in> N \<or> in_with \<or> x = curPosName then [] else [x])"

abbreviation (input) names_with :: "binding list \<Rightarrow> hs_text set \<Rightarrow> hs_text set" where
  "names_with bs N \<equiv> set (concat (map bindingNames bs)) \<union> N"

function (sequential) unbound :: "hs_text set \<Rightarrow> bool \<Rightarrow> expr \<Rightarrow> hs_text list"
  and unbound_part :: "hs_text set \<Rightarrow> bool \<Rightarrow> string_part \<Rightarrow> hs_text list"
  and unbound_key :: "hs_text set \<Rightarrow> bool \<Rightarrow> attr_key \<Rightarrow> hs_text list"
  and unbound_binding :: "hs_text set \<Rightarrow> hs_text set \<Rightarrow> bool \<Rightarrow> binding \<Rightarrow> hs_text list"
  and unbound_formal :: "hs_text set \<Rightarrow> bool \<Rightarrow> formal \<Rightarrow> hs_text list"
  and unbound_formals :: "hs_text set \<Rightarrow> bool \<Rightarrow> formals \<Rightarrow> hs_text list"
where
  "unbound N w (EStr ps) = concat (map (unbound_part N w) ps)"
| "unbound N w (EIndStr ps) = concat (map (unbound_part N w) ps)"
| "unbound N w (EPathStr h ps) = concat (map (unbound_part N w) ps)"
| "unbound N w (EVar x) = unbound_name N w x"
| "unbound N w (EAttrs isRec bs ci) =
     concat (map (unbound_binding (if isRec then names_with bs N else N) N w) bs)"
| "unbound N w (EList es) = concat (map (unbound N w) es)"
| "unbound N w (ESelect e path d) =
     unbound N w e @ concat (map (unbound_key N w) path) @ (case d of None \<Rightarrow> [] | Some e' \<Rightarrow> unbound N w e')"
| "unbound N w (EHasAttr e path) = unbound N w e @ concat (map (unbound_key N w) path)"
| "unbound N w (EApp f x) = unbound N w f @ unbound N w x"
| "unbound N w (ELambda fs b ci) =
     unbound_formals (set (formals_names fs) \<union> N) w fs @ unbound (set (formals_names fs) \<union> N) w b"
| "unbound N w (ELet bs b ci) = concat (map (unbound_binding (names_with bs N) N w) bs) @ unbound (names_with bs N) w b"
| "unbound N w (EIf c t e) = unbound N w c @ unbound N w t @ unbound N w e"
| "unbound N w (EWith s b) = unbound N w s @ unbound N True b"
| "unbound N w (EAssert c b) = unbound N w c @ unbound N w b"
| "unbound N w (EUnary op e) = unbound N w e"
| "unbound N w (EBinary op a b) = unbound N w a @ unbound N w b"
| "unbound N w (ESearchPath x) = unbound_name N w (ascii ''__findFile'') @ unbound_name N w (ascii ''__nixPath'')"
| "unbound N w e = []"
| "unbound_part N w (StrInterp e) = unbound N w e"
| "unbound_part N w p = []"
| "unbound_key N w (DynamicKey e) = unbound N w e"
| "unbound_key N w k = []"
| "unbound_binding N No w (NamedBinding pos k e) = unbound_key N w k @ unbound N w e"
| "unbound_binding N No w (Inherit pos x v) = unbound No w v"
| "unbound_binding N No w (InheritFrom e xs) = unbound N w e"
| "unbound_formal N w (Formal x d) = (case d of None \<Rightarrow> [] | Some e \<Rightarrow> unbound N w e)"
| "unbound_formals N w (FormalName x) = []"
| "unbound_formals N w (FormalSet fs el) = concat (map (unbound_formal N w) fs)"
| "unbound_formals N w (FormalNamedSet x fs el) = concat (map (unbound_formal N w) fs)"
  by pat_completeness auto

termination
  by (relation "measure (\<lambda>x. case x of
      Inl (Inl (_, _, e)) \<Rightarrow> weight e
    | Inl (Inr (Inl (_, _, p))) \<Rightarrow> part_weight p
    | Inl (Inr (Inr (_, _, k))) \<Rightarrow> key_weight k
    | Inr (Inl (_, _, _, b)) \<Rightarrow> binding_weight b
    | Inr (Inr (Inl (_, _, f))) \<Rightarrow> formal_weight f
    | Inr (Inr (Inr (_, _, fs))) \<Rightarrow> formals_weight fs)")
    (auto simp: less_Suc_eq_le dest!: member_weights)

end
