(* ===== verification/Nova_Trim_Free.thy ===== *)
theory Nova_Trim_Free
  imports Nova_Meaning
begin

section \<open>Free variables and renumbering\<close>

text \<open>What the folds compute, and how renumbering changes the references of an expression: what has no reference past
  some depth is left alone, and what is renumbered refers to nothing past the captured slots.\<close>

subsection \<open>Folds\<close>

lemma join_free_simps [simp]:
  "fst (join_free a b) = fst a \<union> fst b"
  "fst (snd (join_free a b)) \<longleftrightarrow> fst (snd a) \<or> fst (snd b)"
  "snd (snd (join_free a b)) \<longleftrightarrow> snd (snd a) \<or> snd (snd b)"
  by (simp_all add: join_free_def)

lemma foldFree_simps [simp]:
  "fst (foldFree f xs) = (\<Union>x \<in> set xs. fst (f x))"
  "fst (snd (foldFree f xs)) \<longleftrightarrow> (\<exists>x \<in> set xs. fst (snd (f x)))"
  "snd (snd (foldFree f xs)) \<longleftrightarrow> (\<exists>x \<in> set xs. snd (snd (f x)))"
proof -
  have gen: "fst (foldl (\<lambda>acc x. join_free acc (f x)) a xs) = fst a \<union> (\<Union>x \<in> set xs. fst (f x)) \<and>
      (fst (snd (foldl (\<lambda>acc x. join_free acc (f x)) a xs)) \<longleftrightarrow> fst (snd a) \<or> (\<exists>x \<in> set xs. fst (snd (f x)))) \<and>
      (snd (snd (foldl (\<lambda>acc x. join_free acc (f x)) a xs)) \<longleftrightarrow> snd (snd a) \<or> (\<exists>x \<in> set xs. snd (snd (f x))))" for a
    by (induction xs arbitrary: a) auto
  show "fst (foldFree f xs) = (\<Union>x \<in> set xs. fst (f x))"
    "fst (snd (foldFree f xs)) \<longleftrightarrow> (\<exists>x \<in> set xs. fst (snd (f x)))"
    "snd (snd (foldFree f xs)) \<longleftrightarrow> (\<exists>x \<in> set xs. snd (snd (f x)))"
    using gen [of no_free] by (simp_all add: foldFree_def)
qed

text \<open>No reference past the depth.\<close>

abbreviation (input) bound :: "free \<Rightarrow> bool" where
  "bound f \<equiv> fst f = {}"

lemma capturesFree_bound: "bound (capturesFree d NoCaptureInfo)"
  "bound (capturesFree d (Captures caps)) \<longleftrightarrow> (\<forall>c \<in> set caps. fst c \<le> d)"
  "bound (capturesFree d (CapturesWithScopes caps)) \<longleftrightarrow> (\<forall>c \<in> set caps. fst c \<le> d)"
  by (auto simp: capturesFree_def filter_empty_conv not_less)

lemma rewriteCaptures_bound: "bound (capturesFree k ci) \<Longrightarrow> k \<le> d \<Longrightarrow> rewriteCaptures d cm ci = ci"
  by (cases ci) (auto simp: capturesFree_bound rewriteCaptures_def rewriteOne_def intro!: map_idI split: prod.splits)

lemma rewriteCaptures_none [simp]: "rewriteCaptures d cm NoCaptureInfo = NoCaptureInfo"
  by (simp add: rewriteCaptures_def)

subsection \<open>What is left alone\<close>

text \<open>One statement for each kind of syntax; a binding's inherited variable has a depth of its own.\<close>

lemma unchanged:
  "\<forall>k d. bound (collectFreeVars k e) \<longrightarrow> k \<le> d \<longrightarrow> rewriteBody d cm e = e"
  "\<forall>k d. bound (collectPart k p) \<longrightarrow> k \<le> d \<longrightarrow> rewritePart d cm p = p"
  "\<forall>k d. bound (collectKey k q) \<longrightarrow> k \<le> d \<longrightarrow> rewriteKey d cm q = q"
  "\<forall>k d ko ou. bound (collectBinding k ko b) \<longrightarrow> k \<le> d \<longrightarrow>
     (case ko of None \<Rightarrow> ou = None | Some k' \<Rightarrow> (\<exists>d' \<ge> k'. ou = Some d')) \<longrightarrow> rewriteBinding d ou cm b = b"
  "\<forall>k d. bound (collectFormal k f) \<longrightarrow> k \<le> d \<longrightarrow> rewriteFormal d cm f = f"
  "\<forall>k d. bound (foldFormalsDefaults k fs) \<longrightarrow> k \<le> d \<longrightarrow> rewriteFormals d cm fs = fs"
proof (induction e and p and q and b and f and fs)
  case (EAttrs r bs ci)
  show ?case
  proof (intro allI impI)
    fix k d assume a: "bound (collectFreeVars k (EAttrs r bs ci))" "k \<le> d"
    show "rewriteBody d cm (EAttrs r bs ci) = EAttrs r bs ci"
    proof (cases r)
      case True
      have "rewriteBinding (d + 1) (Some d) cm b = b" if "b \<in> set bs" for b
        using EAttrs [OF that, rule_format, of "k + 1" "Some k" "d + 1" "Some d"] a that True by simp
      then show ?thesis using a True rewriteCaptures_bound [of k ci d] by (simp add: map_idI)
    next
      case False
      have "rewriteBinding d (Some d) cm b = b" if "b \<in> set bs" for b
        using EAttrs [OF that, rule_format, of k "Some k" d "Some d"] a that False by simp
      then show ?thesis using False by (simp add: map_idI)
    qed
  qed
next
  case (ELet bs e ci)
  show ?case
  proof (intro allI impI)
    fix k d assume a: "bound (collectFreeVars k (ELet bs e ci))" "k \<le> d"
    have "rewriteBinding (d + 1) (Some d) cm b = b" if "b \<in> set bs" for b
      using ELet(1) [OF that, rule_format, of "k + 1" "Some k" "d + 1" "Some d"] a that by simp
    then show "rewriteBody d cm (ELet bs e ci) = ELet bs e ci"
      using a ELet(2) [rule_format, of "k + 1" "d + 1"] rewriteCaptures_bound [of k ci d] by (simp add: map_idI)
  qed
next
  case (ELambda fs e ci)
  show ?case
  proof (intro allI impI)
    fix k d assume a: "bound (collectFreeVars k (ELambda fs e ci))" "k \<le> d"
    then show "rewriteBody d cm (ELambda fs e ci) = ELambda fs e ci"
      using ELambda(1) [rule_format, of "k + 1" "d + 1"] ELambda(2) [rule_format, of "k + 1" "d + 1"]
        rewriteCaptures_bound [of k ci d] by simp
  qed
next
  case (EResolvedVar level idx)
  then show ?case by simp
next
  case (ESelect e ks d)
  then show ?case by (auto intro!: map_idI split: option.splits)
next
  case (Inherit pos x e)
  then show ?case by (auto split: option.splits)
next
  case (Formal x d)
  then show ?case by (auto split: option.splits)
qed (auto intro!: map_idI)

lemmas unchangedD = unchanged [rule_format]

subsection \<open>What is renumbered\<close>

lemma rewriteOne_after:
  assumes "lvl > d \<longrightarrow> (lvl - d - 1, idx) \<in> dom cm"
  shows "fst (rewriteOne d cm (lvl, idx)) \<le> Suc d"
  using assms by (auto simp: rewriteOne_def)

lemma rewriteCaptures_after:
  assumes "fst (capturesFree d ci) \<subseteq> dom cm"
  shows "bound (capturesFree (Suc d) (rewriteCaptures d cm ci))"
proof (cases ci)
  case NoCaptureInfo
  then show ?thesis by (simp add: capturesFree_def)
next
  case (Captures caps)
  have "fst (rewriteOne d cm c) \<le> Suc d" if "c \<in> set caps" for c
    using rewriteOne_after [of d "fst c" "snd c" cm] assms that by (force simp: Captures capturesFree_def)
  then show ?thesis by (simp add: Captures rewriteCaptures_def capturesFree_bound)
next
  case (CapturesWithScopes caps)
  have "fst (rewriteOne d cm c) \<le> Suc d" if "c \<in> set caps" for c
    using rewriteOne_after [of d "fst c" "snd c" cm] assms that by (force simp: CapturesWithScopes capturesFree_def)
  then show ?thesis by (simp add: CapturesWithScopes rewriteCaptures_def capturesFree_bound)
qed

lemma renumbered:
  "\<forall>d. fst (collectFreeVars d e) \<subseteq> dom cm \<longrightarrow> bound (collectFreeVars (Suc d) (rewriteBody d cm e))"
  "\<forall>d. fst (collectPart d p) \<subseteq> dom cm \<longrightarrow> bound (collectPart (Suc d) (rewritePart d cm p))"
  "\<forall>d. fst (collectKey d q) \<subseteq> dom cm \<longrightarrow> bound (collectKey (Suc d) (rewriteKey d cm q))"
  "\<forall>d ou. fst (collectBinding d ou b) \<subseteq> dom cm \<longrightarrow>
     bound (collectBinding (Suc d) (map_option Suc ou) (rewriteBinding d ou cm b))"
  "\<forall>d. fst (collectFormal d f) \<subseteq> dom cm \<longrightarrow> bound (collectFormal (Suc d) (rewriteFormal d cm f))"
  "\<forall>d. fst (foldFormalsDefaults d fs) \<subseteq> dom cm \<longrightarrow> bound (foldFormalsDefaults (Suc d) (rewriteFormals d cm fs))"
proof (induction e and p and q and b and f and fs)
  case (EAttrs r bs ci)
  show ?case
  proof (intro allI impI)
    fix d assume a: "fst (collectFreeVars d (EAttrs r bs ci)) \<subseteq> dom cm"
    show "bound (collectFreeVars (Suc d) (rewriteBody d cm (EAttrs r bs ci)))"
    proof (cases r)
      case True
      have "bound (collectBinding (Suc (Suc d)) (Some (Suc d)) (rewriteBinding (Suc d) (Some d) cm b))" if "b \<in> set bs" for b
        using EAttrs [OF that, rule_format, of "Suc d" "Some d"] a that True by auto
      then show ?thesis using a True rewriteCaptures_after [of d ci cm] by auto
    next
      case False
      have "bound (collectBinding (Suc d) (Some (Suc d)) (rewriteBinding d (Some d) cm b))" if "b \<in> set bs" for b
        using EAttrs [OF that, rule_format, of d "Some d"] a that False by auto
      then show ?thesis using False by auto
    qed
  qed
next
  case (ELet bs e ci)
  show ?case
  proof (intro allI impI)
    fix d assume a: "fst (collectFreeVars d (ELet bs e ci)) \<subseteq> dom cm"
    have "bound (collectBinding (Suc (Suc d)) (Some (Suc d)) (rewriteBinding (Suc d) (Some d) cm b))" if "b \<in> set bs" for b
      using ELet(1) [OF that, rule_format, of "Suc d" "Some d"] a that by auto
    then show "bound (collectFreeVars (Suc d) (rewriteBody d cm (ELet bs e ci)))"
      using a ELet(2) [rule_format, of "Suc d"] rewriteCaptures_after [of d ci cm] by auto
  qed
next
  case (ELambda fs e ci)
  show ?case
  proof (intro allI impI)
    fix d assume a: "fst (collectFreeVars d (ELambda fs e ci)) \<subseteq> dom cm"
    then show "bound (collectFreeVars (Suc d) (rewriteBody d cm (ELambda fs e ci)))"
      using ELambda(1) [rule_format, of "Suc d"] ELambda(2) [rule_format, of "Suc d"] rewriteCaptures_after [of d ci cm] by simp
  qed
next
  case (EResolvedVar level idx)
  then show ?case by (auto split: option.splits)
next
  case (ESelect e ks d)
  then show ?case by (cases d) (auto simp: UN_subset_iff)
next
  case (Inherit pos x e)
  then show ?case by (auto split: option.splits)
next
  case (Formal x d)
  then show ?case by (auto split: option.splits)
qed (auto simp: UN_subset_iff)

lemmas renumberedD = renumbered [rule_format]

end
