(* ===== verification/Nova_Trim_Spec.thy ===== *)
theory Nova_Trim_Spec
  imports Nova_Trim_Free
begin

section \<open>Trimming keeps the meaning\<close>

text \<open>
  Trimming by induction on the expression: renumbered references find in the trimmed environment what the
  originals found in the full one.
\<close>

subsection \<open>Trimmed expressions\<close>

text \<open>An expression in which every scope with captures refers to nothing past its own frame and the captured slots,
  and in which no search path is left (Resolve.hs turns one into an application).\<close>

function (sequential) trimmed :: "expr \<Rightarrow> bool" and trimmed_part :: "string_part \<Rightarrow> bool" and trimmed_key :: "attr_key \<Rightarrow> bool"
  and trimmed_binding :: "binding \<Rightarrow> bool" and trimmed_formal :: "formal \<Rightarrow> bool" and trimmed_formals :: "formals \<Rightarrow> bool"
where
  "trimmed (ELit a) = True"
| "trimmed (EStr ps) = list_all trimmed_part ps"
| "trimmed (EIndStr ps) = list_all trimmed_part ps"
| "trimmed (EPathStr h ps) = list_all trimmed_part ps"
| "trimmed (EVar x) = True"
| "trimmed (EWithVar x) = True"
| "trimmed (EResolvedVar level idx) = True"
| "trimmed (EAttrs r bs ci) = (list_all trimmed_binding bs \<and>
     (r \<and> ci \<noteq> NoCaptureInfo \<longrightarrow> list_all (\<lambda>b. bound (collectBinding 1 None b)) bs))"
| "trimmed (EList es) = list_all trimmed es"
| "trimmed (ESelect e ks d) = (trimmed e \<and> list_all trimmed_key ks \<and> (case d of None \<Rightarrow> True | Some e' \<Rightarrow> trimmed e'))"
| "trimmed (EHasAttr e ks) = (trimmed e \<and> list_all trimmed_key ks)"
| "trimmed (EApp f x) = (trimmed f \<and> trimmed x)"
| "trimmed (ELambda fs b ci) = (trimmed_formals fs \<and> trimmed b \<and>
     (ci \<noteq> NoCaptureInfo \<longrightarrow> bound (foldFormalsDefaults 1 fs) \<and> bound (collectFreeVars 1 b)))"
| "trimmed (ELet bs b ci) = (list_all trimmed_binding bs \<and> trimmed b \<and>
     (ci \<noteq> NoCaptureInfo \<longrightarrow> list_all (\<lambda>b. bound (collectBinding 1 None b)) bs \<and> bound (collectFreeVars 1 b)))"
| "trimmed (EIf c t e) = (trimmed c \<and> trimmed t \<and> trimmed e)"
| "trimmed (EWith s b) = (trimmed s \<and> trimmed b)"
| "trimmed (EAssert c b) = (trimmed c \<and> trimmed b)"
| "trimmed (EUnary op e) = trimmed e"
| "trimmed (EBinary op a b) = (trimmed a \<and> trimmed b)"
| "trimmed (ESearchPath x) = False"
| "trimmed_part (StrInterp e) = trimmed e"
| "trimmed_part _ = True"
| "trimmed_key (DynamicKey e) = trimmed e"
| "trimmed_key _ = True"
| "trimmed_binding (NamedBinding pos k e) = (trimmed_key k \<and> trimmed e)"
| "trimmed_binding (Inherit pos x e) = trimmed e"
| "trimmed_binding (InheritFrom e xs) = trimmed e"
| "trimmed_formal (Formal x d) = (case d of None \<Rightarrow> True | Some e \<Rightarrow> trimmed e)"
| "trimmed_formals (FormalName x) = True"
| "trimmed_formals (FormalSet fs el) = list_all trimmed_formal fs"
| "trimmed_formals (FormalNamedSet x fs el) = list_all trimmed_formal fs"
  by pat_completeness auto

termination
  by (relation "measure (\<lambda>x. case x of
      Inl (Inl e) \<Rightarrow> weight e
    | Inl (Inr (Inl p)) \<Rightarrow> part_weight p
    | Inl (Inr (Inr k)) \<Rightarrow> key_weight k
    | Inr (Inl b) \<Rightarrow> binding_weight b
    | Inr (Inr (Inl f)) \<Rightarrow> formal_weight f
    | Inr (Inr (Inr fs)) \<Rightarrow> formals_weight fs)")
    (auto simp: less_Suc_eq_le dest!: member_weights)

lemma binding_still: "bound (collectBinding (Suc 0) None b) \<Longrightarrow> bound (collectBinding (Suc 0) None (rewriteBinding (Suc d) ou cm b))"
  using unchangedD(1) [of "Suc 0" _ "Suc d" cm] unchangedD(3) [of "Suc 0" _ "Suc d" cm] by (cases b) simp_all

lemma trimmed_rewrite:
  "\<forall>d. trimmed e \<longrightarrow> trimmed (rewriteBody d cm e)"
  "\<forall>d. trimmed_part p \<longrightarrow> trimmed_part (rewritePart d cm p)"
  "\<forall>d. trimmed_key q \<longrightarrow> trimmed_key (rewriteKey d cm q)"
  "\<forall>d ou. trimmed_binding b \<longrightarrow> trimmed_binding (rewriteBinding d ou cm b)"
  "\<forall>d. trimmed_formal f \<longrightarrow> trimmed_formal (rewriteFormal d cm f)"
  "\<forall>d. trimmed_formals fs \<longrightarrow> trimmed_formals (rewriteFormals d cm fs)"
proof (induction e and p and q and b and f and fs)
  case (EAttrs r bs ci)
  have "rewriteCaptures d cm ci = NoCaptureInfo \<longleftrightarrow> ci = NoCaptureInfo" for d
    by (cases ci) (simp_all add: rewriteCaptures_def)
  then show ?case using EAttrs binding_still by (simp add: list_all_iff)
next
  case (ELambda fs e ci)
  have "rewriteCaptures d cm ci = NoCaptureInfo \<longleftrightarrow> ci = NoCaptureInfo" for d
    by (cases ci) (simp_all add: rewriteCaptures_def)
  then show ?case using ELambda unchangedD(1) [of 1 e "Suc _" cm] unchangedD(6) [of 1 fs "Suc _" cm] by simp
next
  case (ELet bs e ci)
  have "rewriteCaptures d cm ci = NoCaptureInfo \<longleftrightarrow> ci = NoCaptureInfo" for d
    by (cases ci) (simp_all add: rewriteCaptures_def)
  then show ?case using ELet unchangedD(1) [of 1 e "Suc _" cm] by (simp add: list_all_iff binding_still)
next
  case (EResolvedVar level idx)
  then show ?case by (simp split: option.splits)
next
  case (ESelect e ks d)
  then show ?case by (cases d) (auto simp: list_all_iff)
next
  case (Inherit pos x e)
  then show ?case by (auto split: option.splits)
next
  case (Formal x d)
  then show ?case by (auto split: option.splits)
qed (auto simp: list_all_iff)

lemmas trimmed_rewriteD = trimmed_rewrite [rule_format]

subsection \<open>Renumbering keeps the meaning\<close>

text \<open>Two environments under \<open>d + 1\<close> common frames, the second over nothing but the captured slots of the first.\<close>

definition related :: "('v, 'm, 'n, 'w, 'd) semantics \<Rightarrow> (nat \<times> nat) list \<Rightarrow> nat \<Rightarrow>
    ('v, 'n, 'w) view \<Rightarrow> ('v, 'n, 'w) view \<Rightarrow> bool" where
  "related S caps d env env' \<longleftrightarrow> (\<exists>fs os. length fs = Suc d \<and> vw_slots env = fs @ os \<and>
     vw_slots env' = fs @ [map (read_slot (sem_dangling S) os) caps])"

lemma related_push: "related S caps d env env' \<Longrightarrow> related S caps (Suc d) (push_frame S fr env) (push_frame S fr env')"
  unfolding related_def push_frame_def by (metis append_Cons length_Cons view.select_convs(1))

lemma related_with: "related S caps d env env' \<Longrightarrow> related S caps d (push_with S x env) (push_with S x' env')"
  by (simp add: related_def push_with_def)

text \<open>All references are captured, none is by name, and if one is to the with-scopes then these are the same.\<close>

definition covers :: "(nat \<times> nat) list \<Rightarrow> free \<Rightarrow> 'w \<Rightarrow> 'w \<Rightarrow> bool" where
  "covers caps f w w' \<longleftrightarrow> fst f \<subseteq> set caps \<and> \<not> fst (snd f) \<and> (snd (snd f) \<longrightarrow> w' = w)"

lemma covers_join [simp]: "covers caps (join_free a b) w w' \<longleftrightarrow> covers caps a w w' \<and> covers caps b w w'"
  by (auto simp: covers_def)

lemma covers_fold [simp]: "covers caps (foldFree f xs) w w' \<longleftrightarrow> (\<forall>x \<in> set xs. covers caps (f x) w w')"
  by (auto simp: covers_def)

lemma capture_map_of_captured:
  assumes "r \<in> set caps"
  obtains k where "capture_map_of caps r = Some k" and "k < length caps" and "caps ! k = r"
proof -
  have "fst ` set (zip caps [0..<length caps]) = set caps" by (simp flip: set_map)
  then obtain k where k: "capture_map_of caps r = Some k"
    using assms by (cases "capture_map_of caps r") (simp_all add: capture_map_of_def map_of_eq_None_iff)
  then have "(r, k) \<in> set (zip caps [0..<length caps])" by (auto simp: capture_map_of_def dest: map_of_SomeD)
  then have "k < length caps" "caps ! k = r" by (auto simp: set_zip)
  then show ?thesis using that k by blast
qed

lemma read_slot_related:
  assumes "related S caps d env env'" and "fst r > d \<longrightarrow> (fst r - d - 1, snd r) \<in> set caps"
  shows "read_slot (sem_dangling S) (vw_slots env') (rewriteOne d (capture_map_of caps) r) =
    read_slot (sem_dangling S) (vw_slots env) r"
proof -
  obtain fs os where f: "length fs = Suc d" "vw_slots env = fs @ os"
    "vw_slots env' = fs @ [map (read_slot (sem_dangling S) os) caps]" using assms(1) by (auto simp: related_def)
  obtain lvl idx where r: "r = (lvl, idx)" by (cases r)
  show ?thesis
  proof (cases "lvl > d")
    case True
    then have "(lvl - d - 1, idx) \<in> set caps" using assms(2) r by simp
    then obtain k where k: "capture_map_of caps (lvl - d - 1, idx) = Some k" "k < length caps" "caps ! k = (lvl - d - 1, idx)"
      by (rule capture_map_of_captured)
    have "read_slot (sem_dangling S) (vw_slots env') (Suc d, k) = read_slot (sem_dangling S) os (lvl - d - 1, idx)"
      using f k(2,3) by (simp add: read_slot_def [of _ "fs @ _"] nth_append)
    also have "\<dots> = read_slot (sem_dangling S) (vw_slots env) r"
      using f(1,2) True by (auto simp: read_slot_def r nth_append)
    finally show ?thesis using True k(1) by (simp add: rewriteOne_def r)
  next
    case False
    then show ?thesis using f by (simp add: rewriteOne_def r read_slot_def nth_append)
  qed
qed

lemma capture_same:
  assumes "related S caps d env env'" and "covers caps (capturesFree d ci) (vw_withs env) (vw_withs env')" and "ci \<noteq> NoCaptureInfo"
  shows "buildCaptureEnv S env' (rewriteCaptures d (capture_map_of caps) ci) = buildCaptureEnv S env ci"
proof -
  have m: "map (read_slot (sem_dangling S) (vw_slots env')) (map (rewriteOne d (capture_map_of caps)) cs) =
      map (read_slot (sem_dangling S) (vw_slots env)) cs"
    if "\<forall>c \<in> set cs. fst c > d \<longrightarrow> (fst c - d - 1, snd c) \<in> set caps" for cs
    using read_slot_related [OF assms(1)] that by simp
  show ?thesis
  proof (cases ci)
    case (Captures cs)
    have "\<forall>c \<in> set cs. fst c > d \<longrightarrow> (fst c - d - 1, snd c) \<in> set caps"
      using assms(2) by (force simp: covers_def capturesFree_def Captures)
    from m [OF this] show ?thesis by (simp add: Captures rewriteCaptures_def buildCaptureEnv_def)
  next
    case (CapturesWithScopes cs)
    have "\<forall>c \<in> set cs. fst c > d \<longrightarrow> (fst c - d - 1, snd c) \<in> set caps" "vw_withs env' = vw_withs env"
      using assms(2) by (force simp: covers_def capturesFree_def CapturesWithScopes)+
    with m [OF this(1)] show ?thesis by (simp add: CapturesWithScopes rewriteCaptures_def buildCaptureEnv_def)
  qed (simp add: assms(3))
qed

text \<open>A binding is read in the environment of its scope and an inherited variable in the one around it, which is
  related as well, or, when the scope is the one being trimmed, the same. Under a scope that is trimmed already the
  environments are equal and only the inherited variables change.\<close>

definition binding_kept :: "('v, 'm, 'n, 'w, 'd) semantics \<Rightarrow> (nat \<times> nat) list \<Rightarrow> binding \<Rightarrow> bool" where
  "binding_kept S caps b \<longleftrightarrow> (\<forall>d outer outer'. trimmed_binding b \<longrightarrow>
     (\<forall>ou env env'. related S caps d env env' \<longrightarrow>
        (case ou of None \<Rightarrow> outer' = outer | Some k \<Rightarrow> related S caps k outer outer' \<and>
           vw_withs outer = vw_withs env \<and> vw_withs outer' = vw_withs env') \<longrightarrow>
        covers caps (collectBinding d ou b) (vw_withs env) (vw_withs env') \<longrightarrow>
        den_binding S env' outer' (rewriteBinding d ou (capture_map_of caps) b) = den_binding S env outer b) \<and>
     (\<forall>env. related S caps d outer outer' \<longrightarrow> bound (collectBinding 1 None b) \<longrightarrow>
        covers caps (collectBinding (Suc d) (Some d) b) (vw_withs outer) (vw_withs outer') \<longrightarrow>
        den_binding S env outer' (rewriteBinding (Suc d) (Some d) (capture_map_of caps) b) = den_binding S env outer b))"

lemma binding_keptD:
  assumes "binding_kept S caps b" and "trimmed_binding b"
  shows "related S caps d env env' \<Longrightarrow> covers caps (collectBinding d None b) (vw_withs env) (vw_withs env') \<Longrightarrow>
      den_binding S env' outer (rewriteBinding d None (capture_map_of caps) b) = den_binding S env outer b"
    and "related S caps d env env' \<Longrightarrow> covers caps (collectBinding d (Some k) b) (vw_withs env) (vw_withs env') \<Longrightarrow>
      related S caps k outer outer' \<Longrightarrow> vw_withs outer = vw_withs env \<Longrightarrow> vw_withs outer' = vw_withs env' \<Longrightarrow>
      den_binding S env' outer' (rewriteBinding d (Some k) (capture_map_of caps) b) = den_binding S env outer b"
    and "related S caps d outer outer' \<Longrightarrow> bound (collectBinding 1 None b) \<Longrightarrow>
      covers caps (collectBinding (Suc d) (Some d) b) (vw_withs outer) (vw_withs outer') \<Longrightarrow>
      den_binding S env outer' (rewriteBinding (Suc d) (Some d) (capture_map_of caps) b) = den_binding S env outer b"
proof -
  note k = assms(1) [unfolded binding_kept_def, rule_format, OF assms(2)]
  show "related S caps d env env' \<Longrightarrow> covers caps (collectBinding d None b) (vw_withs env) (vw_withs env') \<Longrightarrow>
      den_binding S env' outer (rewriteBinding d None (capture_map_of caps) b) = den_binding S env outer b"
    using k [THEN conjunct1, rule_format, where d = d and ou = None and outer = outer and outer' = outer] by simp
  show "related S caps d env env' \<Longrightarrow> covers caps (collectBinding d (Some k) b) (vw_withs env) (vw_withs env') \<Longrightarrow>
      related S caps k outer outer' \<Longrightarrow> vw_withs outer = vw_withs env \<Longrightarrow> vw_withs outer' = vw_withs env' \<Longrightarrow>
      den_binding S env' outer' (rewriteBinding d (Some k) (capture_map_of caps) b) = den_binding S env outer b"
    using k [THEN conjunct1, rule_format, where d = d and ou = "Some k" and outer = outer and outer' = outer'] by simp
  show "related S caps d outer outer' \<Longrightarrow> bound (collectBinding 1 None b) \<Longrightarrow>
      covers caps (collectBinding (Suc d) (Some d) b) (vw_withs outer) (vw_withs outer') \<Longrightarrow>
      den_binding S env outer' (rewriteBinding (Suc d) (Some d) (capture_map_of caps) b) = den_binding S env outer b"
    using k [THEN conjunct2, rule_format, where d = d and outer = outer and outer' = outer'] by simp
qed

lemma push_frame_withs [simp]: "vw_withs (push_frame S fr env) = vw_withs env"
  by (simp add: push_frame_def)

lemma scope_kept:
  assumes kept: "\<forall>b \<in> set bs. binding_kept S caps b" and tr: "list_all trimmed_binding bs"
    and rel: "related S caps d env env'"
    and inner: "ci \<noteq> NoCaptureInfo \<Longrightarrow> list_all (\<lambda>b. bound (collectBinding 1 None b)) bs"
    and cov: "covers caps (foldFree (collectBinding (Suc d) (Some d)) bs) (vw_withs env) (vw_withs env')"
    and cap: "covers caps (capturesFree d ci) (vw_withs env) (vw_withs env')"
  shows "map (den_binding S (push_frame S fr (buildCaptureEnv S env' (rewriteCaptures d (capture_map_of caps) ci))) env')
      (map (rewriteBinding (Suc d) (Some d) (capture_map_of caps)) bs) =
    map (den_binding S (push_frame S fr (buildCaptureEnv S env ci)) env) bs"
proof (cases "ci = NoCaptureInfo")
  case True
  have "den_binding S (push_frame S fr env') env' (rewriteBinding (Suc d) (Some d) (capture_map_of caps) b) =
      den_binding S (push_frame S fr env) env b" if "b \<in> set bs" for b
    by (rule binding_keptD(2)) (use that kept tr rel cov in \<open>auto simp: list_all_iff intro: related_push\<close>)
  then show ?thesis by (simp add: True buildCaptureEnv_def)
next
  case False
  have "den_binding S e env' (rewriteBinding (Suc d) (Some d) (capture_map_of caps) b) = den_binding S e env b"
    if "b \<in> set bs" for b e
    by (rule binding_keptD(3)) (use that kept tr rel cov inner [OF False] in \<open>auto simp: list_all_iff\<close>)
  then show ?thesis by (simp add: capture_same [OF rel cap False])
qed

text \<open>One statement for each kind of syntax.\<close>

lemma renumbering_keeps:
  fixes S :: "('v, 'm, 'n, 'w, 'd) semantics"
  shows
  "\<forall>d env env'. related S caps d env env' \<longrightarrow> trimmed e \<longrightarrow>
     covers caps (collectFreeVars d e) (vw_withs env) (vw_withs env') \<longrightarrow>
     den S (rewriteBody d (capture_map_of caps) e) env' = den S e env"
  "\<forall>d env env'. related S caps d env env' \<longrightarrow> trimmed_part p \<longrightarrow>
     covers caps (collectPart d p) (vw_withs env) (vw_withs env') \<longrightarrow>
     den_part S env' (rewritePart d (capture_map_of caps) p) = den_part S env p"
  "\<forall>d env env'. related S caps d env env' \<longrightarrow> trimmed_key q \<longrightarrow>
     covers caps (collectKey d q) (vw_withs env) (vw_withs env') \<longrightarrow>
     den_key S env' (rewriteKey d (capture_map_of caps) q) = den_key S env q"
  "binding_kept S caps b"
  "\<forall>d env env'. related S caps d env env' \<longrightarrow> trimmed_formal f \<longrightarrow>
     covers caps (collectFormal d f) (vw_withs env) (vw_withs env') \<longrightarrow>
     den_formal S env' (rewriteFormal d (capture_map_of caps) f) = den_formal S env f"
  "\<forall>d env env'. related S caps d env env' \<longrightarrow> trimmed_formals fs \<longrightarrow>
     covers caps (foldFormalsDefaults d fs) (vw_withs env) (vw_withs env') \<longrightarrow>
     den_formals S env' (rewriteFormals d (capture_map_of caps) fs) = den_formals S env fs"
proof (induction e and p and q and b and f and fs)
  case (EAttrs r bs ci)
  show ?case
  proof (intro allI impI)
    fix d env env'
    assume a: "related S caps d env env'" "trimmed (EAttrs r bs ci)"
      "covers caps (collectFreeVars d (EAttrs r bs ci)) (vw_withs env) (vw_withs env')"
    show "den S (rewriteBody d (capture_map_of caps) (EAttrs r bs ci)) env' = den S (EAttrs r bs ci) env"
    proof (cases r)
      case True
      then show ?thesis using scope_kept [of bs S caps d env env' ci] a EAttrs by (simp del: map_map)
    next
      case False
      have "den_binding S env' env' (rewriteBinding d (Some d) (capture_map_of caps) b) = den_binding S env env b"
        if "b \<in> set bs" for b
        by (rule binding_keptD(2)) (use that EAttrs a False in \<open>auto simp: list_all_iff\<close>)
      then show ?thesis using False by (simp cong: map_cong)
    qed
  qed
next
  case (ELet bs e ci)
  show ?case
  proof (intro allI impI)
    fix d env env'
    assume a: "related S caps d env env'" "trimmed (ELet bs e ci)"
      "covers caps (collectFreeVars d (ELet bs e ci)) (vw_withs env) (vw_withs env')"
    have "den S (rewriteBody (Suc d) (capture_map_of caps) e)
        (push_frame S fr (buildCaptureEnv S env' (rewriteCaptures d (capture_map_of caps) ci))) =
      den S e (push_frame S fr (buildCaptureEnv S env ci))" for fr
    proof (cases "ci = NoCaptureInfo")
      case True
      then show ?thesis using ELet(2) a related_push [OF a(1)] by (simp add: buildCaptureEnv_def)
    next
      case False
      then show ?thesis using a capture_same [OF a(1) _ False] unchangedD(1) [of 1 e "Suc d"] by simp
    qed
    then show "den S (rewriteBody d (capture_map_of caps) (ELet bs e ci)) env' = den S (ELet bs e ci) env"
      using scope_kept [of bs S caps d env env' ci] a ELet(1) by (simp del: map_map)
  qed
next
  case (ELambda fs e ci)
  show ?case
  proof (intro allI impI)
    fix d env env'
    assume a: "related S caps d env env'" "trimmed (ELambda fs e ci)"
      "covers caps (collectFreeVars d (ELambda fs e ci)) (vw_withs env) (vw_withs env')"
    show "den S (rewriteBody d (capture_map_of caps) (ELambda fs e ci)) env' = den S (ELambda fs e ci) env"
    proof (cases "ci = NoCaptureInfo")
      case True
      have "den_formals S (push_frame S fr env') (rewriteFormals (Suc d) (capture_map_of caps) fs) =
          den_formals S (push_frame S fr env) fs" for fr
        by (rule ELambda(1) [rule_format]) (use a in \<open>simp_all add: related_push\<close>)
      moreover have "den S (rewriteBody (Suc d) (capture_map_of caps) e) (push_frame S fr env') = den S e (push_frame S fr env)" for fr
        by (rule ELambda(2) [rule_format]) (use a in \<open>simp_all add: related_push\<close>)
      ultimately show ?thesis by (simp add: True buildCaptureEnv_def)
    next
      case False
      then show ?thesis
        using a capture_same [OF a(1) _ False] unchangedD(1) [of 1 e "Suc d"] unchangedD(6) [of 1 fs "Suc d"] by simp
    qed
  qed
next
  case (EWith s e)
  show ?case
  proof (intro allI impI)
    fix d env env'
    assume a: "related S caps d env env'" "trimmed (EWith s e)"
      "covers caps (collectFreeVars d (EWith s e)) (vw_withs env) (vw_withs env')"
    have s: "den S (rewriteBody d (capture_map_of caps) s) env' = den S s env" using EWith(1) a by simp
    have "covers caps (collectFreeVars d e) (vw_withs (push_with S (den S s env) env)) (vw_withs (push_with S (den S s env) env'))"
      using a(3) by (auto simp: covers_def push_with_def)
    then have "den S (rewriteBody d (capture_map_of caps) e) (push_with S (den S s env) env') = den S e (push_with S (den S s env) env)"
      using EWith(2) [rule_format, OF related_with [OF a(1)]] a(2) by simp
    then show "den S (rewriteBody d (capture_map_of caps) (EWith s e)) env' = den S (EWith s e) env" using s by simp
  qed
next
  case (EVar x)
  then show ?case by (simp add: covers_def)
next
  case (EWithVar x)
  then show ?case by (simp add: covers_def)
next
  case (EResolvedVar level idx)
  show ?case
  proof (intro allI impI)
    fix d env env'
    assume a: "related S caps d env env'"
      "covers caps (collectFreeVars d (EResolvedVar level idx)) (vw_withs env) (vw_withs env')"
    then have r: "level > d \<longrightarrow> (level - d - 1, idx) \<in> set caps" by (auto simp: covers_def)
    have "rewriteBody d (capture_map_of caps) (EResolvedVar level idx) =
        (case rewriteOne d (capture_map_of caps) (level, idx) of (l, i) \<Rightarrow> EResolvedVar l i)"
      by (simp add: rewriteOne_def split: option.splits)
    then show "den S (rewriteBody d (capture_map_of caps) (EResolvedVar level idx)) env' = den S (EResolvedVar level idx) env"
      using read_slot_related [OF a(1), of "(level, idx)"] r by (simp split: prod.splits)
  qed
next
  case (ESelect e ks d)
  then show ?case by (cases d) (auto simp: list_all_iff cong: map_cong)
next
  case (NamedBinding pos k e)
  then show ?case
    unfolding binding_kept_def using unchangedD(1) [of 1 e "Suc _"] unchangedD(3) [of 1 k "Suc _"] by (simp split: option.splits)
next
  case (Inherit pos x e)
  then show ?case unfolding binding_kept_def by (simp split: option.splits)
next
  case (InheritFrom e xs)
  then show ?case
    unfolding binding_kept_def using unchangedD(1) [of 1 e "Suc _"] by (simp split: option.splits)
next
  case (Formal x d)
  then show ?case by (auto split: option.splits)
qed (auto simp: list_all_iff cong: map_cong)

lemmas renumbering_keepsD = renumbering_keeps [rule_format]

subsection \<open>The pass\<close>

text \<open>What the parser makes and name resolution leaves: no scope has captures yet.\<close>

function (sequential) fresh :: "expr \<Rightarrow> bool" and fresh_part :: "string_part \<Rightarrow> bool" and fresh_key :: "attr_key \<Rightarrow> bool"
  and fresh_binding :: "binding \<Rightarrow> bool" and fresh_formal :: "formal \<Rightarrow> bool" and fresh_formals :: "formals \<Rightarrow> bool"
where
  "fresh (EStr ps) = list_all fresh_part ps"
| "fresh (EIndStr ps) = list_all fresh_part ps"
| "fresh (EPathStr h ps) = list_all fresh_part ps"
| "fresh (EAttrs r bs ci) = (ci = NoCaptureInfo \<and> list_all fresh_binding bs)"
| "fresh (EList es) = list_all fresh es"
| "fresh (ESelect e ks d) = (fresh e \<and> list_all fresh_key ks \<and> (case d of None \<Rightarrow> True | Some e' \<Rightarrow> fresh e'))"
| "fresh (EHasAttr e ks) = (fresh e \<and> list_all fresh_key ks)"
| "fresh (EApp f x) = (fresh f \<and> fresh x)"
| "fresh (ELambda fs b ci) = (ci = NoCaptureInfo \<and> fresh_formals fs \<and> fresh b)"
| "fresh (ELet bs b ci) = (ci = NoCaptureInfo \<and> list_all fresh_binding bs \<and> fresh b)"
| "fresh (EIf c t e) = (fresh c \<and> fresh t \<and> fresh e)"
| "fresh (EWith s b) = (fresh s \<and> fresh b)"
| "fresh (EAssert c b) = (fresh c \<and> fresh b)"
| "fresh (EUnary op e) = fresh e"
| "fresh (EBinary op a b) = (fresh a \<and> fresh b)"
| "fresh (ESearchPath x) = False"
| "fresh e = True"
| "fresh_part (StrInterp e) = fresh e"
| "fresh_part p = True"
| "fresh_key (DynamicKey e) = fresh e"
| "fresh_key k = True"
| "fresh_binding (NamedBinding pos k e) = (fresh_key k \<and> fresh e)"
| "fresh_binding (Inherit pos x e) = fresh e"
| "fresh_binding (InheritFrom e xs) = fresh e"
| "fresh_formal (Formal x d) = (case d of None \<Rightarrow> True | Some e \<Rightarrow> fresh e)"
| "fresh_formals (FormalName x) = True"
| "fresh_formals (FormalSet fs el) = list_all fresh_formal fs"
| "fresh_formals (FormalNamedSet x fs el) = list_all fresh_formal fs"
  by pat_completeness auto

termination
  by (relation "measure (\<lambda>x. case x of
      Inl (Inl e) \<Rightarrow> weight e
    | Inl (Inr (Inl p)) \<Rightarrow> part_weight p
    | Inl (Inr (Inr k)) \<Rightarrow> key_weight k
    | Inr (Inl b) \<Rightarrow> binding_weight b
    | Inr (Inr (Inl f)) \<Rightarrow> formal_weight f
    | Inr (Inr (Inr fs)) \<Rightarrow> formals_weight fs)")
    (auto simp: less_Suc_eq_le dest!: member_weights)

lemma free_finite:
  "\<forall>d. finite (fst (collectFreeVars d e))"
  "\<forall>d. finite (fst (collectPart d p))"
  "\<forall>d. finite (fst (collectKey d q))"
  "\<forall>d ou. finite (fst (collectBinding d ou b))"
  "\<forall>d. finite (fst (collectFormal d f))"
  "\<forall>d. finite (fst (foldFormalsDefaults d fs))"
  by (induction e and p and q and b and f and fs) (auto simp: capturesFree_def split: option.splits capture_info.splits)

lemmas free_finiteD [simp] = free_finite [rule_format]

lemma capture_list_set: "finite vs \<Longrightarrow> set (capture_list vs) = vs"
  by (simp add: capture_list_def)

text \<open>What each scope's trimming returns.\<close>

lemma trimOneLambda_cases:
  obtains "trimOneLambda fs b = Inl (ELambda fs b NoCaptureInfo)"
  | caps w where "trimOneLambda fs b = Inr (caps, rewriteFormals 0 (capture_map_of caps) fs, rewriteBody 0 (capture_map_of caps) b, w)"
    "set caps = fst (collectFreeVars 0 b) \<union> fst (foldFormalsDefaults 0 fs)"
    "\<not> fst (snd (collectFreeVars 0 b))" "\<not> fst (snd (foldFormalsDefaults 0 fs))"
    "w \<longleftrightarrow> snd (snd (collectFreeVars 0 b)) \<or> snd (snd (foldFormalsDefaults 0 fs))"
proof (cases "fst (snd (collectFreeVars 0 b)) \<or> fst (snd (foldFormalsDefaults 0 fs)) \<or>
    (fst (collectFreeVars 0 b) \<union> fst (foldFormalsDefaults 0 fs) = {} \<and>
      \<not> (snd (snd (collectFreeVars 0 b)) \<or> snd (snd (foldFormalsDefaults 0 fs))))")
  case True
  then show ?thesis using that(1) by (auto simp: trimOneLambda_def Let_def split_def)
next
  case False
  then show ?thesis using that(2) capture_list_set
    by (auto simp: trimOneLambda_def Let_def split_def)
qed

lemma trimOneLetBlock_cases:
  obtains "trimOneLetBlock bs b = Inl (bs, b)"
  | caps w where "trimOneLetBlock bs b =
      Inr (caps, map (rewriteBinding 0 None (capture_map_of caps)) bs, rewriteBody 0 (capture_map_of caps) b, w)"
    "set caps = fst (foldFree (collectBinding 0 None) bs) \<union> fst (collectFreeVars 0 b)"
    "\<not> fst (snd (foldFree (collectBinding 0 None) bs))" "\<not> fst (snd (collectFreeVars 0 b))"
    "w \<longleftrightarrow> snd (snd (foldFree (collectBinding 0 None) bs)) \<or> snd (snd (collectFreeVars 0 b))"
proof (cases "fst (snd (foldFree (collectBinding 0 None) bs)) \<or> fst (snd (collectFreeVars 0 b)) \<or>
    (fst (foldFree (collectBinding 0 None) bs) \<union> fst (collectFreeVars 0 b) = {} \<and>
      \<not> (snd (snd (foldFree (collectBinding 0 None) bs)) \<or> snd (snd (collectFreeVars 0 b))))")
  case True
  then show ?thesis using that(1) by (auto simp: trimOneLetBlock_def Let_def split_def simp del: foldFree_simps)
next
  case False
  let ?vs = "fst (foldFree (collectBinding 0 None) bs) \<union> fst (collectFreeVars 0 b)"
  have "finite ?vs" by simp
  then have "set (capture_list ?vs) = ?vs" by (rule capture_list_set)
  then show ?thesis using False
    by (intro that(2) [of "capture_list ?vs"]) (simp_all only: trimOneLetBlock_def Let_def split_def, simp_all)
qed

lemma trimOneRecAttrs_cases:
  obtains "trimOneRecAttrs bs = Inl bs"
  | caps w where "trimOneRecAttrs bs = Inr (caps, map (rewriteBinding 0 None (capture_map_of caps)) bs, w)"
    "set caps = fst (foldFree (collectBinding 0 None) bs)"
    "\<not> fst (snd (foldFree (collectBinding 0 None) bs))"
    "w \<longleftrightarrow> snd (snd (foldFree (collectBinding 0 None) bs))"
proof (cases "fst (snd (foldFree (collectBinding 0 None) bs)) \<or>
    (fst (foldFree (collectBinding 0 None) bs) = {} \<and> \<not> snd (snd (foldFree (collectBinding 0 None) bs)))")
  case True
  then show ?thesis using that(1) by (auto simp: trimOneRecAttrs_def Let_def split_def simp del: foldFree_simps)
next
  case False
  let ?vs = "fst (foldFree (collectBinding 0 None) bs)"
  have "finite ?vs" by simp
  then have "set (capture_list ?vs) = ?vs" by (rule capture_list_set)
  then show ?thesis using False
    by (intro that(2) [of "capture_list ?vs"]) (simp_all only: trimOneRecAttrs_def Let_def split_def, simp_all)
qed

text \<open>The environment with the captures of a scope, and the one without.\<close>

lemma related_captured:
  "related S caps 0 (push_frame S fr env) (push_frame S fr (buildCaptureEnv S env (capture_info_of caps w)))"
  unfolding related_def
  by (rule exI [of _ "[fst fr]"], rule exI [of _ "vw_slots env"]) (simp add: push_frame_def buildCaptureEnv_def capture_info_of_def)

lemma covers_captured:
  assumes "fst f \<subseteq> set caps" and "\<not> fst (snd f)" and "snd (snd f) \<longrightarrow> w"
  shows "covers caps f (vw_withs (push_frame S fr env)) (vw_withs (push_frame S fr (buildCaptureEnv S env (capture_info_of caps w))))"
  using assms by (auto simp: covers_def buildCaptureEnv_def capture_info_of_def)

lemma dom_capture_map [simp]: "dom (capture_map_of caps) = set caps"
proof -
  have "fst ` set (zip caps [0..<length caps]) = set caps" by (simp flip: set_map)
  then show ?thesis by (simp add: capture_map_of_def dom_map_of_conv_image_fst)
qed

lemma capture_info_of_some [simp]: "capture_info_of caps w \<noteq> NoCaptureInfo"
  by (simp add: capture_info_of_def)

text \<open>The bindings of a scope that is trimmed.\<close>

lemma bindings_captured:
  assumes tr: "list_all trimmed_binding bs" and sub: "fst (foldFree (collectBinding 0 None) bs) \<subseteq> set caps"
    and ev: "\<not> fst (snd (foldFree (collectBinding 0 None) bs))"
    and wi: "snd (snd (foldFree (collectBinding 0 None) bs)) \<longrightarrow> w"
  shows "list_all trimmed_binding (map (rewriteBinding 0 None (capture_map_of caps)) bs)"
    and "list_all (\<lambda>b. bound (collectBinding 1 None b)) (map (rewriteBinding 0 None (capture_map_of caps)) bs)"
    and "map (den_binding S (push_frame S fr (buildCaptureEnv S env (capture_info_of caps w))) env)
        (map (rewriteBinding 0 None (capture_map_of caps)) bs) = map (den_binding S (push_frame S fr env) env) bs"
proof -
  show "list_all trimmed_binding (map (rewriteBinding 0 None (capture_map_of caps)) bs)"
    using tr trimmed_rewriteD(4) by (auto simp: list_all_iff)
  have "bound (collectBinding (Suc 0) None (rewriteBinding 0 None (capture_map_of caps) b))" if "b \<in> set bs" for b
    using renumberedD(4) [of 0 None b "capture_map_of caps"] sub that by auto
  then show "list_all (\<lambda>b. bound (collectBinding 1 None b)) (map (rewriteBinding 0 None (capture_map_of caps)) bs)"
    by (simp add: list_all_iff)
  have "den_binding S (push_frame S fr (buildCaptureEnv S env (capture_info_of caps w))) env
      (rewriteBinding 0 None (capture_map_of caps) b) = den_binding S (push_frame S fr env) env b" if "b \<in> set bs" for b
  proof (rule binding_keptD(1) [OF renumbering_keepsD(4) _ related_captured])
    show "trimmed_binding b" using tr that by (simp add: list_all_iff)
    show "covers caps (collectBinding 0 None b) (vw_withs (push_frame S fr env))
        (vw_withs (push_frame S fr (buildCaptureEnv S env (capture_info_of caps w))))"
      by (rule covers_captured) (use that sub ev wi in auto)
  qed
  then show "map (den_binding S (push_frame S fr (buildCaptureEnv S env (capture_info_of caps w))) env)
        (map (rewriteBinding 0 None (capture_map_of caps)) bs) = map (den_binding S (push_frame S fr env) env) bs"
    by simp
qed

lemma body_captured:
  assumes "trimmed e" and "fst (collectFreeVars 0 e) \<subseteq> set caps" and "\<not> fst (snd (collectFreeVars 0 e))"
    and "snd (snd (collectFreeVars 0 e)) \<longrightarrow> w"
  shows "trimmed (rewriteBody 0 (capture_map_of caps) e)" and "bound (collectFreeVars 1 (rewriteBody 0 (capture_map_of caps) e))"
    and "den S (rewriteBody 0 (capture_map_of caps) e) (push_frame S fr (buildCaptureEnv S env (capture_info_of caps w))) =
      den S e (push_frame S fr env)"
  using assms trimmed_rewriteD(1) renumberedD(1) [of 0 e "capture_map_of caps"]
    renumbering_keepsD(1) [OF related_captured _ covers_captured] by simp_all

lemma formals_captured:
  assumes "trimmed_formals fs" and "fst (foldFormalsDefaults 0 fs) \<subseteq> set caps" and "\<not> fst (snd (foldFormalsDefaults 0 fs))"
    and "snd (snd (foldFormalsDefaults 0 fs)) \<longrightarrow> w"
  shows "trimmed_formals (rewriteFormals 0 (capture_map_of caps) fs)"
    and "bound (foldFormalsDefaults 1 (rewriteFormals 0 (capture_map_of caps) fs))"
    and "den_formals S (push_frame S fr (buildCaptureEnv S env (capture_info_of caps w))) (rewriteFormals 0 (capture_map_of caps) fs) =
      den_formals S (push_frame S fr env) fs"
  using assms trimmed_rewriteD(6) renumberedD(6) [of 0 fs "capture_map_of caps"]
    renumbering_keepsD(6) [OF related_captured _ covers_captured] by simp_all

lemma buildCaptureEnv_none [simp]: "buildCaptureEnv S env NoCaptureInfo = env"
  by (simp add: buildCaptureEnv_def)

lemma trimming_keeps:
  fixes S :: "('v, 'm, 'n, 'w, 'd) semantics"
  shows
  "fresh e \<longrightarrow> trimmed (trimExpr e) \<and> (\<forall>env. den S (trimExpr e) env = den S e env)"
  "fresh_part p \<longrightarrow> trimmed_part (trimPart p) \<and> (\<forall>env. den_part S env (trimPart p) = den_part S env p)"
  "fresh_key q \<longrightarrow> trimmed_key (trimKey q) \<and> (\<forall>env. den_key S env (trimKey q) = den_key S env q)"
  "fresh_binding b \<longrightarrow> trimmed_binding (trimBinding b) \<and>
     (\<forall>env outer. den_binding S env outer (trimBinding b) = den_binding S env outer b)"
  "fresh_formal f \<longrightarrow> trimmed_formal (trimFormal f) \<and> (\<forall>env. den_formal S env (trimFormal f) = den_formal S env f)"
  "fresh_formals fs \<longrightarrow> trimmed_formals (trimFormals fs) \<and> (\<forall>env. den_formals S env (trimFormals fs) = den_formals S env fs)"
proof (induction e and p and q and b and f and fs)
  case (EAttrs r bs ci)
  show ?case
  proof
    assume "fresh (EAttrs r bs ci)"
    then have a: "ci = NoCaptureInfo" "list_all trimmed_binding (map trimBinding bs)"
      "map (den_binding S env outer) (map trimBinding bs) = map (den_binding S env outer) bs" for env outer
      using EAttrs by (auto simp: list_all_iff)
    show "trimmed (trimExpr (EAttrs r bs ci)) \<and> (\<forall>env. den S (trimExpr (EAttrs r bs ci)) env = den S (EAttrs r bs ci) env)"
    proof (cases r)
      case True
      show ?thesis
      proof (cases rule: trimOneRecAttrs_cases [of "map trimBinding bs"])
        case 1
        then show ?thesis using a True by (simp add: Let_def del: map_map)
      next
        case (2 caps w)
        note c = bindings_captured(1,2) [OF a(2), of caps w] bindings_captured(3) [OF a(2), where caps = caps and w = w and S = S]
        show ?thesis using a(1,3) True 2 c by (simp add: Let_def del: map_map)
      qed
    next
      case False
      then show ?thesis using a by (simp del: map_map)
    qed
  qed
next
  case (ELambda fs e ci)
  show ?case
  proof
    assume "fresh (ELambda fs e ci)"
    then have a: "ci = NoCaptureInfo" "trimmed_formals (trimFormals fs)" "trimmed (trimExpr e)"
      "den_formals S env (trimFormals fs) = den_formals S env fs" "den S (trimExpr e) env = den S e env" for env
      using ELambda by simp_all
    show "trimmed (trimExpr (ELambda fs e ci)) \<and> (\<forall>env. den S (trimExpr (ELambda fs e ci)) env = den S (ELambda fs e ci) env)"
    proof (cases rule: trimOneLambda_cases [of "trimFormals fs" "trimExpr e"])
      case 1
      then show ?thesis using a by (simp add: Let_def)
    next
      case (2 caps w)
      then show ?thesis using a formals_captured(1,2) [OF a(2), of caps w] body_captured(1,2) [OF a(3), of caps w]
          formals_captured(3) [OF a(2), where caps = caps and w = w and S = S]
          body_captured(3) [OF a(3), where caps = caps and w = w and S = S] by (simp add: Let_def)
    qed
  qed
next
  case (ELet bs e ci)
  show ?case
  proof
    assume "fresh (ELet bs e ci)"
    then have a: "ci = NoCaptureInfo" "list_all trimmed_binding (map trimBinding bs)" "trimmed (trimExpr e)"
      "map (den_binding S env outer) (map trimBinding bs) = map (den_binding S env outer) bs"
      "den S (trimExpr e) env = den S e env" for env outer
      using ELet by (auto simp: list_all_iff)
    show "trimmed (trimExpr (ELet bs e ci)) \<and> (\<forall>env. den S (trimExpr (ELet bs e ci)) env = den S (ELet bs e ci) env)"
    proof (cases rule: trimOneLetBlock_cases [of "map trimBinding bs" "trimExpr e"])
      case 1
      then show ?thesis using a by (simp add: Let_def del: map_map)
    next
      case (2 caps w)
      note c = bindings_captured(1,2) [OF a(2), of caps w] bindings_captured(3) [OF a(2), where caps = caps and w = w and S = S]
      show ?thesis using a(1,4,5) 2 c body_captured(1,2) [OF a(3), of caps w]
          body_captured(3) [OF a(3), where caps = caps and w = w and S = S] by (simp add: Let_def del: map_map)
    qed
  qed
next
  case (ESelect e ks d)
  then show ?case by (cases d) (auto simp: list_all_iff cong: map_cong)
next
  case (Formal x d)
  then show ?case by (auto split: option.splits)
qed (auto simp: list_all_iff cong: map_cong)

end
