(* ===== verification/Nova_Resolve_Spec.thy ===== *)
theory Nova_Resolve_Spec
  imports Nova_Names Nova_Trim_Spec
begin

section \<open>Resolution is static scoping\<close>

text \<open>
  Resolution by induction on the expression: the resolved expression means in frames what its source
  means in scopes, and it fails exactly on an unbound variable.
\<close>

subsection \<open>The Either applicative\<close>

lemma fmapE_Inr [simp]: "fmapE f r = Inr y \<longleftrightarrow> (\<exists>x. r = Inr x \<and> y = f x)"
  by (auto simp: fmapE_def split: sum.splits)

lemma apE_Inr [simp]: "apE f r = Inr y \<longleftrightarrow> (\<exists>g x. f = Inr g \<and> r = Inr x \<and> y = g x)"
  by (auto simp: apE_def split: sum.splits)

lemma traverseE_Inr [simp]: "traverseE f xs = Inr ys \<longleftrightarrow> list_all2 (\<lambda>x y. f x = Inr y) xs ys"
  by (induction xs arbitrary: ys) (auto simp: list_all2_Cons1)

lemma list_all2_imp_map:
  assumes "list_all2 R xs ys" and "\<And>x y. x \<in> set xs \<Longrightarrow> R x y \<Longrightarrow> g y = f x"
  shows "map g ys = map f xs"
  using assms by (induction rule: list_all2_induct) simp_all

lemma list_all2_imp_all:
  assumes "list_all2 R xs ys" and "\<And>x y. x \<in> set xs \<Longrightarrow> R x y \<Longrightarrow> P y"
  shows "list_all P ys"
proof -
  have "P (ys ! i)" if "i < length ys" for i
    by (rule assms(2) [of "xs ! i"]) (use that assms(1) in \<open>simp_all add: list_all2_conv_all_nth\<close>)
  then show ?thesis by (simp add: list_all_length)
qed

subsection \<open>What a stack of scopes means\<close>

text \<open>The scope that a stack stands for over the slots of a chain; a \<open>with\<close> adds no level.\<close>

fun scope_of :: "'v \<Rightarrow> scope_entry list \<Rightarrow> 'v list list \<Rightarrow> 'v scope" where
  "scope_of dangling [] ss = Map.empty"
| "scope_of dangling (LexicalScope m # st) ss = (\<lambda>x. case m x of
     Some i \<Rightarrow> Some (Bound (read_slot dangling ss (0, i))) | None \<Rightarrow> scope_of dangling st (tl ss) x)"
| "scope_of dangling (NameBarrier N # st) ss = (\<lambda>x. if x \<in> N then Some AtRuntime else scope_of dangling st (tl ss) x)"
| "scope_of dangling (WithBarrier # st) ss = scope_of dangling st ss"

lemma read_slot_drop: "read_slot dangling (drop l ss) (k, i) = read_slot dangling ss (l + k, i)"
  by (auto simp: read_slot_def)

lemma resolve_go_means:
  assumes "resolve_go x st l c = Inr e"
  shows "den S e env = variable S (scope_of (sem_dangling S) st (drop l (vw_slots env))) (c \<or> WithBarrier \<in> set st) x env"
    and "fresh e"
proof -
  have "den S e env = variable S (scope_of (sem_dangling S) st (drop l (vw_slots env))) (c \<or> WithBarrier \<in> set st) x env \<and> fresh e"
    using assms
  proof (induction x st l c rule: resolve_go.induct)
    case (2 x scope rest l c)
    then show ?case
      by (auto simp: variable_def read_slot_drop tl_drop drop_Suc split: option.splits if_splits named.splits)
  next
    case (3 x N rest l c)
    then show ?case
      by (auto simp: variable_def tl_drop drop_Suc split: option.splits if_splits named.splits)
  next
    case (4 x rest l c)
    then show ?case by (simp add: variable_def)
  qed (auto simp: variable_def split: if_splits)
  then show "den S e env = variable S (scope_of (sem_dangling S) st (drop l (vw_slots env))) (c \<or> WithBarrier \<in> set st) x env"
    and "fresh e" by blast+
qed

lemma resolveVar_means:
  assumes "resolveVar st x = Inr e"
  shows "den S e env = variable S (scope_of (sem_dangling S) st (vw_slots env)) (WithBarrier \<in> set st) x env" and "fresh e"
  using resolve_go_means(1) [OF assms [unfolded resolveVar_def], where S = S and env = env]
    resolve_go_means(2) [OF assms [unfolded resolveVar_def]] by simp_all

text \<open>A scope's names, numbered, and the frame's values, bound to the names in order.\<close>

lemma numbered_binds:
  "(\<lambda>x. case numbered k xs x of Some i \<Rightarrow> Some (f i) | None \<Rightarrow> \<rho> x) = \<rho>(xs [\<mapsto>] map f [k..<k + length xs])"
proof -
  have "rev (zip xs (map f [k..<k + length xs])) = map (\<lambda>(x, i). (x, f i)) (rev (zip xs [k..<k + length xs]))"
    by (simp add: zip_map2 rev_map)
  then have "map_of (rev (zip xs (map f [k..<k + length xs]))) = map_option f \<circ> numbered k xs"
    by (simp only: numbered_def map_of_map)
  then show ?thesis by (auto simp: map_upds_def map_add_def split: option.splits)
qed

lemma read_slot_0: "read_slot dangling (vs # ss) (0, i) = frame_value dangling vs i"
  by (simp add: read_slot_def frame_value_def)

lemma scope_of_numbered:
  "scope_of dangling (LexicalScope (numbered 0 xs) # st) (vs # ss) = bind_names dangling xs vs (scope_of dangling st ss)"
  using numbered_binds [where k = 0 and xs = xs and f = "\<lambda>i. Bound (frame_value dangling vs i)" and \<rho> = "scope_of dangling st ss"]
  by (simp add: bind_names_def read_slot_0 cong: option.case_cong)

lemma numbered_Cons: "numbered k (x # xs) = [x \<mapsto> k] ++ numbered (Suc k) xs"
  by (simp add: numbered_def upt_conv_Cons del: upt_Suc)

lemma formals_numbered: "lexicalScopeFromFormals fs = LexicalScope (numbered 0 (formals_names fs))"
  by (cases fs) (simp_all add: numbered_Cons, simp add: numbered_def)

lemma collectBindingNames_eq: "collectBindingNames bs = set (concat (map bindingNames bs))"
proof -
  have ins: "foldl (\<lambda>a n. insert n a) acc xs = acc \<union> set xs" for acc and xs :: "hs_text list"
    by (induction xs arbitrary: acc) auto
  have "addNames acc b = acc \<union> set (bindingNames b)" for acc b
    by (cases "(acc, b)" rule: addNames.cases) (auto simp: ins)
  then have "foldl addNames acc bs = acc \<union> set (concat (map bindingNames bs))" for acc
    by (induction bs arbitrary: acc) auto
  then show ?thesis by (simp add: collectBindingNames_def)
qed

lemma scope_of_formals [simp]:
  "scope_of dangling (lexicalScopeFromFormals fs # st) (vs # ss) =
     bind_names dangling (formals_names fs) vs (scope_of dangling st ss)"
  by (simp only: formals_numbered scope_of_numbered)

lemma scope_of_bindings_means [simp]:
  "scope_of dangling (scope_of_bindings bs # st) (vs # ss) = bind_bindings dangling bs vs (scope_of dangling st ss)"
  by (auto simp: scope_of_bindings_def allStaticSingleKey_def bind_bindings_def lexicalScopeFromBindings_def
      scope_of_numbered collectBindingNames_eq simp del: scope_of.simps(2))

lemma not_with [simp]: "WithBarrier \<noteq> scope_of_bindings bs" "WithBarrier \<noteq> lexicalScopeFromFormals fs"
  by (simp_all add: scope_of_bindings_def lexicalScopeFromBindings_def formals_numbered)

lemma push_slots [simp]: "vw_slots (push_frame S fr env) = fst fr # vw_slots env" "vw_slots (push_with S x env) = vw_slots env"
  by (simp_all add: push_frame_def push_with_def)

subsection \<open>Resolved expressions mean the same\<close>

text \<open>One statement for each kind of syntax: where the walk succeeds, what it returns has no captures and means in
  every environment what the source means in the scope of the stack.\<close>

abbreviation (input) keeps ::
  "('r \<Rightarrow> bool) \<Rightarrow> ('e + 'r) \<Rightarrow> ('r \<Rightarrow> bool) \<Rightarrow> bool" where
  "keeps clean r same \<equiv> (\<forall>y. r = Inr y \<longrightarrow> clean y \<and> same y)"

lemma traverse_keeps:
  assumes "traverseE g xs = Inr ys" and "\<And>x. x \<in> set xs \<Longrightarrow> keeps clean (g x) (\<lambda>y. \<forall>env. D env y = N env x)"
  shows "list_all clean ys \<and> map (D env) ys = map (N env) xs"
  using list_all2_imp_all [of "\<lambda>x y. g x = Inr y" xs ys clean] list_all2_imp_map [of "\<lambda>x y. g x = Inr y" xs ys "D env" "N env"]
    assms by auto

lemma resolution_keeps:
  fixes S :: "('v, 'm, 'n, 'w, 'd) semantics"
  defines "sc \<equiv> \<lambda>st (env :: ('v, 'n, 'w) view). scope_of (sem_dangling S) st (vw_slots env)" and "wi \<equiv> \<lambda>st. WithBarrier \<in> set st"
  shows
  "\<forall>st. keeps fresh (resolve st e) (\<lambda>e'. \<forall>env. den S e' env = nden S (sc st env) (wi st) e env)"
  "\<forall>st. keeps fresh_part (resolvePart st p) (\<lambda>p'. \<forall>env. den_part S env p' = nden_part S (sc st env) (wi st) env p)"
  "\<forall>st. keeps fresh_key (resolveKey st q) (\<lambda>q'. \<forall>env. den_key S env q' = nden_key S (sc st env) (wi st) env q)"
  "(\<forall>st. keeps fresh_binding (resolveBinding st b)
      (\<lambda>b'. \<forall>env. den_binding S env env b' = nden_binding S (sc st env) (sc st env) (wi st) env env b)) \<and>
   (\<forall>st st'. wi st' = wi st \<longrightarrow> keeps fresh_binding (resolveLetBinding st st' b)
      (\<lambda>b'. \<forall>env outer. den_binding S env outer b' = nden_binding S (sc st' env) (sc st outer) (wi st) env outer b))"
  "\<forall>st. keeps fresh_formal (resolveFormal st f) (\<lambda>f'. \<forall>env. den_formal S env f' = nden_formal S (sc st env) (wi st) env f)"
  "\<forall>st. keeps fresh_formals (resolveFormalsDefaults st fs)
     (\<lambda>fs'. \<forall>env. den_formals S env fs' = nden_formals S (sc st env) (wi st) env fs)"
proof (induction e and p and q and b and f and fs)
  case (EStr ps)
  have t: "list_all fresh_part ys \<and> map (den_part S env) ys = map (nden_part S (sc st env) (wi st) env) ps"
    if "traverseE (resolvePart st) ps = Inr ys" for st ys env
    using traverse_keeps [OF that, where clean = fresh_part and D = "den_part S" and env = env and
        N = "\<lambda>env. nden_part S (sc st env) (wi st) env"] EStr by blast
  show ?case using t by (auto simp del: traverseE_Inr)
next
  case (EIndStr ps)
  have t: "list_all fresh_part ys \<and> map (den_part S env) ys = map (nden_part S (sc st env) (wi st) env) ps"
    if "traverseE (resolvePart st) ps = Inr ys" for st ys env
    using traverse_keeps [OF that, where clean = fresh_part and D = "den_part S" and env = env and
        N = "\<lambda>env. nden_part S (sc st env) (wi st) env"] EIndStr by blast
  show ?case using t by (auto simp del: traverseE_Inr)
next
  case (EPathStr h ps)
  have t: "list_all fresh_part ys \<and> map (den_part S env) ys = map (nden_part S (sc st env) (wi st) env) ps"
    if "traverseE (resolvePart st) ps = Inr ys" for st ys env
    using traverse_keeps [OF that, where clean = fresh_part and D = "den_part S" and env = env and
        N = "\<lambda>env. nden_part S (sc st env) (wi st) env"] EPathStr by blast
  show ?case using t by (auto simp del: traverseE_Inr)
next
  case (EVar x)
  then show ?case using resolveVar_means unfolding sc_def wi_def by auto
next
  case (EAttrs r bs ci)
  show ?case
  proof (cases r)
    case True
    have t: "list_all fresh_binding ys \<and> map (den_binding S (push_frame S fr env) env) ys =
        map (nden_binding S (bind_bindings (sem_dangling S) bs (fst fr) (sc st env)) (sc st env) (wi st) (push_frame S fr env) env) bs"
      if "traverseE (resolveLetBinding st (scope_of_bindings bs # st)) bs = Inr ys" for st ys fr env
    proof -
      have "keeps fresh_binding (resolveLetBinding st (scope_of_bindings bs # st) b) (\<lambda>b'. \<forall>u::unit.
          den_binding S (push_frame S fr env) env b' =
          nden_binding S (bind_bindings (sem_dangling S) bs (fst fr) (sc st env)) (sc st env) (wi st) (push_frame S fr env) env b)"
        if "b \<in> set bs" for b
        using EAttrs [OF that, THEN conjunct2, THEN spec, of st, THEN spec, of "scope_of_bindings bs # st"]
          unfolding sc_def wi_def by simp
      from traverse_keeps [OF that, where clean = fresh_binding and D = "\<lambda>u. den_binding S (push_frame S fr env) env" and
          N = "\<lambda>u. nden_binding S (bind_bindings (sem_dangling S) bs (fst fr) (sc st env)) (sc st env) (wi st) (push_frame S fr env) env", OF this]
      show ?thesis by blast
    qed
    show ?thesis using True by (auto simp: t simp del: traverseE_Inr)
  next
    case False
    have t: "list_all fresh_binding ys \<and>
        map (den_binding S env env) ys = map (nden_binding S (sc st env) (sc st env) (wi st) env env) bs"
      if "traverseE (resolveBinding st) bs = Inr ys" for st ys env
      using traverse_keeps [OF that, where clean = fresh_binding and D = "\<lambda>env. den_binding S env env" and env = env and
          N = "\<lambda>env. nden_binding S (sc st env) (sc st env) (wi st) env env"] EAttrs by blast
    show ?thesis using t False by (auto simp del: traverseE_Inr)
  qed
next
  case (EList es)
  have t: "list_all fresh ys \<and> map (\<lambda>e. den S e env) ys = map (\<lambda>e. nden S (sc st env) (wi st) e env) es"
    if "traverseE (resolve st) es = Inr ys" for st ys env
    using traverse_keeps [OF that, where clean = fresh and D = "\<lambda>env e. den S e env" and env = env and
        N = "\<lambda>env e. nden S (sc st env) (wi st) e env"] EList by blast
  show ?case using t by (auto simp del: traverseE_Inr)
next
  case (ELambda fs e ci)
  then show ?case unfolding sc_def wi_def by (auto simp: Let_def)
next
  case (ELet bs e ci)
  have t: "list_all fresh_binding ys \<and> map (den_binding S (push_frame S fr env) env) ys =
      map (nden_binding S (bind_bindings (sem_dangling S) bs (fst fr) (sc st env)) (sc st env) (wi st) (push_frame S fr env) env) bs"
    if "traverseE (resolveLetBinding st (scope_of_bindings bs # st)) bs = Inr ys" for st ys fr env
  proof -
    have "keeps fresh_binding (resolveLetBinding st (scope_of_bindings bs # st) b) (\<lambda>b'. \<forall>u::unit.
        den_binding S (push_frame S fr env) env b' =
        nden_binding S (bind_bindings (sem_dangling S) bs (fst fr) (sc st env)) (sc st env) (wi st) (push_frame S fr env) env b)"
      if "b \<in> set bs" for b
      using ELet(1) [OF that, THEN conjunct2, THEN spec, of st, THEN spec, of "scope_of_bindings bs # st"]
          unfolding sc_def wi_def by simp
    from traverse_keeps [OF that, where clean = fresh_binding and D = "\<lambda>u. den_binding S (push_frame S fr env) env" and
        N = "\<lambda>u. nden_binding S (bind_bindings (sem_dangling S) bs (fst fr) (sc st env)) (sc st env) (wi st) (push_frame S fr env) env", OF this]
    show ?thesis by blast
  qed
  have b: "den S e' (push_frame S fr env) = nden S (bind_bindings (sem_dangling S) bs (fst fr) (sc st env)) (wi st) e (push_frame S fr env)"
    "fresh e'" if "resolve (scope_of_bindings bs # st) e = Inr e'" for st e' fr env
    using ELet(2) [rule_format, OF that] unfolding sc_def wi_def by simp_all
  show ?case by (auto simp: Let_def t b simp del: traverseE_Inr)
next
  case (ESelect e ks d)
  have t: "list_all fresh_key ys \<and> map (den_key S env) ys = map (nden_key S (sc st env) (wi st) env) ks"
    if "traverseE (resolveKey st) ks = Inr ys" for st ys env
    using traverse_keeps [OF that, where clean = fresh_key and D = "den_key S" and env = env and
        N = "\<lambda>env. nden_key S (sc st env) (wi st) env"] ESelect(2) by blast
  show ?case using t ESelect(1,3) by (cases d) (auto simp del: traverseE_Inr)
next
  case (EHasAttr e ks)
  have t: "list_all fresh_key ys \<and> map (den_key S env) ys = map (nden_key S (sc st env) (wi st) env) ks"
    if "traverseE (resolveKey st) ks = Inr ys" for st ys env
    using traverse_keeps [OF that, where clean = fresh_key and D = "den_key S" and env = env and
        N = "\<lambda>env. nden_key S (sc st env) (wi st) env"] EHasAttr(2) by blast
  show ?case using t EHasAttr(1) by (auto simp del: traverseE_Inr)
next
  case (ESearchPath x)
  then show ?case unfolding sc_def wi_def by (auto simp: resolveVar_means)
next
  case (EWith s e)
  then show ?case unfolding sc_def wi_def by auto
next
  case (Formal x d)
  then show ?case by (auto split: option.splits)
next
  case (FormalSet fs el)
  have t: "list_all fresh_formal ys \<and> map (den_formal S env) ys = map (nden_formal S (sc st env) (wi st) env) fs"
    if "traverseE (resolveFormal st) fs = Inr ys" for st ys env
    using traverse_keeps [OF that, where clean = fresh_formal and D = "den_formal S" and env = env and
        N = "\<lambda>env. nden_formal S (sc st env) (wi st) env"] FormalSet by blast
  show ?case using t by (auto simp del: traverseE_Inr)
next
  case (FormalNamedSet x fs el)
  have t: "list_all fresh_formal ys \<and> map (den_formal S env) ys = map (nden_formal S (sc st env) (wi st) env) fs"
    if "traverseE (resolveFormal st) fs = Inr ys" for st ys env
    using traverse_keeps [OF that, where clean = fresh_formal and D = "den_formal S" and env = env and
        N = "\<lambda>env. nden_formal S (sc st env) (wi st) env"] FormalNamedSet by blast
  show ?case using t by (auto simp del: traverseE_Inr)
qed (auto simp: sc_def wi_def)

lemmas resolution_keepsD = resolution_keeps(1) [rule_format]

subsection \<open>Where resolution fails\<close>

text \<open>A walk that fails at the first name of a list, and succeeds where there is none.\<close>

definition fails_at :: "'e list \<Rightarrow> 'e + 'r \<Rightarrow> bool" where
  "fails_at xs r = (case xs of [] \<Rightarrow> (case r of Inl _ \<Rightarrow> False | Inr _ \<Rightarrow> True) | x # _ \<Rightarrow> (case r of Inl y \<Rightarrow> y = x | Inr _ \<Rightarrow> False))"

lemma fails_at_Inr [simp]: "fails_at [] (Inr y)"
  by (simp add: fails_at_def)

lemma fails_at_fmap [simp]: "fails_at xs (fmapE f r) \<longleftrightarrow> fails_at xs r"
  by (auto simp: fails_at_def fmapE_def split: list.splits sum.splits)

lemma fails_at_ap: "fails_at xs f \<Longrightarrow> fails_at ys r \<Longrightarrow> fails_at (xs @ ys) (apE f r)"
  by (auto simp: fails_at_def apE_def fmapE_def split: list.splits sum.splits)

lemma fails_at_ap3: "fails_at xs f \<Longrightarrow> fails_at ys r \<Longrightarrow> fails_at zs s \<Longrightarrow> fails_at (xs @ ys @ zs) (apE (apE f r) s)"
  using fails_at_ap [OF fails_at_ap] by fastforce

lemma fails_at_ap_Inr [simp]: "fails_at xs (apE f (Inr y)) \<longleftrightarrow> fails_at xs f"
  by (auto simp: fails_at_def apE_def fmapE_def split: list.splits sum.splits)

lemma fails_at_traverse: "(\<And>x. x \<in> set xs \<Longrightarrow> fails_at (f x) (g x)) \<Longrightarrow> fails_at (concat (map f xs)) (traverseE g xs)"
  by (induction xs) (auto intro!: fails_at_ap)

text \<open>The names a stack binds.\<close>

fun stack_names :: "scope_entry list \<Rightarrow> hs_text set" where
  "stack_names [] = {}"
| "stack_names (LexicalScope m # st) = dom m \<union> stack_names st"
| "stack_names (NameBarrier N # st) = N \<union> stack_names st"
| "stack_names (WithBarrier # st) = stack_names st"

lemma resolve_go_fails:
  "fails_at (unbound_name (stack_names st) (c \<or> WithBarrier \<in> set st) x) (resolve_go x st l c)"
  by (induction x st l c rule: resolve_go.induct) (auto simp: fails_at_def unbound_name_def dom_def split: option.splits)

lemma resolveVar_fails: "fails_at (unbound_name (stack_names st) (WithBarrier \<in> set st) x) (resolveVar st x)"
  using resolve_go_fails [of st False x 0] by (simp add: resolveVar_def)

lemma dom_numbered: "dom (numbered k xs) = set xs"
  by (simp add: numbered_def dom_map_of_conv_image_fst flip: set_map)

lemma stack_names_push [simp]:
  "stack_names (lexicalScopeFromFormals fs # st) = set (formals_names fs) \<union> stack_names st"
  "stack_names (scope_of_bindings bs # st) = names_with bs (stack_names st)"
  by (simp_all add: formals_numbered dom_numbered scope_of_bindings_def lexicalScopeFromBindings_def collectBindingNames_eq)

lemma resolution_fails:
  defines "nm \<equiv> stack_names" and "wi \<equiv> \<lambda>st. WithBarrier \<in> set st"
  shows
  "\<forall>st. fails_at (unbound (nm st) (wi st) e) (resolve st e)"
  "\<forall>st. fails_at (unbound_part (nm st) (wi st) p) (resolvePart st p)"
  "\<forall>st. fails_at (unbound_key (nm st) (wi st) q) (resolveKey st q)"
  "(\<forall>st. fails_at (unbound_binding (nm st) (nm st) (wi st) b) (resolveBinding st b)) \<and>
   (\<forall>st st'. wi st' = wi st \<longrightarrow> fails_at (unbound_binding (nm st') (nm st) (wi st) b) (resolveLetBinding st st' b))"
  "\<forall>st. fails_at (unbound_formal (nm st) (wi st) f) (resolveFormal st f)"
  "\<forall>st. fails_at (unbound_formals (nm st) (wi st) fs) (resolveFormalsDefaults st fs)"
proof (induction e and p and q and b and f and fs)
  case (EVar x)
  then show ?case using resolveVar_fails by (simp add: nm_def wi_def)
next
  case (ESearchPath x)
  then show ?case using resolveVar_fails
    by (simp add: nm_def wi_def) (metis append_Nil2 fails_at_Inr fails_at_ap fails_at_fmap)
next
  case (EAttrs r bs ci)
  show ?case
  proof
    fix st
    have "fails_at (unbound_binding (names_with bs (nm st)) (nm st) (wi st) b) (resolveLetBinding st (scope_of_bindings bs # st) b)"
      if "b \<in> set bs" for b
      using EAttrs [OF that, THEN conjunct2, THEN spec, of st, THEN spec, of "scope_of_bindings bs # st"]
      unfolding nm_def wi_def by simp
    moreover have "fails_at (unbound_binding (nm st) (nm st) (wi st) b) (resolveBinding st b)" if "b \<in> set bs" for b
      using EAttrs [OF that] by blast
    ultimately show "fails_at (unbound (nm st) (wi st) (EAttrs r bs ci)) (resolve st (EAttrs r bs ci))"
      by (simp add: fails_at_traverse)
  qed
next
  case (ELet bs e ci)
  show ?case
  proof
    fix st
    have "fails_at (unbound_binding (names_with bs (nm st)) (nm st) (wi st) b) (resolveLetBinding st (scope_of_bindings bs # st) b)"
      if "b \<in> set bs" for b
      using ELet(1) [OF that, THEN conjunct2, THEN spec, of st, THEN spec, of "scope_of_bindings bs # st"]
      unfolding nm_def wi_def by simp
    moreover have "fails_at (unbound (names_with bs (nm st)) (wi st) e) (resolve (scope_of_bindings bs # st) e)"
      using ELet(2) [THEN spec, of "scope_of_bindings bs # st"] unfolding nm_def wi_def by simp
    ultimately show "fails_at (unbound (nm st) (wi st) (ELet bs e ci)) (resolve st (ELet bs e ci))"
      by (simp add: Let_def fails_at_ap fails_at_traverse)
  qed
next
  case (ELambda fs e ci)
  show ?case
  proof
    fix st
    have "fails_at (unbound_formals (set (formals_names fs) \<union> nm st) (wi st) fs)
        (resolveFormalsDefaults (lexicalScopeFromFormals fs # st) fs)"
      using ELambda(1) [THEN spec, of "lexicalScopeFromFormals fs # st"] by (simp add: nm_def wi_def)
    moreover have "fails_at (unbound (set (formals_names fs) \<union> nm st) (wi st) e) (resolve (lexicalScopeFromFormals fs # st) e)"
      using ELambda(2) [THEN spec, of "lexicalScopeFromFormals fs # st"] by (simp add: nm_def wi_def)
    ultimately show "fails_at (unbound (nm st) (wi st) (ELambda fs e ci)) (resolve st (ELambda fs e ci))"
      by (simp add: Let_def fails_at_ap)
  qed
next
  case (EWith s e)
  show ?case
  proof
    fix st
    have "fails_at (unbound (nm st) True e) (resolve (WithBarrier # st) e)"
      using EWith(2) [THEN spec, of "WithBarrier # st"] by (simp add: nm_def wi_def)
    then show "fails_at (unbound (nm st) (wi st) (EWith s e)) (resolve st (EWith s e))"
      using EWith(1) by (simp add: fails_at_ap)
  qed
next
  case (ESelect e ks d)
  then show ?case
    by (cases d) (simp_all add: fails_at_ap3 fails_at_ap fails_at_traverse)
next
  case (NamedBinding pos k e)
  then show ?case by (auto intro!: fails_at_ap) metis+
next
  case (InheritFrom e xs)
  then show ?case by (auto; metis)
next
  case (Formal x d)
  then show ?case by (cases d) simp_all
qed (simp_all add: fails_at_ap3 fails_at_ap fails_at_traverse)

lemmas resolution_failsD = resolution_fails(1) [rule_format]

end
