(* ===== verification/Nova_Scoped.thy ===== *)
theory Nova_Scoped
  imports Nova_Resolve_Spec
begin

section \<open>References stay in their frames\<close>

text \<open>
  A typing of expressions with levels and slots: the context lists the sizes of the frames along the chain, and a
  reference or a captured coordinate is well-typed when its level and slot are within it. Under a scope with
  captures the chain is one frame of the captured slots. Reading a slot of the C layer past a frame is out of bounds,
  so both passes have to produce well-typed expressions.
\<close>

definition in_frames :: "nat list \<Rightarrow> nat \<times> nat \<Rightarrow> bool" where
  "in_frames \<Gamma> r \<longleftrightarrow> fst r < length \<Gamma> \<and> snd r < \<Gamma> ! fst r"

definition scope_size :: "binding list \<Rightarrow> nat" where
  "scope_size bs = (if list_all isEligible bs then length (concat (map bindingNames bs)) else 0)"

definition captured_frames :: "nat list \<Rightarrow> capture_info \<Rightarrow> nat list" where
  "captured_frames \<Gamma> ci = (case ci of NoCaptureInfo \<Rightarrow> \<Gamma> | Captures caps \<Rightarrow> [length caps] | CapturesWithScopes caps \<Rightarrow> [length caps])"

definition captures_in_frames :: "nat list \<Rightarrow> capture_info \<Rightarrow> bool" where
  "captures_in_frames \<Gamma> ci = (case ci of NoCaptureInfo \<Rightarrow> True | Captures caps \<Rightarrow> list_all (in_frames \<Gamma>) caps
     | CapturesWithScopes caps \<Rightarrow> list_all (in_frames \<Gamma>) caps)"

function (sequential) scoped :: "nat list \<Rightarrow> expr \<Rightarrow> bool" and scoped_part :: "nat list \<Rightarrow> string_part \<Rightarrow> bool"
  and scoped_key :: "nat list \<Rightarrow> attr_key \<Rightarrow> bool" and scoped_binding :: "nat list \<Rightarrow> nat list \<Rightarrow> binding \<Rightarrow> bool"
  and scoped_formal :: "nat list \<Rightarrow> formal \<Rightarrow> bool" and scoped_formals :: "nat list \<Rightarrow> formals \<Rightarrow> bool"
where
  "scoped \<Gamma> (EStr ps) = list_all (scoped_part \<Gamma>) ps"
| "scoped \<Gamma> (EIndStr ps) = list_all (scoped_part \<Gamma>) ps"
| "scoped \<Gamma> (EPathStr h ps) = list_all (scoped_part \<Gamma>) ps"
| "scoped \<Gamma> (EResolvedVar level idx) = in_frames \<Gamma> (level, idx)"
| "scoped \<Gamma> (EAttrs r bs ci) =
     (if r then captures_in_frames \<Gamma> ci \<and> list_all (scoped_binding (scope_size bs # captured_frames \<Gamma> ci) \<Gamma>) bs
      else list_all (scoped_binding \<Gamma> \<Gamma>) bs)"
| "scoped \<Gamma> (EList es) = list_all (scoped \<Gamma>) es"
| "scoped \<Gamma> (ESelect e ks d) =
     (scoped \<Gamma> e \<and> list_all (scoped_key \<Gamma>) ks \<and> (case d of None \<Rightarrow> True | Some e' \<Rightarrow> scoped \<Gamma> e'))"
| "scoped \<Gamma> (EHasAttr e ks) = (scoped \<Gamma> e \<and> list_all (scoped_key \<Gamma>) ks)"
| "scoped \<Gamma> (EApp f x) = (scoped \<Gamma> f \<and> scoped \<Gamma> x)"
| "scoped \<Gamma> (ELambda fs b ci) = (captures_in_frames \<Gamma> ci \<and>
     scoped_formals (length (formals_names fs) # captured_frames \<Gamma> ci) fs \<and>
     scoped (length (formals_names fs) # captured_frames \<Gamma> ci) b)"
| "scoped \<Gamma> (ELet bs b ci) = (captures_in_frames \<Gamma> ci \<and>
     list_all (scoped_binding (scope_size bs # captured_frames \<Gamma> ci) \<Gamma>) bs \<and>
     scoped (scope_size bs # captured_frames \<Gamma> ci) b)"
| "scoped \<Gamma> (EIf c t e) = (scoped \<Gamma> c \<and> scoped \<Gamma> t \<and> scoped \<Gamma> e)"
| "scoped \<Gamma> (EWith s b) = (scoped \<Gamma> s \<and> scoped \<Gamma> b)"
| "scoped \<Gamma> (EAssert c b) = (scoped \<Gamma> c \<and> scoped \<Gamma> b)"
| "scoped \<Gamma> (EUnary op e) = scoped \<Gamma> e"
| "scoped \<Gamma> (EBinary op a b) = (scoped \<Gamma> a \<and> scoped \<Gamma> b)"
| "scoped \<Gamma> e = True"
| "scoped_part \<Gamma> (StrInterp e) = scoped \<Gamma> e"
| "scoped_part \<Gamma> p = True"
| "scoped_key \<Gamma> (DynamicKey e) = scoped \<Gamma> e"
| "scoped_key \<Gamma> k = True"
| "scoped_binding \<Gamma> \<Gamma>o (NamedBinding pos k e) = (scoped_key \<Gamma> k \<and> scoped \<Gamma> e)"
| "scoped_binding \<Gamma> \<Gamma>o (Inherit pos x e) = scoped \<Gamma>o e"
| "scoped_binding \<Gamma> \<Gamma>o (InheritFrom e xs) = scoped \<Gamma> e"
| "scoped_formal \<Gamma> (Formal x d) = (case d of None \<Rightarrow> True | Some e \<Rightarrow> scoped \<Gamma> e)"
| "scoped_formals \<Gamma> (FormalName x) = True"
| "scoped_formals \<Gamma> (FormalSet fs el) = list_all (scoped_formal \<Gamma>) fs"
| "scoped_formals \<Gamma> (FormalNamedSet x fs el) = list_all (scoped_formal \<Gamma>) fs"
  by pat_completeness auto

termination
  by (relation "measure (\<lambda>x. case x of
      Inl (Inl (_, e)) \<Rightarrow> weight e
    | Inl (Inr (Inl (_, p))) \<Rightarrow> part_weight p
    | Inl (Inr (Inr (_, k))) \<Rightarrow> key_weight k
    | Inr (Inl (_, _, b)) \<Rightarrow> binding_weight b
    | Inr (Inr (Inl (_, f))) \<Rightarrow> formal_weight f
    | Inr (Inr (Inr (_, fs))) \<Rightarrow> formals_weight fs)")
    (auto simp: less_Suc_eq_le dest!: member_weights)

subsection \<open>Names are kept\<close>

lemma rewrite_names [simp]:
  "bindingNames (rewriteBinding d ou cm b) = bindingNames b" "isEligible (rewriteBinding d ou cm b) = isEligible b"
  "fName (rewriteFormal d cm f) = fName f" "formals_names (rewriteFormals d cm fs) = formals_names fs"
proof -
  show "bindingNames (rewriteBinding d ou cm b) = bindingNames b"
    by (cases b rule: bindingNames.cases) simp_all
  show "isEligible (rewriteBinding d ou cm b) = isEligible b"
    by (cases b rule: isEligible.cases) simp_all
  have f: "fName (rewriteFormal d cm f) = fName f" for f by (cases f) simp
  then show "fName (rewriteFormal d cm f) = fName f" .
  show "formals_names (rewriteFormals d cm fs) = formals_names fs" by (cases fs) (simp_all add: f)
qed

lemma trim_names [simp]:
  "bindingNames (trimBinding b) = bindingNames b" "isEligible (trimBinding b) = isEligible b"
  "fName (trimFormal f) = fName f" "formals_names (trimFormals fs) = formals_names fs"
proof -
  show "bindingNames (trimBinding b) = bindingNames b"
    by (cases b rule: bindingNames.cases) simp_all
  show "isEligible (trimBinding b) = isEligible b"
    by (cases b rule: isEligible.cases) simp_all
  have f: "fName (trimFormal f) = fName f" for f by (cases f) simp
  then show "fName (trimFormal f) = fName f" .
  show "formals_names (trimFormals fs) = formals_names fs" by (cases fs) (simp_all add: f)
qed

lemma scope_size_map:
  assumes "\<And>b. bindingNames (f b) = bindingNames b" and "\<And>b. isEligible (f b) = isEligible b"
  shows "scope_size (map f bs) = scope_size bs"
  by (simp add: scope_size_def list_all_iff assms comp_def)

lemma scope_size_rewrite [simp]: "scope_size (map (rewriteBinding d ou cm) bs) = scope_size bs"
  and scope_size_trim [simp]: "scope_size (map trimBinding bs) = scope_size bs"
  by (simp_all add: scope_size_map)

subsection \<open>Renumbering\<close>

text \<open>Two contexts with \<open>d + 1\<close> common frames, the second with nothing but the captured slots past them.\<close>

definition shrinks :: "(nat \<times> nat) list \<Rightarrow> nat \<Rightarrow> nat list \<Rightarrow> nat list \<Rightarrow> bool" where
  "shrinks caps d \<Gamma> \<Gamma>' \<longleftrightarrow> (\<exists>ns \<Delta>. length ns = Suc d \<and> \<Gamma> = ns @ \<Delta> \<and> \<Gamma>' = ns @ [length caps])"

lemma shrinks_push: "shrinks caps d \<Gamma> \<Gamma>' \<Longrightarrow> shrinks caps (Suc d) (n # \<Gamma>) (n # \<Gamma>')"
  unfolding shrinks_def by (metis append_Cons length_Cons)

lemma in_frames_rewrite:
  assumes "in_frames \<Gamma> r" and "shrinks caps d \<Gamma> \<Gamma>'" and "fst r > d \<longrightarrow> (fst r - d - 1, snd r) \<in> set caps"
  shows "in_frames \<Gamma>' (rewriteOne d (capture_map_of caps) r)"
proof -
  obtain ns \<Delta> where n: "length ns = Suc d" "\<Gamma> = ns @ \<Delta>" "\<Gamma>' = ns @ [length caps]" using assms(2) by (auto simp: shrinks_def)
  obtain l i where r: "r = (l, i)" by (cases r)
  show ?thesis
  proof (cases "l > d")
    case True
    with assms(3) have "(l - d - 1, i) \<in> set caps" by (simp add: r)
    then obtain k where "capture_map_of caps (l - d - 1, i) = Some k" "k < length caps"
      by (rule capture_map_of_captured)
    with True n show ?thesis by (simp add: rewriteOne_def in_frames_def nth_append r)
  next
    case False
    with assms(1) n show ?thesis by (simp add: rewriteOne_def in_frames_def nth_append r)
  qed
qed

lemma captured_rewrite:
  assumes "captures_in_frames \<Gamma> ci" and "shrinks caps d \<Gamma> \<Gamma>'" and "fst (capturesFree d ci) \<subseteq> set caps"
  shows "captures_in_frames \<Gamma>' (rewriteCaptures d (capture_map_of caps) ci)"
proof -
  have m: "list_all (in_frames \<Gamma>') (map (rewriteOne d (capture_map_of caps)) cs)"
    if "list_all (in_frames \<Gamma>) cs" and "\<forall>c \<in> set cs. fst c > d \<longrightarrow> (fst c - d - 1, snd c) \<in> set caps" for cs
    using that by (auto simp: list_all_iff intro!: in_frames_rewrite [OF _ assms(2)])
  show ?thesis
  proof (cases ci)
    case (Captures cs)
    have "\<forall>c \<in> set cs. fst c > d \<longrightarrow> (fst c - d - 1, snd c) \<in> set caps"
      using assms(3) by (force simp: capturesFree_def Captures)
    with m show ?thesis using assms(1) by (simp add: Captures rewriteCaptures_def captures_in_frames_def)
  next
    case (CapturesWithScopes cs)
    have "\<forall>c \<in> set cs. fst c > d \<longrightarrow> (fst c - d - 1, snd c) \<in> set caps"
      using assms(3) by (force simp: capturesFree_def CapturesWithScopes)
    with m show ?thesis using assms(1) by (simp add: CapturesWithScopes rewriteCaptures_def captures_in_frames_def)
  qed (simp add: captures_in_frames_def)
qed

lemma captured_frames_rewrite:
  "ci \<noteq> NoCaptureInfo \<Longrightarrow> captured_frames \<Gamma>' (rewriteCaptures d cm ci) = captured_frames \<Gamma> ci"
  by (cases ci) (simp_all add: captured_frames_def rewriteCaptures_def)

lemma captured_frames_none [simp]: "captured_frames \<Gamma> NoCaptureInfo = \<Gamma>" "captures_in_frames \<Gamma> NoCaptureInfo"
  by (simp_all add: captured_frames_def captures_in_frames_def)

text \<open>As in \<open>Nova_Trim_Spec\<close>: a binding has a context of its own and one around it.\<close>

definition binding_scoped :: "(nat \<times> nat) list \<Rightarrow> binding \<Rightarrow> bool" where
  "binding_scoped caps b \<longleftrightarrow> (\<forall>d \<Gamma>o \<Gamma>o'. trimmed_binding b \<longrightarrow>
     (\<forall>ou \<Gamma> \<Gamma>'. shrinks caps d \<Gamma> \<Gamma>' \<longrightarrow> scoped_binding \<Gamma> \<Gamma>o b \<longrightarrow> fst (collectBinding d ou b) \<subseteq> set caps \<longrightarrow>
        (case ou of None \<Rightarrow> \<Gamma>o' = \<Gamma>o | Some k \<Rightarrow> shrinks caps k \<Gamma>o \<Gamma>o') \<longrightarrow>
        scoped_binding \<Gamma>' \<Gamma>o' (rewriteBinding d ou (capture_map_of caps) b)) \<and>
     (\<forall>\<Gamma>. shrinks caps d \<Gamma>o \<Gamma>o' \<longrightarrow> scoped_binding \<Gamma> \<Gamma>o b \<longrightarrow> bound (collectBinding 1 None b) \<longrightarrow>
        fst (collectBinding (Suc d) (Some d) b) \<subseteq> set caps \<longrightarrow>
        scoped_binding \<Gamma> \<Gamma>o' (rewriteBinding (Suc d) (Some d) (capture_map_of caps) b)))"

lemma binding_scopedD:
  assumes "binding_scoped caps b" and "trimmed_binding b"
  shows "shrinks caps d \<Gamma> \<Gamma>' \<Longrightarrow> scoped_binding \<Gamma> \<Gamma>o b \<Longrightarrow> fst (collectBinding d None b) \<subseteq> set caps \<Longrightarrow>
      scoped_binding \<Gamma>' \<Gamma>o (rewriteBinding d None (capture_map_of caps) b)"
    and "shrinks caps d \<Gamma> \<Gamma>' \<Longrightarrow> scoped_binding \<Gamma> \<Gamma>o b \<Longrightarrow> fst (collectBinding d (Some k) b) \<subseteq> set caps \<Longrightarrow>
      shrinks caps k \<Gamma>o \<Gamma>o' \<Longrightarrow> scoped_binding \<Gamma>' \<Gamma>o' (rewriteBinding d (Some k) (capture_map_of caps) b)"
    and "shrinks caps d \<Gamma>o \<Gamma>o' \<Longrightarrow> scoped_binding \<Gamma> \<Gamma>o b \<Longrightarrow> bound (collectBinding 1 None b) \<Longrightarrow>
      fst (collectBinding (Suc d) (Some d) b) \<subseteq> set caps \<Longrightarrow>
      scoped_binding \<Gamma> \<Gamma>o' (rewriteBinding (Suc d) (Some d) (capture_map_of caps) b)"
proof -
  note k = assms(1) [unfolded binding_scoped_def, rule_format, OF assms(2)]
  show "shrinks caps d \<Gamma> \<Gamma>' \<Longrightarrow> scoped_binding \<Gamma> \<Gamma>o b \<Longrightarrow> fst (collectBinding d None b) \<subseteq> set caps \<Longrightarrow>
      scoped_binding \<Gamma>' \<Gamma>o (rewriteBinding d None (capture_map_of caps) b)"
    using k [THEN conjunct1, rule_format, where ou = None and \<Gamma>o = \<Gamma>o and \<Gamma>o' = \<Gamma>o and \<Gamma> = \<Gamma> and \<Gamma>' = \<Gamma>'] by simp
  show "shrinks caps d \<Gamma> \<Gamma>' \<Longrightarrow> scoped_binding \<Gamma> \<Gamma>o b \<Longrightarrow> fst (collectBinding d (Some k) b) \<subseteq> set caps \<Longrightarrow>
      shrinks caps k \<Gamma>o \<Gamma>o' \<Longrightarrow> scoped_binding \<Gamma>' \<Gamma>o' (rewriteBinding d (Some k) (capture_map_of caps) b)"
    using k [THEN conjunct1, rule_format, where ou = "Some k" and \<Gamma>o = \<Gamma>o and \<Gamma>o' = \<Gamma>o' and \<Gamma> = \<Gamma> and \<Gamma>' = \<Gamma>'] by simp
  show "shrinks caps d \<Gamma>o \<Gamma>o' \<Longrightarrow> scoped_binding \<Gamma> \<Gamma>o b \<Longrightarrow> bound (collectBinding 1 None b) \<Longrightarrow>
      fst (collectBinding (Suc d) (Some d) b) \<subseteq> set caps \<Longrightarrow>
      scoped_binding \<Gamma> \<Gamma>o' (rewriteBinding (Suc d) (Some d) (capture_map_of caps) b)"
    using k [THEN conjunct2, rule_format, where \<Gamma>o = \<Gamma>o and \<Gamma>o' = \<Gamma>o' and \<Gamma> = \<Gamma>] by simp
qed

lemma scope_stays:
  assumes kept: "\<forall>b \<in> set bs. binding_scoped caps b" and tr: "list_all trimmed_binding bs" and sh: "shrinks caps d \<Gamma> \<Gamma>'"
    and inner: "ci \<noteq> NoCaptureInfo \<Longrightarrow> list_all (\<lambda>b. bound (collectBinding 1 None b)) bs"
    and free: "fst (foldFree (collectBinding (Suc d) (Some d)) bs) \<subseteq> set caps"
    and sc: "list_all (scoped_binding (n # captured_frames \<Gamma> ci) \<Gamma>) bs"
  shows "list_all (scoped_binding (n # captured_frames \<Gamma>' (rewriteCaptures d (capture_map_of caps) ci)) \<Gamma>')
      (map (rewriteBinding (Suc d) (Some d) (capture_map_of caps)) bs)"
proof -
  have "scoped_binding (n # captured_frames \<Gamma>' (rewriteCaptures d (capture_map_of caps) ci)) \<Gamma>'
      (rewriteBinding (Suc d) (Some d) (capture_map_of caps) b)" if b: "b \<in> set bs" for b
  proof (cases "ci = NoCaptureInfo")
    case True
    have "scoped_binding (n # \<Gamma>') \<Gamma>' (rewriteBinding (Suc d) (Some d) (capture_map_of caps) b)"
      by (rule binding_scopedD(2) [where \<Gamma> = "n # \<Gamma>" and \<Gamma>o = \<Gamma>])
        (use kept tr sh free sc b True in \<open>auto simp: list_all_iff intro: shrinks_push\<close>)
    then show ?thesis by (simp add: True)
  next
    case False
    have "scoped_binding (n # captured_frames \<Gamma> ci) \<Gamma>' (rewriteBinding (Suc d) (Some d) (capture_map_of caps) b)"
      by (rule binding_scopedD(3) [where \<Gamma>o = \<Gamma>]) (use kept tr sh free sc b inner [OF False] in \<open>auto simp: list_all_iff\<close>)
    then show ?thesis by (simp add: captured_frames_rewrite [OF False, of \<Gamma>' d _ \<Gamma>])
  qed
  then show ?thesis by (simp add: list_all_iff)
qed

lemma renumbering_scoped:
  "\<forall>d \<Gamma> \<Gamma>'. shrinks caps d \<Gamma> \<Gamma>' \<longrightarrow> trimmed e \<longrightarrow> scoped \<Gamma> e \<longrightarrow> fst (collectFreeVars d e) \<subseteq> set caps \<longrightarrow>
     scoped \<Gamma>' (rewriteBody d (capture_map_of caps) e)"
  "\<forall>d \<Gamma> \<Gamma>'. shrinks caps d \<Gamma> \<Gamma>' \<longrightarrow> trimmed_part p \<longrightarrow> scoped_part \<Gamma> p \<longrightarrow> fst (collectPart d p) \<subseteq> set caps \<longrightarrow>
     scoped_part \<Gamma>' (rewritePart d (capture_map_of caps) p)"
  "\<forall>d \<Gamma> \<Gamma>'. shrinks caps d \<Gamma> \<Gamma>' \<longrightarrow> trimmed_key q \<longrightarrow> scoped_key \<Gamma> q \<longrightarrow> fst (collectKey d q) \<subseteq> set caps \<longrightarrow>
     scoped_key \<Gamma>' (rewriteKey d (capture_map_of caps) q)"
  "binding_scoped caps b"
  "\<forall>d \<Gamma> \<Gamma>'. shrinks caps d \<Gamma> \<Gamma>' \<longrightarrow> trimmed_formal f \<longrightarrow> scoped_formal \<Gamma> f \<longrightarrow> fst (collectFormal d f) \<subseteq> set caps \<longrightarrow>
     scoped_formal \<Gamma>' (rewriteFormal d (capture_map_of caps) f)"
  "\<forall>d \<Gamma> \<Gamma>'. shrinks caps d \<Gamma> \<Gamma>' \<longrightarrow> trimmed_formals fs \<longrightarrow> scoped_formals \<Gamma> fs \<longrightarrow>
     fst (foldFormalsDefaults d fs) \<subseteq> set caps \<longrightarrow> scoped_formals \<Gamma>' (rewriteFormals d (capture_map_of caps) fs)"
proof (induction e and p and q and b and f and fs)
  case (EAttrs r bs ci)
  show ?case
  proof (intro allI impI)
    fix d \<Gamma> \<Gamma>'
    assume a: "shrinks caps d \<Gamma> \<Gamma>'" "trimmed (EAttrs r bs ci)" "scoped \<Gamma> (EAttrs r bs ci)"
      "fst (collectFreeVars d (EAttrs r bs ci)) \<subseteq> set caps"
    show "scoped \<Gamma>' (rewriteBody d (capture_map_of caps) (EAttrs r bs ci))"
    proof (cases r)
      case True
      have s: "list_all (scoped_binding (scope_size bs # captured_frames \<Gamma>' (rewriteCaptures d (capture_map_of caps) ci)) \<Gamma>')
          (map (rewriteBinding (Suc d) (Some d) (capture_map_of caps)) bs)"
        by (rule scope_stays [where \<Gamma> = \<Gamma>]) (use a True EAttrs in \<open>auto\<close>)
      show ?thesis using True s captured_rewrite [of \<Gamma> ci caps d \<Gamma>'] a by simp
    next
      case False
      have "scoped_binding \<Gamma>' \<Gamma>' (rewriteBinding d (Some d) (capture_map_of caps) b)" if "b \<in> set bs" for b
        by (rule binding_scopedD(2) [where \<Gamma> = \<Gamma> and \<Gamma>o = \<Gamma>]) (use that EAttrs a False in \<open>auto simp: list_all_iff\<close>)
      then show ?thesis using False by (simp add: list_all_iff)
    qed
  qed
next
  case (ELet bs e ci)
  show ?case
  proof (intro allI impI)
    fix d \<Gamma> \<Gamma>'
    assume a: "shrinks caps d \<Gamma> \<Gamma>'" "trimmed (ELet bs e ci)" "scoped \<Gamma> (ELet bs e ci)"
      "fst (collectFreeVars d (ELet bs e ci)) \<subseteq> set caps"
    have s: "list_all (scoped_binding (scope_size bs # captured_frames \<Gamma>' (rewriteCaptures d (capture_map_of caps) ci)) \<Gamma>')
        (map (rewriteBinding (Suc d) (Some d) (capture_map_of caps)) bs)"
      by (rule scope_stays [where \<Gamma> = \<Gamma>]) (use a ELet(1) in \<open>auto\<close>)
    have b: "scoped (scope_size bs # captured_frames \<Gamma>' (rewriteCaptures d (capture_map_of caps) ci))
        (rewriteBody (Suc d) (capture_map_of caps) e)"
    proof (cases "ci = NoCaptureInfo")
      case True
      have "scoped (scope_size bs # \<Gamma>') (rewriteBody (Suc d) (capture_map_of caps) e)"
        by (rule ELet(2) [rule_format, OF shrinks_push [OF a(1)]]) (use a True in simp_all)
      then show ?thesis by (simp add: True)
    next
      case False
      then show ?thesis
        using a unchangedD(1) [of 1 e "Suc d"] captured_frames_rewrite [OF False, of \<Gamma>' d "capture_map_of caps" \<Gamma>] by simp
    qed
    show "scoped \<Gamma>' (rewriteBody d (capture_map_of caps) (ELet bs e ci))"
      using s b captured_rewrite [of \<Gamma> ci caps d \<Gamma>'] a by simp
  qed
next
  case (ELambda fs e ci)
  show ?case
  proof (intro allI impI)
    fix d \<Gamma> \<Gamma>'
    assume a: "shrinks caps d \<Gamma> \<Gamma>'" "trimmed (ELambda fs e ci)" "scoped \<Gamma> (ELambda fs e ci)"
      "fst (collectFreeVars d (ELambda fs e ci)) \<subseteq> set caps"
    let ?n = "length (formals_names fs)"
    have b: "scoped (?n # captured_frames \<Gamma>' (rewriteCaptures d (capture_map_of caps) ci)) (rewriteBody (Suc d) (capture_map_of caps) e) \<and>
      scoped_formals (?n # captured_frames \<Gamma>' (rewriteCaptures d (capture_map_of caps) ci))
        (rewriteFormals (Suc d) (capture_map_of caps) fs)"
    proof (cases "ci = NoCaptureInfo")
      case True
      have "scoped_formals (?n # \<Gamma>') (rewriteFormals (Suc d) (capture_map_of caps) fs)"
        by (rule ELambda(1) [rule_format, OF shrinks_push [OF a(1)]]) (use a True in simp_all)
      moreover have "scoped (?n # \<Gamma>') (rewriteBody (Suc d) (capture_map_of caps) e)"
        by (rule ELambda(2) [rule_format, OF shrinks_push [OF a(1)]]) (use a True in simp_all)
      ultimately show ?thesis by (simp add: True)
    next
      case False
      then show ?thesis
        using a unchangedD(1) [of 1 e "Suc d"] unchangedD(6) [of 1 fs "Suc d"]
          captured_frames_rewrite [OF False, of \<Gamma>' d "capture_map_of caps" \<Gamma>] by simp
    qed
    show "scoped \<Gamma>' (rewriteBody d (capture_map_of caps) (ELambda fs e ci))"
      using b captured_rewrite [of \<Gamma> ci caps d \<Gamma>'] a by simp
  qed
next
  case (EResolvedVar level idx)
  show ?case
  proof (intro allI impI)
    fix d \<Gamma> \<Gamma>'
    assume a: "shrinks caps d \<Gamma> \<Gamma>'" "scoped \<Gamma> (EResolvedVar level idx)"
      "fst (collectFreeVars d (EResolvedVar level idx)) \<subseteq> set caps"
    have "rewriteBody d (capture_map_of caps) (EResolvedVar level idx) =
        (case rewriteOne d (capture_map_of caps) (level, idx) of (l, i) \<Rightarrow> EResolvedVar l i)"
      by (simp add: rewriteOne_def split: option.splits)
    moreover have "in_frames \<Gamma>' (rewriteOne d (capture_map_of caps) (level, idx))"
      by (rule in_frames_rewrite [OF _ a(1)]) (use a in \<open>auto split: if_splits\<close>)
    ultimately show "scoped \<Gamma>' (rewriteBody d (capture_map_of caps) (EResolvedVar level idx))"
      by (simp split: prod.splits)
  qed
next
  case (ESelect e ks d)
  then show ?case by (cases d) (auto simp: list_all_iff UN_subset_iff)
next
  case (NamedBinding pos k e)
  then show ?case
    unfolding binding_scoped_def using unchangedD(1) [of 1 e "Suc _"] unchangedD(3) [of 1 k "Suc _"] by (simp split: option.splits)
next
  case (Inherit pos x e)
  then show ?case unfolding binding_scoped_def by (auto split: option.splits)
next
  case (InheritFrom e xs)
  then show ?case
    unfolding binding_scoped_def using unchangedD(1) [of 1 e "Suc _"] by (simp split: option.splits)
next
  case (Formal x d)
  then show ?case by (auto split: option.splits)
qed (auto simp: list_all_iff UN_subset_iff)

lemmas renumbering_scopedD = renumbering_scoped [rule_format]

end
