(* ===== verification/Nova_Frames.thy ===== *)
theory Nova_Frames
  imports Nova_Code Nova_Scoped
begin

section \<open>Eval.hs: the frames that compiled scopes make\<close>

text \<open>
  What the evaluator lays out for a \<open>let\<close>, a recursive set or a call from the decoded bindings and formals: the
  number of slots, the thunk in each and the attributes of the set (src/src/Nix/Eval.hs, the functions marked "must
  stay in sync" with Resolve.hs). A thunk is described by what it defers: an instruction in an environment, or the
  selection of an inherited name from a shared thunk. The names are the texts of symbols.
\<close>

subsection \<open>Bindings\<close>

fun bcIsEligible :: "bc_binding \<Rightarrow> bool" where
  "bcIsEligible (BcNamed p (BcStaticKey sid) v) = True"
| "bcIsEligible (BcInherit p sid v) = True"
| "bcIsEligible (BcInheritFrom v ns) = True"
| "bcIsEligible (BcNamed p (BcDynamicKey k) v) = False"

definition allBcPositional :: "bc_binding list \<Rightarrow> bool" where
  "allBcPositional bs = list_all bcIsEligible bs"

fun countOne :: "nat \<Rightarrow> bc_binding \<Rightarrow> nat" where
  "countOne acc (BcNamed p (BcStaticKey sid) v) = acc + 1"
| "countOne acc (BcInherit p sid v) = acc + 1"
| "countOne acc (BcInheritFrom v ns) = acc + length ns"
| "countOne acc (BcNamed p (BcDynamicKey k) v) = acc"

definition bcBindingSlotCount :: "bc_binding list \<Rightarrow> nat" where
  "bcBindingSlotCount bs = foldl countOne 0 bs"

datatype 'e slot_thunk =
    ThunkBc 'e u32
  | CheapThunkBc 'e u32
  | SyntheticThunk "'e slot_thunk" u32

fun slotThunk :: "'e \<Rightarrow> 'e \<Rightarrow> bc_binding \<Rightarrow> 'e slot_thunk list" where
  "slotThunk recEnv outerEnv (BcNamed p (BcStaticKey sid) valBcIdx) = [ThunkBc recEnv valBcIdx]"
| "slotThunk recEnv outerEnv (BcInherit p sid valBcIdx) = [CheapThunkBc outerEnv valBcIdx]"
| "slotThunk recEnv outerEnv (BcInheritFrom fromBcIdx ns) =
     map (\<lambda>n. case n of BcInheritedName p sid selectBcIdx \<Rightarrow> SyntheticThunk (ThunkBc recEnv fromBcIdx) selectBcIdx) ns"
| "slotThunk recEnv outerEnv (BcNamed p (BcDynamicKey k) v) = []"

definition buildBcSlotThunks :: "'e \<Rightarrow> 'e \<Rightarrow> bc_binding list \<Rightarrow> 'e slot_thunk list" where
  "buildBcSlotThunks recEnv outerEnv bs = concat (map (slotThunk recEnv outerEnv) bs)"

text \<open>An attribute: its position word and its thunk. \<open>tx\<close> is \<open>symbolText\<close>.\<close>

fun inheritedNameText :: "(u32 \<Rightarrow> hs_text) \<Rightarrow> bc_inherited_name \<Rightarrow> hs_text" where
  "inheritedNameText tx (BcInheritedName p sid v) = tx sid"

fun inheritedPos :: "bc_inherited_name \<Rightarrow> u32" where
  "inheritedPos (BcInheritedName p sid v) = p"

fun entryMap_go :: "(u32 \<Rightarrow> hs_text) \<Rightarrow> bc_binding list \<Rightarrow> 't list \<Rightarrow> (hs_text \<Rightarrow> (u32 \<times> 't) option) \<Rightarrow> hs_text \<Rightarrow> (u32 \<times> 't) option" where
  "entryMap_go tx [] ts acc = acc"
| "entryMap_go tx (BcNamed pos (BcStaticKey sid) v # bs) (t # ts) acc = entryMap_go tx bs ts (acc(tx sid \<mapsto> (pos, t)))"
| "entryMap_go tx (BcInherit pos sid v # bs) (t # ts) acc = entryMap_go tx bs ts (acc(tx sid \<mapsto> (pos, t)))"
| "entryMap_go tx (BcInheritFrom v ns # bs) ts acc =
     entryMap_go tx bs (drop (length ns) ts)
       (foldl (\<lambda>a (n, t). a(inheritedNameText tx n \<mapsto> (inheritedPos n, t))) acc (zip ns (take (length ns) ts)))"
| "entryMap_go tx (b # bs) ts acc = entryMap_go tx bs ts acc"

definition buildBcEntryMapFromSlots :: "(u32 \<Rightarrow> hs_text) \<Rightarrow> bc_binding list \<Rightarrow> 't list \<Rightarrow> hs_text \<Rightarrow> (u32 \<times> 't) option" where
  "buildBcEntryMapFromSlots tx bs ts = entryMap_go tx bs ts Map.empty"

fun bcStaticKeys :: "(u32 \<Rightarrow> hs_text) \<Rightarrow> bc_binding \<Rightarrow> hs_text list" where
  "bcStaticKeys tx (BcNamed p (BcStaticKey sid) v) = [tx sid]"
| "bcStaticKeys tx (BcNamed p (BcDynamicKey k) v) = []"
| "bcStaticKeys tx (BcInherit p sid v) = [tx sid]"
| "bcStaticKeys tx (BcInheritFrom v ns) = map (inheritedNameText tx) ns"

definition bcBindingStaticKeys :: "(u32 \<Rightarrow> hs_text) \<Rightarrow> bc_binding list \<Rightarrow> hs_text list" where
  "bcBindingStaticKeys tx bs = concat (map (bcStaticKeys tx) bs)"

subsection \<open>Formals\<close>

text \<open>The argument's attributes by key, in the order of \<open>attrSetKeys\<close>.\<close>

datatype match_error = UnexpectedAttribute hs_text | MissingAttributes "hs_text list" | NotASet

fun efName :: "eval_formal \<Rightarrow> hs_text" where
  "efName (EvalFormal x d) = x"

fun efDefault :: "eval_formal \<Rightarrow> u32 option" where
  "efDefault (EvalFormal x d) = d"

definition checkExtraKeys :: "eval_formal list \<Rightarrow> bool \<Rightarrow> (hs_text \<times> 't) list \<Rightarrow> match_error + unit" where
  "checkExtraKeys efs allowExtra attrs =
     (if allowExtra then Inr ()
      else case filter (\<lambda>k. k \<notin> set (map efName efs)) (map fst attrs) of [] \<Rightarrow> Inr () | k # _ \<Rightarrow> Inl (UnexpectedAttribute k))"

definition checkMissingFormals :: "(hs_text \<times> 't) list \<Rightarrow> eval_formal list \<Rightarrow> match_error + unit" where
  "checkMissingFormals attrs efs =
     (case map efName (filter (\<lambda>f. efDefault f = None \<and> map_of attrs (efName f) = None) efs) of
        [] \<Rightarrow> Inr () | allMissing \<Rightarrow> Inl (MissingAttributes allMissing))"

text \<open>A slot of the call's frame: a thunk of the argument, or a default in the environment being made. The last branch
  is the \<open>error\<close> that the check before rules out.\<close>

datatype 't formal_slot = Given 't | Default u32 | Unreachable

definition resolveOneFormal :: "(hs_text \<times> 't) list \<Rightarrow> eval_formal \<Rightarrow> 't formal_slot" where
  "resolveOneFormal attrs f = (case map_of attrs (efName f) of
     Some t \<Rightarrow> Given t
   | None \<Rightarrow> (case efDefault f of Some bcIdx \<Rightarrow> Default bcIdx | None \<Rightarrow> Unreachable))"

definition matchFormalSet ::
  "eval_formal list \<Rightarrow> bool \<Rightarrow> (hs_text \<times> 't) list option \<Rightarrow> 't option \<Rightarrow> match_error + 't formal_slot list" where
  "matchFormalSet efs allowExtra argVal atThunk = (case argVal of
     None \<Rightarrow> Inl NotASet
   | Some attrs \<Rightarrow> (case checkExtraKeys efs allowExtra attrs of
       Inl e \<Rightarrow> Inl e
     | Inr _ \<Rightarrow> (case checkMissingFormals attrs efs of
         Inl e \<Rightarrow> Inl e
       | Inr _ \<Rightarrow> Inr (case atThunk of
           None \<Rightarrow> map (resolveOneFormal attrs) efs
         | Some at \<Rightarrow> Given at # map (resolveOneFormal attrs) efs))))"

text \<open>\<open>force\<close> is what forcing the argument gives: its attributes if it is a set. A single name does not force.\<close>

fun matchFormals :: "eval_formals \<Rightarrow> 't \<Rightarrow> ('t \<Rightarrow> (hs_text \<times> 't) list option) \<Rightarrow> match_error + 't formal_slot list" where
  "matchFormals (EFName x) argThunk force = Inr [Given argThunk]"
| "matchFormals (EFSet efs allowExtra) argThunk force = matchFormalSet efs allowExtra (force argThunk) None"
| "matchFormals (EFNamedSet x efs allowExtra) argThunk force = matchFormalSet efs allowExtra (force argThunk) (Some argThunk)"

end
