(* ===== verification/Nova_Scoped_Spec.thy ===== *)
theory Nova_Scoped_Spec
  imports Nova_Scoped
begin

section \<open>Both passes keep references in their frames\<close>

text \<open>
  Resolution gives references that lie in their frames, and trimming keeps them there.
\<close>

subsection \<open>Trimming\<close>

lemma captures_free_in_frames:
  assumes "captures_in_frames \<Gamma> ci" and "r \<in> fst (capturesFree d ci)"
  shows "in_frames (drop (Suc d) \<Gamma>) r"
proof -
  have "in_frames (drop (Suc d) \<Gamma>) (l - d - 1, i)" if "in_frames \<Gamma> (l, i)" and "l > d" for l i
    using that by (auto simp: in_frames_def diff_less_mono)
  then show ?thesis using assms
    by (cases ci) (auto simp: capturesFree_def captures_in_frames_def list_all_iff)
qed

lemma not_in_no_frames [simp]: "\<not> in_frames [] r"
  by (simp add: in_frames_def)

text \<open>Under captures the chain ends with them, so nothing in such a scope is free past them.\<close>

lemma captured_drop: "in_frames (drop (Suc d) (captured_frames \<Gamma> ci)) r \<Longrightarrow> in_frames (drop (Suc d) \<Gamma>) r"
  by (cases ci) (simp_all add: captured_frames_def)

lemma free_in_frames:
  "\<forall>d \<Gamma>. scoped \<Gamma> e \<longrightarrow> (\<forall>r \<in> fst (collectFreeVars d e). in_frames (drop (Suc d) \<Gamma>) r)"
  "\<forall>d \<Gamma>. scoped_part \<Gamma> p \<longrightarrow> (\<forall>r \<in> fst (collectPart d p). in_frames (drop (Suc d) \<Gamma>) r)"
  "\<forall>d \<Gamma>. scoped_key \<Gamma> q \<longrightarrow> (\<forall>r \<in> fst (collectKey d q). in_frames (drop (Suc d) \<Gamma>) r)"
  "\<forall>d \<Gamma> \<Gamma>o ou. scoped_binding \<Gamma> \<Gamma>o b \<longrightarrow> (\<forall>r \<in> fst (collectBinding d ou b).
     in_frames (drop (Suc d) \<Gamma>) r \<or> (\<exists>k. ou = Some k \<and> in_frames (drop (Suc k) \<Gamma>o) r))"
  "\<forall>d \<Gamma>. scoped_formal \<Gamma> f \<longrightarrow> (\<forall>r \<in> fst (collectFormal d f). in_frames (drop (Suc d) \<Gamma>) r)"
  "\<forall>d \<Gamma>. scoped_formals \<Gamma> fs \<longrightarrow> (\<forall>r \<in> fst (foldFormalsDefaults d fs). in_frames (drop (Suc d) \<Gamma>) r)"
proof (induction e and p and q and b and f and fs)
  case (EAttrs r bs ci)
  show ?case
  proof (intro allI impI ballI)
    fix d \<Gamma> x
    assume a: "scoped \<Gamma> (EAttrs r bs ci)" "x \<in> fst (collectFreeVars d (EAttrs r bs ci))"
    show "in_frames (drop (Suc d) \<Gamma>) x"
    proof (cases r)
      case True
      then consider b where "b \<in> set bs" "x \<in> fst (collectBinding (Suc d) (Some d) b)" | "x \<in> fst (capturesFree d ci)"
        using a(2) by auto
      then show ?thesis
      proof cases
        case (1 b)
        then show ?thesis using EAttrs [OF 1(1), rule_format, of "scope_size bs # captured_frames \<Gamma> ci" \<Gamma> x "Suc d" "Some d"] a(1) True
          by (auto simp: list_all_iff dest: captured_drop)
      qed (use a(1) True captures_free_in_frames [of \<Gamma> ci x d] in simp)
    next
      case False
      then obtain b where "b \<in> set bs" "x \<in> fst (collectBinding d (Some d) b)" using a(2) by auto
      then show ?thesis using EAttrs [rule_format, of b \<Gamma> \<Gamma> x d "Some d"] a(1) False by (auto simp: list_all_iff)
    qed
  qed
next
  case (ELet bs e ci)
  show ?case
  proof (intro allI impI ballI)
    fix d \<Gamma> x
    assume a: "scoped \<Gamma> (ELet bs e ci)" "x \<in> fst (collectFreeVars d (ELet bs e ci))"
    consider b where "b \<in> set bs" "x \<in> fst (collectBinding (Suc d) (Some d) b)" | "x \<in> fst (collectFreeVars (Suc d) e)"
      | "x \<in> fst (capturesFree d ci)" using a(2) by auto
    then show "in_frames (drop (Suc d) \<Gamma>) x"
    proof cases
      case (1 b)
      then show ?thesis using ELet(1) [OF 1(1), rule_format, of "scope_size bs # captured_frames \<Gamma> ci" \<Gamma> x "Suc d" "Some d"] a(1)
        by (auto simp: list_all_iff dest: captured_drop)
    next
      case 2
      then show ?thesis using ELet(2) [rule_format, of "scope_size bs # captured_frames \<Gamma> ci" x "Suc d"] a(1)
        by (auto dest: captured_drop)
    qed (use a(1) captures_free_in_frames [of \<Gamma> ci x d] in simp)
  qed
next
  case (ELambda fs e ci)
  show ?case
  proof (intro allI impI ballI)
    fix d \<Gamma> x
    assume a: "scoped \<Gamma> (ELambda fs e ci)" "x \<in> fst (collectFreeVars d (ELambda fs e ci))"
    consider "x \<in> fst (foldFormalsDefaults (Suc d) fs)" | "x \<in> fst (collectFreeVars (Suc d) e)"
      | "x \<in> fst (capturesFree d ci)" using a(2) by auto
    then show "in_frames (drop (Suc d) \<Gamma>) x"
    proof cases
      case 1
      then show ?thesis
        using ELambda(1) [rule_format, of "length (formals_names fs) # captured_frames \<Gamma> ci" x "Suc d"] a(1) by (auto dest: captured_drop)
    next
      case 2
      then show ?thesis
        using ELambda(2) [rule_format, of "length (formals_names fs) # captured_frames \<Gamma> ci" x "Suc d"] a(1) by (auto dest: captured_drop)
    qed (use a(1) captures_free_in_frames [of \<Gamma> ci x d] in simp)
  qed
next
  case (EResolvedVar level idx)
  then show ?case by (auto simp: in_frames_def)
next
  case (ESelect e ks d)
  then show ?case by (cases d) (auto simp: list_all_iff)
next
  case (Inherit pos x e)
  then show ?case by (auto split: option.splits)
next
  case (Formal x d)
  then show ?case by (auto split: option.splits)
qed (auto simp: list_all_iff)

lemmas free_in_framesD = free_in_frames [rule_format]

text \<open>A scope that is trimmed: its captures are in the frames around it, and its parts in the captured slots.\<close>

lemma shrinks_captured: "shrinks caps 0 (n # \<Gamma>) [n, length caps]"
  unfolding shrinks_def by (rule exI [of _ "[n]"], rule exI [of _ \<Gamma>]) simp

lemma captured_info [simp]:
  "captured_frames \<Gamma> (capture_info_of caps w) = [length caps]"
  "captures_in_frames \<Gamma> (capture_info_of caps w) \<longleftrightarrow> (\<forall>r \<in> set caps. in_frames \<Gamma> r)"
  by (simp_all add: capture_info_of_def captured_frames_def captures_in_frames_def list_all_iff)

lemma bindings_scoped:
  assumes "list_all trimmed_binding bs" and sc: "list_all (scoped_binding (n # \<Gamma>) \<Gamma>) bs"
  shows "r \<in> fst (foldFree (collectBinding 0 None) bs) \<Longrightarrow> in_frames \<Gamma> r"
    and "fst (foldFree (collectBinding 0 None) bs) \<subseteq> set caps \<Longrightarrow>
      list_all (scoped_binding [n, length caps] \<Gamma>) (map (rewriteBinding 0 None (capture_map_of caps)) bs)"
proof -
  show "in_frames \<Gamma> r" if "r \<in> fst (foldFree (collectBinding 0 None) bs)"
    using that sc free_in_framesD(4) [of "n # \<Gamma>" \<Gamma> _ r 0 None] by (fastforce simp: list_all_iff)
  assume f: "fst (foldFree (collectBinding 0 None) bs) \<subseteq> set caps"
  have "scoped_binding [n, length caps] \<Gamma> (rewriteBinding 0 None (capture_map_of caps) b)" if "b \<in> set bs" for b
    by (rule binding_scopedD(1) [OF renumbering_scopedD(4) _ shrinks_captured])
      (use that assms f in \<open>auto simp: list_all_iff\<close>)
  then show "list_all (scoped_binding [n, length caps] \<Gamma>) (map (rewriteBinding 0 None (capture_map_of caps)) bs)"
    by (simp add: list_all_iff)
qed

lemma trim_trimmed [simp]:
  "fresh e \<Longrightarrow> trimmed (trimExpr e)" "fresh_binding b \<Longrightarrow> trimmed_binding (trimBinding b)"
  "fresh_formals fs \<Longrightarrow> trimmed_formals (trimFormals fs)"
  using trimming_keeps(1,4,6) [where S = "undefined :: (unit, unit, unit, unit, unit) semantics"] by simp_all

lemma trimming_scoped:
  "fresh e \<longrightarrow> (\<forall>\<Gamma>. scoped \<Gamma> e \<longrightarrow> scoped \<Gamma> (trimExpr e))"
  "fresh_part p \<longrightarrow> (\<forall>\<Gamma>. scoped_part \<Gamma> p \<longrightarrow> scoped_part \<Gamma> (trimPart p))"
  "fresh_key q \<longrightarrow> (\<forall>\<Gamma>. scoped_key \<Gamma> q \<longrightarrow> scoped_key \<Gamma> (trimKey q))"
  "fresh_binding b \<longrightarrow> (\<forall>\<Gamma> \<Gamma>o. scoped_binding \<Gamma> \<Gamma>o b \<longrightarrow> scoped_binding \<Gamma> \<Gamma>o (trimBinding b))"
  "fresh_formal f \<longrightarrow> (\<forall>\<Gamma>. scoped_formal \<Gamma> f \<longrightarrow> scoped_formal \<Gamma> (trimFormal f))"
  "fresh_formals fs \<longrightarrow> (\<forall>\<Gamma>. scoped_formals \<Gamma> fs \<longrightarrow> scoped_formals \<Gamma> (trimFormals fs))"
proof (induction e and p and q and b and f and fs)
  case (EAttrs r bs ci)
  show ?case
  proof (intro impI allI)
    fix \<Gamma> assume a: "fresh (EAttrs r bs ci)" "scoped \<Gamma> (EAttrs r bs ci)"
    then have ci: "ci = NoCaptureInfo" by simp
    have tr: "list_all trimmed_binding (map trimBinding bs)"
      using a(1) by (auto simp: list_all_iff)
    show "scoped \<Gamma> (trimExpr (EAttrs r bs ci))"
    proof (cases r)
      case True
      have sc: "list_all (scoped_binding (scope_size bs # \<Gamma>) \<Gamma>) (map trimBinding bs)"
        using EAttrs a True by (auto simp: list_all_iff)
      note c = bindings_scoped [OF tr sc]
      show ?thesis
      proof (cases rule: trimOneRecAttrs_cases [of "map trimBinding bs"])
        case 1
        then show ?thesis using sc True ci by (simp add: Let_def del: map_map)
      next
        case (2 caps w)
        then show ?thesis using c True ci by (simp add: Let_def del: map_map foldFree_simps)
      qed
    next
      case False
      then show ?thesis using EAttrs a by (auto simp: list_all_iff)
    qed
  qed
next
  case (ELet bs e ci)
  show ?case
  proof (intro impI allI)
    fix \<Gamma> assume a: "fresh (ELet bs e ci)" "scoped \<Gamma> (ELet bs e ci)"
    then have ci: "ci = NoCaptureInfo" by simp
    have tr: "list_all trimmed_binding (map trimBinding bs)" "trimmed (trimExpr e)"
      using a(1) by (auto simp: list_all_iff)
    have sc: "list_all (scoped_binding (scope_size bs # \<Gamma>) \<Gamma>) (map trimBinding bs)" "scoped (scope_size bs # \<Gamma>) (trimExpr e)"
      using ELet a ci by (auto simp: list_all_iff)
    note c = bindings_scoped [OF tr(1) sc(1)]
    show "scoped \<Gamma> (trimExpr (ELet bs e ci))"
    proof (cases rule: trimOneLetBlock_cases [of "map trimBinding bs" "trimExpr e"])
      case 1
      then show ?thesis using sc ci by (simp add: Let_def del: map_map)
    next
      case (2 caps w)
      have "scoped [scope_size bs, length caps] (rewriteBody 0 (capture_map_of caps) (trimExpr e))"
        by (rule renumbering_scopedD(1) [OF shrinks_captured tr(2) sc(2)]) (simp add: 2(2))
      moreover have "in_frames \<Gamma> r" if "r \<in> fst (collectFreeVars 0 (trimExpr e))" for r
        using free_in_framesD(1) [OF sc(2) that] by simp
      ultimately show ?thesis using 2 c ci by (auto simp: Let_def simp del: map_map foldFree_simps)
    qed
  qed
next
  case (ELambda fs e ci)
  show ?case
  proof (intro impI allI)
    fix \<Gamma> assume a: "fresh (ELambda fs e ci)" "scoped \<Gamma> (ELambda fs e ci)"
    let ?n = "length (formals_names fs)"
    have ci: "ci = NoCaptureInfo" using a by simp
    have tr: "trimmed_formals (trimFormals fs)" "trimmed (trimExpr e)"
      using a(1) by auto
    have sc: "scoped_formals (?n # \<Gamma>) (trimFormals fs)" "scoped (?n # \<Gamma>) (trimExpr e)"
      using ELambda a ci by auto
    show "scoped \<Gamma> (trimExpr (ELambda fs e ci))"
    proof (cases rule: trimOneLambda_cases [of "trimFormals fs" "trimExpr e"])
      case 1
      then show ?thesis using sc ci by (simp add: Let_def)
    next
      case (2 caps w)
      have "scoped [?n, length caps] (rewriteBody 0 (capture_map_of caps) (trimExpr e))"
        by (rule renumbering_scopedD(1) [OF shrinks_captured tr(2) sc(2)]) (simp add: 2(2))
      moreover have "scoped_formals [?n, length caps] (rewriteFormals 0 (capture_map_of caps) (trimFormals fs))"
        by (rule renumbering_scopedD(6) [OF shrinks_captured tr(1) sc(1)]) (simp add: 2(2))
      moreover have "in_frames \<Gamma> r" if "r \<in> set caps" for r
        using free_in_framesD(1) [OF sc(2), of r 0] free_in_framesD(6) [OF sc(1), of r 0] that 2(2) by auto
      ultimately show ?thesis using 2 ci by (simp add: Let_def)
    qed
  qed
next
  case (ESelect e ks d)
  then show ?case by (cases d) (auto simp: list_all_iff)
next
  case (Formal x d)
  then show ?case by (auto split: option.splits)
qed (auto simp: list_all_iff)

subsection \<open>Resolution\<close>

text \<open>What the parser makes: names, no levels and slots.\<close>

function (sequential) named :: "expr \<Rightarrow> bool" and named_part :: "string_part \<Rightarrow> bool" and named_key :: "attr_key \<Rightarrow> bool"
  and named_binding :: "binding \<Rightarrow> bool" and named_formal :: "formal \<Rightarrow> bool" and named_formals :: "formals \<Rightarrow> bool"
where
  "named (EStr ps) = list_all named_part ps"
| "named (EIndStr ps) = list_all named_part ps"
| "named (EPathStr h ps) = list_all named_part ps"
| "named (EResolvedVar level idx) = False"
| "named (EAttrs r bs ci) = list_all named_binding bs"
| "named (EList es) = list_all named es"
| "named (ESelect e ks d) = (named e \<and> list_all named_key ks \<and> (case d of None \<Rightarrow> True | Some e' \<Rightarrow> named e'))"
| "named (EHasAttr e ks) = (named e \<and> list_all named_key ks)"
| "named (EApp f x) = (named f \<and> named x)"
| "named (ELambda fs b ci) = (named_formals fs \<and> named b)"
| "named (ELet bs b ci) = (list_all named_binding bs \<and> named b)"
| "named (EIf c t e) = (named c \<and> named t \<and> named e)"
| "named (EWith s b) = (named s \<and> named b)"
| "named (EAssert c b) = (named c \<and> named b)"
| "named (EUnary op e) = named e"
| "named (EBinary op a b) = (named a \<and> named b)"
| "named e = True"
| "named_part (StrInterp e) = named e"
| "named_part p = True"
| "named_key (DynamicKey e) = named e"
| "named_key k = True"
| "named_binding (NamedBinding pos k e) = (named_key k \<and> named e)"
| "named_binding (Inherit pos x e) = named e"
| "named_binding (InheritFrom e xs) = named e"
| "named_formal (Formal x d) = (case d of None \<Rightarrow> True | Some e \<Rightarrow> named e)"
| "named_formals (FormalName x) = True"
| "named_formals (FormalSet fs el) = list_all named_formal fs"
| "named_formals (FormalNamedSet x fs el) = list_all named_formal fs"
  by pat_completeness auto

termination
  by (relation "measure (\<lambda>x. case x of
      Inl (Inl e) \<Rightarrow> weight e
    | Inl (Inr (Inl p)) \<Rightarrow> part_weight p
    | Inl (Inr (Inr k)) \<Rightarrow> key_weight k
    | Inr (Inl b) \<Rightarrow> binding_weight b
    | Inr (Inr (Inl f)) \<Rightarrow> formal_weight f
    | Inr (Inr (Inr fs)) \<Rightarrow> formals_weight fs)")
    (auto simp: less_Suc_eq_le dest!: member_weights)

text \<open>A context that a stack of scopes describes.\<close>

fun stack_frames :: "scope_entry list \<Rightarrow> nat list \<Rightarrow> bool" where
  "stack_frames [] \<Gamma> = True"
| "stack_frames (LexicalScope m # st) \<Gamma> = (\<exists>n \<Gamma>'. \<Gamma> = n # \<Gamma>' \<and> (\<forall>i \<in> ran m. i < n) \<and> stack_frames st \<Gamma>')"
| "stack_frames (NameBarrier N # st) \<Gamma> = (\<exists>n \<Gamma>'. \<Gamma> = n # \<Gamma>' \<and> stack_frames st \<Gamma>')"
| "stack_frames (WithBarrier # st) \<Gamma> = stack_frames st \<Gamma>"

lemma resolve_go_scoped:
  assumes "resolve_go x st l c = Inr e" and "stack_frames st (drop l \<Gamma>)"
  shows "scoped \<Gamma> e"
  using assms
proof (induction x st l c rule: resolve_go.induct)
  case (2 x m rest l c)
  from 2(3) obtain n \<Gamma>' where d: "drop l \<Gamma> = n # \<Gamma>'" and m: "\<forall>i \<in> ran m. i < n" and r: "stack_frames rest \<Gamma>'" by auto
  from d have l: "l < length \<Gamma>" "\<Gamma> ! l = n" "drop (Suc l) \<Gamma> = \<Gamma>'"
    by (metis drop_eq_Nil linorder_not_le list.distinct(1), metis hd_drop_conv_nth drop_eq_Nil linorder_not_le list.distinct(1) list.sel(1),
      metis drop_Suc tl_drop list.sel(3))
  show ?case
  proof (cases "m x")
    case None
    then show ?thesis using 2 r l by simp
  next
    case (Some i)
    then show ?thesis using 2(2) m l by (auto simp: in_frames_def intro: ranI)
  qed
next
  case (3 x N rest l c)
  from 3(3) obtain n \<Gamma>' where "drop l \<Gamma> = n # \<Gamma>'" and "stack_frames rest \<Gamma>'" by auto
  then have "stack_frames rest (drop (l + 1) \<Gamma>)" by (metis Suc_eq_plus1 drop_Suc list.sel(3) tl_drop)
  then show ?case using 3 by (auto split: if_splits)
qed (auto split: if_splits)

lemma numbered_frame: "\<forall>i \<in> ran (numbered 0 xs). i < length xs"
proof
  fix i assume "i \<in> ran (numbered 0 xs)"
  then obtain x where "map_of (rev (zip xs [0..<length xs])) x = Some i" by (auto simp: ran_def numbered_def)
  then have "(x, i) \<in> set (zip xs [0..<length xs])" by (auto dest: map_of_SomeD)
  then show "i < length xs" by (auto dest: set_zip_rightD)
qed

lemma stack_frames_push [simp]:
  "stack_frames (lexicalScopeFromFormals fs # st) (n # \<Gamma>) \<longleftrightarrow> (\<forall>i \<in> ran (numbered 0 (formals_names fs)). i < n) \<and> stack_frames st \<Gamma>"
  by (simp add: formals_numbered)

lemma stack_frames_formals: "stack_frames st \<Gamma> \<Longrightarrow> stack_frames (lexicalScopeFromFormals fs # st) (length (formals_names fs) # \<Gamma>)"
  by (simp add: numbered_frame)

lemma stack_frames_bindings: "stack_frames st \<Gamma> \<Longrightarrow> stack_frames (scope_of_bindings bs # st) (scope_size bs # \<Gamma>)"
  using numbered_frame by (simp add: scope_of_bindings_def scope_size_def allStaticSingleKey_def lexicalScopeFromBindings_def)

lemma resolved_names:
  "resolveLetBinding st st' b = Inr b' \<Longrightarrow> bindingNames b' = bindingNames b \<and> isEligible b' = isEligible b"
  "resolveFormal st f = Inr f' \<Longrightarrow> fName f' = fName f"
proof -
  have k: "resolveKey st k = Inr k' \<Longrightarrow> (case k' of StaticKey y \<Rightarrow> k = StaticKey y | DynamicKey _ \<Rightarrow> (\<exists>e. k = DynamicKey e))" for st k k'
    by (cases k) auto
  show "resolveLetBinding st st' b = Inr b' \<Longrightarrow> bindingNames b' = bindingNames b \<and> isEligible b' = isEligible b"
    by (cases b) (fastforce dest: k split: attr_key.splits)+
  show "resolveFormal st f = Inr f' \<Longrightarrow> fName f' = fName f" by (cases f) auto
qed

lemma resolved_scope_size:
  assumes "traverseE (resolveLetBinding st st') bs = Inr bs'"
  shows "scope_size bs' = scope_size bs"
proof -
  from assms have "list_all2 (\<lambda>x y. resolveLetBinding st st' x = Inr y) bs bs'" by simp
  then have "map bindingNames bs' = map bindingNames bs \<and> list_all isEligible bs' = list_all isEligible bs"
    by (induction rule: list_all2_induct) (auto dest: resolved_names)
  then show ?thesis by (simp add: scope_size_def del: map_eq_conv)
qed

lemma resolved_formals_names: "resolveFormalsDefaults st fs = Inr fs' \<Longrightarrow> formals_names fs' = formals_names fs"
proof -
  have "map fName ys = map fName xs" if "list_all2 (\<lambda>x y. resolveFormal st x = Inr y) xs ys" for xs ys
    using that by (induction rule: list_all2_induct) (auto dest: resolved_names)
  then show "resolveFormalsDefaults st fs = Inr fs' \<Longrightarrow> formals_names fs' = formals_names fs" by (cases fs) auto
qed

lemma traverse_all:
  assumes "traverseE g xs = Inr ys" and "\<And>x y. x \<in> set xs \<Longrightarrow> g x = Inr y \<Longrightarrow> P y"
  shows "list_all P ys"
  using list_all2_imp_all [of "\<lambda>x y. g x = Inr y" xs ys P] assms by simp

lemma resolution_scoped:
  "\<forall>st \<Gamma> e'. named e \<longrightarrow> stack_frames st \<Gamma> \<longrightarrow> resolve st e = Inr e' \<longrightarrow> scoped \<Gamma> e'"
  "\<forall>st \<Gamma> p'. named_part p \<longrightarrow> stack_frames st \<Gamma> \<longrightarrow> resolvePart st p = Inr p' \<longrightarrow> scoped_part \<Gamma> p'"
  "\<forall>st \<Gamma> q'. named_key q \<longrightarrow> stack_frames st \<Gamma> \<longrightarrow> resolveKey st q = Inr q' \<longrightarrow> scoped_key \<Gamma> q'"
  "named_binding b \<longrightarrow>
    (\<forall>st \<Gamma> b'. stack_frames st \<Gamma> \<longrightarrow> resolveBinding st b = Inr b' \<longrightarrow> scoped_binding \<Gamma> \<Gamma> b') \<and>
    (\<forall>st st' \<Gamma> \<Gamma>o b'. stack_frames st' \<Gamma> \<longrightarrow> stack_frames st \<Gamma>o \<longrightarrow> resolveLetBinding st st' b = Inr b' \<longrightarrow> scoped_binding \<Gamma> \<Gamma>o b')"
  "\<forall>st \<Gamma> f'. named_formal f \<longrightarrow> stack_frames st \<Gamma> \<longrightarrow> resolveFormal st f = Inr f' \<longrightarrow> scoped_formal \<Gamma> f'"
  "\<forall>st \<Gamma> fs'. named_formals fs \<longrightarrow> stack_frames st \<Gamma> \<longrightarrow> resolveFormalsDefaults st fs = Inr fs' \<longrightarrow> scoped_formals \<Gamma> fs'"
proof (induction e and p and q and b and f and fs)
  case (EStr ps)
  have t: "list_all (scoped_part \<Gamma>) ys" if "traverseE (resolvePart st) ps = Inr ys" "list_all named_part ps" "stack_frames st \<Gamma>" for st ys \<Gamma>
    by (rule traverse_all [OF that(1)]) (use EStr that in \<open>auto simp: list_all_iff\<close>)
  then show ?case by (auto simp del: traverseE_Inr)
next
  case (EIndStr ps)
  have t: "list_all (scoped_part \<Gamma>) ys" if "traverseE (resolvePart st) ps = Inr ys" "list_all named_part ps" "stack_frames st \<Gamma>" for st ys \<Gamma>
    by (rule traverse_all [OF that(1)]) (use EIndStr that in \<open>auto simp: list_all_iff\<close>)
  then show ?case by (auto simp del: traverseE_Inr)
next
  case (EPathStr h ps)
  have t: "list_all (scoped_part \<Gamma>) ys" if "traverseE (resolvePart st) ps = Inr ys" "list_all named_part ps" "stack_frames st \<Gamma>" for st ys \<Gamma>
    by (rule traverse_all [OF that(1)]) (use EPathStr that in \<open>auto simp: list_all_iff\<close>)
  then show ?case by (auto simp del: traverseE_Inr)
next
  case (EList es)
  have t: "list_all (scoped \<Gamma>) ys" if "traverseE (resolve st) es = Inr ys" "list_all named es" "stack_frames st \<Gamma>" for st ys \<Gamma>
    by (rule traverse_all [OF that(1)]) (use EList that in \<open>auto simp: list_all_iff\<close>)
  then show ?case by (auto simp del: traverseE_Inr)
next
  case (ESelect e ks d)
  have t: "list_all (scoped_key \<Gamma>) ys" if "traverseE (resolveKey st) ks = Inr ys" "list_all named_key ks" "stack_frames st \<Gamma>" for st ys \<Gamma>
    by (rule traverse_all [OF that(1)]) (use ESelect(2) that in \<open>auto simp: list_all_iff\<close>)
  then show ?case using ESelect(1,3) by (cases d) (auto simp del: traverseE_Inr)
next
  case (EHasAttr e ks)
  have t: "list_all (scoped_key \<Gamma>) ys" if "traverseE (resolveKey st) ks = Inr ys" "list_all named_key ks" "stack_frames st \<Gamma>" for st ys \<Gamma>
    by (rule traverse_all [OF that(1)]) (use EHasAttr(2) that in \<open>auto simp: list_all_iff\<close>)
  then show ?case using EHasAttr(1) by (auto simp del: traverseE_Inr)
next
  case (FormalSet fs el)
  have t: "list_all (scoped_formal \<Gamma>) ys" if "traverseE (resolveFormal st) fs = Inr ys" "list_all named_formal fs" "stack_frames st \<Gamma>" for st ys \<Gamma>
    by (rule traverse_all [OF that(1)]) (use FormalSet that in \<open>auto simp: list_all_iff\<close>)
  then show ?case by (auto simp del: traverseE_Inr)
next
  case (FormalNamedSet x fs el)
  have t: "list_all (scoped_formal \<Gamma>) ys" if "traverseE (resolveFormal st) fs = Inr ys" "list_all named_formal fs" "stack_frames st \<Gamma>" for st ys \<Gamma>
    by (rule traverse_all [OF that(1)]) (use FormalNamedSet that in \<open>auto simp: list_all_iff\<close>)
  then show ?case by (auto simp del: traverseE_Inr)
next
  case (EAttrs r bs ci)
  have t: "list_all (scoped_binding (scope_size ys # \<Gamma>) \<Gamma>) ys"
    if "traverseE (resolveLetBinding st (scope_of_bindings bs # st)) bs = Inr ys" "list_all named_binding bs" "stack_frames st \<Gamma>" for st ys \<Gamma>
    unfolding resolved_scope_size [OF that(1)]
    by (rule traverse_all [OF that(1)]) (use EAttrs that(2,3) stack_frames_bindings [OF that(3), of bs] in \<open>auto simp: list_all_iff, blast?\<close>)
  have u: "list_all (scoped_binding \<Gamma> \<Gamma>) ys"
    if "traverseE (resolveBinding st) bs = Inr ys" "list_all named_binding bs" "stack_frames st \<Gamma>" for st ys \<Gamma>
    by (rule traverse_all [OF that(1)]) (use EAttrs that in \<open>auto simp: list_all_iff\<close>)
  show ?case using t u by (cases r) (auto simp del: traverseE_Inr)
next
  case (ELet bs e ci)
  have t: "list_all (scoped_binding (scope_size ys # \<Gamma>) \<Gamma>) ys"
    if "traverseE (resolveLetBinding st (scope_of_bindings bs # st)) bs = Inr ys" "list_all named_binding bs" "stack_frames st \<Gamma>" for st ys \<Gamma>
    unfolding resolved_scope_size [OF that(1)]
    by (rule traverse_all [OF that(1)]) (use ELet(1) that(2,3) stack_frames_bindings [OF that(3), of bs] in \<open>auto simp: list_all_iff, blast?\<close>)
  have "scoped (scope_size ys # \<Gamma>) e'"
    if "resolve (scope_of_bindings bs # st) e = Inr e'" "traverseE (resolveLetBinding st (scope_of_bindings bs # st)) bs = Inr ys"
      "named e" "stack_frames st \<Gamma>" for st \<Gamma> e' ys
    using ELet(2) that stack_frames_bindings [OF that(4)] resolved_scope_size [OF that(2)] by auto
  with t show ?case by (auto simp: Let_def simp del: traverseE_Inr)
next
  case (ELambda fs e ci)
  have "scoped_formals (length (formals_names fs') # \<Gamma>) fs' \<and> scoped (length (formals_names fs') # \<Gamma>) e'"
    if "resolveFormalsDefaults (lexicalScopeFromFormals fs # st) fs = Inr fs'" "resolve (lexicalScopeFromFormals fs # st) e = Inr e'"
      "named_formals fs" "named e" "stack_frames st \<Gamma>" for st \<Gamma> fs' e'
    unfolding resolved_formals_names [OF that(1)] using ELambda that stack_frames_formals [OF that(5), of fs] by blast
  then show ?case by (auto simp: Let_def)
next
  case (EVar x)
  then show ?case using resolve_go_scoped [of x _ 0 False] by (auto simp: resolveVar_def)
next
  case (ESearchPath x)
  then show ?case using resolve_go_scoped [of _ _ 0 False] by (fastforce simp: resolveVar_def)
next
  case (EWith s e)
  have "scoped \<Gamma> e'" if "resolve (WithBarrier # st) e = Inr e'" "named e" "stack_frames st \<Gamma>" for st \<Gamma> e'
    using EWith(2) that stack_frames.simps(4) by blast
  then show ?case using EWith(1) by auto
next
  case (Formal x d)
  then show ?case by (cases d) auto
qed auto

lemmas resolution_scopedD = resolution_scoped(1) [rule_format]

end
