(* ===== verification/Nova_Frames_Spec.thy ===== *)
theory Nova_Frames_Spec
  imports Nova_Frames Nova_Scoped_Spec
begin

section \<open>Frames agree with resolution\<close>

text \<open>
  The slots that the evaluator fills for bindings and formals are, in order, the names that resolution
  numbered.
\<close>

subsection \<open>Updates in order\<close>

lemma map_upds_append:
  "length xs = length us \<Longrightarrow> m(xs @ ys [\<mapsto>] us @ vs) = (m(xs [\<mapsto>] us))(ys [\<mapsto>] vs)"
  by (simp add: map_upds_def)

lemma foldl_upds:
  "length ns = length ts \<Longrightarrow> foldl (\<lambda>a (n, t). a(f n \<mapsto> (p n, t))) acc (zip ns ts) = acc(map f ns [\<mapsto>] zip (map p ns) ts)"
  by (induction ns ts arbitrary: acc rule: list_induct2) simp_all

lemma numbered_reads:
  assumes "length vs = length xs"
  shows "(Map.empty(xs [\<mapsto>] vs)) x = map_option (\<lambda>i. vs ! i) (numbered 0 xs x)"
proof -
  have "map ((!) vs) [0..<length xs] = vs" using assms map_nth [of vs] by simp
  then have "Map.empty(xs [\<mapsto>] vs) = (\<lambda>x. case numbered 0 xs x of Some i \<Rightarrow> Some (vs ! i) | None \<Rightarrow> None)"
    using numbered_binds [where k = 0 and xs = xs and f = "(!) vs" and \<rho> = Map.empty] by simp
  then show ?thesis by (simp split: option.splits)
qed

subsection \<open>Bindings\<close>

text \<open>The position words of the slots.\<close>

fun slot_positions :: "bc_binding \<Rightarrow> u32 list" where
  "slot_positions (BcNamed p (BcStaticKey sid) v) = [p]"
| "slot_positions (BcNamed p (BcDynamicKey k) v) = []"
| "slot_positions (BcInherit p sid v) = [p]"
| "slot_positions (BcInheritFrom v ns) = map inheritedPos ns"

lemma slots_length:
  "length (slotThunk r ou b) = length (bcStaticKeys tx b)" "length (slot_positions b) = length (bcStaticKeys tx b)"
  by (cases b rule: bcIsEligible.cases; simp)+

lemma countOne_eq: "countOne acc b = acc + length (bcStaticKeys tx b)"
  by (cases b rule: bcIsEligible.cases) simp_all

lemma slot_count: "bcBindingSlotCount bs = length (bcBindingStaticKeys tx bs)"
proof -
  have "foldl countOne acc bs = acc + length (bcBindingStaticKeys tx bs)" for acc
    by (induction bs arbitrary: acc) (simp_all add: bcBindingStaticKeys_def countOne_eq [of _ _ tx])
  then show ?thesis by (simp add: bcBindingSlotCount_def)
qed

lemma thunks_length: "length (buildBcSlotThunks r ou bs) = length (bcBindingStaticKeys tx bs)"
  by (induction bs) (simp_all add: buildBcSlotThunks_def bcBindingStaticKeys_def slots_length(1) [of _ _ _ tx])

lemma positions_length: "length (concat (map slot_positions bs)) = length (bcBindingStaticKeys tx bs)"
  by (induction bs) (simp_all add: bcBindingStaticKeys_def slots_length(2) [of _ tx])

lemma entry_map:
  assumes "allBcPositional bs" and "length ts = length (bcBindingStaticKeys tx bs)"
  shows "entryMap_go tx bs ts acc = acc(bcBindingStaticKeys tx bs [\<mapsto>] zip (concat (map slot_positions bs)) ts)"
  using assms
proof (induction tx bs ts acc rule: entryMap_go.induct)
  case (4 tx v ns bs ts acc)
  have len: "length ns = length (take (length ns) ts)" using 4(3) by (simp add: bcBindingStaticKeys_def)
  have ts: "zip (map inheritedPos ns @ ps) ts = zip (map inheritedPos ns) (take (length ns) ts) @ zip ps (drop (length ns) ts)" for ps
    by (simp add: zip_append1)
  have "entryMap_go tx bs (drop (length ns) ts) acc' =
      acc'(bcBindingStaticKeys tx bs [\<mapsto>] zip (concat (map slot_positions bs)) (drop (length ns) ts))"
    if "acc' = foldl (\<lambda>a (n, t). a(inheritedNameText tx n \<mapsto> (inheritedPos n, t))) acc (zip ns (take (length ns) ts))" for acc'
    unfolding that using 4 by (simp add: allBcPositional_def bcBindingStaticKeys_def)
  then show ?case using len
    by (simp add: bcBindingStaticKeys_def ts foldl_upds [OF len] map_upds_append)
qed (simp_all add: allBcPositional_def bcBindingStaticKeys_def)

text \<open>Decoded bindings of some source bindings.\<close>

lemma binding_names_agree:
  assumes "binding_code dbg l j b v" and tx: "\<And>sid x. names l sid x \<Longrightarrow> tx sid = x"
  shows "bcIsEligible v = isEligible b" and "bcStaticKeys tx v = bindingNames b"
proof -
  have ns: "list_all2 (inherited_code dbg l j) xs ns \<Longrightarrow> map (inheritedNameText tx) ns = map in_name xs" for xs ns
  proof (induction rule: list_all2_induct)
    case (Cons x xs n ns)
    then show ?case by (cases x; cases n) (simp add: tx)
  qed simp
  show "bcIsEligible v = isEligible b"
    using assms(1) by (cases b; cases v; simp) (cases "(b, v)"; auto elim: key_code.elims)
  show "bcStaticKeys tx v = bindingNames b"
    using assms(1) ns tx by (cases b; cases v; simp) (auto elim: key_code.elims)
qed

text \<open>The thunks that the slots of one binding hold.\<close>

fun slots_mean :: "bool \<Rightarrow> data_layer \<Rightarrow> nat \<Rightarrow> 'e \<Rightarrow> 'e \<Rightarrow> binding \<Rightarrow> 'e slot_thunk list \<Rightarrow> bool" where
  "slots_mean dbg l j recEnv outerEnv (NamedBinding pos k e) ts \<longleftrightarrow> (\<exists>v. ts = [ThunkBc recEnv v] \<and> code dbg l j e v)"
| "slots_mean dbg l j recEnv outerEnv (Inherit pos x e) ts \<longleftrightarrow> (\<exists>v. ts = [CheapThunkBc outerEnv v] \<and> code dbg l j e v)"
| "slots_mean dbg l j recEnv outerEnv (InheritFrom e xs) ts \<longleftrightarrow> (\<exists>v. code dbg l j e v \<and>
     list_all2 (\<lambda>x t. \<exists>s. t = SyntheticThunk (ThunkBc recEnv v) s \<and>
       code dbg l j (ESelect (EResolvedVar 0 0) [StaticKey (in_name x)] None) s) xs ts)"

lemma slot_thunk_means:
  assumes "binding_code dbg l j b v" and "isEligible b"
  shows "slots_mean dbg l j r ou b (slotThunk r ou v)"
proof -
  have ns: "list_all2 (\<lambda>x t. \<exists>s. t = SyntheticThunk (ThunkBc r f) s \<and>
      code dbg l j (ESelect (EResolvedVar 0 0) [StaticKey (in_name x)] None) s) xs (slotThunk r ou (BcInheritFrom f ns))"
    if "list_all2 (inherited_code dbg l j) xs ns" for f xs ns
    using that
  proof (induction rule: list_all2_induct)
    case (Cons x xs n ns)
    then show ?case by (cases x; cases n) (simp del: code.simps)
  qed simp
  show ?thesis
  proof (cases b)
    case (NamedBinding pos k e)
    then obtain p kv i where "v = BcNamed p kv i" "key_code dbg l j k kv" "code dbg l j e i" using assms(1) by (cases v) auto
    moreover obtain x where "k = StaticKey x" using assms(2) NamedBinding by (cases k) auto
    ultimately show ?thesis using NamedBinding by (cases kv) auto
  next
    case (Inherit pos x e)
    then show ?thesis using assms(1) by (cases v) auto
  next
    case (InheritFrom e xs)
    then obtain f ns' where v: "v = BcInheritFrom f ns'" "code dbg l j e f" "list_all2 (inherited_code dbg l j) xs ns'"
      using assms(1) by (cases v) auto
    show ?thesis unfolding InheritFrom v(1) slots_mean.simps using v(2) ns [OF v(3), of f] by blast
  qed
qed

lemma decoded_names:
  assumes "list_all2 (binding_code dbg l j) bs vs" and "\<And>sid x. names l sid x \<Longrightarrow> tx sid = x"
  shows "allBcPositional vs = allStaticSingleKey bs" and "bcBindingStaticKeys tx vs = concat (map bindingNames bs)"
proof -
  have "allBcPositional vs = allStaticSingleKey bs \<and> bcBindingStaticKeys tx vs = concat (map bindingNames bs)"
    using assms(1)
  proof (induction rule: list_all2_induct)
    case (Cons b bs v vs)
    have "bcIsEligible v = isEligible b" "bcStaticKeys tx v = bindingNames b"
      using binding_names_agree [OF Cons(1)] assms(2) by blast+
    then show ?case using Cons by (simp add: allBcPositional_def allStaticSingleKey_def bcBindingStaticKeys_def)
  qed (simp add: allBcPositional_def allStaticSingleKey_def bcBindingStaticKeys_def)
  then show "allBcPositional vs = allStaticSingleKey bs" "bcBindingStaticKeys tx vs = concat (map bindingNames bs)" by blast+
qed

lemma decoded_thunks:
  assumes "list_all2 (binding_code dbg l j) bs vs" and "allStaticSingleKey bs"
  shows "\<exists>tss. buildBcSlotThunks r ou vs = concat tss \<and> list_all2 (slots_mean dbg l j r ou) bs tss"
proof (intro exI conjI)
  show "buildBcSlotThunks r ou vs = concat (map (slotThunk r ou) vs)" by (simp add: buildBcSlotThunks_def)
  show "list_all2 (slots_mean dbg l j r ou) bs (map (slotThunk r ou) vs)"
    using assms
  proof (induction rule: list_all2_induct)
    case (Cons b bs v vs)
    then show ?case using slot_thunk_means [OF Cons(1), of r ou] by (simp add: allStaticSingleKey_def)
  qed simp
qed

lemma decoded_entries:
  assumes "list_all2 (binding_code dbg l j) bs vs" and tx: "\<And>sid x. names l sid x \<Longrightarrow> tx sid = x" and "allStaticSingleKey bs"
    and ts: "ts = buildBcSlotThunks r ou vs"
  shows "buildBcEntryMapFromSlots tx vs ts x =
    map_option (\<lambda>i. (concat (map slot_positions vs) ! i, ts ! i)) (numbered 0 (concat (map bindingNames bs)) x)"
proof -
  let ?xs = "concat (map bindingNames bs)" and ?ps = "concat (map slot_positions vs)"
  note n = decoded_names [OF assms(1) tx]
  have len: "length ?ps = length ?xs" "length ts = length ?xs"
    using positions_length [of vs tx] thunks_length [of r ou vs tx] n(2) by (simp_all add: ts)
  have "buildBcEntryMapFromSlots tx vs ts = Map.empty(?xs [\<mapsto>] zip ?ps ts)"
    using entry_map [of vs ts tx Map.empty] n assms(3) len(2) by (simp add: buildBcEntryMapFromSlots_def)
  then have "buildBcEntryMapFromSlots tx vs ts x = map_option (\<lambda>i. zip ?ps ts ! i) (numbered 0 ?xs x)"
    using numbered_reads [of "zip ?ps ts" ?xs x] len by simp
  moreover have "zip ?ps ts ! i = (?ps ! i, ts ! i)" if "numbered 0 ?xs x = Some i" for i
  proof -
    have "i < length ?xs" using numbered_frame [of ?xs] that by (auto intro: ranI)
    then show ?thesis using len by simp
  qed
  ultimately show ?thesis by (cases "numbered 0 ?xs x") simp_all
qed

subsection \<open>Formals\<close>

text \<open>What the slot of a formal holds: the argument's attribute, or the default when there is none.\<close>

definition formal_slot_means :: "bool \<Rightarrow> data_layer \<Rightarrow> nat \<Rightarrow> (hs_text \<times> 't) list \<Rightarrow> formal \<Rightarrow> 't formal_slot \<Rightarrow> bool" where
  "formal_slot_means dbg l j attrs f s \<longleftrightarrow> (case map_of attrs (fName f) of
     Some t \<Rightarrow> s = Given t
   | None \<Rightarrow> (\<exists>x e v. f = Formal x (Some e) \<and> s = Default v \<and> code dbg l j e v))"

lemma formal_slot:
  assumes "formal_code dbg l j f ef" and "\<not> (efDefault ef = None \<and> map_of attrs (efName ef) = None)"
  shows "formal_slot_means dbg l j attrs f (resolveOneFormal attrs ef)"
  using assms by (cases f; cases ef) (auto simp: formal_slot_means_def resolveOneFormal_def split: option.splits)

lemma formal_slots:
  assumes "list_all2 (formal_code dbg l j) fs efs" and "checkMissingFormals attrs efs = Inr ()"
  shows "list_all2 (formal_slot_means dbg l j attrs) fs (map (resolveOneFormal attrs) efs)"
proof -
  have "\<forall>ef \<in> set efs. \<not> (efDefault ef = None \<and> map_of attrs (efName ef) = None)"
    using assms(2) by (auto simp: checkMissingFormals_def filter_empty_conv split: list.splits)
  with assms(1) show ?thesis
    by (induction rule: list_all2_induct) (simp_all add: formal_slot)
qed

lemma code_names:
  "list_all2 (formal_code dbg l j) fs efs \<Longrightarrow> map efName efs = map fName fs"
proof (induction rule: list_all2_induct)
  case (Cons f fs ef efs)
  then show ?case by (cases f; cases ef) simp
qed simp

end
