(* ===== verification/Nova_Paths.thy ===== *)
theory Nova_Paths
  imports Nova_Scoped_Spec
begin

section \<open>Expr/Resolve.hs: relative paths\<close>

text \<open>
  \<open>resolveRelativePaths\<close> makes every relative path literal absolute, against the directory of the file it was
  written in. \<open>isRelative\<close> and \<open></>\<close> are functions of the package filepath, which is not in the repository: they
  are the parameters \<open>rel\<close> and \<open>join\<close> (the directory applied).
\<close>

definition homeRelative :: "hs_text \<Rightarrow> bool" where
  "homeRelative p \<longleftrightarrow> take 2 p = ascii ''~/''"

definition abs_path :: "(hs_text \<Rightarrow> bool) \<Rightarrow> (hs_text \<Rightarrow> hs_text) \<Rightarrow> hs_text \<Rightarrow> hs_text" where
  "abs_path rel join p = (if homeRelative p then p else if rel p then join p else p)"

function (sequential) goExpr :: "(hs_text \<Rightarrow> bool) \<Rightarrow> (hs_text \<Rightarrow> hs_text) \<Rightarrow> expr \<Rightarrow> expr"
  and goPart :: "(hs_text \<Rightarrow> bool) \<Rightarrow> (hs_text \<Rightarrow> hs_text) \<Rightarrow> string_part \<Rightarrow> string_part"
  and goKey :: "(hs_text \<Rightarrow> bool) \<Rightarrow> (hs_text \<Rightarrow> hs_text) \<Rightarrow> attr_key \<Rightarrow> attr_key"
  and goBinding :: "(hs_text \<Rightarrow> bool) \<Rightarrow> (hs_text \<Rightarrow> hs_text) \<Rightarrow> binding \<Rightarrow> binding"
  and goFormal :: "(hs_text \<Rightarrow> bool) \<Rightarrow> (hs_text \<Rightarrow> hs_text) \<Rightarrow> formal \<Rightarrow> formal"
  and goFormals :: "(hs_text \<Rightarrow> bool) \<Rightarrow> (hs_text \<Rightarrow> hs_text) \<Rightarrow> formals \<Rightarrow> formals"
where
  "goExpr rel join (ELit (NixPath p)) =
     (if homeRelative p then ELit (NixPath p) else if rel p then ELit (NixPath (join p)) else ELit (NixPath p))"
| "goExpr rel join (ELit a) = ELit a"
| "goExpr rel join (EStr ps) = EStr (map (goPart rel join) ps)"
| "goExpr rel join (EIndStr ps) = EIndStr (map (goPart rel join) ps)"
| "goExpr rel join (EPathStr h ps) =
     (if \<not> homeRelative h \<and> rel h then EPathStr (join h) (map (goPart rel join) ps) else EPathStr h (map (goPart rel join) ps))"
| "goExpr rel join (EVar x) = EVar x"
| "goExpr rel join (EWithVar x) = EWithVar x"
| "goExpr rel join (EResolvedVar level idx) = EResolvedVar level idx"
| "goExpr rel join (EAttrs isRec bs ci) = EAttrs isRec (map (goBinding rel join) bs) ci"
| "goExpr rel join (EList es) = EList (map (goExpr rel join) es)"
| "goExpr rel join (ESelect tgt path d) = ESelect (goExpr rel join tgt) (map (goKey rel join) path)
     (case d of None \<Rightarrow> None | Some e \<Rightarrow> Some (goExpr rel join e))"
| "goExpr rel join (EHasAttr tgt path) = EHasAttr (goExpr rel join tgt) (map (goKey rel join) path)"
| "goExpr rel join (EApp f x) = EApp (goExpr rel join f) (goExpr rel join x)"
| "goExpr rel join (ELambda fs b ci) = ELambda (goFormals rel join fs) (goExpr rel join b) ci"
| "goExpr rel join (ELet bs b ci) = ELet (map (goBinding rel join) bs) (goExpr rel join b) ci"
| "goExpr rel join (EIf c t f) = EIf (goExpr rel join c) (goExpr rel join t) (goExpr rel join f)"
| "goExpr rel join (EWith s b) = EWith (goExpr rel join s) (goExpr rel join b)"
| "goExpr rel join (EAssert c b) = EAssert (goExpr rel join c) (goExpr rel join b)"
| "goExpr rel join (EUnary op e) = EUnary op (goExpr rel join e)"
| "goExpr rel join (EBinary op l r) = EBinary op (goExpr rel join l) (goExpr rel join r)"
| "goExpr rel join (ESearchPath x) = ESearchPath x"
| "goPart rel join (StrLit s) = StrLit s"
| "goPart rel join (StrEsc s) = StrEsc s"
| "goPart rel join (StrInterp e) = StrInterp (goExpr rel join e)"
| "goKey rel join (StaticKey x) = StaticKey x"
| "goKey rel join (DynamicKey e) = DynamicKey (goExpr rel join e)"
| "goBinding rel join (NamedBinding pos key e) = NamedBinding pos (goKey rel join key) (goExpr rel join e)"
| "goBinding rel join (Inherit pos x v) = Inherit pos x (goExpr rel join v)"
| "goBinding rel join (InheritFrom e xs) = InheritFrom (goExpr rel join e) xs"
| "goFormal rel join (Formal x d) = Formal x (case d of None \<Rightarrow> None | Some e \<Rightarrow> Some (goExpr rel join e))"
| "goFormals rel join (FormalName x) = FormalName x"
| "goFormals rel join (FormalSet fs el) = FormalSet (map (goFormal rel join) fs) el"
| "goFormals rel join (FormalNamedSet x fs el) = FormalNamedSet x (map (goFormal rel join) fs) el"
  by pat_completeness auto

termination
  by (relation "measure (\<lambda>x. case x of
      Inl (Inl (_, _, e)) \<Rightarrow> weight e
    | Inl (Inr (Inl (_, _, p))) \<Rightarrow> part_weight p
    | Inl (Inr (Inr (_, _, k))) \<Rightarrow> key_weight k
    | Inr (Inl (_, _, b)) \<Rightarrow> binding_weight b
    | Inr (Inr (Inl (_, _, f))) \<Rightarrow> formal_weight f
    | Inr (Inr (Inr (_, _, fs))) \<Rightarrow> formals_weight fs)")
    (auto simp: less_Suc_eq_le dest!: member_weights)

text \<open>\<open>joinIn dir p\<close> is \<open>dir </> p\<close>.\<close>

definition resolveRelativePaths :: "(hs_text \<Rightarrow> bool) \<Rightarrow> (hs_text \<Rightarrow> hs_text \<Rightarrow> hs_text) \<Rightarrow> hs_text \<Rightarrow> expr \<Rightarrow> expr" where
  "resolveRelativePaths rel joinIn dir e = goExpr rel (joinIn dir) e"

subsection \<open>What the pass does to the meaning\<close>

text \<open>Making paths absolute first is evaluating with nodes whose paths are made absolute.\<close>

fun abs_node :: "(hs_text \<Rightarrow> bool) \<Rightarrow> (hs_text \<Rightarrow> hs_text) \<Rightarrow> ('v, 'm, 'n, 'w, 'd) node \<Rightarrow> ('v, 'm, 'n, 'w, 'd) node" where
  "abs_node rel join (NAtom (NixPath p)) = NAtom (NixPath (abs_path rel join p))"
| "abs_node rel join (NPath h ps) = NPath (abs_path rel join h) ps"
| "abs_node rel join n = n"

definition in_directory :: "(hs_text \<Rightarrow> bool) \<Rightarrow> (hs_text \<Rightarrow> hs_text) \<Rightarrow> ('v, 'm, 'n, 'w, 'd) semantics \<Rightarrow> ('v, 'm, 'n, 'w, 'd) semantics" where
  "in_directory rel join S = S\<lparr>sem_node := \<lambda>n. sem_node S (abs_node rel join n)\<rparr>"

lemma in_directory_simps [simp]:
  "sem_node (in_directory rel join S) n = sem_node S (abs_node rel join n)"
  "sem_with (in_directory rel join S) = sem_with S" "sem_names (in_directory rel join S) = sem_names S"
  "sem_no_names (in_directory rel join S) = sem_no_names S" "sem_no_withs (in_directory rel join S) = sem_no_withs S"
  "sem_dangling (in_directory rel join S) = sem_dangling S"
  by (simp_all add: in_directory_def)

lemma in_directory_env [simp]:
  "buildCaptureEnv (in_directory rel join S) = buildCaptureEnv S"
  "push_frame (in_directory rel join S) = push_frame S" "push_with (in_directory rel join S) = push_with S"
  by (simp_all add: fun_eq_iff buildCaptureEnv_def push_frame_def push_with_def split: capture_info.splits)

lemma paths_keep:
  fixes S :: "('v, 'm, 'n, 'w, 'd) semantics"
  shows
  "\<forall>env. den S (goExpr rel join e) env = den (in_directory rel join S) e env"
  "\<forall>env. den_part S env (goPart rel join p) = den_part (in_directory rel join S) env p"
  "\<forall>env. den_key S env (goKey rel join q) = den_key (in_directory rel join S) env q"
  "\<forall>env outer. den_binding S env outer (goBinding rel join b) = den_binding (in_directory rel join S) env outer b"
  "\<forall>env. den_formal S env (goFormal rel join f) = den_formal (in_directory rel join S) env f"
  "\<forall>env. den_formals S env (goFormals rel join fs) = den_formals (in_directory rel join S) env fs"
proof (induction e and p and q and b and f and fs)
  case (ELit a)
  then show ?case by (cases a) (simp_all add: abs_path_def)
next
  case (EPathStr h ps)
  then show ?case by (auto simp: abs_path_def cong: map_cong)
next
  case (ESelect e ks d)
  then show ?case by (cases d) (auto cong: map_cong)
next
  case (Formal x d)
  then show ?case by (cases d) auto
qed (simp_all cong: map_cong)

lemmas paths_keepD = paths_keep(1) [rule_format]

lemma go_names [simp]:
  "bindingNames (goBinding rel join b) = bindingNames b" "isEligible (goBinding rel join b) = isEligible b"
  "fName (goFormal rel join f) = fName f" "formals_names (goFormals rel join fs) = formals_names fs"
proof -
  show "bindingNames (goBinding rel join b) = bindingNames b"
    by (cases b rule: bindingNames.cases) simp_all
  show "isEligible (goBinding rel join b) = isEligible b"
    by (cases b rule: isEligible.cases) simp_all
  have f: "fName (goFormal rel join f) = fName f" for f by (cases f) simp
  then show "fName (goFormal rel join f) = fName f" .
  show "formals_names (goFormals rel join fs) = formals_names fs" by (cases fs) (simp_all add: f)
qed

lemma paths_scoped:
  "\<forall>\<Gamma>. scoped \<Gamma> (goExpr rel join e) = scoped \<Gamma> e"
  "\<forall>\<Gamma>. scoped_part \<Gamma> (goPart rel join p) = scoped_part \<Gamma> p"
  "\<forall>\<Gamma>. scoped_key \<Gamma> (goKey rel join q) = scoped_key \<Gamma> q"
  "\<forall>\<Gamma> \<Gamma>o. scoped_binding \<Gamma> \<Gamma>o (goBinding rel join b) = scoped_binding \<Gamma> \<Gamma>o b"
  "\<forall>\<Gamma>. scoped_formal \<Gamma> (goFormal rel join f) = scoped_formal \<Gamma> f"
  "\<forall>\<Gamma>. scoped_formals \<Gamma> (goFormals rel join fs) = scoped_formals \<Gamma> fs"
proof (induction e and p and q and b and f and fs)
  case (ELit a)
  then show ?case by (cases a) simp_all
next
  case (EAttrs r bs ci)
  then show ?case by (simp add: list_all_iff scope_size_map)
next
  case (ELet bs e ci)
  then show ?case by (simp add: list_all_iff scope_size_map)
next
  case (ESelect e ks d)
  then show ?case by (cases d) (simp_all add: list_all_iff)
next
  case (Formal x d)
  then show ?case by (cases d) auto
qed (simp_all add: list_all_iff)

lemmas paths_scopedD [simp] = paths_scoped(1) [rule_format]

end
