(* ===== verification/Nova_Captures.thy ===== *)
theory Nova_Captures
  imports Nova_Trim_Spec
begin

section \<open>Captures are exactly what a scope uses\<close>

text \<open>Trimming keeps the free variables of an expression, so the scope around it captures what the source uses, no less
  and no more.\<close>

subsection \<open>Free variables at another depth\<close>

lemma captures_shift:
  "fst (capturesFree (d + j) ci) = {(l, i). (l + j, i) \<in> fst (capturesFree d ci)}"
  "snd (capturesFree (d + j) ci) = snd (capturesFree d ci)"
proof -
  have "(\<lambda>(lvl, idx). (lvl - (d + j) - 1, idx)) ` {c \<in> set caps. case c of (lvl, idx) \<Rightarrow> d + j < lvl} =
      {(l, i). (l + j, i) \<in> (\<lambda>(lvl, idx). (lvl - d - 1, idx)) ` {c \<in> set caps. case c of (lvl, idx) \<Rightarrow> d < lvl}}" for caps :: "(nat \<times> nat) list"
    by (force simp: image_iff)
  then show "fst (capturesFree (d + j) ci) = {(l, i). (l + j, i) \<in> fst (capturesFree d ci)}"
    by (cases ci) (simp_all add: capturesFree_def)
  show "snd (capturesFree (d + j) ci) = snd (capturesFree d ci)"
    by (cases ci) (simp_all add: capturesFree_def)
qed

definition shifted :: "nat \<Rightarrow> free \<Rightarrow> free \<Rightarrow> bool" where
  "shifted j f f' \<longleftrightarrow> fst f' = {(l, i). (l + j, i) \<in> fst f} \<and> snd f' = snd f"

lemma shifted_none [simp]: "shifted j ({}, b) ({}, b)"
  by (simp add: shifted_def)

lemma shifted_join: "shifted j a a' \<Longrightarrow> shifted j b b' \<Longrightarrow> shifted j (join_free a b) (join_free a' b')"
  by (auto simp: shifted_def join_free_def)

lemma shifted_fold: "(\<And>x. x \<in> set xs \<Longrightarrow> shifted j (f x) (g x)) \<Longrightarrow> shifted j (foldFree f xs) (foldFree g xs)"
  by (auto simp: shifted_def prod_eq_iff)

lemma shifted_captures: "shifted j (capturesFree d ci) (capturesFree (d + j) ci)"
  by (simp add: shifted_def captures_shift)

lemma free_shift:
  "\<forall>d. shifted j (collectFreeVars d e) (collectFreeVars (d + j) e)"
  "\<forall>d. shifted j (collectPart d p) (collectPart (d + j) p)"
  "\<forall>d. shifted j (collectKey d q) (collectKey (d + j) q)"
  "\<forall>d ou. shifted j (collectBinding d ou b) (collectBinding (d + j) (map_option (\<lambda>k. k + j) ou) b)"
  "\<forall>d. shifted j (collectFormal d f) (collectFormal (d + j) f)"
  "\<forall>d. shifted j (foldFormalsDefaults d fs) (foldFormalsDefaults (d + j) fs)"
proof (induction e and p and q and b and f and fs)
  case (EResolvedVar level idx)
  then show ?case by (auto simp: shifted_def)
next
  case (EAttrs r bs ci)
  show ?case
  proof
    fix d
    have "shifted j (collectBinding (Suc d) (Some d) b) (collectBinding (Suc (d + j)) (Some (d + j)) b)"
      "shifted j (collectBinding d (Some d) b) (collectBinding (d + j) (Some (d + j)) b)" if "b \<in> set bs" for b
      using EAttrs [OF that, rule_format, of "Suc d" "Some d"] EAttrs [OF that, rule_format, of d "Some d"] by simp_all
    then show "shifted j (collectFreeVars d (EAttrs r bs ci)) (collectFreeVars (d + j) (EAttrs r bs ci))"
      by (simp add: shifted_join shifted_fold shifted_captures)
  qed
next
  case (ELet bs e ci)
  show ?case
  proof
    fix d
    have "shifted j (collectBinding (Suc d) (Some d) b) (collectBinding (Suc (d + j)) (Some (d + j)) b)" if "b \<in> set bs" for b
      using ELet(1) [OF that, rule_format, of "Suc d" "Some d"] by simp
    then show "shifted j (collectFreeVars d (ELet bs e ci)) (collectFreeVars (d + j) (ELet bs e ci))"
      using ELet(2) [rule_format, of "Suc d"] by (simp add: shifted_join shifted_fold shifted_captures)
  qed
next
  case (ELambda fs e ci)
  show ?case
  proof
    fix d
    show "shifted j (collectFreeVars d (ELambda fs e ci)) (collectFreeVars (d + j) (ELambda fs e ci))"
      using ELambda(1) [rule_format, of "Suc d"] ELambda(2) [rule_format, of "Suc d"] by (simp add: shifted_join shifted_captures)
  qed
next
  case (EApp f x)
  then show ?case by (auto intro!: shifted_fold)
next
  case (ESelect e ks d)
  then show ?case by (cases d) (simp_all add: shifted_join shifted_fold)
next
  case (Inherit pos x e)
  then show ?case by (auto split: option.splits)
next
  case (Formal x d)
  then show ?case by (cases d) simp_all
qed (simp_all add: shifted_join shifted_fold)

text \<open>What is bound at depth 1 is bound further in, and a scope's parts are the scope's free variables, shifted.\<close>

lemma shifted_bound: "shifted j f f' \<Longrightarrow> bound f \<Longrightarrow> bound f'"
  by (auto simp: shifted_def)

lemma bound_deeper:
  "bound (collectFreeVars 1 e) \<Longrightarrow> bound (collectFreeVars (Suc d) e)"
  "bound (collectKey 1 q) \<Longrightarrow> bound (collectKey (Suc d) q)"
  "bound (foldFormalsDefaults 1 fs) \<Longrightarrow> bound (foldFormalsDefaults (Suc d) fs)"
  using shifted_bound [OF free_shift(1) [rule_format, where d = 1 and j = d]] shifted_bound [OF free_shift(3) [rule_format, where d = 1 and j = d]]
    shifted_bound [OF free_shift(6) [rule_format, where d = 1 and j = d]] by simp_all

text \<open>Renumbering changes no flag.\<close>

lemma flags_rewrite:
  "\<forall>k d. snd (collectFreeVars k (rewriteBody d cm e)) = snd (collectFreeVars k e)"
  "\<forall>k d. snd (collectPart k (rewritePart d cm p)) = snd (collectPart k p)"
  "\<forall>k d. snd (collectKey k (rewriteKey d cm q)) = snd (collectKey k q)"
  "\<forall>k ko d ou. snd (collectBinding k ko (rewriteBinding d ou cm b)) = snd (collectBinding k ko b)"
  "\<forall>k d. snd (collectFormal k (rewriteFormal d cm f)) = snd (collectFormal k f)"
  "\<forall>k d. snd (foldFormalsDefaults k (rewriteFormals d cm fs)) = snd (foldFormalsDefaults k fs)"
proof (induction e and p and q and b and f and fs)
  case (EAttrs r bs ci)
  have "snd (capturesFree k (rewriteCaptures d cm ci)) = snd (capturesFree k ci)" for k d
    by (cases ci) (simp_all add: capturesFree_def rewriteCaptures_def)
  then show ?case using EAttrs by (auto simp: prod_eq_iff)
next
  case (ELet bs e ci)
  have "snd (capturesFree k (rewriteCaptures d cm ci)) = snd (capturesFree k ci)" for k d
    by (cases ci) (simp_all add: capturesFree_def rewriteCaptures_def)
  then show ?case using ELet by (auto simp: prod_eq_iff)
next
  case (ELambda fs e ci)
  have "snd (capturesFree k (rewriteCaptures d cm ci)) = snd (capturesFree k ci)" for k d
    by (cases ci) (simp_all add: capturesFree_def rewriteCaptures_def)
  then show ?case using ELambda by (auto simp: prod_eq_iff)
next
  case (ESelect e ks d)
  then show ?case by (cases d) (auto simp: prod_eq_iff)
next
  case (EResolvedVar level idx)
  then show ?case by (auto split: option.splits)
next
  case (Inherit pos x e)
  then show ?case by (auto split: option.splits)
next
  case (Formal x d)
  then show ?case by (cases d) auto
qed (auto simp: prod_eq_iff)

lemmas flags_rewriteD [simp] = flags_rewrite [rule_format]

subsection \<open>Trimming keeps the free variables\<close>

lemma captures_of_scope:
  "fst (capturesFree d (capture_info_of caps w)) = {(l, i). (l + Suc d, i) \<in> set caps}"
  "snd (capturesFree d (capture_info_of caps w)) = (False, w)"
proof -
  have "(\<lambda>(lvl, idx). (lvl - d - 1, idx)) ` {c \<in> set caps. case c of (lvl, idx) \<Rightarrow> d < lvl} = {(l, i). (l + Suc d, i) \<in> set caps}"
    by (force simp: image_iff)
  then show "fst (capturesFree d (capture_info_of caps w)) = {(l, i). (l + Suc d, i) \<in> set caps}"
    by (simp add: capturesFree_def capture_info_of_def)
  show "snd (capturesFree d (capture_info_of caps w)) = (False, w)"
    by (simp add: capturesFree_def capture_info_of_def)
qed

text \<open>The inherited variable of a binding, which a scope's own analysis leaves out.\<close>

fun inherited_free :: "nat \<Rightarrow> binding \<Rightarrow> free" where
  "inherited_free d (Inherit pos x v) = collectFreeVars d v"
| "inherited_free d b = no_free"

lemma inherited_rewrite [simp]: "inherited_free d (rewriteBinding k None cm b) = inherited_free d b"
  by (cases b) simp_all

lemma binding_parts:
  "shifted (Suc d) (collectBinding 0 None b) f \<Longrightarrow> collectBinding (Suc d) (Some d) b = join_free f (inherited_free d b)"
  "bound (collectBinding 1 None b) \<Longrightarrow> fst (collectBinding (Suc d) (Some d) b) = fst (inherited_free d b)"
proof -
  show "collectBinding (Suc d) (Some d) b = join_free f (inherited_free d b)" if f: "shifted (Suc d) (collectBinding 0 None b) f"
  proof -
    have "f = collectBinding (Suc d) None b"
      using f free_shift(4) [rule_format, of "Suc d" 0 None b] by (auto simp: shifted_def prod_eq_iff)
    then show ?thesis by (cases b) (auto simp: prod_eq_iff)
  qed
  show "fst (collectBinding (Suc d) (Some d) b) = fst (inherited_free d b)" if b: "bound (collectBinding 1 None b)"
    using b bound_deeper(1) [of _ d] bound_deeper(2) [of _ d] by (cases b) simp_all
qed

lemma shifted_iff: "shifted j f f' \<Longrightarrow> (l, i) \<in> fst f' \<longleftrightarrow> (l + j, i) \<in> fst f" "shifted j f f' \<Longrightarrow> snd f' = snd f"
  by (simp_all add: shifted_def)

lemma scope_parts:
  "(l, i) \<in> fst (collectBinding (Suc d) (Some d) b) \<longleftrightarrow>
     (l + Suc d, i) \<in> fst (collectBinding 0 None b) \<or> (l, i) \<in> fst (inherited_free d b)"
  "snd (snd (collectBinding 0 None b)) \<Longrightarrow> snd (snd (collectBinding (Suc d) (Some d) b))"
  "(l, i) \<in> fst (collectFreeVars (Suc d) e) \<longleftrightarrow> (l + Suc d, i) \<in> fst (collectFreeVars 0 e)"
  "snd (collectFreeVars (Suc d) e) = snd (collectFreeVars 0 e)"
  "(l, i) \<in> fst (foldFormalsDefaults (Suc d) fs) \<longleftrightarrow> (l + Suc d, i) \<in> fst (foldFormalsDefaults 0 fs)"
  "snd (foldFormalsDefaults (Suc d) fs) = snd (foldFormalsDefaults 0 fs)"
proof -
  have b: "shifted (Suc d) (collectBinding 0 None b) (collectBinding (Suc d) None b)"
    using free_shift(4) [rule_format, of "Suc d" 0 None b] by simp
  note p = binding_parts(1) [OF b]
  show "(l, i) \<in> fst (collectBinding (Suc d) (Some d) b) \<longleftrightarrow>
      (l + Suc d, i) \<in> fst (collectBinding 0 None b) \<or> (l, i) \<in> fst (inherited_free d b)"
    by (simp add: p shifted_iff(1) [OF b])
  show "snd (snd (collectBinding 0 None b)) \<Longrightarrow> snd (snd (collectBinding (Suc d) (Some d) b))"
    by (simp add: p shifted_iff(2) [OF b])
  have e: "shifted (Suc d) (collectFreeVars 0 e) (collectFreeVars (Suc d) e)"
    using free_shift(1) [rule_format, of "Suc d" 0 e] by simp
  then show "(l, i) \<in> fst (collectFreeVars (Suc d) e) \<longleftrightarrow> (l + Suc d, i) \<in> fst (collectFreeVars 0 e)"
    "snd (collectFreeVars (Suc d) e) = snd (collectFreeVars 0 e)" by (rule shifted_iff)+
  have f: "shifted (Suc d) (foldFormalsDefaults 0 fs) (foldFormalsDefaults (Suc d) fs)"
    using free_shift(6) [rule_format, of "Suc d" 0 fs] by simp
  then show "(l, i) \<in> fst (foldFormalsDefaults (Suc d) fs) \<longleftrightarrow> (l + Suc d, i) \<in> fst (foldFormalsDefaults 0 fs)"
    "snd (foldFormalsDefaults (Suc d) fs) = snd (foldFormalsDefaults 0 fs)" by (rule shifted_iff)+
qed

text \<open>The three scopes, after renumbering to captures that hold their free variables.\<close>

lemma bindings_after:
  assumes "fst (foldFree (collectBinding 0 None) bs) \<subseteq> set caps"
  shows "fst (foldFree (collectBinding (Suc d) (Some d)) (map (rewriteBinding 0 None (capture_map_of caps)) bs)) =
      (\<Union>b \<in> set bs. fst (inherited_free d b))"
    and "snd (foldFree (collectBinding (Suc d) (Some d)) (map (rewriteBinding 0 None (capture_map_of caps)) bs)) =
      snd (foldFree (collectBinding (Suc d) (Some d)) bs)"
proof -
  have "fst (collectBinding (Suc d) (Some d) (rewriteBinding 0 None (capture_map_of caps) b)) = fst (inherited_free d b)"
    if "b \<in> set bs" for b
  proof -
    have "fst (collectBinding 0 None b) \<subseteq> dom (capture_map_of caps)" using assms that by auto
    then have "bound (collectBinding 1 None (rewriteBinding 0 None (capture_map_of caps) b))"
      using renumberedD(4) [of 0 None b "capture_map_of caps"] by simp
    from binding_parts(2) [OF this] show ?thesis by simp
  qed
  then show "fst (foldFree (collectBinding (Suc d) (Some d)) (map (rewriteBinding 0 None (capture_map_of caps)) bs)) =
      (\<Union>b \<in> set bs. fst (inherited_free d b))" by simp
  show "snd (foldFree (collectBinding (Suc d) (Some d)) (map (rewriteBinding 0 None (capture_map_of caps)) bs)) =
      snd (foldFree (collectBinding (Suc d) (Some d)) bs)" by (simp add: prod_eq_iff)
qed

lemma body_after:
  assumes "fst (collectFreeVars 0 e) \<subseteq> set caps"
  shows "fst (collectFreeVars (Suc d) (rewriteBody 0 (capture_map_of caps) e)) = {}"
  using renumberedD(1) [of 0 e "capture_map_of caps"] assms bound_deeper(1) by simp

lemma formals_after:
  assumes "fst (foldFormalsDefaults 0 fs) \<subseteq> set caps"
  shows "fst (foldFormalsDefaults (Suc d) (rewriteFormals 0 (capture_map_of caps) fs)) = {}"
  using renumberedD(6) [of 0 fs "capture_map_of caps"] assms bound_deeper(3) by simp

lemma fold_same: "(\<And>x. x \<in> set xs \<Longrightarrow> f (g x) = f' x) \<Longrightarrow> foldFree f (map g xs) = foldFree f' xs"
  by (auto simp: prod_eq_iff)

lemma captures_none: "capturesFree d NoCaptureInfo = no_free"
  by (simp add: capturesFree_def)

lemma lambda_after:
  assumes "set caps = fst (collectFreeVars 0 e) \<union> fst (foldFormalsDefaults 0 fs)"
    and "\<not> fst (snd (collectFreeVars 0 e))" and "\<not> fst (snd (foldFormalsDefaults 0 fs))"
    and "w \<longleftrightarrow> snd (snd (collectFreeVars 0 e)) \<or> snd (snd (foldFormalsDefaults 0 fs))"
  shows "collectFreeVars d (ELambda (rewriteFormals 0 (capture_map_of caps) fs) (rewriteBody 0 (capture_map_of caps) e)
      (capture_info_of caps w)) = collectFreeVars d (ELambda fs e NoCaptureInfo)" (is "?l = ?r")
proof (rule prod_eqI)
  have s: "fst (collectFreeVars 0 e) \<subseteq> set caps" "fst (foldFormalsDefaults 0 fs) \<subseteq> set caps" using assms(1) by auto
  show "fst ?l = fst ?r"
    by (auto simp: body_after [OF s(1)] formals_after [OF s(2)] captures_of_scope captures_none scope_parts assms(1))
  show "snd ?l = snd ?r"
    using assms(2-4) by (auto simp: prod_eq_iff captures_of_scope scope_parts captures_none)
qed

lemma bindings_free:
  assumes "fst (foldFree (collectBinding 0 None) bs) \<subseteq> set caps"
  shows "fst (foldFree (collectBinding (Suc d) (Some d)) (map (rewriteBinding 0 None (capture_map_of caps)) bs)) \<union>
      {(l, i). (l + Suc d, i) \<in> set caps} =
    fst (foldFree (collectBinding (Suc d) (Some d)) bs) \<union> {(l, i). (l + Suc d, i) \<in> set caps}"
proof -
  have "(l, i) \<in> fst (foldFree (collectBinding (Suc d) (Some d)) bs) \<longleftrightarrow>
      (\<exists>b \<in> set bs. (l + Suc d, i) \<in> fst (collectBinding 0 None b)) \<or> (\<exists>b \<in> set bs. (l, i) \<in> fst (inherited_free d b))" for l i
    by (auto simp: scope_parts)
  moreover have "(\<exists>b \<in> set bs. (l + Suc d, i) \<in> fst (collectBinding 0 None b)) \<longrightarrow> (l + Suc d, i) \<in> set caps" for l i
    using assms by auto
  ultimately show ?thesis by (auto simp: bindings_after(1) [OF assms] simp del: foldFree_simps)
qed

lemma let_after:
  assumes "set caps = fst (foldFree (collectBinding 0 None) bs) \<union> fst (collectFreeVars 0 e)"
    and "\<not> fst (snd (foldFree (collectBinding 0 None) bs))" and "\<not> fst (snd (collectFreeVars 0 e))"
    and "w \<longleftrightarrow> snd (snd (foldFree (collectBinding 0 None) bs)) \<or> snd (snd (collectFreeVars 0 e))"
  shows "collectFreeVars d (ELet (map (rewriteBinding 0 None (capture_map_of caps)) bs) (rewriteBody 0 (capture_map_of caps) e)
      (capture_info_of caps w)) = collectFreeVars d (ELet bs e NoCaptureInfo)" (is "?l = ?r")
proof (rule prod_eqI)
  have s: "fst (foldFree (collectBinding 0 None) bs) \<subseteq> set caps" "fst (collectFreeVars 0 e) \<subseteq> set caps" using assms(1) by auto
  have "fst ?l = fst (foldFree (collectBinding (Suc d) (Some d)) (map (rewriteBinding 0 None (capture_map_of caps)) bs)) \<union>
      {(l, i). (l + Suc d, i) \<in> set caps}"
    by (simp add: body_after [OF s(2)] captures_of_scope del: foldFree_simps)
  also have "\<dots> = fst (foldFree (collectBinding (Suc d) (Some d)) bs) \<union> {(l, i). (l + Suc d, i) \<in> set caps}"
    by (rule bindings_free [OF s(1)])
  also have "\<dots> = fst ?r"
    by (auto simp: assms(1) scope_parts captures_none)
  finally show "fst ?l = fst ?r" .
  have "snd (snd (foldFree (collectBinding 0 None) bs)) \<Longrightarrow> snd (snd (foldFree (collectBinding (Suc d) (Some d)) bs))"
    using scope_parts(2) by auto
  then show "snd ?l = snd ?r"
    using assms(2-4) by (auto simp: prod_eq_iff captures_of_scope scope_parts bindings_after(2) [OF s(1)] captures_none simp del: foldFree_simps)
qed

lemma rec_after:
  assumes "set caps = fst (foldFree (collectBinding 0 None) bs)"
    and "\<not> fst (snd (foldFree (collectBinding 0 None) bs))" and "w \<longleftrightarrow> snd (snd (foldFree (collectBinding 0 None) bs))"
  shows "collectFreeVars d (EAttrs True (map (rewriteBinding 0 None (capture_map_of caps)) bs) (capture_info_of caps w)) =
    collectFreeVars d (EAttrs True bs NoCaptureInfo)" (is "?l = ?r")
proof (rule prod_eqI)
  have s: "fst (foldFree (collectBinding 0 None) bs) \<subseteq> set caps" using assms(1) by auto
  have "fst ?l = fst (foldFree (collectBinding (Suc d) (Some d)) (map (rewriteBinding 0 None (capture_map_of caps)) bs)) \<union>
      {(l, i). (l + Suc d, i) \<in> set caps}"
    by (simp add: captures_of_scope del: foldFree_simps)
  also have "\<dots> = fst (foldFree (collectBinding (Suc d) (Some d)) bs) \<union> {(l, i). (l + Suc d, i) \<in> set caps}"
    by (rule bindings_free [OF s])
  also have "\<dots> = fst ?r"
    by (auto simp: assms(1) scope_parts captures_none)
  finally show "fst ?l = fst ?r" .
  have "snd (snd (foldFree (collectBinding 0 None) bs)) \<Longrightarrow> snd (snd (foldFree (collectBinding (Suc d) (Some d)) bs))"
    using scope_parts(2) by auto
  then show "snd ?l = snd ?r"
    using assms(2-3) by (auto simp: prod_eq_iff captures_of_scope scope_parts bindings_after(2) [OF s] captures_none simp del: foldFree_simps)
qed

lemma trimming_free:
  "fresh e \<longrightarrow> (\<forall>d. collectFreeVars d (trimExpr e) = collectFreeVars d e)"
  "fresh_part p \<longrightarrow> (\<forall>d. collectPart d (trimPart p) = collectPart d p)"
  "fresh_key q \<longrightarrow> (\<forall>d. collectKey d (trimKey q) = collectKey d q)"
  "fresh_binding b \<longrightarrow> (\<forall>d ou. collectBinding d ou (trimBinding b) = collectBinding d ou b)"
  "fresh_formal f \<longrightarrow> (\<forall>d. collectFormal d (trimFormal f) = collectFormal d f)"
  "fresh_formals fs \<longrightarrow> (\<forall>d. foldFormalsDefaults d (trimFormals fs) = foldFormalsDefaults d fs)"
proof (induction e and p and q and b and f and fs)
  case (ELambda fs e ci)
  show ?case
  proof (intro impI allI)
    fix d assume a: "fresh (ELambda fs e ci)"
    then have ih: "collectFreeVars d (ELambda (trimFormals fs) (trimExpr e) NoCaptureInfo) = collectFreeVars d (ELambda fs e ci)"
      and ci: "ci = NoCaptureInfo"
      using ELambda by simp_all
    show "collectFreeVars d (trimExpr (ELambda fs e ci)) = collectFreeVars d (ELambda fs e ci)"
    proof (cases rule: trimOneLambda_cases [of "trimFormals fs" "trimExpr e"])
      case 1
      then have "trimExpr (ELambda fs e ci) = ELambda (trimFormals fs) (trimExpr e) NoCaptureInfo" by (simp add: ci Let_def)
      then show ?thesis by (simp only: ih)
    next
      case (2 caps w)
      then have "trimExpr (ELambda fs e ci) = ELambda (rewriteFormals 0 (capture_map_of caps) (trimFormals fs))
          (rewriteBody 0 (capture_map_of caps) (trimExpr e)) (capture_info_of caps w)" by (simp add: Let_def ci)
      then show ?thesis by (simp only: lambda_after [OF 2(2-5)] ih)
    qed
  qed
next
  case (ELet bs e ci)
  show ?case
  proof (intro impI allI)
    fix d assume a: "fresh (ELet bs e ci)"
    then have "foldFree (collectBinding (Suc d) (Some d)) (map trimBinding bs) = foldFree (collectBinding (Suc d) (Some d)) bs"
      using ELet(1) by (auto simp: list_all_iff intro!: fold_same)
    then have ih: "collectFreeVars d (ELet (map trimBinding bs) (trimExpr e) NoCaptureInfo) = collectFreeVars d (ELet bs e ci)"
      and ci: "ci = NoCaptureInfo"
      using ELet(2) a by simp_all
    show "collectFreeVars d (trimExpr (ELet bs e ci)) = collectFreeVars d (ELet bs e ci)"
    proof (cases rule: trimOneLetBlock_cases [of "map trimBinding bs" "trimExpr e"])
      case 1
      then have "trimExpr (ELet bs e ci) = ELet (map trimBinding bs) (trimExpr e) NoCaptureInfo" by (simp add: ci Let_def)
      then show ?thesis by (simp only: ih)
    next
      case (2 caps w)
      then have "trimExpr (ELet bs e ci) = ELet (map (rewriteBinding 0 None (capture_map_of caps)) (map trimBinding bs))
          (rewriteBody 0 (capture_map_of caps) (trimExpr e)) (capture_info_of caps w)" by (simp add: Let_def ci)
      then show ?thesis by (simp only: let_after [OF 2(2-5)] ih)
    qed
  qed
next
  case (EAttrs r bs ci)
  show ?case
  proof (intro impI allI)
    fix d assume a: "fresh (EAttrs r bs ci)"
    then have "foldFree (collectBinding k (Some d)) (map trimBinding bs) = foldFree (collectBinding k (Some d)) bs" for k
      using EAttrs by (auto simp: list_all_iff intro!: fold_same)
    then have ih: "collectFreeVars d (EAttrs r (map trimBinding bs) NoCaptureInfo) = collectFreeVars d (EAttrs r bs ci)"
      and ci: "ci = NoCaptureInfo"
      using a by simp_all
    show "collectFreeVars d (trimExpr (EAttrs r bs ci)) = collectFreeVars d (EAttrs r bs ci)"
    proof (cases r)
      case True
      show ?thesis
      proof (cases rule: trimOneRecAttrs_cases [of "map trimBinding bs"])
        case 1
        then have "trimExpr (EAttrs r bs ci) = EAttrs r (map trimBinding bs) NoCaptureInfo" by (simp add: ci Let_def True)
        then show ?thesis by (simp only: ih)
      next
        case (2 caps w)
        then have "trimExpr (EAttrs r bs ci) = EAttrs True (map (rewriteBinding 0 None (capture_map_of caps)) (map trimBinding bs))
            (capture_info_of caps w)" by (simp add: Let_def ci True)
        then show ?thesis using ih by (simp only: rec_after [OF 2(2-4)] True)
      qed
    next
      case False
      then have "trimExpr (EAttrs r bs ci) = EAttrs r (map trimBinding bs) NoCaptureInfo" by simp
      then show ?thesis by (simp only: ih)
    qed
  qed
next
  case (ESelect e ks d)
  then show ?case by (cases d) (auto simp: list_all_iff prod_eq_iff)
next
  case (Inherit pos x e)
  then show ?case by (auto split: option.splits)
next
  case (Formal x d)
  then show ?case by (cases d) auto
qed (auto simp: list_all_iff prod_eq_iff)

text \<open>What a scope may keep of its surroundings, for the free variables of its parts: nothing to keep, or a variable that
  is looked up by name through the whole chain; otherwise exactly the slots it uses, in order and once each, with the
  with-scopes if it looks a name up there.\<close>

definition keeps_what_it_uses :: "free \<Rightarrow> capture_info \<Rightarrow> bool" where
  "keeps_what_it_uses f ci \<longleftrightarrow> (case ci of
     NoCaptureInfo \<Rightarrow> fst (snd f) \<or> f = no_free
   | Captures caps \<Rightarrow> sorted caps \<and> distinct caps \<and> set caps = fst f \<and> snd f = (False, False)
   | CapturesWithScopes caps \<Rightarrow> sorted caps \<and> distinct caps \<and> set caps = fst f \<and> snd f = (False, True))"

lemma capture_list_sorted [simp]: "sorted (capture_list vs)" "distinct (capture_list vs)"
  by (simp_all add: capture_list_def)

lemma trimOne_keeps:
  "trimOneLambda fs b = Inr (caps, fs', b', w) \<Longrightarrow>
     keeps_what_it_uses (join_free (foldFormalsDefaults 0 fs) (collectFreeVars 0 b)) (capture_info_of caps w)"
  "trimOneLambda fs b = Inl e \<Longrightarrow> e = ELambda fs b NoCaptureInfo \<and>
     keeps_what_it_uses (join_free (foldFormalsDefaults 0 fs) (collectFreeVars 0 b)) NoCaptureInfo"
  "trimOneLetBlock bs b = Inr (caps, bs', b', w) \<Longrightarrow>
     keeps_what_it_uses (join_free (foldFree (collectBinding 0 None) bs) (collectFreeVars 0 b)) (capture_info_of caps w)"
  "trimOneLetBlock bs b = Inl (bs', b') \<Longrightarrow> bs' = bs \<and> b' = b \<and>
     keeps_what_it_uses (join_free (foldFree (collectBinding 0 None) bs) (collectFreeVars 0 b)) NoCaptureInfo"
  "trimOneRecAttrs bs = Inr (caps, bs', w) \<Longrightarrow>
     keeps_what_it_uses (foldFree (collectBinding 0 None) bs) (capture_info_of caps w)"
  "trimOneRecAttrs bs = Inl bs' \<Longrightarrow> bs' = bs \<and> keeps_what_it_uses (foldFree (collectBinding 0 None) bs) NoCaptureInfo"
proof -
  have fin: "finite (fst (foldFree (collectBinding 0 None) bs))" for bs by simp
  show "trimOneLambda fs b = Inr (caps, fs', b', w) \<Longrightarrow>
     keeps_what_it_uses (join_free (foldFormalsDefaults 0 fs) (collectFreeVars 0 b)) (capture_info_of caps w)"
    by (auto simp: trimOneLambda_def Let_def split_def keeps_what_it_uses_def capture_info_of_def prod_eq_iff capture_list_set split: if_splits)
  show "trimOneLambda fs b = Inl e \<Longrightarrow> e = ELambda fs b NoCaptureInfo \<and>
     keeps_what_it_uses (join_free (foldFormalsDefaults 0 fs) (collectFreeVars 0 b)) NoCaptureInfo"
    by (auto simp: trimOneLambda_def Let_def split_def keeps_what_it_uses_def prod_eq_iff split: if_splits)
  show "trimOneLetBlock bs b = Inr (caps, bs', b', w) \<Longrightarrow>
     keeps_what_it_uses (join_free (foldFree (collectBinding 0 None) bs) (collectFreeVars 0 b)) (capture_info_of caps w)"
    using fin [of bs] by (auto simp: trimOneLetBlock_def Let_def split_def keeps_what_it_uses_def capture_info_of_def prod_eq_iff capture_list_set
      simp del: foldFree_simps split: if_splits)
  show "trimOneLetBlock bs b = Inl (bs', b') \<Longrightarrow> bs' = bs \<and> b' = b \<and>
     keeps_what_it_uses (join_free (foldFree (collectBinding 0 None) bs) (collectFreeVars 0 b)) NoCaptureInfo"
    by (auto simp: trimOneLetBlock_def Let_def split_def keeps_what_it_uses_def prod_eq_iff simp del: foldFree_simps split: if_splits)
  show "trimOneRecAttrs bs = Inr (caps, bs', w) \<Longrightarrow>
     keeps_what_it_uses (foldFree (collectBinding 0 None) bs) (capture_info_of caps w)"
    using fin [of bs] by (auto simp: trimOneRecAttrs_def Let_def split_def keeps_what_it_uses_def capture_info_of_def prod_eq_iff capture_list_set
      simp del: foldFree_simps split: if_splits)
  show "trimOneRecAttrs bs = Inl bs' \<Longrightarrow> bs' = bs \<and> keeps_what_it_uses (foldFree (collectBinding 0 None) bs) NoCaptureInfo"
    by (auto simp: trimOneRecAttrs_def Let_def split_def keeps_what_it_uses_def prod_eq_iff simp del: foldFree_simps split: if_splits)
qed

lemma trimmed_bindings_free:
  "list_all fresh_binding bs \<Longrightarrow> foldFree (collectBinding d ou) (map trimBinding bs) = foldFree (collectBinding d ou) bs"
  using trimming_free(4) by (auto simp: list_all_iff intro!: fold_same)

end
