(* ===== verification/Nova_World.thy ===== *)
theory Nova_World
  imports Nova_Code "HOL-Library.Sublist"
begin

section \<open>Actions that only add to the layer\<close>

text \<open>
  The invariant of a compilation and a small logic for its actions: each keeps what the symbol table and the
  instruction store hold, adds at most so much to them, and is refused only when the layer cannot take it.
\<close>

subsection \<open>Well-formed worlds and growth\<close>

definition seen_ok :: "world \<Rightarrow> bool" where
  "seen_ok w = (case w_seen w of
     None \<Rightarrow> True
   | Some (origin, v) \<Rightarrow> (case origin of
       SourceFile path \<Rightarrow> stands_for (sym_names (w_syms w)) v path | SourceText _ \<Rightarrow> v = 0))"

definition world_wf :: "world \<Rightarrow> bool" where
  "world_wf w \<longleftrightarrow> symtab_inv (w_al w) (w_syms w) \<and> bc_wf (w_code w) \<and> seen_ok w"

definition extends :: "world \<Rightarrow> world \<Rightarrow> bool" where
  "extends w w' \<longleftrightarrow> prefix (sym_names (w_syms w)) (sym_names (w_syms w')) \<and>
     prefix (ops_of (w_code w)) (ops_of (w_code w')) \<and> prefix (data_of (w_code w)) (data_of (w_code w')) \<and>
     (\<exists>t s. w_layer w' = (w_layer w)\<lparr>dl_symbols := t, dl_code := s\<rparr>) \<and>
     nn_symbol_live (w_syms w') = nn_symbol_live (w_syms w) \<and>
     nn_bytecode_live (w_code w') = nn_bytecode_live (w_code w) \<and> al_steps (w_al w) (w_al w')"

lemma extends_refl [simp]: "extends w w"
proof -
  have "w_layer w = (w_layer w)\<lparr>dl_symbols := w_syms w, dl_code := w_code w\<rparr>" by simp
  then show ?thesis unfolding extends_def by (intro conjI) (blast | simp)+
qed

lemma extends_trans: "extends w w1 \<Longrightarrow> extends w1 w2 \<Longrightarrow> extends w w2"
  unfolding extends_def by (elim conjE exE, intro conjI) (auto intro: prefix_order.trans al_steps_trans)

lemma extends_live:
  assumes "extends w w'"
  shows "nn_arena_live (w_layer w') = nn_arena_live (w_layer w)"
proof -
  obtain t s where "w_layer w' = (w_layer w)\<lparr>dl_symbols := t, dl_code := s\<rparr>" using assms by (auto simp: extends_def)
  then show ?thesis using assms by (simp add: nn_arena_live_def extends_def)
qed

text \<open>How much the two growing stores hold, and when they are sure to take \<open>n\<close> more.\<close>

definition used :: "world \<Rightarrow> nat" where
  "used w = names_bytes (sym_names (w_syms w)) + length (ops_of (w_code w)) + length (data_of (w_code w))"

definition plenty :: "world \<Rightarrow> nat \<Rightarrow> bool" where
  "plenty w n \<longleftrightarrow> al_ok (w_al w) = (\<lambda>_ _. True) \<and> nn_symbol_live (w_syms w) \<and> nn_bytecode_live (w_code w) \<and>
     used w + n < 1610612736"

lemma plenty_later: "plenty w (n + k) \<Longrightarrow> extends w w' \<Longrightarrow> used w' \<le> used w + n \<Longrightarrow> plenty w' k"
  by (simp add: plenty_def extends_def al_steps_def)

lemma plenty_less: "plenty w n \<Longrightarrow> k \<le> n \<Longrightarrow> plenty w k"
  by (simp add: plenty_def)

text \<open>The exceptions of a refused call.\<close>

definition refused :: "world \<Rightarrow> hs_error \<Rightarrow> bool" where
  "refused w e = (case e of
     CAllocationFailed site detail \<Rightarrow> nn_arena_live (w_layer w)
   | ArenaNotInitialized site \<Rightarrow> \<not> nn_arena_live (w_layer w)
   | _ \<Rightarrow> False)"

lemma refused_earlier: "refused w' e \<Longrightarrow> extends w w' \<Longrightarrow> refused w e"
  using extends_live by (auto simp: refused_def split: hs_error.splits)

subsection \<open>The logic\<close>

text \<open>The outcome \<open>r\<close> of an action that started in \<open>w\<close>: it was refused, which does not happen when the layer
  can take \<open>n\<close> more; or it added at most \<open>n\<close>, changed nothing that was there and satisfies \<open>Q\<close>.\<close>

definition runs :: "nat \<Rightarrow> world \<Rightarrow> hs_error + 'a \<times> world \<Rightarrow> ('a \<Rightarrow> world \<Rightarrow> bool) \<Rightarrow> bool" where
  "runs n w r Q = (case r of
     Inl e \<Rightarrow> refused w e \<and> \<not> plenty w n
   | Inr (x, w') \<Rightarrow> world_wf w' \<and> extends w w' \<and> used w' \<le> used w + n \<and> Q x w')"

lemma runs_return: "world_wf w \<Longrightarrow> Q x w \<Longrightarrow> runs n w (io_return x w) Q"
  by (simp add: runs_def io_return_def)

lemma runs_bind:
  assumes "runs n w (m w) Q" and "\<And>x w1. world_wf w1 \<Longrightarrow> extends w w1 \<Longrightarrow> Q x w1 \<Longrightarrow> runs k w1 (f x w1) R"
  shows "runs (n + k) w (io_bind m f w) R"
proof (cases "m w")
  case (Inl e)
  then show ?thesis using assms(1) plenty_less [of w "n + k" n] by (auto simp: runs_def io_bind_def)
next
  case (Inr r)
  then obtain x w1 where r: "m w = Inr (x, w1)" by (cases r) simp
  then have w1: "world_wf w1" "extends w w1" "used w1 \<le> used w + n" "Q x w1" using assms(1) by (simp_all add: runs_def)
  have "runs k w1 (f x w1) R" using assms(2) [OF w1(1,2,4)] .
  then show ?thesis
    using r w1(2,3) refused_earlier [OF _ w1(2)] plenty_later [OF _ w1(2,3)] extends_trans [OF w1(2)]
    by (auto simp: runs_def io_bind_def split: sum.splits)
qed

lemma runs_weaken:
  assumes "runs n w r Q" and "n \<le> k" and "\<And>x w'. world_wf w' \<Longrightarrow> extends w w' \<Longrightarrow> Q x w' \<Longrightarrow> R x w'"
  shows "runs k w r R"
  using assms plenty_less [of w k n] by (auto simp: runs_def split: sum.splits)

lemma runs_mapM:
  assumes "world_wf w" and "\<And>x w. x \<in> set xs \<Longrightarrow> world_wf w \<Longrightarrow> runs (c x) w (f x w) (P x)"
    and "\<And>x y w w'. x \<in> set xs \<Longrightarrow> world_wf w \<Longrightarrow> world_wf w' \<Longrightarrow> extends w w' \<Longrightarrow> P x y w \<Longrightarrow> P x y w'"
  shows "runs (sum_list (map c xs)) w (io_mapM f xs w) (\<lambda>ys w'. list_all2 (\<lambda>x y. P x y w') xs ys)"
  using assms
proof (induction xs arbitrary: w)
  case Nil
  then show ?case by (simp add: runs_return)
next
  case (Cons x xs)
  have tl: "runs (sum_list (map c xs)) w1 (io_mapM f xs w1) (\<lambda>ys w'. list_all2 (\<lambda>x y. P x y w') xs ys)"
    if "world_wf w1" for w1 
    by (rule Cons.IH [OF that]) (use Cons.prems(2,3) list.set_intros(2) in metis)+
  have "runs (c x + (sum_list (map c xs) + 0)) w (io_mapM f (x # xs) w) (\<lambda>ys w'. list_all2 (\<lambda>x y. P x y w') (x # xs) ys)"
    unfolding io_mapM.simps
  proof (rule runs_bind)
    show "runs (c x) w (f x w) (P x)" using Cons.prems(1,2) by simp
  next
    fix y w1 assume w1: "world_wf w1" "P x y w1"
    show "runs (sum_list (map c xs) + 0) w1 (io_bind (io_mapM f xs) (\<lambda>ys. io_return (y # ys)) w1)
        (\<lambda>ys w'. list_all2 (\<lambda>x y. P x y w') (x # xs) ys)"
    proof (rule runs_bind, rule tl, rule w1(1))
      fix ys w2 assume w2: "world_wf w2" "extends w1 w2" "list_all2 (\<lambda>x y. P x y w2) xs ys"
      have "P x y w2" by (rule Cons.prems(3) [OF _ w1(1) w2(1,2) w1(2)]) simp
      then show "runs 0 w2 (io_return (y # ys) w2) (\<lambda>ys w'. list_all2 (\<lambda>x y. P x y w') (x # xs) ys)"
        by (intro runs_return w2(1)) (simp add: w2(3))
    qed
  qed
  then show ?case by simp
qed

subsection \<open>Symbols\<close>

lemma names_iff:
  assumes "symtab_inv al (dl_symbols l)"
  shows "names l sid x \<longleftrightarrow> stands_for (sym_names (dl_symbols l)) sid x"
proof (cases "sid \<noteq> 0 \<and> sid \<le> sy_count (dl_symbols l)")
  case True
  then have s: "sid \<noteq> 0" "1 \<le> unat sid" "unat sid \<le> unat (sy_count (dl_symbols l))"
    by (auto simp: word_le_nat_alt unat_gt_0 Suc_le_eq)
  then have "sy_count (dl_symbols l) \<noteq> 0" by auto
  then have wf: "sym_wf (dl_symbols l)" using assms by (auto simp: symtab_inv_def sym_zero_def)
  have "nn_symbol_text (dl_symbols l) sid \<noteq> NULL" using True by (simp add: nn_symbol_text_def not_less)
  then show ?thesis using s read_back [OF wf s(2,3)] True
    by (auto simp: names_def symbolBytes_def stands_for_def nn_symbol_count_def Let_def)
next
  case False
  then show ?thesis by (auto simp: names_def stands_for_def nn_symbol_count_def word_le_nat_alt)
qed

lemma names_text: "names l sid x \<Longrightarrow> symbolText (dl_symbols l) sid = Inr x"
  by (auto simp: names_def symbolBytes_def symbolText_def)

lemma stands_for_prefix: "stands_for ns r s \<Longrightarrow> prefix ns ns' \<Longrightarrow> stands_for ns' r s"
  by (auto simp: prefix_def stands_for_append)

lemma names_extends:
  "world_wf w \<Longrightarrow> world_wf w' \<Longrightarrow> extends w w' \<Longrightarrow> names (w_layer w) sid x \<Longrightarrow> names (w_layer w') sid x"
  by (auto simp: world_wf_def names_iff extends_def intro: stands_for_prefix)

end
