(* ===== verification/Nova_Emit.thy ===== *)
theory Nova_Emit
  imports Nova_World
begin

section \<open>The actions of the compiler, one by one\<close>

text \<open>What interning, emitting and recording do, in the logic of \<open>Nova_World\<close>, and that the decoders read the
  operand words they leave.\<close>

subsection \<open>Interning\<close>

lemma length_le_names_bytes: "length ns \<le> names_bytes ns"
  by (induction ns) auto

lemma symbolInternBytes_eq: "symbolInternBytes = symbolIntern"
  by (simp add: fun_eq_iff symbolInternBytes_def symbolIntern_def)

lemma cStatusFailure_refused: "\<exists>e. cStatusFailure site detail w = Inl e \<and> refused w e"
  by (simp add: cStatusFailure_def io_bind_def arenaLive_def io_throw_def refused_def)

lemma intern_prefix: "prefix ns (intern_names ns s)"
  by (simp add: intern_names_def)

lemma seen_ok_later:
  "seen_ok w \<Longrightarrow> w_seen w' = w_seen w \<Longrightarrow> prefix (sym_names (w_syms w)) (sym_names (w_syms w')) \<Longrightarrow> seen_ok w'"
  by (auto simp: seen_ok_def intro: stands_for_prefix split: option.splits source_origin.splits)

text \<open>A call on a closed table is refused with no effect.\<close>

lemma intern_closed: "nn_symbol_intern al sym_zero b len = Inr (0, al, sym_zero)"
  by (simp add: nn_symbol_intern_def sym_zero_def)

lemma runs_refused:
  fixes Q :: "'a \<Rightarrow> world \<Rightarrow> bool"
  assumes "extends w w1" and "\<not> plenty w n"
  shows "runs n w (cStatusFailure site detail w1) Q"
proof -
  obtain e where "(cStatusFailure site detail w1 :: hs_error + 'a \<times> world) = Inl e" "refused w1 e"
    using cStatusFailure_refused by blast
  then show ?thesis using refused_earlier assms by (auto simp: runs_def)
qed

lemma intern_call:
  assumes "symtab_inv al t" and "length x < 2 ^ 32"
  obtains r al' t' where "nn_symbol_intern al t (Some x) (of_nat (length x)) = Inr (r, al', t')"
    and "symtab_inv al' t'" and "prefix (sym_names t) (sym_names t')" and "al_steps al al'"
    and "nn_symbol_live t' = nn_symbol_live t" and "names_bytes (sym_names t') \<le> names_bytes (sym_names t) + text_weight x"
    and "r \<noteq> 0 \<Longrightarrow> stands_for (sym_names t') r x"
    and "al_ok al = (\<lambda>_ _. True) \<Longrightarrow> nn_symbol_live t \<Longrightarrow> names_bytes (sym_names t) + text_weight x < 1610612736 \<Longrightarrow> r \<noteq> 0"
proof (cases "t = sym_zero")
  case True
  then show ?thesis using that [of 0 al t] assms(1) by (simp add: intern_closed) (simp add: nn_symbol_live_def sym_zero_def)
next
  case False
  then have wf: "sym_wf t" using assms(1) by (simp add: symtab_inv_def)
  have u: "unat (of_nat (length x) :: u64) = length x" using assms(2) by (rule unat_length_u64)
  obtain r al' t' where r: "nn_symbol_intern al t (Some x) (of_nat (length x)) = Inr (r, al', t')"
    "intern_outcome t x r t'" "al_steps al al'"
    "al_ok al = (\<lambda>_ _. True) \<and> unat (sy_arena_used t) + length x + 1 \<le> 2 ^ 32 \<and>
       unat (sy_count t) + 1 < 1610612736 \<longrightarrow> r \<noteq> 0"
    by (rule intern_keeps [OF wf, of "of_nat (length x)" x al]) (use u assms(2) in simp_all)
  have wf': "sym_wf t'" using r(2) by (simp add: intern_outcome_def)
  have live: "nn_symbol_live t" "nn_symbol_live t'" using wf wf' by (simp_all add: nn_symbol_live_def sym_wf_live)
  have room: "r \<noteq> 0" if "al_ok al = (\<lambda>_ _. True)" "names_bytes (sym_names t) + text_weight x < 1610612736"
    using r(4) that wf length_le_names_bytes [of "sym_names t"] by (simp add: sym_wf_def)
  have bytes: "names_bytes (sym_names t') \<le> names_bytes (sym_names t) + text_weight x"
    using r(2) intern_names_bytes [of "sym_names t" x] by (auto simp: intern_outcome_def)
  have pre: "prefix (sym_names t) (sym_names t')" using r(2) by (auto simp: intern_outcome_def intern_prefix)
  have st: "stands_for (sym_names t') r x" if "r \<noteq> 0"
    using r(2) that intern_index_nth [of "sym_names t" x] by (auto simp: intern_outcome_def stands_for_def)
  show ?thesis by (rule that [OF r(1)]) (use wf' live room bytes pre st r(3) in \<open>simp_all add: symtab_inv_def\<close>)
qed

lemma runs_intern:
  assumes wf: "world_wf w" and len: "length x < 2 ^ 32"
  shows "runs (text_weight x) w (symbolIntern x w) (\<lambda>sid w'. names (w_layer w') sid x)"
proof -
  obtain r al' t' where r: "nn_symbol_intern (w_al w) (w_syms w) (Some x) (of_nat (length x)) = Inr (r, al', t')"
    "symtab_inv al' t'" "prefix (sym_names (w_syms w)) (sym_names t')" "al_steps (w_al w) al'"
    "nn_symbol_live t' = nn_symbol_live (w_syms w)"
    "names_bytes (sym_names t') \<le> names_bytes (sym_names (w_syms w)) + text_weight x"
    "r \<noteq> 0 \<Longrightarrow> stands_for (sym_names t') r x"
    "al_ok (w_al w) = (\<lambda>_ _. True) \<Longrightarrow> nn_symbol_live (w_syms w) \<Longrightarrow>
       names_bytes (sym_names (w_syms w)) + text_weight x < 1610612736 \<Longrightarrow> r \<noteq> 0"
    by (rule intern_call [of "w_al w" "w_syms w" x]) (use wf len in \<open>simp_all add: world_wf_def\<close>)
  let ?w = "w\<lparr>w_al := al', w_layer := (w_layer w)\<lparr>dl_symbols := t'\<rparr>\<rparr>"
  have call: "symbolIntern x w = checkedSymbol r ?w"
    using r(1) by (simp add: symbolIntern_def io_bind_def c_nn_symbol_intern_def)
  have "w_layer ?w = (w_layer w)\<lparr>dl_symbols := t', dl_code := w_code w\<rparr>" by simp
  then have "\<exists>t s. w_layer ?w = (w_layer w)\<lparr>dl_symbols := t, dl_code := s\<rparr>" by blast
  then have ext: "extends w ?w" using r(3,4,5) by (simp add: extends_def)
  have wf': "world_wf ?w" using wf r(2,3) seen_ok_later [of w ?w] by (simp add: world_wf_def)
  have u: "used ?w \<le> used w + text_weight x" using r(6) by (simp add: used_def)
  show ?thesis
  proof (cases "r = 0")
    case True
    have "\<not> plenty w (text_weight x)" using r(8) True by (auto simp: plenty_def used_def)
    then show ?thesis unfolding call using True runs_refused [OF ext] by (simp add: checkedSymbol_def)
  next
    case False
    then have "names (w_layer ?w) r x" using r(2,7) names_iff [of al' "w_layer ?w"] by simp
    then show ?thesis unfolding call using False wf' ext u by (simp add: checkedSymbol_def io_return_def runs_def)
  qed
qed

subsection \<open>Emitting\<close>

lemma reads_is_op:
  "reads_op dbg (dl_code l) i \<lparr>bo_opcode = opc, bo_flags = fl, bo_short_arg = sa, bo_arg1 = a1, bo_arg2 = a2, bo_arg3 = a3\<rparr> \<Longrightarrow>
     is_op dbg l i opc fl sa a1 a2 a3"
  by (simp add: reads_op_def is_op_def cbcOpcode_def cbcFlags_def cbcShortArg_def cbcArg1_def cbcArg2_def cbcArg3_def)

definition emitted :: "nat \<Rightarrow> u8 \<Rightarrow> u8 \<Rightarrow> u16 \<Rightarrow> u32 \<Rightarrow> u32 \<Rightarrow> u32 \<Rightarrow> u32 \<Rightarrow> world \<Rightarrow> bool" where
  "emitted n opc fl sa a1 a2 a3 i w \<longleftrightarrow> unat i = n \<and> length (ops_of (w_code w)) = Suc n \<and>
     (\<forall>dbg. is_op dbg (w_layer w) i opc fl sa a1 a2 a3)"

lemma room_if_plenty:
  assumes "plenty w 1" and "bc_wf (w_code w)"
  shows "op_room (w_al w) (w_code w)" and "data_room (w_al w) (w_code w)"
proof -
  have p: "al_ok (w_al w) = (\<lambda>_ _. True)" "nn_bytecode_live (w_code w)" "used w + 1 < 1610612736"
    using assms(1) by (simp_all add: plenty_def)
  have "length (ops_of (w_code w)) < 1610612736" "length (data_of (w_code w)) < 1610612736"
    using p(3) unfolding used_def by linarith+
  then have c: "unat (bc_op_count (w_code w)) < 1610612736" "unat (bc_data_count (w_code w)) < 1610612736"
    using length_ops_of [OF assms(2)] length_data_of [OF assms(2)] by simp_all
  have "bc_op_count (w_code w) \<le> bc_op_capacity (w_code w)" "bc_data_count (w_code w) \<le> bc_data_capacity (w_code w)"
    using assms(2) by (auto simp: bc_wf_def garr_def split: option.splits)
  then show "op_room (w_al w) (w_code w)" "data_room (w_al w) (w_code w)"
    using p c unfolding op_room_def data_room_def by (auto simp: word_less_nat_alt word_le_nat_alt)
qed

lemma live_if_holds:
  "bc_wf s \<Longrightarrow> ops_of s \<noteq> [] \<or> data_of s \<noteq> [] \<Longrightarrow> nn_bytecode_live s"
  by (auto simp: bc_wf_def ops_of_def data_of_def nn_bytecode_live_def split: option.splits)

lemma emit_world:
  assumes wf: "world_wf w" and "bc_wf s" and "al_steps (w_al w) al" and "prefix (ops_of (w_code w)) (ops_of s)"
    and "prefix (data_of (w_code w)) (data_of s)" and "nn_bytecode_live s = nn_bytecode_live (w_code w)"
  shows "world_wf (w\<lparr>w_al := al, w_layer := (w_layer w)\<lparr>dl_code := s\<rparr>\<rparr>)"
    and "extends w (w\<lparr>w_al := al, w_layer := (w_layer w)\<lparr>dl_code := s\<rparr>\<rparr>)"
proof -
  let ?w = "w\<lparr>w_al := al, w_layer := (w_layer w)\<lparr>dl_code := s\<rparr>\<rparr>"
  show "world_wf ?w" using wf assms(2) seen_ok_later [of w ?w] by (simp add: world_wf_def symtab_inv_def)
  have "w_layer ?w = (w_layer w)\<lparr>dl_symbols := w_syms w, dl_code := s\<rparr>" by simp
  then have "\<exists>t s. w_layer ?w = (w_layer w)\<lparr>dl_symbols := t, dl_code := s\<rparr>" by blast
  then show "extends w ?w" using assms(3-6) by (simp add: extends_def)
qed

lemma runs_emit:
  assumes wf: "world_wf w"
  shows "runs 1 w (cbcEmit opc fl sa a1 a2 a3 w) (emitted (length (ops_of (w_code w))) opc fl sa a1 a2 a3)"
proof -
  let ?e = "\<lparr>bo_opcode = opc, bo_flags = fl, bo_short_arg = sa, bo_arg1 = a1, bo_arg2 = a2, bo_arg3 = a3\<rparr>"
  have bw: "bc_wf (w_code w)" using wf by (simp add: world_wf_def)
  obtain i al s where r: "emit_op ?e (w_al w) (w_code w) = Inr (i, al, s)" "bc_wf s" "al_steps (w_al w) al"
    "data_of s = data_of (w_code w)" "i = UINT32_MAX \<longleftrightarrow> \<not> op_room (w_al w) (w_code w)" "i = UINT32_MAX \<longrightarrow> s = w_code w"
    "i \<noteq> UINT32_MAX \<longrightarrow> i = bc_op_count (w_code w) \<and> ops_of s = ops_of (w_code w) @ [?e] \<and> unat i = length (ops_of (w_code w))"
    using emit_op_result [OF bw, of ?e "w_al w"] by metis
  let ?w = "w\<lparr>w_al := al, w_layer := (w_layer w)\<lparr>dl_code := s\<rparr>\<rparr>"
  have call: "cbcEmit opc fl sa a1 a2 a3 w = checkedEmit ''nn_bc_emit'' i ?w"
    using r(1) by (simp add: cbcEmit_def io_bind_def emit_op_def)
  show ?thesis
  proof (cases "i = UINT32_MAX")
    case True
    then have s: "s = w_code w" and "\<not> plenty w 1" using r(5,6) room_if_plenty(1) [OF _ bw] by blast+
    have "extends w ?w" unfolding s using emit_world(2) [OF wf bw r(3)] by simp
    then show ?thesis unfolding call using True runs_refused [OF _ \<open>\<not> plenty w 1\<close>] by (simp add: checkedEmit_def)
  next
    case False
    then have o: "ops_of s = ops_of (w_code w) @ [?e]" "unat i = length (ops_of (w_code w))" using r(7) by blast+
    have "nn_bytecode_live (w_code w)" using False r(5) by (simp add: op_room_def)
    moreover have "nn_bytecode_live s" using live_if_holds [OF r(2)] o(1) by simp
    ultimately have ww: "world_wf ?w" "extends w ?w" using emit_world [OF wf r(2,3)] o(1) r(4) by simp_all
    have "reads_op dbg s i ?e" for dbg using op_reads [OF r(2), of i dbg] o by simp
    then have "emitted (length (ops_of (w_code w))) opc fl sa a1 a2 a3 i ?w"
      using o reads_is_op [of _ "w_layer ?w"] by (simp add: emitted_def)
    moreover have "used ?w \<le> used w + 1" using o(1) r(4) by (simp add: used_def)
    ultimately show ?thesis unfolding call using False ww by (simp add: checkedEmit_def io_return_def runs_def)
  qed
qed

lemma runs_emit_data:
  assumes wf: "world_wf w"
  shows "runs 1 w (cbcEmitData v w) (\<lambda>i w'. unat i = length (data_of (w_code w)) \<and>
    data_of (w_code w') = data_of (w_code w) @ [v])"
proof -
  have bw: "bc_wf (w_code w)" using wf by (simp add: world_wf_def)
  obtain i al s where r: "nn_bc_emit_data v (w_al w) (w_code w) = Inr (i, al, s)" "bc_wf s" "al_steps (w_al w) al"
    "ops_of s = ops_of (w_code w)" "i = UINT32_MAX \<longleftrightarrow> \<not> data_room (w_al w) (w_code w)" "i = UINT32_MAX \<longrightarrow> s = w_code w"
    "i \<noteq> UINT32_MAX \<longrightarrow> i = bc_data_count (w_code w) \<and> data_of s = data_of (w_code w) @ [v] \<and> unat i = length (data_of (w_code w))"
    using emit_data_result [OF bw, of v "w_al w"] by metis
  let ?w = "w\<lparr>w_al := al, w_layer := (w_layer w)\<lparr>dl_code := s\<rparr>\<rparr>"
  have call: "cbcEmitData v w = checkedEmit ''nn_bc_emit_data'' i ?w"
    using r(1) by (simp add: cbcEmitData_def io_bind_def)
  show ?thesis
  proof (cases "i = UINT32_MAX")
    case True
    then have s: "s = w_code w" and "\<not> plenty w 1" using r(5,6) room_if_plenty(2) [OF _ bw] by blast+
    have "extends w ?w" unfolding s using emit_world(2) [OF wf bw r(3)] by simp
    then show ?thesis unfolding call using True runs_refused [OF _ \<open>\<not> plenty w 1\<close>] by (simp add: checkedEmit_def)
  next
    case False
    then have d: "data_of s = data_of (w_code w) @ [v]" "unat i = length (data_of (w_code w))" using r(7) by blast+
    have "nn_bytecode_live (w_code w)" using False r(5) by (simp add: data_room_def)
    moreover have "nn_bytecode_live s" using live_if_holds [OF r(2)] d(1) by simp
    ultimately have ww: "world_wf ?w" "extends w ?w" using emit_world [OF wf r(2,3)] d(1) r(4) by simp_all
    have "used ?w \<le> used w + 1" using d(1) r(4) by (simp add: used_def)
    then show ?thesis unfolding call using False ww d by (simp add: checkedEmit_def io_return_def runs_def)
  qed
qed

subsection \<open>Operand words\<close>

text \<open>Words of the operand array from an offset on.\<close>

definition words_at :: "data_layer \<Rightarrow> u32 \<Rightarrow> u32 list \<Rightarrow> bool" where
  "words_at l off ws \<longleftrightarrow> bc_wf (dl_code l) \<and>
     (ws \<noteq> [] \<longrightarrow> take (length ws) (drop (unat off) (data_of (dl_code l))) = ws)"

lemma words_at_append:
  assumes "words_at l off (us @ ws)"
  shows "words_at l off us" and "words_at l (off + of_nat (length us)) ws"
proof -
  let ?d = "data_of (dl_code l)"
  have wf: "bc_wf (dl_code l)" using assms by (simp add: words_at_def)
  have all: "take (length us + length ws) (drop (unat off) ?d) = us @ ws" if "us @ ws \<noteq> []"
    using assms that by (simp add: words_at_def)
  show "words_at l off us"
  proof (cases "us = []")
    case False
    then have "take (length us) (take (length us + length ws) (drop (unat off) ?d)) = us" using all by simp
    then show ?thesis using wf by (simp add: words_at_def min_def)
  qed (simp add: words_at_def wf)
  show "words_at l (off + of_nat (length us)) ws"
  proof (cases "ws = []")
    case False
    then have a: "take (length us + length ws) (drop (unat off) ?d) = us @ ws" using all by simp
    have "length us + length ws \<le> length ?d - unat off"
      using arg_cong [OF a, of length] by (simp add: min_def split: if_splits)
    moreover have "0 < length ws" using False by simp
    moreover have "length ?d < 2 ^ 32" using length_data_of [OF wf] unat_u32_less [of "bc_data_count (dl_code l)"] by simp
    ultimately have "unat off + length us < 2 ^ 32" by linarith
    then have u: "unat (off + of_nat (length us)) = unat off + length us"
      by (simp add: unat_word_ariths unsigned_of_nat take_bit_nat_eq_self)
    have "drop (length us) (take (length us + length ws) (drop (unat off) ?d)) = ws" using a by simp
    then show ?thesis using wf by (simp add: words_at_def u drop_take add.commute)
  qed (simp add: words_at_def wf)
qed

lemma words_at_Cons:
  assumes "words_at l off (v # ws)"
  shows "cbcData dbg (dl_code l) off = Inr v" and "words_at l (off + 1) ws"
proof -
  show "words_at l (off + 1) ws" using words_at_append(2) [of l off "[v]" ws] assms by simp
  have wf: "bc_wf (dl_code l)" and t: "take (Suc (length ws)) (drop (unat off) (data_of (dl_code l))) = v # ws"
    using assms by (simp_all add: words_at_def)
  have "unat off < length (data_of (dl_code l))" using t by (cases "unat off < length (data_of (dl_code l))") auto
  moreover then have "data_of (dl_code l) ! unat off = v" using t by (simp add: Cons_nth_drop_Suc [symmetric])
  ultimately show "cbcData dbg (dl_code l) off = Inr v" using data_reads [OF wf, of off dbg] by (simp add: cbcData_def)
qed

lemma words_at_Cons2:
  assumes "words_at l off (a # b # ws)"
  shows "cbcData dbg (dl_code l) off = Inr a" "cbcData dbg (dl_code l) (off + 1) = Inr b" "words_at l (off + 2) ws"
  using words_at_Cons [OF assms] words_at_Cons [OF words_at_Cons(2) [OF assms]] by (simp_all add: add.assoc)

lemma words_at_Cons3:
  assumes "words_at l off (a # b # c # ws)"
  shows "cbcData dbg (dl_code l) off = Inr a" "cbcData dbg (dl_code l) (off + 1) = Inr b"
    "cbcData dbg (dl_code l) (off + 2) = Inr c" "words_at l (off + 3) ws"
  using words_at_Cons2 [OF assms] words_at_Cons [OF words_at_Cons2(3) [OF assms]] by (simp_all add: add.assoc)

lemma words_at_extends: "world_wf w' \<Longrightarrow> extends w w' \<Longrightarrow> words_at (w_layer w) off ws \<Longrightarrow> words_at (w_layer w') off ws"
proof -
  assume a: "world_wf w'" "extends w w'" "words_at (w_layer w) off ws"
  then obtain new where d: "data_of (w_code w') = data_of (w_code w) @ new" by (auto simp: extends_def prefix_def)
  have "take (length ws) (drop (unat off) (data_of (w_code w'))) = ws" if "ws \<noteq> []"
  proof -
    have t: "take (length ws) (drop (unat off) (data_of (w_code w))) = ws" using a(3) that by (simp add: words_at_def)
    then have "length ws \<le> length (data_of (w_code w)) - unat off" by (metis length_drop length_take min_def nle_le)
    then show ?thesis using t that unfolding d by (cases ws) simp_all
  qed
  then show ?thesis using a(1) by (simp add: words_at_def world_wf_def)
qed

lemma runs_emit_many:
  assumes "world_wf w"
  shows "runs (length xs) w (io_mapM cbcEmitData xs w) (\<lambda>_ w'. data_of (w_code w') = data_of (w_code w) @ xs)"
  using assms
proof (induction xs arbitrary: w)
  case Nil
  then show ?case by (simp add: runs_return)
next
  case (Cons x xs)
  have "runs (1 + (length xs + 0)) w (io_mapM cbcEmitData (x # xs) w) (\<lambda>_ w'. data_of (w_code w') = data_of (w_code w) @ x # xs)"
    unfolding io_mapM.simps
  proof (rule runs_bind, rule runs_emit_data, rule Cons.prems, rule runs_bind, rule Cons.IH)
    fix ys w1 w2
    assume "world_wf w2" "data_of (w_code w2) = data_of (w_code w1) @ xs"
    moreover fix i assume "unat i = length (data_of (w_code w)) \<and> data_of (w_code w1) = data_of (w_code w) @ [x]"
    ultimately show "runs 0 w2 (io_return (i # ys) w2) (\<lambda>_ w'. data_of (w_code w') = data_of (w_code w) @ x # xs)"
      by (intro runs_return) simp_all
  qed
  then show ?case by simp
qed

lemma runs_emitWordList:
  assumes wf: "world_wf w"
  shows "runs (length ws) w (emitWordList ws w) (\<lambda>off w'. words_at (w_layer w') off ws)"
proof (cases ws)
  case Nil
  then show ?thesis using wf by (simp add: runs_def io_return_def words_at_def world_wf_def)
next
  case (Cons x xs)
  have "runs (1 + (length xs + 0)) w (emitWordList (x # xs) w) (\<lambda>off w'. words_at (w_layer w') off (x # xs))"
    unfolding emitWordList.simps
  proof (rule runs_bind, rule runs_emit_data, rule wf, rule runs_bind, rule runs_emit_many)
    fix off :: u32 and w1 u w2
    assume "unat off = length (data_of (w_code w)) \<and> data_of (w_code w1) = data_of (w_code w) @ [x]"
      "world_wf w2" "data_of (w_code w2) = data_of (w_code w1) @ xs"
    then show "runs 0 w2 (io_return off w2) (\<lambda>off w'. words_at (w_layer w') off (x # xs))"
      by (intro runs_return) (simp_all add: words_at_def world_wf_def)
  qed
  then show ?thesis by (simp add: Cons)
qed

subsection \<open>Counted payloads\<close>

definition counted :: "data_layer \<Rightarrow> u16 \<Rightarrow> u32 \<Rightarrow> nat \<Rightarrow> u32 list \<Rightarrow> bool" where
  "counted l sa a n ws \<longleftrightarrow> (sa \<noteq> spilledCountSentinel \<and> unat sa = n \<and> words_at l a ws) \<or>
     (sa = spilledCountSentinel \<and> n < 2 ^ 32 \<and> words_at l a (of_nat n # ws))"

lemma counted_extends: "world_wf w' \<Longrightarrow> extends w w' \<Longrightarrow> counted (w_layer w) sa a n ws \<Longrightarrow> counted (w_layer w') sa a n ws"
  by (auto simp: counted_def intro: words_at_extends)

lemma runs_emitCounted:
  assumes wf: "world_wf w" and n: "n < 2 ^ 32"
  shows "runs (length ws + 1) w (emitCounted what n ws w) (\<lambda>(sa, a) w'. counted (w_layer w') sa a n ws)"
proof (cases "n < 65535")
  case True
  then have u: "unat (of_nat n :: u16) = n" by (simp add: unsigned_of_nat take_bit_nat_eq_self)
  then have ns: "(of_nat n :: u16) \<noteq> 65535" using True by auto
  have eq: "emitCounted what n ws = io_bind (emitWordList ws) (\<lambda>off. io_return (of_nat n, off))"
    using True by (simp add: emitCounted_def)
  have "runs (length ws + 0) w (emitCounted what n ws w) (\<lambda>(sa, a) w'. counted (w_layer w') sa a n ws)"
    unfolding eq by (rule runs_bind, rule runs_emitWordList, rule wf, rule runs_return) (simp_all add: counted_def u ns)
  then show ?thesis by (rule runs_weaken) simp_all
next
  case False
  then have eq: "emitCounted what n ws = io_bind (io_return (of_nat n)) (\<lambda>spilled.
      io_bind (emitWordList (spilled # ws)) (\<lambda>off. io_return (65535, off)))"
    using n by (simp add: emitCounted_def countArg_def)
  have "runs (0 + (length (of_nat n # ws) + 0)) w (emitCounted what n ws w) (\<lambda>(sa, a) w'. counted (w_layer w') sa a n ws)"
    unfolding eq
  proof (rule runs_bind [where Q = "\<lambda>x _. x = of_nat n"], rule runs_return [OF wf], rule refl)
    fix spilled :: u32 and w1 assume w1: "world_wf w1" "spilled = of_nat n"
    show "runs (length ((of_nat n :: u32) # ws) + 0) w1 (io_bind (emitWordList (spilled # ws)) (\<lambda>off. io_return (65535, off)) w1)
        (\<lambda>(sa, a) w'. counted (w_layer w') sa a n ws)"
      unfolding w1(2)
      by (rule runs_bind, rule runs_emitWordList, rule w1(1), rule runs_return) (simp_all add: counted_def n [simplified])
  qed
  then show ?thesis by simp
qed

lemma counted_reads:
  assumes "counted l sa a n ws" and "is_op dbg l i opc fl sa a1 a2 a3"
  obtains off where "cbcCountedPayload dbg (dl_code l) i a = Inr (n, off)" and "words_at l off ws"
proof (cases "sa = spilledCountSentinel")
  case True
  then have w: "words_at l a (of_nat n # ws)" "n < 2 ^ 32" using assms(1) by (simp_all add: counted_def)
  then have "unat (of_nat n :: u32) = n" by (simp add: unsigned_of_nat take_bit_nat_eq_self)
  then have "cbcCountedPayload dbg (dl_code l) i a = Inr (n, a + 1)"
    using True words_at_Cons(1) [OF w(1), of dbg] assms(2) by (simp add: cbcCountedPayload_def is_op_def)
  then show ?thesis using that words_at_Cons(2) [OF w(1)] by blast
next
  case False
  then have "cbcCountedPayload dbg (dl_code l) i a = Inr (n, a)" "words_at l a ws"
    using assms by (simp_all add: counted_def cbcCountedPayload_def is_op_def)
  then show ?thesis using that by blast
qed

subsection \<open>What the decoders read\<close>

lemma readParts_words: "words_at l off (pairWords vs) \<Longrightarrow> readParts dbg (dl_code l) (length vs) off = Inr vs"
proof (induction vs arbitrary: off)
  case (Cons v vs)
  obtain a b where v: "v = (a, b)" by (cases v)
  have w: "words_at l off (a # b # pairWords vs)" using Cons.prems by (simp add: pairWords_def v)
  show ?case using words_at_Cons2 [OF w] Cons.IH by (simp add: v)
qed simp

lemma readChildren_words: "words_at l off vs \<Longrightarrow> readChildren dbg (dl_code l) (length vs) off = Inr vs"
proof (induction vs arbitrary: off)
  case (Cons v vs)
  show ?case using words_at_Cons [OF Cons.prems] Cons.IH by simp
qed simp

definition keyWords :: "bc_attr_key \<Rightarrow> u32 list" where
  "keyWords k = (case k of BcStaticKey sid \<Rightarrow> [0, sid] | BcDynamicKey v \<Rightarrow> [1, v])"

lemma decodeAttrKey_words:
  "words_at l off (keyWords k @ ws) \<Longrightarrow> decodeAttrKey dbg (dl_code l) off = Inr k \<and> words_at l (off + 2) ws"
  using words_at_Cons2 by (cases k) (auto simp: keyWords_def decodeAttrKey_def)

lemma readPath_words: "words_at l off (concat (map keyWords ks)) \<Longrightarrow> readPath dbg (dl_code l) (length ks) off = Inr ks"
proof (induction ks arbitrary: off)
  case (Cons k ks)
  then show ?case using decodeAttrKey_words [of l off k _ dbg] by simp
qed simp

lemma captureWords_pairs: "captureWords ((a, b) # ps) = of_nat a # of_nat b # captureWords ps"
  by (simp add: captureWords_def)

lemma unat_small: "n < 4294967296 \<Longrightarrow> unat (of_nat n :: u32) = n"
  by (simp add: unsigned_of_nat take_bit_nat_eq_self)

lemma decodePairs_words:
  "words_at l off (captureWords ps) \<Longrightarrow> \<forall>(a, b) \<in> set ps. a < 2 ^ 32 \<and> b < 2 ^ 32 \<Longrightarrow>
     decodePairs dbg (dl_code l) (length ps) off = Inr ps"
proof (induction ps arbitrary: off)
  case (Cons p ps)
  obtain a b where p: "p = (a, b)" by (cases p)
  have w: "words_at l off (of_nat a # of_nat b # captureWords ps)" using Cons.prems(1) by (simp add: captureWords_pairs p)
  show ?case using words_at_Cons2 [OF w] Cons.IH Cons.prems(2) by (simp add: p unat_small)
qed simp

fun captures_fit :: "capture_info \<Rightarrow> bool" where
  "captures_fit NoCaptureInfo = True"
| "captures_fit (Captures ps) = (length ps < 2 ^ 32 \<and> (\<forall>(a, b) \<in> set ps. a < 2 ^ 32 \<and> b < 2 ^ 32))"
| "captures_fit (CapturesWithScopes ps) = (length ps < 2 ^ 32 \<and> (\<forall>(a, b) \<in> set ps. a < 2 ^ 32 \<and> b < 2 ^ 32))"

definition capture_info_words :: "capture_info \<Rightarrow> u32 list" where
  "capture_info_words ci = (case ci of
     NoCaptureInfo \<Rightarrow> [captureNone]
   | Captures ps \<Rightarrow> [captureSlots, of_nat (length ps)] @ captureWords ps
   | CapturesWithScopes ps \<Rightarrow> [captureWithScopes, of_nat (length ps)] @ captureWords ps)"

lemma length_captureWords: "length (captureWords ps) = 2 * length ps"
  by (induction ps) (auto simp: captureWords_def)

lemma runs_captures:
  "world_wf w \<Longrightarrow> runs (capture_weight ci) w (compileCaptureInfo ci w) (\<lambda>off w'. words_at (w_layer w') off (capture_info_words ci))"
proof -
  assume wf: "world_wf w"
  have "compileCaptureInfo ci = emitWordList (capture_info_words ci)" "capture_weight ci = length (capture_info_words ci)"
    by (cases ci; simp add: compileCaptureInfo_def capture_info_words_def length_captureWords)+
  then show ?thesis using runs_emitWordList [OF wf] by simp
qed

lemma capture_info_reads:
  assumes "words_at l off (capture_info_words ci)" and "captures_fit ci"
  shows "decodeBcCaptureInfo dbg (dl_code l) off = Inr ci"
proof -
  have r: "cbcData dbg (dl_code l) off = Inr tag \<and> cbcData dbg (dl_code l) (off + 1) = Inr (of_nat (length ps)) \<and>
      decodePairs dbg (dl_code l) (length ps) (off + 2) = Inr ps"
    if "words_at l off ([tag, of_nat (length ps)] @ captureWords ps)"
      "\<forall>(a, b) \<in> set ps. a < 2 ^ 32 \<and> b < 2 ^ 32" for tag ps
    using words_at_Cons2 decodePairs_words that by simp
  show ?thesis
  proof (cases ci)
    case NoCaptureInfo
    then show ?thesis using assms words_at_Cons(1) [of l off 0 "[]" dbg]
      by (simp add: capture_info_words_def decodeBcCaptureInfo_def)
  qed (use assms r in \<open>auto simp: capture_info_words_def decodeBcCaptureInfo_def unat_small\<close>)
qed

subsection \<open>Numbers\<close>

lemma split_reassemble: "splitInt64 n = (lo, hi) \<Longrightarrow> reassembleInt64 lo hi = n"
proof -
  assume "splitInt64 n = (lo, hi)"
  then have "reassembleInt64 lo hi = (ucast (ucast (n AND 4294967295) :: u32) OR push_bit 32 (ucast (ucast (drop_bit 32 n) :: u32)) :: u64)"
    by (auto simp: splitInt64_def reassembleInt64_def)
  also have "\<dots> = n"
  proof -
    have "n AND 4294967295 = take_bit 32 n" by (simp add: take_bit_eq_mask mask_eq_exp_minus_1)
    then show ?thesis by (intro bit_word_eqI) (auto simp: bit_simps)
  qed
  finally show ?thesis .
qed

end
