(* ===== verification/Nova_Compile_Spec.thy ===== *)
theory Nova_Compile_Spec
  imports Nova_Emit
begin

section \<open>What the compiler promises\<close>

text \<open>
  The relation of a compilation's states: what lasts from one to the next, what a successful or refused step is, and
  how positions, bindings and formals are written as words.
\<close>

subsection \<open>Facts that last\<close>

text \<open>A fact about the layer and a bound on instruction indices that holds now, in every later world and for
  every bound from the present instruction count on.\<close>

definition held :: "world \<Rightarrow> (data_layer \<Rightarrow> nat \<Rightarrow> bool) \<Rightarrow> bool" where
  "held w R \<longleftrightarrow> (\<forall>w' j. world_wf w' \<longrightarrow> extends w w' \<longrightarrow> length (ops_of (w_code w)) \<le> j \<longrightarrow> R (w_layer w') j)"

lemma extends_ops: "extends w w' \<Longrightarrow> length (ops_of (w_code w)) \<le> length (ops_of (w_code w'))"
  by (simp add: extends_def prefix_length_le)

lemma held_later: "held w R \<Longrightarrow> extends w w' \<Longrightarrow> held w' R"
  unfolding held_def by (meson extends_trans extends_ops le_trans)

lemma held_use: "held w R \<Longrightarrow> world_wf w' \<Longrightarrow> extends w w' \<Longrightarrow> length (ops_of (w_code w)) \<le> j \<Longrightarrow> R (w_layer w') j"
  by (simp add: held_def)

lemma held_mono: "held w R \<Longrightarrow> (\<And>l j. R l j \<Longrightarrow> S l j) \<Longrightarrow> held w S"
  by (simp add: held_def)

lemma held_conj: "held w R \<Longrightarrow> held w S \<Longrightarrow> held w (\<lambda>l j. R l j \<and> S l j)"
  by (simp add: held_def)

lemma held_const: "c \<Longrightarrow> held w (\<lambda>l j. c)"
  by (simp add: held_def)

lemma held_list_all2:
  "list_all2 (\<lambda>x y. held w (\<lambda>l j. P l j x y)) xs ys \<Longrightarrow> held w (\<lambda>l j. list_all2 (P l j) xs ys)"
  by (induction xs ys rule: list_all2_induct) (simp_all add: held_def)

lemma held_names: "world_wf w \<Longrightarrow> names (w_layer w) sid x \<Longrightarrow> held w (\<lambda>l j. names l sid x)"
  unfolding held_def by (blast intro: names_extends)

lemma held_words: "words_at (w_layer w) off ws \<Longrightarrow> held w (\<lambda>l j. words_at l off ws)"
  unfolding held_def by (blast intro: words_at_extends)

lemma held_counted: "counted (w_layer w) sa a n ws \<Longrightarrow> held w (\<lambda>l j. counted l sa a n ws)"
  unfolding held_def by (blast intro: counted_extends)

lemma is_op_extends:
  assumes wf: "world_wf w" "world_wf w'" and ext: "extends w w'" and n: "unat i < length (ops_of (w_code w))"
    and op: "is_op dbg (w_layer w) i opc fl sa a1 a2 a3"
  shows "is_op dbg (w_layer w') i opc fl sa a1 a2 a3"
proof -
  obtain new where o: "ops_of (w_code w') = ops_of (w_code w) @ new" using ext by (auto simp: extends_def prefix_def)
  have "reads_op dbg (w_code w) i (ops_of (w_code w) ! unat i)" "reads_op dbg (w_code w') i (ops_of (w_code w) ! unat i)"
    using op_reads [of "w_code w" i dbg] op_reads [of "w_code w'" i dbg] wf n o by (simp_all add: world_wf_def nth_append)
  then show ?thesis using op
    by (simp add: reads_op_def is_op_def cbcOpcode_def cbcFlags_def cbcShortArg_def cbcArg1_def cbcArg2_def cbcArg3_def)
qed

subsection \<open>Steps of a compilation\<close>

text \<open>The rules of the logic with the remaining budget on the left.\<close>

lemma runs_step:
  assumes "runs n w (m w) Q" and "n \<le> N"
    and "\<And>x w1. world_wf w1 \<Longrightarrow> extends w w1 \<Longrightarrow> Q x w1 \<Longrightarrow> runs (N - n) w1 (f x w1) R"
  shows "runs N w (io_bind m f w) R"
proof -
  have "runs (n + (N - n)) w (io_bind m f w) R"
    by (rule runs_bind, rule assms(1)) (rule assms(3))
  then show ?thesis using assms(2) by simp
qed

lemma runs_intern_held:
  "world_wf w \<Longrightarrow> length x < 2 ^ 32 \<Longrightarrow> runs (text_weight x) w (symbolIntern x w) (\<lambda>sid w'. held w' (\<lambda>l j. names l sid x))"
  by (rule runs_weaken [OF runs_intern]) (auto intro: held_names)

text \<open>The instruction of an expression is emitted last: its index is the present count.\<close>

lemma runs_finish:
  assumes "world_wf w" and "1 \<le> N"
    and "\<And>i l j. unat i = length (ops_of (w_code w)) \<Longrightarrow> unat i < j \<Longrightarrow> is_op dbg l i opc fl sa a1 a2 a3 \<Longrightarrow>
      \<exists>w'. world_wf w' \<and> extends w w' \<and> l = w_layer w' \<Longrightarrow> R l j i"
  shows "runs N w (cbcEmit opc fl sa a1 a2 a3 w) (\<lambda>i w'. held w' (\<lambda>l j. R l j i))"
proof (rule runs_weaken [OF runs_emit [OF assms(1)] assms(2)])
  fix i w1
  assume w1: "world_wf w1" "extends w w1" "emitted (length (ops_of (w_code w))) opc fl sa a1 a2 a3 i w1"
  show "held w1 (\<lambda>l j. R l j i)"
    unfolding held_def
  proof (intro allI impI)
    fix w' j assume w': "world_wf w'" "extends w1 w'" "length (ops_of (w_code w1)) \<le> j"
    show "R (w_layer w') j i"
    proof (rule assms(3))
      show "unat i = length (ops_of (w_code w))" "unat i < j" using w1(3) w'(3) by (simp_all add: emitted_def)
      show "is_op dbg (w_layer w') i opc fl sa a1 a2 a3"
        by (rule is_op_extends [OF w1(1) w'(1,2)]) (use w1(3) in \<open>simp_all add: emitted_def\<close>)
      show "\<exists>w''. world_wf w'' \<and> extends w w'' \<and> w_layer w' = w_layer w''"
        using w'(1) extends_trans [OF w1(2) w'(2)] by blast
    qed
  qed
qed

lemma held_at: "held w R \<Longrightarrow> \<exists>w'. world_wf w' \<and> extends w w' \<and> l = w_layer w' \<Longrightarrow> unat i = length (ops_of (w_code w)) \<Longrightarrow> R l (unat i)"
  by (auto simp: held_def)

subsection \<open>Positions\<close>

lemma runs_fileWord:
  assumes wf: "world_wf w" and len: "origin_weight origin < 2 ^ 32"
  shows "runs (origin_weight origin) w (fileWord origin w) (\<lambda>f w'.
    case origin of SourceFile path \<Rightarrow> held w' (\<lambda>l j. names l f path) | SourceText _ \<Rightarrow> f = 0)"
proof -
  let ?Q = "\<lambda>f w'. case origin of SourceFile path \<Rightarrow> held w' (\<lambda>l j. names l f path) | SourceText _ \<Rightarrow> f = 0"
  have ask: "runs (origin_weight origin) w
      (io_bind (internedFile origin) (\<lambda>word w'. Inr (word, w'\<lparr>w_seen := Some (origin, word)\<rparr>)) w) ?Q"
  proof (rule runs_step [where Q = ?Q])
    show "runs (origin_weight origin) w (internedFile origin w) ?Q"
    proof (cases origin)
      case (SourceFile p)
      then show ?thesis using runs_intern_held [OF wf, of p] len by (simp add: internedFile_def)
    next
      case (SourceText t)
      then show ?thesis using wf by (simp add: internedFile_def runs_return)
    qed
  next
    fix f w1 assume w1: "world_wf w1" "?Q f w1"
    let ?w = "w1\<lparr>w_seen := Some (origin, f)\<rparr>"
    have "held w1 R \<Longrightarrow> R (w_layer w1) (length (ops_of (w_code w1)))" for R using w1(1) by (simp add: held_def)
    then have "seen_ok ?w" using w1
      by (fastforce simp: seen_ok_def world_wf_def names_iff split: source_origin.splits)
    then have "world_wf ?w" using w1(1) by (simp add: world_wf_def)
    moreover have "extends w1 ?w" using extends_refl [of w1, unfolded extends_def] by (simp add: extends_def)
    moreover have "?Q f ?w" using w1(2) held_later [OF _ \<open>extends w1 ?w\<close>] by (auto split: source_origin.splits)
    moreover have "used ?w = used w1" by (simp add: used_def)
    ultimately show "runs (origin_weight origin - origin_weight origin) w1 (Inr (f, ?w)) ?Q" by (simp add: runs_def)
  qed simp
  show ?thesis
  proof (cases "w_seen w")
    case None
    then show ?thesis using ask by (simp add: fileWord_def)
  next
    case (Some s)
    obtain known f where s: "s = (known, f)" by (cases s)
    show ?thesis
    proof (cases "known = origin")
      case True
      then have "?Q f w" using wf Some s held_names [OF wf]
        by (auto simp: world_wf_def seen_ok_def names_iff split: source_origin.splits)
      then show ?thesis using True Some s wf by (simp add: fileWord_def runs_def)
    next
      case False
      then show ?thesis using ask Some s by (simp add: fileWord_def)
    qed
  qed
qed

lemma toWord32_eq: "toWord32 n = Some v \<longleftrightarrow> 0 \<le> n \<and> n \<le> 4294967295 \<and> v = of_int n"
  by (auto simp: toWord32_def)

lemma unat_of_int: "0 \<le> n \<Longrightarrow> n \<le> 4294967295 \<Longrightarrow> unat (of_int n :: u32) = nat n"
proof -
  assume n: "0 \<le> n" "n \<le> 4294967295"
  then have "(of_int n :: u32) = of_nat (nat n)" by simp
  then show ?thesis using n by (simp add: unat_small del: of_nat_nat)
qed

lemma lookupPos_words:
  assumes w: "words_at l (p - 1) [f, of_int line, of_int column]" and p: "p \<noteq> 0"
    and lc: "0 \<le> line" "line \<le> 4294967295" "0 \<le> column" "column \<le> 4294967295"
    and f: "case origin of SourceFile path \<Rightarrow> names l f path | SourceText _ \<Rightarrow> f = 0"
  shows "lookupPos dbg l p = Inr (recorded (SrcPos origin line column))"
proof -
  note r = words_at_Cons3(1-3) [OF w, of dbg]
  show ?thesis
  proof (cases origin)
    case (SourceFile path)
    then have "names l f path" using f by simp
    then have "f \<noteq> 0" "symbolText (dl_symbols l) f = Inr path" by (auto simp: names_text names_def)
    then show ?thesis using SourceFile r p lc by (simp add: lookupPos_def Let_def unat_of_int)
  next
    case (SourceText t)
    then show ?thesis using r p lc f by (simp add: lookupPos_def Let_def unat_of_int)
  qed
qed

lemma held_lookup:
  assumes "words_at (w_layer w) off [f, of_int line, of_int column]" and "off + 1 \<noteq> 0" and "held w (\<lambda>l j.
      case origin of SourceFile path \<Rightarrow> names l f path | SourceText _ \<Rightarrow> f = 0)"
    and "0 \<le> line" "line \<le> 4294967295" "0 \<le> column" "column \<le> 4294967295"
  shows "held w (\<lambda>l j. lookupPos dbg l (off + 1) = Inr (recorded (SrcPos origin line column)))"
proof (rule held_mono [OF held_conj [OF held_words [OF assms(1)] assms(3)]])
  fix l j
  assume "words_at l off [f, of_int line, of_int column] \<and>
    (case origin of SourceFile path \<Rightarrow> names l f path | SourceText _ \<Rightarrow> f = 0)"
  then show "lookupPos dbg l (off + 1) = Inr (recorded (SrcPos origin line column))"
    using lookupPos_words [of l "off + 1" f line column origin dbg] assms(2,4-7) by simp
qed

text \<open>Three words one after the other.\<close>

lemma runs_emit_three:
  assumes wf: "world_wf w"
  shows "runs 3 w (io_bind (cbcEmitData a) (\<lambda>off. io_bind (cbcEmitData b) (\<lambda>_. io_bind (cbcEmitData c) (\<lambda>_.
      io_return (off + 1)))) w) (\<lambda>p w'. p \<noteq> 0 \<and> words_at (w_layer w') (p - 1) [a, b, c])"
proof (rule runs_step, rule runs_emit_data, rule wf, simp)
  fix off :: u32 and w1 assume w1: "world_wf w1" "unat off = length (data_of (w_code w)) \<and> data_of (w_code w1) = data_of (w_code w) @ [a]"
  show "runs (3 - 1) w1 (io_bind (cbcEmitData b) (\<lambda>_. io_bind (cbcEmitData c) (\<lambda>_. io_return (off + 1))) w1)
      (\<lambda>p w'. p \<noteq> 0 \<and> words_at (w_layer w') (p - 1) [a, b, c])"
  proof (rule runs_step, rule runs_emit_data, rule w1(1), simp)
    fix i w2 assume w2: "world_wf w2" "unat i = length (data_of (w_code w1)) \<and> data_of (w_code w2) = data_of (w_code w1) @ [b]"
    show "runs (3 - 1 - 1) w2 (io_bind (cbcEmitData c) (\<lambda>_. io_return (off + 1)) w2)
        (\<lambda>p w'. p \<noteq> 0 \<and> words_at (w_layer w') (p - 1) [a, b, c])"
    proof (rule runs_step, rule runs_emit_data, rule w2(1), simp)
      fix k w3 assume w3: "world_wf w3" "unat k = length (data_of (w_code w2)) \<and> data_of (w_code w3) = data_of (w_code w2) @ [c]"
      have d: "data_of (w_code w3) = data_of (w_code w) @ [a, b, c]" using w1(2) w2(2) w3(2) by simp
      have bw: "bc_wf (w_code w3)" using w3(1) by (simp add: world_wf_def)
      have "unat off + 3 < 2 ^ 32"
        using d w1(2) length_data_of [OF bw] unat_u32_less [of "bc_data_count (w_code w3)"] by simp
      then have "unat (off + 1) = Suc (unat off)" by (intro unat_Suc_u32) simp
      then have "off + 1 \<noteq> 0" by auto
      then show "runs (3 - 1 - 1 - 1) w3 (io_return (off + 1) w3) (\<lambda>p w'. p \<noteq> 0 \<and> words_at (w_layer w') (p - 1) [a, b, c])"
        using w3(1) d w1(2) bw by (intro runs_return) (simp_all add: words_at_def)
    qed
  qed
qed

lemma runs_recordPos:
  assumes wf: "world_wf w" and len: "pos_weight pos < 2 ^ 32"
  shows "runs (pos_weight pos) w (recordPos pos w) (\<lambda>p w'. held w' (\<lambda>l j. lookupPos dbg l p = Inr (recorded pos)))"
proof -
  obtain origin line column where pos: "pos = SrcPos origin line column" by (cases pos)
  show ?thesis
  proof (cases "0 \<le> line \<and> line \<le> 4294967295 \<and> 0 \<le> column \<and> column \<le> 4294967295")
    case False
    then have "recordPos pos = io_return 0" "recorded pos = None"
      by (auto simp: recordPos_def pos toWord32_def split: option.splits)
    then show ?thesis using wf by (simp add: runs_return held_const lookupPos_def)
  next
    case True
    then have eq: "recordPos pos = io_bind (fileWord origin) (\<lambda>file. io_bind (cbcEmitData file) (\<lambda>off.
        io_bind (cbcEmitData (of_int line)) (\<lambda>_. io_bind (cbcEmitData (of_int column)) (\<lambda>_. io_return (off + 1)))))"
      by (simp add: recordPos_def pos toWord32_def)
    have ol: "origin_weight origin < 2 ^ 32" using len by (simp add: pos)
    show ?thesis
      unfolding eq
    proof (rule runs_step, rule runs_fileWord, rule wf, rule ol)
      fix f w1 assume w1: "world_wf w1" "case origin of SourceFile path \<Rightarrow> held w1 (\<lambda>l j. names l f path) | SourceText _ \<Rightarrow> f = 0"
      have h: "held w1 (\<lambda>l j. case origin of SourceFile path \<Rightarrow> names l f path | SourceText _ \<Rightarrow> f = 0)"
        using w1(2) by (cases origin) (simp_all add: held_const)
      show "runs (pos_weight pos - origin_weight origin) w1 (io_bind (cbcEmitData f) (\<lambda>off. io_bind (cbcEmitData (of_int line)) (\<lambda>_.
          io_bind (cbcEmitData (of_int column)) (\<lambda>_. io_return (off + 1)))) w1)
          (\<lambda>p w'. held w' (\<lambda>l j. lookupPos dbg l p = Inr (recorded pos)))"
      proof (rule runs_weaken [OF runs_emit_three [OF w1(1)]])
        fix p w' assume "world_wf w'" "extends w1 w'" "p \<noteq> 0 \<and> words_at (w_layer w') (p - 1) [f, of_int line, of_int column]"
        then show "held w' (\<lambda>l j. lookupPos dbg l p = Inr (recorded pos))"
          using held_lookup [of w' "p - 1" f line column origin dbg] held_later [OF h] True by (simp add: pos)
      qed (simp add: pos)
    qed (simp add: pos)
  qed
qed

subsection \<open>Bindings and formals as words\<close>

fun inheritedWords :: "bc_inherited_name \<Rightarrow> u32 list" where
  "inheritedWords (BcInheritedName p sid v) = [sid, v, p]"

fun bindingWords :: "bc_binding \<Rightarrow> u32 list" where
  "bindingWords (BcNamed p k v) = 0 # keyWords k @ [v, p]"
| "bindingWords (BcInherit p sid v) = [1, sid, v, p]"
| "bindingWords (BcInheritFrom v ns) = [2, v, of_nat (length ns)] @ concat (map inheritedWords ns)"

fun binding_small :: "bc_binding \<Rightarrow> bool" where
  "binding_small (BcInheritFrom v ns) = (length ns < 2 ^ 32)"
| "binding_small _ = True"

lemma length_keyWords [simp]: "length (keyWords k) = 2"
  by (cases k) (simp_all add: keyWords_def)

lemma length_inheritedWords: "length (concat (map inheritedWords ns)) = 3 * length ns"
proof (induction ns)
  case (Cons n ns)
  then show ?case by (cases n) simp
qed simp

lemma decodeInheritedNames_words:
  "words_at l off (concat (map inheritedWords ns)) \<Longrightarrow> decodeInheritedNames dbg (dl_code l) (length ns) off = Inr ns"
proof (induction ns arbitrary: off)
  case (Cons n ns)
  obtain p sid v where n: "n = BcInheritedName p sid v" by (cases n)
  have w: "words_at l off (sid # v # p # concat (map inheritedWords ns))" using Cons.prems by (simp add: n)
  show ?case using words_at_Cons3 [OF w] Cons.IH by (simp add: n)
qed simp

lemma decodeOneBinding_words:
  assumes w: "words_at l off (bindingWords b)" and small: "binding_small b"
  shows "decodeOneBinding dbg (dl_code l) off = Inr (b, off + of_nat (length (bindingWords b)))"
proof (cases b)
  case (BcNamed p k v)
  then have w1: "words_at l off (0 # keyWords k @ [v, p])" using w by simp
  have w2: "words_at l (off + 1) (keyWords k @ [v, p])" using words_at_Cons(2) [OF w1] .
  have k: "decodeAttrKey dbg (dl_code l) (off + 1) = Inr k" "words_at l (off + 3) [v, p]"
    using decodeAttrKey_words [OF w2, of dbg] by (simp_all add: add.assoc)
  show ?thesis using words_at_Cons(1) [OF w1, of dbg] k words_at_Cons2(1,2) [OF k(2), of dbg]
    by (simp add: decodeOneBinding_def BcNamed add.assoc)
next
  case (BcInherit p sid v)
  then have w1: "words_at l off (1 # sid # v # [p])" using w by simp
  show ?thesis using words_at_Cons3(1-3) [OF w1, of dbg] words_at_Cons(1) [OF words_at_Cons3(4) [OF w1], of dbg]
    by (simp add: decodeOneBinding_def BcInherit)
next
  case (BcInheritFrom v ns)
  then have w1: "words_at l off (2 # v # of_nat (length ns) # concat (map inheritedWords ns))" using w by simp
  show ?thesis using words_at_Cons3(1-3) [OF w1, of dbg] decodeInheritedNames_words [OF words_at_Cons3(4) [OF w1], of dbg] small
    by (simp add: decodeOneBinding_def BcInheritFrom unat_small length_inheritedWords)
qed

lemma decodeBcBindings_words:
  "words_at l off (concat (map bindingWords bs)) \<Longrightarrow> list_all binding_small bs \<Longrightarrow>
     decodeBcBindings dbg (dl_code l) (length bs) off = Inr bs"
proof (induction bs arbitrary: off)
  case (Cons b bs)
  have w: "words_at l off (bindingWords b @ concat (map bindingWords bs))" using Cons.prems(1) by simp
  show ?case using decodeOneBinding_words [OF words_at_append(1) [OF w], of dbg] Cons.IH [OF words_at_append(2) [OF w]] Cons.prems(2)
    by simp
qed simp

text \<open>The words of a formal, whose name is stored as a symbol.\<close>

definition formal_words :: "data_layer \<Rightarrow> eval_formal \<Rightarrow> u32 list \<Rightarrow> bool" where
  "formal_words l f ws \<longleftrightarrow> (case f of EvalFormal x d \<Rightarrow> \<exists>sid. names l sid x \<and>
     ws = (case d of None \<Rightarrow> [sid, 0, 0] | Some v \<Rightarrow> [sid, 1, v]))"

lemma decodeFormalEntries_words:
  "list_all2 (formal_words l) fs wss \<Longrightarrow> words_at l off (concat wss) \<Longrightarrow>
     decodeFormalEntries dbg l (length fs) off = Inr fs"
proof (induction fs wss arbitrary: off rule: list_all2_induct)
  case (Cons f fs ws wss)
  obtain x d where f: "f = EvalFormal x d" by (cases f)
  obtain sid a b where ws: "names l sid x" "ws = [sid, a, b]" "(a = 0) = (d = None)" "\<forall>v. d = Some v \<longrightarrow> b = v"
    using Cons.hyps(1) by (auto simp: formal_words_def f split: option.splits)
  have w: "words_at l off (sid # a # b # concat wss)" using Cons.prems ws(2) by simp
  show ?case using words_at_Cons3 [OF w] Cons.IH names_text [OF ws(1)] ws(3,4) by (cases d) (simp_all add: f)
qed simp

text \<open>Elements chosen one by one.\<close>

lemma list_all2_choose:
  "list_all2 (\<lambda>x y. \<exists>z. P x z \<and> Q z y) xs ys \<Longrightarrow> \<exists>zs. list_all2 P xs zs \<and> list_all2 Q zs ys"
proof (induction xs ys rule: list_all2_induct)
  case (Cons x xs y ys)
  then obtain z zs where "P x z" "Q z y" "list_all2 P xs zs" "list_all2 Q zs ys" by blast
  then have "list_all2 P (x # xs) (z # zs) \<and> list_all2 Q (z # zs) (y # ys)" by simp
  then show ?case by blast
qed simp

end
