(* ===== verification/Nova_Compile_Main.thy ===== *)
theory Nova_Compile_Main
  imports Nova_Compile_Spec
begin

section \<open>Compiled code is code of the expression\<close>

text \<open>
  The induction over the compiler: each part adds code of its argument and keeps the code that was there.
\<close>

subsection \<open>Expressions whose indices fit\<close>

text \<open>Levels and slot indices travel in 32 bits, and a path holds no escape.\<close>

fun fits :: "expr \<Rightarrow> bool" and part_fits :: "string_part \<Rightarrow> bool" and key_fits :: "attr_key \<Rightarrow> bool"
  and binding_fits :: "binding \<Rightarrow> bool" and formal_fits :: "formal \<Rightarrow> bool" and formals_fits :: "formals \<Rightarrow> bool"
where
  "fits (ELit a) = True"
| "fits (EStr ps) = list_all part_fits ps"
| "fits (EIndStr ps) = list_all part_fits ps"
| "fits (EPathStr h ps) = (list_all part_fits ps \<and> list_all no_escape ps)"
| "fits (EVar x) = True"
| "fits (EAttrs r bs c) = (list_all binding_fits bs \<and> captures_fit c)"
| "fits (EList es) = list_all fits es"
| "fits (ESelect t path d) = (fits t \<and> list_all key_fits path \<and> (case d of None \<Rightarrow> True | Some e \<Rightarrow> fits e))"
| "fits (EHasAttr t path) = (fits t \<and> list_all key_fits path)"
| "fits (EApp f x) = (fits f \<and> fits x)"
| "fits (ELambda fs b c) = (formals_fits fs \<and> fits b \<and> captures_fit c)"
| "fits (ELet bs b c) = (list_all binding_fits bs \<and> fits b \<and> captures_fit c)"
| "fits (EIf c t e) = (fits c \<and> fits t \<and> fits e)"
| "fits (EWith s b) = (fits s \<and> fits b)"
| "fits (EAssert c b) = (fits c \<and> fits b)"
| "fits (EUnary op e) = fits e"
| "fits (EBinary op l r) = (fits l \<and> fits r)"
| "fits (ESearchPath x) = True"
| "fits (EResolvedVar level idx) = (level < 2 ^ 32 \<and> idx < 2 ^ 32)"
| "fits (EWithVar x) = True"
| "part_fits (StrLit s) = True"
| "part_fits (StrEsc s) = True"
| "part_fits (StrInterp e) = fits e"
| "key_fits (StaticKey x) = True"
| "key_fits (DynamicKey e) = fits e"
| "binding_fits (NamedBinding pos k e) = (key_fits k \<and> fits e)"
| "binding_fits (Inherit pos x v) = fits v"
| "binding_fits (InheritFrom e xs) = fits e"
| "formal_fits (Formal x d) = (case d of None \<Rightarrow> True | Some e \<Rightarrow> fits e)"
| "formals_fits (FormalName x) = True"
| "formals_fits (FormalSet fs _) = list_all formal_fits fs"
| "formals_fits (FormalNamedSet x fs _) = list_all formal_fits fs"

subsection \<open>What each part of the compiler is to satisfy\<close>

definition expr_ok :: "bool \<Rightarrow> expr \<Rightarrow> bool" where
  "expr_ok dbg e \<longleftrightarrow> (fits e \<longrightarrow> weight e < 2 ^ 32 \<longrightarrow> (\<forall>w. world_wf w \<longrightarrow>
     runs (weight e) w (compile_go e w) (\<lambda>i w'. held w' (\<lambda>l j. code dbg l j e i))))"

definition part_ok :: "bool \<Rightarrow> string_part \<Rightarrow> bool" where
  "part_ok dbg p \<longleftrightarrow> (part_fits p \<longrightarrow> part_weight p < 2 ^ 32 \<longrightarrow> (\<forall>w. world_wf w \<longrightarrow>
     runs (part_weight p - 2) w (compileOnePart p w) (\<lambda>v w'. held w' (\<lambda>l j. part_code dbg l j p v))))"

definition key_ok :: "bool \<Rightarrow> attr_key \<Rightarrow> bool" where
  "key_ok dbg k \<longleftrightarrow> (key_fits k \<longrightarrow> key_weight k < 2 ^ 32 \<longrightarrow> (\<forall>w. world_wf w \<longrightarrow>
     runs (key_weight k - 2) w (compileAttrKey k w)
       (\<lambda>v w'. \<exists>kv. held w' (\<lambda>l j. key_code dbg l j k kv) \<and> keyWords kv = [fst v, snd v])))"

fun binding_len :: "binding \<Rightarrow> nat" where
  "binding_len (NamedBinding pos k e) = 5"
| "binding_len (Inherit pos x v) = 4"
| "binding_len (InheritFrom e xs) = 3 + 3 * length xs"

definition binding_ok :: "bool \<Rightarrow> binding \<Rightarrow> bool" where
  "binding_ok dbg b \<longleftrightarrow> (binding_fits b \<longrightarrow> binding_weight b < 2 ^ 32 \<longrightarrow> (\<forall>w. world_wf w \<longrightarrow>
     runs (binding_weight b - binding_len b) w (compileOneBinding b w)
       (\<lambda>ws w'. \<exists>bb. held w' (\<lambda>l j. binding_code dbg l j b bb) \<and> ws = bindingWords bb \<and> binding_small bb \<and>
          length ws = binding_len b)))"

definition inherited_ok :: "bool \<Rightarrow> inherited_name \<Rightarrow> bool" where
  "inherited_ok dbg n \<longleftrightarrow> (inherited_weight n < 2 ^ 32 \<longrightarrow> (\<forall>w. world_wf w \<longrightarrow>
     runs (inherited_weight n - 3) w (compileInheritedName n w)
       (\<lambda>ws w'. \<exists>nn. held w' (\<lambda>l j. inherited_code dbg l j n nn) \<and> ws = inheritedWords nn)))"

definition formal_ok :: "bool \<Rightarrow> formal \<Rightarrow> bool" where
  "formal_ok dbg f \<longleftrightarrow> (formal_fits f \<longrightarrow> formal_weight f < 2 ^ 32 \<longrightarrow> (\<forall>w. world_wf w \<longrightarrow>
     runs (formal_weight f - 3) w (compileFormalEntry f w)
       (\<lambda>ws w'. (\<exists>ef. held w' (\<lambda>l j. formal_code dbg l j f ef \<and> formal_words l ef ws)) \<and> length ws = 3)))"

definition formals_ok :: "bool \<Rightarrow> formals \<Rightarrow> bool" where
  "formals_ok dbg fs \<longleftrightarrow> (formals_fits fs \<longrightarrow> formals_weight fs < 2 ^ 32 \<longrightarrow> (\<forall>w. world_wf w \<longrightarrow>
     runs (formals_weight fs) w (compileFormals fs w) (\<lambda>off w'. \<exists>efs. held w' (\<lambda>l j.
       decodeBcFormals dbg l (encodeFormalType fs) off = Inr efs \<and> formals_code dbg l j fs efs))))"

lemmas ok_defs = expr_ok_def part_ok_def key_ok_def binding_ok_def inherited_ok_def formal_ok_def formals_ok_def

subsection \<open>Runs over lists\<close>

lemma sum_split: "\<forall>x \<in> set xs. g x \<le> f x \<Longrightarrow>
    sum_list (map (\<lambda>x. f x - g x) xs) + sum_list (map g xs) = sum_list (map f xs)" for f g :: "'a \<Rightarrow> nat"
  by (induction xs) auto

lemma sum_const: "sum_list (map (\<lambda>_. k) xs) = k * length xs" for k :: nat
  by (induction xs) simp_all

lemma runs_held_mapM:
  assumes "world_wf w" and "\<And>x w. x \<in> set xs \<Longrightarrow> world_wf w \<Longrightarrow> runs (c x) w (f x w) (\<lambda>y w'. held w' (\<lambda>l j. P l j x y))"
  shows "runs (sum_list (map c xs)) w (io_mapM f xs w) (\<lambda>ys w'. held w' (\<lambda>l j. list_all2 (P l j) xs ys))"
  by (rule runs_weaken [OF runs_mapM [where P = "\<lambda>x y w'. held w' (\<lambda>l j. P l j x y)" and c = c]])
    (use assms in \<open>auto intro: held_later held_list_all2\<close>)

text \<open>The same when what is coded is read off the words.\<close>

lemma runs_words_mapM:
  assumes "world_wf w" and "\<And>x w. x \<in> set xs \<Longrightarrow> world_wf w \<Longrightarrow>
      runs (c x) w (f x w) (\<lambda>y w'. \<exists>z. held w' (\<lambda>l j. P l j x z) \<and> W x z y)"
  shows "runs (sum_list (map c xs)) w (io_mapM f xs w)
    (\<lambda>ys w'. \<exists>zs. held w' (\<lambda>l j. list_all2 (P l j) xs zs) \<and> list_all2 (\<lambda>z (x, y). W x z y) zs (zip xs ys) \<and> length ys = length xs)"
proof (rule runs_weaken [OF runs_mapM [where P = "\<lambda>x y w'. \<exists>z. held w' (\<lambda>l j. P l j x z) \<and> W x z y" and c = c]])
  fix x y w w'
  assume "extends w w'" "\<exists>z. held w (\<lambda>l j. P l j x z) \<and> W x z y"
  then show "\<exists>z. held w' (\<lambda>l j. P l j x z) \<and> W x z y" using held_later by blast
next
  fix ys w'
  assume a: "list_all2 (\<lambda>x y. \<exists>z. held w' (\<lambda>l j. P l j x z) \<and> W x z y) xs ys"
  then have "list_all2 (\<lambda>x (x', y). \<exists>z. held w' (\<lambda>l j. P l j x z) \<and> W x' z y) xs (zip xs ys)"
    by (induction xs ys rule: list_all2_induct) auto
  then have "list_all2 (\<lambda>x y. \<exists>z. held w' (\<lambda>l j. P l j x z) \<and> (case y of (x', y) \<Rightarrow> W x' z y)) xs (zip xs ys)"
    by (rule list_all2_mono) auto
  from list_all2_choose [OF this]
  show "\<exists>zs. held w' (\<lambda>l j. list_all2 (P l j) xs zs) \<and> list_all2 (\<lambda>z (x, y). W x z y) zs (zip xs ys) \<and> length ys = length xs"
    using held_list_all2 list_all2_lengthD [OF a] by fastforce
qed (use assms in auto)

lemma runs_counted_step:
  assumes "world_wf w" and "n < 2 ^ 32" and "length ws + 1 \<le> N"
    and "\<And>sa a w1. world_wf w1 \<Longrightarrow> extends w w1 \<Longrightarrow> held w1 (\<lambda>l j. counted l sa a n ws) \<Longrightarrow>
      runs (N - (length ws + 1)) w1 (f sa a w1) R"
  shows "runs N w (io_bind (emitCounted what n ws) (\<lambda>(sa, a). f sa a) w) R"
  by (rule runs_step, rule runs_emitCounted, rule assms(1), rule assms(2), rule assms(3))
    (use assms(4) held_counted in auto)

lemma runs_captures_step:
  assumes "world_wf w" and "captures_fit ci" and "capture_weight ci \<le> N"
    and "\<And>off w1. world_wf w1 \<Longrightarrow> extends w w1 \<Longrightarrow> held w1 (\<lambda>l j. decodeBcCaptureInfo dbg (dl_code l) off = Inr ci) \<Longrightarrow>
      runs (N - capture_weight ci) w1 (f off w1) R"
  shows "runs N w (io_bind (compileCaptureInfo ci) f w) R"
proof (rule runs_step, rule runs_captures, rule assms(1), rule assms(3))
  fix off w1
  assume "world_wf w1" "extends w w1" "words_at (w_layer w1) off (capture_info_words ci)"
  then show "runs (N - capture_weight ci) w1 (f off w1) R"
    using capture_info_reads [OF _ assms(2)] by (intro assms(4) held_mono [OF held_words]) auto
qed

subsection \<open>The cases of the compiler\<close>

lemma runs_symbol_op:
  assumes "world_wf w" and "length x < 2 ^ 32" and "text_weight x + 1 \<le> N"
    and "\<And>i l j sid. unat i < j \<Longrightarrow> is_op dbg l i opc 0 0 sid 0 0 \<Longrightarrow> names l sid x \<Longrightarrow> R l j i"
  shows "runs N w (compileSymbolOp opc x w) (\<lambda>i w'. held w' (\<lambda>l j. R l j i))"
  unfolding compileSymbolOp_def
proof (rule runs_step, rule runs_intern_held, rule assms(1), rule assms(2))
  show "text_weight x \<le> N" using assms(3) by simp
next
  fix sid w1 assume w1: "world_wf w1" "held w1 (\<lambda>l j. names l sid x)"
  show "runs (N - text_weight x) w1 (cbcEmit opc 0 0 sid 0 0 w1) (\<lambda>i w'. held w' (\<lambda>l j. R l j i))"
  proof (rule runs_finish [OF w1(1)])
    fix i l j assume "unat i = length (ops_of (w_code w1))" "unat i < j" "is_op dbg l i opc 0 0 sid 0 0"
      "\<exists>w'. world_wf w' \<and> extends w1 w' \<and> l = w_layer w'"
    then show "R l j i" using assms(4) held_at [OF w1(2)] by blast
  qed (use assms(3) in simp)
qed

lemma lit_ok: "expr_ok dbg (ELit a)"
proof -
  have split: "reassembleInt64 (ucast (n AND 4294967295)) (ucast (drop_bit 32 n)) = n" for n
    using split_reassemble [of n] by (simp add: splitInt64_def)
  have splitd: "reassembleDouble (ucast (n AND 4294967295)) (ucast (drop_bit 32 n)) = n" for n
    using split [of n] by (simp add: reassembleDouble_def reassembleInt64_def)
  show ?thesis unfolding expr_ok_def
  proof (intro allI impI)
    fix w assume w: "weight (ELit a) < 2 ^ 32" "world_wf w"
    show "runs (weight (ELit a)) w (compile_go (ELit a) w) (\<lambda>i w'. held w' (\<lambda>l j. code dbg l j (ELit a) i))"
    proof (cases a)
      case (NixInt n)
      show ?thesis unfolding NixInt compile_go.simps compileLit_def nix_atom.case splitInt64_def prod.case
        using w(2) by (rule runs_finish) (auto simp: lit_code_def split intro!: exI)
    next
      case (NixFloat n)
      show ?thesis unfolding NixFloat compile_go.simps compileLit_def nix_atom.case splitDouble_def prod.case
        using w(2) by (rule runs_finish) (auto simp: lit_code_def splitd intro!: exI)
    next
      case (NixBool b)
      show ?thesis unfolding NixBool compile_go.simps compileLit_def nix_atom.case
        using w(2) by (rule runs_finish) (auto simp: lit_code_def split: if_splits intro!: exI)
    next
      case NixNull
      show ?thesis unfolding NixNull compile_go.simps compileLit_def nix_atom.case
        using w(2) by (rule runs_finish) (auto simp: lit_code_def)
    next
      case (NixUri x)
      show ?thesis unfolding NixUri compile_go.simps compileLit_def nix_atom.case
        using w(2) by (rule runs_symbol_op [where dbg = dbg]) (use w(1) NixUri in \<open>auto simp: lit_code_def\<close>)
    next
      case (NixPath x)
      show ?thesis unfolding NixPath compile_go.simps compileLit_def nix_atom.case
        using w(2) by (rule runs_symbol_op [where dbg = dbg]) (use w(1) NixPath in \<open>auto simp: lit_code_def\<close>)
    qed
  qed
qed

lemma var_ok: "expr_ok dbg (EVar x)" "expr_ok dbg (EWithVar x)" "expr_ok dbg (ESearchPath x)"
  unfolding expr_ok_def
  by (intro allI impI, unfold compile_go.simps, erule runs_symbol_op [where dbg = dbg]; auto)+

lemma resolved_ok: "expr_ok dbg (EResolvedVar level idx)"
  unfolding expr_ok_def
  by (intro allI impI, unfold compile_go.simps, erule runs_finish [where dbg = dbg]) (auto simp: unat_small intro!: exI)

lemma length_pairWords: "length (pairWords vs) = 2 * length vs"
  by (induction vs) (auto simp: pairWords_def)

text \<open>The parts of a string, a list, a path: their codes, then the counted payload, then the instruction.\<close>

lemma runs_parts_op:
  assumes wf: "world_wf w" and ok: "\<forall>p \<in> set ps. part_ok dbg p \<and> part_fits p"
    and n: "sum_list (map part_weight ps) + 2 \<le> N" "N < 2 ^ 32"
    and R: "\<And>i l j sa a vs. unat i < j \<Longrightarrow> is_op dbg l i opc 0 sa a 0 0 \<Longrightarrow> parts_at dbg l i a vs \<Longrightarrow>
      list_all2 (part_code dbg l (unat i)) ps vs \<Longrightarrow> R l j i"
  shows "runs N w (io_bind (io_mapM compileOnePart ps) (\<lambda>compiled.
     io_bind (emitCounted what (length ps) (pairWords compiled)) (\<lambda>(partCount, dataOff).
     cbcEmit opc 0 partCount dataOff 0 0)) w) (\<lambda>i w'. held w' (\<lambda>l j. R l j i))"
proof (rule runs_step, rule runs_held_mapM [where c = "\<lambda>p. part_weight p - 2" and P = "\<lambda>l j. part_code dbg l j"], rule wf)
  fix p w assume p: "p \<in> set ps" "world_wf w"
  then have "part_weight p < 2 ^ 32" using member_weights(1) [OF p(1)] n by simp
  then show "runs (part_weight p - 2) w (compileOnePart p w) (\<lambda>v w'. held w' (\<lambda>l j. part_code dbg l j p v))"
    using ok p by (simp add: part_ok_def)
next
  have two: "\<forall>p \<in> set ps. 2 \<le> part_weight p"
  proof
    fix p show "2 \<le> part_weight p" by (cases p) simp_all
  qed
  have s: "sum_list (map (\<lambda>p. part_weight p - 2) ps) + 2 * length ps = sum_list (map part_weight ps)"
    using sum_split [OF two] by (simp add: sum_const)
  then show "sum_list (map (\<lambda>p. part_weight p - 2) ps) \<le> N" using n by simp
  fix vs w1
  assume w1: "world_wf w1" "extends w w1" "held w1 (\<lambda>l j. list_all2 (part_code dbg l j) ps vs)"
  then have len: "length vs = length ps" using held_use [OF w1(3) w1(1) extends_refl order.refl] list_all2_lengthD by fastforce
  have pw: "length (pairWords vs) = 2 * length vs" by (rule length_pairWords)
  let ?N = "N - sum_list (map (\<lambda>p. part_weight p - 2) ps)"
  have room: "2 * length ps + 2 \<le> ?N" using s n(1) by simp
  show "runs ?N w1 (io_bind (emitCounted what (length ps) (pairWords vs))
      (\<lambda>(partCount, dataOff). cbcEmit opc 0 partCount dataOff 0 0) w1) (\<lambda>i w'. held w' (\<lambda>l j. R l j i))"
  proof (rule runs_counted_step [OF w1(1)])
    show "length ps < 2 ^ 32" using s n by linarith
    show "length (pairWords vs) + 1 \<le> ?N" using pw len room by simp
    fix sa a w2 assume w2: "world_wf w2" "extends w1 w2" "held w2 (\<lambda>l j. counted l sa a (length ps) (pairWords vs))"
    show "runs (?N - (length (pairWords vs) + 1)) w2 (cbcEmit opc 0 sa a 0 0 w2) (\<lambda>i w'. held w' (\<lambda>l j. R l j i))"
    proof (rule runs_finish [OF w2(1)])
      show "1 \<le> ?N - (length (pairWords vs) + 1)" using pw len room by simp
      fix i l j
      assume i: "unat i = length (ops_of (w_code w2))" "unat i < j" "is_op dbg l i opc 0 sa a 0 0"
        "\<exists>w'. world_wf w' \<and> extends w2 w' \<and> l = w_layer w'"
      obtain off where "cbcCountedPayload dbg (dl_code l) i a = Inr (length ps, off)" "words_at l off (pairWords vs)"
        using counted_reads [OF held_at [OF w2(3) i(4,1)] i(3)] by blast
      then have "parts_at dbg l i a vs" using readParts_words [of l off vs dbg] len by (auto simp: parts_at_def)
      then show "R l j i" using R [OF i(2,3)] held_at [OF held_later [OF w1(3) w2(2)] i(4,1)] by blast
    qed
  qed
qed

lemma str_ok:
  assumes "\<And>p. p \<in> set ps \<Longrightarrow> part_ok dbg p"
  shows "expr_ok dbg (EStr ps)" and "expr_ok dbg (EIndStr ps)"
  unfolding expr_ok_def
  by (intro allI impI, unfold compile_go.simps, rule runs_parts_op [where dbg = dbg]; use assms in \<open>auto simp: list_all_iff\<close>)+

lemma path_str_ok:
  assumes "\<And>p. p \<in> set (StrLit h # ps) \<Longrightarrow> part_ok dbg p"
  shows "expr_ok dbg (EPathStr h ps)"
  unfolding expr_ok_def
  by (intro allI impI, unfold compile_go.simps, rule runs_parts_op [where dbg = dbg];
      use assms in \<open>auto simp: list_all_iff\<close>)

lemma list_ok:
  assumes ok: "\<And>e. e \<in> set es \<Longrightarrow> expr_ok dbg e"
  shows "expr_ok dbg (EList es)"
  unfolding expr_ok_def
proof (intro allI impI)
  fix w assume a: "fits (EList es)" "weight (EList es) < 2 ^ 32" and wf: "world_wf w"
  let ?R = "\<lambda>i w'. held w' (\<lambda>l j. code dbg l j (EList es) i)"
  have s: "sum_list (map (\<lambda>e. weight e + 1) es) = sum_list (map weight es) + length es"
    by (induction es) simp_all
  let ?N = "weight (EList es) - sum_list (map weight es)"
  show "runs (weight (EList es)) w (compile_go (EList es) w) ?R"
    unfolding compile_go.simps
  proof (rule runs_step, rule runs_held_mapM [where c = weight and P = "code dbg"], rule wf)
    fix e w assume e: "e \<in> set es" "world_wf w"
    then have "weight e < 2 ^ 32" using sum_list_map_member [OF e(1), of weight] a(2) s by simp
    then show "runs (weight e) w (compile_go e w) (\<lambda>i w'. held w' (\<lambda>l j. code dbg l j e i))"
      using ok [OF e(1)] e a(1) by (simp add: expr_ok_def list_all_iff)
  next
    show "sum_list (map weight es) \<le> weight (EList es)" using s by simp
  next
    fix vs w1
    assume w1: "world_wf w1" "extends w w1" "held w1 (\<lambda>l j. list_all2 (code dbg l j) es vs)"
    then have len: "length vs = length es" using held_use [OF w1(3) w1(1) extends_refl order.refl] list_all2_lengthD by fastforce
    show "runs ?N w1 (io_bind (emitCounted ''list with elements'' (length es) vs)
        (\<lambda>(elemCount, dataOff). cbcEmit OpList 0 elemCount dataOff 0 0) w1) ?R"
    proof (rule runs_counted_step [OF w1(1)])
      show "length es < 2 ^ 32" using a(2) s by simp
      show "length vs + 1 \<le> ?N" using len s by simp
      fix sa off w2 assume w2: "world_wf w2" "extends w1 w2" "held w2 (\<lambda>l j. counted l sa off (length es) vs)"
      show "runs (?N - (length vs + 1)) w2 (cbcEmit OpList 0 sa off 0 0 w2) ?R"
      proof (rule runs_finish [OF w2(1)])
        show "1 \<le> ?N - (length vs + 1)" using len s by simp
        fix i l j
        assume i: "unat i = length (ops_of (w_code w2))" "unat i < j" "is_op dbg l i OpList 0 sa off 0 0"
          "\<exists>w'. world_wf w' \<and> extends w2 w' \<and> l = w_layer w'"
        obtain d where "cbcCountedPayload dbg (dl_code l) i off = Inr (length es, d)" "words_at l d vs"
          using counted_reads [OF held_at [OF w2(3) i(4,1)] i(3)] by blast
        then have "children_at dbg l i off vs" using readChildren_words [of l d vs dbg] len by (auto simp: children_at_def)
        moreover have "list_all2 (code dbg l (unat i)) es vs" by (rule held_at [OF held_later [OF w1(3) w2(2)] i(4,1)])
        ultimately show "code dbg l j (EList es) i" using i(2,3) by auto
      qed
    qed
  qed
qed

text \<open>Attribute paths.\<close>

lemma key_words_pairs:
  "list_all2 (\<lambda>z (x, y). keyWords z = [fst y, snd y]) ks (zip xs vs) \<Longrightarrow> length vs = length xs \<Longrightarrow>
     pairWords vs = concat (map keyWords ks) \<and> length ks = length xs"
proof (induction ks arbitrary: xs vs)
  case Nil
  then show ?case by (cases xs; cases vs) (simp_all add: pairWords_def)
next
  case (Cons k ks)
  then obtain x xs' v vs' where "xs = x # xs'" "vs = v # vs'" by (cases xs; cases vs) auto
  then show ?case using Cons.IH [of xs' vs'] Cons.prems by (cases v) (simp add: pairWords_def)
qed

lemma runs_path_op:
  assumes wf: "world_wf w" and ok: "\<forall>k \<in> set ks. key_ok dbg k \<and> key_fits k"
    and n: "sum_list (map key_weight ks) + 2 \<le> N" "sum_list (map key_weight ks) < 2 ^ 32"
    and R: "\<And>i l j sa a vs. unat i < j \<Longrightarrow> unat i \<ge> length (ops_of (w_code w)) \<Longrightarrow>
      \<exists>w'. world_wf w' \<and> extends w w' \<and> l = w_layer w' \<Longrightarrow> is_op dbg l i opc fl sa a1 a a3 \<Longrightarrow> path_at dbg l i a vs \<Longrightarrow>
      list_all2 (key_code dbg l (unat i)) ks vs \<Longrightarrow> R l j i"
  shows "runs N w (io_bind (io_mapM compileAttrKey ks) (\<lambda>compiled.
     io_bind (emitCounted what (length ks) (pairWords compiled)) (\<lambda>(pathLen, pathOff).
     cbcEmit opc fl pathLen a1 pathOff a3)) w) (\<lambda>i w'. held w' (\<lambda>l j. R l j i))"
proof (rule runs_step, rule runs_words_mapM [where c = "\<lambda>k. key_weight k - 2" and P = "\<lambda>l j. key_code dbg l j"
      and W = "\<lambda>x z y. keyWords z = [fst y, snd y]"], rule wf)
  fix k w assume k: "k \<in> set ks" "world_wf w"
  then have "key_weight k < 2 ^ 32" using member_weights(2) [OF k(1)] n by simp
  then show "runs (key_weight k - 2) w (compileAttrKey k w)
      (\<lambda>v w'. \<exists>kv. held w' (\<lambda>l j. key_code dbg l j k kv) \<and> keyWords kv = [fst v, snd v])"
    using ok k by (simp add: key_ok_def)
next
  have two: "\<forall>k \<in> set ks. 2 \<le> key_weight k"
  proof
    fix k show "2 \<le> key_weight k" by (cases k) simp_all
  qed
  have s: "sum_list (map (\<lambda>k. key_weight k - 2) ks) + 2 * length ks = sum_list (map key_weight ks)"
    using sum_split [OF two] by (simp add: sum_const)
  then show "sum_list (map (\<lambda>k. key_weight k - 2) ks) \<le> N" using n by simp
  fix vs w1
  assume w1: "world_wf w1" "extends w w1" "\<exists>kvs. held w1 (\<lambda>l j. list_all2 (key_code dbg l j) ks kvs) \<and>
    list_all2 (\<lambda>z (x, y). keyWords z = [fst y, snd y]) kvs (zip ks vs) \<and> length vs = length ks"
  then obtain kvs where kvs: "held w1 (\<lambda>l j. list_all2 (key_code dbg l j) ks kvs)"
    "list_all2 (\<lambda>z (x, y). keyWords z = [fst y, snd y]) kvs (zip ks vs)" "length vs = length ks" by blast
  have pw: "pairWords vs = concat (map keyWords kvs)" "length kvs = length ks" using key_words_pairs [OF kvs(2,3)] by auto
  have len: "length (pairWords vs) = 2 * length ks" using kvs(3) by (simp add: length_pairWords)
  let ?N = "N - sum_list (map (\<lambda>k. key_weight k - 2) ks)"
  have room: "2 * length ks + 2 \<le> ?N" using s n(1) by simp
  show "runs ?N w1 (io_bind (emitCounted what (length ks) (pairWords vs))
      (\<lambda>(pathLen, pathOff). cbcEmit opc fl pathLen a1 pathOff a3) w1) (\<lambda>i w'. held w' (\<lambda>l j. R l j i))"
  proof (rule runs_counted_step [OF w1(1)])
    show "length ks < 2 ^ 32" using s n by linarith
    show "length (pairWords vs) + 1 \<le> ?N" using len room by simp
    fix sa a w2 assume w2: "world_wf w2" "extends w1 w2" "held w2 (\<lambda>l j. counted l sa a (length ks) (pairWords vs))"
    show "runs (?N - (length (pairWords vs) + 1)) w2 (cbcEmit opc fl sa a1 a a3 w2) (\<lambda>i w'. held w' (\<lambda>l j. R l j i))"
    proof (rule runs_finish [OF w2(1)])
      show "1 \<le> ?N - (length (pairWords vs) + 1)" using len room by simp
      fix i l j
      assume i: "unat i = length (ops_of (w_code w2))" "unat i < j" "is_op dbg l i opc fl sa a1 a a3"
        "\<exists>w'. world_wf w' \<and> extends w2 w' \<and> l = w_layer w'"
      obtain off where "cbcCountedPayload dbg (dl_code l) i a = Inr (length ks, off)" "words_at l off (pairWords vs)"
        using counted_reads [OF held_at [OF w2(3) i(4,1)] i(3)] by blast
      then have p: "path_at dbg l i a kvs" using readPath_words [of l off kvs dbg] pw by (auto simp: path_at_def)
      have e: "extends w w2" using extends_trans [OF w1(2) w2(2)] .
      have "\<exists>w'. world_wf w' \<and> extends w w' \<and> l = w_layer w'" using i(4) extends_trans [OF e] by blast
      moreover have "length (ops_of (w_code w)) \<le> unat i" using extends_ops [OF e] i(1) by simp
      ultimately show "R l j i" using R [OF i(2) _ _ i(3) p] held_at [OF held_later [OF kvs(1) w2(2)] i(4,1)] by blast
    qed
  qed
qed

text \<open>An expression compiled first, whose code the rest of the compilation uses.\<close>

lemma runs_expr_step:
  assumes "world_wf w" and "expr_ok dbg e" and "fits e" and "weight e < 2 ^ 32" and "weight e \<le> N"
    and "\<And>i w1. world_wf w1 \<Longrightarrow> extends w w1 \<Longrightarrow> held w1 (\<lambda>l j. code dbg l j e i) \<Longrightarrow> runs (N - weight e) w1 (f i w1) R"
  shows "runs N w (io_bind (compile_go e) f w) R"
proof (rule runs_step)
  show "runs (weight e) w (compile_go e w) (\<lambda>i w'. held w' (\<lambda>l j. code dbg l j e i))"
    using assms(1-4) by (simp add: expr_ok_def)
qed (use assms(5,6) in auto)

lemma has_attr_ok:
  assumes e: "expr_ok dbg e" and ks: "\<And>k. k \<in> set ks \<Longrightarrow> key_ok dbg k"
  shows "expr_ok dbg (EHasAttr e ks)"
  unfolding expr_ok_def
proof (intro allI impI)
  fix w assume a: "fits (EHasAttr e ks)" "weight (EHasAttr e ks) < 2 ^ 32" and wf: "world_wf w"
  let ?R = "\<lambda>i w'. held w' (\<lambda>l j. code dbg l j (EHasAttr e ks) i)"
  show "runs (weight (EHasAttr e ks)) w (compile_go (EHasAttr e ks) w) ?R"
    unfolding compile_go.simps
  proof (rule runs_expr_step [OF wf e])
    fix i1 w1 assume w1: "world_wf w1" "held w1 (\<lambda>l j. code dbg l j e i1)"
    show "runs (weight (EHasAttr e ks) - weight e) w1 (io_bind (io_mapM compileAttrKey ks) (\<lambda>compiled.
        io_bind (emitCounted ''attribute path with segments'' (length ks) (pairWords compiled))
        (\<lambda>(pathLen, pathOff). cbcEmit OpHasAttr 0 pathLen i1 pathOff 0)) w1) ?R"
    proof (rule runs_path_op [OF w1(1)])
      show "\<forall>k \<in> set ks. key_ok dbg k \<and> key_fits k" using ks a(1) by (auto simp: list_all_iff)
      fix i l j sa off vs
      assume i: "unat i < j" "length (ops_of (w_code w1)) \<le> unat i" "\<exists>w'. world_wf w' \<and> extends w1 w' \<and> l = w_layer w'"
        "is_op dbg l i OpHasAttr 0 sa i1 off 0" "path_at dbg l i off vs" "list_all2 (key_code dbg l (unat i)) ks vs"
      then have "code dbg l (unat i) e i1" using held_use [OF w1(2)] by blast
      then show "code dbg l j (EHasAttr e ks) i" using i by auto
    qed (use a in auto)
  qed (use a in auto)
qed

lemma select_ok:
  assumes e: "expr_ok dbg e" and ks: "\<And>k. k \<in> set ks \<Longrightarrow> key_ok dbg k" and d: "\<And>e'. d = Some e' \<Longrightarrow> expr_ok dbg e'"
  shows "expr_ok dbg (ESelect e ks d)"
  unfolding expr_ok_def
proof (intro allI impI)
  fix w assume a: "fits (ESelect e ks d)" "weight (ESelect e ks d) < 2 ^ 32" and wf: "world_wf w"
  let ?R = "\<lambda>i w'. held w' (\<lambda>l j. code dbg l j (ESelect e ks d) i)"
  let ?D = "\<lambda>v w'. held w' (\<lambda>l j. case d of None \<Rightarrow> True | Some e' \<Rightarrow> code dbg l j e' v)"
  let ?dw = "case d of None \<Rightarrow> 0 | Some e' \<Rightarrow> weight e'"
  show "runs (weight (ESelect e ks d)) w (compile_go (ESelect e ks d) w) ?R"
    unfolding compile_go.simps
  proof (rule runs_expr_step [OF wf e])
    fix i1 w1 assume w1: "world_wf w1" "held w1 (\<lambda>l j. code dbg l j e i1)"
    show "runs (weight (ESelect e ks d) - weight e) w1
        (io_bind (case d of None \<Rightarrow> io_return 0 | Some d \<Rightarrow> compile_go d) (\<lambda>defIdx. io_bind (io_mapM compileAttrKey ks) (\<lambda>compiled.
        io_bind (emitCounted ''attribute path with segments'' (length ks) (pairWords compiled)) (\<lambda>(pathLen, pathOff).
        cbcEmit OpSelect (case d of None \<Rightarrow> 0 | Some _ \<Rightarrow> 1) pathLen i1 pathOff defIdx))) w1) ?R"
    proof (rule runs_step [where n = ?dw and Q = ?D])
      show "runs ?dw w1 ((case d of None \<Rightarrow> io_return 0 | Some d \<Rightarrow> compile_go d) w1) ?D"
        using w1(1) d a by (cases d) (auto simp: expr_ok_def held_const runs_return)
      fix v w2 assume w2: "world_wf w2" "extends w1 w2" "?D v w2"
      show "runs (weight (ESelect e ks d) - weight e - ?dw) w2 (io_bind (io_mapM compileAttrKey ks) (\<lambda>compiled.
          io_bind (emitCounted ''attribute path with segments'' (length ks) (pairWords compiled)) (\<lambda>(pathLen, pathOff).
          cbcEmit OpSelect (case d of None \<Rightarrow> 0 | Some _ \<Rightarrow> 1) pathLen i1 pathOff v)) w2) ?R"
      proof (rule runs_path_op [OF w2(1)])
        show "\<forall>k \<in> set ks. key_ok dbg k \<and> key_fits k" using ks a(1) by (auto simp: list_all_iff)
        fix i l j sa off vs
        assume i: "unat i < j" "length (ops_of (w_code w2)) \<le> unat i" "\<exists>w'. world_wf w' \<and> extends w2 w' \<and> l = w_layer w'"
          "is_op dbg l i OpSelect (case d of None \<Rightarrow> 0 | Some _ \<Rightarrow> 1) sa i1 off v" "path_at dbg l i off vs"
          "list_all2 (key_code dbg l (unat i)) ks vs"
        have "code dbg l (unat i) e i1" using held_use [OF held_later [OF w1(2) w2(2)]] i(2,3) by blast
        moreover have "case d of None \<Rightarrow> True | Some e' \<Rightarrow> code dbg l (unat i) e' v"
          using held_use [OF w2(3)] i(2,3) by blast
        moreover have "(1 :: u8) \<noteq> 0" by simp
        ultimately show "code dbg l j (ESelect e ks d) i" using i(1,4-6) by (cases d) (simp only: code.simps option.case, blast)+
      qed (use a in auto)
    qed (use a in auto)
  qed (use a in \<open>auto split: option.splits\<close>)
qed

text \<open>Instructions over one, two and three children.\<close>

lemma unary_ok:
  assumes "expr_ok dbg e"
  shows "expr_ok dbg (EUnary op e)"
  unfolding expr_ok_def
proof (intro allI impI)
  fix w assume a: "fits (EUnary op e)" "weight (EUnary op e) < 2 ^ 32" and wf: "world_wf w"
  have op: "decodeUnaryOp (encodeUnaryOp op) = Inr op" by (cases op) (simp_all add: encodeUnaryOp_def decodeUnaryOp_def)
  show "runs (weight (EUnary op e)) w (compile_go (EUnary op e) w) (\<lambda>i w'. held w' (\<lambda>l j. code dbg l j (EUnary op e) i))"
    unfolding compile_go.simps
  proof (rule runs_expr_step [OF wf assms])
    fix i1 w1 assume w1: "world_wf w1" "held w1 (\<lambda>l j. code dbg l j e i1)"
    show "runs (weight (EUnary op e) - weight e) w1 (cbcEmit OpUnary (encodeUnaryOp op) 0 i1 0 0 w1)
        (\<lambda>i w'. held w' (\<lambda>l j. code dbg l j (EUnary op e) i))"
    proof (rule runs_finish [OF w1(1)])
      fix i l j assume i: "unat i = length (ops_of (w_code w1))" "unat i < j" "is_op dbg l i OpUnary (encodeUnaryOp op) 0 i1 0 0"
        "\<exists>w'. world_wf w' \<and> extends w1 w' \<and> l = w_layer w'"
      show "code dbg l j (EUnary op e) i" using i(2,3) op held_at [OF w1(2) i(4,1)] by auto
    qed simp
  qed (use a in auto)
qed

text \<open>\<open>two_children\<close> is what the four instructions over two children have in common.\<close>

lemma runs_two:
  assumes wf: "world_wf w" and ok: "expr_ok dbg a" "expr_ok dbg b" and f: "fits a" "fits b"
    and n: "weight a + weight b + 1 < 2 ^ 32" "weight a + weight b + 1 \<le> N"
    and R: "\<And>i l j v1 v2. unat i < j \<Longrightarrow> is_op dbg l i opc fl 0 v1 v2 0 \<Longrightarrow> code dbg l (unat i) a v1 \<Longrightarrow>
      code dbg l (unat i) b v2 \<Longrightarrow> R l j i"
  shows "runs N w (io_bind (compile_go a) (\<lambda>v1. io_bind (compile_go b) (\<lambda>v2. cbcEmit opc fl 0 v1 v2 0)) w)
    (\<lambda>i w'. held w' (\<lambda>l j. R l j i))"
proof (rule runs_expr_step [OF wf ok(1) f(1)])
  fix i1 w1 assume w1: "world_wf w1" "held w1 (\<lambda>l j. code dbg l j a i1)"
  show "runs (N - weight a) w1 (io_bind (compile_go b) (\<lambda>v2. cbcEmit opc fl 0 i1 v2 0) w1) (\<lambda>i w'. held w' (\<lambda>l j. R l j i))"
  proof (rule runs_expr_step [OF w1(1) ok(2) f(2)])
    fix i2 w2 assume w2: "world_wf w2" "extends w1 w2" "held w2 (\<lambda>l j. code dbg l j b i2)"
    show "runs (N - weight a - weight b) w2 (cbcEmit opc fl 0 i1 i2 0 w2) (\<lambda>i w'. held w' (\<lambda>l j. R l j i))"
    proof (rule runs_finish [OF w2(1)])
      fix i l j assume i: "unat i = length (ops_of (w_code w2))" "unat i < j" "is_op dbg l i opc fl 0 i1 i2 0"
        "\<exists>w'. world_wf w' \<and> extends w2 w' \<and> l = w_layer w'"
      then show "R l j i" using R held_at [OF held_later [OF w1(2) w2(2)] i(4,1)] held_at [OF w2(3) i(4,1)] by blast
    qed (use n in simp)
  qed (use n in simp_all)
qed (use n in simp_all)

lemma two_ok:
  assumes "expr_ok dbg a" "expr_ok dbg b"
  shows "expr_ok dbg (EApp a b)" and "expr_ok dbg (EWith a b)" and "expr_ok dbg (EAssert a b)" and "expr_ok dbg (EBinary op a b)"
proof -
  have op: "decodeBinaryOp (encodeBinaryOp op) = Inr op" by (cases op) (simp_all add: encodeBinaryOp_def decodeBinaryOp_def)
  show "expr_ok dbg (EApp a b)" "expr_ok dbg (EWith a b)" "expr_ok dbg (EAssert a b)" "expr_ok dbg (EBinary op a b)"
    unfolding expr_ok_def
    by (intro allI impI, unfold compile_go.simps, rule runs_two [where dbg = dbg and a = a and b = b]; use assms op in auto)+
qed

lemma if_ok:
  assumes ok: "expr_ok dbg a" "expr_ok dbg b" "expr_ok dbg c"
  shows "expr_ok dbg (EIf a b c)"
  unfolding expr_ok_def
proof (intro allI impI)
  fix w assume a: "fits (EIf a b c)" "weight (EIf a b c) < 2 ^ 32" and wf: "world_wf w"
  let ?R = "\<lambda>i w'. held w' (\<lambda>l j. code dbg l j (EIf a b c) i)"
  show "runs (weight (EIf a b c)) w (compile_go (EIf a b c) w) ?R"
    unfolding compile_go.simps
  proof (rule runs_expr_step [OF wf ok(1)])
    fix i1 w1 assume w1: "world_wf w1" "held w1 (\<lambda>l j. code dbg l j a i1)"
    show "runs (weight (EIf a b c) - weight a) w1 (io_bind (compile_go b) (\<lambda>v2. io_bind (compile_go c) (\<lambda>v3.
        cbcEmit OpIf 0 0 i1 v2 v3)) w1) ?R"
    proof (rule runs_expr_step [OF w1(1) ok(2)])
      fix i2 w2 assume w2: "world_wf w2" "extends w1 w2" "held w2 (\<lambda>l j. code dbg l j b i2)"
      show "runs (weight (EIf a b c) - weight a - weight b) w2 (io_bind (compile_go c) (\<lambda>v3. cbcEmit OpIf 0 0 i1 i2 v3) w2) ?R"
      proof (rule runs_expr_step [OF w2(1) ok(3)])
        fix i3 w3 assume w3: "world_wf w3" "extends w2 w3" "held w3 (\<lambda>l j. code dbg l j c i3)"
        note h = held_at [OF held_later [OF w1(2) extends_trans [OF w2(2) w3(2)]]] held_at [OF held_later [OF w2(3) w3(2)]]
          held_at [OF w3(3)]
        show "runs (weight (EIf a b c) - weight a - weight b - weight c) w3 (cbcEmit OpIf 0 0 i1 i2 i3 w3) ?R"
        proof (rule runs_finish [OF w3(1)])
          fix i l j assume i: "unat i = length (ops_of (w_code w3))" "unat i < j" "is_op dbg l i OpIf 0 0 i1 i2 i3"
            "\<exists>w'. world_wf w' \<and> extends w3 w' \<and> l = w_layer w'"
          show "code dbg l j (EIf a b c) i" using i(2,3) h [OF i(4,1)] by auto
        qed (use a in simp)
      qed (use a in auto)
    qed (use a in auto)
  qed (use a in auto)
qed

subsection \<open>Parts, keys and bindings\<close>

lemma part_cases_ok: "part_ok dbg (StrLit s)" "part_ok dbg (StrEsc s)" "expr_ok dbg e \<Longrightarrow> part_ok dbg (StrInterp e)"
proof -
  show "part_ok dbg (StrLit s)" "part_ok dbg (StrEsc s)"
    unfolding part_ok_def compileOnePart.simps symbolInternBytes_eq
    by (intro allI impI, rule runs_step, rule runs_intern_held, assumption, simp, simp, rule runs_return, assumption,
        erule held_mono, simp)+
  show "part_ok dbg (StrInterp e)" if ok: "expr_ok dbg e"
    unfolding part_ok_def compileOnePart.simps
    by (intro allI impI, rule runs_expr_step [OF _ ok], assumption, simp, simp, simp, rule runs_return, assumption,
        erule held_mono, simp)
qed

lemma key_cases_ok: "key_ok dbg (StaticKey x)" "expr_ok dbg e \<Longrightarrow> key_ok dbg (DynamicKey e)"
proof -
  show "key_ok dbg (StaticKey x)"
    unfolding key_ok_def compileAttrKey.simps
  proof (intro allI impI, rule runs_step, rule runs_intern_held, assumption, simp, simp, rule runs_return, assumption)
    fix sid w' assume "held w' (\<lambda>l j. names l sid x)"
    then show "\<exists>kv. held w' (\<lambda>l j. key_code dbg l j (StaticKey x) kv) \<and> keyWords kv = [fst (attrkeyStatic, sid), snd (attrkeyStatic, sid)]"
      by (intro exI [of _ "BcStaticKey sid"]) (simp add: keyWords_def)
  qed
  show "key_ok dbg (DynamicKey e)" if ok: "expr_ok dbg e"
    unfolding key_ok_def compileAttrKey.simps
  proof (intro allI impI, rule runs_expr_step [OF _ ok], assumption, simp, simp, simp, rule runs_return, assumption)
    fix v w' assume "held w' (\<lambda>l j. code dbg l j e v)"
    then show "\<exists>kv. held w' (\<lambda>l j. key_code dbg l j (DynamicKey e) kv) \<and> keyWords kv = [fst (attrkeyDynamic, v), snd (attrkeyDynamic, v)]"
      by (intro exI [of _ "BcDynamicKey v"]) (simp add: keyWords_def)
  qed
qed

lemma inherited_case_ok:
  assumes ok: "expr_ok dbg (ESelect (EResolvedVar 0 0) [StaticKey x] None)"
  shows "inherited_ok dbg (InheritedName pos x)"
  unfolding inherited_ok_def compileInheritedName.simps
proof (intro allI impI)
  fix w assume a: "inherited_weight (InheritedName pos x) < 2 ^ 32" and wf: "world_wf w"
  let ?e = "ESelect (EResolvedVar 0 0) [StaticKey x] None"
  let ?R = "\<lambda>ws w'. \<exists>nn. held w' (\<lambda>l j. inherited_code dbg l j (InheritedName pos x) nn) \<and> ws = inheritedWords nn"
  let ?N = "inherited_weight (InheritedName pos x) - 3"
  show "runs ?N w (io_bind (symbolIntern x) (\<lambda>sid. io_bind (compile_go ?e) (\<lambda>selectIdx. io_bind (recordPos pos) (\<lambda>posWord.
      io_return [sid, selectIdx, posWord]))) w) ?R"
  proof (rule runs_step, rule runs_intern_held, rule wf)
    fix sid w1 assume w1: "world_wf w1" "held w1 (\<lambda>l j. names l sid x)"
    show "runs (?N - text_weight x) w1 (io_bind (compile_go ?e) (\<lambda>selectIdx. io_bind (recordPos pos) (\<lambda>posWord.
        io_return [sid, selectIdx, posWord])) w1) ?R"
    proof (rule runs_expr_step [OF w1(1) ok])
      fix v w2 assume w2: "world_wf w2" "extends w1 w2" "held w2 (\<lambda>l j. code dbg l j ?e v)"
      show "runs (?N - text_weight x - weight ?e) w2 (io_bind (recordPos pos) (\<lambda>posWord. io_return [sid, v, posWord]) w2) ?R"
      proof (rule runs_step, rule runs_recordPos [where dbg = dbg], rule w2(1))
        fix p w3 assume w3: "world_wf w3" "extends w2 w3" "held w3 (\<lambda>l j. lookupPos dbg l p = Inr (recorded pos))"
        have "held w3 (\<lambda>l j. inherited_code dbg l j (InheritedName pos x) (BcInheritedName p sid v))"
          by (rule held_mono [OF held_conj [OF held_later [OF w1(2) extends_trans [OF w2(2) w3(2)]]
              held_conj [OF held_later [OF w2(3) w3(2)] w3(3)]]]) simp
        then have "?R [sid, v, p] w3" by (intro exI [of _ "BcInheritedName p sid v"]) simp
        then show "runs (?N - text_weight x - weight ?e - pos_weight pos) w3 (io_return [sid, v, p] w3) ?R"
          by (rule runs_return [OF w3(1)])
      qed (use a in auto)
    qed (use a in auto)
  qed (use a in auto)
qed

lemma named_ok:
  assumes k: "key_ok dbg k" and e: "expr_ok dbg e"
  shows "binding_ok dbg (NamedBinding pos k e)"
  unfolding binding_ok_def compileOneBinding.simps
proof (intro allI impI)
  fix w assume a: "binding_fits (NamedBinding pos k e)" "binding_weight (NamedBinding pos k e) < 2 ^ 32" and wf: "world_wf w"
  let ?b = "NamedBinding pos k e"
  let ?R = "\<lambda>ws w'. \<exists>bb. held w' (\<lambda>l j. binding_code dbg l j ?b bb) \<and> ws = bindingWords bb \<and> binding_small bb \<and> length ws = binding_len ?b"
  let ?N = "binding_weight ?b - binding_len ?b"
  show "runs ?N w (io_bind (compileAttrKey k) (\<lambda>(keyKind, keyWord). io_bind (compile_go e) (\<lambda>valIdx.
      io_bind (recordPos pos) (\<lambda>posWord. io_return [bindNamed, keyKind, keyWord, valIdx, posWord]))) w) ?R"
  proof (rule runs_step)
    show "runs (key_weight k - 2) w (compileAttrKey k w) (\<lambda>v w'. \<exists>kv. held w' (\<lambda>l j. key_code dbg l j k kv) \<and> keyWords kv = [fst v, snd v])"
      using k a wf by (simp add: key_ok_def)
    fix kw w1
    assume w1: "world_wf w1" "\<exists>kv. held w1 (\<lambda>l j. key_code dbg l j k kv) \<and> keyWords kv = [fst kw, snd kw]"
    then obtain kv where kv: "held w1 (\<lambda>l j. key_code dbg l j k kv)" "keyWords kv = [fst kw, snd kw]" by blast
    show "runs (?N - (key_weight k - 2)) w1 ((case kw of (keyKind, keyWord) \<Rightarrow> io_bind (compile_go e) (\<lambda>valIdx.
        io_bind (recordPos pos) (\<lambda>posWord. io_return [bindNamed, keyKind, keyWord, valIdx, posWord]))) w1) ?R"
      unfolding case_prod_beta
    proof (rule runs_expr_step [OF w1(1) e])
      fix v w2 assume w2: "world_wf w2" "extends w1 w2" "held w2 (\<lambda>l j. code dbg l j e v)"
      show "runs (?N - (key_weight k - 2) - weight e) w2 (io_bind (recordPos pos) (\<lambda>posWord.
          io_return [bindNamed, fst kw, snd kw, v, posWord]) w2) ?R"
      proof (rule runs_step, rule runs_recordPos [where dbg = dbg], rule w2(1))
        fix p w3 assume w3: "world_wf w3" "extends w2 w3" "held w3 (\<lambda>l j. lookupPos dbg l p = Inr (recorded pos))"
        have "held w3 (\<lambda>l j. binding_code dbg l j ?b (BcNamed p kv v))"
          by (rule held_mono [OF held_conj [OF held_later [OF kv(1) extends_trans [OF w2(2) w3(2)]]
              held_conj [OF held_later [OF w2(3) w3(2)] w3(3)]]]) simp
        then have "?R [bindNamed, fst kw, snd kw, v, p] w3" using kv(2) by (intro exI [of _ "BcNamed p kv v"]) simp
        then show "runs (?N - (key_weight k - 2) - weight e - pos_weight pos) w3 (io_return [bindNamed, fst kw, snd kw, v, p] w3) ?R"
          by (rule runs_return [OF w3(1)])
      qed (use a in auto)
    qed (use a in auto)
  qed simp
qed

lemma inherit_ok:
  assumes e: "expr_ok dbg e"
  shows "binding_ok dbg (Inherit pos x e)"
  unfolding binding_ok_def compileOneBinding.simps
proof (intro allI impI)
  fix w assume a: "binding_fits (Inherit pos x e)" "binding_weight (Inherit pos x e) < 2 ^ 32" and wf: "world_wf w"
  let ?b = "Inherit pos x e"
  let ?R = "\<lambda>ws w'. \<exists>bb. held w' (\<lambda>l j. binding_code dbg l j ?b bb) \<and> ws = bindingWords bb \<and> binding_small bb \<and> length ws = binding_len ?b"
  let ?N = "binding_weight ?b - binding_len ?b"
  show "runs ?N w (io_bind (symbolIntern x) (\<lambda>sid. io_bind (compile_go e) (\<lambda>valIdx.
      io_bind (recordPos pos) (\<lambda>posWord. io_return [bindInherit, sid, valIdx, posWord]))) w) ?R"
  proof (rule runs_step, rule runs_intern_held, rule wf)
    fix sid w1 assume w1: "world_wf w1" "held w1 (\<lambda>l j. names l sid x)"
    show "runs (?N - text_weight x) w1 (io_bind (compile_go e) (\<lambda>valIdx.
        io_bind (recordPos pos) (\<lambda>posWord. io_return [bindInherit, sid, valIdx, posWord])) w1) ?R"
    proof (rule runs_expr_step [OF w1(1) e])
      fix v w2 assume w2: "world_wf w2" "extends w1 w2" "held w2 (\<lambda>l j. code dbg l j e v)"
      show "runs (?N - text_weight x - weight e) w2 (io_bind (recordPos pos) (\<lambda>posWord.
          io_return [bindInherit, sid, v, posWord]) w2) ?R"
      proof (rule runs_step, rule runs_recordPos [where dbg = dbg], rule w2(1))
        fix p w3 assume w3: "world_wf w3" "extends w2 w3" "held w3 (\<lambda>l j. lookupPos dbg l p = Inr (recorded pos))"
        have "held w3 (\<lambda>l j. binding_code dbg l j ?b (BcInherit p sid v))"
          by (rule held_mono [OF held_conj [OF held_later [OF w1(2) extends_trans [OF w2(2) w3(2)]]
              held_conj [OF held_later [OF w2(3) w3(2)] w3(3)]]]) simp
        then have "?R [bindInherit, sid, v, p] w3" by (intro exI [of _ "BcInherit p sid v"]) simp
        then show "runs (?N - text_weight x - weight e - pos_weight pos) w3 (io_return [bindInherit, sid, v, p] w3) ?R"
          by (rule runs_return [OF w3(1)])
      qed (use a in auto)
    qed (use a in auto)
  qed (use a in auto)
qed

lemma concat_inherited:
  "list_all2 (\<lambda>z (x, y). y = inheritedWords z) ns (zip xs wss) \<Longrightarrow> length wss = length xs \<Longrightarrow>
     concat wss = concat (map inheritedWords ns) \<and> length ns = length xs"
proof (induction ns arbitrary: xs wss)
  case Nil
  then show ?case by (cases xs; cases wss) simp_all
next
  case (Cons n ns)
  then obtain x xs' v wss' where "xs = x # xs'" "wss = v # wss'" by (cases xs; cases wss) auto
  then show ?case using Cons.IH [of xs' wss'] Cons.prems by simp
qed

lemma inherit_from_ok:
  assumes e: "expr_ok dbg e" and xs: "\<And>n. n \<in> set xs \<Longrightarrow> inherited_ok dbg n"
  shows "binding_ok dbg (InheritFrom e xs)"
  unfolding binding_ok_def compileOneBinding.simps
proof (intro allI impI)
  fix w assume a: "binding_fits (InheritFrom e xs)" "binding_weight (InheritFrom e xs) < 2 ^ 32" and wf: "world_wf w"
  let ?b = "InheritFrom e xs"
  let ?R = "\<lambda>ws w'. \<exists>bb. held w' (\<lambda>l j. binding_code dbg l j ?b bb) \<and> ws = bindingWords bb \<and> binding_small bb \<and> length ws = binding_len ?b"
  let ?N = "binding_weight ?b - binding_len ?b"
  have three: "\<forall>n \<in> set xs. 3 \<le> inherited_weight n"
  proof
    fix n show "3 \<le> inherited_weight n" by (cases n) simp
  qed
  have s: "sum_list (map (\<lambda>n. inherited_weight n - 3) xs) + 3 * length xs = sum_list (map inherited_weight xs)"
    using sum_split [OF three] by (simp add: sum_const)
  show "runs ?N w (io_bind (compile_go e) (\<lambda>fromIdx. io_bind (io_mapM compileInheritedName xs) (\<lambda>inherited.
      io_return ([bindInheritFrom, fromIdx, of_nat (length xs)] @ concat inherited))) w) ?R"
  proof (rule runs_expr_step [OF wf e])
    show "weight e \<le> ?N" using s by simp
    fix v w1 assume w1: "world_wf w1" "held w1 (\<lambda>l j. code dbg l j e v)"
    show "runs (?N - weight e) w1 (io_bind (io_mapM compileInheritedName xs) (\<lambda>inherited.
        io_return ([bindInheritFrom, v, of_nat (length xs)] @ concat inherited)) w1) ?R"
    proof (rule runs_step, rule runs_words_mapM [where c = "\<lambda>n. inherited_weight n - 3" and P = "\<lambda>l j. inherited_code dbg l j"
          and W = "\<lambda>x z y. y = inheritedWords z"], rule w1(1))
      fix n w assume n: "n \<in> set xs" "world_wf w"
      then have "inherited_weight n < 2 ^ 32" using member_weights(4) [OF n(1)] a(2) by simp
      then show "runs (inherited_weight n - 3) w (compileInheritedName n w)
          (\<lambda>ws w'. \<exists>nn. held w' (\<lambda>l j. inherited_code dbg l j n nn) \<and> ws = inheritedWords nn)"
        using xs [OF n(1)] n by (simp add: inherited_ok_def)
    next
      show "sum_list (map (\<lambda>n. inherited_weight n - 3) xs) \<le> ?N - weight e" using s by simp
      fix wss w2
      assume w2: "world_wf w2" "extends w1 w2" "\<exists>ns. held w2 (\<lambda>l j. list_all2 (inherited_code dbg l j) xs ns) \<and>
        list_all2 (\<lambda>z (x, y). y = inheritedWords z) ns (zip xs wss) \<and> length wss = length xs"
      then obtain ns where ns: "held w2 (\<lambda>l j. list_all2 (inherited_code dbg l j) xs ns)"
        "concat wss = concat (map inheritedWords ns)" "length ns = length xs" using concat_inherited by blast
      have "held w2 (\<lambda>l j. binding_code dbg l j ?b (BcInheritFrom v ns))"
        by (rule held_mono [OF held_conj [OF held_later [OF w1(2) w2(2)] ns(1)]]) simp
      moreover have "length xs < 2 ^ 32" using s a(2) by simp
      ultimately have "?R ([bindInheritFrom, v, of_nat (length xs)] @ concat wss) w2"
        using ns by (intro exI [of _ "BcInheritFrom v ns"]) (simp add: length_inheritedWords)
      then show "runs (?N - weight e - sum_list (map (\<lambda>n. inherited_weight n - 3) xs)) w2
          (io_return ([bindInheritFrom, v, of_nat (length xs)] @ concat wss) w2) ?R"
        by (rule runs_return [OF w2(1)])
    qed
  qed (use a in auto)
qed

end
