(* ===== verification/Nova_Compile_Correct.thy ===== *)
theory Nova_Compile_Correct
  imports Nova_Compile_Main
begin

section \<open>The compiler is correct\<close>

text \<open>
  The remaining cases, attribute sets, \<open>let\<close> and functions, and then the whole compiler: by induction on what is
  left to compile, every expression whose indices fit is compiled to its code.
\<close>

subsection \<open>Attribute sets and let\<close>

lemma binding_len_le: "binding_len b \<le> binding_weight b" and binding_len_pos: "1 \<le> binding_len b"
proof -
  have "3 * length xs \<le> sum_list (map inherited_weight xs)" for xs
  proof (induction xs)
    case (Cons n xs)
    then show ?case by (cases n) simp
  qed simp
  then show "binding_len b \<le> binding_weight b" by (cases b) (simp_all add: trans_le_add2)
  show "1 \<le> binding_len b" by (cases b) simp_all
qed

lemma bindings_words:
  "list_all2 (\<lambda>z (x, y). y = bindingWords z \<and> binding_small z \<and> length y = binding_len x) zs (zip xs ys) \<Longrightarrow>
     length ys = length xs \<Longrightarrow>
     concat ys = concat (map bindingWords zs) \<and> list_all binding_small zs \<and> length zs = length xs \<and>
     length (concat ys) = sum_list (map binding_len xs)"
proof (induction zs arbitrary: xs ys)
  case Nil
  then show ?case by (cases xs; cases ys) simp_all
next
  case (Cons z zs)
  then obtain x xs' y ys' where "xs = x # xs'" "ys = y # ys'" by (cases xs; cases ys) auto
  then have "concat ys' = concat (map bindingWords zs)" "list_all binding_small zs" "length zs = length xs'"
    "length (concat ys') = sum_list (map binding_len xs')" "y = bindingWords z" "binding_small z" "length y = binding_len x"
    using Cons.IH [of xs' ys'] Cons.prems by (auto simp del: length_concat)
  then show ?case using \<open>xs = x # xs'\<close> \<open>ys = y # ys'\<close> by (simp del: length_concat)
qed

lemma runs_bindings:
  assumes wf: "world_wf w" and ok: "\<And>b. b \<in> set bs \<Longrightarrow> binding_ok dbg b \<and> binding_fits b"
    and n: "sum_list (map binding_weight bs) < 2 ^ 32"
  shows "runs (sum_list (map (\<lambda>b. binding_weight b - binding_len b) bs)) w (io_mapM compileOneBinding bs w)
    (\<lambda>wss w'. \<exists>bbs. held w' (\<lambda>l j. list_all2 (binding_code dbg l j) bs bbs) \<and> concat wss = concat (map bindingWords bbs) \<and>
       list_all binding_small bbs \<and> length bbs = length bs \<and> length (concat wss) = sum_list (map binding_len bs))"
proof (rule runs_weaken [OF runs_words_mapM [where c = "\<lambda>b. binding_weight b - binding_len b" and P = "\<lambda>l j. binding_code dbg l j"
      and W = "\<lambda>x z y. y = bindingWords z \<and> binding_small z \<and> length y = binding_len x"]], rule wf)
  fix b w assume b: "b \<in> set bs" "world_wf w"
  then have "binding_weight b < 2 ^ 32" using member_weights(3) [OF b(1)] n by simp
  then show "runs (binding_weight b - binding_len b) w (compileOneBinding b w)
      (\<lambda>ws w'. \<exists>bb. held w' (\<lambda>l j. binding_code dbg l j b bb) \<and> ws = bindingWords bb \<and> binding_small bb \<and> length ws = binding_len b)"
    using ok [OF b(1)] b(2) by (simp add: binding_ok_def)
next
  fix wss w'
  assume "\<exists>bbs. held w' (\<lambda>l j. list_all2 (binding_code dbg l j) bs bbs) \<and>
    list_all2 (\<lambda>z (x, y). y = bindingWords z \<and> binding_small z \<and> length y = binding_len x) bbs (zip bs wss) \<and> length wss = length bs"
  then obtain bbs where bbs: "held w' (\<lambda>l j. list_all2 (binding_code dbg l j) bs bbs)"
    "list_all2 (\<lambda>z (x, y). y = bindingWords z \<and> binding_small z \<and> length y = binding_len x) bbs (zip bs wss)"
    "length wss = length bs" by blast
  show "\<exists>bbs. held w' (\<lambda>l j. list_all2 (binding_code dbg l j) bs bbs) \<and> concat wss = concat (map bindingWords bbs) \<and>
      list_all binding_small bbs \<and> length bbs = length bs \<and> length (concat wss) = sum_list (map binding_len bs)"
    using bbs(1) bindings_words [OF bbs(2,3)] by blast
qed simp

text \<open>Bindings, then captures, then the counted words, then the instruction.\<close>

lemma runs_binding_op:
  assumes wf: "world_wf w" and ok: "\<And>b. b \<in> set bs \<Longrightarrow> binding_ok dbg b \<and> binding_fits b" and cf: "captures_fit ci"
    and n: "sum_list (map binding_weight bs) + capture_weight ci + 2 \<le> N" "sum_list (map binding_weight bs) < 2 ^ 32"
    and R: "\<And>i l j sa a c vs. unat i < j \<Longrightarrow> unat i \<ge> length (ops_of (w_code w)) \<Longrightarrow>
      \<exists>w'. world_wf w' \<and> extends w w' \<and> l = w_layer w' \<Longrightarrow> is_op dbg l i opc fl sa a (F c) (G c) \<Longrightarrow> bindings_at dbg l i a vs \<Longrightarrow>
      list_all2 (binding_code dbg l (unat i)) bs vs \<Longrightarrow> decodeBcCaptureInfo dbg (dl_code l) c = Inr ci \<Longrightarrow> R l j i"
  shows "runs N w (io_bind (io_mapM compileOneBinding bs) (\<lambda>ws. io_bind (compileCaptureInfo ci) (\<lambda>c.
     io_bind (emitCounted what (length bs) (concat ws)) (\<lambda>(cnt, off).
     cbcEmit opc fl cnt off (F c) (G c)))) w) (\<lambda>i w'. held w' (\<lambda>l j. R l j i))"
proof (rule runs_step, rule runs_bindings [where dbg = dbg], rule wf)
  let ?sum = "sum_list (map (\<lambda>b. binding_weight b - binding_len b) bs)"
  let ?N = "N - ?sum"
  have s: "?sum + sum_list (map binding_len bs) = sum_list (map binding_weight bs)"
    by (rule sum_split) (simp add: binding_len_le)
  have lb: "length bs \<le> sum_list (map binding_len bs)"
  proof (induction bs)
    case (Cons b bs)
    then show ?case using binding_len_pos [of b] by simp
  qed simp
  show "?sum \<le> N" using s n(1) by simp
  fix wss w1
  assume w1: "world_wf w1" "extends w w1" "\<exists>bbs. held w1 (\<lambda>l j. list_all2 (binding_code dbg l j) bs bbs) \<and>
    concat wss = concat (map bindingWords bbs) \<and> list_all binding_small bbs \<and> length bbs = length bs \<and>
    length (concat wss) = sum_list (map binding_len bs)"
  then obtain bbs where bbs: "held w1 (\<lambda>l j. list_all2 (binding_code dbg l j) bs bbs)"
    "concat wss = concat (map bindingWords bbs)" "list_all binding_small bbs" "length bbs = length bs"
    "length (concat wss) = sum_list (map binding_len bs)" by blast
  have room: "length (concat wss) + capture_weight ci + 2 \<le> ?N" using s n(1) bbs(5) by simp
  show "runs ?N w1 (io_bind (compileCaptureInfo ci) (\<lambda>c. io_bind (emitCounted what (length bs) (concat wss)) (\<lambda>(cnt, off).
      cbcEmit opc fl cnt off (F c) (G c))) w1) (\<lambda>i w'. held w' (\<lambda>l j. R l j i))"
  proof (rule runs_captures_step [where dbg = dbg, OF w1(1) cf])
    show "capture_weight ci \<le> ?N" using room by simp
    fix c w2 assume w2: "world_wf w2" "extends w1 w2" "held w2 (\<lambda>l j. decodeBcCaptureInfo dbg (dl_code l) c = Inr ci)"
    show "runs (?N - capture_weight ci) w2 (io_bind (emitCounted what (length bs) (concat wss)) (\<lambda>(cnt, off).
        cbcEmit opc fl cnt off (F c) (G c)) w2) (\<lambda>i w'. held w' (\<lambda>l j. R l j i))"
    proof (rule runs_counted_step [OF w2(1)])
      show "length bs < 2 ^ 32" using s lb n(2) by linarith
      show "length (concat wss) + 1 \<le> ?N - capture_weight ci" using room by simp
      fix sa a w3 assume w3: "world_wf w3" "extends w2 w3" "held w3 (\<lambda>l j. counted l sa a (length bs) (concat wss))"
      show "runs (?N - capture_weight ci - (length (concat wss) + 1)) w3 (cbcEmit opc fl sa a (F c) (G c) w3)
          (\<lambda>i w'. held w' (\<lambda>l j. R l j i))"
      proof (rule runs_finish [OF w3(1)])
        show "1 \<le> ?N - capture_weight ci - (length (concat wss) + 1)" using room by simp
        fix i l j
        assume i: "unat i = length (ops_of (w_code w3))" "unat i < j" "is_op dbg l i opc fl sa a (F c) (G c)"
          "\<exists>w'. world_wf w' \<and> extends w3 w' \<and> l = w_layer w'"
        have e1: "extends w1 w3" using extends_trans [OF w2(2) w3(2)] .
        have e: "extends w w3" using extends_trans [OF w1(2) e1] .
        obtain off where "cbcCountedPayload dbg (dl_code l) i a = Inr (length bs, off)" "words_at l off (concat wss)"
          using counted_reads [OF held_at [OF w3(3) i(4,1)] i(3)] by blast
        then have b: "bindings_at dbg l i a bbs"
          using decodeBcBindings_words [of l off bbs dbg] bbs(2-4) by (auto simp: bindings_at_def)
        have "\<exists>w'. world_wf w' \<and> extends w w' \<and> l = w_layer w'" using i(4) extends_trans [OF e] by blast
        moreover have "length (ops_of (w_code w)) \<le> unat i" using extends_ops [OF e] i(1) by simp
        moreover have "list_all2 (binding_code dbg l (unat i)) bs bbs" by (rule held_at [OF held_later [OF bbs(1) e1] i(4,1)])
        moreover have "decodeBcCaptureInfo dbg (dl_code l) c = Inr ci" by (rule held_at [OF held_later [OF w2(3) w3(2)] i(4,1)])
        ultimately show "R l j i" using R [OF i(2) _ _ i(3) b] by blast
      qed
    qed
  qed
qed (use ok n in auto)

lemma attrs_ok:
  assumes ok: "\<And>b. b \<in> set bs \<Longrightarrow> binding_ok dbg b"
  shows "expr_ok dbg (EAttrs r bs ci)"
  unfolding expr_ok_def
proof (intro allI impI)
  fix w assume a: "fits (EAttrs r bs ci)" "weight (EAttrs r bs ci) < 2 ^ 32" and wf: "world_wf w"
  let ?fl = "if r then 1 else 0 :: u8"
  show "runs (weight (EAttrs r bs ci)) w (compile_go (EAttrs r bs ci) w)
      (\<lambda>i w'. held w' (\<lambda>l j. code dbg l j (EAttrs r bs ci) i))"
    unfolding compile_go.simps
  proof (rule runs_binding_op [OF wf, where F = "\<lambda>c. c" and G = "\<lambda>c. 0"])
    fix i l j sa off c vs
    assume i: "unat i < j" "is_op dbg l i OpAttrs ?fl sa off c 0" "bindings_at dbg l i off vs"
      "list_all2 (binding_code dbg l (unat i)) bs vs" "decodeBcCaptureInfo dbg (dl_code l) c = Inr ci"
    have "(?fl \<noteq> 0) = r" by simp
    then show "code dbg l j (EAttrs r bs ci) i" unfolding code.simps using i by blast
  qed (use a ok in \<open>auto simp: list_all_iff\<close>)
qed

lemma let_ok:
  assumes ok: "\<And>b. b \<in> set bs \<Longrightarrow> binding_ok dbg b" and e: "expr_ok dbg e"
  shows "expr_ok dbg (ELet bs e ci)"
  unfolding expr_ok_def
proof (intro allI impI)
  fix w assume a: "fits (ELet bs e ci)" "weight (ELet bs e ci) < 2 ^ 32" and wf: "world_wf w"
  show "runs (weight (ELet bs e ci)) w (compile_go (ELet bs e ci) w)
      (\<lambda>i w'. held w' (\<lambda>l j. code dbg l j (ELet bs e ci) i))"
    unfolding compile_go.simps
  proof (rule runs_expr_step [OF wf e])
    fix b w1 assume w1: "world_wf w1" "extends w w1" "held w1 (\<lambda>l j. code dbg l j e b)"
    show "runs (weight (ELet bs e ci) - weight e) w1 (io_bind (io_mapM compileOneBinding bs) (\<lambda>ws.
        io_bind (compileCaptureInfo ci) (\<lambda>c. io_bind (emitCounted ''let with bindings'' (length bs) (concat ws)) (\<lambda>(cnt, off).
        cbcEmit OpLet 0 cnt off b c))) w1) (\<lambda>i w'. held w' (\<lambda>l j. code dbg l j (ELet bs e ci) i))"
    proof (rule runs_binding_op [OF w1(1), where F = "\<lambda>c. b" and G = "\<lambda>c. c"])
      fix i l j sa off c vs
      assume i: "unat i < j" "unat i \<ge> length (ops_of (w_code w1))" "\<exists>w'. world_wf w' \<and> extends w1 w' \<and> l = w_layer w'"
        "is_op dbg l i OpLet 0 sa off b c" "bindings_at dbg l i off vs"
        "list_all2 (binding_code dbg l (unat i)) bs vs" "decodeBcCaptureInfo dbg (dl_code l) c = Inr ci"
      then have "code dbg l (unat i) e b" using held_use [OF w1(3)] by blast
      then show "code dbg l j (ELet bs e ci) i" unfolding code.simps using i by blast
    qed (use a ok in \<open>auto simp: list_all_iff\<close>)
  qed (use a in auto)
qed

subsection \<open>Functions\<close>

lemma formal_case_ok:
  assumes ok: "\<And>e. d = Some e \<Longrightarrow> expr_ok dbg e"
  shows "formal_ok dbg (Formal x d)"
  unfolding formal_ok_def compileFormalEntry.simps
proof (intro allI impI, rule runs_step, rule runs_intern_held)
  fix w assume a: "formal_fits (Formal x d)" "formal_weight (Formal x d) < 2 ^ 32" and wf: "world_wf w"
  let ?Q = "\<lambda>ws w'. (\<exists>ef. held w' (\<lambda>l j. formal_code dbg l j (Formal x d) ef \<and> formal_words l ef ws)) \<and> length ws = 3"
  let ?N = "formal_weight (Formal x d) - 3"
  show "world_wf w" by fact
  show "length x < 2 ^ 32" "text_weight x \<le> ?N" using a(2) by simp_all
  fix sid w1 assume w1: "world_wf w1" "held w1 (\<lambda>l j. names l sid x)"
  show "runs (?N - text_weight x) w1 ((case d of None \<Rightarrow> io_return [sid, 0, 0]
      | Some d \<Rightarrow> io_bind (compile_go d) (\<lambda>v. io_return [sid, 1, v])) w1) ?Q"
  proof (cases d)
    case None
    have "held w1 (\<lambda>l j. formal_code dbg l j (Formal x d) (EvalFormal x None) \<and> formal_words l (EvalFormal x None) [sid, 0, 0])"
      by (rule held_mono [OF w1(2)]) (auto simp: None formal_words_def)
    then have "?Q [sid, 0, 0] w1" by (intro conjI, blast, simp)
    then have "runs (?N - text_weight x) w1 (io_return [sid, 0, 0] w1) ?Q" by (rule runs_return [OF w1(1)])
    then show ?thesis by (simp add: None)
  next
    case (Some e)
    have "runs (?N - text_weight x) w1 (io_bind (compile_go e) (\<lambda>v. io_return [sid, 1, v]) w1) ?Q"
    proof (rule runs_expr_step [OF w1(1) ok [OF Some]])
      fix v w2 assume w2: "world_wf w2" "extends w1 w2" "held w2 (\<lambda>l j. code dbg l j e v)"
      have "held w2 (\<lambda>l j. formal_code dbg l j (Formal x d) (EvalFormal x (Some v)) \<and>
          formal_words l (EvalFormal x (Some v)) [sid, 1, v])"
        by (rule held_mono [OF held_conj [OF held_later [OF w1(2) w2(2)] w2(3)]]) (auto simp: Some formal_words_def)
      then have "?Q [sid, 1, v] w2" by (intro conjI, blast, simp)
      then show "runs (?N - text_weight x - weight e) w2 (io_return [sid, 1, v] w2) ?Q" by (rule runs_return [OF w2(1)])
    qed (use a Some in auto)
    then show ?thesis by (simp add: Some)
  qed
qed

text \<open>The entries of a formal set, all of three words.\<close>

lemma held_choose:
  "list_all2 (\<lambda>x y. (\<exists>z. held w (\<lambda>l j. P l j x z \<and> Q l z y)) \<and> length y = (3 :: nat)) xs ys \<Longrightarrow>
     (\<exists>zs. held w (\<lambda>l j. list_all2 (P l j) xs zs \<and> list_all2 (Q l) zs ys) \<and> length zs = length xs) \<and>
     length (concat ys) = 3 * length xs"
proof (induction xs ys rule: list_all2_induct)
  case Nil
  have "held w (\<lambda>l j. list_all2 (P l j) [] [] \<and> list_all2 (Q l) [] [])" by (simp add: held_const)
  then show ?case by auto
next
  case (Cons x xs y ys)
  then obtain z zs where z: "held w (\<lambda>l j. P l j x z \<and> Q l z y)"
    "held w (\<lambda>l j. list_all2 (P l j) xs zs \<and> list_all2 (Q l) zs ys)" "length zs = length xs" by blast
  have "held w (\<lambda>l j. list_all2 (P l j) (x # xs) (z # zs) \<and> list_all2 (Q l) (z # zs) (y # ys))"
    by (rule held_mono [OF held_conj [OF z(1,2)]]) simp
  then show ?case using Cons z(3) by (auto simp del: length_concat intro!: exI [of _ "z # zs"])
qed

lemma runs_entries:
  assumes wf: "world_wf w" and ok: "\<And>f. f \<in> set fs \<Longrightarrow> formal_ok dbg f \<and> formal_fits f"
    and n: "sum_list (map formal_weight fs) < 2 ^ 32"
  shows "runs (sum_list (map (\<lambda>f. formal_weight f - 3) fs)) w (io_mapM compileFormalEntry fs w)
    (\<lambda>wss w'. (\<exists>efs. held w' (\<lambda>l j. list_all2 (formal_code dbg l j) fs efs \<and> list_all2 (formal_words l) efs wss) \<and>
       length efs = length fs) \<and> length (concat wss) = 3 * length fs)"
proof (rule runs_weaken [OF runs_mapM [where c = "\<lambda>f. formal_weight f - 3" and P = "\<lambda>f ws w'.
      (\<exists>ef. held w' (\<lambda>l j. formal_code dbg l j f ef \<and> formal_words l ef ws)) \<and> length ws = 3"]], rule wf)
  fix f w assume f: "f \<in> set fs" "world_wf w"
  then have "formal_weight f < 2 ^ 32" using member_weights(5) [OF f(1)] n by simp
  then show "runs (formal_weight f - 3) w (compileFormalEntry f w) (\<lambda>ws w'.
      (\<exists>ef. held w' (\<lambda>l j. formal_code dbg l j f ef \<and> formal_words l ef ws)) \<and> length ws = 3)"
    using ok [OF f(1)] f(2) by (simp add: formal_ok_def)
next
  fix f ws w w'
  assume "extends w w'" "(\<exists>ef. held w (\<lambda>l j. formal_code dbg l j f ef \<and> formal_words l ef ws)) \<and> length ws = 3"
  then show "(\<exists>ef. held w' (\<lambda>l j. formal_code dbg l j f ef \<and> formal_words l ef ws)) \<and> length ws = 3"
    using held_later by blast
qed (simp, rule held_choose)

lemma formal_sum: "sum_list (map (\<lambda>f. formal_weight f - 3) fs) + 3 * length fs = sum_list (map formal_weight fs)"
proof -
  have "\<forall>f \<in> set fs. 3 \<le> formal_weight f"
  proof
    fix f show "3 \<le> formal_weight f" by (cases f) simp
  qed
  from sum_split [OF this] show ?thesis by (simp add: sum_const)
qed

lemma formal_name_ok: "formals_ok dbg (FormalName x)"
  unfolding formals_ok_def compileFormals.simps
proof (intro allI impI, rule runs_step, rule runs_intern_held)
  fix w assume a: "formals_weight (FormalName x) < 2 ^ 32" and wf: "world_wf w"
  let ?Q = "\<lambda>off w'. \<exists>efs. held w' (\<lambda>l j. decodeBcFormals dbg l (encodeFormalType (FormalName x)) off = Inr efs \<and>
    formals_code dbg l j (FormalName x) efs)"
  show "world_wf w" by fact
  show "length x < 2 ^ 32" "text_weight x \<le> formals_weight (FormalName x)" using a by simp_all
  fix sid w1 assume w1: "world_wf w1" "held w1 (\<lambda>l j. names l sid x)"
  show "runs (formals_weight (FormalName x) - text_weight x) w1 (emitWordList [sid] w1) ?Q"
  proof (rule runs_weaken [OF runs_emitWordList [OF w1(1)]])
    fix off w2 assume w2: "world_wf w2" "extends w1 w2" "words_at (w_layer w2) off [sid]"
    have "held w2 (\<lambda>l j. decodeBcFormals dbg l (encodeFormalType (FormalName x)) off = Inr (EFName x) \<and>
        formals_code dbg l j (FormalName x) (EFName x))"
      by (rule held_mono [OF held_conj [OF held_words [OF w2(3)] held_later [OF w1(2) w2(2)]]])
        (auto simp: decodeBcFormals_def encodeFormalType_def names_text dest!: words_at_Cons(1) [where dbg = dbg])
    then show "?Q off w2" by blast
  qed simp_all
qed

text \<open>What the decoder makes of the words of a formal set.\<close>

lemma decode_set_words:
  assumes w: "words_at l off ([of_nat (length fs), if el then 1 else 0] @ concat wss)"
    and c: "list_all2 (formal_code dbg l j) fs efs" "list_all2 (formal_words l) efs wss" and n: "length fs < 4294967296"
  shows "decodeBcFormals dbg l 1 off = Inr (EFSet efs el)"
proof -
  have w': "words_at l off (of_nat (length fs) # (if el then 1 else 0) # concat wss)" using w by simp
  have len: "length efs = length fs" using list_all2_lengthD [OF c(1)] by simp
  show ?thesis
    using words_at_Cons2(1,2) [OF w', of dbg] decodeFormalEntries_words [OF c(2) words_at_Cons2(3) [OF w'], of dbg] n
    by (simp add: decodeBcFormals_def unat_small len)
qed

lemma decode_named_words:
  assumes w: "words_at l off ([sid, of_nat (length fs), if el then 1 else 0] @ concat wss)" and s: "names l sid x"
    and c: "list_all2 (formal_code dbg l j) fs efs" "list_all2 (formal_words l) efs wss" and n: "length fs < 4294967296"
  shows "decodeBcFormals dbg l 2 off = Inr (EFNamedSet x efs el)"
proof -
  have w': "words_at l off (sid # of_nat (length fs) # (if el then 1 else 0) # concat wss)" using w by simp
  have len: "length efs = length fs" using list_all2_lengthD [OF c(1)] by simp
  show ?thesis
    using words_at_Cons3(1-3) [OF w', of dbg] decodeFormalEntries_words [OF c(2) words_at_Cons3(4) [OF w'], of dbg] n names_text [OF s]
    by (simp add: decodeBcFormals_def unat_small len)
qed

lemma formal_set_ok:
  assumes ok: "\<And>f. f \<in> set fs \<Longrightarrow> formal_ok dbg f"
  shows "formals_ok dbg (FormalSet fs el)"
  unfolding formals_ok_def compileFormals.simps
proof (intro allI impI, rule runs_step, rule runs_entries [where dbg = dbg])
  fix w assume a: "formals_fits (FormalSet fs el)" "formals_weight (FormalSet fs el) < 2 ^ 32" and wf: "world_wf w"
  let ?Q = "\<lambda>off w'. \<exists>efs. held w' (\<lambda>l j. decodeBcFormals dbg l (encodeFormalType (FormalSet fs el)) off = Inr efs \<and>
    formals_code dbg l j (FormalSet fs el) efs)"
  let ?sum = "sum_list (map (\<lambda>f. formal_weight f - 3) fs)"
  have s: "?sum + 3 * length fs = sum_list (map formal_weight fs)" by (rule formal_sum)
  show "world_wf w" by fact
  show "formal_ok dbg f \<and> formal_fits f" if "f \<in> set fs" for f using that ok a(1) by (simp add: list_all_iff)
  show "sum_list (map formal_weight fs) < 2 ^ 32" "?sum \<le> formals_weight (FormalSet fs el)" using a(2) s by simp_all
  fix wss w1
  assume w1: "world_wf w1" "(\<exists>efs. held w1 (\<lambda>l j. list_all2 (formal_code dbg l j) fs efs \<and> list_all2 (formal_words l) efs wss) \<and>
    length efs = length fs) \<and> length (concat wss) = 3 * length fs"
  then obtain efs where efs: "held w1 (\<lambda>l j. list_all2 (formal_code dbg l j) fs efs \<and> list_all2 (formal_words l) efs wss)" by blast
  let ?ws = "[of_nat (length fs), if el then 1 else 0] @ concat wss"
  show "runs (formals_weight (FormalSet fs el) - ?sum) w1 (emitWordList ?ws w1) ?Q"
  proof (rule runs_weaken [OF runs_emitWordList [OF w1(1)]])
    have "length ?ws = 2 + 3 * length fs" using w1(2) by (simp del: length_concat)
    then show "length ?ws \<le> formals_weight (FormalSet fs el) - ?sum" using s by simp
    fix off w2 assume w2: "world_wf w2" "extends w1 w2" "words_at (w_layer w2) off ?ws"
    have n: "length fs < 4294967296" using s a(2) by simp
    have "held w2 (\<lambda>l j. decodeBcFormals dbg l (encodeFormalType (FormalSet fs el)) off = Inr (EFSet efs el) \<and>
        formals_code dbg l j (FormalSet fs el) (EFSet efs el))"
      by (rule held_mono [OF held_conj [OF held_words [OF w2(3)] held_later [OF efs w2(2)]]])
        (elim conjE, simp add: encodeFormalType_def decode_set_words [OF _ _ _ n])
    then show "?Q off w2" by blast
  qed
qed

lemma formal_named_ok:
  assumes ok: "\<And>f. f \<in> set fs \<Longrightarrow> formal_ok dbg f"
  shows "formals_ok dbg (FormalNamedSet x fs el)"
  unfolding formals_ok_def compileFormals.simps
proof (intro allI impI, rule runs_step, rule runs_intern_held)
  fix w assume a: "formals_fits (FormalNamedSet x fs el)" "formals_weight (FormalNamedSet x fs el) < 2 ^ 32" and wf: "world_wf w"
  let ?fs = "FormalNamedSet x fs el"
  let ?Q = "\<lambda>off w'. \<exists>efs. held w' (\<lambda>l j. decodeBcFormals dbg l (encodeFormalType ?fs) off = Inr efs \<and> formals_code dbg l j ?fs efs)"
  let ?sum = "sum_list (map (\<lambda>f. formal_weight f - 3) fs)"
  have s: "?sum + 3 * length fs = sum_list (map formal_weight fs)" by (rule formal_sum)
  show "world_wf w" by fact
  show "length x < 2 ^ 32" "text_weight x \<le> formals_weight ?fs" using a(2) by simp_all
  fix sid w0 assume w0: "world_wf w0" "held w0 (\<lambda>l j. names l sid x)"
  let ?N = "formals_weight ?fs - text_weight x"
  show "runs ?N w0 (io_bind (io_mapM compileFormalEntry fs) (\<lambda>wss.
      emitWordList ([sid, of_nat (length fs), if el then 1 else 0] @ concat wss)) w0) ?Q"
  proof (rule runs_step, rule runs_entries [where dbg = dbg], rule w0(1))
    show "formal_ok dbg f \<and> formal_fits f" if "f \<in> set fs" for f using that ok a(1) by (simp add: list_all_iff)
    show "sum_list (map formal_weight fs) < 2 ^ 32" "?sum \<le> ?N" using a(2) s by simp_all
    fix wss w1
    assume w1: "world_wf w1" "extends w0 w1" "(\<exists>efs. held w1 (\<lambda>l j. list_all2 (formal_code dbg l j) fs efs \<and>
      list_all2 (formal_words l) efs wss) \<and> length efs = length fs) \<and> length (concat wss) = 3 * length fs"
    then obtain efs where efs: "held w1 (\<lambda>l j. list_all2 (formal_code dbg l j) fs efs \<and> list_all2 (formal_words l) efs wss)" by blast
    let ?ws = "[sid, of_nat (length fs), if el then 1 else 0] @ concat wss"
    show "runs (?N - ?sum) w1 (emitWordList ?ws w1) ?Q"
    proof (rule runs_weaken [OF runs_emitWordList [OF w1(1)]])
      have "length ?ws = 3 + 3 * length fs" using w1(3) by (simp del: length_concat)
      then show "length ?ws \<le> ?N - ?sum" using s by simp
      fix off w2 assume w2: "world_wf w2" "extends w1 w2" "words_at (w_layer w2) off ?ws"
      have n: "length fs < 4294967296" using s a(2) by simp
      have "held w2 (\<lambda>l j. decodeBcFormals dbg l (encodeFormalType ?fs) off = Inr (EFNamedSet x efs el) \<and>
          formals_code dbg l j ?fs (EFNamedSet x efs el))"
        by (rule held_mono [OF held_conj [OF held_words [OF w2(3)] held_conj [OF held_later [OF efs w2(2)]
            held_later [OF w0(2) extends_trans [OF w1(2) w2(2)]]]]])
          (elim conjE, simp add: encodeFormalType_def decode_named_words [OF _ _ _ _ n])
      then show "?Q off w2" by blast
    qed
  qed
qed

lemma lambda_ok:
  assumes e: "expr_ok dbg e" and fs: "formals_ok dbg fs"
  shows "expr_ok dbg (ELambda fs e ci)"
  unfolding expr_ok_def
proof (intro allI impI)
  fix w assume a: "fits (ELambda fs e ci)" "weight (ELambda fs e ci) < 2 ^ 32" and wf: "world_wf w"
  let ?R = "\<lambda>i w'. held w' (\<lambda>l j. code dbg l j (ELambda fs e ci) i)"
  let ?fl = "encodeFormalType fs"
  show "runs (weight (ELambda fs e ci)) w (compile_go (ELambda fs e ci) w) ?R"
    unfolding compile_go.simps
  proof (rule runs_expr_step [OF wf e])
    fix b w1 assume w1: "world_wf w1" "held w1 (\<lambda>l j. code dbg l j e b)"
    let ?N = "weight (ELambda fs e ci) - weight e"
    show "runs ?N w1 (io_bind (compileFormals fs) (\<lambda>fo. io_bind (compileCaptureInfo ci) (\<lambda>c. cbcEmit OpLambda ?fl 0 fo b c)) w1) ?R"
    proof (rule runs_step)
      show "runs (formals_weight fs) w1 (compileFormals fs w1) (\<lambda>off w'. \<exists>efs. held w' (\<lambda>l j.
          decodeBcFormals dbg l ?fl off = Inr efs \<and> formals_code dbg l j fs efs))"
        using fs a w1(1) by (simp add: formals_ok_def)
      show "formals_weight fs \<le> ?N" by simp
      fix fo w2
      assume w2: "world_wf w2" "extends w1 w2" "\<exists>efs. held w2 (\<lambda>l j. decodeBcFormals dbg l ?fl fo = Inr efs \<and> formals_code dbg l j fs efs)"
      then obtain efs where efs: "held w2 (\<lambda>l j. decodeBcFormals dbg l ?fl fo = Inr efs \<and> formals_code dbg l j fs efs)" by blast
      show "runs (?N - formals_weight fs) w2 (io_bind (compileCaptureInfo ci) (\<lambda>c. cbcEmit OpLambda ?fl 0 fo b c) w2) ?R"
      proof (rule runs_captures_step [where dbg = dbg, OF w2(1)])
        show "captures_fit ci" using a(1) by simp
        show "capture_weight ci \<le> ?N - formals_weight fs" by simp
        fix c w3 assume w3: "world_wf w3" "extends w2 w3" "held w3 (\<lambda>l j. decodeBcCaptureInfo dbg (dl_code l) c = Inr ci)"
        note h = held_at [OF held_later [OF w1(2) extends_trans [OF w2(2) w3(2)]]] held_at [OF held_later [OF efs w3(2)]]
          held_at [OF w3(3)]
        show "runs (?N - formals_weight fs - capture_weight ci) w3 (cbcEmit OpLambda ?fl 0 fo b c w3) ?R"
        proof (rule runs_finish [OF w3(1)])
          fix i l j assume i: "unat i = length (ops_of (w_code w3))" "unat i < j" "is_op dbg l i OpLambda ?fl 0 fo b c"
            "\<exists>w'. world_wf w' \<and> extends w3 w' \<and> l = w_layer w'"
          show "code dbg l j (ELambda fs e ci) i" unfolding code.simps using i(2,3) h [OF i(4,1)] by blast
        qed simp
      qed
    qed
  qed (use a in auto)
qed

subsection \<open>Every expression\<close>

lemma select_inherited_ok: "expr_ok dbg (ESelect (EResolvedVar 0 0) [StaticKey x] None)"
  by (rule select_ok) (auto intro: resolved_ok key_cases_ok)

lemma inherited_ok: "inherited_ok dbg n"
  by (cases n) (simp add: inherited_case_ok [OF select_inherited_ok])

lemma all_ok:
  "expr_ok dbg e" "part_ok dbg p" "key_ok dbg k" "binding_ok dbg b" "formal_ok dbg f" "formals_ok dbg fs"
proof (induction e and p and k and b and f and fs)
  case (EPathStr h ps)
  then show ?case by (intro path_str_ok) (auto intro: part_cases_ok)
next
  case (ESelect e ks d)
  then show ?case by (intro select_ok) auto
next
  case (Formal x d)
  then show ?case by (intro formal_case_ok) auto
qed (simp_all add: lit_ok str_ok var_ok attrs_ok list_ok has_attr_ok two_ok lambda_ok let_ok if_ok unary_ok resolved_ok
    part_cases_ok key_cases_ok named_ok inherit_ok inherit_from_ok inherited_ok formal_name_ok formal_set_ok formal_named_ok)

end
