(* ===== verification/Nova_Once.thy ===== *)
theory Nova_Once
  imports Nova_Code
begin

section \<open>One expression for one code\<close>

text \<open>
  Code determines the expression it is code of: \<open>once\<close> says so of an expression, one lemma per constructor shows it
  from its parts, and \<open>all_once\<close> puts them together.
\<close>

text \<open>The opcode an expression is compiled to.\<close>

fun opcode_of :: "expr \<Rightarrow> u8" where
  "opcode_of (ELit a) = (case a of NixInt _ \<Rightarrow> OpLitInt | NixFloat _ \<Rightarrow> OpLitFloat | NixBool _ \<Rightarrow> OpLitBool
     | NixNull \<Rightarrow> OpLitNull | NixUri _ \<Rightarrow> OpLitUri | NixPath _ \<Rightarrow> OpLitPath)"
| "opcode_of (EStr _) = OpStr"
| "opcode_of (EIndStr _) = OpIndStr"
| "opcode_of (EPathStr _ _) = OpPathStr"
| "opcode_of (EVar _) = OpVar"
| "opcode_of (EAttrs _ _ _) = OpAttrs"
| "opcode_of (EList _) = OpList"
| "opcode_of (ESelect _ _ _) = OpSelect"
| "opcode_of (EHasAttr _ _) = OpHasAttr"
| "opcode_of (EApp _ _) = OpApp"
| "opcode_of (ELambda _ _ _) = OpLambda"
| "opcode_of (ELet _ _ _) = OpLet"
| "opcode_of (EIf _ _ _) = OpIf"
| "opcode_of (EWith _ _) = OpWith"
| "opcode_of (EAssert _ _) = OpAssert"
| "opcode_of (EUnary _ _) = OpUnary"
| "opcode_of (EBinary _ _ _) = OpBinary"
| "opcode_of (ESearchPath _) = OpSearchPath"
| "opcode_of (EResolvedVar _ _) = OpResolvedVar"
| "opcode_of (EWithVar _) = OpWithVar"

text \<open>An expression with its positions as the code keeps them: a text has no name, and a position that does not fit
  is none.\<close>

fun norm_pos :: "src_pos \<Rightarrow> src_pos" where
  "norm_pos p = (case recorded p of
     None \<Rightarrow> SrcPos (SourceText []) (-1) (-1)
   | Some (PosInFile path line column) \<Rightarrow> SrcPos (SourceFile path) (int line) (int column)
   | Some (PosInText line column) \<Rightarrow> SrcPos (SourceText []) (int line) (int column))"

fun norm_inherited :: "inherited_name \<Rightarrow> inherited_name" where
  "norm_inherited (InheritedName p x) = InheritedName (norm_pos p) x"

fun norm :: "expr \<Rightarrow> expr" and part_norm :: "string_part \<Rightarrow> string_part" and key_norm :: "attr_key \<Rightarrow> attr_key"
  and binding_norm :: "binding \<Rightarrow> binding" and formal_norm :: "formal \<Rightarrow> formal" and formals_norm :: "formals \<Rightarrow> formals"
where
  "norm (ELit a) = ELit a"
| "norm (EStr ps) = EStr (map part_norm ps)"
| "norm (EIndStr ps) = EIndStr (map part_norm ps)"
| "norm (EPathStr h ps) = EPathStr h (map part_norm ps)"
| "norm (EVar x) = EVar x"
| "norm (EAttrs r bs c) = EAttrs r (map binding_norm bs) c"
| "norm (EList es) = EList (map norm es)"
| "norm (ESelect t path d) = ESelect (norm t) (map key_norm path) (case d of None \<Rightarrow> None | Some e \<Rightarrow> Some (norm e))"
| "norm (EHasAttr t path) = EHasAttr (norm t) (map key_norm path)"
| "norm (EApp f x) = EApp (norm f) (norm x)"
| "norm (ELambda fs b c) = ELambda (formals_norm fs) (norm b) c"
| "norm (ELet bs b c) = ELet (map binding_norm bs) (norm b) c"
| "norm (EIf c t e) = EIf (norm c) (norm t) (norm e)"
| "norm (EWith s b) = EWith (norm s) (norm b)"
| "norm (EAssert c b) = EAssert (norm c) (norm b)"
| "norm (EUnary op e) = EUnary op (norm e)"
| "norm (EBinary op l r) = EBinary op (norm l) (norm r)"
| "norm (ESearchPath x) = ESearchPath x"
| "norm (EResolvedVar level idx) = EResolvedVar level idx"
| "norm (EWithVar x) = EWithVar x"
| "part_norm (StrLit s) = StrLit s"
| "part_norm (StrEsc s) = StrEsc s"
| "part_norm (StrInterp e) = StrInterp (norm e)"
| "key_norm (StaticKey x) = StaticKey x"
| "key_norm (DynamicKey e) = DynamicKey (norm e)"
| "binding_norm (NamedBinding pos k e) = NamedBinding (norm_pos pos) (key_norm k) (norm e)"
| "binding_norm (Inherit pos x v) = Inherit (norm_pos pos) x (norm v)"
| "binding_norm (InheritFrom e xs) = InheritFrom (norm e) (map norm_inherited xs)"
| "formal_norm (Formal x d) = Formal x (case d of None \<Rightarrow> None | Some e \<Rightarrow> Some (norm e))"
| "formals_norm (FormalName x) = FormalName x"
| "formals_norm (FormalSet fs el) = FormalSet (map formal_norm fs) el"
| "formals_norm (FormalNamedSet x fs el) = FormalNamedSet x (map formal_norm fs) el"

lemma is_op_once:
  "is_op dbg l i opc fl sa a1 a2 a3 \<Longrightarrow> is_op dbg l i opc' fl' sa' a1' a2' a3' \<Longrightarrow>
     opc = opc' \<and> fl = fl' \<and> sa = sa' \<and> a1 = a1' \<and> a2 = a2' \<and> a3 = a3'"
  by (simp add: is_op_def)

lemma payload_once:
  "parts_at dbg l i a vs \<Longrightarrow> parts_at dbg l i a vs' \<Longrightarrow> vs = vs'"
  "children_at dbg l i a cs \<Longrightarrow> children_at dbg l i a cs' \<Longrightarrow> cs = cs'"
  "path_at dbg l i a ks \<Longrightarrow> path_at dbg l i a ks' \<Longrightarrow> ks = ks'"
  "bindings_at dbg l i a bs \<Longrightarrow> bindings_at dbg l i a bs' \<Longrightarrow> bs = bs'"
  by (auto simp: parts_at_def children_at_def path_at_def bindings_at_def)

lemma names_once: "names l sid x \<Longrightarrow> names l sid y \<Longrightarrow> x = y"
  by (simp add: names_def)

lemma code_opcode: "code dbg l j e i \<Longrightarrow> cbcOpcode dbg (dl_code l) i = Inr (opcode_of e)"
proof (cases e)
  case (ELit a)
  then show "code dbg l j e i \<Longrightarrow> ?thesis" by (cases a) (auto simp: lit_code_def is_op_def)
qed (auto simp: is_op_def)

lemma opcode_shapes:
  "(opcode_of e = OpStr \<longrightarrow> (\<exists>ps. e = EStr ps)) \<and>
   (opcode_of e = OpIndStr \<longrightarrow> (\<exists>ps. e = EIndStr ps)) \<and>
   (opcode_of e = OpPathStr \<longrightarrow> (\<exists>h ps. e = EPathStr h ps)) \<and>
   (opcode_of e = OpVar \<longrightarrow> (\<exists>x. e = EVar x)) \<and>
   (opcode_of e = OpAttrs \<longrightarrow> (\<exists>r bs c. e = EAttrs r bs c)) \<and>
   (opcode_of e = OpList \<longrightarrow> (\<exists>es. e = EList es)) \<and>
   (opcode_of e = OpSelect \<longrightarrow> (\<exists>t ks d. e = ESelect t ks d)) \<and>
   (opcode_of e = OpHasAttr \<longrightarrow> (\<exists>t ks. e = EHasAttr t ks)) \<and>
   (opcode_of e = OpApp \<longrightarrow> (\<exists>f x. e = EApp f x)) \<and>
   (opcode_of e = OpLambda \<longrightarrow> (\<exists>fs b c. e = ELambda fs b c)) \<and>
   (opcode_of e = OpLet \<longrightarrow> (\<exists>bs b c. e = ELet bs b c)) \<and>
   (opcode_of e = OpIf \<longrightarrow> (\<exists>c t f. e = EIf c t f)) \<and>
   (opcode_of e = OpWith \<longrightarrow> (\<exists>s b. e = EWith s b)) \<and>
   (opcode_of e = OpAssert \<longrightarrow> (\<exists>c b. e = EAssert c b)) \<and>
   (opcode_of e = OpUnary \<longrightarrow> (\<exists>op a. e = EUnary op a)) \<and>
   (opcode_of e = OpBinary \<longrightarrow> (\<exists>op a b. e = EBinary op a b)) \<and>
   (opcode_of e = OpSearchPath \<longrightarrow> (\<exists>x. e = ESearchPath x)) \<and>
   (opcode_of e = OpResolvedVar \<longrightarrow> (\<exists>a b. e = EResolvedVar a b)) \<and>
   (opcode_of e = OpWithVar \<longrightarrow> (\<exists>x. e = EWithVar x))"
proof (cases e)
  case (ELit a)
  then show ?thesis by (cases a) simp_all
qed simp_all

lemmas opcode_inv = opcode_shapes [THEN conjunct1, rule_format]
  opcode_shapes [THEN conjunct2, THEN conjunct1, rule_format]
  opcode_shapes [THEN conjunct2, THEN conjunct2, THEN conjunct1, rule_format]
  opcode_shapes [THEN conjunct2, THEN conjunct2, THEN conjunct2, THEN conjunct1, rule_format]
  opcode_shapes [THEN conjunct2, THEN conjunct2, THEN conjunct2, THEN conjunct2, THEN conjunct1, rule_format]
  opcode_shapes [THEN conjunct2, THEN conjunct2, THEN conjunct2, THEN conjunct2, THEN conjunct2, THEN conjunct1, rule_format]
  opcode_shapes [THEN conjunct2, THEN conjunct2, THEN conjunct2, THEN conjunct2, THEN conjunct2, THEN conjunct2, THEN conjunct1, rule_format]
  opcode_shapes [THEN conjunct2, THEN conjunct2, THEN conjunct2, THEN conjunct2, THEN conjunct2, THEN conjunct2, THEN conjunct2, THEN conjunct1, rule_format]
  opcode_shapes [THEN conjunct2, THEN conjunct2, THEN conjunct2, THEN conjunct2, THEN conjunct2, THEN conjunct2, THEN conjunct2, THEN conjunct2, THEN conjunct1, rule_format]
  opcode_shapes [THEN conjunct2, THEN conjunct2, THEN conjunct2, THEN conjunct2, THEN conjunct2, THEN conjunct2, THEN conjunct2, THEN conjunct2, THEN conjunct2, THEN conjunct1, rule_format]
  opcode_shapes [THEN conjunct2, THEN conjunct2, THEN conjunct2, THEN conjunct2, THEN conjunct2, THEN conjunct2, THEN conjunct2, THEN conjunct2, THEN conjunct2, THEN conjunct2, THEN conjunct1, rule_format]
  opcode_shapes [THEN conjunct2, THEN conjunct2, THEN conjunct2, THEN conjunct2, THEN conjunct2, THEN conjunct2, THEN conjunct2, THEN conjunct2, THEN conjunct2, THEN conjunct2, THEN conjunct2, THEN conjunct1, rule_format]
  opcode_shapes [THEN conjunct2, THEN conjunct2, THEN conjunct2, THEN conjunct2, THEN conjunct2, THEN conjunct2, THEN conjunct2, THEN conjunct2, THEN conjunct2, THEN conjunct2, THEN conjunct2, THEN conjunct2, THEN conjunct1, rule_format]
  opcode_shapes [THEN conjunct2, THEN conjunct2, THEN conjunct2, THEN conjunct2, THEN conjunct2, THEN conjunct2, THEN conjunct2, THEN conjunct2, THEN conjunct2, THEN conjunct2, THEN conjunct2, THEN conjunct2, THEN conjunct2, THEN conjunct1, rule_format]
  opcode_shapes [THEN conjunct2, THEN conjunct2, THEN conjunct2, THEN conjunct2, THEN conjunct2, THEN conjunct2, THEN conjunct2, THEN conjunct2, THEN conjunct2, THEN conjunct2, THEN conjunct2, THEN conjunct2, THEN conjunct2, THEN conjunct2, THEN conjunct1, rule_format]
  opcode_shapes [THEN conjunct2, THEN conjunct2, THEN conjunct2, THEN conjunct2, THEN conjunct2, THEN conjunct2, THEN conjunct2, THEN conjunct2, THEN conjunct2, THEN conjunct2, THEN conjunct2, THEN conjunct2, THEN conjunct2, THEN conjunct2, THEN conjunct2, THEN conjunct1, rule_format]
  opcode_shapes [THEN conjunct2, THEN conjunct2, THEN conjunct2, THEN conjunct2, THEN conjunct2, THEN conjunct2, THEN conjunct2, THEN conjunct2, THEN conjunct2, THEN conjunct2, THEN conjunct2, THEN conjunct2, THEN conjunct2, THEN conjunct2, THEN conjunct2, THEN conjunct2, THEN conjunct1, rule_format]
  opcode_shapes [THEN conjunct2, THEN conjunct2, THEN conjunct2, THEN conjunct2, THEN conjunct2, THEN conjunct2, THEN conjunct2, THEN conjunct2, THEN conjunct2, THEN conjunct2, THEN conjunct2, THEN conjunct2, THEN conjunct2, THEN conjunct2, THEN conjunct2, THEN conjunct2, THEN conjunct2, THEN conjunct1, rule_format]
  opcode_shapes [THEN conjunct2, THEN conjunct2, THEN conjunct2, THEN conjunct2, THEN conjunct2, THEN conjunct2, THEN conjunct2, THEN conjunct2, THEN conjunct2, THEN conjunct2, THEN conjunct2, THEN conjunct2, THEN conjunct2, THEN conjunct2, THEN conjunct2, THEN conjunct2, THEN conjunct2, THEN conjunct2, rule_format]

lemma opcode_lit: "opcode_of e = opcode_of (ELit a) \<Longrightarrow> \<exists>a'. e = ELit a'"
  by (cases a; cases e; simp)

lemma lit_once: "lit_code dbg l a i \<Longrightarrow> lit_code dbg l a' i \<Longrightarrow> a = a'"
  by (cases a; cases a') (auto simp: lit_code_def dest: is_op_once names_once)

definition once :: "bool \<Rightarrow> data_layer \<Rightarrow> expr \<Rightarrow> bool" where
  "once dbg l e \<longleftrightarrow> (\<forall>e' j j' i. code dbg l j e i \<longrightarrow> code dbg l j' e' i \<longrightarrow> norm e = norm e')"

definition part_once :: "bool \<Rightarrow> data_layer \<Rightarrow> string_part \<Rightarrow> bool" where
  "part_once dbg l p \<longleftrightarrow> (\<forall>p' j j' v. part_code dbg l j p v \<longrightarrow> part_code dbg l j' p' v \<longrightarrow> part_norm p = part_norm p')"

definition key_once :: "bool \<Rightarrow> data_layer \<Rightarrow> attr_key \<Rightarrow> bool" where
  "key_once dbg l k \<longleftrightarrow> (\<forall>k' j j' v. key_code dbg l j k v \<longrightarrow> key_code dbg l j' k' v \<longrightarrow> key_norm k = key_norm k')"

definition binding_once :: "bool \<Rightarrow> data_layer \<Rightarrow> binding \<Rightarrow> bool" where
  "binding_once dbg l b \<longleftrightarrow> (\<forall>b' j j' v. binding_code dbg l j b v \<longrightarrow> binding_code dbg l j' b' v \<longrightarrow> binding_norm b = binding_norm b')"

definition formal_once :: "bool \<Rightarrow> data_layer \<Rightarrow> formal \<Rightarrow> bool" where
  "formal_once dbg l f \<longleftrightarrow> (\<forall>f' j j' v. formal_code dbg l j f v \<longrightarrow> formal_code dbg l j' f' v \<longrightarrow> formal_norm f = formal_norm f')"

definition formals_once :: "bool \<Rightarrow> data_layer \<Rightarrow> formals \<Rightarrow> bool" where
  "formals_once dbg l fs \<longleftrightarrow> (\<forall>fs' j j' v. formals_code dbg l j fs v \<longrightarrow> formals_code dbg l j' fs' v \<longrightarrow> formals_norm fs = formals_norm fs')"

lemma list_once:
  "list_all2 P xs vs \<Longrightarrow> list_all2 Q ys vs \<Longrightarrow> (\<And>x y v. x \<in> set xs \<Longrightarrow> P x v \<Longrightarrow> Q y v \<Longrightarrow> f x = f y) \<Longrightarrow> map f xs = map f ys"
proof (induction xs vs arbitrary: ys rule: list_all2_induct)
  case (Cons x xs v vs)
  then obtain y ys' where "ys = y # ys'" "Q y v" "list_all2 Q ys' vs" by (cases ys) auto
  then show ?case using Cons.IH [of ys'] Cons.hyps Cons.prems(2) by simp
qed simp

lemma inherited_once:
  "inherited_code dbg l j n v \<Longrightarrow> inherited_code dbg l j' n' v \<Longrightarrow> norm_inherited n = norm_inherited n'"
  by (cases n; cases n'; cases v) (auto simp del: code.simps recorded.simps dest: names_once)

text \<open>One step down: two expressions at one index have the same constructor and children at the same indices.\<close>

lemma onceI:
  assumes "\<And>e' j j' i. code dbg l j e i \<Longrightarrow> code dbg l j' e' i \<Longrightarrow> opcode_of e' = opcode_of e \<Longrightarrow> norm e = norm e'"
  shows "once dbg l e"
  unfolding once_def
proof (intro allI impI)
  fix e' j j' i assume a: "code dbg l j e i" "code dbg l j' e' i"
  show "norm e = norm e'" by (rule assms [OF a]) (use code_opcode [OF a(1)] code_opcode [OF a(2)] in simp)
qed

lemma once_by:
  assumes "opcode_of e = opc" and "\<And>e'. opcode_of e' = opc \<Longrightarrow> S e'"
    and "\<And>e' j j' i. S e' \<Longrightarrow> code dbg l j e i \<Longrightarrow> code dbg l j' e' i \<Longrightarrow> norm e = norm e'"
  shows "once dbg l e"
  by (rule onceI) (rule assms(3); simp add: assms(1,2))

lemma once_simple: "once dbg l (ELit a)" "once dbg l (EVar x)" "once dbg l (EWithVar x)" "once dbg l (ESearchPath x)"
  "once dbg l (EResolvedVar n k)"
proof -
  show "once dbg l (ELit a)"
    by (rule once_by [OF refl opcode_lit]) (auto dest: lit_once)
  show "once dbg l (EVar x)" by (rule once_by [OF _ opcode_inv(4)]) (auto simp: is_op_def names_def)
  show "once dbg l (EWithVar x)" by (rule once_by [OF _ opcode_inv(19)]) (auto simp: is_op_def names_def)
  show "once dbg l (ESearchPath x)" by (rule once_by [OF _ opcode_inv(17)]) (auto simp: is_op_def names_def)
  show "once dbg l (EResolvedVar n k)" by (rule once_by [OF _ opcode_inv(18)]) (auto simp: is_op_def)
qed

lemma once_parts:
  assumes "\<And>p. p \<in> set ps \<Longrightarrow> part_once dbg l p"
    and "list_all2 (part_code dbg l j) ps vs" and "list_all2 (part_code dbg l j') ps' vs"
  shows "map part_norm ps = map part_norm ps'"
  using assms(2,3) by (rule list_once) (use assms(1) in \<open>unfold part_once_def, blast\<close>)

lemma once_keys:
  assumes "\<And>k. k \<in> set ks \<Longrightarrow> key_once dbg l k"
    and "list_all2 (key_code dbg l j) ks vs" and "list_all2 (key_code dbg l j') ks' vs"
  shows "map key_norm ks = map key_norm ks'"
  using assms(2,3) by (rule list_once) (use assms(1) in \<open>unfold key_once_def, blast\<close>)

lemma once_bindings:
  assumes "\<And>b. b \<in> set bs \<Longrightarrow> binding_once dbg l b"
    and "list_all2 (binding_code dbg l j) bs vs" and "list_all2 (binding_code dbg l j') bs' vs"
  shows "map binding_norm bs = map binding_norm bs'"
  using assms(2,3) by (rule list_once) (use assms(1) in \<open>unfold binding_once_def, blast\<close>)

lemma once_formals:
  assumes "\<And>f. f \<in> set fs \<Longrightarrow> formal_once dbg l f"
    and "list_all2 (formal_code dbg l j) fs vs" and "list_all2 (formal_code dbg l j') fs' vs"
  shows "map formal_norm fs = map formal_norm fs'"
  using assms(2,3) by (rule list_once) (use assms(1) in \<open>unfold formal_once_def, blast\<close>)

lemma once_exprs:
  assumes "\<And>e. e \<in> set es \<Longrightarrow> once dbg l e"
    and "list_all2 (code dbg l j) es vs" and "list_all2 (code dbg l j') es' vs"
  shows "map norm es = map norm es'"
  using assms(2,3) by (rule list_once) (use assms(1) in \<open>unfold once_def, blast\<close>)

lemma onceD: "once dbg l e \<Longrightarrow> code dbg l j e i \<Longrightarrow> code dbg l j' e' i \<Longrightarrow> norm e = norm e'"
  unfolding once_def by blast

lemma once_payloads:
  assumes "\<And>p. p \<in> set ps \<Longrightarrow> part_once dbg l p"
  shows "once dbg l (EStr ps)" and "once dbg l (EIndStr ps)"
proof -
  note m = once_parts [OF assms]
  show "once dbg l (EStr ps)"
    by (rule once_by [OF opcode_of.simps(2) opcode_inv(1)]) (auto simp: is_op_def parts_at_def simp del: map_eq_conv intro: m)
  show "once dbg l (EIndStr ps)"
    by (rule once_by [OF opcode_of.simps(3) opcode_inv(2)]) (auto simp: is_op_def parts_at_def simp del: map_eq_conv intro: m)
qed

lemma once_path:
  assumes "\<And>p. p \<in> set (StrLit h # ps) \<Longrightarrow> part_once dbg l p"
  shows "once dbg l (EPathStr h ps)"
proof (rule once_by [OF opcode_of.simps(4) opcode_inv(3)])
  fix e' j j' i assume "\<exists>h ps. e' = EPathStr h ps" and c: "code dbg l j (EPathStr h ps) i" "code dbg l j' e' i"
  then obtain h' ps' where e: "e' = EPathStr h' ps'" by blast
  have "map part_norm (StrLit h # ps) = map part_norm (StrLit h' # ps')"
    using c once_parts [OF assms] unfolding e code.simps is_op_def parts_at_def by fastforce
  then show "norm (EPathStr h ps) = norm e'" by (simp add: e)
qed

lemma once_children:
  assumes "\<And>e. e \<in> set es \<Longrightarrow> once dbg l e"
  shows "once dbg l (EList es)"
proof -
  note m = once_exprs [OF assms]
  show ?thesis
    by (rule once_by [OF opcode_of.simps(7) opcode_inv(6)]) (auto simp: is_op_def children_at_def simp del: map_eq_conv intro: m)
qed

lemma once_one: "once dbg l e \<Longrightarrow> once dbg l (EUnary op e)"
  by (rule once_by [OF opcode_of.simps(16) opcode_inv(15)]) (auto simp: is_op_def intro: onceD)

lemma once_two:
  assumes "once dbg l a" "once dbg l b"
  shows "once dbg l (EApp a b)" "once dbg l (EWith a b)" "once dbg l (EAssert a b)" "once dbg l (EBinary op a b)"
proof -
  note d = onceD [OF assms(1)] onceD [OF assms(2)]
  show "once dbg l (EApp a b)" by (rule once_by [OF opcode_of.simps(10) opcode_inv(9)]) (auto simp: is_op_def intro: d)
  show "once dbg l (EWith a b)" by (rule once_by [OF opcode_of.simps(14) opcode_inv(13)]) (auto simp: is_op_def intro: d)
  show "once dbg l (EAssert a b)" by (rule once_by [OF opcode_of.simps(15) opcode_inv(14)]) (auto simp: is_op_def intro: d)
  show "once dbg l (EBinary op a b)" by (rule once_by [OF opcode_of.simps(17) opcode_inv(16)]) (auto simp: is_op_def intro: d)
qed

lemma once_if:
  assumes "once dbg l a" "once dbg l b" "once dbg l c"
  shows "once dbg l (EIf a b c)"
proof -
  note d = onceD [OF assms(1)] onceD [OF assms(2)] onceD [OF assms(3)]
  show ?thesis by (rule once_by [OF opcode_of.simps(13) opcode_inv(12)]) (auto simp: is_op_def intro: d)
qed

lemma once_has_attr:
  assumes "once dbg l e" "\<And>k. k \<in> set ks \<Longrightarrow> key_once dbg l k"
  shows "once dbg l (EHasAttr e ks)"
proof -
  note d = onceD [OF assms(1)] and m = once_keys [OF assms(2)]
  show ?thesis
    by (rule once_by [OF opcode_of.simps(9) opcode_inv(8)]) (auto simp: is_op_def path_at_def simp del: map_eq_conv intro: d m)
qed

lemma once_select:
  assumes "once dbg l e" "\<And>k. k \<in> set ks \<Longrightarrow> key_once dbg l k" "\<And>e'. d = Some e' \<Longrightarrow> once dbg l e'"
  shows "once dbg l (ESelect e ks d)"
proof (rule once_by [OF opcode_of.simps(8) opcode_inv(7)])
  fix x j j' i assume "\<exists>e ks d. x = ESelect e ks d" and c: "code dbg l j (ESelect e ks d) i" "code dbg l j' x i"
  then obtain e' ks' d' where x: "x = ESelect e' ks' d'" by blast
  obtain fl sa a1 a2 a3 vs where 1: "is_op dbg l i OpSelect fl sa a1 a2 a3" "code dbg l (unat i) e a1" "path_at dbg l i a2 vs"
      "list_all2 (key_code dbg l (unat i)) ks vs" "case d of None \<Rightarrow> fl = 0 | Some y \<Rightarrow> fl \<noteq> 0 \<and> code dbg l (unat i) y a3"
    using c(1) unfolding code.simps by blast
  obtain fl' sa' a1' a2' a3' vs' where 2: "is_op dbg l i OpSelect fl' sa' a1' a2' a3'" "code dbg l (unat i) e' a1'"
      "path_at dbg l i a2' vs'" "list_all2 (key_code dbg l (unat i)) ks' vs'"
      "case d' of None \<Rightarrow> fl' = 0 | Some y \<Rightarrow> fl' \<noteq> 0 \<and> code dbg l (unat i) y a3'"
    using c(2) unfolding x code.simps by blast
  have eq: "fl' = fl" "a1' = a1" "a2' = a2" "a3' = a3" using is_op_once [OF 2(1) 1(1)] by simp_all
  then have "vs' = vs" using payload_once(3) 1(3) 2(3) by blast
  note 2 = 2 [unfolded eq this]
  have "(case d of None \<Rightarrow> None | Some e \<Rightarrow> Some (norm e)) = (case d' of None \<Rightarrow> None | Some e \<Rightarrow> Some (norm e))"
  proof (cases d)
    case None
    then show ?thesis using 1(5) 2(5) by (cases d') simp_all
  next
    case (Some y)
    with 1(5) 2(5) obtain y' where y': "d' = Some y'" "code dbg l (unat i) y a3" "code dbg l (unat i) y' a3"
      by (cases d') simp_all
    then show ?thesis using onceD [OF assms(3) [OF Some] y'(2,3)] Some by simp
  qed
  then show "norm (ESelect e ks d) = norm x"
    using onceD [OF assms(1) 1(2) 2(2)] once_keys [OF assms(2) 1(4) 2(4)] by (simp add: x del: map_eq_conv)
qed

lemma once_attrs:
  assumes "\<And>b. b \<in> set bs \<Longrightarrow> binding_once dbg l b"
  shows "once dbg l (EAttrs r bs ci)"
proof -
  note m = once_bindings [OF assms]
  show ?thesis
    by (rule once_by [OF opcode_of.simps(6) opcode_inv(5)]) (auto simp: is_op_def bindings_at_def simp del: map_eq_conv intro: m)
qed

lemma once_let:
  assumes "\<And>b. b \<in> set bs \<Longrightarrow> binding_once dbg l b" "once dbg l e"
  shows "once dbg l (ELet bs e ci)"
proof -
  note m = once_bindings [OF assms(1)] and d = onceD [OF assms(2)]
  show ?thesis
    by (rule once_by [OF opcode_of.simps(12) opcode_inv(11)]) (auto simp: is_op_def bindings_at_def simp del: map_eq_conv intro: m d)
qed

lemma once_lambda:
  assumes "formals_once dbg l fs" "once dbg l e"
  shows "once dbg l (ELambda fs e ci)"
proof (rule once_by [OF opcode_of.simps(11) opcode_inv(10)])
  fix x j j' i assume "\<exists>fs e c. x = ELambda fs e c" and c: "code dbg l j (ELambda fs e ci) i" "code dbg l j' x i"
  then obtain fs' e' ci' where x: "x = ELambda fs' e' ci'" by blast
  obtain fl a1 a2 a3 efs where 1: "is_op dbg l i OpLambda fl 0 a1 a2 a3" "decodeBcFormals dbg l fl a1 = Inr efs"
      "formals_code dbg l (unat i) fs efs" "code dbg l (unat i) e a2" "decodeBcCaptureInfo dbg (dl_code l) a3 = Inr ci"
    using c(1) unfolding code.simps by blast
  obtain fl' a1' a2' a3' efs' where 2: "is_op dbg l i OpLambda fl' 0 a1' a2' a3'" "decodeBcFormals dbg l fl' a1' = Inr efs'"
      "formals_code dbg l (unat i) fs' efs'" "code dbg l (unat i) e' a2'" "decodeBcCaptureInfo dbg (dl_code l) a3' = Inr ci'"
    using c(2) unfolding x code.simps by blast
  have eq: "fl' = fl" "a1' = a1" "a2' = a2" "a3' = a3" using is_op_once [OF 2(1) 1(1)] by simp_all
  then have "efs' = efs" "ci' = ci" using 1(2,5) 2(2,5) by simp_all
  moreover have "formals_norm fs = formals_norm fs'"
    using assms(1) 1(3) 2(3) \<open>efs' = efs\<close> unfolding formals_once_def by blast
  ultimately show "norm (ELambda fs e ci) = norm x" using onceD [OF assms(2) 1(4)] 2(4) eq by (simp add: x)
qed

lemma once_pieces:
  "part_once dbg l (StrLit s)" "part_once dbg l (StrEsc s)" "once dbg l e \<Longrightarrow> part_once dbg l (StrInterp e)"
  "key_once dbg l (StaticKey x)" "once dbg l e \<Longrightarrow> key_once dbg l (DynamicKey e)"
proof -
  show "part_once dbg l (StrLit s)" "part_once dbg l (StrEsc s)"
    unfolding part_once_def by (intro allI; case_tac p'; simp add: names_def)+
  show "part_once dbg l (StrInterp e)" if "once dbg l e"
    unfolding part_once_def by (intro allI; case_tac p'; simp) (use onceD [OF that] in blast)
  show "key_once dbg l (StaticKey x)"
    unfolding key_once_def by (intro allI; case_tac k'; case_tac v; simp add: names_def)
  show "key_once dbg l (DynamicKey e)" if "once dbg l e"
    unfolding key_once_def by (intro allI; case_tac k'; case_tac v; simp) (use onceD [OF that] in blast)
qed

lemma pos_once: "lookupPos dbg l p = Inr (recorded a) \<Longrightarrow> lookupPos dbg l p = Inr (recorded b) \<Longrightarrow> norm_pos a = norm_pos b"
  by simp

lemma once_binding_pieces:
  "key_once dbg l k \<Longrightarrow> once dbg l e \<Longrightarrow> binding_once dbg l (NamedBinding pos k e)"
  "once dbg l e \<Longrightarrow> binding_once dbg l (Inherit pos x e)"
  "once dbg l e \<Longrightarrow> binding_once dbg l (InheritFrom e xs)"
proof -
  show "binding_once dbg l (NamedBinding pos k e)" if k: "key_once dbg l k" and e: "once dbg l e"
    unfolding binding_once_def
  proof (intro allI impI)
    fix b' j j' v assume c: "binding_code dbg l j (NamedBinding pos k e) v" "binding_code dbg l j' b' v"
    then obtain p kv i where v: "v = BcNamed p kv i" by (cases v) simp_all
    obtain pos' k' e' where b: "b' = NamedBinding pos' k' e'" using c(2) by (cases b') (simp_all add: v)
    have "key_norm k = key_norm k'" using k c unfolding key_once_def b v binding_code.simps by blast
    moreover have "norm e = norm e'" using onceD [OF e] c unfolding b v binding_code.simps by blast
    moreover have "norm_pos pos = norm_pos pos'" using c pos_once unfolding b v binding_code.simps by blast
    ultimately show "binding_norm (NamedBinding pos k e) = binding_norm b'" by (simp add: b del: norm_pos.simps)
  qed
  show "binding_once dbg l (Inherit pos x e)" if e: "once dbg l e"
    unfolding binding_once_def
  proof (intro allI impI)
    fix b' j j' v assume c: "binding_code dbg l j (Inherit pos x e) v" "binding_code dbg l j' b' v"
    then obtain p sid i where v: "v = BcInherit p sid i" by (cases v) simp_all
    obtain pos' x' e' where b: "b' = Inherit pos' x' e'" using c(2) by (cases b') (simp_all add: v)
    have "x = x'" using names_once c unfolding b v binding_code.simps by blast
    moreover have "norm e = norm e'" using onceD [OF e] c unfolding b v binding_code.simps by blast
    moreover have "norm_pos pos = norm_pos pos'" using c pos_once unfolding b v binding_code.simps by blast
    ultimately show "binding_norm (Inherit pos x e) = binding_norm b'" by (simp add: b del: norm_pos.simps)
  qed
  show "binding_once dbg l (InheritFrom e xs)" if e: "once dbg l e"
    unfolding binding_once_def
  proof (intro allI impI)
    fix b' j j' v assume c: "binding_code dbg l j (InheritFrom e xs) v" "binding_code dbg l j' b' v"
    then obtain i ns where v: "v = BcInheritFrom i ns" by (cases v) simp_all
    obtain e' xs' where b: "b' = InheritFrom e' xs'" using c(2) by (cases b') (simp_all add: v)
    have "map norm_inherited xs = map norm_inherited xs'"
    proof (rule list_once)
      show "list_all2 (inherited_code dbg l j) xs ns" "list_all2 (inherited_code dbg l j') xs' ns"
        using c unfolding b v binding_code.simps by blast+
    qed (rule inherited_once)
    moreover have "norm e = norm e'" using onceD [OF e] c unfolding b v binding_code.simps by blast
    ultimately show "binding_norm (InheritFrom e xs) = binding_norm b'" by (simp add: b del: map_eq_conv)
  qed
qed

lemma once_formal_pieces:
  "(\<And>e. d = Some e \<Longrightarrow> once dbg l e) \<Longrightarrow> formal_once dbg l (Formal x d)"
  "formals_once dbg l (FormalName x)"
  "(\<And>f. f \<in> set fs \<Longrightarrow> formal_once dbg l f) \<Longrightarrow> formals_once dbg l (FormalSet fs el)"
  "(\<And>f. f \<in> set fs \<Longrightarrow> formal_once dbg l f) \<Longrightarrow> formals_once dbg l (FormalNamedSet x fs el)"
proof -
  show "formal_once dbg l (Formal x d)" if e: "\<And>e. d = Some e \<Longrightarrow> once dbg l e"
    unfolding formal_once_def
  proof (intro allI impI)
    fix f' j j' v assume c: "formal_code dbg l j (Formal x d) v" "formal_code dbg l j' f' v"
    obtain y i where v: "v = EvalFormal y i" by (cases v)
    obtain x' d' where f: "f' = Formal x' d'" by (cases f')
    show "formal_norm (Formal x d) = formal_norm f'"
    proof (cases d)
      case None
      then show ?thesis using c by (cases d') (simp_all add: v f)
    next
      case (Some a)
      then obtain i' where i: "i = Some i'" "code dbg l j a i'" "x = y" using c(1) by (cases i) (simp_all add: v)
      then obtain a' where "d' = Some a'" "code dbg l j' a' i'" "x' = y" using c(2) by (cases d') (simp_all add: v f)
      with i(3) have "d' = Some a'" "code dbg l j' a' i'" "x' = x" by simp_all
      then show ?thesis using onceD [OF e [OF Some] i(2)] by (simp add: f Some)
    qed
  qed
  show "formals_once dbg l (FormalName x)"
    unfolding formals_once_def
  proof (intro allI impI)
    fix fs' j j' v assume c: "formals_code dbg l j (FormalName x) v" "formals_code dbg l j' fs' v"
    then show "formals_norm (FormalName x) = formals_norm fs'" by (cases v; cases fs') simp_all
  qed
  show "formals_once dbg l (FormalSet fs el)" if f: "\<And>f. f \<in> set fs \<Longrightarrow> formal_once dbg l f"
    unfolding formals_once_def
  proof (intro allI impI)
    fix fs' j j' v assume c: "formals_code dbg l j (FormalSet fs el) v" "formals_code dbg l j' fs' v"
    then obtain efs where v: "v = EFSet efs el" by (cases v) simp_all
    obtain gs where g: "fs' = FormalSet gs el" using c(2) by (cases fs') (simp_all add: v)
    have "map formal_norm fs = map formal_norm gs" using once_formals [OF f] c unfolding g v formals_code.simps by blast
    then show "formals_norm (FormalSet fs el) = formals_norm fs'" by (simp add: g del: map_eq_conv)
  qed
  show "formals_once dbg l (FormalNamedSet x fs el)" if f: "\<And>f. f \<in> set fs \<Longrightarrow> formal_once dbg l f"
    unfolding formals_once_def
  proof (intro allI impI)
    fix fs' j j' v assume c: "formals_code dbg l j (FormalNamedSet x fs el) v" "formals_code dbg l j' fs' v"
    then obtain efs where v: "v = EFNamedSet x efs el" by (cases v) simp_all
    obtain gs where g: "fs' = FormalNamedSet x gs el" using c(2) by (cases fs') (simp_all add: v)
    have "map formal_norm fs = map formal_norm gs" using once_formals [OF f] c unfolding g v formals_code.simps by blast
    then show "formals_norm (FormalNamedSet x fs el) = formals_norm fs'" by (simp add: g del: map_eq_conv)
  qed
qed

lemma all_once:
  "once dbg l e" "part_once dbg l p" "key_once dbg l k" "binding_once dbg l b" "formal_once dbg l f" "formals_once dbg l fs"
proof (induction e and p and k and b and f and fs)
  case (EPathStr h ps)
  then show ?case by (intro once_path) (auto intro: once_pieces)
next
  case (ESelect e ks d)
  then show ?case by (intro once_select) auto
next
  case (Formal x d)
  then show ?case by (intro once_formal_pieces) auto
qed (simp_all add: once_simple once_payloads once_attrs once_children once_has_attr once_two once_lambda once_let once_if once_one
    once_pieces once_binding_pieces once_formal_pieces)

end
