(* ===== verification/Nova_Compiler.thy ===== *)
theory Nova_Compiler
  imports Nova_Compile_Correct Nova_Once
begin

section \<open>The compiler and the data layer together\<close>

text \<open>
  The properties of the bytecode compiler: what a compilation gives in any world, that a freshly opened layer
  takes any number of expressions one after the other, and that the code determines the expression.
\<close>

subsection \<open>A compilation\<close>

lemma same_layer:
  assumes "world_wf w"
  shows "world_wf (w\<lparr>w_seen := None\<rparr>)" and "extends w (w\<lparr>w_seen := None\<rparr>)" and "used (w\<lparr>w_seen := None\<rparr>) = used w"
  using assms extends_refl [of w, unfolded extends_def] by (simp_all add: world_wf_def seen_ok_def extends_def used_def)

lemma runs_compileExpr:
  assumes wf: "world_wf w" and e: "fits e" "weight e < 2 ^ 32"
  shows "runs (weight e) w (compileExpr e w) (\<lambda>i w'. held w' (\<lambda>l j. code dbg l j e i))"
  unfolding compileExpr_def
proof (rule runs_step)
  show "runs 0 w (newPosRecorder w) (\<lambda>_ _. True)"
    using same_layer [OF wf] by (simp add: newPosRecorder_def runs_def)
  fix x w1 assume "world_wf w1"
  then show "runs (weight e - 0) w1 (compile_go e w1) (\<lambda>i w'. held w' (\<lambda>l j. code dbg l j e i))"
    using all_ok(1) [of dbg e] e by (simp add: expr_ok_def)
qed simp

lemma compile_some:
  assumes "world_wf w" and "fits e" and "weight e < 2 ^ 32" and "plenty w (weight e)"
  shows "\<exists>i w'. compileExpr e w = Inr (i, w') \<and> world_wf w' \<and> code dbg (w_layer w') (length (ops_of (w_code w'))) e i"
proof (cases "compileExpr e w")
  case (Inl err)
  then show ?thesis using runs_compileExpr [OF assms(1-3), of dbg] assms(4) by (simp add: runs_def)
next
  case (Inr r)
  then obtain i w' where r: "compileExpr e w = Inr (i, w')" by (cases r) simp
  then have "world_wf w'" "held w' (\<lambda>l j. code dbg l j e i)"
    using runs_compileExpr [OF assms(1-3), of dbg] by (simp_all add: runs_def)
  then show ?thesis using r held_use [OF _ _ extends_refl order.refl] by blast
qed

text \<open>C11: The compiler is correct. In any well-formed world, compiling an expression whose levels, slot indices
  and capture counts fit 32 bits is refused with the exception that says why (never a fault of a C call, never
  another error), or it gives an index and a larger well-formed world in which nothing that was there changed, at
  most \<open>weight e\<close> was added, and in which, as in every later world, the instruction at the index is code of the
  expression. It is refused only when the layer is closed, an allocation is refused or the layer is too full.\<close>

theorem compile_correct:
  assumes "world_wf w" and "fits e" and "weight e < 2 ^ 32"
  shows "case compileExpr e w of
      Inl err \<Rightarrow> refused w err \<and> \<not> plenty w (weight e)
    | Inr (i, w') \<Rightarrow> world_wf w' \<and> extends w w' \<and> used w' \<le> used w + weight e \<and>
        (\<forall>w'' dbg. world_wf w'' \<and> extends w' w'' \<longrightarrow> code dbg (w_layer w'') (length (ops_of (w_code w'))) e i)"
proof (cases "compileExpr e w")
  case (Inl err)
  then show ?thesis using runs_compileExpr [OF assms, of True] by (simp add: runs_def)
next
  case (Inr r)
  then obtain i w' where r: "compileExpr e w = Inr (i, w')" by (cases r) simp
  have "code dbg (w_layer w'') (length (ops_of (w_code w'))) e i" if "world_wf w''" "extends w' w''" for w'' dbg
    using runs_compileExpr [OF assms, of dbg] r held_use [OF _ that] by (auto simp: runs_def)
  then show ?thesis using runs_compileExpr [OF assms, of True] r by (simp add: runs_def)
qed

subsection \<open>From a freshly opened layer\<close>

text \<open>\<open>let x = 1; in { inherit x; } // { a.b or y }\<close>-like expressions for the witnesses.\<close>

definition demo_text :: "u8 list \<Rightarrow> src_pos" where
  "demo_text label = SrcPos (SourceText label) 1 7"

definition demo_expr :: "u8 list \<Rightarrow> expr" where
  "demo_expr label =
     ELet [NamedBinding (demo_text label) (StaticKey [120]) (ELit (NixInt 4294967299))]
       (EBinary OpUpdate
         (EAttrs True [Inherit (SrcPos (SourceFile [47, 97]) 2 3) [120] (EVar [120]),
            InheritFrom (EVar [121]) [InheritedName (demo_text label) [122]]] NoCaptureInfo)
         (ELambda (FormalSet [Formal [97] (Some (ELit NixNull)), Formal [98] None] True)
           (ESelect (EResolvedVar 0 1) [StaticKey [99], DynamicKey (EStr [StrLit [100], StrInterp (EVar [101])])]
             (Some (EList [ELit (NixBool True)])))
           (Captures [(1, 0), (2, 5)])))
       NoCaptureInfo"

lemma demo_expr: "fits (demo_expr label)" "weight (demo_expr label) < 1000"
  by (simp_all add: demo_expr_def demo_text_def)


lemma arena_init_fresh:
  assumes "arena_init al l = Inr (al', l')"
  shows "sym_names (dl_symbols l') = [] \<and> ops_of (dl_code l') = g_reserved_ops \<and> data_of (dl_code l') = []"
proof -
  obtain al1 sy al2 th al3 en bc where c: "nn_symbol_init al (dl_symbols l) 0 = Inr (al1, sy)"
    "nn_bytecode_init 0 0 al3 (dl_code l) = Inr (al', bc)"
    "l' = l\<lparr>dl_symbols := sy, dl_thunks := th, dl_envs := en, dl_code := bc\<rparr>"
    using assms by (fastforce simp: arena_init_def res_bind_def split: sum.splits)
  have "sym_names sy = []" by (rule symbol_init_cases [of al "dl_symbols l" 0]) (use c(1) in simp_all)
  then show ?thesis
    using c bytecode_init_cases [where oc = 0 and dc = 0 and al = al3 and s = "dl_code l"] by simp
qed

definition world_start :: "allocator \<Rightarrow> data_layer \<Rightarrow> world" where
  "world_start al l = \<lparr>w_al = al, w_layer = l, w_seen = None\<rparr>"

lemma world_fresh:
  assumes "layer_wf al l" and "arena_init al l = Inr (al', l')"
  shows "world_wf (world_start al' l')" and "nn_arena_live l'" and "al_ok al' = al_ok al" and "used (world_start al' l') = 5"
proof -
  note f = arena_init_fresh [OF assms(2)]
  show "used (world_start al' l') = 5" using f by (simp add: used_def world_start_def g_reserved_ops_def)
  show "world_wf (world_start al' l')" "nn_arena_live l'" "al_ok al' = al_ok al"
    by (rule arena_init_cases [OF assms(1)];
        use assms(2) in \<open>simp add: world_wf_def layer_wf_def seen_ok_def world_start_def al_steps_def\<close>)+
qed

lemma demo_open:
  obtains al' l' where "arena_init al_all layer_start = Inr (al', l')" and "world_wf (world_start al' l')"
    and "plenty (world_start al' l') 1000"
proof -
  have wf: "layer_wf al_all layer_start" by (rule layer_start_wf) (simp add: al_all_def)
  obtain al' l' where r: "arena_init al_all layer_start = Inr (al', l')"
    by (rule arena_init_cases [OF wf]) (simp_all add: al_all_def)
  note f = world_fresh [OF wf r]
  have "plenty (world_start al' l') 1000"
    using f by (simp add: plenty_def al_all_def world_start_def nn_arena_live_def)
  then show ?thesis using that r f(1) by blast
qed

theorem compile_correct_witness:
  "\<exists>al' l' i w'. arena_init al_all layer_start = Inr (al', l') \<and>
     compileExpr (demo_expr [97]) (world_start al' l') = Inr (i, w') \<and>
     code True (w_layer w') (length (ops_of (w_code w'))) (demo_expr [97]) i"
proof (rule demo_open)
  fix al' l' assume w: "arena_init al_all layer_start = Inr (al', l')" "world_wf (world_start al' l')"
    "plenty (world_start al' l') 1000"
  have "weight (demo_expr [97]) < 2 ^ 32" using demo_expr(2) [of "[97]"] by simp
  from compile_correct [OF w(2) demo_expr(1) this] obtain i w' where
    "compileExpr (demo_expr [97]) (world_start al' l') = Inr (i, w')" "world_wf w'"
    "\<forall>w'' dbg. world_wf w'' \<and> extends w' w'' \<longrightarrow>
       code dbg (w_layer w'') (length (ops_of (w_code w'))) (demo_expr [97]) i"
    using plenty_less [OF w(3)] demo_expr(2) [of "[97]"]
    by (cases "compileExpr (demo_expr [97]) (world_start al' l')") auto
  then show ?thesis using w(1) extends_refl by blast
qed

lemma runs_programs:
  assumes wf: "world_wf w" and e: "\<And>e. e \<in> set es \<Longrightarrow> fits e" and n: "sum_list (map weight es) < 2 ^ 32"
  shows "runs (sum_list (map weight es)) w (io_mapM compileExpr es w) (\<lambda>is w'. held w' (\<lambda>l j. list_all2 (code dbg l j) es is))"
proof (rule runs_held_mapM [OF wf])
  fix x w assume x: "x \<in> set es" "world_wf w"
  then have "weight x < 2 ^ 32" using sum_list_map_member [OF x(1), of weight] n by simp
  then show "runs (weight x) w (compileExpr x w) (\<lambda>i w'. held w' (\<lambda>l j. code dbg l j x i))"
    using runs_compileExpr [OF x(2) e [OF x(1)]] by simp
qed

text \<open>C12: Compiling succeeds. On a layer opened by arenaInit, while every allocation is granted, any sequence of
  expressions that together weigh less than 1.6 * 10^9 is compiled, and afterwards every index is code of its
  expression: later compilations leave the code of earlier ones as it is.\<close>

theorem compile_programs:
  assumes "layer_wf al l" and "al_ok al = (\<lambda>_ _. True)" and "arena_init al l = Inr (al', l')"
    and "\<And>e. e \<in> set es \<Longrightarrow> fits e" and "sum_list (map weight es) < 1600000000"
  shows "\<exists>is w'. io_mapM compileExpr es (world_start al' l') = Inr (is, w') \<and> nn_arena_live (w_layer w') \<and>
    list_all2 (code dbg (w_layer w') (length (ops_of (w_code w')))) es is"
proof -
  let ?w = "world_start al' l'"
  note f = world_fresh [OF assms(1,3)]
  have "plenty ?w (sum_list (map weight es))"
    using f assms(2,5) by (simp add: plenty_def world_start_def nn_arena_live_def)
  moreover have "runs (sum_list (map weight es)) ?w (io_mapM compileExpr es ?w)
      (\<lambda>is w'. held w' (\<lambda>l j. list_all2 (code dbg l j) es is))"
    using f(1) assms(4,5) by (intro runs_programs) simp_all
  moreover have "nn_arena_live (w_layer w')" if "extends ?w w'" for w'
    using extends_live [OF that] f(2) by (simp add: world_start_def)
  ultimately show ?thesis using held_use [OF _ _ extends_refl order.refl]
    by (auto simp: runs_def split: sum.splits)
qed

theorem compile_programs_witness:
  "\<exists>al' l' is w'. arena_init al_all layer_start = Inr (al', l') \<and>
     io_mapM compileExpr [demo_expr [97], ELit NixNull] (world_start al' l') = Inr (is, w') \<and>
     list_all2 (code True (w_layer w') (length (ops_of (w_code w')))) [demo_expr [97], ELit NixNull] is"
proof (rule demo_open)
  fix al' l' assume r: "arena_init al_all layer_start = Inr (al', l')"
  have wf: "layer_wf al_all layer_start" by (rule layer_start_wf) (simp add: al_all_def)
  have ok: "al_ok al_all = (\<lambda>_ _. True)" by (simp add: al_all_def)
  have "fits e" if "e \<in> set [demo_expr [97], ELit NixNull]" for e using that demo_expr(1) [of "[97]"] by auto
  moreover have "sum_list (map weight [demo_expr [97], ELit NixNull]) < 1600000000" using demo_expr(2) [of "[97]"] by simp
  ultimately show ?thesis using compile_programs [OF wf ok r, of "[demo_expr [97], ELit NixNull]" True] r by blast
qed

subsection \<open>Formals of a closure\<close>

lemma runs_one_formal:
  assumes wf: "world_wf w" and f: "formal_fits f" "formal_weight f < 2 ^ 32"
  shows "runs (formal_weight f) w (compileOneFormal f w) (\<lambda>ef w'. held w' (\<lambda>l j. formal_code dbg l j f ef))"
proof -
  obtain x d where fd: "f = Formal x d" by (cases f)
  show ?thesis
  proof (cases d)
    case None
    then show ?thesis using wf by (simp add: fd compileOneFormal_def io_bind_def io_return_def runs_def held_const)
  next
    case (Some e)
    have "runs (formal_weight f) w (io_bind (io_bind (compileExpr e) (\<lambda>i. io_return (Some i))) (\<lambda>d. io_return (EvalFormal x d)) w)
        (\<lambda>ef w'. held w' (\<lambda>l j. formal_code dbg l j f ef))"
    proof (rule runs_step [where n = "weight e" and Q = "\<lambda>v w'. \<exists>i. v = Some i \<and> held w' (\<lambda>l j. code dbg l j e i)"])
      show "runs (weight e) w (io_bind (compileExpr e) (\<lambda>i. io_return (Some i)) w)
          (\<lambda>v w'. \<exists>i. v = Some i \<and> held w' (\<lambda>l j. code dbg l j e i))"
      proof (rule runs_step, rule runs_compileExpr [where dbg = dbg, OF wf])
        fix i w1 assume "world_wf w1" "held w1 (\<lambda>l j. code dbg l j e i)"
        then show "runs (weight e - weight e) w1 (io_return (Some i) w1) (\<lambda>v w'. \<exists>i. v = Some i \<and> held w' (\<lambda>l j. code dbg l j e i))"
          by (intro runs_return) blast+
      qed (use f in \<open>simp_all add: fd Some\<close>)
      fix v w1 assume "world_wf w1" "\<exists>i. v = Some i \<and> held w1 (\<lambda>l j. code dbg l j e i)"
      then show "runs (formal_weight f - weight e) w1 (io_return (EvalFormal x v) w1) (\<lambda>ef w'. held w' (\<lambda>l j. formal_code dbg l j f ef))"
        by (intro runs_return) (auto simp: fd Some elim!: held_mono)
    qed (simp add: fd Some)
    then show ?thesis by (simp add: fd compileOneFormal_def Some)
  qed
qed

lemma runs_formals_to_eval:
  assumes wf: "world_wf w" and f: "formals_fits fs" "formals_weight fs < 2 ^ 32"
  shows "runs (formals_weight fs) w (compileFormalsToEval fs w) (\<lambda>efs w'. held w' (\<lambda>l j. formals_code dbg l j fs efs))"
proof -
  have m: "runs (sum_list (map formal_weight gs)) w (io_mapM compileOneFormal gs w) (\<lambda>efs w'. held w' (\<lambda>l j. list_all2 (formal_code dbg l j) gs efs))"
    if "list_all formal_fits gs" "sum_list (map formal_weight gs) < 2 ^ 32" for gs
  proof (rule runs_held_mapM [OF wf])
    fix x w assume x: "x \<in> set gs" "world_wf w"
    then have "formal_weight x < 2 ^ 32" using member_weights(5) [OF x(1)] that(2) by simp
    then show "runs (formal_weight x) w (compileOneFormal x w) (\<lambda>ef w'. held w' (\<lambda>l j. formal_code dbg l j x ef))"
      using runs_one_formal [OF x(2)] that(1) x(1) by (simp add: list_all_iff)
  qed
  show ?thesis
  proof (cases fs)
    case (FormalName x)
    then show ?thesis using wf by (simp add: compileFormalsToEval_def runs_return held_const)
  next
    case (FormalSet gs el)
    have "runs (formals_weight fs) w (io_bind (io_mapM compileOneFormal gs) (\<lambda>efs. io_return (EFSet efs el)) w)
        (\<lambda>efs w'. held w' (\<lambda>l j. formals_code dbg l j fs efs))"
      by (rule runs_step, rule m) (use f in \<open>auto simp: FormalSet intro!: runs_return elim!: held_mono\<close>)
    then show ?thesis by (simp add: compileFormalsToEval_def FormalSet)
  next
    case (FormalNamedSet x gs el)
    have "runs (formals_weight fs) w (io_bind (io_mapM compileOneFormal gs) (\<lambda>efs. io_return (EFNamedSet x efs el)) w)
        (\<lambda>efs w'. held w' (\<lambda>l j. formals_code dbg l j fs efs))"
      by (rule runs_step, rule m) (use f in \<open>auto simp: FormalNamedSet intro!: runs_return elim!: held_mono\<close>)
    then show ?thesis by (simp add: compileFormalsToEval_def FormalNamedSet)
  qed
qed

subsection \<open>The code determines the expression\<close>


definition demo_let :: "u8 list \<Rightarrow> expr" where
  "demo_let label = ELet [NamedBinding (demo_text label) (StaticKey [120]) (ELit NixNull)] (EVar [120]) NoCaptureInfo"

lemma demo_let_code: "code dbg l j (demo_let [97]) i = code dbg l j (demo_let [98]) i"
proof -
  have "binding_code dbg l j (NamedBinding (demo_text [97]) k e) v = binding_code dbg l j (NamedBinding (demo_text [98]) k e) v"
    for j k e v by (cases v) (simp_all add: demo_text_def)
  then have "binding_code dbg l j (NamedBinding (demo_text [97]) k e) = binding_code dbg l j (NamedBinding (demo_text [98]) k e)"
    for j k e by blast
  then show ?thesis by (simp add: demo_let_def list_all2_Cons1 del: binding_code.simps)
qed


subsection \<open>Positions and counts\<close>

text \<open>A recorded position reads back. The word that recordPos answers gives, through lookupPos and in every later
  world, the path, line and column that were recorded, or no position when the line or column does not fit 32 bits
  (or is negative); the recorder's one-file memo never answers the symbol of another file.\<close>

theorem position_roundtrip:
  assumes "world_wf w" and "pos_weight p < 2 ^ 32"
  shows "case recordPos p w of
      Inl err \<Rightarrow> refused w err \<and> \<not> plenty w (pos_weight p)
    | Inr (v, w') \<Rightarrow> world_wf w' \<and> extends w w' \<and>
        (\<forall>w'' dbg. world_wf w'' \<and> extends w' w'' \<longrightarrow> lookupPos dbg (w_layer w'') v = Inr (recorded p))"
proof (cases "recordPos p w")
  case (Inl err)
  then show ?thesis using runs_recordPos [OF assms, of True] by (simp add: runs_def)
next
  case (Inr r)
  then obtain v w' where r: "recordPos p w = Inr (v, w')" by (cases r) simp
  have "lookupPos dbg (w_layer w'') v = Inr (recorded p)" if "world_wf w''" "extends w' w''" for w'' dbg
  proof -
    have "held w' (\<lambda>l j. lookupPos dbg l v = Inr (recorded p))"
      using runs_recordPos [OF assms, of dbg] r by (simp add: runs_def)
    from held_use [OF this that order.refl] show ?thesis .
  qed
  then show ?thesis using runs_recordPos [OF assms, of True] r by (simp add: runs_def)
qed

text \<open>C29: Counts. A count below 65535 stays in the instruction, one up to 2^32 - 1 spills in front of its payload, a
  larger one is an error that names what was counted, with nothing written; the instruction that carries the count
  reads back the count and the payload in every later world.\<close>

theorem counted_payload_reads:
  assumes "world_wf w"
  shows "case emitCounted what n ws w of
      Inl err \<Rightarrow> if n < 2 ^ 32 then refused w err \<and> \<not> plenty w (length ws + 1) else err = CountExceeded what n
    | Inr ((sa, a), w') \<Rightarrow> n < 2 ^ 32 \<and> world_wf w' \<and> extends w w' \<and> (sa = 65535 \<longleftrightarrow> 65535 \<le> n) \<and>
        (\<forall>w'' dbg i opc fl a1 a2 a3. world_wf w'' \<and> extends w' w'' \<and> is_op dbg (w_layer w'') i opc fl sa a1 a2 a3 \<longrightarrow>
          (\<exists>off. cbcCountedPayload dbg (w_code w'') i a = Inr (n, off) \<and> readChildren dbg (w_code w'') (length ws) off = Inr ws))"
proof (cases "n < 2 ^ 32")
  case False
  then show ?thesis by (simp add: emitCounted_def io_bind_def countArg_def io_throw_def)
next
  case True
  note r = runs_emitCounted [OF assms True, of ws what]
  show ?thesis
  proof (cases "emitCounted what n ws w")
    case (Inl err)
    then show ?thesis using r True by (simp add: runs_def)
  next
    case (Inr x)
    then obtain sa a w' where x: "emitCounted what n ws w = Inr ((sa, a), w')" by (cases x) auto
    then have c: "counted (w_layer w') sa a n ws" "world_wf w'" "extends w w'" using r by (simp_all add: runs_def)
    have "n = 65535" if "n < 65535" "(of_nat n :: u16) = 65535"
      using arg_cong [OF that(2), of unat] that(1) by (simp add: unat_of_nat)
    then have "sa = 65535 \<longleftrightarrow> 65535 \<le> n"
      using x by (auto simp: emitCounted_def io_bind_def io_return_def split: if_splits sum.splits)
    moreover have "\<exists>off. cbcCountedPayload dbg (w_code w'') i a = Inr (n, off) \<and> readChildren dbg (w_code w'') (length ws) off = Inr ws"
      if "world_wf w''" "extends w' w''" "is_op dbg (w_layer w'') i opc fl sa a1 a2 a3" for w'' dbg i opc fl a1 a2 a3
      using counted_reads [OF counted_extends [OF that(1,2) c(1)] that(3)] readChildren_words by metis
    ultimately show ?thesis unfolding x using c True by (simp only: sum.case prod.case) blast
  qed
qed

theorem position_roundtrip_witness:
  "\<exists>al' l' v w'. arena_init al_all layer_start = Inr (al', l') \<and>
     recordPos (SrcPos (SourceFile [47, 97]) 3 4294967295) (world_start al' l') = Inr (v, w') \<and>
     lookupPos False (w_layer w') v = Inr (Some (PosInFile [47, 97] 3 4294967295))"
proof (rule demo_open)
  fix al' l' assume w: "arena_init al_all layer_start = Inr (al', l')" "world_wf (world_start al' l')"
    "plenty (world_start al' l') 1000"
  let ?p = "SrcPos (SourceFile [47, 97]) 3 4294967295"
  have "pos_weight ?p < 2 ^ 32" by simp
  from position_roundtrip [OF w(2) this] obtain v w' where "recordPos ?p (world_start al' l') = Inr (v, w')" "world_wf w'"
    "\<forall>w'' dbg. world_wf w'' \<and> extends w' w'' \<longrightarrow> lookupPos dbg (w_layer w'') v = Inr (recorded ?p)"
    using plenty_less [OF w(3)] by (cases "recordPos ?p (world_start al' l')") auto
  moreover have "recorded ?p = Some (PosInFile [47, 97] 3 4294967295)" by simp
  ultimately show ?thesis using w(1) extends_refl by metis
qed

theorem counted_payload_reads_witness:
  "\<exists>al' l' a w'. arena_init al_all layer_start = Inr (al', l') \<and>
     emitCounted ''list with elements'' 65535 [7] (world_start al' l') = Inr ((65535, a), w') \<and> world_wf w' \<and>
     emitCounted ''list with elements'' 4294967296 [7] w' = Inl (CountExceeded ''list with elements'' 4294967296)"
proof (rule demo_open)
  fix al' l' assume w: "arena_init al_all layer_start = Inr (al', l')" "world_wf (world_start al' l')"
    "plenty (world_start al' l') 1000"
  let ?m = "emitCounted ''list with elements''"
  obtain a w' where r: "?m 65535 [7] (world_start al' l') = Inr ((65535, a), w')" "world_wf w'"
    using counted_payload_reads [OF w(2), where what = "''list with elements''" and n = 65535 and ws = "[7]"] plenty_less [OF w(3), of "Suc (Suc 0)"]
    by (cases "?m 65535 [7] (world_start al' l')") auto
  have "?m 4294967296 [7] w' = Inl (CountExceeded ''list with elements'' 4294967296)"
    using counted_payload_reads [OF r(2), where what = "''list with elements''" and n = 4294967296 and ws = "[7]"]
    by (cases "?m 4294967296 [7] w'") auto
  then show ?thesis using w(1) r by blast
qed

end
