(* ===== verification/Nova_Frontend.thy ===== *)
theory Nova_Frontend
  imports Nova_Paths Nova_Captures Nova_Compiler
begin

section \<open>From a parsed expression to one that is evaluated\<close>

text \<open>The three passes as \<open>parseNixWithScope\<close> runs them (src/src/Nix/Parser.hs), and what they promise together.\<close>

definition bind_and_trim ::
  "(hs_text \<Rightarrow> bool) \<Rightarrow> (hs_text \<Rightarrow> hs_text \<Rightarrow> hs_text) \<Rightarrow> hs_text set \<Rightarrow> hs_text \<Rightarrow> expr \<Rightarrow> hs_text + expr" where
  "bind_and_trim rel joinIn scope baseDir e = (case resolveVars scope e of
     Inl x \<Rightarrow> Inl x
   | Inr resolved \<Rightarrow> Inr (resolveRelativePaths rel joinIn baseDir (trimClosures resolved)))"

definition global_scope :: "hs_text set \<Rightarrow> 'v scope" where
  "global_scope G = (\<lambda>x. if x \<in> G then Some AtRuntime else None)"

lemma bind_and_trim_Inr:
  "bind_and_trim rel joinIn G dir e = Inr e' \<longleftrightarrow>
     (\<exists>r. resolve [NameBarrier G] e = Inr r \<and> e' = goExpr rel (joinIn dir) (trimExpr r))"
  by (auto simp: bind_and_trim_def resolveVars_def resolveRelativePaths_def trimClosures_def split: sum.splits)

lemma scope_of_globals: "scope_of dangling [NameBarrier G] ss = global_scope G"
  by (simp add: fun_eq_iff global_scope_def)

lemma resolved_fresh: "resolve st e = Inr r \<Longrightarrow> fresh r"
  using resolution_keepsD [where S = "undefined :: (unit, unit, unit, unit, unit) semantics"] by blast

text \<open>C1: Binding the variables, trimming the closures and making the paths absolute keep the meaning. Whatever the nodes
  of the language do (any evaluator, lazy or strict, in any monad), the expression that is handed to the evaluator
  means in every environment what the source means under static scoping, where a name stands for the value that the
  nearest enclosing lambda, let or recursive set binds to it (the last of two equal names), a global otherwise, and a
  with-variable only under a with when neither binds it; and where the path literals are absolute. In particular
  every level and slot, and every capture of a trimmed closure, is the right one.\<close>

theorem passes_keep_meaning:
  assumes "bind_and_trim rel joinIn G dir e = Inr e'"
  shows "den S e' env = nden (in_directory rel (joinIn dir) S) (global_scope G) False e env"
proof -
  obtain r where r: "resolve [NameBarrier G] e = Inr r" "e' = goExpr rel (joinIn dir) (trimExpr r)"
    using assms by (auto simp: bind_and_trim_Inr)
  let ?S = "in_directory rel (joinIn dir) S"
  have "den S e' env = den ?S (trimExpr r) env" by (simp only: r(2) paths_keepD)
  also have "\<dots> = den ?S r env" using trimming_keeps(1) resolved_fresh [OF r(1)] by blast
  also have "\<dots> = nden ?S (scope_of (sem_dangling ?S) [NameBarrier G] (vw_slots env)) (WithBarrier \<in> set [NameBarrier G]) e env"
    using resolution_keepsD [OF r(1), where S = ?S] by blast
  finally show ?thesis by (simp add: scope_of_globals del: scope_of.simps)
qed

text \<open>C4: Undefined variables. The passes fail exactly when some variable is bound by no scope and no global and no with
  encloses it (and is not the exempt __curPos), and then with the first such name of the walk: a scope's bindings
  before its body, an inherited variable in the scope around.\<close>

theorem undefined_variable_reported:
  "case unbound G False e of
     [] \<Rightarrow> \<exists>e'. bind_and_trim rel joinIn G dir e = Inr e'
   | x # _ \<Rightarrow> bind_and_trim rel joinIn G dir e = Inl x"
proof -
  have "fails_at (unbound G False e) (resolve [NameBarrier G] e)"
    using resolution_failsD [of "[NameBarrier G]" e] by simp
  then show ?thesis
    by (auto simp: fails_at_def bind_and_trim_def resolveVars_def split: list.splits sum.splits)
qed

text \<open>C3: Slots stay in their frames. What the passes make of an expression with names is well-typed in the frames:
  every level is one of the enclosing scopes', every slot is one its frame has, every captured coordinate is in the
  frames around the closure, and under a closure with captures nothing refers past the captured slots. Reading them
  through nn_env_slot_get is never out of bounds.\<close>

theorem slots_in_frames:
  assumes "named e" and "bind_and_trim rel joinIn G dir e = Inr e'"
  shows "scoped [n] e'"
proof -
  obtain r where r: "resolve [NameBarrier G] e = Inr r" "e' = goExpr rel (joinIn dir) (trimExpr r)"
    using assms by (auto simp: bind_and_trim_Inr)
  have "scoped [n] r" by (rule resolution_scopedD [OF assms(1) _ r(1)]) simp
  then have "scoped [n] (trimExpr r)" using trimming_scoped(1) resolved_fresh [OF r(1)] by blast
  then show ?thesis by (simp add: r(2))
qed

text \<open>C2: Trimmed closures keep exactly what they use. A lambda, a let or a recursive set that is given captures gets the
  outer slots that the source of its parts uses, in ascending order, each once, and nothing else, with the
  with-scopes exactly when a name is looked up there; it is left without captures only when it uses no outer slot and
  no with-scope or looks a name up through the whole chain. After the pass every scope with captures, at any depth,
  refers to nothing past them, and the free variables that an enclosing scope sees are unchanged.\<close>

theorem captures_exact:
  assumes "fresh e"
  shows "trimmed (trimClosures e) \<and> (\<forall>d. collectFreeVars d (trimClosures e) = collectFreeVars d e) \<and>
    (case e of
       ELambda fs b _ \<Rightarrow> \<exists>fs' b' ci. trimClosures e = ELambda fs' b' ci \<and>
         keeps_what_it_uses (join_free (foldFormalsDefaults 0 fs) (collectFreeVars 0 b)) ci
     | ELet bs b _ \<Rightarrow> \<exists>bs' b' ci. trimClosures e = ELet bs' b' ci \<and>
         keeps_what_it_uses (join_free (foldFree (collectBinding 0 None) bs) (collectFreeVars 0 b)) ci
     | EAttrs True bs _ \<Rightarrow> \<exists>bs' ci. trimClosures e = EAttrs True bs' ci \<and>
         keeps_what_it_uses (foldFree (collectBinding 0 None) bs) ci
     | _ \<Rightarrow> True)"
proof (intro conjI)
  show "trimmed (trimClosures e)" using assms by (simp add: trimClosures_def)
  show "\<forall>d. collectFreeVars d (trimClosures e) = collectFreeVars d e"
    using assms trimming_free(1) by (simp add: trimClosures_def)
  have lambda: "\<exists>fs' b' ci. trimExpr (ELambda fs b c) = ELambda fs' b' ci \<and>
      keeps_what_it_uses (join_free (foldFormalsDefaults 0 fs) (collectFreeVars 0 b)) ci" if "fresh (ELambda fs b c)" for fs b c
    using that trimming_free(1) [of b] trimming_free(6) [of fs] trimOne_keeps(1,2) [of "trimFormals fs" "trimExpr b"]
    by (cases "trimOneLambda (trimFormals fs) (trimExpr b)") (auto simp: Let_def)
  have let_: "\<exists>bs' b' ci. trimExpr (ELet bs b c) = ELet bs' b' ci \<and>
      keeps_what_it_uses (join_free (foldFree (collectBinding 0 None) bs) (collectFreeVars 0 b)) ci" if "fresh (ELet bs b c)" for bs b c
    using that trimming_free(1) [of b] trimmed_bindings_free [of bs 0 None] trimOne_keeps(3,4) [of "map trimBinding bs" "trimExpr b"]
    by (cases "trimOneLetBlock (map trimBinding bs) (trimExpr b)") (auto simp: Let_def)
  have rec: "\<exists>bs' ci. trimExpr (EAttrs True bs c) = EAttrs True bs' ci \<and>
      keeps_what_it_uses (foldFree (collectBinding 0 None) bs) ci" if "fresh (EAttrs True bs c)" for bs c
    using that trimmed_bindings_free [of bs 0 None] trimOne_keeps(5,6) [of "map trimBinding bs"]
    by (cases "trimOneRecAttrs (map trimBinding bs)") (auto simp: Let_def)
  show "case e of
       ELambda fs b _ \<Rightarrow> \<exists>fs' b' ci. trimClosures e = ELambda fs' b' ci \<and>
         keeps_what_it_uses (join_free (foldFormalsDefaults 0 fs) (collectFreeVars 0 b)) ci
     | ELet bs b _ \<Rightarrow> \<exists>bs' b' ci. trimClosures e = ELet bs' b' ci \<and>
         keeps_what_it_uses (join_free (foldFree (collectBinding 0 None) bs) (collectFreeVars 0 b)) ci
     | EAttrs True bs _ \<Rightarrow> \<exists>bs' ci. trimClosures e = EAttrs True bs' ci \<and>
         keeps_what_it_uses (foldFree (collectBinding 0 None) bs) ci
     | _ \<Rightarrow> True"
  proof (cases e)
    case (EAttrs r bs ci)
    then show ?thesis using assms rec [of bs ci] by (cases r) (simp_all add: trimClosures_def)
  next
    case (ELambda fs b ci)
    then show ?thesis using assms lambda [of fs b ci] by (simp only: expr.case trimClosures_def)
  next
    case (ELet bs b ci)
    then show ?thesis using assms let_ [of bs b ci] by (simp only: expr.case trimClosures_def)
  qed simp_all
qed

subsection \<open>An example\<close>

text \<open>\<open>o: x: [ o x ./p ]\<close> under \<open>/d\<close>: the inner closure keeps the one slot it uses.\<close>

definition demo_source :: expr where
  "demo_source = ELambda (FormalName [111])
     (ELambda (FormalName [120]) (EList [EVar [111], EVar [120], ELit (NixPath [112])]) NoCaptureInfo) NoCaptureInfo"

definition demo_bound :: expr where
  "demo_bound = ELambda (FormalName [111])
     (ELambda (FormalName [120]) (EList [EResolvedVar 1 0, EResolvedVar 0 0, ELit (NixPath [47, 100, 47, 112])])
       (Captures [(0, 0)])) NoCaptureInfo"

abbreviation demo_rel :: "hs_text \<Rightarrow> bool" where "demo_rel p \<equiv> take 1 p \<noteq> [47]"

abbreviation demo_join :: "hs_text \<Rightarrow> hs_text \<Rightarrow> hs_text" where "demo_join dir p \<equiv> dir @ [47] @ p"

lemma demo_passes: "bind_and_trim demo_rel demo_join {} [47, 100] demo_source = Inr demo_bound"
  by (simp add: bind_and_trim_Inr demo_source_def demo_bound_def Let_def resolveVar_def apE_def fmapE_def trimOneLambda_def
      foldFree_def join_free_def capturesFree_def capture_list_def capture_map_of_def capture_info_of_def homeRelative_def del: traverseE_Inr)

theorem passes_keep_meaning_witness:
  "bind_and_trim demo_rel demo_join {} [47, 100] demo_source = Inr demo_bound \<and>
   (\<forall>(S :: (nat, nat, nat, nat, nat) semantics) env.
      den S demo_bound env = nden (in_directory demo_rel (demo_join [47, 100]) S) (global_scope {}) False demo_source env)"
  using demo_passes passes_keep_meaning [OF demo_passes] by blast

theorem slots_in_frames_witness: "scoped [0] demo_bound \<and> \<not> scoped [] (EResolvedVar 0 0)"
  using slots_in_frames [OF _ demo_passes] by (simp add: demo_source_def in_frames_def)

theorem captures_exact_witness:
  "trimClosures (ELambda (FormalName [120]) (EList [EResolvedVar 1 0, EResolvedVar 0 0, EResolvedVar 1 0]) NoCaptureInfo) =
     ELambda (FormalName [120]) (EList [EResolvedVar 1 0, EResolvedVar 0 0, EResolvedVar 1 0]) (Captures [(0, 0)]) \<and>
   (\<exists>fs' b' ci. trimClosures (ELambda (FormalName [120]) (EList [EResolvedVar 1 0, EResolvedVar 0 0, EResolvedVar 1 0]) NoCaptureInfo) =
      ELambda fs' b' ci \<and> keeps_what_it_uses ({(0, 0)}, False, False) ci)"
proof -
  let ?e = "ELambda (FormalName [120]) (EList [EResolvedVar 1 0, EResolvedVar 0 0, EResolvedVar 1 0]) NoCaptureInfo"
  have "fresh ?e" by simp
  from captures_exact [OF this] have "\<exists>fs' b' ci. trimClosures ?e = ELambda fs' b' ci \<and>
      keeps_what_it_uses (join_free (foldFormalsDefaults 0 (FormalName [120]))
        (collectFreeVars 0 (EList [EResolvedVar 1 0, EResolvedVar 0 0, EResolvedVar 1 0]))) ci"
    by (simp only: expr.case)
  moreover have "join_free (foldFormalsDefaults 0 (FormalName [120]))
      (collectFreeVars 0 (EList [EResolvedVar 1 0, EResolvedVar 0 0, EResolvedVar 1 0])) = ({(0, 0)}, False, False)"
    by (simp add: foldFree_def join_free_def)
  moreover have "trimClosures ?e = ELambda (FormalName [120]) (EList [EResolvedVar 1 0, EResolvedVar 0 0, EResolvedVar 1 0]) (Captures [(0, 0)])"
    by (simp add: trimClosures_def Let_def trimOneLambda_def foldFree_def join_free_def capture_list_def capture_map_of_def capture_info_of_def)
  ultimately show ?thesis by simp
qed

end
