(* ===== verification/Nova_Runtime.thy ===== *)
theory Nova_Runtime
  imports Nova_Frames_Spec Nova_Frontend
begin

section \<open>What resolution assumes of the evaluator\<close>

text \<open>The frames that Eval.hs lays out are the ones that Resolve.hs numbers.\<close>

text \<open>The text of a symbol, where it has one.\<close>

definition text_of :: "data_layer \<Rightarrow> u32 \<Rightarrow> hs_text" where
  "text_of l sid = (case symbolText (dl_symbols l) sid of Inl _ \<Rightarrow> [] | Inr x \<Rightarrow> x)"

lemma text_of_names: "names l sid x \<Longrightarrow> text_of l sid = x"
  by (simp add: text_of_def names_text)

text \<open>C5: The frame of a let or a recursive set. For the decoded bindings of some source bindings the evaluator takes
  the positional path exactly when resolution numbered the names; it then makes one slot for each name, in
  each slot the thunk of that binding (an inherited variable's in the environment around, the names of one inherit
  (from) over one shared thunk), and an attribute of the set is the very thunk in the slot that resolution gave the
  name. Otherwise the name table it makes holds exactly the names that resolution left to the run time.\<close>

theorem frame_agrees:
  fixes recEnv outerEnv :: 'e
  assumes "list_all2 (binding_code dbg l j) bs vs"
  defines "ts \<equiv> buildBcSlotThunks recEnv outerEnv vs"
  shows "allBcPositional vs = allStaticSingleKey bs \<and>
    set (bcBindingStaticKeys (text_of l) vs) = collectBindingNames bs \<and>
    (if allStaticSingleKey bs
     then bcBindingSlotCount vs = length ts \<and> length ts = scope_size bs \<and>
       (\<exists>tss. ts = concat tss \<and> list_all2 (slots_mean dbg l j recEnv outerEnv) bs tss) \<and>
       (\<exists>ps m. length ps = length ts \<and> scope_of_bindings bs = LexicalScope m \<and>
         (\<forall>x. buildBcEntryMapFromSlots (text_of l) vs ts x = map_option (\<lambda>i. (ps ! i, ts ! i)) (m x)))
     else scope_of_bindings bs = NameBarrier (set (bcBindingStaticKeys (text_of l) vs)))"
proof -
  note n = decoded_names [OF assms(1), where tx = "text_of l", OF text_of_names]
  have "length ts = length (concat (map bindingNames bs))" using thunks_length [of recEnv outerEnv vs "text_of l"] n(2) by (simp add: ts_def)
  moreover have "length (concat (map slot_positions vs)) = length ts"
    using positions_length [of vs "text_of l"] thunks_length [of recEnv outerEnv vs "text_of l"] by (simp add: ts_def)
  moreover have "\<exists>ps m. length ps = length ts \<and> scope_of_bindings bs = LexicalScope m \<and>
      (\<forall>x. buildBcEntryMapFromSlots (text_of l) vs ts x = map_option (\<lambda>i. (ps ! i, ts ! i)) (m x))"
    if "allStaticSingleKey bs" and "length (concat (map slot_positions vs)) = length ts"
    using that decoded_entries [OF assms(1) text_of_names that(1) ts_def [THEN meta_eq_to_obj_eq]]
    by (intro exI [of _ "concat (map slot_positions vs)"] exI [of _ "numbered 0 (concat (map bindingNames bs))"])
      (simp add: scope_of_bindings_def lexicalScopeFromBindings_def)
  ultimately show ?thesis
    using n slot_count [of vs "text_of l"] decoded_thunks [OF assms(1), of recEnv outerEnv]
    by (simp add: collectBindingNames_eq scope_size_def allStaticSingleKey_def scope_of_bindings_def ts_def del: length_concat)
qed

lemma call_frame_set:
  assumes "list_all2 (formal_code dbg l j) gs efs"
  shows "case matchFormalSet efs el argVal at of
      Inr slots \<Rightarrow> \<exists>attrs rest. argVal = Some attrs \<and> slots = (case at of None \<Rightarrow> rest | Some t \<Rightarrow> Given t # rest) \<and>
        list_all2 (formal_slot_means dbg l j attrs) gs rest \<and> (el \<or> set (map fst attrs) \<subseteq> set (map fName gs))
    | Inl e \<Rightarrow> (case e of
        NotASet \<Rightarrow> argVal = None
      | UnexpectedAttribute k \<Rightarrow> \<not> el \<and> k \<notin> set (map fName gs) \<and> (\<exists>attrs. argVal = Some attrs \<and> k \<in> set (map fst attrs))
      | MissingAttributes ks \<Rightarrow> ks \<noteq> [] \<and> (\<exists>attrs. argVal = Some attrs \<and>
          set ks = {x. Formal x None \<in> set gs \<and> map_of attrs x = None}))"
proof (cases argVal)
  case None
  then show ?thesis by (simp add: matchFormalSet_def)
next
  case (Some attrs)
  note n = code_names [OF assms]
  show ?thesis
  proof (cases "checkExtraKeys efs el attrs")
    case (Inl e)
    then obtain k ks where e: "e = UnexpectedAttribute k" "\<not> el" "filter (\<lambda>k. k \<notin> set (map efName efs)) (map fst attrs) = k # ks"
      by (auto simp: checkExtraKeys_def split: if_splits list.splits)
    then have "k \<in> set (filter (\<lambda>k. k \<notin> set (map efName efs)) (map fst attrs))" by (simp only: list.set_intros)
    then have "k \<in> set (map fst attrs)" "k \<notin> set (map fName gs)" by (simp_all add: n [symmetric])
    note e(1,2) this
    then show ?thesis using Inl Some by (simp add: matchFormalSet_def)
  next
    case (Inr u)
    then have extra: "el \<or> set (map fst attrs) \<subseteq> set (map fName gs)"
      by (auto simp: checkExtraKeys_def filter_empty_conv n [symmetric] split: if_splits list.splits)
    show ?thesis
    proof (cases "checkMissingFormals attrs efs")
      case (Inl e)
      have "\<exists>ef \<in> set efs. efName ef = x \<and> efDefault ef = None" if "Formal x None \<in> set gs" for x
        using assms that
      proof (induction rule: list_all2_induct)
        case (Cons g gs ef efs)
        then show ?case by (cases ef) auto
      qed simp
      moreover have "Formal (efName ef) None \<in> set gs" if "ef \<in> set efs" "efDefault ef = None" for ef
        using assms that
      proof (induction rule: list_all2_induct)
        case (Cons g gs ef' efs)
        then show ?case by (cases g; cases ef') (auto split: option.splits)
      qed simp
      ultimately have "efName ` {f \<in> set efs. efDefault f = None \<and> map_of attrs (efName f) = None} =
          {x. Formal x None \<in> set gs \<and> map_of attrs x = None}" by fastforce
      moreover obtain ks where "e = MissingAttributes ks" "ks \<noteq> []"
        "ks = map efName (filter (\<lambda>f. efDefault f = None \<and> map_of attrs (efName f) = None) efs)"
        using Inl by (auto simp: checkMissingFormals_def split: list.splits)
      ultimately show ?thesis using Inl Inr Some by (simp add: matchFormalSet_def)
    next
      case (Inr u')
      then show ?thesis
        using \<open>checkExtraKeys efs el attrs = Inr u\<close> Some extra formal_slots [OF assms, of attrs]
        by (auto simp: matchFormalSet_def split: option.splits)
    qed
  qed
qed

lemma reachable: "list_all2 (formal_slot_means dbg l j attrs) gs slots \<Longrightarrow> Unreachable \<notin> set slots"
  by (induction rule: list_all2_induct) (auto simp: formal_slot_means_def split: option.splits)

text \<open>C6: The frame of a call. A call with decoded formals fails when the argument is no set, has an attribute that no
  formal names (and there is no ellipsis), or lacks one that has no default, with the first extra attribute or all the
  missing ones; otherwise the frame has a slot for each name that resolution numbered, in its order: the argument
  itself for a plain name or an @-name, and for each formal the argument's attribute or, when it has none, the
  formal's own default. The error for a formal with neither is never reached.\<close>

theorem call_frame_agrees:
  assumes "formals_code dbg l j fs efs"
  shows "lexicalScopeFromFormals fs = LexicalScope (numbered 0 (formals_names fs)) \<and>
    (case matchFormals efs arg force of
       Inr slots \<Rightarrow> length slots = length (formals_names fs) \<and> Unreachable \<notin> set slots \<and>
         (case fs of
            FormalName x \<Rightarrow> slots = [Given arg]
          | FormalSet gs el \<Rightarrow> \<exists>attrs. force arg = Some attrs \<and> list_all2 (formal_slot_means dbg l j attrs) gs slots \<and>
              (el \<or> set (map fst attrs) \<subseteq> set (formals_names fs))
          | FormalNamedSet x gs el \<Rightarrow> \<exists>attrs rest. force arg = Some attrs \<and> slots = Given arg # rest \<and>
              list_all2 (formal_slot_means dbg l j attrs) gs rest \<and> (el \<or> set (map fst attrs) \<subseteq> set (map fName gs)))
     | Inl e \<Rightarrow> (\<exists>gs el. (fs = FormalSet gs el \<or> (\<exists>x. fs = FormalNamedSet x gs el)) \<and>
         (case e of
            NotASet \<Rightarrow> force arg = None
          | UnexpectedAttribute k \<Rightarrow> \<not> el \<and> k \<notin> set (map fName gs) \<and> (\<exists>attrs. force arg = Some attrs \<and> k \<in> set (map fst attrs))
          | MissingAttributes ks \<Rightarrow> ks \<noteq> [] \<and> (\<exists>attrs. force arg = Some attrs \<and>
              set ks = {x. Formal x None \<in> set gs \<and> map_of attrs x = None}))))"
proof (cases fs)
  case (FormalName x)
  then obtain y where "efs = EFName y" using assms by (cases efs) auto
  then show ?thesis using FormalName by (simp add: formals_numbered)
next
  case (FormalSet gs el)
  then obtain es where e: "efs = EFSet es el" "list_all2 (formal_code dbg l j) gs es" using assms by (cases efs) auto
  show ?thesis
    using call_frame_set [OF e(2), of el "force arg" None] reachable [of dbg l j _ gs]
    by (auto simp: FormalSet e(1) formals_numbered split: sum.splits match_error.splits dest: list_all2_lengthD)
next
  case (FormalNamedSet x gs el)
  then obtain y es where e: "efs = EFNamedSet y es el" "list_all2 (formal_code dbg l j) gs es" using assms by (cases efs) auto
  show ?thesis
    using call_frame_set [OF e(2), of el "force arg" "Some arg"]
    by (auto simp: FormalNamedSet e(1) formals_numbered split: sum.splits match_error.splits dest: reachable list_all2_lengthD)
qed

subsection \<open>Examples\<close>

text \<open>\<open>let x = null; inherit y; in x\<close>.\<close>

definition demo_frame :: "binding list" where
  "demo_frame = [NamedBinding (demo_text [97]) (StaticKey [120]) (ELit NixNull), Inherit (demo_text [97]) [121] (EVar [121])]"

theorem frame_agrees_witness:
  "\<exists>l j vs p q. list_all2 (binding_code True l j) demo_frame vs \<and>
     allBcPositional vs \<and> bcBindingSlotCount vs = 2 \<and> length (buildBcSlotThunks True False vs) = 2 \<and>
     buildBcEntryMapFromSlots (text_of l) vs (buildBcSlotThunks True False vs) [121] = Some (p, buildBcSlotThunks True False vs ! 1) \<and>
     buildBcSlotThunks True False vs ! 1 = CheapThunkBc False q"
proof (rule demo_open)
  let ?e = "ELet demo_frame (EVar [120]) NoCaptureInfo"
  fix al' l' assume w: "world_wf (world_start al' l')" "plenty (world_start al' l') 1000"
  have small: "fits ?e" "weight ?e < 2 ^ 32" "weight ?e \<le> 1000"
    by (simp_all add: demo_frame_def demo_text_def)
  obtain i w' where "code True (w_layer w') (length (ops_of (w_code w'))) ?e i"
    using compile_some [OF w(1) small(1,2) plenty_less [OF w(2) small(3)]] by blast
  then obtain vs where vs: "list_all2 (binding_code True (w_layer w') (unat i)) demo_frame vs" by auto
  let ?ts = "buildBcSlotThunks True False vs"
  have st: "allStaticSingleKey demo_frame" "scope_size demo_frame = 2" "scope_of_bindings demo_frame = LexicalScope (numbered 0 [[120], [121]])"
    by (simp_all add: demo_frame_def allStaticSingleKey_def scope_size_def scope_of_bindings_def lexicalScopeFromBindings_def)
  note fa = frame_agrees [OF vs, of True False, unfolded st(1) [THEN eqTrueI] if_True]
  note fb = conjunct2 [OF conjunct2 [OF fa]]
  have f: "allBcPositional vs" "bcBindingSlotCount vs = 2" "length ?ts = 2"
    using conjunct1 [OF fa] conjunct1 [OF fb] conjunct1 [OF conjunct2 [OF fb]] st(2) by simp_all
  have "\<exists>ps m. length ps = length ?ts \<and> scope_of_bindings demo_frame = LexicalScope m \<and>
      (\<forall>x. buildBcEntryMapFromSlots (text_of (w_layer w')) vs ?ts x = map_option (\<lambda>i. (ps ! i, ?ts ! i)) (m x))"
    by (rule conjunct2 [OF conjunct2 [OF conjunct2 [OF fb]]])
  then obtain ps where "buildBcEntryMapFromSlots (text_of (w_layer w')) vs ?ts [121] =
      map_option (\<lambda>i. (ps ! i, ?ts ! i)) (numbered 0 [[120], [121]] [121])"
    unfolding st(3) by auto
  moreover have "numbered 0 [[120], [121]] [121] = Some 1" by (simp add: numbered_def)
  ultimately have "buildBcEntryMapFromSlots (text_of (w_layer w')) vs ?ts [121] = Some (ps ! 1, ?ts ! 1)" by simp
  moreover obtain q where "?ts ! 1 = CheapThunkBc False q"
  proof -
    obtain a b where ab: "vs = [a, b]" "binding_code True (w_layer w') (unat i) (Inherit (demo_text [97]) [121] (EVar [121])) b"
      "binding_code True (w_layer w') (unat i) (NamedBinding (demo_text [97]) (StaticKey [120]) (ELit NixNull)) a"
      using vs by (auto simp: demo_frame_def list_all2_Cons1)
    then obtain p kv v p' sid v' where "a = BcNamed p kv v" "b = BcInherit p' sid v'" by (cases a; cases b) auto
    moreover obtain s where "kv = BcStaticKey s" using ab(3) calculation(1) by (cases kv) auto
    ultimately have "?ts ! 1 = CheapThunkBc False v'" by (simp add: ab(1) buildBcSlotThunks_def)
    then show ?thesis by (rule that)
  qed
  ultimately show ?thesis using vs f(1-3) by blast
qed

theorem call_frame_agrees_witness:
  "(case matchFormals (EFSet [EvalFormal [120] None] False) (7 :: nat) (\<lambda>_. Some [([120], 5)]) of
      Inr slots \<Rightarrow> length slots = 1 \<and> slots = [Given 5] | Inl _ \<Rightarrow> False) \<and>
   matchFormals (EFSet [EvalFormal [120] None] False) (7 :: nat) (\<lambda>_. Some [([121], 5)]) = Inl (UnexpectedAttribute [121])"
proof -
  have c: "formals_code True layer_start 0 (FormalSet [Formal [120] None] False) (EFSet [EvalFormal [120] None] False)" by simp
  have m: "matchFormals (EFSet [EvalFormal [120] None] False) (7 :: nat) (\<lambda>_. Some [([120], 5)]) = Inr [Given 5]"
    by (simp add: matchFormalSet_def checkExtraKeys_def checkMissingFormals_def resolveOneFormal_def)
  have "length [Given (5 :: nat)] = length (formals_names (FormalSet [Formal [120] None] False))"
    using call_frame_agrees [OF c, where arg = 7 and force = "\<lambda>_. Some [([120], 5 :: nat)]"] unfolding m sum.case by (elim conjE)
  then show ?thesis using m by (simp add: matchFormalSet_def checkExtraKeys_def)
qed

end
