(* ===== verification/Nova_Data_Map.thy ===== *)
theory Nova_Data_Map
  imports Main "HOL-Library.List_Lexorder"
begin

section \<open>Data.Map as ascending lists\<close>

text \<open>
  A \<open>Map\<close> of the Haskell code is the list of its entries in ascending order of keys, each key once; \<open>toAscList\<close> and
  \<open>toList\<close> are the list itself, \<open>lookup\<close> is \<open>map_of\<close>. Equal maps are equal lists.
\<close>

definition ascending :: "('k :: linorder \<times> 'v) list \<Rightarrow> bool" where
  "ascending m \<longleftrightarrow> sorted_wrt (<) (map fst m)"

fun map_insert :: "'k :: linorder \<Rightarrow> 'v \<Rightarrow> ('k \<times> 'v) list \<Rightarrow> ('k \<times> 'v) list" where
  "map_insert k v [] = [(k, v)]"
| "map_insert k v ((x, y) # m) =
     (if k < x then (k, v) # (x, y) # m else if k = x then (k, v) # m else (x, y) # map_insert k v m)"

definition map_insertWith :: "('v \<Rightarrow> 'v \<Rightarrow> 'v) \<Rightarrow> 'k :: linorder \<Rightarrow> 'v \<Rightarrow> ('k \<times> 'v) list \<Rightarrow> ('k \<times> 'v) list" where
  "map_insertWith f k v m = map_insert k (case map_of m k of None \<Rightarrow> v | Some w \<Rightarrow> f v w) m"

definition map_fromList :: "('k :: linorder \<times> 'v) list \<Rightarrow> ('k \<times> 'v) list" where
  "map_fromList xs = foldl (\<lambda>m (k, v). map_insert k v m) [] xs"

definition map_fromListWith :: "('v \<Rightarrow> 'v \<Rightarrow> 'v) \<Rightarrow> ('k :: linorder \<times> 'v) list \<Rightarrow> ('k \<times> 'v) list" where
  "map_fromListWith f xs = foldl (\<lambda>m (k, v). map_insertWith f k v m) [] xs"

definition map_adjust :: "('v \<Rightarrow> 'v) \<Rightarrow> 'k \<Rightarrow> ('k \<times> 'v) list \<Rightarrow> ('k \<times> 'v) list" where
  "map_adjust f k m = map (\<lambda>(x, y). (x, if x = k then f y else y)) m"

definition map_member :: "'k \<Rightarrow> ('k \<times> 'v) list \<Rightarrow> bool" where
  "map_member k m \<longleftrightarrow> k \<in> set (map fst m)"

text \<open>\<open>Set.toAscList . Set.fromList\<close>.\<close>

definition ascSet :: "'k :: linorder list \<Rightarrow> 'k list" where
  "ascSet xs = sort (remdups xs)"

subsection \<open>Laws\<close>

lemma ascending_Nil [simp]: "ascending []"
  by (simp add: ascending_def)

lemma ascending_Cons [simp]: "ascending (p # m) \<longleftrightarrow> (\<forall>q \<in> set m. fst p < fst q) \<and> ascending m"
  by (auto simp: ascending_def)

lemma ascending_distinct: "ascending m \<Longrightarrow> distinct (map fst m)"
  by (simp add: ascending_def strict_sorted_iff)

lemma set_map_insert: "fst ` set (map_insert k v m) = insert k (fst ` set m)"
  by (induction k v m rule: map_insert.induct) auto

lemma map_insert_ge: "q \<in> set (map_insert k v m) \<Longrightarrow> q = (k, v) \<or> q \<in> set m"
  by (induction k v m rule: map_insert.induct) (auto split: if_splits)

lemma ascending_insert [simp]: "ascending m \<Longrightarrow> ascending (map_insert k v m)"
  by (induction k v m rule: map_insert.induct) (fastforce dest: map_insert_ge)+

lemma map_of_insert [simp]: "map_of (map_insert k v m) = (map_of m)(k \<mapsto> v)"
  by (induction k v m rule: map_insert.induct) (auto simp: fun_eq_iff)

lemma ascending_eq:
  assumes "ascending m" "ascending n" "map_of m = map_of n"
  shows "m = n"
proof -
  have "dom (map_of m) = dom (map_of n)" using assms(3) by simp
  then have "set (map fst m) = set (map fst n)" by (simp add: dom_map_of_conv_image_fst)
  then have k: "map fst m = map fst n"
    using assms(1,2) by (auto simp: ascending_def intro: strict_sorted_equal)
  have "map snd m = map (\<lambda>x. the (map_of m x)) (map fst m)" "map snd n = map (\<lambda>x. the (map_of n x)) (map fst n)"
    using ascending_distinct [OF assms(1)] ascending_distinct [OF assms(2)] by (auto simp: map_of_is_SomeI)
  then have "map snd m = map snd n" using k assms(3) by simp
  then show ?thesis using k by (metis zip_map_fst_snd)
qed

lemma ascending_insertWith [simp]: "ascending m \<Longrightarrow> ascending (map_insertWith f k v m)"
  by (simp add: map_insertWith_def)

lemma map_of_insertWith [simp]:
  "map_of (map_insertWith f k v m) = (map_of m)(k \<mapsto> (case map_of m k of None \<Rightarrow> v | Some w \<Rightarrow> f v w))"
  by (simp add: map_insertWith_def)

lemma ascending_fromList [simp]: "ascending (map_fromList xs)"
proof -
  have "ascending m \<Longrightarrow> ascending (foldl (\<lambda>m (k, v). map_insert k v m) m xs)" for m
    by (induction xs arbitrary: m) auto
  then show ?thesis by (simp add: map_fromList_def)
qed

lemma ascending_fromListWith [simp]: "ascending (map_fromListWith f xs)"
proof -
  have "ascending m \<Longrightarrow> ascending (foldl (\<lambda>m (k, v). map_insertWith f k v m) m xs)" for m
    by (induction xs arbitrary: m) auto
  then show ?thesis by (simp add: map_fromListWith_def)
qed

lemma fromListWith_snoc: "map_fromListWith f (xs @ [(k, v)]) = map_insertWith f k v (map_fromListWith f xs)"
  by (simp add: map_fromListWith_def)

lemma insert_after: "\<forall>q \<in> set m. fst q < k \<Longrightarrow> map_insert k v m = m @ [(k, v)]"
  by (induction k v m rule: map_insert.induct) auto

lemma ascending_append: "ascending (m @ n) \<longleftrightarrow> ascending m \<and> ascending n \<and> (\<forall>p \<in> set m. \<forall>q \<in> set n. fst p < fst q)"
  by (auto simp: ascending_def sorted_wrt_append)

lemma fromList_ascending: "ascending xs \<Longrightarrow> map_fromList xs = xs"
proof (induction xs rule: rev_induct)
  case (snoc x xs)
  then show ?case by (cases x) (simp add: map_fromList_def ascending_append insert_after)
qed (simp add: map_fromList_def)

lemma fromListWith_ascending: "ascending xs \<Longrightarrow> map_fromListWith f xs = xs"
proof (induction xs rule: rev_induct)
  case (snoc x xs)
  obtain k v where x: "x = (k, v)" by (cases x)
  have "map_of xs k = None" using snoc.prems x by (fastforce simp: ascending_append map_of_eq_None_iff)
  then show ?case using snoc x by (simp add: map_fromListWith_def map_insertWith_def ascending_append insert_after)
qed (simp add: map_fromListWith_def)

lemma keys_adjust [simp]: "map fst (map_adjust f k m) = map fst m"
  by (induction m) (auto simp: map_adjust_def)

lemma keys_set_adjust [simp]: "fst ` set (map_adjust f k m) = fst ` set m"
  by (metis keys_adjust list.set_map)

lemma map_of_adjust: "map_of (map_adjust f k m) = (map_of m)(k := map_option f (map_of m k))"
  by (induction m) (auto simp: map_adjust_def fun_eq_iff)

lemma ascSet_set [simp]: "set (ascSet xs) = set xs"
  by (simp add: ascSet_def)

lemma ascSet_sorted: "sorted_wrt (<) (ascSet xs)"
  by (simp add: ascSet_def strict_sorted_iff)

lemma ascSet_eq_iff: "ascSet xs = ascSet ys \<longleftrightarrow> set xs = set ys"
  by (metis ascSet_set ascSet_sorted strict_sorted_equal)

lemma ascSet_idem [simp]: "ascSet (ascSet xs) = ascSet xs"
  by (simp add: ascSet_eq_iff)

end
