(* ===== verification/Nova_Store_Path.thy ===== *)
theory Nova_Store_Path
  imports Nova_Expr Nova_Data_Map
begin

section \<open>Store/Path.hs: the names of things in the store\<close>

text \<open>
  Store paths, their spelling under a store directory and the parsers that refuse the rest (src/src/Nix/Store/Path.hs
  and Path/Internal.hs). A \<open>Text\<close> is its UTF-8 bytes; the functions of Data.Text that count or take characters
  do so through \<open>T_chars\<close>, which splits at the first byte of each. A character is the list of its bytes.
\<close>

subsection \<open>Text\<close>

definition continuation :: "u8 \<Rightarrow> bool" where
  "continuation b \<longleftrightarrow> 0x80 \<le> b \<and> b \<le> 0xBF"

function T_chars :: "hs_text \<Rightarrow> hs_text list" where
  "T_chars [] = []"
| "T_chars (b # bs) = (b # takeWhile continuation bs) # T_chars (dropWhile continuation bs)"
  by pat_completeness auto
termination
  by (relation "measure length") (simp_all add: le_imp_less_Suc length_dropWhile_le)

definition T_length :: "hs_text \<Rightarrow> nat" where
  "T_length s = length (T_chars s)"

definition T_take :: "nat \<Rightarrow> hs_text \<Rightarrow> hs_text" where
  "T_take n s = concat (take n (T_chars s))"

definition T_drop :: "nat \<Rightarrow> hs_text \<Rightarrow> hs_text" where
  "T_drop n s = concat (drop n (T_chars s))"

definition stripPrefix :: "u8 list \<Rightarrow> u8 list \<Rightarrow> u8 list option" where
  "stripPrefix p s = (if take (length p) s = p then Some (drop (length p) s) else None)"

text \<open>What \<open>decodeUtf8'\<close> accepts: the well-formed sequences of the Unicode standard.\<close>

fun utf8_valid :: "u8 list \<Rightarrow> bool" where
  "utf8_valid [] = True"
| "utf8_valid (a # bs) =
    (if a < 0x80 then utf8_valid bs
     else if 0xC2 \<le> a \<and> a \<le> 0xDF then
       (case bs of b # r \<Rightarrow> continuation b \<and> utf8_valid r | _ \<Rightarrow> False)
     else if 0xE0 \<le> a \<and> a \<le> 0xEF then
       (case bs of b # c # r \<Rightarrow> continuation b \<and> continuation c \<and> (a = 0xE0 \<longrightarrow> 0xA0 \<le> b) \<and> (a = 0xED \<longrightarrow> b \<le> 0x9F) \<and> utf8_valid r
        | _ \<Rightarrow> False)
     else if 0xF0 \<le> a \<and> a \<le> 0xF4 then
       (case bs of b # c # d # r \<Rightarrow> continuation b \<and> continuation c \<and> continuation d \<and>
          (a = 0xF0 \<longrightarrow> 0x90 \<le> b) \<and> (a = 0xF4 \<longrightarrow> b \<le> 0x8F) \<and> utf8_valid r
        | _ \<Rightarrow> False)
     else False)"

fun isAsciiLower :: "hs_text \<Rightarrow> bool" where
  "isAsciiLower [b] = (97 \<le> b \<and> b \<le> 122)"
| "isAsciiLower _ = False"

fun isAsciiUpper :: "hs_text \<Rightarrow> bool" where
  "isAsciiUpper [b] = (65 \<le> b \<and> b \<le> 90)"
| "isAsciiUpper _ = False"

fun isDigit :: "hs_text \<Rightarrow> bool" where
  "isDigit [b] = (48 \<le> b \<and> b \<le> 57)"
| "isDigit _ = False"

subsection \<open>Store paths\<close>

datatype store_path = StorePath (spHash: hs_text) (spName: hs_text)

text \<open>\<open>deriving Ord\<close>: the hash first, then the name; texts compare as their bytes do.\<close>

instantiation store_path :: linorder
begin

definition less_eq_store_path :: "store_path \<Rightarrow> store_path \<Rightarrow> bool" where
  "less_eq_store_path p q \<longleftrightarrow> spHash p < spHash q \<or> spHash p = spHash q \<and> spName p \<le> spName q"

definition less_store_path :: "store_path \<Rightarrow> store_path \<Rightarrow> bool" where
  "less_store_path p q \<longleftrightarrow> spHash p < spHash q \<or> spHash p = spHash q \<and> spName p < spName q"

instance
  by standard (auto simp: less_eq_store_path_def less_store_path_def intro: store_path.expand)

end

type_synonym store_dir = hs_text

definition defaultStoreDir :: store_dir where
  "defaultStoreDir = ascii ''/nix/store''"

definition windowsStoreDir :: store_dir where
  "windowsStoreDir = ascii ''C:'' @ [92] @ ascii ''nix'' @ [92] @ ascii ''store''"

definition storePathToText :: "store_dir \<Rightarrow> store_path \<Rightarrow> hs_text" where
  "storePathToText dir sp = dir @ ascii ''/'' @ spHash sp @ ascii ''-'' @ spName sp"

definition storePathHashLen :: nat where
  "storePathHashLen = 32"

definition maxStorePathNameLen :: nat where
  "maxStorePathNameLen = 211"

definition isNixBase32Char :: "hs_text \<Rightarrow> bool" where
  "isNixBase32Char c \<longleftrightarrow>
     isDigit c \<or> isAsciiLower c \<and> c \<noteq> ascii ''e'' \<and> c \<noteq> ascii ''o'' \<and> c \<noteq> ascii ''u'' \<and> c \<noteq> ascii ''t''"

datatype name_reason = NameEmpty | NameTooLong nat | NameIllegalChar hs_text | NameDotSegment hs_text

datatype name_error = StorePathNameError (spneName: hs_text) (spneReason: name_reason)

definition isStorePathNameChar :: "hs_text \<Rightarrow> bool" where
  "isStorePathNameChar c \<longleftrightarrow> isAsciiLower c \<or> isAsciiUpper c \<or> isDigit c \<or> c = ascii ''+'' \<or> c = ascii ''.'' \<or>
     c = ascii ''_'' \<or> c = ascii ''?'' \<or> c = ascii ''='' \<or> c = ascii ''-''"

definition firstDashComponent :: "hs_text \<Rightarrow> hs_text" where
  "firstDashComponent name = takeWhile (\<lambda>b. b \<noteq> 45) name"

definition checkStorePathName :: "hs_text \<Rightarrow> name_error + unit" where
  "checkStorePathName name =
     (if name = [] then Inl (StorePathNameError name NameEmpty)
      else if T_length name > maxStorePathNameLen then Inl (StorePathNameError name (NameTooLong (T_length name)))
      else if firstDashComponent name = ascii ''.'' \<or> firstDashComponent name = ascii ''..'' then
        Inl (StorePathNameError name (NameDotSegment (firstDashComponent name)))
      else case find (\<lambda>c. \<not> isStorePathNameChar c) (T_chars name) of
        Some c \<Rightarrow> Inl (StorePathNameError name (NameIllegalChar c))
      | None \<Rightarrow> Inr ())"

definition validStorePathName :: "hs_text \<Rightarrow> bool" where
  "validStorePathName name \<longleftrightarrow> (case checkStorePathName name of Inl _ \<Rightarrow> False | Inr _ \<Rightarrow> True)"

definition parseStorePathBaseName :: "hs_text \<Rightarrow> store_path option" where
  "parseStorePathBaseName basename =
     (if T_length basename < storePathHashLen + 2 then None
      else let hashPart = T_take storePathHashLen basename;
               afterHash = T_drop storePathHashLen basename
        in case afterHash of
             [] \<Rightarrow> None
           | c # name \<Rightarrow>
               if c = 45 \<and> list_all isNixBase32Char (T_chars hashPart) \<and> validStorePathName name
               then Some (StorePath hashPart name) else None)"

definition tryWithSep :: "store_dir \<Rightarrow> hs_text \<Rightarrow> hs_text \<Rightarrow> store_path option" where
  "tryWithSep dir path sep = Option.bind (stripPrefix (dir @ sep) path) parseStorePathBaseName"

definition parseStorePath :: "store_dir \<Rightarrow> hs_text \<Rightarrow> store_path option" where
  "parseStorePath dir path = (case tryWithSep dir path (ascii ''/'') of
     Some sp \<Rightarrow> Some sp
   | None \<Rightarrow> tryWithSep dir path [92])"

text \<open>The path that something in the store belongs to: up to the first separator after the directory.\<close>

definition parseStorePathPrefix :: "store_dir \<Rightarrow> hs_text \<Rightarrow> store_path option" where
  "parseStorePathPrefix dir path =
     (case List.map_filter (\<lambda>sep. stripPrefix (dir @ sep) path) [ascii ''/'', [92]] of
        rest # _ \<Rightarrow> parseStorePathBaseName (takeWhile (\<lambda>b. b \<noteq> 47 \<and> b \<noteq> 92) rest)
      | [] \<Rightarrow> None)"

end
