(* ===== verification/Nova_Derivation.thy ===== *)
theory Nova_Derivation
  imports Nova_Store_Path
begin

section \<open>Derivation.hs: derivations and their ATerm form\<close>

text \<open>
  The derivation, its serialisation (the bytes of a .drv file, and the variants that are hashed) and the parser
  of those bytes (src/src/Nix/Derivation.hs). A Builder is the bytes it builds. An error is told by its kind and
  what it quotes, the wording is left out.
\<close>

subsection \<open>Data\<close>

datatype platform =
    X86_64_Linux
  | X86_64_Darwin
  | Aarch64_Darwin
  | X86_64_Windows
  | Aarch64_Linux
  | I686_Linux
  | I686_Windows
  | OtherPlatform hs_text

fun platformToText :: "platform \<Rightarrow> hs_text" where
  "platformToText X86_64_Linux = ascii ''x86_64-linux''"
| "platformToText X86_64_Darwin = ascii ''x86_64-darwin''"
| "platformToText Aarch64_Darwin = ascii ''aarch64-darwin''"
| "platformToText X86_64_Windows = ascii ''x86_64-windows''"
| "platformToText Aarch64_Linux = ascii ''aarch64-linux''"
| "platformToText I686_Linux = ascii ''i686-linux''"
| "platformToText I686_Windows = ascii ''i686-windows''"
| "platformToText (OtherPlatform t) = t"

definition textToPlatform :: "hs_text \<Rightarrow> platform" where
  "textToPlatform t =
     (if t = ascii ''x86_64-linux'' then X86_64_Linux
      else if t = ascii ''x86_64-darwin'' then X86_64_Darwin
      else if t = ascii ''aarch64-darwin'' then Aarch64_Darwin
      else if t = ascii ''x86_64-windows'' then X86_64_Windows
      else if t = ascii ''aarch64-linux'' then Aarch64_Linux
      else if t = ascii ''i686-linux'' then I686_Linux
      else if t = ascii ''i686-windows'' then I686_Windows
      else OtherPlatform t)"

fun extraPlatforms :: "platform \<Rightarrow> platform list" where
  "extraPlatforms X86_64_Linux = [I686_Linux]"
| "extraPlatforms X86_64_Windows = [I686_Windows]"
| "extraPlatforms _ = []"

record derivation_output =
  doName :: hs_text
  doPath :: store_path
  doHashAlgo :: hs_text
  doHash :: hs_text

record derivation =
  drvOutputs :: "derivation_output list"
  drvInputDrvs :: "(store_path \<times> hs_text list) list"
  drvInputSrcs :: "store_path list"
  drvPlatform :: platform
  drvBuilder :: byte_string
  drvArgs :: "byte_string list"
  drvEnv :: "(hs_text \<times> byte_string) list"

subsection \<open>Serialisation\<close>

definition atermSpecial :: "u8 \<Rightarrow> bool" where
  "atermSpecial c \<longleftrightarrow> c = 92 \<or> c = 34 \<or> c = 10 \<or> c = 13 \<or> c = 9"

definition escapeOne :: "u8 \<Rightarrow> byte_string" where
  "escapeOne c =
     (if c = 92 then [92, 92]
      else if c = 34 then [92, 34]
      else if c = 10 then [92, 110]
      else if c = 13 then [92, 114]
      else if c = 9 then [92, 116]
      else [c])"

function escapeATermBytes :: "byte_string \<Rightarrow> byte_string" where
  "escapeATermBytes s =
     (let plain = takeWhile (\<lambda>c. \<not> atermSpecial c) s; rest = dropWhile (\<lambda>c. \<not> atermSpecial c) s
      in case rest of
           [] \<Rightarrow> plain
         | c # remaining \<Rightarrow> plain @ escapeOne c @ escapeATermBytes remaining)"
  by pat_completeness auto
termination
proof (relation "measure length")
  fix s plain rest :: byte_string and c remaining
  assume "rest = dropWhile (\<lambda>c. \<not> atermSpecial c) s" "rest = c # remaining"
  then show "(remaining, s) \<in> measure length"
    using length_dropWhile_le [of "\<lambda>c. \<not> atermSpecial c" s] by (metis Suc_le_eq in_measure length_Cons)
qed simp

declare escapeATermBytes.simps [simp del]

definition atermString :: "byte_string \<Rightarrow> byte_string" where
  "atermString s = [34] @ escapeATermBytes s @ [34]"

text \<open>\<open>encodeUtf8\<close> is the identity on the bytes of a Text.\<close>

definition atermStringT :: "hs_text \<Rightarrow> byte_string" where
  "atermStringT t = atermString t"

fun intersperseComma :: "byte_string list \<Rightarrow> byte_string list" where
  "intersperseComma [] = []"
| "intersperseComma [only] = [only]"
| "intersperseComma (item # rest) = item # ascii '','' # intersperseComma rest"

definition atermList :: "byte_string list \<Rightarrow> byte_string" where
  "atermList items = ascii ''['' @ concat (intersperseComma items) @ ascii '']''"

definition renderOutput :: "bool \<Rightarrow> derivation_output \<Rightarrow> byte_string" where
  "renderOutput maskOutputs out =
     ascii ''('' @ atermStringT (doName out) @ ascii '','' @
     atermStringT (if maskOutputs then [] else storePathToText defaultStoreDir (doPath out)) @ ascii '','' @
     atermStringT (doHashAlgo out) @ ascii '','' @ atermStringT (doHash out) @ ascii '')''"

definition atermOutputsWith :: "bool \<Rightarrow> derivation_output list \<Rightarrow> byte_string" where
  "atermOutputsWith maskOutputs outs = atermList (map (renderOutput maskOutputs) (sort_key doName outs))"

definition renderSubst :: "hs_text \<times> hs_text list \<Rightarrow> byte_string" where
  "renderSubst p = (case p of (key, outs) \<Rightarrow>
     ascii ''('' @ atermStringT key @ ascii '','' @ atermList (map atermStringT outs) @ ascii '')'')"

text \<open>A set of names is the ascending list of them, \<open>Set.union\<close> merges two.\<close>

definition atermInputDrvsSubst :: "(hs_text \<times> hs_text list) list \<Rightarrow> byte_string" where
  "atermInputDrvsSubst subs =
     (let merged = map_fromListWith (\<lambda>new old. ascSet (new @ old)) (map (\<lambda>(key, outs). (key, ascSet outs)) subs)
      in atermList (map renderSubst merged))"

definition sortNubText :: "hs_text list \<Rightarrow> hs_text list" where
  "sortNubText xs = ascSet xs"

definition atermInputDrv :: "store_path \<times> hs_text list \<Rightarrow> byte_string" where
  "atermInputDrv p = (case p of (sp, outs) \<Rightarrow>
     ascii ''('' @ atermStringT (storePathToText defaultStoreDir sp) @ ascii '','' @
     atermList (map atermStringT (sortNubText outs)) @ ascii '')'')"

definition atermInputDrvs :: "(store_path \<times> hs_text list) list \<Rightarrow> byte_string" where
  "atermInputDrvs drvs = atermList (map atermInputDrv drvs)"

definition atermInputSrcs :: "store_path list \<Rightarrow> byte_string" where
  "atermInputSrcs srcs =
     atermList (map (atermStringT \<circ> storePathToText defaultStoreDir) (sort_key (storePathToText defaultStoreDir) srcs))"

definition atermEnvPair :: "hs_text \<times> byte_string \<Rightarrow> byte_string" where
  "atermEnvPair p = (case p of (key, val) \<Rightarrow>
     ascii ''('' @ atermStringT key @ ascii '','' @ atermString val @ ascii '')'')"

definition atermEnv :: "(hs_text \<times> byte_string) list \<Rightarrow> byte_string" where
  "atermEnv env = atermList (map atermEnvPair env)"

definition toATermForHash :: "bool \<Rightarrow> (hs_text \<times> hs_text list) list option \<Rightarrow> derivation \<Rightarrow> byte_string" where
  "toATermForHash maskOutputs inputSubst drv =
     ascii ''Derive('' @ atermOutputsWith maskOutputs (drvOutputs drv) @ ascii '','' @
     (case inputSubst of None \<Rightarrow> atermInputDrvs (drvInputDrvs drv) | Some subs \<Rightarrow> atermInputDrvsSubst subs) @ ascii '','' @
     atermInputSrcs (drvInputSrcs drv) @ ascii '','' @
     atermStringT (platformToText (drvPlatform drv)) @ ascii '','' @
     atermString (drvBuilder drv) @ ascii '','' @
     atermList (map atermString (drvArgs drv)) @ ascii '','' @
     atermEnv (drvEnv drv) @ ascii '')''"

definition toATerm :: "derivation \<Rightarrow> byte_string" where
  "toATerm drv = toATermForHash False None drv"

subsection \<open>The parser\<close>

datatype aterm_error =
    ExpectedChar u8 "u8 option"
  | ExpectedString byte_string
  | InvalidUtf8 byte_string
  | UnterminatedString
  | UnterminatedEscape
  | ImpossibleBreak u8
  | InvalidOutputName name_error
  | InvalidOutputPath hs_text
  | InvalidInputDrv hs_text
  | InvalidInputSrc hs_text
  | UnexpectedTrailing byte_string
  | NoFuel

type_synonym 'a parser = "byte_string \<Rightarrow> aterm_error + 'a \<times> byte_string"

definition p_return :: "'a \<Rightarrow> 'a parser" where
  "p_return x = (\<lambda>input. Inr (x, input))"

definition p_bind :: "'a parser \<Rightarrow> ('a \<Rightarrow> 'b parser) \<Rightarrow> 'b parser" where
  "p_bind pa f = (\<lambda>input. case pa input of Inl err \<Rightarrow> Inl err | Inr (a, rest) \<Rightarrow> f a rest)"

definition parserFail :: "aterm_error \<Rightarrow> 'a parser" where
  "parserFail e = (\<lambda>_. Inl e)"

definition pChar :: "u8 \<Rightarrow> unit parser" where
  "pChar expected input = (case input of
     c # rest \<Rightarrow> if c = expected then Inr ((), rest) else Inl (ExpectedChar expected (Some c))
   | [] \<Rightarrow> Inl (ExpectedChar expected None))"

definition pString :: "byte_string \<Rightarrow> unit parser" where
  "pString prefix input = (case stripPrefix prefix input of
     Some rest \<Rightarrow> Inr ((), rest)
   | None \<Rightarrow> Inl (ExpectedString prefix))"

definition quoteSpecial :: "u8 \<Rightarrow> bool" where
  "quoteSpecial c \<longleftrightarrow> c = 34 \<or> c = 92"

function content_go :: "byte_string \<Rightarrow> byte_string list \<Rightarrow> aterm_error + byte_string \<times> byte_string" where
  "content_go remaining acc =
     (let plain = takeWhile (\<lambda>c. \<not> quoteSpecial c) remaining;
          rest = dropWhile (\<lambda>c. \<not> quoteSpecial c) remaining
      in case rest of
           [] \<Rightarrow> Inl UnterminatedString
         | c # afterSlash \<Rightarrow>
             if c = 34 then Inr (concat (rev (plain # acc)), rest)
             else if c = 92 then
               (case afterSlash of
                  [] \<Rightarrow> Inl UnterminatedEscape
                | e # rest2 \<Rightarrow>
                    if e = 92 then content_go rest2 ([92] # plain # acc)
                    else if e = 34 then content_go rest2 ([34] # plain # acc)
                    else if e = 110 then content_go rest2 ([10] # plain # acc)
                    else if e = 114 then content_go rest2 ([13] # plain # acc)
                    else if e = 116 then content_go rest2 ([9] # plain # acc)
                    else content_go rest2 ([e] # plain # acc))
             else Inl (ImpossibleBreak c))"
  by pat_completeness auto

lemma content_shrinks: "dropWhile P remaining = c # e # rest2 \<Longrightarrow> length rest2 < length (remaining :: 'a list)"
  using length_dropWhile_le [of P remaining] by simp

termination content_go
  by (relation "measure (length \<circ> fst)") (auto dest: sym dest!: content_shrinks)

declare content_go.simps [simp del]

definition pStringContent :: "byte_string parser" where
  "pStringContent input = content_go input []"

definition pQuotedString :: "byte_string parser" where
  "pQuotedString =
     p_bind (pChar 34) (\<lambda>_. p_bind pStringContent (\<lambda>content. p_bind (pChar 34) (\<lambda>_. p_return content)))"

definition pQuotedText :: "hs_text parser" where
  "pQuotedText = p_bind pQuotedString (\<lambda>content.
     if utf8_valid content then p_return content else parserFail (InvalidUtf8 (take 40 content)))"

text \<open>The loop ends because its separator takes input; the fuel counts the bytes left.\<close>

fun sepBy_goMore :: "nat \<Rightarrow> 'a parser \<Rightarrow> unit parser \<Rightarrow> byte_string \<Rightarrow> 'a list \<Rightarrow> aterm_error + 'a list \<times> byte_string" where
  "sepBy_goMore 0 pItem pSep remaining acc = Inl NoFuel"
| "sepBy_goMore (Suc n) pItem pSep remaining acc = (case pSep remaining of
     Inl _ \<Rightarrow> Inr (rev acc, remaining)
   | Inr (_, afterSep) \<Rightarrow> (case pItem afterSep of
       Inl err \<Rightarrow> Inl err
     | Inr (item, rest2) \<Rightarrow> sepBy_goMore n pItem pSep rest2 (item # acc)))"

definition pSepBy :: "'a parser \<Rightarrow> unit parser \<Rightarrow> 'a list parser" where
  "pSepBy pItem pSep input = (case pItem input of
     Inl _ \<Rightarrow> Inr ([], input)
   | Inr (fst_item, rest) \<Rightarrow> sepBy_goMore (Suc (length rest)) pItem pSep rest [fst_item])"

definition pList :: "'a parser \<Rightarrow> 'a list parser" where
  "pList pItem =
     p_bind (pChar 91) (\<lambda>_. p_bind (pSepBy pItem (pChar 44)) (\<lambda>items. p_bind (pChar 93) (\<lambda>_. p_return items)))"

definition parseStorePathFromATerm :: "hs_text \<Rightarrow> store_path option" where
  "parseStorePathFromATerm pathStr = (case parseStorePath defaultStoreDir pathStr of
     Some sp \<Rightarrow> Some sp
   | None \<Rightarrow> parseStorePath windowsStoreDir pathStr)"

definition pOutput :: "derivation_output parser" where
  "pOutput =
     p_bind (pChar 40) (\<lambda>_. p_bind pQuotedText (\<lambda>name. p_bind (pChar 44) (\<lambda>_.
     p_bind pQuotedText (\<lambda>pathStr. p_bind (pChar 44) (\<lambda>_.
     p_bind pQuotedText (\<lambda>hashAlgo. p_bind (pChar 44) (\<lambda>_.
     p_bind pQuotedText (\<lambda>hashVal. p_bind (pChar 41) (\<lambda>_.
     case checkStorePathName name of
       Inl err \<Rightarrow> parserFail (InvalidOutputName err)
     | Inr _ \<Rightarrow> (case parseStorePathFromATerm pathStr of
         Some sp \<Rightarrow> p_return \<lparr>doName = name, doPath = sp, doHashAlgo = hashAlgo, doHash = hashVal\<rparr>
       | None \<Rightarrow> parserFail (InvalidOutputPath pathStr)))))))))))"

definition pInputDrv :: "(store_path \<times> hs_text list) parser" where
  "pInputDrv =
     p_bind (pChar 40) (\<lambda>_. p_bind pQuotedText (\<lambda>pathStr. p_bind (pChar 44) (\<lambda>_.
     p_bind (pList pQuotedText) (\<lambda>outs. p_bind (pChar 41) (\<lambda>_.
     case parseStorePathFromATerm pathStr of
       Some sp \<Rightarrow> p_return (sp, outs)
     | None \<Rightarrow> parserFail (InvalidInputDrv pathStr))))))"

definition pInputSrc :: "store_path parser" where
  "pInputSrc = p_bind pQuotedText (\<lambda>pathStr.
     case parseStorePathFromATerm pathStr of
       Some sp \<Rightarrow> p_return sp
     | None \<Rightarrow> parserFail (InvalidInputSrc pathStr))"

definition pEnvPair :: "(hs_text \<times> byte_string) parser" where
  "pEnvPair =
     p_bind (pChar 40) (\<lambda>_. p_bind pQuotedText (\<lambda>key. p_bind (pChar 44) (\<lambda>_.
     p_bind pQuotedString (\<lambda>val. p_bind (pChar 41) (\<lambda>_. p_return (key, val))))))"

definition pDerivation :: "derivation parser" where
  "pDerivation =
     p_bind (pString (ascii ''Derive('')) (\<lambda>_.
     p_bind (pList pOutput) (\<lambda>outputs. p_bind (pChar 44) (\<lambda>_.
     p_bind (pList pInputDrv) (\<lambda>inputDrvsList. p_bind (pChar 44) (\<lambda>_.
     p_bind (pList pInputSrc) (\<lambda>inputSrcs. p_bind (pChar 44) (\<lambda>_.
     p_bind pQuotedText (\<lambda>platformStr. p_bind (pChar 44) (\<lambda>_.
     p_bind pQuotedString (\<lambda>builder. p_bind (pChar 44) (\<lambda>_.
     p_bind (pList pQuotedString) (\<lambda>args. p_bind (pChar 44) (\<lambda>_.
     p_bind (pList pEnvPair) (\<lambda>envPairs. p_bind (pChar 41) (\<lambda>_.
     p_return \<lparr>drvOutputs = outputs, drvInputDrvs = map_fromListWith (@) inputDrvsList, drvInputSrcs = inputSrcs,
       drvPlatform = textToPlatform platformStr, drvBuilder = builder, drvArgs = args,
       drvEnv = map_fromList envPairs\<rparr>)))))))))))))))"

definition fromATerm :: "byte_string \<Rightarrow> aterm_error + derivation" where
  "fromATerm input = (case pDerivation input of
     Inl err \<Rightarrow> Inl err
   | Inr (drv, remaining) \<Rightarrow> if remaining = [] then Inr drv else Inl (UnexpectedTrailing (take 40 remaining)))"

end
