(* ===== verification/Nova_Store_Path_Spec.thy ===== *)
theory Nova_Store_Path_Spec
  imports Nova_Store_Path
begin

section \<open>What is a store path\<close>

text \<open>The texts that the parsers of Store/Path.hs accept are the spellings of valid store paths, and none leaves the store.\<close>

subsection \<open>Characters of a text\<close>

lemma concat_chars [simp]: "concat (T_chars s) = s"
  by (induction s rule: T_chars.induct) simp_all

lemma chars_concat_take: "T_chars (concat (take n (T_chars s))) = take n (T_chars s)"
proof (induction s arbitrary: n rule: T_chars.induct)
  case (2 b bs)
  show ?case
  proof (cases n)
    case (Suc m)
    let ?t = "concat (take m (T_chars (dropWhile continuation bs)))"
    have "takeWhile continuation ?t = [] \<and> dropWhile continuation ?t = ?t"
    proof (cases "dropWhile continuation bs")
      case (Cons c cs)
      then have "\<not> continuation c" by (metis dropWhile_eq_Cons_conv)
      then show ?thesis using Cons by (cases m) simp_all
    next
      case Nil
      then show ?thesis by (simp only: T_chars.simps take_Nil concat.simps takeWhile.simps dropWhile.simps simp_thms)
    qed
    moreover have all: "x \<in> set (takeWhile continuation bs) \<Longrightarrow> continuation x" for x by (rule conjunct2 [OF set_takeWhileD])
    ultimately have "takeWhile continuation (takeWhile continuation bs @ ?t) = takeWhile continuation bs"
      "dropWhile continuation (takeWhile continuation bs @ ?t) = ?t"
      by (simp_all only: takeWhile_append2 [OF all] dropWhile_append2 [OF all] append_Nil2)
    then show ?thesis using Suc 2 by simp
  qed simp
qed simp

lemma chars_of_class:
  assumes "\<And>c. P c \<Longrightarrow> \<exists>b. c = [b] \<and> \<not> continuation b"
  shows "list_all P (T_chars s) \<longleftrightarrow> list_all (\<lambda>b. P [b]) s"
    and "list_all (\<lambda>b. P [b]) s \<Longrightarrow> T_chars s = map (\<lambda>b. [b]) s"
proof -
  have single: "T_chars s = map (\<lambda>b. [b]) s" if "list_all (\<lambda>b. P [b]) s" for s
    using that
  proof (induction s)
    case (Cons b s)
    then have "takeWhile continuation s = [] \<and> dropWhile continuation s = s"
      using assms by (cases s) fastforce+
    then show ?case using Cons by simp
  qed simp
  have "list_all (\<lambda>b. P [b]) (concat cs)" if "list_all P cs" for cs
    using that
  proof (induction cs)
    case (Cons c cs)
    then obtain b where "c = [b]" using assms by fastforce
    then show ?case using Cons by simp
  qed simp
  from this [of "T_chars s"] show "list_all P (T_chars s) \<longleftrightarrow> list_all (\<lambda>b. P [b]) s"
    using single [of s] by (auto simp: list.pred_map comp_def)
  show "list_all (\<lambda>b. P [b]) s \<Longrightarrow> T_chars s = map (\<lambda>b. [b]) s" by (rule single)
qed

lemma class_single:
  "isAsciiLower c \<Longrightarrow> \<exists>b. c = [b] \<and> b < 128" "isAsciiUpper c \<Longrightarrow> \<exists>b. c = [b] \<and> b < 128" "isDigit c \<Longrightarrow> \<exists>b. c = [b] \<and> b < 128"
proof -
  show "isAsciiLower c \<Longrightarrow> \<exists>b. c = [b] \<and> b < 128" by (cases c rule: isAsciiLower.cases) (auto simp: word_le_nat_alt word_less_nat_alt)
  show "isAsciiUpper c \<Longrightarrow> \<exists>b. c = [b] \<and> b < 128" by (cases c rule: isAsciiUpper.cases) (auto simp: word_le_nat_alt word_less_nat_alt)
  show "isDigit c \<Longrightarrow> \<exists>b. c = [b] \<and> b < 128" by (cases c rule: isDigit.cases) (auto simp: word_le_nat_alt word_less_nat_alt)
qed

lemma ascii_not_continuation: "b < 128 \<Longrightarrow> \<not> continuation b"
  by (auto simp: continuation_def dest: leD)

lemma base32_single: "isNixBase32Char c \<Longrightarrow> \<exists>b. c = [b] \<and> \<not> continuation b"
  unfolding isNixBase32Char_def using class_single ascii_not_continuation by metis

lemma name_char_single: "isStorePathNameChar c \<Longrightarrow> \<exists>b. c = [b] \<and> b < 128"
  using class_single by (auto simp: isStorePathNameChar_def)

lemma name_char_not_continuation: "isStorePathNameChar c \<Longrightarrow> \<exists>b. c = [b] \<and> \<not> continuation b"
  using name_char_single ascii_not_continuation by metis

subsection \<open>Valid store paths\<close>

definition name_ok :: "hs_text \<Rightarrow> bool" where
  "name_ok name \<longleftrightarrow> name \<noteq> [] \<and> length name \<le> 211 \<and> list_all (\<lambda>b. isStorePathNameChar [b]) name \<and>
     firstDashComponent name \<noteq> ascii ''.'' \<and> firstDashComponent name \<noteq> ascii ''..''"

definition valid_store_path :: "store_path \<Rightarrow> bool" where
  "valid_store_path sp \<longleftrightarrow> length (spHash sp) = 32 \<and> list_all (\<lambda>b. isNixBase32Char [b]) (spHash sp) \<and> name_ok (spName sp)"

definition base_name :: "store_path \<Rightarrow> hs_text" where
  "base_name sp = spHash sp @ ascii ''-'' @ spName sp"

lemma name_chars: "list_all (\<lambda>b. isStorePathNameChar [b]) name \<Longrightarrow> T_chars name = map (\<lambda>b. [b]) name"
  using chars_of_class(2) [OF name_char_not_continuation] by simp

lemma checkStorePathName_ok: "checkStorePathName name = Inr () \<longleftrightarrow> name_ok name"
proof -
  have f: "find (\<lambda>c. \<not> isStorePathNameChar c) (T_chars name) = None \<longleftrightarrow> list_all (\<lambda>b. isStorePathNameChar [b]) name"
    using chars_of_class(1) [of isStorePathNameChar name, OF name_char_not_continuation] by (auto simp: find_None_iff list_all_iff)
  have "T_length name = length name" if "list_all (\<lambda>b. isStorePathNameChar [b]) name"
    using that by (simp add: T_length_def name_chars)
  then show ?thesis using f
    by (auto simp: checkStorePathName_def name_ok_def maxStorePathNameLen_def split: option.splits)
qed

lemma validStorePathName_iff [simp]: "validStorePathName name \<longleftrightarrow> name_ok name"
  using checkStorePathName_ok [of name] by (auto simp: validStorePathName_def split: sum.splits)

lemma valid_chars:
  assumes "valid_store_path sp"
  shows "T_chars (base_name sp) = map (\<lambda>b. [b]) (base_name sp)"
proof -
  have "list_all (\<lambda>b. isStorePathNameChar [b]) (base_name sp)"
    using assms by (auto simp: valid_store_path_def base_name_def name_ok_def isNixBase32Char_def isStorePathNameChar_def list_all_iff)
  then show ?thesis by (rule name_chars)
qed

lemma take_drop_singles: "T_chars s = map (\<lambda>b. [b]) s \<Longrightarrow> T_take n s = take n s" "T_chars s = map (\<lambda>b. [b]) s \<Longrightarrow> T_drop n s = drop n s"
  by (simp_all add: T_take_def T_drop_def take_map drop_map)

lemma parse_base_name: "parseStorePathBaseName b = Some sp \<longleftrightarrow> valid_store_path sp \<and> b = base_name sp"
proof
  assume v: "valid_store_path sp \<and> b = base_name sp"
  note c = valid_chars [OF conjunct1 [OF v]]
  have "T_length b = length b" using v c by (simp add: T_length_def)
  then have "\<not> T_length b < storePathHashLen + 2"
    using v by (cases "spName sp") (simp_all add: storePathHashLen_def base_name_def valid_store_path_def name_ok_def)
  moreover have "T_take storePathHashLen b = spHash sp" "T_drop storePathHashLen b = 45 # spName sp"
    using v take_drop_singles [OF c] by (simp_all add: storePathHashLen_def base_name_def valid_store_path_def)
  moreover have "list_all isNixBase32Char (T_chars (spHash sp))"
    using v chars_of_class(1) [OF base32_single] by (simp add: valid_store_path_def)
  ultimately show "parseStorePathBaseName b = Some sp"
    using v by (simp add: parseStorePathBaseName_def valid_store_path_def)
next
  assume p: "parseStorePathBaseName b = Some sp"
  have l: "\<not> T_length b < storePathHashLen + 2" using p by (auto simp: parseStorePathBaseName_def split: if_splits)
  obtain name where d: "T_drop storePathHashLen b = 45 # name" "list_all isNixBase32Char (T_chars (T_take storePathHashLen b))"
    "name_ok name" "sp = StorePath (T_take storePathHashLen b) name"
    using p l by (auto simp: parseStorePathBaseName_def Let_def split: list.splits if_splits)
  have "b = T_take storePathHashLen b @ T_drop storePathHashLen b"
    by (metis T_take_def T_drop_def concat_append append_take_drop_id concat_chars)
  moreover have "list_all (\<lambda>b. isNixBase32Char [b]) (T_take storePathHashLen b)"
    using d(2) chars_of_class(1) [OF base32_single] by simp
  moreover have "length (T_take storePathHashLen b) = 32"
  proof -
    have "length (T_chars (T_take storePathHashLen b)) = 32"
      using l by (simp add: T_take_def chars_concat_take T_length_def storePathHashLen_def)
    then show ?thesis using chars_of_class(2) [OF base32_single calculation(2)] by simp
  qed
  ultimately show "valid_store_path sp \<and> b = base_name sp"
    using d by (simp add: valid_store_path_def base_name_def)
qed

lemma stripPrefix_Some: "stripPrefix p s = Some r \<longleftrightarrow> s = p @ r"
  by (auto simp: stripPrefix_def) (metis append_take_drop_id)

lemma stripPrefix_append [simp]: "stripPrefix p (p @ s) = Some s"
  by (simp add: stripPrefix_Some)

lemma try_sep: "tryWithSep dir path sep = Some sp \<longleftrightarrow> valid_store_path sp \<and> path = dir @ sep @ base_name sp"
  by (auto simp: tryWithSep_def bind_eq_Some_conv stripPrefix_Some parse_base_name)

lemma parse_store_path:
  "parseStorePath dir path = Some sp \<longleftrightarrow>
     valid_store_path sp \<and> (path = storePathToText dir sp \<or> path = dir @ [92] @ base_name sp)"
proof (cases "tryWithSep dir path (ascii ''/'')")
  case None
  then have "\<not> (valid_store_path sp \<and> path = storePathToText dir sp)"
    using try_sep [of dir path "ascii ''/''" sp] by (auto simp: storePathToText_def base_name_def)
  then show ?thesis using None try_sep [of dir path "[92]" sp] by (auto simp: parseStorePath_def)
next
  case (Some sp')
  then have "path = dir @ ascii ''/'' @ base_name sp'" "valid_store_path sp'" using try_sep by blast+
  then show ?thesis using Some try_sep [of dir path "ascii ''/''" sp]
    by (auto simp: parseStorePath_def storePathToText_def base_name_def)
qed

lemma parse_printed [simp]: "valid_store_path sp \<Longrightarrow> parseStorePath dir (storePathToText dir sp) = Some sp"
  by (simp add: parse_store_path)

text \<open>No byte of a valid base name separates paths or names a drive.\<close>

lemma base_name_bytes:
  assumes "valid_store_path sp"
  shows "b \<in> set (base_name sp) \<Longrightarrow> b \<noteq> 47 \<and> b \<noteq> 92 \<and> b \<noteq> 58 \<and> b \<noteq> 0"
proof -
  assume "b \<in> set (base_name sp)"
  then have "isStorePathNameChar [b]"
    using assms by (auto simp: valid_store_path_def base_name_def name_ok_def isNixBase32Char_def isStorePathNameChar_def list_all_iff)
  then show ?thesis by (auto simp: isStorePathNameChar_def)
qed

lemma parse_prefix:
  assumes "valid_store_path sp" and "rest = [] \<or> hd rest = 47 \<or> hd rest = 92"
  shows "parseStorePathPrefix dir (storePathToText dir sp @ rest) = Some sp"
proof -
  have "takeWhile (\<lambda>b. b \<noteq> 47 \<and> b \<noteq> 92) (base_name sp @ rest) = base_name sp"
    using base_name_bytes [OF assms(1)] assms(2) by (cases rest) (auto simp: takeWhile_append2)
  moreover have "stripPrefix (dir @ ascii ''/'') (storePathToText dir sp @ rest) = Some (base_name sp @ rest)"
    by (simp add: stripPrefix_Some storePathToText_def base_name_def)
  ultimately show ?thesis
    using assms(1) by (simp add: parseStorePathPrefix_def List.map_filter_simps parse_base_name)
qed

end
