(* ===== verification/Nova_Derivation_Spec.thy ===== *)
theory Nova_Derivation_Spec
  imports Nova_Derivation Nova_Store_Path_Spec
begin

section \<open>Derivations survive their ATerm form\<close>

text \<open>
  The printer and the parser of Derivation.hs are inverse up to the order that the printer fixes (\<open>canonical\<close>).
  \<open>parses p s x\<close> is the printer's side: after the bytes s the parser p has read x. \<open>sound p Q\<close> is the
  parser's: whatever it reads satisfies Q, it takes input from the front, and its loops have ended.
\<close>

subsection \<open>Escapes\<close>

text \<open>The span-copying escaper is the escaper of single bytes.\<close>

lemma escape_plain: "\<forall>c \<in> set s. \<not> atermSpecial c \<Longrightarrow> concat (map escapeOne s) = s"
  by (induction s) (auto simp: escapeOne_def atermSpecial_def)

lemma escape_bytewise: "escapeATermBytes s = concat (map escapeOne s)"
proof (induction s rule: escapeATermBytes.induct)
  case (1 s)
  let ?plain = "takeWhile (\<lambda>c. \<not> atermSpecial c) s" and ?rest = "dropWhile (\<lambda>c. \<not> atermSpecial c) s"
  have "concat (map escapeOne ?plain) = ?plain" by (rule escape_plain) (auto dest: set_takeWhileD)
  moreover have "concat (map escapeOne s) = concat (map escapeOne ?plain) @ concat (map escapeOne ?rest)"
    by (metis concat_append map_append takeWhile_dropWhile_id)
  ultimately have s: "concat (map escapeOne s) = ?plain @ concat (map escapeOne ?rest)" by simp
  show ?case
  proof (cases ?rest)
    case Nil
    then show ?thesis unfolding s escapeATermBytes.simps [of s] Let_def by (simp only: list.case list.map concat.simps append_Nil2)
  next
    case (Cons c remaining)
    show ?thesis unfolding s escapeATermBytes.simps [of s] Let_def Cons using 1 [OF refl refl Cons] by simp
  qed
qed

text \<open>What a quoted string says, read byte by byte.\<close>

definition unescape :: "u8 \<Rightarrow> u8" where
  "unescape e = (if e = 110 then 10 else if e = 114 then 13 else if e = 116 then 9 else e)"

definition prepend :: "byte_string \<Rightarrow> aterm_error + byte_string \<times> byte_string \<Rightarrow> aterm_error + byte_string \<times> byte_string" where
  "prepend p x = (case x of Inl err \<Rightarrow> Inl err | Inr (y, r) \<Rightarrow> Inr (p @ y, r))"

lemma prepend_simps [simp]: "prepend p (Inl e) = Inl e" "prepend p (Inr (y, r)) = Inr (p @ y, r)" "prepend p (prepend q x) = prepend (p @ q) x"
  by (simp_all add: prepend_def split: sum.splits)

fun content :: "byte_string \<Rightarrow> aterm_error + byte_string \<times> byte_string" where
  "content [] = Inl UnterminatedString"
| "content (c # s) =
     (if c = 34 then Inr ([], c # s)
      else if c = 92 then (case s of [] \<Rightarrow> Inl UnterminatedEscape | e # r \<Rightarrow> prepend [unescape e] (content r))
      else prepend [c] (content s))"

lemma content_span:
  "content s = prepend (takeWhile (\<lambda>c. \<not> quoteSpecial c) s) (content (dropWhile (\<lambda>c. \<not> quoteSpecial c) s))"
proof (induction s)
  case (Cons c s)
  have "prepend [] x = x" for x by (simp add: prepend_def split: sum.splits)
  then show ?case using Cons by (cases "quoteSpecial c") (simp_all del: content.simps(2), simp add: quoteSpecial_def)
qed simp

lemma content_go: "content_go s acc = prepend (concat (rev acc)) (content s)"
proof (induction s acc rule: content_go.induct)
  case (1 s acc)
  let ?plain = "takeWhile (\<lambda>c. \<not> quoteSpecial c) s" and ?rest = "dropWhile (\<lambda>c. \<not> quoteSpecial c) s"
  show ?case
  proof (cases ?rest)
    case Nil
    show ?thesis unfolding content_go.simps [of s acc] content_span [of s] Let_def Nil by simp
  next
    case (Cons c after)
    then have c: "c = 34 \<or> c = 92" by (metis dropWhile_eq_Cons_conv quoteSpecial_def)
    show ?thesis
    proof (cases "c = 34")
      case True
      show ?thesis unfolding content_go.simps [of s acc] content_span [of s] Let_def Cons using True by simp
    next
      case False
      then show ?thesis
      proof (cases after)
        case Nil
        show ?thesis unfolding content_go.simps [of s acc] content_span [of s] Let_def Cons Nil using False c by simp
      next
        case after: (Cons e r)
        note ih = 1 [OF refl refl Cons False _ after]
        show ?thesis unfolding content_go.simps [of s acc] content_span [of s] Let_def Cons after
          using False c ih by (simp add: unescape_def)
      qed
    qed
  qed
qed

lemma content_escaped: "content (concat (map escapeOne s) @ 34 # rest) = Inr (s, 34 # rest)"
  by (induction s) (auto simp: escapeOne_def unescape_def)

subsection \<open>The printer's side\<close>

definition parses :: "'a parser \<Rightarrow> byte_string \<Rightarrow> 'a \<Rightarrow> bool" where
  "parses p s x \<longleftrightarrow> (\<forall>rest. p (s @ rest) = Inr (x, rest))"

lemma parses_bind: "parses p s x \<Longrightarrow> parses (f x) t y \<Longrightarrow> parses (p_bind p f) (s @ t) y"
  by (simp add: parses_def p_bind_def)

lemma parses_last: "parses p s x \<Longrightarrow> parses (f x) [] y \<Longrightarrow> parses (p_bind p f) s y"
  using parses_bind [of p s x f "[]" y] by simp

lemma parses_return: "parses (p_return x) [] x"
  by (simp add: parses_def p_return_def)

lemma parses_return_eq: "x = y \<Longrightarrow> parses (p_return x) [] y"
  by (simp add: parses_return)

lemma parses_char: "parses (pChar c) [c] ()"
  by (simp add: parses_def pChar_def)

lemma parses_string: "parses (pString s) s ()"
  by (simp add: parses_def pString_def)

lemma parses_quoted: "parses pQuotedString (atermString s) s"
proof -
  have "pStringContent (escapeATermBytes s @ 34 # rest) = Inr (s, 34 # rest)" for rest
    by (simp add: pStringContent_def content_go escape_bytewise content_escaped)
  then show ?thesis
    by (simp add: parses_def pQuotedString_def p_bind_def p_return_def pChar_def atermString_def)
qed

lemma parses_text: "utf8_valid t \<Longrightarrow> parses pQuotedText (atermStringT t) t"
  unfolding pQuotedText_def atermStringT_def by (rule parses_last [OF parses_quoted]) (simp add: parses_return)

lemma intersperse_Cons: "concat (intersperseComma (s # ss)) = s @ concat (map (\<lambda>t. 44 # t) ss)"
  by (induction ss arbitrary: s) simp_all

lemma sep_by_more:
  assumes "\<forall>x \<in> set xs. parses p (f x) (g x)" and "length xs < n"
  shows "sepBy_goMore n p (pChar 44) (concat (map (\<lambda>x. 44 # f x) xs) @ 93 # rest) acc = Inr (rev acc @ map g xs, 93 # rest)"
  using assms
proof (induction xs arbitrary: n acc)
  case Nil
  then show ?case by (cases n) (simp_all add: pChar_def)
next
  case (Cons x xs)
  then obtain m where m: "n = Suc m" "length xs < m" by (cases n) auto
  have "p (f x @ t) = Inr (g x, t)" for t using Cons.prems(1) by (simp add: parses_def)
  then show ?case using Cons.IH [of m "g x # acc"] Cons.prems(1) m by (simp add: pChar_def)
qed

text \<open>A parser that refuses the end of a list.\<close>

definition refuses_end :: "'a parser \<Rightarrow> bool" where
  "refuses_end p \<longleftrightarrow> (\<forall>rest. \<exists>e. p (93 # rest) = Inl e)"

lemma refuses_bind: "c \<noteq> 93 \<Longrightarrow> refuses_end (p_bind (pChar c) f)"
  by (simp add: refuses_end_def p_bind_def pChar_def)

lemma refuses_quoted: "refuses_end pQuotedString" "refuses_end pQuotedText" "refuses_end pInputSrc"
  by (simp_all add: pQuotedString_def pQuotedText_def pInputSrc_def refuses_end_def p_bind_def pChar_def)

lemma refuses_tuples: "refuses_end pOutput" "refuses_end pInputDrv" "refuses_end pEnvPair"
  by (simp_all add: pOutput_def pInputDrv_def pEnvPair_def refuses_bind)

lemma parses_list:
  assumes "\<forall>x \<in> set xs. parses p (f x) (g x)" and "refuses_end p"
  shows "parses (pList p) (atermList (map f xs)) (map g xs)"
proof -
  have "pSepBy p (pChar 44) (concat (intersperseComma (map f xs)) @ 93 # rest) = Inr (map g xs, 93 # rest)" for rest
  proof (cases xs)
    case Nil
    obtain e where "p (93 # rest) = Inl e" using assms(2) by (auto simp: refuses_end_def)
    then show ?thesis using Nil by (simp add: pSepBy_def)
  next
    case (Cons x ys)
    let ?more = "concat (map (\<lambda>x. 44 # f x) ys) @ 93 # rest"
    have "p (f x @ t) = Inr (g x, t)" for t using assms(1) Cons by (simp add: parses_def)
    moreover have "length ys \<le> length (concat (map (\<lambda>x. 44 # f x) ys))" by (induction ys) simp_all
    then have "length ys < Suc (length ?more)" by simp
    from sep_by_more [OF _ this, of p f g rest "[g x]"] assms(1) Cons
    have "sepBy_goMore (Suc (length ?more)) p (pChar 44) ?more [g x] = Inr (map g xs, 93 # rest)" by simp
    ultimately show ?thesis
      using Cons by (simp add: pSepBy_def intersperse_Cons map_map comp_def del: sepBy_goMore.simps length_append length_concat)
  qed
  then show ?thesis
    by (simp add: parses_def pList_def p_bind_def p_return_def pChar_def atermList_def)
qed

lemma utf8_ascii: "list_all (\<lambda>b. b < 128) s \<Longrightarrow> utf8_valid s"
proof (induction s)
  case Nil
  show ?case by (rule utf8_valid.simps(1) [THEN iffD2, OF TrueI])
next
  case (Cons a s)
  then have "a < 128" "utf8_valid s" by auto
  then show ?case by (subst utf8_valid.simps(2)) (simp only: if_True)
qed

lemma name_ascii: "name_ok name \<Longrightarrow> list_all (\<lambda>b. b < 128) name"
  using name_char_single by (fastforce simp: name_ok_def list_all_iff)

lemma utf8_name: "name_ok name \<Longrightarrow> utf8_valid name"
  by (rule utf8_ascii [OF name_ascii])

lemma base32_name_char: "isNixBase32Char c \<Longrightarrow> isStorePathNameChar c"
  by (auto simp: isNixBase32Char_def isStorePathNameChar_def)

lemma utf8_path:
  assumes "valid_store_path sp"
  shows "utf8_valid (storePathToText defaultStoreDir sp)"
proof (rule utf8_ascii)
  have "list_all (\<lambda>b. b < 128) (spHash sp)"
    using assms name_char_single [OF base32_name_char] by (fastforce simp: valid_store_path_def list_all_iff)
  then show "list_all (\<lambda>b. b < 128) (storePathToText defaultStoreDir sp)"
    using assms name_ascii by (simp add: storePathToText_def defaultStoreDir_def valid_store_path_def)
qed

lemma parse_aterm_path: "valid_store_path sp \<Longrightarrow> parseStorePathFromATerm (storePathToText defaultStoreDir sp) = Some sp"
  by (simp add: parseStorePathFromATerm_def)

definition output_ok :: "derivation_output \<Rightarrow> bool" where
  "output_ok out \<longleftrightarrow> name_ok (doName out) \<and> valid_store_path (doPath out) \<and> utf8_valid (doHashAlgo out) \<and> utf8_valid (doHash out)"

lemma parses_output:
  assumes "output_ok out"
  shows "parses pOutput (renderOutput False out) out"
proof -
  have "renderOutput False out = [40] @ atermStringT (doName out) @ [44] @ atermStringT (storePathToText defaultStoreDir (doPath out)) @
      [44] @ atermStringT (doHashAlgo out) @ [44] @ atermStringT (doHash out) @ [41]"
    by (simp add: renderOutput_def)
  moreover note utf8_name [of "doName out"] utf8_path [of "doPath out"]
  ultimately show ?thesis
    using assms unfolding pOutput_def output_ok_def
    by (auto intro!: parses_bind [OF parses_char] parses_bind [OF parses_text] parses_last [OF parses_char]
      parses_return_eq simp: checkStorePathName_ok [THEN iffD2] parse_aterm_path simp del: append.simps)
qed

lemma parses_input_drv:
  assumes "valid_store_path sp" and "list_all utf8_valid outs"
  shows "parses pInputDrv (atermInputDrv (sp, outs)) (sp, ascSet outs)"
proof -
  have "atermInputDrv (sp, outs) = [40] @ atermStringT (storePathToText defaultStoreDir sp) @ [44] @
      atermList (map atermStringT (ascSet outs)) @ [41]"
    by (simp add: atermInputDrv_def sortNubText_def)
  moreover have "parses (pList pQuotedText) (atermList (map atermStringT (ascSet outs))) (map (\<lambda>x. x) (ascSet outs))"
    using assms(2) by (intro parses_list refuses_quoted ballI parses_text) (simp add: list_all_iff)
  moreover note utf8_path [OF assms(1)]
  ultimately show ?thesis
    using assms(1) unfolding pInputDrv_def
    by (auto intro!: parses_bind [OF parses_char] parses_bind [OF parses_text] parses_bind [where p = "pList pQuotedText"] parses_last [OF parses_char]
      simp: parse_aterm_path parses_return simp del: append.simps)
qed

lemma parses_input_src:
  assumes "valid_store_path sp"
  shows "parses pInputSrc (atermStringT (storePathToText defaultStoreDir sp)) sp"
  unfolding pInputSrc_def using assms
  by (intro parses_last [OF parses_text] utf8_path) (simp_all add: parse_aterm_path parses_return)

lemma parses_env_pair:
  assumes "utf8_valid key"
  shows "parses pEnvPair (atermEnvPair (key, val)) (key, val)"
proof -
  have "atermEnvPair (key, val) = [40] @ atermStringT key @ [44] @ atermString val @ [41]"
    by (simp add: atermEnvPair_def)
  then show ?thesis
    using assms unfolding pEnvPair_def
    by (auto intro!: parses_bind [OF parses_char] parses_bind [OF parses_text] parses_bind [OF parses_quoted] parses_last [OF parses_char] parses_return
      simp del: append.simps)
qed

subsection \<open>Well-formed derivations\<close>

definition platform_ok :: "platform \<Rightarrow> bool" where
  "platform_ok p \<longleftrightarrow> utf8_valid (platformToText p) \<and> textToPlatform (platformToText p) = p"

definition derivation_ok :: "derivation \<Rightarrow> bool" where
  "derivation_ok d \<longleftrightarrow>
     list_all output_ok (drvOutputs d) \<and>
     ascending (drvInputDrvs d) \<and> list_all (\<lambda>(sp, outs). valid_store_path sp \<and> list_all utf8_valid outs) (drvInputDrvs d) \<and>
     list_all valid_store_path (drvInputSrcs d) \<and>
     platform_ok (drvPlatform d) \<and>
     ascending (drvEnv d) \<and> list_all (\<lambda>(key, val). utf8_valid key) (drvEnv d)"

text \<open>The order that the printer fixes: outputs by name, sources by path, the names of each input once and ascending.\<close>

definition canonical :: "derivation \<Rightarrow> derivation" where
  "canonical d = d\<lparr>drvOutputs := sort_key doName (drvOutputs d),
     drvInputDrvs := map (\<lambda>(sp, outs). (sp, ascSet outs)) (drvInputDrvs d),
     drvInputSrcs := sort_key (storePathToText defaultStoreDir) (drvInputSrcs d)\<rparr>"

lemma ascending_map: "ascending m \<Longrightarrow> ascending (map (\<lambda>(k, v). (k, f v)) m)"
  by (simp add: ascending_def comp_def case_prod_unfold)

lemma parses_derivation:
  assumes "derivation_ok d"
  shows "parses pDerivation (toATerm d) (canonical d)"
proof -
  have outs: "parses (pList pOutput) (atermOutputsWith False (drvOutputs d)) (map (\<lambda>x. x) (sort_key doName (drvOutputs d)))"
    unfolding atermOutputsWith_def using assms
    by (intro parses_list ballI parses_output) (auto simp: derivation_ok_def list_all_iff refuses_tuples)
  have drvs: "parses (pList pInputDrv) (atermInputDrvs (drvInputDrvs d)) (map (\<lambda>(sp, outs). (sp, ascSet outs)) (drvInputDrvs d))"
    unfolding atermInputDrvs_def using assms
    by (intro parses_list ballI) (auto simp: derivation_ok_def list_all_iff refuses_tuples intro!: parses_input_drv)
  have srcs: "parses (pList pInputSrc) (atermInputSrcs (drvInputSrcs d)) (map (\<lambda>x. x) (sort_key (storePathToText defaultStoreDir) (drvInputSrcs d)))"
    unfolding atermInputSrcs_def comp_def using assms
    by (intro parses_list ballI parses_input_src refuses_quoted) (auto simp: derivation_ok_def list_all_iff)
  have args: "parses (pList pQuotedString) (atermList (map atermString (drvArgs d))) (map (\<lambda>x. x) (drvArgs d))"
    by (intro parses_list ballI parses_quoted refuses_quoted)
  have env: "parses (pList pEnvPair) (atermEnv (drvEnv d)) (map (\<lambda>x. x) (drvEnv d))"
    unfolding atermEnv_def using assms
    by (intro parses_list ballI) (auto simp: derivation_ok_def list_all_iff refuses_tuples intro!: parses_env_pair)
  have maps: "map_fromListWith (@) (map (\<lambda>(sp, outs). (sp, ascSet outs)) (drvInputDrvs d)) = map (\<lambda>(sp, outs). (sp, ascSet outs)) (drvInputDrvs d)"
    "map_fromList (drvEnv d) = drvEnv d"
    using assms by (simp_all add: derivation_ok_def fromListWith_ascending ascending_map fromList_ascending)
  have plat: "utf8_valid (platformToText (drvPlatform d))" "textToPlatform (platformToText (drvPlatform d)) = drvPlatform d"
    using assms by (simp_all add: derivation_ok_def platform_ok_def)
  have "toATerm d = ascii ''Derive('' @ atermOutputsWith False (drvOutputs d) @ [44] @ atermInputDrvs (drvInputDrvs d) @ [44] @
      atermInputSrcs (drvInputSrcs d) @ [44] @ atermStringT (platformToText (drvPlatform d)) @ [44] @ atermString (drvBuilder d) @ [44] @
      atermList (map atermString (drvArgs d)) @ [44] @ atermEnv (drvEnv d) @ [41]"
    by (simp add: toATerm_def toATermForHash_def)
  then show ?thesis
    unfolding pDerivation_def
    by (simp only:)
      (intro parses_bind [OF parses_string] parses_bind [OF outs] parses_bind [OF parses_char] parses_bind [OF drvs] parses_bind [OF srcs]
        parses_bind [OF parses_text] parses_bind [OF parses_quoted] parses_bind [OF args] parses_bind [OF env] parses_last [OF parses_char] plat(1),
       rule parses_return_eq, simp add: maps plat(2) canonical_def derivation.surjective)
qed

lemma derivation_reads_back: "derivation_ok d \<Longrightarrow> fromATerm (toATerm d) = Inr (canonical d)"
proof -
  assume "derivation_ok d"
  from parses_derivation [OF this] have "pDerivation (toATerm d @ []) = Inr (canonical d, [])" unfolding parses_def by blast
  then show ?thesis by (simp add: fromATerm_def)
qed

subsection \<open>The parser's side\<close>

definition sound :: "'a parser \<Rightarrow> ('a \<Rightarrow> bool) \<Rightarrow> bool" where
  "sound p Q \<longleftrightarrow> (\<forall>s. case p s of Inl e \<Rightarrow> e \<noteq> NoFuel | Inr (x, r) \<Rightarrow> Q x \<and> length r \<le> length s)"

lemma soundD: "sound p Q \<Longrightarrow> p s = Inr (x, r) \<Longrightarrow> Q x \<and> length r \<le> length s"
  by (auto simp: sound_def dest: spec [of _ s])

lemma sound_fuel: "sound p Q \<Longrightarrow> p s \<noteq> Inl NoFuel"
  by (auto simp: sound_def dest: spec [of _ s])

lemma sound_bind:
  assumes "sound p Q" and "\<And>x. Q x \<Longrightarrow> sound (f x) R"
  shows "sound (p_bind p f) R"
  unfolding sound_def
proof
  fix s
  show "case p_bind p f s of Inl e \<Rightarrow> e \<noteq> NoFuel | Inr (x, r) \<Rightarrow> R x \<and> length r \<le> length s"
  proof (cases "p s")
    case (Inl e)
    then show ?thesis using sound_fuel [OF assms(1), of s] by (simp add: p_bind_def)
  next
    case (Inr y)
    then obtain x r where xr: "p s = Inr (x, r)" by (cases y) simp
    note q = soundD [OF assms(1) xr]
    show ?thesis using xr q assms(2) [of x] by (auto simp: p_bind_def sound_def dest!: spec [of _ r] split: sum.splits)
  qed
qed

lemma sound_return: "Q x \<Longrightarrow> sound (p_return x) Q"
  by (simp add: sound_def p_return_def)

lemma sound_fail: "e \<noteq> NoFuel \<Longrightarrow> sound (parserFail e) Q"
  by (simp add: sound_def parserFail_def)

lemma sound_char: "sound (pChar c) (\<lambda>_. True)"
  by (simp add: sound_def pChar_def split: list.split)

lemma char_simps: "pChar c [] = Inl (ExpectedChar c None)" "pChar c (d # s) = (if d = c then Inr ((), s) else Inl (ExpectedChar c (Some d)))"
  by (simp_all add: pChar_def)

lemma sound_string: "sound (pString s) (\<lambda>_. True)"
  by (auto simp: sound_def pString_def stripPrefix_Some split: option.split)

lemma content_bounds: "case content s of Inl e \<Rightarrow> e \<noteq> NoFuel | Inr (x, r) \<Rightarrow> length r \<le> length s"
proof (induction s rule: content.induct)
  case (2 c s)
  have p: "case prepend q (content r) of Inl e \<Rightarrow> e \<noteq> NoFuel | Inr (x, r') \<Rightarrow> length r' \<le> Suc (length t)"
    if "case content r of Inl e \<Rightarrow> e \<noteq> NoFuel | Inr (x, r') \<Rightarrow> length r' \<le> length r" "length r \<le> length t" for q r and t :: byte_string
    using that by (cases "content r") (auto simp: prepend_def)
  show ?case
  proof (cases "c = 34 \<or> c = 92")
    case False
    then show ?thesis using p [OF 2(2), of s "[c]"] by (cases "prepend [c] (content s)") auto
  next
    case True
    then show ?thesis
    proof (cases "c = 34")
      case False
      show ?thesis
      proof (cases s)
        case (Cons e r)
        then show ?thesis using False True p [OF 2(1) [OF False _ Cons], of r "[unescape e]"]
          by (cases "prepend [unescape e] (content r)") (auto intro: le_SucI)
      qed (use False True in simp)
    qed simp
  qed
qed simp

lemma sound_quoted: "sound pQuotedString (\<lambda>_. True)"
proof -
  have "sound pStringContent (\<lambda>_. True)"
    unfolding sound_def
  proof
    fix s
    show "case pStringContent s of Inl e \<Rightarrow> e \<noteq> NoFuel | Inr (x, r) \<Rightarrow> True \<and> length r \<le> length s"
      using content_bounds [of s] by (auto simp: pStringContent_def content_go prepend_def split: sum.splits)
  qed
  then show ?thesis
    unfolding pQuotedString_def by (intro sound_bind [OF sound_char] sound_bind [where Q = "\<lambda>_. True"] sound_return) simp_all
qed

lemma sound_text: "sound pQuotedText utf8_valid"
  unfolding pQuotedText_def by (intro sound_bind [OF sound_quoted]) (auto intro: sound_return sound_fail)

lemma sound_more:
  assumes "sound p Q" and "list_all Q acc" and "length s < n"
  shows "case sepBy_goMore n p (pChar 44) s acc of Inl e \<Rightarrow> e \<noteq> NoFuel | Inr (xs, r) \<Rightarrow> list_all Q xs \<and> length r \<le> length s"
  using assms(2,3)
proof (induction n arbitrary: s acc)
  case (Suc n)
  show ?case
  proof (cases "\<exists>t. s = 44 # t")
    case False
    then obtain e where "pChar 44 s = Inl e" by (cases s) (auto simp: char_simps)
    then show ?thesis using Suc.prems by (simp add: list_all_iff)
  next
    case True
    then obtain t where t: "s = 44 # t" by blast
    show ?thesis
    proof (cases "p t")
      case (Inl e)
      then show ?thesis using t sound_fuel [OF assms(1), of t] by (auto simp: char_simps)
    next
      case (Inr y)
      then obtain x r where xr: "p t = Inr (x, r)" by (cases y) simp
      note q = soundD [OF assms(1) xr]
      have "case sepBy_goMore n p (pChar 44) r (x # acc) of Inl e \<Rightarrow> e \<noteq> NoFuel | Inr (xs, r') \<Rightarrow> list_all Q xs \<and> length r' \<le> length r"
        using Suc.prems q t by (intro Suc.IH) simp_all
      then show ?thesis using xr t q by (auto simp: char_simps split: sum.splits)
    qed
  qed
qed simp

lemma sound_list:
  assumes "sound p Q"
  shows "sound (pList p) (list_all Q)"
proof -
  have "sound (pSepBy p (pChar 44)) (list_all Q)"
    unfolding sound_def
  proof
    fix s
    show "case pSepBy p (pChar 44) s of Inl e \<Rightarrow> e \<noteq> NoFuel | Inr (x, r) \<Rightarrow> list_all Q x \<and> length r \<le> length s"
    proof (cases "p s")
      case (Inr y)
      then obtain x r where xr: "p s = Inr (x, r)" by (cases y) simp
      note q = soundD [OF assms xr]
      then have "list_all Q [x]" by simp
      from sound_more [OF assms this, of r "Suc (length r)"] q xr show ?thesis
        by (auto simp: pSepBy_def simp del: sepBy_goMore.simps split: sum.splits)
    qed (simp add: pSepBy_def)
  qed
  then show ?thesis
    unfolding pList_def
    by (intro sound_bind [OF sound_char] sound_bind [where Q = "list_all Q"] sound_return) simp_all
qed

lemma aterm_path_valid: "parseStorePathFromATerm t = Some sp \<Longrightarrow> valid_store_path sp"
  by (auto simp: parseStorePathFromATerm_def parse_store_path split: option.splits)

lemmas sound_steps = sound_bind [OF sound_char] sound_bind [OF sound_text] sound_bind [OF sound_quoted] sound_return sound_fail

lemma sound_output: "sound pOutput output_ok"
  unfolding pOutput_def
  by (intro sound_steps) (auto simp: checkStorePathName_ok output_ok_def aterm_path_valid split: sum.splits option.splits intro!: sound_steps)

lemma sound_input_drv: "sound pInputDrv (\<lambda>(sp, outs). valid_store_path sp \<and> list_all utf8_valid outs)"
  unfolding pInputDrv_def
  by (intro sound_steps sound_bind [OF sound_list [OF sound_text]])
    (auto simp: aterm_path_valid split: option.splits intro!: sound_steps)

lemma sound_input_src: "sound pInputSrc valid_store_path"
  unfolding pInputSrc_def by (intro sound_steps) (auto simp: aterm_path_valid split: option.splits intro!: sound_steps)

lemma sound_env_pair: "sound pEnvPair (\<lambda>(key, val). utf8_valid key)"
  unfolding pEnvPair_def by (intro sound_steps) auto

lemma read_platform: "utf8_valid t \<Longrightarrow> platform_ok (textToPlatform t)"
proof -
  assume "utf8_valid t"
  moreover have "platformToText (textToPlatform t) = t" by (simp add: textToPlatform_def)
  ultimately show ?thesis by (simp add: platform_ok_def)
qed

text \<open>What holds of every entry put in, and of every merge, holds of every entry of the map.\<close>

lemma fromListWith_all:
  assumes "list_all (\<lambda>(k, v). P k v) xs" and "\<And>k v w. P k v \<Longrightarrow> P k w \<Longrightarrow> P k (f v w)"
  shows "list_all (\<lambda>(k, v). P k v) (map_fromListWith f xs)"
proof -
  have "list_all (\<lambda>(k, v). P k v) m \<Longrightarrow> list_all (\<lambda>(k, v). P k v) (map_insertWith f k v m)" if "P k v" for k v m
  proof -
    assume m: "list_all (\<lambda>(k, v). P k v) m"
    then have "P k (case map_of m k of None \<Rightarrow> v | Some w \<Rightarrow> f v w)"
      using that assms(2) by (auto simp: list_all_iff split: option.split dest!: map_of_SomeD)
    then show ?thesis using m by (auto simp: map_insertWith_def list_all_iff dest!: map_insert_ge)
  qed
  then have "list_all (\<lambda>(k, v). P k v) m \<Longrightarrow> list_all (\<lambda>(k, v). P k v) (foldl (\<lambda>m (k, v). map_insertWith f k v m) m xs)" for m
    using assms(1) by (induction xs arbitrary: m) auto
  then show ?thesis by (simp add: map_fromListWith_def)
qed

lemma fromList_with: "map_fromList xs = map_fromListWith (\<lambda>new old. new) xs"
proof -
  have "map_insert k v m = map_insertWith (\<lambda>new old. new) k v m" for k :: 'a and v :: 'b and m
    by (simp add: map_insertWith_def split: option.split)
  then show ?thesis by (simp add: map_fromList_def map_fromListWith_def)
qed

lemma sound_derivation: "sound pDerivation derivation_ok"
  unfolding pDerivation_def
proof (intro sound_steps sound_bind [OF sound_string] sound_bind [OF sound_list [OF sound_output]]
    sound_bind [OF sound_list [OF sound_input_drv]] sound_bind [OF sound_list [OF sound_input_src]]
    sound_bind [OF sound_list [OF sound_quoted]] sound_bind [OF sound_list [OF sound_env_pair]])
  fix outs drvs srcs plat builder args env
  assume *: "list_all output_ok outs" "list_all (\<lambda>(sp, outs). valid_store_path sp \<and> list_all utf8_valid outs) drvs"
    "list_all valid_store_path srcs" "utf8_valid plat" "list_all (\<lambda>(key, val :: byte_string). utf8_valid key) env"
  have "list_all (\<lambda>(sp, outs). valid_store_path sp \<and> list_all utf8_valid outs) (map_fromListWith (@) drvs)"
    by (rule fromListWith_all [OF *(2)]) auto
  moreover have "list_all (\<lambda>(key, val). utf8_valid key) (map_fromList env)"
    unfolding fromList_with by (rule fromListWith_all [OF *(5)])
  ultimately show "derivation_ok \<lparr>drvOutputs = outs, drvInputDrvs = map_fromListWith (@) drvs, drvInputSrcs = srcs,
      drvPlatform = textToPlatform plat, drvBuilder = builder, drvArgs = args, drvEnv = map_fromList env\<rparr>"
    using * by (simp add: derivation_ok_def read_platform)
qed

end
