(* ===== verification/Nova_Aterm.thy ===== *)
theory Nova_Aterm
  imports Nova_Derivation_Spec
begin

section \<open>What the store relies on of names and .drv files\<close>

text \<open>The properties of Store/Path.hs and Derivation.hs, with examples.\<close>

definition demo_path :: store_path where
  "demo_path = StorePath (replicate 32 48) (ascii ''a-1.0'')"

lemma demo_path_valid: "valid_store_path demo_path"
  by (simp add: demo_path_def valid_store_path_def list_all_iff isNixBase32Char_def name_ok_def isStorePathNameChar_def
      firstDashComponent_def)

subsection \<open>Store paths\<close>

text \<open>C18: Exactly the spellings of valid store paths parse, with either separator after the store directory, and each
  as the path it spells; a path inside the store names the entry it lies in. The name of an entry has no
  separator, no drive colon, no NUL and is not a dot segment, so joining it to the store directory stays inside.\<close>

theorem store_paths_parse:
  "(parseStorePath dir t = Some sp \<longleftrightarrow>
      valid_store_path sp \<and> (t = storePathToText dir sp \<or> t = dir @ [92] @ spHash sp @ ascii ''-'' @ spName sp)) \<and>
   (valid_store_path sp \<longrightarrow>
      set (spHash sp @ ascii ''-'' @ spName sp) \<inter> {47, 92, 58, 0} = {} \<and> spName sp \<notin> {ascii ''.'', ascii ''..''} \<and>
      parseStorePathPrefix dir (storePathToText dir sp @ 47 # inside) = Some sp \<and>
      parseStorePathPrefix dir (storePathToText dir sp @ 92 # inside) = Some sp)"
proof -
  have "spName sp \<notin> {ascii ''.'', ascii ''..''}" if "valid_store_path sp"
    using that by (auto simp: valid_store_path_def name_ok_def firstDashComponent_def)
  then show ?thesis
    using parse_store_path [of dir t sp] base_name_bytes [of sp] parse_prefix [of sp "47 # inside" dir] parse_prefix [of sp "92 # inside" dir]
    unfolding base_name_def by auto
qed

theorem store_paths_parse_witness:
  "parseStorePath defaultStoreDir (storePathToText defaultStoreDir demo_path) = Some demo_path \<and>
   parseStorePathPrefix defaultStoreDir (storePathToText defaultStoreDir demo_path @ ascii ''/bin/sh'') = Some demo_path"
  using store_paths_parse [of defaultStoreDir "storePathToText defaultStoreDir demo_path" demo_path "ascii ''bin/sh''"] demo_path_valid
  by simp

subsection \<open>Derivations\<close>

lemma canonical_prints: "toATermForHash m s (canonical d) = toATermForHash m s d"
proof -
  have "atermInputDrv (case p of (sp, outs) \<Rightarrow> (sp, ascSet outs)) = atermInputDrv p" for p
    by (simp add: atermInputDrv_def sortNubText_def split: prod.split)
  then show ?thesis
    by (simp add: toATermForHash_def canonical_def atermOutputsWith_def atermInputSrcs_def atermInputDrvs_def sort_key_id_if_sorted
        comp_def split: option.split)
qed

text \<open>C15: The .drv of a derivation reads back as the derivation, in the order that printing fixes, and that order
  changes no byte. So two derivations have the same bytes, and the same hash, exactly when they are the same up to
  the order of outputs and sources and the repetition of output names.\<close>

theorem derivation_roundtrip:
  assumes "derivation_ok d"
  shows "fromATerm (toATerm d) = Inr (canonical d) \<and> toATerm (canonical d) = toATerm d \<and>
    (derivation_ok d' \<longrightarrow> (toATerm d = toATerm d' \<longleftrightarrow> canonical d = canonical d'))"
proof -
  note c = canonical_prints [of False None, folded toATerm_def]
  have "toATerm d = toATerm d' \<longleftrightarrow> canonical d = canonical d'" if "derivation_ok d'"
    using derivation_reads_back [OF assms] derivation_reads_back [OF that] c [of d] c [of d'] by (metis sum.inject(2))
  then show ?thesis using derivation_reads_back [OF assms] c by blast
qed

definition demo_drv :: derivation where
  "demo_drv = \<lparr>drvOutputs = [\<lparr>doName = ascii ''out'', doPath = demo_path, doHashAlgo = [], doHash = []\<rparr>,
       \<lparr>doName = ascii ''dev'', doPath = demo_path, doHashAlgo = [], doHash = []\<rparr>],
     drvInputDrvs = [(demo_path, [ascii ''out'', ascii ''out''])], drvInputSrcs = [], drvPlatform = X86_64_Linux,
     drvBuilder = [34, 10, 255], drvArgs = [[], ascii '']''], drvEnv = [(ascii ''k'', [92])]\<rparr>"

lemma demo_drv_ok: "derivation_ok demo_drv"
  by (simp add: demo_drv_def derivation_ok_def output_ok_def demo_path_valid platform_ok_def textToPlatform_def utf8_ascii)
    (simp add: name_ok_def isStorePathNameChar_def firstDashComponent_def)

theorem derivation_roundtrip_witness:
  "fromATerm (toATerm demo_drv) = Inr (canonical demo_drv) \<and> map doName (drvOutputs (canonical demo_drv)) = [ascii ''dev'', ascii ''out'']"
proof -
  have "map doName (drvOutputs (canonical demo_drv)) = [ascii ''dev'', ascii ''out'']"
    by (simp add: canonical_def demo_drv_def)
  then show ?thesis using derivation_roundtrip [OF demo_drv_ok] by simp
qed

text \<open>C16: The parser returns on every input, and what it accepts is well formed: valid paths and output names, UTF-8 in
  every text, maps in order. So whatever it accepts can be written and read again.\<close>

theorem parser_total:
  "fromATerm bs \<noteq> Inl NoFuel \<and>
   (fromATerm bs = Inr d \<longrightarrow> derivation_ok d \<and> fromATerm (toATerm d) = Inr (canonical d))"
proof -
  have "derivation_ok d" if "fromATerm bs = Inr d"
    using that soundD [OF sound_derivation, of bs] by (auto simp: fromATerm_def split: sum.splits if_splits)
  moreover have "fromATerm bs \<noteq> Inl NoFuel"
    using sound_fuel [OF sound_derivation, of bs] by (auto simp: fromATerm_def split: sum.splits if_splits)
  ultimately show ?thesis using derivation_reads_back by blast
qed

theorem parser_total_witness:
  "derivation_ok (canonical demo_drv) \<and> fromATerm (toATerm (canonical demo_drv)) = Inr (canonical (canonical demo_drv))"
  using parser_total [of "toATerm demo_drv" "canonical demo_drv"] derivation_reads_back [OF demo_drv_ok] by simp

subsection \<open>The form that is hashed\<close>

text \<open>The output names that some entries name for a key.\<close>

definition names_of :: "(hs_text \<times> hs_text list) list \<Rightarrow> hs_text \<Rightarrow> hs_text set option" where
  "names_of subs k = (if k \<in> fst ` set subs then Some (\<Union>(k', outs) \<in> set subs. if k' = k then set outs else {}) else None)"

lemma merged_names:
  "map_of (map_fromListWith (\<lambda>new old. ascSet (new @ old)) (map (\<lambda>(key, outs). (key, ascSet outs)) subs)) k =
     (case names_of subs k of None \<Rightarrow> None | Some ns \<Rightarrow> Some (sorted_list_of_set ns))"
proof (induction subs rule: rev_induct)
  case (snoc p subs)
  obtain key outs where p: "p = (key, outs)" by (cases p)
  have asc: "ascSet xs = sorted_list_of_set (set xs)" for xs :: "hs_text list"
    by (simp add: ascSet_def sorted_list_of_set_sort_remdups)
  show ?case
  proof (cases "key = k")
    case False
    then show ?thesis using snoc p by (simp add: fromListWith_snoc names_of_def)
  next
    case True
    have "sorted_list_of_set (set (ascSet outs @ sorted_list_of_set ns)) = sorted_list_of_set (ns \<union> set outs)" if "finite ns" for ns
      using that by (simp add: Un_commute)
    moreover have "finite ns" if "names_of subs k = Some ns" for ns
      using that by (auto simp: names_of_def split: if_splits)
    moreover have "names_of (subs @ [p]) k = Some (case names_of subs k of None \<Rightarrow> set outs | Some ns \<Rightarrow> ns \<union> set outs)"
    proof (cases "k \<in> fst ` set subs")
      case False
      then have "(\<Union>(k', outs) \<in> set subs. if k' = k then set outs else {}) = {}"
        by (fastforce simp: image_iff split: if_splits)
      then show ?thesis using False p True by (simp add: names_of_def)
    qed (use p True in \<open>simp add: names_of_def Un_commute\<close>)
    ultimately show ?thesis
      using snoc p True asc by (auto simp: fromListWith_snoc split: option.splits)
  qed
qed (simp add: map_fromListWith_def names_of_def)

lemma same_names_same_section:
  assumes "names_of subs = names_of subs'"
  shows "atermInputDrvsSubst subs = atermInputDrvsSubst subs'"
proof -
  let ?merge = "\<lambda>subs. map_fromListWith (\<lambda>new old. ascSet (new @ old)) (map (\<lambda>(key, outs). (key, ascSet outs)) subs)"
  have "?merge subs = ?merge subs'"
    by (rule ascending_eq) (simp_all add: merged_names assms fun_eq_iff)
  then show ?thesis by (simp add: atermInputDrvsSubst_def)
qed

lemma sort_key_of_map: "(\<And>x. k (f x) = k x) \<Longrightarrow> sort_key k (map f xs) = map f (sort_key k xs)"
proof (induction xs)
  case (Cons x xs)
  have "insort_key k (f x) (map f ys) = map f (insort_key k x ys)" for ys
    using Cons.prems by (induction ys) simp_all
  then show ?case using Cons by simp
qed simp

lemma masked_outputs: "atermOutputsWith True (map (\<lambda>out. out\<lparr>doPath := q out\<rparr>) outs) = atermOutputsWith True outs"
proof -
  have "renderOutput True (out\<lparr>doPath := sp\<rparr>) = renderOutput True out" for out sp by (simp add: renderOutput_def)
  then show ?thesis by (simp add: atermOutputsWith_def sort_key_of_map comp_def)
qed

text \<open>C17: What a derivation's own output paths are computed from does not depend on them, nor on the paths of its
  inputs: masked and with its inputs replaced by hashes, its form is the same whatever output paths and input
  paths it has, and for every order, grouping and repetition of the replaced inputs that names the same outputs
  for each hash.\<close>

theorem hashed_form_masks:
  assumes "names_of subs = names_of subs'"
  shows "toATermForHash True (Some subs)
      (d\<lparr>drvOutputs := map (\<lambda>out. out\<lparr>doPath := q out\<rparr>) (drvOutputs d), drvInputDrvs := inputs\<rparr>) =
    toATermForHash True (Some subs') d"
  using same_names_same_section [OF assms] by (simp add: toATermForHash_def masked_outputs)

theorem hashed_form_masks_witness:
  "toATermForHash True (Some [(ascii ''b'', [ascii ''out'']), (ascii ''a'', []), (ascii ''b'', [ascii ''dev'', ascii ''out''])])
     (demo_drv\<lparr>drvOutputs := map (\<lambda>out. out\<lparr>doPath := StorePath [] []\<rparr>) (drvOutputs demo_drv), drvInputDrvs := []\<rparr>) =
   toATermForHash True (Some [(ascii ''a'', []), (ascii ''b'', [ascii ''dev'', ascii ''out''])]) demo_drv"
  by (rule hashed_form_masks) (auto simp: names_of_def fun_eq_iff)

end
