(* ===== verification/Nova_Graph.thy ===== *)
theory Nova_Graph
  imports Nova_Derivation
begin

section \<open>DependencyGraph.hs: dependency graphs and their order\<close>

text \<open>
  The graph of a derivation's inputs, the order to build it in and its queries (src/src/Nix/DependencyGraph.hs). A
  queue (\<open>Seq\<close>) is a list, a \<open>Map\<close> an ascending list. The monad of the reader of .drv files threads a
  state; \<open>buildDepGraph\<close> is None when the search does not end.
\<close>

record dep_node =
  dnDrvPath :: store_path
  dnDerivation :: derivation
  dnDeps :: "store_path list"

type_synonym dep_graph = "(store_path \<times> dep_node) list"

datatype topo_result = TopoSorted "store_path list" | TopoCycle "store_path list"

subsection \<open>Construction\<close>

text \<open>\<open>ExceptT\<close> over the reader's monad: the first failure ends the traversal.\<close>

fun resolveAll ::
  "(store_path \<Rightarrow> 's \<Rightarrow> ('err + derivation) \<times> 's) \<Rightarrow> store_path list \<Rightarrow> 's \<Rightarrow> ('err + (store_path \<times> derivation) list) \<times> 's"
  where
  "resolveAll readDrv [] s = (Inr [], s)"
| "resolveAll readDrv (dep # deps) s = (case readDrv dep s of
     (Inl err, s1) \<Rightarrow> (Inl err, s1)
   | (Inr drv, s1) \<Rightarrow> (case resolveAll readDrv deps s1 of
       (Inl err, s2) \<Rightarrow> (Inl err, s2)
     | (Inr items, s2) \<Rightarrow> (Inr ((dep, drv) # items), s2)))"

definition resolveNewDeps ::
  "(store_path \<Rightarrow> 's \<Rightarrow> ('err + derivation) \<times> 's) \<Rightarrow> dep_graph \<Rightarrow> store_path list \<Rightarrow> 's \<Rightarrow>
     ('err + (store_path \<times> derivation) list) \<times> 's" where
  "resolveNewDeps readDrv visited deps = resolveAll readDrv (filter (\<lambda>dep. \<not> map_member dep visited) deps)"

definition node_of :: "store_path \<Rightarrow> derivation \<Rightarrow> dep_node" where
  "node_of sp drv = \<lparr>dnDrvPath = sp, dnDerivation = drv, dnDeps = map fst (drvInputDrvs drv)\<rparr>"

partial_function (option) build_go ::
  "(store_path \<Rightarrow> 's \<Rightarrow> ('err + derivation) \<times> 's) \<Rightarrow> dep_graph \<Rightarrow> (store_path \<times> derivation) list \<Rightarrow> 's \<Rightarrow>
     (('err + dep_graph) \<times> 's) option" where
  "build_go readDrv visited queue s = (case queue of
     [] \<Rightarrow> Some (Inr visited, s)
   | (sp, drv) # rest \<Rightarrow>
       if map_member sp visited then build_go readDrv visited rest s
       else (case resolveNewDeps readDrv (map_insert sp (node_of sp drv) visited) (dnDeps (node_of sp drv)) s of
           (Inl err, s1) \<Rightarrow> Some (Inl err, s1)
         | (Inr newItems, s1) \<Rightarrow> build_go readDrv (map_insert sp (node_of sp drv) visited) (rest @ newItems) s1))"

definition buildDepGraph ::
  "(store_path \<Rightarrow> 's \<Rightarrow> ('err + derivation) \<times> 's) \<Rightarrow> derivation \<Rightarrow> store_path \<Rightarrow> 's \<Rightarrow> (('err + dep_graph) \<times> 's) option" where
  "buildDepGraph readDrv rootDrv rootPath s = build_go readDrv [] [(rootPath, rootDrv)] s"

subsection \<open>Kahn's algorithm\<close>

definition countGraphDeps :: "store_path list \<Rightarrow> dep_node \<Rightarrow> int" where
  "countGraphDeps allNodes node = int (length (filter (\<lambda>d. d \<in> set allNodes) (dnDeps node)))"

definition addReverse ::
  "store_path list \<Rightarrow> (store_path \<times> store_path list) list \<Rightarrow> store_path \<times> dep_node \<Rightarrow> (store_path \<times> store_path list) list" where
  "addReverse allNodes acc p = (case p of (sp, node) \<Rightarrow>
     foldl (\<lambda>acc dep. map_adjust (\<lambda>sps. sp # sps) dep acc) acc (filter (\<lambda>d. d \<in> set allNodes) (dnDeps node)))"

definition buildReverseAdj :: "dep_graph \<Rightarrow> store_path list \<Rightarrow> (store_path \<times> store_path list) list" where
  "buildReverseAdj graph allNodes = foldl (addReverse allNodes) (map (\<lambda>sp. (sp, [])) allNodes) graph"

definition decrement_step ::
  "(store_path \<times> int) list \<times> store_path list \<Rightarrow> store_path \<Rightarrow> (store_path \<times> int) list \<times> store_path list" where
  "decrement_step p dep = (case p of (counts, zeros) \<Rightarrow>
     let newDeg = (case map_of counts dep of None \<Rightarrow> 0 | Some n \<Rightarrow> n - 1);
         updatedCounts = map_insert dep newDeg counts
     in if newDeg = 0 then (updatedCounts, dep # zeros) else (updatedCounts, zeros))"

definition decrementDependents ::
  "(store_path \<times> int) list \<Rightarrow> store_path list \<Rightarrow> (store_path \<times> int) list \<times> store_path list" where
  "decrementDependents dc deps = foldl decrement_step (dc, []) deps"

text \<open>The nodes of a set that are not counted down yet: each turn of the loop leaves fewer, or a shorter queue.\<close>

definition pending_nodes :: "store_path set \<Rightarrow> (store_path \<times> int) list \<Rightarrow> store_path set" where
  "pending_nodes U dc = {k \<in> U. case map_of dc k of None \<Rightarrow> True | Some n \<Rightarrow> 0 < n}"

lemma decrement_pending:
  assumes "decrementDependents dc deps = (dc', zeros)" and "set deps \<subseteq> U"
  shows "pending_nodes U dc' \<subseteq> pending_nodes U dc" and "zeros \<noteq> [] \<Longrightarrow> pending_nodes U dc' \<noteq> pending_nodes U dc"
proof -
  have "pending_nodes U dc' \<subseteq> pending_nodes U dc \<and> set zeros \<subseteq> pending_nodes U dc - pending_nodes U dc'"
    using assms
  proof (induction deps arbitrary: dc' zeros rule: rev_induct)
    case Nil
    then show ?case by (simp add: decrementDependents_def)
  next
    case (snoc d deps)
    obtain c z where cz: "decrementDependents dc deps = (c, z)" by fastforce
    have s: "decrement_step (c, z) d = (dc', zeros)" using snoc.prems(1) cz by (simp add: decrementDependents_def)
    have "pending_nodes U dc' \<subseteq> pending_nodes U c \<and> set zeros \<subseteq> set z \<union> (pending_nodes U c - pending_nodes U dc')"
      using s snoc.prems(2)
      by (auto simp: decrement_step_def pending_nodes_def Let_def split: if_splits option.splits)
    then show ?case using snoc.IH [OF cz] snoc.prems(2) by auto
  qed
  then show "pending_nodes U dc' \<subseteq> pending_nodes U dc" and "zeros \<noteq> [] \<Longrightarrow> pending_nodes U dc' \<noteq> pending_nodes U dc"
    by (auto dest: subsetD [of "set zeros" _ "hd zeros"])
qed

definition dependents_of :: "(store_path \<times> store_path list) list \<Rightarrow> store_path \<Rightarrow> store_path list" where
  "dependents_of reverseAdj sp = (case map_of reverseAdj sp of None \<Rightarrow> [] | Some sps \<Rightarrow> sps)"

function kahnLoop ::
  "(store_path \<times> store_path list) list \<Rightarrow> (store_path \<times> int) list \<Rightarrow> store_path list \<Rightarrow> store_path list \<Rightarrow> int \<Rightarrow> int \<Rightarrow> topo_result"
  where
  "kahnLoop reverseAdj depCount [] ordered sortedCount totalNodes =
     (if sortedCount = totalNodes then TopoSorted (rev ordered) else TopoCycle (rev ordered))"
| "kahnLoop reverseAdj depCount (sp # rest) ordered sortedCount totalNodes =
     (case decrementDependents depCount (dependents_of reverseAdj sp) of (updatedDepCount, newZero) \<Rightarrow>
        kahnLoop reverseAdj updatedDepCount (rest @ newZero) (sp # ordered) (sortedCount + 1) totalNodes)"
  by pat_completeness auto
termination
proof (relation "inv_image (less_than <*lex*> less_than)
    (\<lambda>(radj, dc, queue, _). (card (pending_nodes (\<Union>(set ` snd ` set radj)) dc), length queue))")
  fix radj :: "(store_path \<times> store_path list) list" and dc queue sp rest ordered and sortedCount totalNodes :: int and dc' zeros
  assume "(dc', zeros) = decrementDependents dc (dependents_of radj sp)"
  then have d: "decrementDependents dc (dependents_of radj sp) = (dc', zeros)" by simp
  let ?U = "\<Union>(set ` snd ` set radj)"
  have sub: "set (dependents_of radj sp) \<subseteq> ?U"
    by (cases "map_of radj sp") (force simp: dependents_of_def dest: map_of_SomeD)+
  have fin: "finite (pending_nodes ?U dc)" by (simp add: pending_nodes_def)
  show "((radj, dc', rest @ zeros, sp # ordered, sortedCount + 1, totalNodes), (radj, dc, sp # rest, ordered, sortedCount, totalNodes))
      \<in> inv_image (less_than <*lex*> less_than) (\<lambda>(radj, dc, queue, _). (card (pending_nodes (\<Union>(set ` snd ` set radj)) dc), length queue))"
  proof (cases "zeros = []")
    case True
    then show ?thesis using card_mono [OF fin decrement_pending(1) [OF d sub]] by auto
  next
    case False
    then have "pending_nodes ?U dc' \<subset> pending_nodes ?U dc" using decrement_pending [OF d sub] by auto
    then show ?thesis using psubset_card_mono [OF fin] by simp
  qed
qed auto

definition topoSort :: "dep_graph \<Rightarrow> topo_result" where
  "topoSort graph =
     (let allNodes = map fst graph;
          depCount = map (\<lambda>(sp, node). (sp, countGraphDeps allNodes node)) graph;
          reverseAdj = buildReverseAdj graph allNodes;
          zeroQueue = map fst (filter (\<lambda>(sp, n). n = 0) depCount);
          totalNodes = int (length graph)
      in kahnLoop reverseAdj depCount zeroQueue [] 0 totalNodes)"

subsection \<open>Queries\<close>

definition directDeps :: "dep_graph \<Rightarrow> store_path \<Rightarrow> store_path list" where
  "directDeps graph sp = (case map_of graph sp of None \<Rightarrow> [] | Some node \<Rightarrow> dnDeps node)"

definition named_deps :: "dep_graph \<Rightarrow> store_path set" where
  "named_deps graph = (\<Union>node \<in> snd ` set graph. set (dnDeps node))"

lemma directDeps_named: "set (directDeps graph sp) \<subseteq> named_deps graph"
  by (cases "map_of graph sp") (force simp: directDeps_def named_deps_def dest: map_of_SomeD)+

function (sequential) trans_go :: "dep_graph \<Rightarrow> store_path set \<Rightarrow> store_path list \<Rightarrow> store_path set"
  and enqueueFresh :: "dep_graph \<Rightarrow> store_path set \<Rightarrow> store_path list \<Rightarrow> store_path list \<Rightarrow> store_path set" where
  "trans_go graph visited [] = visited"
| "trans_go graph visited (sp # rest) = enqueueFresh graph visited rest (directDeps graph sp)"
| "enqueueFresh graph visited queue [] = trans_go graph visited queue"
| "enqueueFresh graph visited queue (dep # others) =
     (if dep \<in> visited then enqueueFresh graph visited queue others
      else enqueueFresh graph (insert dep visited) (queue @ [dep]) others)"
  by pat_completeness auto
termination
proof (relation "inv_image (less_than <*lex*> less_than <*lex*> less_than)
    (\<lambda>x. case x of
       Inl (graph, visited, queue) \<Rightarrow> (card (named_deps graph - visited), length queue, 0)
     | Inr (graph, visited, queue, deps) \<Rightarrow> (card (named_deps graph \<union> set deps - visited), length queue, Suc (length deps)))")
  fix graph :: dep_graph and visited :: "store_path set" and queue dep and others :: "store_path list"
  have fin: "finite (named_deps graph)" by (simp add: named_deps_def)
  assume "dep \<notin> visited"
  then have "named_deps graph \<union> set others - insert dep visited \<subset> named_deps graph \<union> set (dep # others) - visited" by auto
  from psubset_card_mono [OF _ this] fin
  show "(Inr (graph, insert dep visited, queue @ [dep], others), Inr (graph, visited, queue, dep # others)) \<in>
     inv_image (less_than <*lex*> less_than <*lex*> less_than)
    (\<lambda>x. case x of
       Inl (graph, visited, queue) \<Rightarrow> (card (named_deps graph - visited), length queue, 0)
     | Inr (graph, visited, queue, deps) \<Rightarrow> (card (named_deps graph \<union> set deps - visited), length queue, Suc (length deps)))"
    by simp
next
  fix graph :: dep_graph and visited :: "store_path set" and queue dep and others :: "store_path list"
  have fin: "finite (named_deps graph)" by (simp add: named_deps_def)
  assume "dep \<in> visited"
  then have "named_deps graph \<union> set others - visited = named_deps graph \<union> set (dep # others) - visited" by auto
  then show "(Inr (graph, visited, queue, others), Inr (graph, visited, queue, dep # others)) \<in>
     inv_image (less_than <*lex*> less_than <*lex*> less_than)
    (\<lambda>x. case x of
       Inl (graph, visited, queue) \<Rightarrow> (card (named_deps graph - visited), length queue, 0)
     | Inr (graph, visited, queue, deps) \<Rightarrow> (card (named_deps graph \<union> set deps - visited), length queue, Suc (length deps)))"
    by simp
qed (auto simp: Un_absorb2 [OF directDeps_named])

text \<open>\<open>maybe [] dnDeps . lookup\<close> in the walk is \<open>directDeps\<close>.\<close>

definition transitiveDeps :: "dep_graph \<Rightarrow> store_path \<Rightarrow> store_path set" where
  "transitiveDeps graph root = trans_go graph {root} [root] - {root}"

end
