(* ===== verification/Nova_Realise.thy ===== *)
theory Nova_Realise
  imports Nova_Graph
begin

section \<open>Realise.hs: what to substitute, what to build, in what order\<close>

text \<open>
  The decisions of src/src/Nix/Realise.hs over the effects it is given: a record of functions on a state, which
  stands for the store, the caches and the builder. A set is a set, its ascending list the sorted list of it. The two
  recursions follow references and dependencies; their fuel bounds the depth, and running out of it is an outcome
  of its own.
\<close>

subsection \<open>Substituting a closure\<close>

datatype offer = Offered "store_path list" | NotOffered | QueryFailed hs_text

datatype fetch_outcome = Fetched | FetchMissed | FetchFailed

datatype closure_outcome =
    ClosureComplete
  | ClosureUnavailable
  | ClosureIncomplete
  | ClosureFailed
  | ClosureQueryFailed hs_text
  | ClosureOutOfFuel

record 's subst_effects =
  seValid :: "store_path \<Rightarrow> 's \<Rightarrow> bool \<times> 's"
  seReferences :: "store_path \<Rightarrow> 's \<Rightarrow> offer \<times> 's"
  seFetch :: "store_path list \<Rightarrow> 's \<Rightarrow> fetch_outcome \<times> 's"

text \<open>\<open>filterM (fmap not . seValid effects)\<close>.\<close>

fun missing_paths :: "'s subst_effects \<Rightarrow> store_path list \<Rightarrow> 's \<Rightarrow> store_path list \<times> 's" where
  "missing_paths eff [] s = ([], s)"
| "missing_paths eff (p # ps) s = (case seValid eff p s of
     (valid, s1) \<Rightarrow> (case missing_paths eff ps s1 of
       (missing, s2) \<Rightarrow> (if valid then missing else p # missing, s2)))"

fun offeredReferences :: "offer \<Rightarrow> hs_text + store_path list option" where
  "offeredReferences (Offered references) = Inr (Some references)"
| "offeredReferences NotOffered = Inr None"
| "offeredReferences (QueryFailed failure) = Inl failure"

text \<open>\<open>runExceptT (traverse (ExceptT . fmap offeredReferences . seReferences effects) missing)\<close>: a failed query is
  the last one asked.\<close>

fun declared_references :: "'s subst_effects \<Rightarrow> store_path list \<Rightarrow> 's \<Rightarrow> (hs_text + store_path list option list) \<times> 's" where
  "declared_references eff [] s = (Inr [], s)"
| "declared_references eff (p # ps) s = (case seReferences eff p s of
     (answer, s1) \<Rightarrow> (case offeredReferences answer of
       Inl failure \<Rightarrow> (Inl failure, s1)
     | Inr references \<Rightarrow> (case declared_references eff ps s1 of
         (Inl failure, s2) \<Rightarrow> (Inl failure, s2)
       | (Inr others, s2) \<Rightarrow> (Inr (references # others), s2))))"

fun fetchedClosure :: "fetch_outcome \<Rightarrow> closure_outcome" where
  "fetchedClosure Fetched = ClosureComplete"
| "fetchedClosure FetchMissed = ClosureUnavailable"
| "fetchedClosure FetchFailed = ClosureFailed"

function closureOf ::
  "nat \<Rightarrow> 's subst_effects \<Rightarrow> store_path set \<Rightarrow> store_path list \<Rightarrow> 's \<Rightarrow> (closure_outcome \<times> store_path set) \<times> 's"
  and referencesFirst ::
  "nat \<Rightarrow> 's subst_effects \<Rightarrow> store_path set \<Rightarrow> store_path list \<Rightarrow> 's \<Rightarrow> (closure_outcome \<times> store_path set) \<times> 's"
  where
  "closureOf 0 eff visited paths s = ((ClosureOutOfFuel, visited), s)"
| "closureOf (Suc n) eff visited paths s =
     (case missing_paths eff paths s of (missing, s1) \<Rightarrow>
      case declared_references eff missing s1 of (declared, s2) \<Rightarrow>
      if missing = [] then ((ClosureComplete, visited), s2)
      else case declared of
        Inl failure \<Rightarrow> ((ClosureQueryFailed failure, visited), s2)
      | Inr answers \<Rightarrow> (case those answers of
          None \<Rightarrow> ((ClosureUnavailable, visited), s2)
        | Some references \<Rightarrow>
            (case referencesFirst n eff visited (ascSet (filter (\<lambda>r. r \<notin> set missing) (concat references))) s2 of
               ((held, deeper), s3) \<Rightarrow>
                 if held = ClosureComplete then
                   (case seFetch eff missing s3 of (fetched, s4) \<Rightarrow> ((fetchedClosure fetched, deeper), s4))
                 else ((held, deeper), s3))))"
| "referencesFirst n eff visited [] s = ((ClosureComplete, visited), s)"
| "referencesFirst n eff visited (reference # rest) s =
     (if reference \<in> visited then referencesFirst n eff visited rest s
      else case closureOf n eff (insert reference visited) [reference] s of
        ((outcome, deeper), s1) \<Rightarrow> (case outcome of
          ClosureComplete \<Rightarrow> referencesFirst n eff deeper rest s1
        | ClosureUnavailable \<Rightarrow> ((ClosureIncomplete, deeper), s1)
        | ClosureIncomplete \<Rightarrow> ((ClosureIncomplete, deeper), s1)
        | ClosureFailed \<Rightarrow> ((ClosureFailed, deeper), s1)
        | ClosureQueryFailed failure \<Rightarrow> ((ClosureQueryFailed failure, deeper), s1)
        | ClosureOutOfFuel \<Rightarrow> ((ClosureOutOfFuel, deeper), s1)))"
  by pat_completeness auto
termination
  by (relation "inv_image (less_than <*lex*> less_than)
      (\<lambda>x. case x of Inl (n, _) \<Rightarrow> (n, 0) | Inr (n, _, _, refs, _) \<Rightarrow> (n, Suc (length refs)))") auto

definition substituteClosure :: "nat \<Rightarrow> 's subst_effects \<Rightarrow> store_path list \<Rightarrow> 's \<Rightarrow> closure_outcome \<times> 's" where
  "substituteClosure n eff paths s = (case closureOf n eff (set paths) paths s of ((outcome, _), s1) \<Rightarrow> (outcome, s1))"

subsection \<open>Realising a graph\<close>

datatype fallback = NoFallback | BuildFromSource

datatype realise_failure =
    BuildFailed hs_text
  | CacheQueryFailed hs_text
  | SubstitutesFailed store_path
  | RealiseOutOfFuel

datatype realised = AlreadyValid | Substituted | Built

record 's realise_effects =
  reSubst :: "'s subst_effects"
  reAllValid :: "derivation \<Rightarrow> 's \<Rightarrow> bool \<times> 's"
  reBuild :: "derivation \<Rightarrow> store_path \<Rightarrow> 's \<Rightarrow> (hs_text + unit) \<times> 's"
  reReport :: "realised \<Rightarrow> derivation \<Rightarrow> 's \<Rightarrow> 's"

fun substitutionStop :: "fallback \<Rightarrow> store_path \<Rightarrow> closure_outcome \<Rightarrow> realise_failure option" where
  "substitutionStop fb drvPath (ClosureQueryFailed failure) = Some (CacheQueryFailed failure)"
| "substitutionStop fb drvPath ClosureFailed =
     (case fb of NoFallback \<Rightarrow> Some (SubstitutesFailed drvPath) | BuildFromSource \<Rightarrow> None)"
| "substitutionStop fb drvPath ClosureComplete = None"
| "substitutionStop fb drvPath ClosureUnavailable = None"
| "substitutionStop fb drvPath ClosureIncomplete = None"
| "substitutionStop fb drvPath ClosureOutOfFuel = Some RealiseOutOfFuel"

definition substituteOutputs :: "nat \<Rightarrow> 's realise_effects \<Rightarrow> derivation \<Rightarrow> 's \<Rightarrow> closure_outcome \<times> 's" where
  "substituteOutputs k eff drv s = substituteClosure k (reSubst eff) (map doPath (drvOutputs drv)) s"

definition reported ::
  "'s realise_effects \<Rightarrow> realised \<Rightarrow> derivation \<Rightarrow> store_path set \<Rightarrow> 's \<Rightarrow> (realise_failure + store_path set) \<times> 's" where
  "reported eff status drv done_set s = (Inr done_set, reReport eff status drv s)"

text \<open>After the inputs: \<open>ClosureIncomplete\<close> is retried, then the substitute is taken, its failure reported or the derivation built.\<close>

definition retried ::
  "nat \<Rightarrow> 's realise_effects \<Rightarrow> derivation \<Rightarrow> closure_outcome \<Rightarrow> 's \<Rightarrow> closure_outcome \<times> 's" where
  "retried k eff drv firstTry s = (if firstTry = ClosureIncomplete then substituteOutputs k eff drv s else (firstTry, s))"

definition build_one ::
  "'s realise_effects \<Rightarrow> derivation \<Rightarrow> store_path \<Rightarrow> store_path set \<Rightarrow> 's \<Rightarrow> (realise_failure + store_path set) \<times> 's" where
  "build_one eff drv node realised s = (case reBuild eff drv node s of
     (Inl err, s1) \<Rightarrow> (Inl (BuildFailed err), s1)
   | (Inr _, s1) \<Rightarrow> reported eff Built drv realised s1)"

definition settle ::
  "'s realise_effects \<Rightarrow> fallback \<Rightarrow> store_path \<Rightarrow> derivation \<Rightarrow> store_path set \<Rightarrow> closure_outcome \<Rightarrow>
     ('s \<Rightarrow> (realise_failure + store_path set) \<times> 's) \<Rightarrow> 's \<Rightarrow> (realise_failure + store_path set) \<times> 's" where
  "settle eff fb node drv done_set outcome otherwise_do s =
     (if outcome = ClosureComplete then reported eff Substituted drv done_set s
      else case substitutionStop fb node outcome of
        Some failure \<Rightarrow> (Inl failure, s)
      | None \<Rightarrow> otherwise_do s)"

function realiseNode ::
  "nat \<Rightarrow> nat \<Rightarrow> fallback \<Rightarrow> 's realise_effects \<Rightarrow> dep_graph \<Rightarrow> store_path set \<Rightarrow> store_path \<Rightarrow> 's \<Rightarrow>
     (realise_failure + store_path set) \<times> 's"
  and realiseAll ::
  "nat \<Rightarrow> nat \<Rightarrow> fallback \<Rightarrow> 's realise_effects \<Rightarrow> dep_graph \<Rightarrow> store_path set \<Rightarrow> store_path list \<Rightarrow> 's \<Rightarrow>
     (realise_failure + store_path set) \<times> 's"
  where
  "realiseNode k 0 fb eff graph visited node s = (Inl RealiseOutOfFuel, s)"
| "realiseNode k (Suc n) fb eff graph visited node s =
     (if node \<in> visited then (Inr visited, s)
      else case map_of graph node of
        None \<Rightarrow> (Inr visited, s)
      | Some depNode \<Rightarrow>
          (let drv = dnDerivation depNode; seen = insert node visited in
           case reAllValid eff drv s of (allValid, s1) \<Rightarrow>
           if allValid then reported eff AlreadyValid drv seen s1
           else case substituteOutputs k eff drv s1 of (firstTry, s2) \<Rightarrow>
             settle eff fb node drv seen firstTry
               (\<lambda>s2. case realiseAll k n fb eff graph seen (directDeps graph node) s2 of
                  (Inl err, s3) \<Rightarrow> (Inl err, s3)
                | (Inr realised, s3) \<Rightarrow> (case retried k eff drv firstTry s3 of
                    (again, s4) \<Rightarrow> settle eff fb node drv realised again (build_one eff drv node realised) s4)) s2))"
| "realiseAll k n fb eff graph visited [] s = (Inr visited, s)"
| "realiseAll k n fb eff graph visited (node # rest) s =
     (case realiseNode k n fb eff graph visited node s of
        (Inl err, s1) \<Rightarrow> (Inl err, s1)
      | (Inr deeper, s1) \<Rightarrow> realiseAll k n fb eff graph deeper rest s1)"
  by pat_completeness auto
termination
  by (relation "inv_image (less_than <*lex*> less_than)
      (\<lambda>x. case x of Inl (_, n, _) \<Rightarrow> (n, 0) | Inr (_, n, _, _, _, _, ns, _) \<Rightarrow> (n, Suc (length ns)))") auto

definition realise ::
  "nat \<Rightarrow> nat \<Rightarrow> fallback \<Rightarrow> 's realise_effects \<Rightarrow> dep_graph \<Rightarrow> store_path \<Rightarrow> 's \<Rightarrow> (realise_failure + unit) \<times> 's" where
  "realise k n fb eff graph root s = (case realiseNode k n fb eff graph {} root s of
     (Inl failure, s1) \<Rightarrow> (Inl failure, s1)
   | (Inr _, s1) \<Rightarrow> (Inr (), s1))"

end
