(* ===== verification/Nova_Graph_Spec.thy ===== *)
theory Nova_Graph_Spec
  imports Nova_Graph
begin

section \<open>Orders of dependency graphs\<close>

text \<open>
  Kahn's algorithm lists the nodes that reach no cycle, each after what it depends on. The invariant of its loop
  relates the counts to the dependencies that are not listed yet, with their repetitions.
\<close>

definition nodes :: "dep_graph \<Rightarrow> store_path set" where
  "nodes g = set (map fst g)"

definition deps_in :: "dep_graph \<Rightarrow> store_path \<Rightarrow> store_path list" where
  "deps_in g v = filter (\<lambda>d. d \<in> nodes g) (directDeps g v)"

text \<open>A node and what it depends on, within the graph.\<close>

definition edges :: "dep_graph \<Rightarrow> (store_path \<times> store_path) set" where
  "edges g = {(v, d). d \<in> set (deps_in g v)}"

definition deps_first :: "dep_graph \<Rightarrow> store_path list \<Rightarrow> bool" where
  "deps_first g xs \<longleftrightarrow> (\<forall>ys v zs. xs = ys @ v # zs \<longrightarrow> set (deps_in g v) \<subseteq> set ys)"

lemma directDeps_outside: "v \<notin> nodes g \<Longrightarrow> directDeps g v = []"
  by (simp add: nodes_def directDeps_def map_of_eq_None_iff [THEN iffD2])

lemma edges_nodes: "edges g \<subseteq> nodes g \<times> nodes g"
  using directDeps_outside by (fastforce simp: edges_def deps_in_def)

lemma finite_edges: "finite (edges g)"
  by (rule finite_subset [OF edges_nodes]) (simp add: nodes_def)

subsection \<open>The reverse adjacency\<close>

lemma dependents_adjust:
  "dependents_of (map_adjust (\<lambda>sps. sp # sps) dep acc) d =
     (if d = dep \<and> d \<in> set (map fst acc) then sp # dependents_of acc d else dependents_of acc d)"
  using map_of_eq_None_iff [of acc d] by (cases "map_of acc d") (auto simp: dependents_of_def map_of_adjust)

lemma dependents_reverse:
  "count_list (dependents_of (foldl (\<lambda>acc dep. map_adjust (\<lambda>sps. sp # sps) dep acc) acc ds) d) v =
     count_list (dependents_of acc d) v + (if d \<in> set (map fst acc) \<and> sp = v then count_list ds d else 0)
   \<and> map fst (foldl (\<lambda>acc dep. map_adjust (\<lambda>sps. sp # sps) dep acc) acc ds) = map fst acc"
  by (induction ds arbitrary: acc) (simp_all add: dependents_adjust)

lemma reverse_counts:
  "count_list (dependents_of (foldl (addReverse V) acc g) d) v = count_list (dependents_of acc d) v +
     (if d \<in> set (map fst acc) then \<Sum>(sp, node) \<leftarrow> g. if sp = v then count_list (filter (\<lambda>d. d \<in> set V) (dnDeps node)) d else 0 else 0)"
proof (induction g arbitrary: acc)
  case (Cons p g)
  obtain sp node where p: "p = (sp, node)" by (cases p)
  have k: "map fst (addReverse V acc p) = map fst acc"
    using dependents_reverse [of sp acc "filter (\<lambda>d. d \<in> set V) (dnDeps node)"] by (simp add: addReverse_def p)
  have "count_list (dependents_of (addReverse V acc p) d) v = count_list (dependents_of acc d) v +
      (if d \<in> set (map fst acc) \<and> sp = v then count_list (filter (\<lambda>d. d \<in> set V) (dnDeps node)) d else 0)"
    using dependents_reverse [of sp acc "filter (\<lambda>d. d \<in> set V) (dnDeps node)" d v] by (simp add: addReverse_def p)
  then show ?case unfolding foldl_Cons Cons.IH k using p by simp
qed simp

lemma sum_one_key:
  "distinct (map fst g) \<Longrightarrow>
   (\<Sum>(sp, node) \<leftarrow> g. if sp = v then f node else 0) = (case map_of g v of None \<Rightarrow> 0 :: nat | Some node \<Rightarrow> f node)"
proof (induction g)
  case (Cons p g)
  obtain sp node where p: "p = (sp, node)" by (cases p)
  show ?case
  proof (cases "sp = v")
    case True
    then have "map_of g v = None" using Cons.prems p by (simp add: map_of_eq_None_iff)
    then show ?thesis using Cons p True by simp
  qed (use Cons p in simp)
qed simp

lemma dependents_count:
  assumes "distinct (map fst g)"
  shows "count_list (dependents_of (buildReverseAdj g (map fst g)) d) v = count_list (deps_in g v) d"
proof -
  have e: "dependents_of (map (\<lambda>sp. (sp, [])) V) d = []" for V :: "store_path list"
    by (induction V) (auto simp: dependents_of_def)
  have k: "map fst (map (\<lambda>sp. (sp, [] :: store_path list)) V) = V" for V by (induction V) simp_all
  have "d \<notin> nodes g \<Longrightarrow> count_list (deps_in g v) d = 0" by (simp add: deps_in_def count_list_0_iff)
  moreover have "count_list (deps_in g v) d =
      (case map_of g v of None \<Rightarrow> 0 | Some node \<Rightarrow> count_list (filter (\<lambda>d. d \<in> set (map fst g)) (dnDeps node)) d)"
    by (simp add: deps_in_def directDeps_def nodes_def split: option.split)
  ultimately show ?thesis
    unfolding buildReverseAdj_def reverse_counts e k sum_one_key [OF assms] by (simp add: nodes_def)
qed

subsection \<open>Counting down\<close>

lemma decrements:
  assumes "decrementDependents dc L = (dc', zeros)" and "\<forall>v \<in> set L. \<exists>n. map_of dc v = Some n \<and> int (count_list L v) \<le> n"
  shows "(\<forall>v. map_of dc' v = map_option (\<lambda>n. n - int (count_list L v)) (map_of dc v)) \<and>
    set zeros = {v \<in> set L. map_of dc v = Some (int (count_list L v))} \<and> distinct zeros"
  using assms
proof (induction L arbitrary: dc' zeros rule: rev_induct)
  case Nil
  then show ?case by (simp add: decrementDependents_def option.map_ident)
next
  case (snoc d L)
  obtain c z where cz: "decrementDependents dc L = (c, z)" by fastforce
  have s: "decrement_step (c, z) d = (dc', zeros)" using snoc.prems(1) cz by (simp add: decrementDependents_def)
  have le: "\<exists>n. map_of dc v = Some n \<and> int (count_list L v) + (if v = d then 1 else 0) \<le> n" if "v \<in> set L \<or> v = d" for v
    using snoc.prems(2) that by (auto simp: ac_simps)
  have "\<exists>n. map_of dc v = Some n \<and> int (count_list L v) \<le> n" if "v \<in> set L" for v
    using le [of v] that by (auto split: if_splits)
  then have "\<forall>v \<in> set L. \<exists>n. map_of dc v = Some n \<and> int (count_list L v) \<le> n" by blast
  note ih = snoc.IH [OF cz this]
  obtain n where n: "map_of dc d = Some n" "int (count_list L d) + 1 \<le> n" using le [of d] by auto
  have m: "map_of c d = Some (n - int (count_list L d))" using ih n by simp
  let ?deg = "n - int (count_list L d) - 1"
  have c': "dc' = map_insert d ?deg c" "zeros = (if ?deg = 0 then d # z else z)"
    using s m by (auto simp: decrement_step_def Let_def split: if_splits)
  have "\<forall>v. map_of dc' v = map_option (\<lambda>n. n - int (count_list (L @ [d]) v)) (map_of dc v)"
    using ih n c' by (auto simp: option.map_comp comp_def)
  moreover have nz: "d \<notin> set z" using ih n by auto
  have "v \<in> set zeros \<longleftrightarrow> v \<in> set (L @ [d]) \<and> map_of dc v = Some (int (count_list (L @ [d]) v))" for v
  proof (cases "v = d")
    case True
    then show ?thesis using n c' nz by auto
  next
    case False
    then show ?thesis using ih c' by auto
  qed
  then have "set zeros = {v \<in> set (L @ [d]). map_of dc v = Some (int (count_list (L @ [d]) v))}" by blast
  moreover have "distinct zeros" using ih c' nz by simp
  ultimately show ?case by blast
qed

lemma filter_count: "length (filter (\<lambda>d. d \<notin> S) ds) = length (filter (\<lambda>d. d \<notin> insert x S) ds) + (if x \<in> S then 0 else count_list ds x)"
  by (induction ds) auto

subsection \<open>The loop\<close>

definition kahn_inv :: "dep_graph \<Rightarrow> (store_path \<times> int) list \<Rightarrow> store_path list \<Rightarrow> store_path list \<Rightarrow> bool" where
  "kahn_inv g dc queue listed \<longleftrightarrow>
     distinct (queue @ listed) \<and> set (queue @ listed) \<subseteq> nodes g \<and>
     (\<forall>v \<in> nodes g. map_of dc v = Some (int (length (filter (\<lambda>d. d \<notin> set listed) (deps_in g v))))) \<and>
     (\<forall>v \<in> nodes g. v \<in> set queue \<union> set listed \<longleftrightarrow> set (deps_in g v) \<subseteq> set listed) \<and>
     deps_first g (rev listed)"

lemma deps_first_snoc: "deps_first g xs \<Longrightarrow> set (deps_in g v) \<subseteq> set xs \<Longrightarrow> deps_first g (xs @ [v])"
  unfolding deps_first_def
proof (intro allI impI)
  fix ys u zs
  assume xs: "\<forall>ys v zs. xs = ys @ v # zs \<longrightarrow> set (deps_in g v) \<subseteq> set ys" "set (deps_in g v) \<subseteq> set xs"
    and e: "xs @ [v] = ys @ u # zs"
  show "set (deps_in g u) \<subseteq> set ys"
  proof (cases zs rule: rev_cases)
    case Nil
    then show ?thesis using e xs(2) by simp
  next
    case (snoc zs' z)
    then have "xs = ys @ u # zs'" using e by simp
    then show ?thesis using xs(1) by blast
  qed
qed

lemma kahn_step:
  assumes "distinct (map fst g)" and inv: "kahn_inv g dc (sp # rest) listed"
    and d: "decrementDependents dc (dependents_of (buildReverseAdj g (map fst g)) sp) = (dc', zeros)"
  shows "kahn_inv g dc' (rest @ zeros) (sp # listed)"
proof -
  let ?L = "dependents_of (buildReverseAdj g (map fst g)) sp"
  note cnt = dependents_count [OF assms(1), of sp]
  have L: "v \<in> set ?L \<longleftrightarrow> sp \<in> set (deps_in g v)" for v
    using cnt [of v] by (metis count_list_0_iff)
  have node: "sp \<in> set (deps_in g v) \<Longrightarrow> v \<in> nodes g" for v using edges_nodes by (fastforce simp: edges_def)
  have new: "sp \<notin> set listed" using inv by (simp add: kahn_inv_def)
  have c: "v \<in> nodes g \<Longrightarrow> map_of dc v = Some (int (length (filter (\<lambda>d. d \<notin> insert sp (set listed)) (deps_in g v))) + int (count_list ?L v))" for v
    using inv new filter_count [of "set listed" "deps_in g v" sp] by (simp add: kahn_inv_def cnt)
  then have "\<forall>v \<in> set ?L. \<exists>n. map_of dc v = Some n \<and> int (count_list ?L v) \<le> n" using L node by fastforce
  note dec = decrements [OF d this]
  have none: "filter (\<lambda>d. d \<notin> insert sp (set listed)) (deps_in g v) = [] \<longleftrightarrow> set (deps_in g v) \<subseteq> set (sp # listed)" for v
    by (auto simp: filter_empty_conv)
  have z: "set zeros = {v \<in> nodes g. sp \<in> set (deps_in g v) \<and> set (deps_in g v) \<subseteq> set (sp # listed)}"
    using dec c L node none by (auto simp del: set_simps)
  have q: "v \<in> nodes g \<Longrightarrow> v \<in> set (sp # rest) \<union> set listed \<longleftrightarrow> set (deps_in g v) \<subseteq> set listed" for v
    using inv unfolding kahn_inv_def by blast
  have qn: "set (sp # rest) \<union> set listed \<subseteq> nodes g" using inv unfolding kahn_inv_def by auto
  have "set zeros \<inter> (set (sp # rest) \<union> set listed) = {}" using z q new by blast
  then have "distinct ((rest @ zeros) @ sp # listed)" using inv dec by (auto simp: kahn_inv_def)
  moreover have "set ((rest @ zeros) @ sp # listed) \<subseteq> nodes g" using qn z by auto
  moreover have "\<forall>v \<in> nodes g. map_of dc' v = Some (int (length (filter (\<lambda>d. d \<notin> set (sp # listed)) (deps_in g v))))"
    using dec c by simp
  moreover have "\<forall>v \<in> nodes g. v \<in> set (rest @ zeros) \<union> set (sp # listed) \<longleftrightarrow> set (deps_in g v) \<subseteq> set (sp # listed)"
    using z q by auto
  moreover have "deps_first g (rev (sp # listed))"
    using inv q [of sp] qn by (auto simp: kahn_inv_def intro!: deps_first_snoc)
  ultimately show ?thesis unfolding kahn_inv_def by blast
qed

lemma kahn_result:
  assumes "distinct (map fst g)" and "kahn_inv g dc queue listed" and "cnt = int (length listed)"
  shows "\<exists>xs. distinct xs \<and> set xs \<subseteq> nodes g \<and> deps_first g xs \<and>
    (\<forall>v \<in> nodes g. v \<in> set xs \<longleftrightarrow> set (deps_in g v) \<subseteq> set xs) \<and>
    kahnLoop (buildReverseAdj g (map fst g)) dc queue listed cnt (int n) = (if length xs = n then TopoSorted xs else TopoCycle xs)"
  using assms(2,3)
proof (induction "buildReverseAdj g (map fst g)" dc queue listed cnt "int n" rule: kahnLoop.induct)
  case (1 dc listed cnt)
  then show ?case by (intro exI [of _ "rev listed"]) (auto simp: kahn_inv_def)
next
  case (2 dc sp rest listed cnt)
  obtain dc' zeros where d: "decrementDependents dc (dependents_of (buildReverseAdj g (map fst g)) sp) = (dc', zeros)" by fastforce
  have "\<exists>xs. distinct xs \<and> set xs \<subseteq> nodes g \<and> deps_first g xs \<and>
      (\<forall>v \<in> nodes g. v \<in> set xs \<longleftrightarrow> set (deps_in g v) \<subseteq> set xs) \<and>
      kahnLoop (buildReverseAdj g (map fst g)) dc' (rest @ zeros) (sp # listed) (cnt + 1) (int n) =
        (if length xs = n then TopoSorted xs else TopoCycle xs)"
    by (rule 2(1) [OF d [symmetric] kahn_step [OF assms(1) 2(2) d]]) (use 2(3) in simp)
  then show ?case by (simp add: d)
qed

lemma topo_result:
  assumes "ascending g"
  shows "\<exists>xs. distinct xs \<and> set xs \<subseteq> nodes g \<and> deps_first g xs \<and>
    (\<forall>v \<in> nodes g. v \<in> set xs \<longleftrightarrow> set (deps_in g v) \<subseteq> set xs) \<and>
    topoSort g = (if set xs = nodes g then TopoSorted xs else TopoCycle xs)"
proof -
  note dist = ascending_distinct [OF assms]
  define D where "D = map (\<lambda>(sp, node). (sp, countGraphDeps (map fst g) node)) g"
  define Q where "Q = map fst (filter (\<lambda>(sp, n). n = 0) D)"
  have dc: "map_of D v = Some (int (length (deps_in g v)))" if v: "v \<in> nodes g" for v
  proof -
    obtain node where "map_of g v = Some node"
      using v map_of_eq_None_iff [of g v] by (cases "map_of g v") (auto simp: nodes_def)
    then show ?thesis by (simp add: D_def map_of_map deps_in_def directDeps_def countGraphDeps_def nodes_def)
  qed
  have keys: "map fst D = map fst g" by (auto simp: D_def)
  then have dd: "distinct (map fst D)" using dist by (simp only: keys)
  have zero: "v \<in> set Q \<longleftrightarrow> v \<in> nodes g \<and> deps_in g v = []" for v
  proof -
    have "v \<in> set Q \<longleftrightarrow> (v, 0) \<in> set D" by (force simp: Q_def)
    also have "\<dots> \<longleftrightarrow> map_of D v = Some 0" using dd by simp
    also have "\<dots> \<longleftrightarrow> v \<in> nodes g \<and> deps_in g v = []"
    proof (cases "v \<in> nodes g")
      case False
      then have "v \<notin> set (map fst D)" unfolding keys nodes_def .
      then have "map_of D v = None" by (simp add: map_of_eq_None_iff)
      then show ?thesis using False by simp
    qed (use dc [of v] in simp)
    finally show ?thesis .
  qed
  have "distinct Q" unfolding Q_def by (rule distinct_map_filter [OF dd])
  then have "kahn_inv g D Q []"
    unfolding kahn_inv_def using dc zero by (auto simp: deps_first_def)
  from kahn_result [OF dist this, of 0 "length g"] obtain xs where xs: "distinct xs" "set xs \<subseteq> nodes g" "deps_first g xs"
    "\<forall>v \<in> nodes g. v \<in> set xs \<longleftrightarrow> set (deps_in g v) \<subseteq> set xs" "topoSort g = (if length xs = length g then TopoSorted xs else TopoCycle xs)"
    unfolding topoSort_def Let_def D_def [symmetric] Q_def [symmetric] by auto
  have "length xs = length g \<longleftrightarrow> set xs = nodes g"
    using xs(1,2) dist distinct_card [of xs] distinct_card [of "map fst g"] card_subset_eq [of "nodes g" "set xs"] by (auto simp: nodes_def)
  then show ?thesis using xs by auto
qed

end
