(* ===== verification/Nova_Order.thy ===== *)
theory Nova_Order
  imports Nova_Graph_Spec
begin

section \<open>The dependency graph of a build\<close>

text \<open>What DependencyGraph.hs promises: the graph that is built, the order or cycle that is found, the queries.\<close>

subsection \<open>Cycles\<close>

definition reaches_cycle :: "dep_graph \<Rightarrow> store_path \<Rightarrow> bool" where
  "reaches_cycle g v \<longleftrightarrow> (\<exists>w. (v, w) \<in> (edges g)\<^sup>* \<and> (w, w) \<in> (edges g)\<^sup>+)"

lemma before_trans: "w \<in> set (takeWhile (\<lambda>x. x \<noteq> v) xs) \<Longrightarrow> set (takeWhile (\<lambda>x. x \<noteq> w) xs) \<subseteq> set (takeWhile (\<lambda>x. x \<noteq> v) xs)"
  by (induction xs) auto

lemma deps_before:
  assumes "deps_first g xs" and "v \<in> set xs" and "(v, w) \<in> (edges g)\<^sup>+"
  shows "w \<in> set (takeWhile (\<lambda>x. x \<noteq> v) xs)"
proof -
  have one: "set (deps_in g u) \<subseteq> set (takeWhile (\<lambda>x. x \<noteq> u) xs)" if "u \<in> set xs" for u
  proof -
    have "xs = takeWhile (\<lambda>x. x \<noteq> u) xs @ u # tl (dropWhile (\<lambda>x. x \<noteq> u) xs)"
      using that by (induction xs) auto
    from assms(1) [unfolded deps_first_def, rule_format, OF this] show ?thesis .
  qed
  from assms(3,2) show ?thesis
  proof (induction rule: trancl_induct)
    case (base w)
    then show ?case using one by (auto simp: edges_def)
  next
    case (step w u)
    then have "u \<in> set (takeWhile (\<lambda>x. x \<noteq> w) xs)" using one [of w] by (auto simp: edges_def dest: set_takeWhileD)
    then show ?case using before_trans [OF step.IH [OF step.prems]] by blast
  qed
qed

lemma listed_no_cycle:
  assumes "deps_first g xs" and "v \<in> set xs"
  shows "\<not> reaches_cycle g v"
proof
  assume "reaches_cycle g v"
  then obtain w where w: "(v, w) \<in> (edges g)\<^sup>*" "(w, w) \<in> (edges g)\<^sup>+" unfolding reaches_cycle_def by blast
  have "w \<in> set xs"
    using w(1) deps_before [OF assms] assms(2) by (auto simp: rtrancl_eq_or_trancl dest: set_takeWhileD)
  from deps_before [OF assms(1) this w(2)] show False by (auto dest: set_takeWhileD)
qed

lemma endless_cycle:
  assumes "\<And>w. w \<in> W \<Longrightarrow> \<exists>d \<in> W. (w, d) \<in> edges g" and "v \<in> W"
  shows "reaches_cycle g v"
proof (rule ccontr)
  assume no: "\<not> reaches_cycle g v"
  let ?R = "{w. (v, w) \<in> (edges g)\<^sup>*}" and ?E = "edges g \<inter> {w. (v, w) \<in> (edges g)\<^sup>*} \<times> UNIV"
  have "\<not> (w, w) \<in> ?E\<^sup>+" for w
  proof
    assume c: "(w, w) \<in> ?E\<^sup>+"
    then have "(v, w) \<in> (edges g)\<^sup>*" by (auto elim: converse_tranclE)
    moreover have "(w, w) \<in> (edges g)\<^sup>+" using c by (rule trancl_mono) blast
    ultimately show False using no unfolding reaches_cycle_def by blast
  qed
  then have "acyclic ?E" by (simp add: acyclic_def)
  then have "wf (?E\<inverse>)" using finite_edges by (intro finite_acyclic_wf_converse) auto
  then obtain z where z: "z \<in> W \<inter> ?R" "\<And>y. (y, z) \<in> ?E\<inverse> \<Longrightarrow> y \<notin> W \<inter> ?R"
    using assms(2) by (elim wfE_min [of _ v "W \<inter> ?R"]) auto
  obtain d where "d \<in> W" "(z, d) \<in> edges g" using assms(1) z(1) by blast
  moreover have "(v, d) \<in> (edges g)\<^sup>*" using z(1) calculation(2) by (auto intro: rtrancl_into_rtrancl)
  ultimately show False using z by blast
qed

lemma acyclic_iff: "acyclic (edges g) \<longleftrightarrow> (\<forall>v \<in> nodes g. \<not> reaches_cycle g v)"
proof -
  have "v \<in> nodes g" if "(v, v) \<in> (edges g)\<^sup>+" for v
    using that edges_nodes by (auto elim: converse_tranclE)
  then show ?thesis
    by (auto simp: acyclic_def reaches_cycle_def)
qed

lemma sorted_acyclic:
  assumes "ascending g" and "topoSort g = TopoSorted ys"
  shows "acyclic (edges g)"
proof -
  obtain xs where xs: "deps_first g xs" "topoSort g = (if set xs = nodes g then TopoSorted xs else TopoCycle xs)"
    using topo_result [OF assms(1)] by blast
  then have "set xs = nodes g" using assms(2) by (simp split: if_splits)
  then show ?thesis using listed_no_cycle [OF xs(1)] unfolding acyclic_iff by blast
qed

lemma cyclic_if_reported:
  assumes "ascending g" and "topoSort g = TopoCycle ys"
  shows "\<not> acyclic (edges g)"
proof -
  obtain xs where xs: "set xs \<subseteq> nodes g" "\<And>v. v \<in> nodes g \<Longrightarrow> v \<in> set xs \<longleftrightarrow> set (deps_in g v) \<subseteq> set xs"
    "topoSort g = (if set xs = nodes g then TopoSorted xs else TopoCycle xs)"
    using topo_result [OF assms(1)] by blast
  then obtain v where v: "v \<in> nodes g - set xs" using assms(2) by (auto split: if_splits)
  have "reaches_cycle g v"
  proof (rule endless_cycle [OF _ v])
    fix w assume "w \<in> nodes g - set xs"
    then obtain d where "d \<in> set (deps_in g w)" "d \<notin> set xs" using xs(2) by blast
    then show "\<exists>d \<in> nodes g - set xs. (w, d) \<in> edges g" by (auto simp: edges_def deps_in_def)
  qed
  then show ?thesis using v unfolding acyclic_iff by blast
qed

text \<open>C19: Sorting a graph. The result is an order exactly when the graph has no cycle, and then lists every node once,
  each after all it depends on. Otherwise the paths it reports are, in such an order, those from which no cycle can
  be reached: every path on a cycle, and every one that needs such a path, is left out.\<close>

theorem topo_sorts:
  assumes "ascending g"
  shows "case topoSort g of
      TopoSorted xs \<Rightarrow> acyclic (edges g) \<and> distinct xs \<and> set xs = nodes g \<and> deps_first g xs
    | TopoCycle xs \<Rightarrow> \<not> acyclic (edges g) \<and> distinct xs \<and> set xs = {v \<in> nodes g. \<not> reaches_cycle g v} \<and> deps_first g xs"
proof -
  obtain xs where xs: "distinct xs" "set xs \<subseteq> nodes g" "deps_first g xs"
    "\<And>v. v \<in> nodes g \<Longrightarrow> v \<in> set xs \<longleftrightarrow> set (deps_in g v) \<subseteq> set xs"
    "topoSort g = (if set xs = nodes g then TopoSorted xs else TopoCycle xs)"
    using topo_result [OF assms] by blast
  have "reaches_cycle g v" if "v \<in> nodes g - set xs" for v
  proof (rule endless_cycle [OF _ that])
    fix w assume "w \<in> nodes g - set xs"
    then obtain d where "d \<in> set (deps_in g w)" "d \<notin> set xs" using xs(4) by blast
    then show "\<exists>d \<in> nodes g - set xs. (w, d) \<in> edges g" by (auto simp: edges_def deps_in_def)
  qed
  then have "set xs = {v \<in> nodes g. \<not> reaches_cycle g v}" using xs(2) listed_no_cycle [OF xs(3)] by blast
  moreover from this have "acyclic (edges g) \<longleftrightarrow> set xs = nodes g" unfolding acyclic_iff by blast
  ultimately show ?thesis using xs by auto
qed

subsection \<open>Queries\<close>

definition all_edges :: "dep_graph \<Rightarrow> (store_path \<times> store_path) set" where
  "all_edges g = {(v, d). d \<in> set (directDeps g v)}"

lemma closed_image: "(\<forall>v \<in> S. r `` {v} \<subseteq> S) \<Longrightarrow> r\<^sup>* `` S = S"
  by (rule Image_closed_trancl) blast

lemma walk_reaches:
  "set queue \<subseteq> visited \<Longrightarrow> (\<forall>v \<in> visited - set queue. all_edges g `` {v} \<subseteq> visited) \<Longrightarrow>
     trans_go g visited queue = (all_edges g)\<^sup>* `` visited"
  "set queue \<subseteq> visited \<Longrightarrow> (\<forall>v \<in> visited - set queue. all_edges g `` {v} \<subseteq> visited \<union> set deps) \<Longrightarrow>
     enqueueFresh g visited queue deps = (all_edges g)\<^sup>* `` (visited \<union> set deps)"
proof (induction g visited queue and g visited queue deps rule: trans_go_enqueueFresh.induct)
  case (1 g visited)
  then show ?case by (simp add: closed_image)
next
  case (2 g visited sp rest)
  have d: "set (directDeps g sp) = all_edges g `` {sp}" by (auto simp: all_edges_def)
  have "trans_go g visited (sp # rest) = (all_edges g)\<^sup>* `` (visited \<union> all_edges g `` {sp})"
    using 2 d by auto
  also have "\<dots> = (all_edges g)\<^sup>* `` visited"
    using 2(2) by (auto intro: converse_rtrancl_into_rtrancl)
  finally show ?case .
next
  case (3 g visited queue)
  then show ?case by simp
next
  case (4 g visited queue dep others)
  show ?case
  proof (cases "dep \<in> visited")
    case True
    then have "visited \<union> set (dep # others) = visited \<union> set others" by auto
    then show ?thesis using 4(1) [OF True] 4(3,4) True by simp
  next
    case False
    have "enqueueFresh g (insert dep visited) (queue @ [dep]) others = (all_edges g)\<^sup>* `` (insert dep visited \<union> set others)"
      using 4(3,4) by (intro 4(2) [OF False]) auto
    then show ?thesis using False by simp
  qed
qed

text \<open>C21: The queries. The transitive dependencies of a path are the paths that a nonempty chain of dependencies leads to,
  in the graph or just outside it, without the path itself; the walk ends on cycles too.\<close>

theorem transitive_deps_reach:
  "transitiveDeps g root = {d. (root, d) \<in> {(v, d). d \<in> set (directDeps g v)}\<^sup>+} - {root}"
proof -
  have w: "trans_go g {root} [root] = (all_edges g)\<^sup>* `` {root}" by (rule walk_reaches(1)) simp_all
  show ?thesis
    unfolding transitiveDeps_def w all_edges_def [symmetric] by (blast dest: rtranclD intro: trancl_into_rtrancl)
qed

subsection \<open>Construction\<close>

text \<open>The derivation of a path: the root's is given, the others are read.\<close>

definition drv_at :: "(store_path \<Rightarrow> 'err + derivation) \<Rightarrow> derivation \<Rightarrow> store_path \<Rightarrow> store_path \<Rightarrow> derivation option" where
  "drv_at store rootDrv root p = (if p = root then Some rootDrv else case store p of Inl _ \<Rightarrow> None | Inr d \<Rightarrow> Some d)"

definition wants :: "(store_path \<Rightarrow> 'err + derivation) \<Rightarrow> derivation \<Rightarrow> store_path \<Rightarrow> (store_path \<times> store_path) set" where
  "wants store rootDrv root = {(p, q). \<exists>d. drv_at store rootDrv root p = Some d \<and> q \<in> fst ` set (drvInputDrvs d)}"

lemma reads_all:
  assumes "\<forall>p s. fst (readDrv p s) = store p"
  shows "case fst (resolveAll readDrv deps s) of
      Inl err \<Rightarrow> \<exists>p \<in> set deps. store p = Inl err
    | Inr items \<Rightarrow> map fst items = deps \<and> (\<forall>(p, d) \<in> set items. store p = Inr d)"
proof (induction deps arbitrary: s)
  case (Cons dep deps)
  obtain x s1 where x: "readDrv dep s = (x, s1)" by fastforce
  then have "store dep = x" using assms by (metis fst_conv)
  then show ?case using x Cons.IH [of s1] by (cases x) (auto split: prod.splits sum.splits)
qed simp

definition build_inv :: "(store_path \<Rightarrow> 'err + derivation) \<Rightarrow> derivation \<Rightarrow> store_path \<Rightarrow> dep_graph \<Rightarrow> (store_path \<times> derivation) list \<Rightarrow> bool" where
  "build_inv store rootDrv root visited queue \<longleftrightarrow>
     (let reach = (wants store rootDrv root)\<^sup>* `` {root} in
     ascending visited \<and> nodes visited \<union> fst ` set queue \<subseteq> reach \<and>
     (\<forall>p \<in> nodes visited. \<exists>d. drv_at store rootDrv root p = Some d \<and> map_of visited p = Some (node_of p d) \<and>
        fst ` set (drvInputDrvs d) \<subseteq> nodes visited \<union> fst ` set queue) \<and>
     (\<forall>(p, d) \<in> set queue. drv_at store rootDrv root p = Some d) \<and>
     (root \<in> nodes visited \<or> (\<exists>rest. queue = (root, rootDrv) # rest)))"

lemma nodes_insert: "nodes (map_insert p n g) = insert p (nodes g)"
  by (simp add: nodes_def set_map_insert)

lemma build_result:
  assumes reads: "\<forall>p s. fst (readDrv p s) = store p" and fin: "finite ((wants store rootDrv root)\<^sup>* `` {root})"
    and inv: "build_inv store rootDrv root visited queue"
  shows "\<exists>res s'. build_go readDrv visited queue s = Some (res, s') \<and>
    (case res of
       Inl err \<Rightarrow> \<exists>p \<in> (wants store rootDrv root)\<^sup>* `` {root}. p \<noteq> root \<and> store p = Inl err
     | Inr g \<Rightarrow> build_inv store rootDrv root g [])"
  using inv
proof (induction "(card ((wants store rootDrv root)\<^sup>* `` {root} - nodes visited), length queue)" arbitrary: visited queue s
    rule: wf_induct_rule [OF wf_lex_prod [OF wf_less_than wf_less_than]])
  case 1
  let ?reach = "(wants store rootDrv root)\<^sup>* `` {root}"
  note inv = 1(2) [unfolded build_inv_def Let_def]
  show ?case
  proof (cases queue)
    case Nil
    then show ?thesis using 1(2) by (subst build_go.simps) simp
  next
    case (Cons q rest)
    obtain sp drv where q: "q = (sp, drv)" by (cases q)
    show ?thesis
    proof (cases "sp \<in> nodes visited")
      case True
      then have e: "nodes visited \<union> fst ` set rest = nodes visited \<union> fst ` set queue" using Cons q by auto
      have "build_inv store rootDrv root visited rest"
        unfolding build_inv_def Let_def e using inv Cons q True by auto
      moreover have "build_go readDrv visited queue s = build_go readDrv visited rest s"
        using True Cons q by (subst build_go.simps) (simp add: map_member_def nodes_def)
      ultimately show ?thesis using 1(1) [of visited rest s] Cons by simp
    next
      case False
      let ?v = "map_insert sp (node_of sp drv) visited"
      let ?deps = "filter (\<lambda>dep. \<not> map_member dep ?v) (dnDeps (node_of sp drv))"
      obtain x s1 where x: "resolveAll readDrv ?deps s = (x, s1)" by fastforce
      have sp: "sp \<in> ?reach" "drv_at store rootDrv root sp = Some drv" using inv Cons q by auto
      have deps: "set ?deps = fst ` set (drvInputDrvs drv) - nodes ?v"
        by (auto simp: map_member_def nodes_def node_of_def)
      have in_reach: "fst ` set (drvInputDrvs drv) \<subseteq> ?reach"
      proof
        fix p assume "p \<in> fst ` set (drvInputDrvs drv)"
        then have "(sp, p) \<in> wants store rootDrv root" using sp(2) by (simp add: wants_def)
        then show "p \<in> ?reach" using sp(1) by (auto intro: rtrancl_into_rtrancl)
      qed
      have root: "root \<in> nodes ?v" using inv Cons q by (auto simp: nodes_insert)
      have go: "build_go readDrv visited queue s = (case x of Inl err \<Rightarrow> Some (Inl err, s1) | Inr items \<Rightarrow> build_go readDrv ?v (rest @ items) s1)"
        using False Cons q x by (subst build_go.simps) (simp add: map_member_def nodes_def resolveNewDeps_def split: sum.split)
      note r = reads_all [OF reads, of ?deps s, unfolded x fst_conv]
      show ?thesis
      proof (cases x)
        case (Inl err)
        then obtain p where "p \<in> set ?deps" "store p = Inl err" using r by auto
        moreover have "p \<noteq> root" "p \<in> ?reach" using calculation(1) root deps in_reach by blast+
        ultimately show ?thesis using go Inl by auto
      next
        case (Inr items)
        then have items: "fst ` set items = set ?deps" "\<forall>(p, d) \<in> set items. store p = Inr d" using r by (auto simp flip: set_map)
        have "drv_at store rootDrv root p = Some d" if "(p, d) \<in> set items" for p d
        proof -
          have "p \<in> set ?deps" using that items(1) by force
          then have "p \<noteq> root" using deps root by blast
          then show ?thesis using items(2) that by (auto simp: drv_at_def)
        qed
        then have d: "\<forall>(p, d) \<in> set (rest @ items). drv_at store rootDrv root p = Some d" using inv Cons by auto
        have all: "nodes visited \<union> fst ` set queue \<union> fst ` set (drvInputDrvs drv) \<subseteq> nodes ?v \<union> fst ` set (rest @ items)"
          unfolding nodes_insert using Cons q items(1) deps [unfolded nodes_insert] by auto
        have "build_inv store rootDrv root ?v (rest @ items)"
          unfolding build_inv_def Let_def
        proof (intro conjI d ballI)
          show "ascending ?v" using inv by simp
          show "nodes ?v \<union> fst ` set (rest @ items) \<subseteq> ?reach"
            unfolding nodes_insert using inv Cons items(1) deps in_reach sp(1) by auto
          show "root \<in> nodes ?v \<or> (\<exists>r. rest @ items = (root, rootDrv) # r)" using root by (rule disjI1)
        next
          fix p assume p: "p \<in> nodes ?v"
          show "\<exists>d. drv_at store rootDrv root p = Some d \<and> map_of ?v p = Some (node_of p d) \<and>
              fst ` set (drvInputDrvs d) \<subseteq> nodes ?v \<union> fst ` set (rest @ items)"
          proof (cases "p = sp")
            case True
            then show ?thesis using sp(2) all by auto
          next
            case False
            then have "p \<in> nodes visited" using p by (simp add: nodes_insert)
            then obtain d where "drv_at store rootDrv root p = Some d" "map_of visited p = Some (node_of p d)"
              "fst ` set (drvInputDrvs d) \<subseteq> nodes visited \<union> fst ` set queue" using inv by blast
            moreover from this(3) have "fst ` set (drvInputDrvs d) \<subseteq> nodes ?v \<union> fst ` set (rest @ items)" using all by blast
            ultimately show ?thesis using False by (intro exI [of _ d]) simp
          qed
        qed
        moreover have "card (?reach - nodes ?v) < card (?reach - nodes visited)"
          by (rule psubset_card_mono) (use fin sp False in \<open>auto simp: nodes_insert\<close>)
        ultimately show ?thesis using 1(1) [of ?v "rest @ items" s1] go Inr by simp
      qed
    qed
  qed
qed

lemma built_graph:
  assumes "\<forall>p s. fst (readDrv p s) = store p" and "finite ((wants store rootDrv root)\<^sup>* `` {root})"
  shows "\<exists>res s'. buildDepGraph readDrv rootDrv root s = Some (res, s') \<and>
    (case res of
       Inl err \<Rightarrow> \<exists>p \<in> (wants store rootDrv root)\<^sup>* `` {root}. p \<noteq> root \<and> store p = Inl err
     | Inr g \<Rightarrow> ascending g \<and> nodes g = (wants store rootDrv root)\<^sup>* `` {root} \<and>
         (\<forall>p \<in> nodes g. \<exists>d. drv_at store rootDrv root p = Some d \<and> map_of g p = Some (node_of p d) \<and> set (directDeps g p) \<subseteq> nodes g))"
proof -
  have "build_inv store rootDrv root [] [(root, rootDrv)]"
    by (simp add: build_inv_def nodes_def drv_at_def)
  from build_result [OF assms this, of s] obtain res s' where r: "buildDepGraph readDrv rootDrv root s = Some (res, s')"
    "case res of
       Inl err \<Rightarrow> \<exists>p \<in> (wants store rootDrv root)\<^sup>* `` {root}. p \<noteq> root \<and> store p = Inl err
     | Inr g \<Rightarrow> build_inv store rootDrv root g []" unfolding buildDepGraph_def by blast
  show ?thesis
  proof (intro exI conjI)
    show "case res of
       Inl err \<Rightarrow> \<exists>p \<in> (wants store rootDrv root)\<^sup>* `` {root}. p \<noteq> root \<and> store p = Inl err
     | Inr g \<Rightarrow> ascending g \<and> nodes g = (wants store rootDrv root)\<^sup>* `` {root} \<and>
         (\<forall>p \<in> nodes g. \<exists>d. drv_at store rootDrv root p = Some d \<and> map_of g p = Some (node_of p d) \<and> set (directDeps g p) \<subseteq> nodes g)"
    proof (cases res)
      case (Inr g)
      then have i: "build_inv store rootDrv root g []" using r(2) by simp
      have w: "wants store rootDrv root `` {p} \<subseteq> nodes g" if "p \<in> nodes g" for p
        using i that unfolding build_inv_def Let_def wants_def by fastforce
      have "(wants store rootDrv root)\<^sup>* `` {root} \<subseteq> (wants store rootDrv root)\<^sup>* `` nodes g"
        using i unfolding build_inv_def Let_def by auto
      also have "\<dots> = nodes g" using w by (intro closed_image) blast
      finally have "nodes g = (wants store rootDrv root)\<^sup>* `` {root}" using i unfolding build_inv_def Let_def by auto
      moreover have "set (directDeps g p) \<subseteq> nodes g" if "p \<in> nodes g" for p
        using i that unfolding build_inv_def Let_def by (fastforce simp: directDeps_def node_of_def)
      moreover have "\<exists>d. drv_at store rootDrv root p = Some d \<and> map_of g p = Some (node_of p d)" if "p \<in> nodes g" for p
        using i that unfolding build_inv_def Let_def by blast
      moreover have "ascending g" using i unfolding build_inv_def Let_def by blast
      ultimately show ?thesis using Inr by simp
    qed (use r(2) in simp)
  qed (rule r(1))
qed

text \<open>C20: The graph of a root. When the derivations that can be reached from it are finitely many, the search ends, with the
  error of one of them that cannot be read, or with the graph that has exactly the reachable paths for nodes, each
  with its own derivation and the inputs of that derivation for dependencies, so that no dependency leads out of it.\<close>

theorem graph_is_closure:
  assumes "\<forall>p s. fst (readDrv p s) = store p" and "finite ((wants store rootDrv root)\<^sup>* `` {root})"
  shows "\<exists>res s'. buildDepGraph readDrv rootDrv root s = Some (res, s') \<and>
    (case res of
       Inl err \<Rightarrow> \<exists>p \<in> (wants store rootDrv root)\<^sup>* `` {root}. p \<noteq> root \<and> store p = Inl err
     | Inr g \<Rightarrow> ascending g \<and> nodes g = (wants store rootDrv root)\<^sup>* `` {root} \<and>
         (\<forall>p \<in> nodes g. \<exists>d. drv_at store rootDrv root p = Some d \<and> map_of g p = Some (node_of p d) \<and> set (directDeps g p) \<subseteq> nodes g))"
  by (rule built_graph [OF assms])

subsection \<open>Examples\<close>

definition demo_input :: "u8 \<Rightarrow> store_path" where
  "demo_input b = StorePath [] [b]"

definition plain_drv :: "store_path list \<Rightarrow> derivation" where
  "plain_drv deps = \<lparr>drvOutputs = [], drvInputDrvs = map (\<lambda>p. (p, [])) deps, drvInputSrcs = [], drvPlatform = X86_64_Linux,
     drvBuilder = [], drvArgs = [], drvEnv = []\<rparr>"

definition plain_graph :: "(u8 \<times> u8 list) list \<Rightarrow> dep_graph" where
  "plain_graph es = map (\<lambda>(b, ds). (demo_input b, node_of (demo_input b) (plain_drv (map demo_input ds)))) es"

lemmas topo_eval = topoSort_def plain_graph_def node_of_def plain_drv_def demo_input_def countGraphDeps_def buildReverseAdj_def
  addReverse_def map_adjust_def decrementDependents_def decrement_step_def dependents_of_def less_store_path_def less_eq_store_path_def

text \<open>A chain, and a loop with a leaf: the leaf is what is reported.\<close>

theorem topo_sorts_witness:
  "topoSort (plain_graph [(1, [2]), (2, [3]), (3, [])]) = TopoSorted [demo_input 3, demo_input 2, demo_input 1] \<and>
   acyclic (edges (plain_graph [(1, [2]), (2, [3]), (3, [])])) \<and>
   topoSort (plain_graph [(1, [2, 3]), (2, [1]), (3, [])]) = TopoCycle [demo_input 3] \<and>
   reaches_cycle (plain_graph [(1, [2, 3]), (2, [1]), (3, [])]) (demo_input 1)"
proof -
  have t: "topoSort (plain_graph [(1, [2]), (2, [3]), (3, [])]) = TopoSorted [demo_input 3, demo_input 2, demo_input 1]"
    "topoSort (plain_graph [(1, [2, 3]), (2, [1]), (3, [])]) = TopoCycle [demo_input 3]"
    by (simp_all add: topo_eval)
  have a: "ascending (plain_graph [(1, [2]), (2, [3]), (3, [])])" "ascending (plain_graph [(1, [2, 3]), (2, [1]), (3, [])])"
    by (simp_all add: plain_graph_def demo_input_def less_store_path_def)
  have "demo_input 1 \<in> nodes (plain_graph [(1, [2, 3]), (2, [1]), (3, [])])" "demo_input 1 \<notin> set [demo_input 3]"
    by (simp_all add: plain_graph_def nodes_def demo_input_def)
  then show ?thesis using topo_sorts [OF a(1)] topo_sorts [OF a(2)] t by (auto simp: set_eq_iff)
qed

theorem graph_is_closure_witness:
  "\<exists>g s'. buildDepGraph (\<lambda>p s. (if p = demo_input 2 then Inr (plain_drv []) else Inl ''missing'', s))
       (plain_drv [demo_input 2]) (demo_input 1) () = Some (Inr g, s') \<and> nodes g = {demo_input 1, demo_input 2}"
proof -
  let ?store = "\<lambda>p. if p = demo_input 2 then Inr (plain_drv []) else Inl ''missing''"
  let ?w = "wants ?store (plain_drv [demo_input 2]) (demo_input 1)"
  have ne: "demo_input 1 \<noteq> demo_input 2" by (simp add: demo_input_def)
  have w: "?w = {(demo_input 1, demo_input 2)}"
    using ne by (auto simp: wants_def drv_at_def plain_drv_def split: if_splits)
  have r: "?w\<^sup>* `` {demo_input 1} = {demo_input 1, demo_input 2}"
  proof
    have "?w\<^sup>* `` {demo_input 1, demo_input 2} = {demo_input 1, demo_input 2}" unfolding w by (rule Image_closed_trancl) auto
    then show "?w\<^sup>* `` {demo_input 1} \<subseteq> {demo_input 1, demo_input 2}" by blast
    show "{demo_input 1, demo_input 2} \<subseteq> ?w\<^sup>* `` {demo_input 1}" unfolding w by auto
  qed
  have "\<forall>p s. fst (if p = demo_input 2 then Inr (plain_drv []) else Inl ''missing'', s :: unit) = ?store p" by simp
  from graph_is_closure [OF this, where root = "demo_input 1" and rootDrv = "plain_drv [demo_input 2]" and s = "()", unfolded r]
  obtain res s' where g: "buildDepGraph (\<lambda>p s. (?store p, s)) (plain_drv [demo_input 2]) (demo_input 1) () = Some (res, s')"
    "case res of
       Inl err \<Rightarrow> \<exists>p \<in> {demo_input 1, demo_input 2}. p \<noteq> demo_input 1 \<and> ?store p = Inl err
     | Inr g \<Rightarrow> ascending g \<and> nodes g = {demo_input 1, demo_input 2} \<and>
         (\<forall>p \<in> nodes g. \<exists>d. drv_at ?store (plain_drv [demo_input 2]) (demo_input 1) p = Some d \<and> map_of g p = Some (node_of p d) \<and>
            set (directDeps g p) \<subseteq> nodes g)"
    by auto
  show ?thesis
  proof (cases res)
    case (Inr gr)
    then show ?thesis using g by (intro exI [of _ gr] exI [of _ s']) simp
  qed (use g(2) in auto)
qed

end
