(* ===== verification/Nova_Substitute.thy ===== *)
theory Nova_Substitute
  imports Nova_Realise Nova_Order
begin

section \<open>Substitution keeps the store closed under references\<close>

text \<open>
  What \<open>substituteClosure\<close> promises when its effects do what their record documents: \<open>vs\<close> is the set of valid
  paths of a state, \<open>refs\<close> the references of a path, and a batch is fetched whole or not at all.
\<close>

definition subst_laws :: "'s subst_effects \<Rightarrow> ('s \<Rightarrow> store_path set) \<Rightarrow> (store_path \<Rightarrow> store_path set) \<Rightarrow> bool" where
  "subst_laws eff vs refs \<longleftrightarrow>
     (\<forall>p s. (fst (seValid eff p s) \<longleftrightarrow> p \<in> vs s) \<and> vs (snd (seValid eff p s)) = vs s) \<and>
     (\<forall>p s. vs (snd (seReferences eff p s)) = vs s \<and> (\<forall>rs. fst (seReferences eff p s) = Offered rs \<longrightarrow> set rs = refs p)) \<and>
     (\<forall>ps s. vs (snd (seFetch eff ps s)) = (if fst (seFetch eff ps s) = Fetched then vs s \<union> set ps else vs s))"

definition store_closed :: "(store_path \<Rightarrow> store_path set) \<Rightarrow> store_path set \<Rightarrow> bool" where
  "store_closed refs X \<longleftrightarrow> (\<forall>p \<in> X. refs p \<subseteq> X)"

text \<open>References lead down a rank, except among the outputs asked for together and from a path to itself.\<close>

definition ranked :: "(store_path \<Rightarrow> store_path set) \<Rightarrow> store_path set \<Rightarrow> (store_path \<Rightarrow> nat) \<Rightarrow> bool" where
  "ranked refs outputs rank \<longleftrightarrow>
     (\<forall>p. \<forall>r \<in> refs p. r = p \<or> rank r < rank p \<or> p \<in> outputs \<and> r \<in> outputs) \<and>
     (\<forall>p \<in> outputs. \<forall>q \<in> outputs. rank p = rank q)"

lemma missing_law:
  assumes "subst_laws eff vs refs" and "missing_paths eff ps s = (missing, s1)"
  shows "set missing = set ps - vs s \<and> vs s1 = vs s"
  using assms(2)
proof (induction ps arbitrary: s missing s1)
  case (Cons p ps)
  obtain b s' where b: "seValid eff p s = (b, s')" by fastforce
  obtain m s'' where m: "missing_paths eff ps s' = (m, s'')" by fastforce
  have "(b \<longleftrightarrow> p \<in> vs s) \<and> vs s' = vs s" using assms(1) b unfolding subst_laws_def by (metis fst_conv snd_conv)
  then show ?case using Cons.prems Cons.IH [OF m] b m by (auto split: if_splits)
qed simp

lemma declared_law:
  assumes "subst_laws eff vs refs" and "declared_references eff ps s = (declared, s1)"
  shows "vs s1 = vs s \<and> (\<forall>answers rss. declared = Inr answers \<longrightarrow> those answers = Some rss \<longrightarrow> \<Union>(set (map set rss)) = \<Union>(refs ` set ps))"
  using assms(2)
proof (induction ps arbitrary: s declared s1)
  case (Cons p ps)
  obtain ans s' where a: "seReferences eff p s = (ans, s')" by fastforce
  obtain ds s'' where d: "declared_references eff ps s' = (ds, s'')" by fastforce
  have "vs s' = vs s \<and> (\<forall>rs. ans = Offered rs \<longrightarrow> set rs = refs p)"
    using assms(1) a unfolding subst_laws_def by (metis fst_conv snd_conv)
  then show ?case
    using Cons.prems Cons.IH [OF d] a d
    by (cases ans; cases ds; clarsimp split: option.splits)
qed simp

lemma fetch_law:
  assumes "subst_laws eff vs refs" and "seFetch eff ps s = (f, s1)"
  shows "vs s1 = (if f = Fetched then vs s \<union> set ps else vs s)"
  using assms unfolding subst_laws_def by (metis fst_conv snd_conv)

text \<open>Where the walk is: what was visited is valid or one of the paths A that wait for their references, all of
  them at least as high as the paths being looked at.\<close>

definition walk_inv ::
  "('s \<Rightarrow> store_path set) \<Rightarrow> (store_path \<Rightarrow> store_path set) \<Rightarrow> (store_path \<Rightarrow> nat) \<Rightarrow> store_path set \<Rightarrow> store_path set \<Rightarrow> nat \<Rightarrow> 's \<Rightarrow> bool"
  where
  "walk_inv vs refs rank A visited h s \<longleftrightarrow> store_closed refs (vs s) \<and> visited - vs s \<subseteq> A \<and> (\<forall>a \<in> A. h \<le> rank a)"

definition walk_done ::
  "('s \<Rightarrow> store_path set) \<Rightarrow> (store_path \<Rightarrow> store_path set) \<Rightarrow> store_path set \<Rightarrow> store_path set \<Rightarrow> store_path set \<Rightarrow> 's \<Rightarrow>
     (closure_outcome \<times> store_path set) \<times> 's \<Rightarrow> bool" where
  "walk_done vs refs A visited goal s res \<longleftrightarrow> (case res of ((outcome, visited'), s') \<Rightarrow>
     store_closed refs (vs s') \<and> vs s \<subseteq> vs s' \<and> visited \<subseteq> visited' \<and>
     (outcome = ClosureComplete \<longrightarrow> goal \<subseteq> vs s' \<and> visited' - vs s' \<subseteq> A))"

lemma walk_ok:
  assumes rk: "ranked refs outputs rank"
  shows "subst_laws eff vs refs \<Longrightarrow> set paths \<subseteq> visited \<Longrightarrow> outputs \<subseteq> visited \<Longrightarrow> walk_inv vs refs rank A visited h s \<Longrightarrow>
      \<forall>p \<in> set paths. \<forall>r \<in> refs p. r \<in> set paths \<or> rank r < h \<Longrightarrow>
      walk_done vs refs A visited (set paths) s (closureOf n eff visited paths s)"
    and "subst_laws eff vs refs \<Longrightarrow> outputs \<subseteq> visited \<Longrightarrow> walk_inv vs refs rank A visited h s \<Longrightarrow>
      \<forall>r \<in> set rs. r \<in> visited \<inter> vs s \<or> rank r < h \<Longrightarrow>
      walk_done vs refs A visited (set rs) s (referencesFirst n eff visited rs s)"
proof (induction n eff visited paths s and n eff visited rs s arbitrary: A h and A h rule: closureOf_referencesFirst.induct)
  case (1 eff visited paths s)
  then show ?case by (simp add: walk_done_def walk_inv_def)
next
  case (2 n eff visited paths s)
  note laws = 2(2)
  obtain missing s1 where m: "missing_paths eff paths s = (missing, s1)" by fastforce
  obtain declared s2 where d: "declared_references eff missing s1 = (declared, s2)" by fastforce
  note lm = missing_law [OF laws m] and ld = declared_law [OF laws d]
  have vs2: "vs s2 = vs s" using lm ld by simp
  show ?case
  proof (cases "missing = []")
    case True
    then have "set paths \<subseteq> vs s" using lm by auto
    then show ?thesis using True m d vs2 2(5) by (simp add: walk_done_def walk_inv_def)
  next
    case False
    show ?thesis
    proof (cases "\<exists>answers refss. declared = Inr answers \<and> those answers = Some refss")
      case no: False
      then show ?thesis using False m d vs2 2(5) by (auto simp: walk_done_def walk_inv_def split: sum.split option.split)
    next
      case True
      then obtain answers refss where r: "declared = Inr answers" "those answers = Some refss" by blast
      let ?out = "ascSet (filter (\<lambda>r. r \<notin> set missing) (concat refss))"
      have out: "set ?out = \<Union>(refs ` set missing) - set missing" using ld r by auto
      obtain held deeper s3 where f: "referencesFirst n eff visited ?out s2 = ((held, deeper), s3)" by (metis surj_pair)
      have "walk_done vs refs A visited (set ?out) s2 (referencesFirst n eff visited ?out s2)"
      proof (rule 2(1) [OF m [symmetric] d [symmetric] False r(1) r(2)])
        show "subst_laws eff vs refs" by (rule laws)
        show "outputs \<subseteq> visited" by (rule 2(4))
        show "walk_inv vs refs rank A visited h s2" using 2(5) vs2 by (simp add: walk_inv_def)
        show "\<forall>r \<in> set ?out. r \<in> visited \<inter> vs s2 \<or> rank r < h"
        proof
          fix r assume "r \<in> set ?out"
          then obtain p where p: "p \<in> set missing" "r \<in> refs p" "r \<notin> set missing" unfolding out by blast
          then have "r \<in> set paths \<or> rank r < h" using lm 2(6) by blast
          then show "r \<in> visited \<inter> vs s2 \<or> rank r < h" using p(3) lm vs2 2(3) by blast
        qed
      qed
      then have w: "store_closed refs (vs s3)" "vs s \<subseteq> vs s3" "visited \<subseteq> deeper"
        "held = ClosureComplete \<Longrightarrow> set ?out \<subseteq> vs s3 \<and> deeper - vs s3 \<subseteq> A"
        by (simp_all only: f walk_done_def prod.case vs2 simp_thms)
      show ?thesis
      proof (cases "held = ClosureComplete")
        case True
        obtain fe s4 where fe: "seFetch eff missing s3 = (fe, s4)" by fastforce
        note lf = fetch_law [OF laws fe]
        have e: "closureOf (Suc n) eff visited paths s = ((fetchedClosure fe, deeper), s4)"
          using m d False r f True fe by simp
        show ?thesis
        proof (cases "fe = Fetched")
          case True
          then have v: "vs s4 = vs s3 \<union> set missing" using lf by simp
          have "store_closed refs (vs s4)"
            using w(1) w(4) [OF \<open>held = ClosureComplete\<close>] out unfolding store_closed_def v by blast
          moreover have "set paths \<subseteq> vs s4" using lm w(2) v by blast
          ultimately show ?thesis
            using w(2,3) w(4) [OF \<open>held = ClosureComplete\<close>] unfolding e walk_done_def prod.case by (auto simp: v)
        next
          case False
          then have "fetchedClosure fe \<noteq> ClosureComplete" by (cases fe) simp_all
          then show ?thesis using w(1-3) lf False unfolding e walk_done_def by simp
        qed
      next
        case False
        then have "closureOf (Suc n) eff visited paths s = ((held, deeper), s3)"
          using m d \<open>missing \<noteq> []\<close> r f by simp
        then show ?thesis using w(1-3) False by (simp add: walk_done_def)
      qed
    qed
  qed
next
  case (3 n eff visited s)
  then show ?case by (simp add: walk_done_def walk_inv_def)
next
  case (4 n eff visited r rest s)
  have closed: "store_closed refs (vs s)" "visited - vs s \<subseteq> A" "\<forall>a \<in> A. h \<le> rank a" using 4(6) by (simp_all add: walk_inv_def)
  show ?case
  proof (cases "r \<in> visited")
    case True
    have "r \<in> vs s"
    proof (rule ccontr)
      assume "r \<notin> vs s"
      then have "h \<le> rank r" using closed True by blast
      then show False using 4(7) \<open>r \<notin> vs s\<close> by auto
    qed
    moreover have "walk_done vs refs A visited (set rest) s (referencesFirst n eff visited rest s)"
      using 4(4-7) by (intro 4(1) [OF True]) auto
    ultimately show ?thesis using True by (auto simp: walk_done_def split: prod.splits)
  next
    case False
    then have rr: "rank r < h" "r \<notin> outputs" using 4(5,7) by auto
    obtain outcome deeper s1 where c: "closureOf n eff (insert r visited) [r] s = ((outcome, deeper), s1)" by (metis surj_pair)
    have "walk_done vs refs (insert r A) (insert r visited) (set [r]) s (closureOf n eff (insert r visited) [r] s)"
    proof (rule 4(2) [OF False])
      show "subst_laws eff vs refs" by (rule 4(4))
      show "set [r] \<subseteq> insert r visited" "outputs \<subseteq> insert r visited" using 4(5) by auto
      show "walk_inv vs refs rank (insert r A) (insert r visited) (rank r) s"
        using closed rr by (auto simp: walk_inv_def)
      show "\<forall>p \<in> set [r]. \<forall>r' \<in> refs p. r' \<in> set [r] \<or> rank r' < rank r" using rk rr by (auto simp: ranked_def)
    qed
    then have w: "store_closed refs (vs s1)" "vs s \<subseteq> vs s1" "insert r visited \<subseteq> deeper"
      "outcome = ClosureComplete \<Longrightarrow> r \<in> vs s1 \<and> deeper - vs s1 \<subseteq> A"
      by (auto simp: c walk_done_def)
    show ?thesis
    proof (cases "outcome = ClosureComplete")
      case True
      have "walk_done vs refs A deeper (set rest) s1 (referencesFirst n eff deeper rest s1)"
      proof (rule 4(3) [OF False c [symmetric] refl True])
        show "subst_laws eff vs refs" by (rule 4(4))
        show "outputs \<subseteq> deeper" using 4(5) w(3) by blast
        show "walk_inv vs refs rank A deeper h s1" using w w(4) [OF True] closed by (simp add: walk_inv_def)
        show "\<forall>x \<in> set rest. x \<in> deeper \<inter> vs s1 \<or> rank x < h" using 4(7) w(2,3) by auto
      qed
      then show ?thesis using False c True w w(4) [OF True] by (auto simp: walk_done_def split: prod.splits)
    next
      case no: False
      then show ?thesis using False c w(1-3) by (cases outcome) (auto simp: walk_done_def)
    qed
  qed
qed

subsection \<open>The depth of the walk\<close>

text \<open>Each nested call has visited one more of the paths that anything references.\<close>

lemma declared_in:
  assumes "\<forall>p s rs. fst (seReferences eff p s) = Offered rs \<longrightarrow> set rs \<subseteq> U"
  shows "declared_references eff ps s = (Inr answers, s1) \<Longrightarrow> those answers = Some refss \<Longrightarrow> set (concat refss) \<subseteq> U"
proof (induction ps arbitrary: s answers refss)
  case (Cons p ps)
  obtain ans s' where a: "seReferences eff p s = (ans, s')" by fastforce
  obtain ds s'' where d: "declared_references eff ps s' = (ds, s'')" by fastforce
  have "ans = Offered rs \<Longrightarrow> set rs \<subseteq> U" for rs using assms a by (metis fst_conv)
  then show ?case
    using Cons.prems Cons.IH [of s'] a d by (cases ans; cases ds) (auto split: option.splits; blast)+
qed simp

lemma fuel_enough:
  assumes fin: "finite U"
  shows "\<forall>p s rs. fst (seReferences eff p s) = Offered rs \<longrightarrow> set rs \<subseteq> U \<Longrightarrow> card (U - visited) < n \<Longrightarrow>
      (case closureOf n eff visited paths s of ((outcome, visited'), s') \<Rightarrow> outcome \<noteq> ClosureOutOfFuel \<and> visited \<subseteq> visited')"
    and "\<forall>p s rs. fst (seReferences eff p s) = Offered rs \<longrightarrow> set rs \<subseteq> U \<Longrightarrow> card (U - visited) \<le> n \<Longrightarrow> set rs \<subseteq> U \<Longrightarrow>
      (case referencesFirst n eff visited rs s of ((outcome, visited'), s') \<Rightarrow> outcome \<noteq> ClosureOutOfFuel \<and> visited \<subseteq> visited')"
proof (induction n eff visited paths s and n eff visited rs s rule: closureOf_referencesFirst.induct)
  case (1 eff visited paths s)
  then show ?case by simp
next
  case (2 n eff visited paths s)
  obtain missing s1 where m: "missing_paths eff paths s = (missing, s1)" by fastforce
  obtain declared s2 where d: "declared_references eff missing s1 = (declared, s2)" by fastforce
  show ?case
  proof (cases "missing \<noteq> [] \<and> (\<exists>answers refss. declared = Inr answers \<and> those answers = Some refss)")
    case False
    then show ?thesis using m d by (auto split: sum.split option.split)
  next
    case True
    then obtain answers refss where r: "missing \<noteq> []" "declared = Inr answers" "those answers = Some refss" by blast
    let ?out = "ascSet (filter (\<lambda>r. r \<notin> set missing) (concat refss))"
    obtain held deeper s3 where f: "referencesFirst n eff visited ?out s2 = ((held, deeper), s3)" by (metis surj_pair)
    have "set ?out \<subseteq> U" using declared_in [OF 2(2) d [unfolded r(2)] r(3)] by auto
    then have "held \<noteq> ClosureOutOfFuel \<and> visited \<subseteq> deeper"
      using 2(1) [OF m [symmetric] d [symmetric] r 2(2)] 2(3) f by simp
    moreover have "fetchedClosure fe \<noteq> ClosureOutOfFuel" for fe by (cases fe) simp_all
    ultimately show ?thesis using m d r f by (simp split: prod.split)
  qed
next
  case (3 n eff visited s)
  then show ?case by simp
next
  case (4 n eff visited r rest s)
  show ?case
  proof (cases "r \<in> visited")
    case True
    then show ?thesis using 4(1) [OF True 4(4)] 4(5,6) by simp
  next
    case False
    obtain outcome deeper s1 where c: "closureOf n eff (insert r visited) [r] s = ((outcome, deeper), s1)" by (metis surj_pair)
    have "card (U - insert r visited) < card (U - visited)"
      by (rule psubset_card_mono) (use fin False 4(6) in auto)
    then have w: "outcome \<noteq> ClosureOutOfFuel" "insert r visited \<subseteq> deeper" using 4(2) [OF False 4(4)] 4(5) c by auto
    show ?thesis
    proof (cases "outcome = ClosureComplete")
      case True
      have "card (U - deeper) \<le> card (U - visited)" using fin w(2) by (intro card_mono) auto
      then have "case referencesFirst n eff deeper rest s1 of ((outcome, visited'), s') \<Rightarrow> outcome \<noteq> ClosureOutOfFuel \<and> deeper \<subseteq> visited'"
        using 4(3) [OF False c [symmetric] refl True 4(4)] 4(5,6) by simp
      then show ?thesis using False c True w(2) by (auto split: prod.splits)
    next
      case no: False
      then show ?thesis using False c w by (cases outcome) auto
    qed
  qed
qed

lemma offered_in: "subst_laws eff vs refs \<Longrightarrow> \<forall>p. refs p \<subseteq> U \<Longrightarrow> \<forall>p s rs. fst (seReferences eff p s) = Offered rs \<longrightarrow> set rs \<subseteq> U"
  unfolding subst_laws_def by metis


text \<open>A cache that serves everything: 1 references 2, which references itself.\<close>

definition demo_refs :: "store_path \<Rightarrow> store_path set" where
  "demo_refs p = (if p = demo_input 1 \<or> p = demo_input 2 then {demo_input 2} else {})"

definition demo_cache :: "store_path set subst_effects" where
  "demo_cache = \<lparr>seValid = \<lambda>p X. (p \<in> X, X),
     seReferences = \<lambda>p X. (Offered (if p = demo_input 1 \<or> p = demo_input 2 then [demo_input 2] else []), X),
     seFetch = \<lambda>ps X. (Fetched, X \<union> set ps)\<rparr>"


end
