(* ===== verification/Nova_Schedule.thy ===== *)
theory Nova_Schedule
  imports Nova_Substitute
begin

section \<open>The order of a build\<close>

text \<open>
  What \<open>realise\<close> does in which order, for any effects. \<open>traced\<close> gives every state of the effects a log, to which each
  build and each report is added when it happens; it changes nothing else.
\<close>

datatype event = BuildOf store_path | ReportOf realised derivation

definition with_log :: "('s \<Rightarrow> 'a \<times> 's) \<Rightarrow> 's \<times> event list \<Rightarrow> 'a \<times> 's \<times> event list" where
  "with_log f sl = (case sl of (s, l) \<Rightarrow> case f s of (x, s') \<Rightarrow> (x, s', l))"

definition traced_subst :: "'s subst_effects \<Rightarrow> ('s \<times> event list) subst_effects" where
  "traced_subst eff = \<lparr>seValid = \<lambda>p. with_log (seValid eff p), seReferences = \<lambda>p. with_log (seReferences eff p),
     seFetch = \<lambda>ps. with_log (seFetch eff ps)\<rparr>"

definition traced :: "'s realise_effects \<Rightarrow> ('s \<times> event list) realise_effects" where
  "traced eff = \<lparr>reSubst = traced_subst (reSubst eff), reAllValid = \<lambda>drv. with_log (reAllValid eff drv),
     reBuild = \<lambda>drv sp sl. (case sl of (s, l) \<Rightarrow> case reBuild eff drv sp s of (x, s') \<Rightarrow> (x, s', l @ [BuildOf sp])),
     reReport = \<lambda>st drv sl. (case sl of (s, l) \<Rightarrow> (reReport eff st drv s, l @ [ReportOf st drv]))\<rparr>"

lemma with_log_pair: "with_log f (s, l) = (case f s of (x, s') \<Rightarrow> (x, s', l))"
  by (simp add: with_log_def)

lemma traced_missing: "missing_paths (traced_subst eff) ps (s, l) = (case missing_paths eff ps s of (x, s') \<Rightarrow> (x, s', l))"
proof (induction ps arbitrary: s)
  case (Cons p ps)
  have e: "seValid (traced_subst eff) p (s, l) = (case seValid eff p s of (x, s') \<Rightarrow> (x, s', l))"
    by (simp add: traced_subst_def with_log_pair)
  show ?case by (simp add: e Cons.IH split: prod.split)
qed simp

lemma traced_declared: "declared_references (traced_subst eff) ps (s, l) = (case declared_references eff ps s of (x, s') \<Rightarrow> (x, s', l))"
proof (induction ps arbitrary: s)
  case (Cons p ps)
  have e: "seReferences (traced_subst eff) p (s, l) = (case seReferences eff p s of (x, s') \<Rightarrow> (x, s', l))"
    by (simp add: traced_subst_def with_log_pair)
  show ?case by (simp add: e Cons.IH split: prod.split sum.split)
qed simp

lemma traced_closure:
  "closureOf n (traced_subst eff) visited paths (s, l) = (case closureOf n eff visited paths s of (x, s') \<Rightarrow> (x, s', l))"
  "referencesFirst n (traced_subst eff) visited rs (s, l) = (case referencesFirst n eff visited rs s of (x, s') \<Rightarrow> (x, s', l))"
proof (induction n eff visited paths s and n eff visited rs s rule: closureOf_referencesFirst.induct)
  case (2 n eff visited paths s)
  obtain missing s1 where m: "missing_paths eff paths s = (missing, s1)" by fastforce
  obtain declared s2 where d: "declared_references eff missing s1 = (declared, s2)" by fastforce
  have tf: "seFetch (traced_subst eff) ps (s', l) = (case seFetch eff ps s' of (x, s'') \<Rightarrow> (x, s'', l))" for ps s'
    by (simp add: traced_subst_def with_log_pair)
  show ?case
  proof (cases "missing \<noteq> [] \<and> (\<exists>answers refss. declared = Inr answers \<and> those answers = Some refss)")
    case False
    then show ?thesis using m d by (auto simp: traced_missing traced_declared split: sum.split option.split)
  next
    case True
    then obtain answers refss where r: "missing \<noteq> []" "declared = Inr answers" "those answers = Some refss" by blast
    then show ?thesis using m d 2 [OF m [symmetric] d [symmetric] r]
      by (simp add: traced_missing traced_declared tf split: prod.split)
  qed
next
  case (4 n eff visited r rest s)
  show ?case
  proof (cases "r \<in> visited")
    case False
    obtain outcome deeper s1 where c: "closureOf n eff (insert r visited) [r] s = ((outcome, deeper), s1)" by (metis surj_pair)
    show ?thesis using False c 4(2) [OF False] 4(3) [OF False c [symmetric] refl] by (cases outcome) simp_all
  qed (use 4(1) in simp)
qed simp_all

lemma traced_outputs:
  "substituteOutputs k (traced eff) drv (s, l) = (case substituteOutputs k eff drv s of (x, s') \<Rightarrow> (x, s', l))"
proof -
  have "reSubst (traced eff) = traced_subst (reSubst eff)" by (simp add: traced_def)
  then show ?thesis by (simp add: substituteOutputs_def substituteClosure_def traced_closure split: prod.split)
qed

subsection \<open>Logs\<close>

definition drv_of :: "dep_graph \<Rightarrow> store_path \<Rightarrow> derivation" where
  "drv_of g p = dnDerivation (the (map_of g p))"

definition was_reported :: "dep_graph \<Rightarrow> event list \<Rightarrow> store_path \<Rightarrow> bool" where
  "was_reported g l p \<longleftrightarrow> (\<exists>st. ReportOf st (drv_of g p) \<in> set l)"

text \<open>Every path is built once at most, is one of the graph, and all it depends on was realised before.\<close>

definition in_order :: "dep_graph \<Rightarrow> event list \<Rightarrow> bool" where
  "in_order g l \<longleftrightarrow> (\<forall>ys p zs. l = ys @ BuildOf p # zs \<longrightarrow>
     p \<in> nodes g \<and> BuildOf p \<notin> set ys \<and> (\<forall>d \<in> set (deps_in g p). was_reported g ys d))"

text \<open>Every build succeeded, and was reported at once.\<close>

definition all_built :: "dep_graph \<Rightarrow> event list \<Rightarrow> bool" where
  "all_built g l \<longleftrightarrow> (\<forall>ys p zs. l = ys @ BuildOf p # zs \<longrightarrow> (\<exists>zs'. zs = ReportOf Built (drv_of g p) # zs'))"

lemma snoc_split: "l @ [e] = ys @ x # zs \<longleftrightarrow> (ys = l \<and> x = e \<and> zs = []) \<or> (\<exists>zs'. zs = zs' @ [e] \<and> l = ys @ x # zs')"
  by (cases zs rule: rev_cases) auto

lemma in_order_snoc:
  "in_order g (l @ [e]) \<longleftrightarrow> in_order g l \<and>
     (\<forall>p. e = BuildOf p \<longrightarrow> p \<in> nodes g \<and> BuildOf p \<notin> set l \<and> (\<forall>d \<in> set (deps_in g p). was_reported g l d))"
  unfolding in_order_def snoc_split by blast

lemma all_built_report: "all_built g l \<Longrightarrow> all_built g (l @ [ReportOf st d])"
  unfolding all_built_def snoc_split by fastforce

lemma all_built_build: "all_built g l \<Longrightarrow> all_built g (l @ [BuildOf p, ReportOf Built (drv_of g p)])"
proof -
  assume a: "all_built g l"
  show ?thesis
    unfolding all_built_def
  proof (intro allI impI)
    fix ys q zs
    assume "l @ [BuildOf p, ReportOf Built (drv_of g p)] = ys @ BuildOf q # zs"
    then have "(l @ [BuildOf p]) @ [ReportOf Built (drv_of g p)] = ys @ BuildOf q # zs" by simp
    then obtain zs' where z: "zs = zs' @ [ReportOf Built (drv_of g p)]" "l @ [BuildOf p] = ys @ BuildOf q # zs'"
      unfolding snoc_split by auto
    then show "\<exists>zs'. zs = ReportOf Built (drv_of g q) # zs'"
      using a unfolding all_built_def snoc_split by fastforce
  qed
qed

subsection \<open>The invariant\<close>

text \<open>Among the paths V that were looked at, those of A wait for their inputs; the others of the graph are realised.\<close>

definition sched :: "dep_graph \<Rightarrow> store_path set \<Rightarrow> store_path set \<Rightarrow> event list \<Rightarrow> bool" where
  "sched g A V l \<longleftrightarrow> in_order g l \<and> all_built g l \<and> A \<subseteq> V \<and> (\<forall>p. BuildOf p \<in> set l \<longrightarrow> p \<in> V - A) \<and>
     (\<forall>v \<in> V \<inter> nodes g - A. was_reported g l v)"

definition sched_ends ::
  "dep_graph \<Rightarrow> store_path set \<Rightarrow> store_path set \<Rightarrow> store_path set \<Rightarrow> (realise_failure + store_path set) \<times> 's \<times> event list \<Rightarrow> bool"
  where
  "sched_ends g A V goal res \<longleftrightarrow> (case res of (r, _, l) \<Rightarrow> (case r of
       Inr V' \<Rightarrow> V \<subseteq> V' \<and> goal \<inter> nodes g \<subseteq> V' \<and> sched g A V' l
     | Inl f \<Rightarrow> in_order g l \<and> (case f of BuildFailed _ \<Rightarrow> \<exists>q p. l = q @ [BuildOf p] \<and> all_built g q | _ \<Rightarrow> all_built g l)))"

lemma sched_start: "sched g A V l \<Longrightarrow> node \<notin> V \<Longrightarrow> sched g (insert node A) (insert node V) l"
  unfolding sched_def by auto

lemma was_reported_snoc: "was_reported g l d \<Longrightarrow> was_reported g (l @ l') d"
  by (auto simp: was_reported_def)

lemma sched_report:
  "sched g (insert node A) V l \<Longrightarrow> node \<notin> A \<Longrightarrow> sched g A V (l @ [ReportOf st (drv_of g node)])"
  unfolding sched_def by (auto simp: in_order_snoc all_built_report was_reported_def)

lemma sched_build:
  assumes "sched g (insert node A) V l" and "node \<notin> A" and "node \<in> nodes g" and "\<forall>d \<in> set (deps_in g node). was_reported g l d"
  shows "sched g A V (l @ [BuildOf node, ReportOf Built (drv_of g node)])" and "in_order g (l @ [BuildOf node])"
proof -
  have b: "BuildOf node \<notin> set l" using assms(1) unfolding sched_def by auto
  show o1: "in_order g (l @ [BuildOf node])" using assms b unfolding sched_def in_order_snoc by auto
  have "in_order g ((l @ [BuildOf node]) @ [ReportOf Built (drv_of g node)])" using o1 unfolding in_order_snoc [of g "l @ [BuildOf node]"] by simp
  then show "sched g A V (l @ [BuildOf node, ReportOf Built (drv_of g node)])"
    using assms(1,2) all_built_build [of g l node] unfolding sched_def by (auto simp: was_reported_def)
qed

text \<open>Deciding on an outcome of substitution: report, stop or go on.\<close>

lemma settle_ends:
  assumes "sched g (insert node A) V' l" and "node \<notin> A" and "V \<subseteq> V'" and "node \<in> V'"
    and "\<And>r s' l'. f (s, l) = (r, s', l') \<Longrightarrow> sched_ends g A V {node} (r, s', l')"
  shows "sched_ends g A V {node} (settle (traced eff) fb node (drv_of g node) V' outcome f (s, l))"
proof (cases "outcome = ClosureComplete")
  case True
  then show ?thesis
    using sched_report [OF assms(1,2)] assms(3,4) by (auto simp: settle_def reported_def traced_def sched_ends_def)
next
  case False
  show ?thesis
  proof (cases "substitutionStop fb node outcome")
    case None
    obtain r s' l' where r: "f (s, l) = (r, s', l')" by (metis surj_pair)
    show ?thesis using None False assms(5) [OF r] r by (simp add: settle_def)
  next
    case (Some failure)
    then have "\<forall>e. failure \<noteq> BuildFailed e" by (cases outcome; cases fb) auto
    then show ?thesis
      using Some False assms(1) by (cases failure) (auto simp: settle_def sched_ends_def sched_def)
  qed
qed

lemma all_ends:
  assumes node_ends: "\<And>A V l s node. sched g A V l \<Longrightarrow> (node \<in> nodes g \<longrightarrow> (\<forall>a \<in> A. (a, node) \<in> (edges g)\<^sup>+)) \<Longrightarrow>
      sched_ends g A V {node} (realiseNode k n fb (traced eff) g V node (s, l))"
    and "sched g A V l" and "\<forall>x \<in> set xs \<inter> nodes g. \<forall>a \<in> A. (a, x) \<in> (edges g)\<^sup>+"
  shows "sched_ends g A V (set xs) (realiseAll k n fb (traced eff) g V xs (s, l))"
  using assms(2,3)
proof (induction xs arbitrary: V l s)
  case Nil
  then show ?case by (simp add: sched_ends_def)
next
  case (Cons x xs)
  obtain r s' l' where r: "realiseNode k n fb (traced eff) g V x (s, l) = (r, s', l')" by (metis surj_pair)
  have e: "sched_ends g A V {x} (r, s', l')" using node_ends [OF Cons.prems(1), of x s] Cons.prems(2) r by simp
  show ?case
  proof (cases r)
    case (Inl f)
    then show ?thesis using e r by (simp add: sched_ends_def)
  next
    case (Inr deeper)
    then have d: "V \<subseteq> deeper" "{x} \<inter> nodes g \<subseteq> deeper" "sched g A deeper l'" using e by (simp_all add: sched_ends_def)
    have "sched_ends g A deeper (set xs) (realiseAll k n fb (traced eff) g deeper xs (s', l'))"
      using Cons.prems(2) by (intro Cons.IH d(3)) simp
    then show ?thesis using r Inr d(1,2) by (auto simp: sched_ends_def split: prod.splits sum.splits)
  qed
qed

lemma node_outside: "node \<notin> nodes g \<longleftrightarrow> map_of g node = None"
  by (simp add: nodes_def map_of_eq_None_iff)

lemma build_ends:
  assumes "sched g (insert node A) V' l" and "node \<notin> A" and "node \<in> nodes g" and "\<forall>d \<in> set (deps_in g node). was_reported g l d"
    and "V \<subseteq> V'" and "node \<in> V'" and "build_one (traced eff) (drv_of g node) node V' (s, l) = (r, s', l')"
  shows "sched_ends g A V {node} (r, s', l')"
proof -
  obtain x s1 where x: "reBuild eff (drv_of g node) node s = (x, s1)" by fastforce
  show ?thesis
  proof (cases x)
    case (Inl err)
    then have "r = Inl (BuildFailed err)" "l' = l @ [BuildOf node]"
      using assms(7) x by (simp_all add: build_one_def traced_def)
    then show ?thesis using sched_build(2) [OF assms(1-4)] assms(1) by (auto simp: sched_ends_def sched_def)
  next
    case (Inr u)
    then have "r = Inr V'" "l' = l @ [BuildOf node, ReportOf Built (drv_of g node)]"
      using assms(7) x by (simp_all add: build_one_def traced_def reported_def)
    then show ?thesis using sched_build(1) [OF assms(1-4)] assms(5,6) by (auto simp: sched_ends_def)
  qed
qed

lemma node_ends:
  assumes ac: "acyclic (edges g)"
  shows "sched g A V l \<Longrightarrow> (node \<in> nodes g \<longrightarrow> (\<forall>a \<in> A. (a, node) \<in> (edges g)\<^sup>+)) \<Longrightarrow>
      sched_ends g A V {node} (realiseNode k n fb (traced eff) g V node (s, l))"
proof (induction n arbitrary: A V l s node)
  case 0
  then show ?case by (simp add: sched_ends_def sched_def)
next
  case (Suc n)
  show ?case
  proof (cases "node \<in> V \<or> node \<notin> nodes g")
    case True
    then show ?thesis using Suc.prems(1) by (auto simp: sched_ends_def node_outside)
  next
    case False
    then obtain depNode where dn: "map_of g node = Some depNode" "node \<notin> V" "node \<in> nodes g" using node_outside by blast
    have drv: "dnDerivation depNode = drv_of g node" using dn by (simp add: drv_of_def)
    have A: "node \<notin> A" "A \<subseteq> V" using Suc.prems(1) dn(2) by (auto simp: sched_def)
    note start = sched_start [OF Suc.prems(1) dn(2)]
    obtain valid s1 where v: "reAllValid eff (drv_of g node) s = (valid, s1)" by fastforce
    have v': "reAllValid (traced eff) (drv_of g node) (s, l) = (valid, s1, l)" using v by (simp add: traced_def with_log_pair)
    show ?thesis
    proof (cases valid)
      case True
      then show ?thesis
        using dn v' sched_report [OF start A(1)]
        by (auto simp: drv reported_def traced_def sched_ends_def Let_def)
    next
      case False
      obtain firstTry s2 where f: "substituteOutputs k eff (drv_of g node) s1 = (firstTry, s2)" by fastforce
      have f': "substituteOutputs k (traced eff) (drv_of g node) (s1, l) = (firstTry, s2, l)" using f by (simp add: traced_outputs)
      let ?go = "\<lambda>sl. case realiseAll k n fb (traced eff) g (insert node V) (directDeps g node) sl of
                  (Inl err, s3) \<Rightarrow> (Inl err, s3)
                | (Inr realised, s3) \<Rightarrow> (case retried k (traced eff) (drv_of g node) firstTry s3 of
                    (again, s4) \<Rightarrow> settle (traced eff) fb node (drv_of g node) realised again
                      (build_one (traced eff) (drv_of g node) node realised) s4)"
      have e: "realiseNode k (Suc n) fb (traced eff) g V node (s, l) =
          settle (traced eff) fb node (drv_of g node) (insert node V) firstTry ?go (s2, l)"
        using dn v' f' False by (simp add: drv Let_def)
      have "sched_ends g A V {node} (r, s', l')" if go: "?go (s2, l) = (r, s', l')" for r s' l'
      proof -
        obtain r3 s3 l3 where a: "realiseAll k n fb (traced eff) g (insert node V) (directDeps g node) (s2, l) = (r3, s3, l3)" by (metis surj_pair)
        have up: "\<forall>x \<in> set (directDeps g node) \<inter> nodes g. \<forall>a \<in> insert node A. (a, x) \<in> (edges g)\<^sup>+"
        proof (intro ballI)
          fix x a assume x: "x \<in> set (directDeps g node) \<inter> nodes g" and "a \<in> insert node A"
          then have "(node, x) \<in> edges g" by (simp add: edges_def deps_in_def)
          then show "(a, x) \<in> (edges g)\<^sup>+" using Suc.prems(2) dn(3) \<open>a \<in> insert node A\<close> by (auto intro: trancl_into_trancl)
        qed
        have ends: "sched_ends g (insert node A) (insert node V) (set (directDeps g node)) (r3, s3, l3)"
          using all_ends [OF Suc.IH start up, where s = s2] a by simp
        show ?thesis
        proof (cases r3)
          case (Inl err)
          then show ?thesis using ends go a by (auto simp: sched_ends_def)
        next
          case (Inr V')
          then have V': "insert node V \<subseteq> V'" "set (directDeps g node) \<inter> nodes g \<subseteq> V'" "sched g (insert node A) V' l3"
            using ends by (simp_all add: sched_ends_def)
          have "was_reported g l3 d" if "d \<in> set (deps_in g node)" for d
          proof -
            have d: "d \<in> V' \<inter> nodes g" using that V'(2) by (auto simp: deps_in_def)
            have "(node, d) \<in> edges g" using that by (simp add: edges_def)
            then have "d \<notin> insert node A"
              using ac Suc.prems(2) dn(3) by (auto simp: acyclic_def dest: trancl_into_trancl)
            then show ?thesis using d V'(3) by (auto simp: sched_def)
          qed
          then have deps: "\<forall>d \<in> set (deps_in g node). was_reported g l3 d" by blast
          obtain again s4 where t: "retried k (traced eff) (drv_of g node) firstTry (s3, l3) = (again, s4, l3)"
          proof (cases "substituteOutputs k eff (drv_of g node) s3")
            case (Pair x s4)
            then show thesis using that [of x s4] that [of firstTry s3]
              by (cases "firstTry = ClosureIncomplete") (simp_all add: retried_def traced_outputs)
          qed
          have "sched_ends g A V {node} (settle (traced eff) fb node (drv_of g node) V' again
              (build_one (traced eff) (drv_of g node) node V') (s4, l3))"
            using V' A deps dn(3) by (intro settle_ends [OF V'(3) A(1)] build_ends [OF V'(3) A(1) dn(3) deps]) auto
          then show ?thesis using go a Inr t by simp
        qed
      qed
      then show ?thesis
        unfolding e by (intro settle_ends [OF start A(1)]) auto
    qed
  qed
qed

subsection \<open>The walk ends\<close>

lemma traced_fuel:
  "fst (substituteClosure k (traced_subst eff) ps (s, l)) = fst (substituteClosure k eff ps s)"
  by (simp add: substituteClosure_def traced_closure split: prod.split)

lemma settle_fuel:
  assumes "outcome \<noteq> ClosureOutOfFuel" and "\<And>r s'. f s = (r, s') \<Longrightarrow> r \<noteq> Inl RealiseOutOfFuel \<and> (\<forall>V'. r = Inr V' \<longrightarrow> V \<subseteq> V')" and "V \<subseteq> W"
    and "settle eff fb node drv W outcome f s = (r, s')"
  shows "r \<noteq> Inl RealiseOutOfFuel \<and> (\<forall>V'. r = Inr V' \<longrightarrow> V \<subseteq> V')"
  using assms by (cases outcome; cases fb) (auto simp: settle_def reported_def)

lemma realise_fuel:
  assumes k: "\<forall>ps s. fst (substituteClosure k (reSubst eff) ps s) \<noteq> ClosureOutOfFuel"
  shows "card (nodes g - V) < n \<Longrightarrow> realiseNode k n fb eff g V node s = (r, s') \<Longrightarrow>
      r \<noteq> Inl RealiseOutOfFuel \<and> (\<forall>V'. r = Inr V' \<longrightarrow> V \<subseteq> V')"
proof (induction n arbitrary: V node s r s')
  case (Suc n)
  have fin: "finite (nodes g)" by (simp add: nodes_def)
  have all: "card (nodes g - V) < n \<Longrightarrow> realiseAll k n fb eff g V xs s = (r, s') \<Longrightarrow>
      r \<noteq> Inl RealiseOutOfFuel \<and> (\<forall>V'. r = Inr V' \<longrightarrow> V \<subseteq> V')" for V xs s r s'
  proof (induction xs arbitrary: V s)
    case (Cons x xs)
    obtain r1 s1 where x: "realiseNode k n fb eff g V x s = (r1, s1)" by fastforce
    note i = Suc.IH [OF Cons.prems(1) x]
    show ?case
    proof (cases r1)
      case (Inr deeper)
      then have "V \<subseteq> deeper" using i by simp
      then have "card (nodes g - deeper) < n"
        using Cons.prems(1) fin by (meson Diff_mono card_mono finite_Diff le_less_trans subset_refl)
      from Cons.IH [OF this, of s1] show ?thesis using Cons.prems(2) x Inr \<open>V \<subseteq> deeper\<close> by auto
    qed (use i x Cons.prems(2) in auto)
  qed auto
  show ?case
  proof (cases "node \<in> V \<or> node \<notin> nodes g")
    case True
    then have "realiseNode k (Suc n) fb eff g V node s = (Inr V, s)" by (auto simp: node_outside)
    then show ?thesis using Suc.prems(2) by auto
  next
    case False
    then obtain depNode where dn: "map_of g node = Some depNode" "node \<notin> V" "node \<in> nodes g" using node_outside by blast
    obtain valid s1 where v: "reAllValid eff (dnDerivation depNode) s = (valid, s1)" by fastforce
    obtain firstTry s2 where f: "substituteOutputs k eff (dnDerivation depNode) s1 = (firstTry, s2)" by fastforce
    have ft: "firstTry \<noteq> ClosureOutOfFuel" using k f unfolding substituteOutputs_def by (metis fst_conv)
    have "card (nodes g - insert node V) < card (nodes g - V)"
      by (rule psubset_card_mono) (use fin dn(2,3) in auto)
    then have c: "card (nodes g - insert node V) < n" using Suc.prems(1) by linarith
    let ?go = "\<lambda>s. case realiseAll k n fb eff g (insert node V) (directDeps g node) s of
                  (Inl err, s3) \<Rightarrow> (Inl err, s3)
                | (Inr realised, s3) \<Rightarrow> (case retried k eff (dnDerivation depNode) firstTry s3 of
                    (again, s4) \<Rightarrow> settle eff fb node (dnDerivation depNode) realised again
                      (build_one eff (dnDerivation depNode) node realised) s4)"
    have go: "r' \<noteq> Inl RealiseOutOfFuel \<and> (\<forall>V'. r' = Inr V' \<longrightarrow> V \<subseteq> V')" if g: "?go s2 = (r', s'')" for r' s''
    proof -
      obtain r3 s3 where a: "realiseAll k n fb eff g (insert node V) (directDeps g node) s2 = (r3, s3)" by fastforce
      note i = all [OF c a]
      show ?thesis
      proof (cases r3)
        case (Inr V')
        obtain again s4 where t: "retried k eff (dnDerivation depNode) firstTry s3 = (again, s4)" by fastforce
        have ag: "again \<noteq> ClosureOutOfFuel"
          using t ft k unfolding retried_def substituteOutputs_def by (metis fst_conv)
        have bo: "b \<noteq> Inl RealiseOutOfFuel \<and> (\<forall>W. b = Inr W \<longrightarrow> V' \<subseteq> W)"
          if "build_one eff (dnDerivation depNode) node V' s4 = (b, s5)" for b s5
          using that by (auto simp: build_one_def reported_def split: prod.splits sum.splits)
        have "settle eff fb node (dnDerivation depNode) V' again (build_one eff (dnDerivation depNode) node V') s4 = (r', s'')"
          using g a Inr t by simp
        from settle_fuel [OF ag bo subset_refl this]
        have "r' \<noteq> Inl RealiseOutOfFuel \<and> (\<forall>W. r' = Inr W \<longrightarrow> V' \<subseteq> W)" by simp
        then show ?thesis using i Inr by auto
      qed (use i g a in auto)
    qed
    show ?thesis
    proof (cases valid)
      case True
      then show ?thesis using Suc.prems(2) dn v by (auto simp: reported_def Let_def)
    next
      case False
      then have "settle eff fb node (dnDerivation depNode) (insert node V) firstTry ?go s2 = (r, s')"
        using Suc.prems(2) dn v f by (simp add: Let_def)
      from settle_fuel [OF ft go subset_insertI this] show ?thesis .
    qed
  qed
qed simp

subsection \<open>The property\<close>

lemma realise_log:
  assumes "acyclic (edges g)" and "realise k n fb (traced eff) g root (s, []) = (res, s', log)"
  shows "in_order g log \<and>
    (case res of
       Inr _ \<Rightarrow> all_built g log \<and> (root \<in> nodes g \<longrightarrow> was_reported g log root)
     | Inl (BuildFailed e) \<Rightarrow> \<exists>before p. log = before @ [BuildOf p] \<and> all_built g before
     | Inl _ \<Rightarrow> all_built g log) \<and>
    ((\<forall>ps s. fst (substituteClosure k (reSubst eff) ps s) \<noteq> ClosureOutOfFuel) \<longrightarrow> length g < n \<longrightarrow> res \<noteq> Inl RealiseOutOfFuel)"
proof -
  obtain r where r: "realiseNode k n fb (traced eff) g {} root (s, []) = (r, s', log)"
    "res = (case r of Inl f \<Rightarrow> Inl f | Inr _ \<Rightarrow> Inr ())"
    using assms(2) by (auto simp: realise_def split: prod.splits sum.splits)
  have "sched g {} {} []" by (simp add: sched_def in_order_def all_built_def)
  from node_ends [OF assms(1) this, of root k n fb eff s] have e: "sched_ends g {} {} {root} (r, s', log)" using r(1) by simp
  have "res \<noteq> Inl RealiseOutOfFuel"
    if "\<forall>ps s. fst (substituteClosure k (reSubst eff) ps s) \<noteq> ClosureOutOfFuel" and "length g < n"
  proof -
    have "\<forall>ps sl. fst (substituteClosure k (reSubst (traced eff)) ps sl) \<noteq> ClosureOutOfFuel"
      using that(1) by (auto simp: traced_def traced_fuel)
    moreover have "card (nodes g - {}) < n"
      using that(2) card_length [of "map fst g"] by (simp add: nodes_def)
    ultimately have "r \<noteq> Inl RealiseOutOfFuel" using realise_fuel [of k "traced eff" g "{}" n fb root "(s, [])", OF _ _ r(1)] by simp
    then show ?thesis using r(2) by (cases r) auto
  qed
  note fuel = this
  show ?thesis
  proof (cases r)
    case (Inl f)
    then show ?thesis using e r(2) fuel by (cases f) (auto simp: sched_ends_def)
  next
    case (Inr V')
    then show ?thesis using e r(2) by (auto simp: sched_ends_def sched_def)
  qed
qed

text \<open>C8: Realising a graph without cycles, for any store, caches and builder. A path is built at most once, only if it is in the
  graph, and after all its dependencies there have been reported valid, substituted or built; a build that succeeds is
  reported before anything else is done, and a build that fails is the last thing that happens. Success means that the
  root was realised. With enough fuel, the number of nodes for the walk, it does not run out.\<close>

theorem realise_order:
  assumes "acyclic (edges g)" and "realise k n fb (traced eff) g root (s, []) = (res, s', log)"
  shows "in_order g log \<and>
    (case res of
       Inr _ \<Rightarrow> all_built g log \<and> (root \<in> nodes g \<longrightarrow> was_reported g log root)
     | Inl (BuildFailed e) \<Rightarrow> \<exists>before p. log = before @ [BuildOf p] \<and> all_built g before
     | Inl _ \<Rightarrow> all_built g log) \<and>
    ((\<forall>ps s. fst (substituteClosure k (reSubst eff) ps s) \<noteq> ClosureOutOfFuel) \<longrightarrow> length g < n \<longrightarrow> res \<noteq> Inl RealiseOutOfFuel)"
  by (rule realise_log [OF assms])

text \<open>A builder that builds everything: 1 needs 2 and 3, which both need 4, and 3 is in the store.\<close>

definition demo_builder :: "unit realise_effects" where
  "demo_builder = \<lparr>reSubst = \<lparr>seValid = \<lambda>p s. (False, s), seReferences = \<lambda>p s. (NotOffered, s), seFetch = \<lambda>ps s. (Fetched, s)\<rparr>,
     reAllValid = \<lambda>drv s. (drvBuilder drv = [3], s), reBuild = \<lambda>drv p s. (Inr (), s), reReport = \<lambda>st drv s. s\<rparr>"

definition demo_node :: "u8 \<Rightarrow> u8 list \<Rightarrow> store_path \<times> dep_node" where
  "demo_node b ds = (demo_input b, node_of (demo_input b)
     (plain_drv (map demo_input ds)\<lparr>drvBuilder := [b], drvOutputs := [\<lparr>doName = [], doPath = demo_input b, doHashAlgo = [], doHash = []\<rparr>]\<rparr>))"

text \<open>The log is what it should be: 4 and 3 before 2 and 1, 3 not built.\<close>

definition demo_plan :: dep_graph where
  "demo_plan = [demo_node 1 [2, 3], demo_node 2 [4], demo_node 3 [4], demo_node 4 []]"

theorem realise_order_witness:
  "\<exists>log. realise 1 5 NoFallback (traced demo_builder) demo_plan (demo_input 1) ((), []) = (Inr (), (), log) \<and>
     filter (\<lambda>e. case e of BuildOf p \<Rightarrow> True | _ \<Rightarrow> False) log = [BuildOf (demo_input 4), BuildOf (demo_input 2), BuildOf (demo_input 1)] \<and>
     in_order demo_plan log \<and> all_built demo_plan log \<and> was_reported demo_plan log (demo_input 1)"
proof -
  have a: "ascending demo_plan" by (simp add: demo_plan_def demo_node_def demo_input_def less_store_path_def)
  have "topoSort demo_plan = TopoSorted [demo_input 4, demo_input 2, demo_input 3, demo_input 1]"
    by (simp add: demo_plan_def demo_node_def topo_eval)
  from sorted_acyclic [OF a this] have ac: "acyclic (edges demo_plan)" .
  have out: "substituteOutputs (Suc 0) (traced demo_builder) drv ((), l) = (ClosureUnavailable, (), l)" if "drvOutputs drv = [out]" for drv out l
    unfolding traced_outputs using that by (simp add: substituteOutputs_def substituteClosure_def demo_builder_def)
  have five: "(5 :: nat) = Suc (Suc (Suc (Suc (Suc 0))))" by simp
  have eff: "reAllValid (traced demo_builder) drv (u, l) = (drvBuilder drv = [3], u, l)"
    "reBuild (traced demo_builder) drv p (u, l) = (Inr (), (), l @ [BuildOf p])"
    "reReport (traced demo_builder) st drv (u, l) = ((), l @ [ReportOf st drv])" for drv p st u l
    by (simp_all add: traced_def demo_builder_def with_log_pair)
  obtain res u log where r: "realise 1 5 NoFallback (traced demo_builder) demo_plan (demo_input 1) ((), []) = (res, u, log)" by (metis surj_pair)
  have "res = Inr () \<and> filter (\<lambda>e. case e of BuildOf p \<Rightarrow> True | _ \<Rightarrow> False) log = [BuildOf (demo_input 4), BuildOf (demo_input 2), BuildOf (demo_input 1)]"
    using r
    by (auto simp add: realise_def five demo_plan_def demo_node_def out Let_def demo_input_def node_of_def plain_drv_def directDeps_def
        settle_def retried_def build_one_def reported_def eff)
  moreover have "demo_input 1 \<in> nodes demo_plan" by (simp add: demo_plan_def demo_node_def nodes_def)
  ultimately show ?thesis using realise_order [OF ac r] r by auto
qed

end
