(* ===== verification/Nova_Build.thy ===== *)
theory Nova_Build
  imports Nova_Schedule
begin

section \<open>Building with dependencies\<close>

text \<open>
  The composition of src/src/Nix/Builder.hs (\<open>buildWithDeps\<close>): the graph of the root is read, sorted to refuse
  cycles, and realised. The reader of .drv files and the effects are parameters that share a state. The fuel of the
  walk over the graph is one more than its nodes; k is the fuel of a substitution.
\<close>

datatype 'err build_failure = GraphError 'err | CycleDetected | RealiseFailed realise_failure | NoOutputsDefined

definition buildWithDeps ::
  "nat \<Rightarrow> fallback \<Rightarrow> (store_path \<Rightarrow> 's \<Rightarrow> ('err + derivation) \<times> 's) \<Rightarrow> 's realise_effects \<Rightarrow> derivation \<Rightarrow> store_path \<Rightarrow> 's \<Rightarrow>
     (('err build_failure + store_path) \<times> 's) option" where
  "buildWithDeps k fb readDrv eff rootDrv rootDrvPath s = (case buildDepGraph readDrv rootDrv rootDrvPath s of
     None \<Rightarrow> None
   | Some (Inl err, s1) \<Rightarrow> Some (Inl (GraphError err), s1)
   | Some (Inr depGraph, s1) \<Rightarrow> (case topoSort depGraph of
       TopoCycle _ \<Rightarrow> Some (Inl CycleDetected, s1)
     | TopoSorted _ \<Rightarrow> (case realise k (Suc (length depGraph)) fb eff depGraph rootDrvPath s1 of
         (Inl failure, s2) \<Rightarrow> Some (Inl (RealiseFailed failure), s2)
       | (Inr _, s2) \<Rightarrow> (case drvOutputs rootDrv of
           firstOut # _ \<Rightarrow> Some (Inr (doPath firstOut), s2)
         | [] \<Rightarrow> Some (Inl NoOutputsDefined, s2)))))"

text \<open>Reading leaves the log as it is.\<close>

lemma reads_keep:
  assumes "\<And>p s. ob (snd (readDrv p s)) = ob s"
  shows "ob (snd (resolveAll readDrv deps s)) = ob s"
proof (induction deps arbitrary: s)
  case (Cons dep deps)
  obtain x s1 where "readDrv dep s = (x, s1)" by fastforce
  then show ?case using assms [of dep s] Cons.IH [of s1] by (auto split: sum.split prod.split)
qed simp

lemma build_keeps:
  assumes "\<forall>p s. ob (snd (readDrv p s)) = ob s" and "build_go readDrv visited queue s = Some y"
  shows "ob (snd y) = ob s"
proof -
  have "(\<forall>p s. ob (snd (readDrv p s)) = ob s) \<longrightarrow> ob (snd y) = ob s"
  proof (rule build_go.raw_induct [where P = "\<lambda>readDrv visited queue s y. (\<forall>p s. ob (snd (readDrv p s)) = ob s) \<longrightarrow> ob (snd y) = ob s",
        OF _ assms(2)], intro impI)
    fix go readDrv visited queue s y
    assume ih: "\<And>readDrv visited queue s y. go readDrv visited queue s = Some y \<Longrightarrow>
        (\<forall>p s. ob (snd (readDrv p s)) = ob s) \<longrightarrow> ob (snd y) = ob s"
      and y: "(case queue of [] \<Rightarrow> Some (Inr visited, s)
        | (sp, drv) # rest \<Rightarrow>
            if map_member sp visited then go readDrv visited rest s
            else (case resolveNewDeps readDrv (map_insert sp (node_of sp drv) visited) (dnDeps (node_of sp drv)) s of
                (Inl err, s1) \<Rightarrow> Some (Inl err, s1)
              | (Inr newItems, s1) \<Rightarrow> go readDrv (map_insert sp (node_of sp drv) visited) (rest @ newItems) s1)) = Some y"
      and keep: "\<forall>p s. ob (snd (readDrv p s)) = ob s"
    show "ob (snd y) = ob s"
    proof (cases queue)
      case Nil
      then show ?thesis using y by auto
    next
      case (Cons q rest)
      obtain sp drv where q: "q = (sp, drv)" by (cases q)
      show ?thesis
      proof (cases "map_member sp visited")
        case True
        then show ?thesis using y Cons q ih [of readDrv visited rest s y] keep by simp
      next
        case False
        obtain x s1 where x: "resolveNewDeps readDrv (map_insert sp (node_of sp drv) visited) (dnDeps (node_of sp drv)) s = (x, s1)" by fastforce
        have "ob (snd (resolveNewDeps readDrv (map_insert sp (node_of sp drv) visited) (dnDeps (node_of sp drv)) s)) = ob s"
          unfolding resolveNewDeps_def using keep by (intro reads_keep) simp
        then have s1: "ob s1 = ob s" using x by simp
        show ?thesis
        proof (cases x)
          case (Inl err)
          then show ?thesis using y Cons q False x s1 by auto
        next
          case (Inr items)
          then have "go readDrv (map_insert sp (node_of sp drv) visited) (rest @ items) s1 = Some y" using y Cons q False x by simp
          then show ?thesis using ih keep s1 by fastforce
        qed
      qed
    qed
  qed
  then show ?thesis using assms(1) by blast
qed

lemma edges_wants:
  assumes "\<forall>p \<in> nodes g. \<exists>d. drv_at store rootDrv root p = Some d \<and> map_of g p = Some (node_of p d) \<and> set (directDeps g p) \<subseteq> nodes g"
  shows "edges g = wants store rootDrv root \<inter> nodes g \<times> nodes g" and "\<forall>p \<in> nodes g. drv_at store rootDrv root p = Some (drv_of g p)"
proof -
  have "(p, q) \<in> edges g \<longleftrightarrow> (p, q) \<in> wants store rootDrv root \<and> q \<in> nodes g" if "p \<in> nodes g" for p q
  proof -
    obtain d where "drv_at store rootDrv root p = Some d" "map_of g p = Some (node_of p d)" using assms \<open>p \<in> nodes g\<close> by blast
    then show ?thesis by (auto simp: wants_def edges_def deps_in_def directDeps_def node_of_def)
  qed
  then show "edges g = wants store rootDrv root \<inter> nodes g \<times> nodes g" using edges_nodes [of g] by blast
  show "\<forall>p \<in> nodes g. drv_at store rootDrv root p = Some (drv_of g p)"
    using assms by (fastforce simp: drv_of_def node_of_def)
qed

definition reachable_drvs :: "(store_path \<Rightarrow> 'err + derivation) \<Rightarrow> derivation \<Rightarrow> store_path \<Rightarrow> store_path set" where
  "reachable_drvs store rootDrv root = (wants store rootDrv root)\<^sup>* `` {root}"

text \<open>A graph of exactly the reachable derivations.\<close>

definition graph_of :: "(store_path \<Rightarrow> 'err + derivation) \<Rightarrow> derivation \<Rightarrow> store_path \<Rightarrow> dep_graph \<Rightarrow> bool" where
  "graph_of store rootDrv root g \<longleftrightarrow> ascending g \<and> nodes g = reachable_drvs store rootDrv root \<and>
     edges g = wants store rootDrv root \<inter> nodes g \<times> nodes g \<and> (\<forall>p \<in> nodes g. drv_at store rootDrv root p = Some (drv_of g p))"

text \<open>Reading the graph builds nothing; it ends with a derivation that cannot be read or with the graph of the root.\<close>

lemma graph_read:
  assumes "\<forall>p s. fst (readDrv p s) = store p" and "finite (reachable_drvs store rootDrv root)"
  obtains (unreadable) err s1 p where "buildDepGraph (\<lambda>p. with_log (readDrv p)) rootDrv root (s, []) = Some (Inl err, s1, [])"
      "p \<in> reachable_drvs store rootDrv root" "p \<noteq> root" "store p = Inl err"
    | (graph) g s1 where "buildDepGraph (\<lambda>p. with_log (readDrv p)) rootDrv root (s, []) = Some (Inr g, s1, [])"
      "graph_of store rootDrv root g"
proof -
  let ?read = "\<lambda>p. with_log (readDrv p)"
  have reads: "\<forall>p sl. fst (?read p sl) = store p" using assms(1) by (auto simp: with_log_def split: prod.splits) (metis fst_conv)
  have keeps: "\<forall>p sl. snd (snd (?read p sl)) = snd sl" by (simp add: with_log_def split: prod.splits)
  obtain r s1 l where b: "buildDepGraph ?read rootDrv root (s, []) = Some (r, s1, l)"
    and r: "case r of
       Inl err \<Rightarrow> \<exists>p \<in> reachable_drvs store rootDrv root. p \<noteq> root \<and> store p = Inl err
     | Inr g \<Rightarrow> ascending g \<and> nodes g = reachable_drvs store rootDrv root \<and>
         (\<forall>p \<in> nodes g. \<exists>d. drv_at store rootDrv root p = Some d \<and> map_of g p = Some (node_of p d) \<and> set (directDeps g p) \<subseteq> nodes g)"
    using built_graph [OF reads assms(2) [unfolded reachable_drvs_def], of "(s, [])"] unfolding reachable_drvs_def by auto
  have l: "l = []" using build_keeps [OF keeps b [unfolded buildDepGraph_def]] by simp
  show thesis
  proof (cases r)
    case (Inl err)
    then show thesis using b r l unreadable by auto
  next
    case (Inr g)
    then have g: "ascending g" "nodes g = reachable_drvs store rootDrv root"
      "\<forall>p \<in> nodes g. \<exists>d. drv_at store rootDrv root p = Some d \<and> map_of g p = Some (node_of p d) \<and> set (directDeps g p) \<subseteq> nodes g"
      using r unfolding Inr sum.case by blast+
    have "graph_of store rootDrv root g" using g edges_wants [OF g(3)] by (simp add: graph_of_def)
    then show thesis using b Inr l graph by simp
  qed
qed


text \<open>A root that needs 2, of which no cache knows anything: 2 is built, then the root.\<close>

definition demo_root :: derivation where
  "demo_root = (plain_drv [demo_input 2])\<lparr>drvOutputs := [\<lparr>doName = [], doPath = demo_input 9, doHashAlgo = [], doHash = []\<rparr>]\<rparr>"

definition demo_store :: "store_path \<Rightarrow> string + derivation" where
  "demo_store p = (if p = demo_input 2 then Inr (demo_root\<lparr>drvInputDrvs := []\<rparr>) else Inl ''missing'')"

lemma demo_never_out: "fst (substituteClosure (Suc 0) (reSubst demo_builder) ps s) \<noteq> ClosureOutOfFuel"
proof -
  have m: "missing_paths (reSubst demo_builder) ps s = (ps, s)" for s by (induction ps) (simp_all add: demo_builder_def)
  have d: "declared_references (reSubst demo_builder) ps s = (Inr (map (\<lambda>_. None) ps), s)" for s by (induction ps) (simp_all add: demo_builder_def)
  have "those (map (\<lambda>_. None) ps) = (if ps = [] then Some [] else None :: store_path list list option)" by (cases ps) simp_all
  then show ?thesis by (simp add: substituteClosure_def m d split: prod.split del: missing_paths.simps declared_references.simps)
qed


end
