(* ===== verification/Spec2Isabelle.thy ===== *)
theory Spec2Isabelle
  imports Nova_Arena_Spec Nova_Platform Nova_Runtime Nova_Aterm Nova_Build
begin

text \<open>
  nova-nix, an implementation of the Nix language and its store: the C data layer under src/cbits, which keeps
  everything the evaluator allocates off Haskell's garbage-collected heap, and the parts of the Haskell program under
  src/src/Nix that turn an expression into the code that layer holds, that lay out the frames the code runs in, and
  that write and read the derivations evaluation ends with and decide in which order they are had or built.
  Everything here is single-threaded.

  THE C DATA LAYER

    nn_symbol.c    Interned strings: a byte arena, an entry array and an open-addressing hash table.
                   Nova_Symbol (state and operations), Nova_Slots (the probe sequence), Nova_Interner (the
                   interface \<open>interner\<close> and its clients), Nova_Intern, Nova_Symbol_Spec.
    nn_attrset.c   Attribute sets: three parallel arrays, frozen by a sort that keeps the last row of a key.
                   Nova_Attrset, then Nova_Attrset_Rows, _Sort, _Freeze, _Ops, _Spec.
    nn_thunk.c     Thunk cells in blocks, their states (pending, black hole, computed) and the walks that
                   collect StablePtrs. Nova_Thunk, Nova_Thunk_Spec.
    nn_env.c       Environments and slot arrays in bump-allocated pages.
                   Nova_Env, Nova_Env_Mem (the page allocator), Nova_Env_Abs (environments as a tree),
                   Nova_Env_Make (constructors), Nova_Env_Spec.
    nn_list.c      Lists: tracked headers over items in the environment pages. Nova_List, Nova_List_Spec.
    nn_lambda.c    Closures with an array of formals. Nova_Lambda, Nova_Lambda_Spec.
    nn_ctxstr.c    Strings with an array of context elements. Nova_Ctxstr, Nova_Ctxstr_Spec.
    nn_bytecode.c  The instruction store: two arrays that grow by doubling. Nova_Bytecode, Nova_Bytecode_Spec.
    nn_arena.c     The lifecycle of the whole layer, with the call sequences of src/Nix/Eval/Arena.hs.
                   Nova_Lifecycle (the interface \<open>window\<close>), Nova_Arena, Nova_Arena_Spec.
    nn_darwinfs.c, nn_winfs.c, nn_assert.h   Nova_Platform; \<open>NN_ASSERT\<close> is in Nova_Prelude.
    Nova_Elems and Nova_Track hold what the modules with sized arrays and tracked headers share.

  Definitions carry the names of the C functions and return what the C returns, with the state passed in
  and out. Integers are words of the C width. A struct is a record, a set of file-scope variables one record
  of the module's state. A pointer value (\<open>val\<close>) is a block and an offset, or 64 bits that are never
  followed; a header a module tracks is a block of that module's heap, a partial map. malloc is an
  \<open>allocator\<close>, which may refuse any request and never answers the same block twice; every theorem
  holds for each of them. \<open>Inl Abort\<close> is abort(), \<open>Inl Undefined\<close> is undefined behaviour (a dangling or
  out-of-bounds access, a double free) and \<open>Inl Diverge\<close> a loop that does not end; where a theorem
  says a call is \<open>Inr\<close>, it excludes all three. The flag \<open>dbg\<close> is a build without NDEBUG.

  FROM AN EXPRESSION TO CODE (HASKELL)

    Expr/Types.hs        Nova_Expr: the expressions, mutually recursive datatypes with the source's constructors.
    Expr/Resolve.hs      Nova_Resolve (resolveVars: a name becomes a level and a slot, a global or a with-variable)
                         and Nova_Paths (resolveRelativePaths).
    Expr/ClosureTrim.hs  Nova_Trim: free variables, captures, renumbering.
    Parser.hs            Nova_Frontend: the order of the passes after parsing (bind_and_trim).
    Eval/Symbol.hs, Eval/CBytecode.hs, Eval/CStatus.hs   Nova_Hs: the wrappers of the C calls with their checks, in a
                         monad of the layer's state and exceptions.
    Eval/Compile.hs      Nova_Compile (the compiler), Nova_Decode (the decoders of the same file).
    Eval.hs              Nova_Frames: the slots of a let, a recursive set and a call, and the attributes of a set.

  The compiler runs on the C layer's own model: a symbol is what nn_symbol_intern answers, an instruction what
  nn_bytecode_emit stores. What its theorems are stated with:

    Nova_World           a \<open>world\<close> is a layer and an allocator; \<open>world_wf\<close> is its invariant, \<open>plenty\<close> a grant of memory.
    Nova_Code            \<open>code dbg l j e i\<close>: instruction i of the layer l is code for the expression e.
    Nova_Emit, Nova_Compile_Spec, Nova_Compile_Main, Nova_Compile_Correct, Nova_Once, Nova_Compiler   the compiler
                         keeps \<open>code\<close> of everything before and adds \<open>code\<close> of its argument, is refused exactly with the
                         exception for the limit that is exceeded, and succeeds within \<open>weight\<close>; code determines its
                         expression up to what positions lose.
    Nova_Meaning         \<open>den\<close>: the meaning of an expression for any evaluator, given the environment (frames of slots and
                         captures) each part is evaluated in. What the evaluator does with the parts is a parameter.
    Nova_Names           \<open>nden\<close>: the same over scopes of names; \<open>unbound\<close>: the first variable nothing binds.
    Nova_Trim_Free, Nova_Trim_Spec, Nova_Captures, Nova_Resolve_Spec   each pass keeps the meaning; what is captured.
    Nova_Scoped, Nova_Scoped_Spec   \<open>scoped\<close>: the typing of slots and captures in frames, and that the passes give it.
    Nova_Frames_Spec, Nova_Runtime   the frames that the evaluator lays out from decoded code are the ones resolution
                         numbered.

  FROM A DERIVATION TO A BUILD (HASKELL)

    Store/Path.hs        Nova_Store_Path: the names of things in the store, printed, parsed and checked.
    Derivation.hs        Nova_Derivation: derivations, their ATerm form, its hashed variant, and the parser.
    DependencyGraph.hs   Nova_Graph: the graph of the derivations a build needs, Kahn's sort, the queries.
    Realise.hs           Nova_Realise: substitution of a closure, and the walk that substitutes or builds each node.
    Builder.hs           Nova_Build: buildWithDeps, which composes the graph, the sort and the walk.
    Nova_Data_Map        a Data.Map as the ascending list of its entries.

  Paths and texts are lists of bytes, the parser a function from the input to an error or a value with the rest. The
  record of effects that Realise.hs takes is a record of functions on a state of any type: what the store, the caches
  and the builder do is a parameter, and the theorems quantify over it. Its properties are stated with:

    Nova_Store_Path_Spec, Nova_Derivation_Spec, Nova_Aterm   \<open>valid_store_path\<close>, \<open>derivation_ok\<close>: what can be written;
                         \<open>canonical\<close>: the order that printing fixes; reading is the inverse of writing.
    Nova_Graph_Spec, Nova_Order   \<open>edges\<close>, \<open>nodes\<close>: a graph as a relation; \<open>deps_first\<close>: each node after its dependencies.
    Nova_Substitute      \<open>subst_laws\<close>: the documented behaviour of the effects; \<open>store_closed\<close>: valid paths refer to valid
                         paths only; \<open>ranked\<close>: references lead down.
    Nova_Schedule        \<open>traced\<close> adds to any effects a log of what is built and reported; \<open>in_order\<close>: its order.

  THE INTERFACES

    \<open>interner\<close>        a table that identifies strings (instance: the symbol table)
    \<open>tracking\<close>        append to the array of headers to free (instances: attribute sets, lists, closures,
                      context strings)
    \<open>slot_allocator\<close>  arrays that are new and zeroed (instance: nn_env_alloc_slots; client: lists)
    \<open>element_store\<close>   an object with a sized array behind a guarded setter (instances: closures, context
                      strings)
    \<open>emitter\<close>         append and answer the index (instances: instructions, operand words)
    \<open>window\<close>          init, destroy and live (instances: symbols, thunks, environments, instructions;
                      client: the arena)

  WHAT IS PROVED

  Symbols refine a list of distinct strings: equal symbols are equal strings, symbols read back, every
  probe and every growth ends. Attribute sets refine finite maps through insertion, freezing (both sorts),
  lookup, union and removal; this theory composes the two: a set keyed by symbols is a finite map from
  strings. A computed thunk is never written again; enumeration and the two StablePtr
  walks visit each cell once. The page allocator hands out zeroed memory that overlaps nothing; environments
  refine a tree, lookups agree with it, the walk to the root ends, and any run of calls leaves every
  environment as it was. Lists refine HOL lists, suffixes share. Closures and context strings give back
  what was stored and guard every index. Instructions read back through all growth, the reserved ones for
  the store's whole life. The teardown frees every header and collects every StablePtr exactly once,
  and a closed layer refuses every request.

  For the whole way from a parsed expression to running code: the passes fail exactly on a variable that no
  scope, global or with binds, and report the first; otherwise their result means, in every environment and for
  any evaluator, what the source means under static scoping with absolute paths; its levels, slots and captures lie
  in frames; a closure captures exactly the outer variables its source uses. The compiler refines expressions
  into instructions that decode to them, through every growth of the layer. And the frame that the evaluator makes
  from those instructions has, slot by slot, what resolution numbered.

  For the way from a derivation to a build: exactly the spellings of valid store paths parse, and a valid name stays
  inside the store directory. A derivation written is read back, so two have the same bytes only if they are the same
  up to the order printing fixes; the parser returns on every input, and what it accepts can be written and read again;
  the form that is hashed does not depend on output paths. The graph of a root has exactly the reachable derivations;
  sorting it gives an order exactly when it has no cycle. Substitution keeps the store closed under references however
  it ends. A realisation builds each path at most once, after all it depends on, and stops at the first failed
  build; a build from a root is the composition of these.

  BOUNDS

  Loops over counts are structural recursions; the loops without a count (the probe, the capacity loops, the
  walk to the root) are \<open>partial_function\<close>s whose termination is part of the theorems. The compiler is structural
  on the expression; \<open>weight\<close>, a number that a compilation never exceeds in instructions, words, symbols or bytes,
  says when it must succeed. No fuel is used there, except in \<open>bc_decode\<close>, a reading aid of the specification whose
  depth 3 covers the reserved code. The list parser of .drv files has the number of bytes left as fuel, and never runs
  out because its separator takes one. The search for the graph is a \<open>partial_function\<close> that returns when finitely
  many derivations are reachable. The walks of Realise.hs carry a fuel: for a substitution, one more than the number of
  paths that are referenced at all is enough; for the walk over the graph, one more than its nodes, which is what
  \<open>buildWithDeps\<close> gives it.

  NOT MODELLED

  The lexer, the parser and the printer; the evaluator apart from its frames (what it does with the parts of an
  expression is a parameter of the meanings, what forcing an argument gives one of the frames); the builtins; the
  builder process with the scan and registration of its outputs, the database and file system of the store, hashing,
  downloading and unpacking, which are input and output or third-party code behind the effects of Realise.hs;
  the command line. Of the parts modelled: the wording of error messages
  and the messages before an abort; the operations of Store/Path.hs that make or rewrite host paths on Windows; isRelative and the path concatenation of the package filepath,
  parameters of the path pass; the lookup in with-scopes, part of the evaluator's parameter; the operating
  system behind the two platform probes, whose answers are parameters; the qsort of the C library, a parameter of
  \<open>nn_attrset_freeze\<close> with its documented contract as a hypothesis; the demonstration programs under pkgs. A
  Haskell Text is its UTF-8 bytes. The padding of structs and the content of freed or never written memory have
  no meaning in the model: reading a cell that is not alive is \<open>Undefined\<close>, and a cell that malloc handed out
  and nobody wrote has an arbitrary value.
\<close>

section \<open>Symbols and attribute sets together\<close>

lemma row_map_snoc: "row_map (rs @ [r]) k = (if fst r = k then Some (snd r) else row_map rs k)"
  by (cases r) (simp add: row_map_def)

text \<open>Renaming the keys of some rows keeps a key's last value, when the new names tell that key apart.\<close>

lemma row_map_rename:
  assumes "length ks = length bs" and "\<forall>i < length bs. ks ! i = k \<longleftrightarrow> fst (bs ! i) = q"
  shows "row_map (map2 (\<lambda>k b. (k, snd b)) ks bs) k = row_map bs q"
  using assms
proof (induction bs arbitrary: ks rule: rev_induct)
  case Nil
  then show ?case by (simp add: row_map_def)
next
  case (snoc b bs)
  then obtain ks' k' where ks: "ks = ks' @ [k']" "length ks' = length bs"
    by (metis length_append_singleton length_Suc_conv_rev)
  have e: "ks ! i = k \<longleftrightarrow> fst ((bs @ [b]) ! i) = q" if "i < Suc (length bs)" for i
    using snoc.prems(2) that by simp
  have init: "\<forall>i < length bs. ks' ! i = k \<longleftrightarrow> fst (bs ! i) = q"
  proof (intro allI impI)
    fix i assume i: "i < length bs"
    then show "ks' ! i = k \<longleftrightarrow> fst (bs ! i) = q" using e [of i] ks by (simp add: nth_append)
  qed
  have last: "k' = k \<longleftrightarrow> fst b = q" using e [of "length bs"] ks by (simp add: nth_append)
  show ?case using snoc.IH [OF ks(2) init] ks last by (simp add: row_map_snoc)
qed

text \<open>C27: A lookup by name. The names of some bindings and the name that is asked for are interned, a set is
  built from the bindings with the symbols for names, inserted one after the other and frozen, and the
  symbol of the name is looked up in it: the answer is the value of the last binding of that very string,
  or NULL when no binding has it. So an attribute set keyed by symbols behaves as the finite map from
  strings the evaluator means, through every growth of the table and of the set.\<close>

theorem attrs_by_name:
  assumes "sym_wf t" and "al_ok al = (\<lambda>_ _. True)"
    and "names_bytes (sym_names t) + names_bytes (map fst bs @ [q]) \<le> 2 ^ 32"
    and "length (sym_names t) + length bs + 1 < 1610612736"
    and "attrset_wf s" and "rows s = []" and "as_frozen s = 0" and "qsort_conforms qsort"
    and "al_ok al2 = (\<lambda>_ _. True)"
  shows "\<exists>syms symb al1 t1. intern_all intern_bytes al t (map fst bs @ [q]) = Inr (syms @ [symb], al1, t1) \<and>
    (case insert_all al2 s (map2 (\<lambda>k b. (k, snd b)) syms bs) of (ok, al3, s1) \<Rightarrow> ok \<and>
      (case nn_attrset_freeze qsort al3 s1 of (al4, s2) \<Rightarrow>
         nn_attrset_lookup s2 symb = (case row_map bs q of None \<Rightarrow> NULL | Some (pos, v) \<Rightarrow> v)))"
proof -
  let ?ss = "map fst bs @ [q]"
  have fits: "\<forall>x \<in> set ?ss. length x < 2 ^ 32" using names_bytes_member assms(3) by fastforce
  obtain rs al1 t1 where r: "intern_all intern_bytes al t ?ss = Inr (rs, al1, t1)" "length rs = length ?ss"
    using nn.intern_all_result [OF assms(1) fits, of al] by blast
  obtain syms symb where rs: "rs = syms @ [symb]" "length syms = length bs"
    using r(2) by (metis length_append_singleton length_map length_Suc_conv_rev)
  have nz: "0 \<notin> set rs" by (rule intern_all_fits [OF assms(1-3) _ r(1)]) (use assms(4) in simp)
  have "syms ! i = symb \<longleftrightarrow> fst (bs ! i) = q" if i: "i < length bs" for i
  proof -
    have "rs ! i \<noteq> 0" "rs ! length bs \<noteq> 0" using nz r(2) i by (metis length_append_singleton length_map lessI less_SucI nth_mem)+
    then have "rs ! i = rs ! length bs \<longleftrightarrow> ?ss ! i = ?ss ! length bs"
      using i by (intro nn.symbols_identify [OF assms(1) fits r(1)]) simp_all
    then show ?thesis using i rs by (simp add: nth_append)
  qed
  then have m: "row_map (map2 (\<lambda>k b. (k, snd b)) syms bs) symb = row_map bs q"
    using rs(2) by (intro row_map_rename) simp_all
  have "length (map2 (\<lambda>k b. (k, snd b)) syms bs) \<le> 4294967295" using assms(4) rs(2) by simp
  note b = build_lookup [OF assms(5-9) this, of symb, unfolded m]
  show ?thesis
    by (intro exI [of _ syms] exI [of _ symb] exI [of _ al1] exI [of _ t1] conjI b r(1) [unfolded rs(1)])
qed

lemma empty_set_wf: "attrset_wf (sample_set\<lparr>as_count := 0\<rparr>)" "rows (sample_set\<lparr>as_count := 0\<rparr>) = []"
  "as_frozen (sample_set\<lparr>as_count := 0\<rparr>) = 0"
  by (simp_all add: attrset_wf_def rows_def) (simp_all add: sample_set_def)

theorem attrs_by_name_witness:
  "\<exists>syms symb al1 t1 al3 al4 s1 s2.
     intern_all intern_bytes al_all tiny_table [[97], [98], [97], [97]] = Inr (syms @ [symb], al1, t1) \<and>
     insert_all al_all (sample_set\<lparr>as_count := 0\<rparr>)
       (map2 (\<lambda>k b. (k, snd b)) syms [([97 :: u8], 1, Raw 10), ([98], 2, Raw 20), ([97], 3, Raw 30)]) = (True, al3, s1) \<and>
     nn_attrset_freeze sort_by al3 s1 = (al4, s2) \<and> nn_attrset_lookup s2 symb = Raw 30"
proof -
  let ?bs = "[([97], 1, Raw 10), ([98], 2, Raw 20), ([97], 3, Raw 30)] :: (u8 list \<times> u32 \<times> val) list"
  have all: "al_ok al_all = (\<lambda>_ _. True)" by (simp add: al_all_def)
  have "names_bytes (sym_names tiny_table) + names_bytes (map fst ?bs @ [[97]]) \<le> 2 ^ 32"
    "length (sym_names tiny_table) + length ?bs + 1 < 1610612736"
    by (simp_all add: tiny_table_names names_bytes_def)
  then obtain syms symb al1 t1 where r: "intern_all intern_bytes al_all tiny_table (map fst ?bs @ [[97]]) = Inr (syms @ [symb], al1, t1)"
    "case insert_all al_all (sample_set\<lparr>as_count := 0\<rparr>) (map2 (\<lambda>k b. (k, snd b)) syms ?bs) of (ok, al3, s1) \<Rightarrow> ok \<and>
      (case nn_attrset_freeze sort_by al3 s1 of (al4, s2) \<Rightarrow>
         nn_attrset_lookup s2 symb = (case row_map ?bs [97] of None \<Rightarrow> NULL | Some (pos, v) \<Rightarrow> v))"
    using attrs_by_name [OF tiny_table_wf all _ _ empty_set_wf sort_by_conforms all, of ?bs "[97]"]
    by (elim meta_impE exE conjE) (assumption | rule that)+
  obtain ok al3 s1 where i: "insert_all al_all (sample_set\<lparr>as_count := 0\<rparr>) (map2 (\<lambda>k b. (k, snd b)) syms ?bs) = (ok, al3, s1)"
    by (metis prod_cases3)
  obtain al4 s2 where f: "nn_attrset_freeze sort_by al3 s1 = (al4, s2)" by (metis surj_pair)
  have "row_map ?bs [97] = Some (3, Raw 30)" by (simp add: row_map_def)
  with r(2) [unfolded i prod.case f] have ok: "ok = True" and v: "nn_attrset_lookup s2 symb = Raw 30" by simp_all
  have names: "map fst ?bs @ [[97]] = [[97], [98], [97], [97]]" by simp
  show ?thesis
    by (intro exI conjI) (rule r(1) [unfolded names], rule i [unfolded ok], rule f, rule v)
qed

end
